(* ===== verification/SkhuPrelude.thy ===== *)
theory SkhuPrelude
  imports Main "HOL-Library.Word" "HOL-Library.Monad_Syntax" "HOL-Library.Signed_Division"
begin

text \<open>
  Shared ground of the development: the integer types of \<^verbatim>\<open>common/Type.h\<close>, pointers,
  little-endian byte encodings of the machine's integers, overwriting of a byte buffer, and
  the collections the component theories fill.

  Conventions. A C \<^verbatim>\<open>int\<close> whose range is bounded by the code is an \<^typ>\<open>int\<close>; a
  \<^verbatim>\<open>BYTE\<close>, \<^verbatim>\<open>WORD\<close>, \<^verbatim>\<open>DWORD\<close> or \<^verbatim>\<open>QWORD\<close> keeps its width. The
  C remainder on \<^verbatim>\<open>int\<close> is the truncating \<open>smod\<close>. An \<open>option\<close> result \<open>None\<close>
  stands for a call that does not return (an endless loop) or that leaves the bounds of an
  array; every theorem that a call works states that its result is \<open>Some\<close>.
\<close>

unbundle bit_operations_syntax

section \<open>Integer types and pointers\<close>

type_synonym BYTE = "8 word"
type_synonym WORD = "16 word"
type_synonym DWORD = "32 word"
type_synonym QWORD = "64 word"
type_synonym ptr = nat

abbreviation (input) NULL :: ptr where "NULL \<equiv> 0"

named_theorems kernel_defs \<open>definitions of the small state updates of the kernel\<close>
named_theorems frame_simps \<open>fields an operation leaves unchanged\<close>

section \<open>Little-endian encodings\<close>

fun le_encode :: "nat \<Rightarrow> nat \<Rightarrow> BYTE list" where
  "le_encode 0 v = []"
| "le_encode (Suc n) v = word_of_nat (v mod 256) # le_encode n (v div 256)"

fun le_decode :: "BYTE list \<Rightarrow> nat" where
  "le_decode [] = 0"
| "le_decode (b # bs) = unat b + 256 * le_decode bs"

lemma length_le_encode [simp]: "length (le_encode n v) = n"
  by (induction n arbitrary: v) auto

lemma le_decode_encode [simp]: "v < 256 ^ n \<Longrightarrow> le_decode (le_encode n v) = v"
proof (induction n arbitrary: v)
  case 0
  then show ?case by simp
next
  case (Suc n)
  then have "v div 256 < 256 ^ n" by (simp add: less_mult_imp_div_less mult.commute)
  moreover have "unat (word_of_nat (v mod 256) :: BYTE) = v mod 256"
    by (simp add: unat_of_nat)
  ultimately show ?case by (simp add: Suc.IH)
qed

lemma le_decode_bound: "le_decode bs < 256 ^ length bs"
proof (induction bs)
  case (Cons b bs)
  have "unat b < 256" using unsigned_less [of b] by simp
  with Cons show ?case by simp
qed simp

lemma le_encode_decode [simp]: "length bs = n \<Longrightarrow> le_encode n (le_decode bs) = bs"
proof (induction n arbitrary: bs)
  case (Suc n)
  then obtain b cs where bs: "bs = b # cs" and len: "length cs = n" by (cases bs) auto
  have b: "unat b < 256" using unsigned_less [of b] by simp
  then have "(unat b + 256 * le_decode cs) mod 256 = unat b"
    and "(unat b + 256 * le_decode cs) div 256 = le_decode cs" by simp_all
  with Suc.IH [OF len] show ?case by (simp add: bs)
qed simp

section \<open>Buffers\<close>

text \<open>\<open>splice xs i ys\<close> is \<open>xs\<close> with the bytes from index \<open>i\<close> overwritten by \<open>ys\<close>.\<close>

definition splice_at :: "'a list \<Rightarrow> nat \<Rightarrow> 'a list \<Rightarrow> 'a list" where
  "splice_at xs i ys = take i xs @ ys @ drop (i + length ys) xs"

definition chunk :: "nat \<Rightarrow> nat \<Rightarrow> 'a list \<Rightarrow> 'a list" where
  "chunk i n xs = take n (drop i xs)"

lemma length_splice_at [simp]: "i + length ys \<le> length xs \<Longrightarrow> length (splice_at xs i ys) = length xs"
  by (simp add: splice_at_def)

lemma length_chunk [simp]: "i + n \<le> length xs \<Longrightarrow> length (chunk i n xs) = n"
  by (simp add: chunk_def)

lemma chunk_splice_same [simp]:
  "i + length ys \<le> length xs \<Longrightarrow> n = length ys \<Longrightarrow> chunk i n (splice_at xs i ys) = ys"
  by (simp add: chunk_def splice_at_def)

lemma nth_splice_at:
  "i + length ys \<le> length xs \<Longrightarrow> k < length xs \<Longrightarrow>
   splice_at xs i ys ! k = (if i \<le> k \<and> k < i + length ys then ys ! (k - i) else xs ! k)"
  by (auto simp: splice_at_def nth_append min_def)

lemma nth_chunk: "i + n \<le> length xs \<Longrightarrow> k < n \<Longrightarrow> chunk i n xs ! k = xs ! (i + k)"
  by (simp add: chunk_def)

lemma chunk_splice_other:
  assumes "i + length ys \<le> length xs" and "j + n \<le> length xs"
    and "j + n \<le> i \<or> i + length ys \<le> j"
  shows "chunk j n (splice_at xs i ys) = chunk j n xs"
  by (rule nth_equalityI) (use assms in \<open>auto simp: nth_chunk nth_splice_at\<close>)

section \<open>C remainder on non-negative operands\<close>

lemma smod_nonneg: "0 \<le> a \<Longrightarrow> 0 < b \<Longrightarrow> (a::int) smod b = a mod b"
  by (simp add: signed_modulo_int_def signed_divide_int_def minus_div_mult_eq_mod mult.commute
      modulo_int_def sgn_if)

section \<open>Double words as numbers\<close>

lemma unat_DWORD: "a < 2 ^ 32 \<Longrightarrow> unat (word_of_nat a :: DWORD) = a"
  by (simp add: unat_of_nat)

lemma sint_DWORD:
  assumes "unat (w :: DWORD) < 2 ^ 31"
  shows "sint w = int (unat w)"
proof -
  have "sint w = (int (unat w) + 2 ^ 31) mod 2 ^ 32 - 2 ^ 31"
    using int_word_sint [where 'a = 32, of "uint w"] by simp
  also have "\<dots> = int (unat w)" using assms by (subst mod_pos_pos_trivial) (simp_all del: of_nat_unat)
  finally show ?thesis .
qed

section \<open>Option monad\<close>

lemma bind_eq_SomeD: "Option.bind m f = Some y \<Longrightarrow> \<exists>x. m = Some x \<and> f x = Some y"
  by (cases m) auto

end
