(* ===== verification/LinkedList.thy ===== *)
theory LinkedList
  imports SkhuPrelude
begin

text \<open>
  The intrusive singly linked list of \<^verbatim>\<open>kernel/lib/LinkedList.c\<close>. The code casts the
  \<^verbatim>\<open>void *\<close> items to \<^verbatim>\<open>Node *\<close>, so the nodes live in a heap from pointers to
  \<^verbatim>\<open>Node\<close>; a list is its head, its tail and its count. The search loop of
  \<^verbatim>\<open>removeList\<close> follows \<^verbatim>\<open>next\<close> pointers and need not end on a cyclic
  heap: its result is an option. \<open>rep h l xs\<close> says that \<open>l\<close> holds the nodes \<open>xs\<close> in
  this order; the operations are shown to be the append and remove-first of that sequence,
  and to leave every other node alone.
\<close>

section \<open>Nodes, lists and the operations\<close>

record node =
  nxt :: ptr
  nid :: int

record linkedList =
  l_head :: ptr
  l_tail :: ptr
  l_count :: int

type_synonym nheap = "ptr \<Rightarrow> node"

definition initList :: "linkedList \<Rightarrow> linkedList" where
  "initList l = l\<lparr>l_count := 0, l_head := NULL, l_tail := NULL\<rparr>"

definition set_nxt :: "nheap \<Rightarrow> ptr \<Rightarrow> ptr \<Rightarrow> nheap" where
  "set_nxt h p q = h(p := (h p)\<lparr>nxt := q\<rparr>)"

definition insertList :: "nheap \<Rightarrow> linkedList \<Rightarrow> ptr \<Rightarrow> nheap \<times> linkedList" where
  "insertList h l item =
     (let h1 = set_nxt h item NULL;
          (h2, l2) = (if l_head l = NULL then (h1, l\<lparr>l_head := item\<rparr>)
                      else (set_nxt h1 (l_tail l) item, l))
      in (h2, l2\<lparr>l_tail := item, l_count := l_count l + 1\<rparr>))"

definition unlink :: "nheap \<Rightarrow> linkedList \<Rightarrow> ptr \<Rightarrow> ptr \<Rightarrow> nheap \<times> linkedList" where
  "unlink h l pre cur =
     (let (h1, l1) =
        (if cur = l_head l \<and> cur = l_tail l then (h, l\<lparr>l_head := NULL, l_tail := NULL\<rparr>)
         else if cur = l_head l then (h, l\<lparr>l_head := nxt (h cur)\<rparr>)
         else if cur = l_tail l then (set_nxt h pre NULL, l\<lparr>l_tail := pre\<rparr>)
         else (set_nxt h pre (nxt (h cur)), l))
      in (h1, l1\<lparr>l_count := l_count l - 1\<rparr>))"

partial_function (option) removeLoop ::
  "nheap \<Rightarrow> linkedList \<Rightarrow> int \<Rightarrow> ptr \<Rightarrow> ptr \<Rightarrow> (ptr \<times> nheap \<times> linkedList) option" where
  "removeLoop h l i pre cur =
     (if cur = NULL then Some (NULL, h, l)
      else if nid (h cur) = i then Some (cur, unlink h l pre cur)
      else removeLoop h l i cur (nxt (h cur)))"

definition removeList ::
  "nheap \<Rightarrow> linkedList \<Rightarrow> int \<Rightarrow> (ptr \<times> nheap \<times> linkedList) option" where
  "removeList h l i = removeLoop h l i (l_head l) (l_head l)"

definition HeadRemove :: "nheap \<Rightarrow> linkedList \<Rightarrow> (ptr \<times> nheap \<times> linkedList) option" where
  "HeadRemove h l =
     (if l_count l = 0 then Some (NULL, h, l) else removeList h l (nid (h (l_head l))))"

section \<open>Representation of a sequence of nodes\<close>

fun lseg :: "nheap \<Rightarrow> ptr \<Rightarrow> ptr list \<Rightarrow> ptr \<Rightarrow> bool" where
  "lseg h p [] q \<longleftrightarrow> p = q"
| "lseg h p (x # xs) q \<longleftrightarrow> p = x \<and> x \<noteq> NULL \<and> lseg h (nxt (h x)) xs q"

definition rep :: "nheap \<Rightarrow> linkedList \<Rightarrow> ptr list \<Rightarrow> bool" where
  "rep h l xs \<longleftrightarrow> lseg h (l_head l) xs NULL \<and> distinct xs \<and>
     l_tail l = (if xs = [] then NULL else last xs) \<and> l_count l = int (length xs)"

text \<open>The nodes of a list, computed by following \<^verbatim>\<open>next\<close> for \<^verbatim>\<open>count\<close> steps.\<close>

fun walk :: "nheap \<Rightarrow> ptr \<Rightarrow> nat \<Rightarrow> ptr list" where
  "walk h p 0 = []"
| "walk h p (Suc n) = p # walk h (nxt (h p)) n"

definition elems :: "nheap \<Rightarrow> linkedList \<Rightarrow> ptr list" where
  "elems h l = walk h (l_head l) (nat (l_count l))"

lemma lseg_append: "lseg h p (xs @ ys) q \<longleftrightarrow> (\<exists>r. lseg h p xs r \<and> lseg h r ys q)"
  by (induction xs arbitrary: p) auto

lemma lseg_cong:
  "(\<And>x. x \<in> set xs \<Longrightarrow> nxt (h' x) = nxt (h x)) \<Longrightarrow> lseg h' p xs q = lseg h p xs q"
  by (induction xs arbitrary: p) auto

lemma lseg_not_NULL: "lseg h p xs q \<Longrightarrow> NULL \<notin> set xs"
  by (induction xs arbitrary: p) auto

lemma lseg_walk: "lseg h p xs q \<Longrightarrow> walk h p (length xs) = xs"
  by (induction xs arbitrary: p) auto

lemma lseg_NULL_unique: "lseg h p xs NULL \<Longrightarrow> lseg h p ys NULL \<Longrightarrow> xs = ys"
proof (induction xs arbitrary: p ys)
  case Nil
  then show ?case by (cases ys) auto
next
  case (Cons x xs)
  then show ?case by (cases ys) auto
qed

lemma rep_elems: "rep h l xs \<Longrightarrow> elems h l = xs"
  by (auto simp: rep_def elems_def dest: lseg_walk)

lemma rep_not_NULL: "rep h l xs \<Longrightarrow> NULL \<notin> set xs"
  by (auto simp: rep_def dest: lseg_not_NULL)

lemma rep_distinct: "rep h l xs \<Longrightarrow> distinct xs"
  by (simp add: rep_def)

lemma rep_unique: "rep h l xs \<Longrightarrow> rep h l ys \<Longrightarrow> xs = ys"
  by (auto simp: rep_def dest: lseg_NULL_unique)

lemma rep_head: "rep h l xs \<Longrightarrow> l_head l = (case xs of [] \<Rightarrow> NULL | x # _ \<Rightarrow> x)"
  by (auto simp: rep_def split: list.split)

lemma rep_count: "rep h l xs \<Longrightarrow> l_count l = int (length xs)"
  by (simp add: rep_def)

lemma rep_frame:
  assumes "rep h l xs" and "\<And>x. x \<in> set xs \<Longrightarrow> nxt (h' x) = nxt (h x)"
  shows "rep h' l xs"
  using assms(1) lseg_cong [of xs h' h, OF assms(2)] by (simp add: rep_def)

lemma rep_initList: "rep h (initList l) []"
  by (simp add: rep_def initList_def)

lemma nid_set_nxt [simp]: "nid (set_nxt h p q x) = nid (h x)"
  by (simp add: set_nxt_def)

lemma nxt_set_nxt: "nxt (set_nxt h p q x) = (if x = p then q else nxt (h x))"
  by (simp add: set_nxt_def)

lemma set_nxt_other [simp]: "x \<noteq> p \<Longrightarrow> set_nxt h p q x = h x"
  by (simp add: set_nxt_def)

section \<open>The operations on the represented sequence\<close>

subsection \<open>Insertion appends at the tail\<close>

lemma insertList_nid [simp]: "nid (fst (insertList h l p) x) = nid (h x)"
  by (simp add: insertList_def Let_def split: if_splits)

lemma insertList_frame:
  assumes "rep h l xs" and "x \<notin> set xs" and "x \<noteq> p"
  shows "fst (insertList h l p) x = h x"
proof (cases "xs = []")
  case True
  with assms show ?thesis by (simp add: insertList_def Let_def rep_def)
next
  case False
  with assms(1) have "l_tail l = last xs" "l_head l \<noteq> NULL"
    by (auto simp: rep_def neq_Nil_conv)
  moreover from assms(2) have "x \<noteq> last xs" using last_in_set [OF False] by auto
  ultimately show ?thesis using assms(3) by (auto simp: insertList_def Let_def)
qed

lemma lseg_set_nxt_other: "p \<notin> set xs \<Longrightarrow> lseg (set_nxt h p q) a xs b = lseg h a xs b"
  by (rule lseg_cong) (auto simp: nxt_set_nxt)

lemma lseg_snoc_link:
  assumes "lseg h a (ys @ [t]) NULL" and "t \<notin> set ys"
  shows "lseg (set_nxt h t p) a (ys @ [t]) p"
  using assms by (auto simp: lseg_append lseg_set_nxt_other nxt_set_nxt)

lemma insertList_rep:
  assumes rep: "rep h l xs" and "p \<notin> set xs" and "p \<noteq> NULL"
  shows "rep (fst (insertList h l p)) (snd (insertList h l p)) (xs @ [p])"
proof (cases xs rule: rev_cases)
  case Nil
  with assms show ?thesis by (simp add: insertList_def Let_def rep_def nxt_set_nxt)
next
  case (snoc ys t)
  let ?h1 = "set_nxt h p NULL"
  from rep snoc have hd: "l_head l \<noteq> NULL" and tl: "l_tail l = t"
    and seg: "lseg h (l_head l) (ys @ [t]) NULL" and t: "t \<notin> set ys"
    by (cases ys; auto simp: rep_def)+
  from seg assms(2) snoc have "lseg ?h1 (l_head l) (ys @ [t]) NULL"
    by (simp add: lseg_set_nxt_other)
  with t have "lseg (set_nxt ?h1 t p) (l_head l) (ys @ [t]) p"
    by (simp add: lseg_snoc_link)
  then have "lseg (set_nxt ?h1 t p) (l_head l) ((ys @ [t]) @ [p]) NULL"
    using assms(2,3) snoc by (subst lseg_append) (auto simp: nxt_set_nxt)
  with assms snoc hd tl show ?thesis by (simp add: insertList_def Let_def rep_def)
qed

subsection \<open>Removal by id takes the first match\<close>

lemma unlink_nid [simp]: "nid (fst (unlink h l pre cur) x) = nid (h x)"
  by (simp add: unlink_def Let_def)

lemma unlink_frame: "x \<noteq> pre \<Longrightarrow> fst (unlink h l pre cur) x = h x"
  by (simp add: unlink_def Let_def)

lemma unlink_rep:
  assumes rep: "rep h l (ys @ p # zs)"
    and pre: "pre = (if ys = [] then p else last ys)"
  shows "rep (fst (unlink h l pre p)) (snd (unlink h l pre p)) (ys @ zs)"
proof (cases ys rule: rev_cases)
  case Nil
  have "p \<noteq> l_tail l" if "zs \<noteq> []"
    using rep Nil last_in_set [OF that] that by (auto simp: rep_def)
  with Nil rep show ?thesis by (cases "zs = []") (auto simp: rep_def unlink_def Let_def)
next
  case (snoc us t)
  have nh: "p \<noteq> l_head l" and t: "t \<notin> set us" "t \<notin> set zs" "t \<noteq> NULL" "p \<noteq> t"
    using rep snoc by (cases us; auto simp: rep_def lseg_append)+
  from rep snoc have seg: "lseg h (l_head l) us t" and z: "lseg h (nxt (h p)) zs NULL"
    by (auto simp: rep_def lseg_append)
  have seg': "lseg (set_nxt h t q) (l_head l) us t" for q
    using seg t by (simp add: lseg_set_nxt_other)
  show ?thesis
  proof (cases zs)
    case Nil
    with rep snoc nh pre seg' t show ?thesis
      by (auto simp: rep_def unlink_def Let_def lseg_append nxt_set_nxt)
  next
    case (Cons z zs')
    with rep have "p \<noteq> l_tail l" by (auto simp: rep_def)
    moreover have "lseg (set_nxt h t (nxt (h p))) (nxt (h p)) zs NULL"
      using z t by (simp add: lseg_set_nxt_other)
    ultimately show ?thesis using rep snoc nh pre seg' t Cons
      by (auto simp: rep_def unlink_def Let_def lseg_append nxt_set_nxt)
  qed
qed

lemma removeLoop_found:
  "lseg h cur (ys @ p # zs) NULL \<Longrightarrow> (\<forall>y \<in> set ys. nid (h y) \<noteq> i) \<Longrightarrow> nid (h p) = i \<Longrightarrow>
   removeLoop h l i pre cur = Some (p, unlink h l (if ys = [] then pre else last ys) p)"
proof (induction ys arbitrary: cur pre)
  case Nil
  then show ?case by (subst removeLoop.simps) auto
next
  case (Cons y ys)
  from Cons.prems have "cur = y" "y \<noteq> NULL" "nid (h y) \<noteq> i" by auto
  moreover from Cons.prems have
    "removeLoop h l i y (nxt (h y)) = Some (p, unlink h l (if ys = [] then y else last ys) p)"
    by (intro Cons.IH) auto
  ultimately show ?case by (subst removeLoop.simps) auto
qed

lemma removeLoop_absent:
  "lseg h cur xs NULL \<Longrightarrow> (\<forall>y \<in> set xs. nid (h y) \<noteq> i) \<Longrightarrow>
   removeLoop h l i pre cur = Some (NULL, h, l)"
proof (induction xs arbitrary: cur pre)
  case Nil
  then show ?case by (subst removeLoop.simps) auto
next
  case (Cons y ys)
  then have "cur = y" "y \<noteq> NULL" "nid (h y) \<noteq> i" by auto
  with Cons show ?case by (subst removeLoop.simps) auto
qed

lemma removeList_found:
  assumes rep: "rep h l (ys @ p # zs)" and "\<forall>y \<in> set ys. nid (h y) \<noteq> i" and "nid (h p) = i"
  obtains h' l' where "removeList h l i = Some (p, h', l')" and "rep h' l' (ys @ zs)"
    and "\<And>x. nid (h' x) = nid (h x)"
    and "\<And>x. x \<notin> set (ys @ p # zs) \<Longrightarrow> h' x = h x"
proof
  let ?pre = "if ys = [] then p else last ys"
  let ?u = "unlink h l ?pre p"
  have hd: "ys = [] \<Longrightarrow> l_head l = p" using rep by (simp add: rep_def)
  have "removeList h l i = Some (p, unlink h l (if ys = [] then l_head l else last ys) p)"
    unfolding removeList_def using assms by (intro removeLoop_found) (auto simp: rep_def)
  then show "removeList h l i = Some (p, fst ?u, snd ?u)" using hd by (cases "ys = []") simp_all
  show "rep (fst ?u) (snd ?u) (ys @ zs)" using rep by (rule unlink_rep) simp
  show "nid (fst ?u x) = nid (h x)" for x by simp
  show "fst ?u x = h x" if "x \<notin> set (ys @ p # zs)" for x
    using that by (intro unlink_frame) (cases ys rule: rev_cases; auto)
qed

lemma removeList_absent:
  "rep h l xs \<Longrightarrow> (\<forall>y \<in> set xs. nid (h y) \<noteq> i) \<Longrightarrow> removeList h l i = Some (NULL, h, l)"
  unfolding removeList_def by (rule removeLoop_absent) (auto simp: rep_def)

subsection \<open>Removal at the head\<close>

lemma HeadRemove_empty: "rep h l [] \<Longrightarrow> HeadRemove h l = Some (NULL, h, l)"
  by (simp add: HeadRemove_def rep_def)

lemma HeadRemove_cons:
  assumes rep: "rep h l (x # xs)"
  obtains h' l' where "HeadRemove h l = Some (x, h', l')" and "rep h' l' xs"
    and "\<And>y. nid (h' y) = nid (h y)"
    and "\<And>y. y \<notin> set (x # xs) \<Longrightarrow> h' y = h y"
proof -
  from rep have "l_head l = x" and "l_count l \<noteq> 0" by (auto simp: rep_def)
  then have hr: "HeadRemove h l = removeList h l (nid (h x))" by (simp add: HeadRemove_def)
  show ?thesis
    by (rule removeList_found [where ys = "[]", simplified, OF rep refl])
      (use that hr in auto)
qed

section \<open>The contract the list's clients rely on\<close>

text \<open>
  Several lists share one heap of nodes, and a node moves from one list to another (from the
  ready list to the running slot and back, from a wait list to the ready list). A client
  relies on the list operations being append, remove-by-key and remove-head of a sequence
  with a footprint: \<open>same h h' A\<close> says that two heaps agree outside \<open>A\<close>.
\<close>

locale node_lists =
  fixes reps :: "'h \<Rightarrow> 'l \<Rightarrow> 'p list \<Rightarrow> bool"
    and key :: "'h \<Rightarrow> 'p \<Rightarrow> int"
    and null :: 'p
    and same :: "'h \<Rightarrow> 'h \<Rightarrow> 'p set \<Rightarrow> bool"
    and ins :: "'h \<Rightarrow> 'l \<Rightarrow> 'p \<Rightarrow> 'h \<times> 'l"
    and rem :: "'h \<Rightarrow> 'l \<Rightarrow> int \<Rightarrow> ('p \<times> 'h \<times> 'l) option"
    and hrem :: "'h \<Rightarrow> 'l \<Rightarrow> ('p \<times> 'h \<times> 'l) option"
  assumes same_refl: "same h h {}"
    and same_trans: "same h h1 A \<Longrightarrow> same h1 h2 B \<Longrightarrow> same h h2 (A \<union> B)"
    and same_mono: "same h h1 A \<Longrightarrow> A \<subseteq> B \<Longrightarrow> same h h1 B"
    and reps_same: "reps h l xs \<Longrightarrow> same h h1 A \<Longrightarrow> A \<inter> set xs = {} \<Longrightarrow> reps h1 l xs"
    and reps_null: "reps h l xs \<Longrightarrow> null \<notin> set xs"
    and reps_distinct: "reps h l xs \<Longrightarrow> distinct xs"
    and ins_law: "reps h l xs \<Longrightarrow> p \<notin> set xs \<Longrightarrow> p \<noteq> null \<Longrightarrow> ins h l p = (h1, l1) \<Longrightarrow>
           reps h1 l1 (xs @ [p]) \<and> same h h1 (insert p (set xs)) \<and> key h1 = key h"
    and rem_law: "reps h l (ys @ p # zs) \<Longrightarrow> \<forall>y \<in> set ys. key h y \<noteq> key h p \<Longrightarrow>
           \<exists>h1 l1. rem h l (key h p) = Some (p, h1, l1) \<and> reps h1 l1 (ys @ zs) \<and>
             same h h1 (set (ys @ p # zs)) \<and> key h1 = key h"
    and rem_absent: "reps h l xs \<Longrightarrow> \<forall>y \<in> set xs. key h y \<noteq> k \<Longrightarrow> rem h l k = Some (null, h, l)"
    and hrem_nil: "reps h l [] \<Longrightarrow> hrem h l = Some (null, h, l)"
    and hrem_cons: "reps h l (x # xs) \<Longrightarrow>
           \<exists>h1 l1. hrem h l = Some (x, h1, l1) \<and> reps h1 l1 xs \<and>
             same h h1 (set (x # xs)) \<and> key h1 = key h"
begin

text \<open>Take the head off a list and put another node at its tail: one turn of the ready list.\<close>

lemma rotate:
  assumes "reps h l (x # xs)" and "p \<notin> set (x # xs)" and "p \<noteq> null"
  shows "\<exists>h1 l1 h2 l2. hrem h l = Some (x, h1, l1) \<and> ins h1 l1 p = (h2, l2) \<and>
           reps h2 l2 (xs @ [p]) \<and> same h h2 (insert p (set (x # xs))) \<and> key h2 = key h"
proof -
  obtain h1 l1 where 1: "hrem h l = Some (x, h1, l1)" "reps h1 l1 xs"
      "same h h1 (set (x # xs))" "key h1 = key h"
    using hrem_cons [OF assms(1)] by blast
  obtain h2 l2 where 2: "ins h1 l1 p = (h2, l2)" by (cases "ins h1 l1 p")
  with ins_law [OF 1(2) _ assms(3) this] assms(2)
  have 3: "reps h2 l2 (xs @ [p])" "same h1 h2 (insert p (set xs))" "key h2 = key h1" by auto
  have "same h h2 (insert p (set (x # xs)))"
    by (rule same_mono [OF same_trans [OF 1(3) 3(2)]]) auto
  with 1 2 3 show ?thesis by auto
qed

text \<open>
  Take a node off one list by its key, if it is there, and put it at the tail of another:
  the wake-up of a process. Keys tell the nodes of the first list apart.
\<close>

lemma transfer:
  assumes a: "reps h a xs" and b: "reps h b ys" and dj: "set xs \<inter> set ys = {}"
    and p: "p \<notin> set ys" "p \<noteq> null" and keys: "\<forall>y \<in> set xs. key h y = key h p \<longrightarrow> y = p"
  shows "\<exists>r h1 a1 h2 b2. rem h a (key h p) = Some (r, h1, a1) \<and> ins h1 b p = (h2, b2) \<and>
           reps h2 a1 (remove1 p xs) \<and> reps h2 b2 (ys @ [p]) \<and>
           same h h2 (set xs \<union> insert p (set ys)) \<and> key h2 = key h"
proof -
  have "\<exists>r h1 a1. rem h a (key h p) = Some (r, h1, a1) \<and> reps h1 a1 (remove1 p xs) \<and>
          same h h1 (set xs) \<and> key h1 = key h"
  proof (cases "p \<in> set xs")
    case True
    then obtain us vs where xs: "xs = us @ p # vs" and us: "p \<notin> set us"
      by (meson split_list_first)
    with keys have "\<forall>y \<in> set us. key h y \<noteq> key h p" by auto
    from rem_law [OF a [unfolded xs] this] show ?thesis using us by (auto simp: xs remove1_append)
  next
    case False
    with keys have "\<forall>y \<in> set xs. key h y \<noteq> key h p" by auto
    from rem_absent [OF a this] a False same_mono [OF same_refl] show ?thesis
      by (auto simp: remove1_idem)
  qed
  then obtain r h1 a1 where 1: "rem h a (key h p) = Some (r, h1, a1)"
      "reps h1 a1 (remove1 p xs)" "same h h1 (set xs)" "key h1 = key h" by blast
  have b1: "reps h1 b ys" using reps_same [OF b 1(3) dj] .
  obtain h2 b2 where 2: "ins h1 b p = (h2, b2)" by (cases "ins h1 b p")
  from ins_law [OF b1 p this] have 3: "reps h2 b2 (ys @ [p])"
      "same h1 h2 (insert p (set ys))" "key h2 = key h1" by auto
  have "insert p (set ys) \<inter> set (remove1 p xs) = {}"
    using dj set_remove1_subset [of p xs] reps_distinct [OF a] by auto
  with 1(2) 3(2) have "reps h2 a1 (remove1 p xs)" by (blast intro: reps_same)
  with 1 2 3 same_trans [OF 1(3) 3(2)] show ?thesis by auto
qed

end

definition same_outside :: "nheap \<Rightarrow> nheap \<Rightarrow> ptr set \<Rightarrow> bool" where
  "same_outside h h' A \<longleftrightarrow> (\<forall>x. x \<notin> A \<longrightarrow> h' x = h x)"

lemma rep_same_outside: "rep h l xs \<Longrightarrow> same_outside h h1 A \<Longrightarrow> A \<inter> set xs = {} \<Longrightarrow> rep h1 l xs"
  by (erule rep_frame) (auto simp: same_outside_def)

interpretation nl: node_lists rep "\<lambda>h x. nid (h x)" NULL same_outside insertList removeList HeadRemove
proof (unfold_locales, goal_cases)
  case (4 h l xs h1 A)
  then show ?case by (rule rep_same_outside)
next
  case (5 h l xs)
  then show ?case by (rule rep_not_NULL)
next
  case (6 h l xs)
  then show ?case by (rule rep_distinct)
next
  case (7 h l xs p h1 l1)
  then show ?case
    using insertList_rep [of h l xs p] insertList_frame [of h l xs _ p] insertList_nid [of h l p]
    by (auto simp: same_outside_def)
next
  case (8 h l ys p zs)
  then show ?case
    by (elim removeList_found [where i = "nid (h p)"]) (auto simp: same_outside_def)
next
  case (9 h l xs k)
  then show ?case by (rule removeList_absent)
next
  case (10 h l)
  then show ?case by (rule HeadRemove_empty)
next
  case (11 h l x xs)
  then show ?case by (elim HeadRemove_cons) (auto simp: same_outside_def)
qed (auto simp: same_outside_def)

end
