(* ===== verification/RingQueue.thy ===== *)
theory RingQueue
  imports SkhuPrelude
begin

text \<open>
  The ring buffer of \<^verbatim>\<open>kernel/lib/Queue.c\<close>, used for pids of exited processes and
  for key codes. An element is a block of \<^verbatim>\<open>dataSize\<close> bytes of the client's array; one
  slot stays empty to tell a full queue from an empty one. \<open>contents\<close> reads the elements
  in order; every operation is the bounded-FIFO operation on it.
\<close>

section \<open>State and operations\<close>

record queue =
  front :: int
  rear :: int
  q_len :: int
  dataSize :: int
  queueArr :: "BYTE list"

definition initQueue :: "BYTE list \<Rightarrow> int \<Rightarrow> int \<Rightarrow> queue" where
  "initQueue buffer queueLen sz =
     \<lparr>front = 0, rear = 0, q_len = queueLen, dataSize = sz, queueArr = buffer\<rparr>"

definition queueIsEmpty :: "queue \<Rightarrow> bool" where
  "queueIsEmpty q \<longleftrightarrow> front q = rear q"

definition queueIsFull :: "queue \<Rightarrow> bool" where
  "queueIsFull q \<longleftrightarrow> front q = (rear q + 1) smod q_len q"

definition enQueue :: "queue \<Rightarrow> BYTE list \<Rightarrow> bool \<times> queue" where
  "enQueue q data =
     (if queueIsFull q then (False, q)
      else (True, q\<lparr>queueArr := splice_at (queueArr q) (nat (dataSize q * rear q))
                                   (take (nat (dataSize q)) data),
                    rear := (rear q + 1) smod q_len q\<rparr>))"

definition deQueue :: "queue \<Rightarrow> BYTE list \<Rightarrow> bool \<times> BYTE list \<times> queue" where
  "deQueue q data =
     (if queueIsEmpty q then (False, data, q)
      else (True, splice_at data 0 (chunk (nat (dataSize q * front q)) (nat (dataSize q)) (queueArr q)),
            q\<lparr>front := (front q + 1) smod q_len q\<rparr>))"

section \<open>Invariant and contents\<close>

definition ring_ok :: "queue \<Rightarrow> bool" where
  "ring_ok q \<longleftrightarrow> 0 < q_len q \<and> 0 < dataSize q \<and> 0 \<le> front q \<and> front q < q_len q \<and>
     0 \<le> rear q \<and> rear q < q_len q \<and> int (length (queueArr q)) = dataSize q * q_len q"

definition slot :: "queue \<Rightarrow> int \<Rightarrow> BYTE list" where
  "slot q k = chunk (nat (dataSize q * k)) (nat (dataSize q)) (queueArr q)"

definition used :: "queue \<Rightarrow> nat" where
  "used q = nat ((rear q - front q) mod q_len q)"

definition contents :: "queue \<Rightarrow> BYTE list list" where
  "contents q = map (\<lambda>i. slot q ((front q + int i) mod q_len q)) [0..<used q]"

definition elem_ok :: "queue \<Rightarrow> BYTE list \<Rightarrow> bool" where
  "elem_ok q x \<longleftrightarrow> length x = nat (dataSize q)"

definition capacity :: "queue \<Rightarrow> nat" where
  "capacity q = nat (q_len q - 1)"

lemma length_contents [simp]: "length (contents q) = used q"
  by (simp add: contents_def)

lemma ring_ok_init:
  "0 < n \<Longrightarrow> 0 < sz \<Longrightarrow> int (length buf) = sz * n \<Longrightarrow> ring_ok (initQueue buf n sz)"
  by (simp add: ring_ok_def initQueue_def)

lemma contents_init: "contents (initQueue buf n sz) = []"
  by (simp add: contents_def used_def initQueue_def)

lemma used_less: "ring_ok q \<Longrightarrow> int (used q) < q_len q"
  by (simp add: used_def ring_ok_def)

text \<open>The slots \<open>front, front + 1, \<dots>\<close> modulo the length are pairwise distinct.\<close>

lemma mod_range_inj:
  assumes "0 < (n::int)" and "0 \<le> i" "i < n" "0 \<le> j" "j < n"
    and "(f + i) mod n = (f + j) mod n"
  shows "i = j"
proof -
  from assms(6) have "n dvd (f + i) - (f + j)" by (simp add: mod_eq_dvd_iff)
  then have "n dvd i - j" by simp
  then have "\<bar>n\<bar> \<le> \<bar>i - j\<bar> \<or> i - j = 0" using dvd_imp_le_int by blast
  with assms(1-5) show ?thesis by linarith
qed

lemma next_index:
  assumes "ring_ok q"
  shows "(rear q + 1) smod q_len q = (rear q + 1) mod q_len q"
    and "(front q + 1) smod q_len q = (front q + 1) mod q_len q"
  using assms by (simp_all add: ring_ok_def smod_nonneg)

lemma rear_used: "ring_ok q \<Longrightarrow> (front q + int (used q)) mod q_len q = rear q"
  by (simp add: used_def ring_ok_def mod_simps)

lemma queueIsEmpty_iff:
  assumes ok: "ring_ok q"
  shows "queueIsEmpty q \<longleftrightarrow> contents q = []"
proof -
  have "used q = 0 \<Longrightarrow> front q = rear q"
    using rear_used [OF ok] ok by (simp add: ring_ok_def)
  moreover have "front q = rear q \<Longrightarrow> used q = 0" by (simp add: used_def)
  moreover have "contents q = [] \<longleftrightarrow> used q = 0"
    by (simp only: length_0_conv [symmetric] length_contents)
  ultimately show ?thesis unfolding queueIsEmpty_def by metis
qed

lemma queueIsFull_iff:
  assumes ok: "ring_ok q"
  shows "queueIsFull q \<longleftrightarrow> used q = capacity q"
proof -
  let ?n = "q_len q" and ?u = "int (used q)"
  from ok have n: "0 < ?n" and u: "0 \<le> ?u" "?u < ?n"
    and f: "(front q + 0) mod ?n = front q" using used_less by (auto simp: ring_ok_def)
  have "(rear q + 1) mod ?n = (front q + ?u + 1) mod ?n"
    using rear_used [OF ok] by (metis mod_add_left_eq)
  then have full: "queueIsFull q \<longleftrightarrow> (front q + 0) mod ?n = (front q + (?u + 1)) mod ?n"
    using ok f by (simp add: queueIsFull_def next_index add.assoc)
  show ?thesis
  proof (cases "?u + 1 = ?n")
    case True
    then show ?thesis using full by (simp add: capacity_def)
  next
    case False
    with u have "?u + 1 < ?n" by linarith
    with mod_range_inj [OF n, of 0 "?u + 1" "front q"] u n
    have "(front q + 0) mod ?n \<noteq> (front q + (?u + 1)) mod ?n" by auto
    moreover from False u have "used q \<noteq> capacity q" by (auto simp: capacity_def)
    ultimately show ?thesis using full by simp
  qed
qed

section \<open>Enqueue appends, dequeue takes the head\<close>

lemma index_bound:
  assumes "ring_ok q"
  shows "0 \<le> (front q + i) mod q_len q" and "(front q + i) mod q_len q < q_len q"
  using assms by (simp_all add: ring_ok_def)

text \<open>Byte ranges of two different slots do not meet, and each lies inside the array.\<close>

lemma slot_range:
  assumes ok: "ring_ok q" and k: "0 \<le> k" "k < q_len q"
  shows "nat (dataSize q * k) + nat (dataSize q) \<le> length (queueArr q)"
proof -
  have "dataSize q * k + dataSize q = dataSize q * (k + 1)" by (simp add: algebra_simps)
  also have "\<dots> \<le> dataSize q * q_len q" using ok k by (simp add: ring_ok_def)
  finally show ?thesis using ok k by (simp add: ring_ok_def flip: nat_add_distrib) linarith
qed

lemma slot_disjoint:
  assumes ok: "ring_ok q" and "0 \<le> j" "0 \<le> k" "j \<noteq> k"
  shows "nat (dataSize q * j) + nat (dataSize q) \<le> nat (dataSize q * k) \<or>
         nat (dataSize q * k) + nat (dataSize q) \<le> nat (dataSize q * j)"
proof -
  have *: "nat (dataSize q * a) + nat (dataSize q) \<le> nat (dataSize q * b)"
    if "0 \<le> a" "a < b" for a b
  proof -
    have "dataSize q * a + dataSize q = dataSize q * (a + 1)" by (simp add: algebra_simps)
    also have "\<dots> \<le> dataSize q * b" using ok that by (simp add: ring_ok_def)
    finally show ?thesis using ok that by (simp add: ring_ok_def flip: nat_add_distrib)
  qed
  from assms(4) show ?thesis using *[of j k] *[of k j] assms(2,3) by linarith
qed

lemma slot_write:
  assumes ok: "ring_ok q" and x: "elem_ok q x" and k: "0 \<le> k" "k < q_len q"
    and j: "0 \<le> j" "j < q_len q"
    and q': "queueArr q' = splice_at (queueArr q) (nat (dataSize q * k)) x" "dataSize q' = dataSize q"
  shows "slot q' j = (if j = k then x else slot q j)"
proof -
  have len: "length x = nat (dataSize q)" using x by (simp add: elem_ok_def)
  note rk = slot_range [OF ok k] and rj = slot_range [OF ok j]
  show ?thesis
  proof (cases "j = k")
    case True
    then show ?thesis using rk len q' by (simp add: slot_def)
  next
    case False
    with slot_disjoint [OF ok j(1) k(1)] rk rj len q' show ?thesis
      by (simp add: slot_def chunk_splice_other)
  qed
qed

lemma enQueue_full: "queueIsFull q \<Longrightarrow> enQueue q x = (False, q)"
  by (simp add: enQueue_def)

lemma enQueue_ok:
  assumes ok: "ring_ok q" and x: "elem_ok q x" and room: "\<not> queueIsFull q"
  obtains q' where "enQueue q x = (True, q')" and "ring_ok q'"
    and "contents q' = contents q @ [x]" and "dataSize q' = dataSize q" and "q_len q' = q_len q"
proof -
  let ?n = "q_len q"
  define q' where "q' = q\<lparr>queueArr := splice_at (queueArr q) (nat (dataSize q * rear q)) x,
                          rear := (rear q + 1) mod ?n\<rparr>"
  have enq: "enQueue q x = (True, q')"
    using room x by (simp add: enQueue_def q'_def next_index [OF ok] elem_ok_def)
  have r: "0 \<le> rear q" "rear q < ?n" and n: "0 < ?n" using ok by (auto simp: ring_ok_def)
  have len: "length x = nat (dataSize q)" using x by (simp add: elem_ok_def)
  have ok': "ring_ok q'"
    using ok slot_range [OF ok r] len by (simp add: ring_ok_def q'_def)
  have u: "used q < capacity q"
    using room queueIsFull_iff [OF ok] used_less [OF ok] by (auto simp: capacity_def)
  have used': "used q' = Suc (used q)"
  proof -
    have "(rear q' - front q') mod ?n = ((rear q - front q) mod ?n + 1) mod ?n"
      by (simp add: q'_def mod_simps algebra_simps)
    also have "\<dots> = (int (used q) + 1) mod ?n" using n by (simp add: used_def)
    also have "\<dots> = int (used q) + 1" using u n by (simp add: capacity_def)
    finally have "int (used q') = int (used q) + 1" using n by (simp add: used_def q'_def)
    then show ?thesis by linarith
  qed
  have slots: "slot q' ((front q + int i) mod ?n) =
      (if i = used q then x else slot q ((front q + int i) mod ?n))" if "i \<le> used q" for i
  proof -
    have "(front q + int i) mod ?n = rear q \<longleftrightarrow> i = used q"
      using mod_range_inj [OF n, of "int i" "int (used q)" "front q"] rear_used [OF ok] that u
      by (auto simp: capacity_def)
    then show ?thesis
      using slot_write [OF ok x r index_bound [OF ok, of "int i"], of q'] by (simp add: q'_def)
  qed
  have "contents q' = contents q @ [x]"
    using slots by (simp add: contents_def used') (simp add: q'_def)
  with that enq ok' show ?thesis by (simp add: q'_def)
qed

lemma deQueue_empty: "queueIsEmpty q \<Longrightarrow> deQueue q d = (False, d, q)"
  by (simp add: deQueue_def)

lemma deQueue_ok:
  assumes ok: "ring_ok q" and ne: "contents q = x # xs" and d: "length d = nat (dataSize q)"
  obtains q' where "deQueue q d = (True, x, q')" and "ring_ok q'" and "contents q' = xs"
    and "dataSize q' = dataSize q" and "q_len q' = q_len q"
proof -
  let ?n = "q_len q"
  define q' where "q' = q\<lparr>front := (front q + 1) mod ?n\<rparr>"
  have n: "0 < ?n" and f: "0 \<le> front q" "front q < ?n" using ok by (auto simp: ring_ok_def)
  have u: "0 < used q" using ne length_contents [of q] by auto
  have hd: "slot q (front q) = x"
  proof -
    have "contents q ! 0 = slot q ((front q + int 0) mod ?n)"
      using u unfolding contents_def by (subst nth_map) auto
    with ne f show ?thesis by simp
  qed
  have "\<not> queueIsEmpty q" using ne queueIsEmpty_iff [OF ok] by simp
  moreover have "splice_at d 0 x = x"
    using d hd slot_range [OF ok f] by (auto simp: splice_at_def slot_def)
  ultimately have deq: "deQueue q d = (True, x, q')"
    using hd by (simp add: deQueue_def q'_def next_index [OF ok] slot_def)
  have ok': "ring_ok q'" using ok by (simp add: ring_ok_def q'_def)
  have used': "used q = Suc (used q')"
  proof -
    have "(rear q' - front q') mod ?n = ((rear q - front q) mod ?n - 1) mod ?n"
      by (simp add: q'_def mod_simps algebra_simps)
    also have "\<dots> = (int (used q) - 1) mod ?n" using n by (simp add: used_def)
    also have "\<dots> = int (used q) - 1" using u used_less [OF ok] by simp
    finally show ?thesis using u by (simp add: used_def q'_def)
  qed
  have shift: "((front q + 1) mod ?n + int i) mod ?n = (front q + int (Suc i)) mod ?n" for i
    by (simp add: mod_simps algebra_simps)
  have "contents q = slot q (front q) # map (\<lambda>i. slot q ((front q + int (Suc i)) mod ?n)) [0..<used q']"
    using f unfolding contents_def used' by (subst map_upt_Suc) simp
  then have "contents q' = xs" using ne hd shift
    by (simp add: contents_def q'_def slot_def)
  with that deq ok' show ?thesis by (simp add: q'_def)
qed

section \<open>The bounded-FIFO contract\<close>

text \<open>
  What the clients of a queue rely on, and the behaviour it gives for any sequence of
  insertions and removals: the outcome of every operation is the one of a list of at most
  \<open>cap\<close> elements, where an insertion into a full queue is refused and changes nothing.
\<close>

datatype 'a fifo_op = Put 'a | Get

datatype 'a fifo_out = Stored bool | Got "'a option"

fun fifo_spec :: "nat \<Rightarrow> 'a list \<Rightarrow> 'a fifo_op list \<Rightarrow> 'a fifo_out list \<times> 'a list" where
  "fifo_spec cap xs [] = ([], xs)"
| "fifo_spec cap xs (Put x # ops) =
     (if length xs < cap then apfst ((#) (Stored True)) (fifo_spec cap (xs @ [x]) ops)
      else apfst ((#) (Stored False)) (fifo_spec cap xs ops))"
| "fifo_spec cap [] (Get # ops) = apfst ((#) (Got None)) (fifo_spec cap [] ops)"
| "fifo_spec cap (x # xs) (Get # ops) = apfst ((#) (Got (Some x))) (fifo_spec cap xs ops)"

fun fifo_run :: "('q \<Rightarrow> 'a \<Rightarrow> bool \<times> 'q) \<Rightarrow> ('q \<Rightarrow> bool \<times> 'a \<times> 'q) \<Rightarrow>
    'q \<Rightarrow> 'a fifo_op list \<Rightarrow> 'a fifo_out list \<times> 'q" where
  "fifo_run enq deq q [] = ([], q)"
| "fifo_run enq deq q (Put x # ops) =
     (case enq q x of (b, q') \<Rightarrow> apfst ((#) (Stored b)) (fifo_run enq deq q' ops))"
| "fifo_run enq deq q (Get # ops) =
     (case deq q of (b, x, q') \<Rightarrow>
        apfst ((#) (Got (if b then Some x else None))) (fifo_run enq deq q' ops))"

locale bounded_fifo =
  fixes valid :: "'q \<Rightarrow> bool"
    and item :: "'a \<Rightarrow> bool"
    and items :: "'q \<Rightarrow> 'a list"
    and cap :: nat
    and enq :: "'q \<Rightarrow> 'a \<Rightarrow> bool \<times> 'q"
    and deq :: "'q \<Rightarrow> bool \<times> 'a \<times> 'q"
  assumes items_bound: "valid q \<Longrightarrow> length (items q) \<le> cap"
    and enq_full: "valid q \<Longrightarrow> length (items q) = cap \<Longrightarrow> enq q x = (False, q)"
    and enq_room: "valid q \<Longrightarrow> item x \<Longrightarrow> length (items q) < cap \<Longrightarrow>
          \<exists>q'. enq q x = (True, q') \<and> valid q' \<and> items q' = items q @ [x]"
    and deq_empty: "valid q \<Longrightarrow> items q = [] \<Longrightarrow> \<exists>x. deq q = (False, x, q)"
    and deq_cons: "valid q \<Longrightarrow> items q = x # xs \<Longrightarrow>
          \<exists>q'. deq q = (True, x, q') \<and> valid q' \<and> items q' = xs"
begin

definition good_op :: "'a fifo_op \<Rightarrow> bool" where
  "good_op op \<longleftrightarrow> (case op of Put x \<Rightarrow> item x | Get \<Rightarrow> True)"

lemma run_refines:
  "valid q \<Longrightarrow> list_all good_op ops \<Longrightarrow>
   fst (fifo_run enq deq q ops) = fst (fifo_spec cap (items q) ops) \<and>
   items (snd (fifo_run enq deq q ops)) = snd (fifo_spec cap (items q) ops) \<and>
   valid (snd (fifo_run enq deq q ops))"
proof (induction ops arbitrary: q)
  case Nil
  then show ?case by simp
next
  case (Cons op ops)
  show ?case
  proof (cases op)
    case (Put x)
    then have x: "item x" using Cons.prems by (simp add: good_op_def)
    show ?thesis
    proof (cases "length (items q) < cap")
      case True
      with enq_room [OF Cons.prems(1) x] obtain q' where
        "enq q x = (True, q')" "valid q'" "items q' = items q @ [x]" by blast
      with Cons Put True show ?thesis by simp
    next
      case False
      with items_bound [OF Cons.prems(1)] enq_full [OF Cons.prems(1)] have "enq q x = (False, q)"
        by simp
      with Cons Put False show ?thesis by simp
    qed
  next
    case Get
    show ?thesis
    proof (cases "items q")
      case Nil
      with deq_empty [OF Cons.prems(1)] obtain x where "deq q = (False, x, q)" by blast
      with Cons Get Nil show ?thesis by simp
    next
      case (Cons x xs)
      with deq_cons [OF Cons.prems(1)] obtain q' where
        "deq q = (True, x, q')" "valid q'" "items q' = xs" by blast
      with Cons.IH Cons.prems Get Cons show ?thesis by simp
    qed
  qed
qed

end

text \<open>
  The ring buffer provides the contract at every element size \<open>sz\<close> and length \<open>n\<close>: an
  \<^verbatim>\<open>int\<close> queue of 100 slots for the pids of exited processes, a \<^verbatim>\<open>char\<close> queue
  of 50 for key codes. \<^verbatim>\<open>deQueue\<close> writes into the caller's buffer, here \<open>sz\<close> zero
  bytes.
\<close>

definition ring_at :: "nat \<Rightarrow> nat \<Rightarrow> queue \<Rightarrow> bool" where
  "ring_at n sz q \<longleftrightarrow> ring_ok q \<and> q_len q = int n \<and> dataSize q = int sz"

interpretation ring: bounded_fifo "ring_at n sz" "\<lambda>x. length x = sz" contents "n - 1"
    enQueue "\<lambda>q. deQueue q (replicate sz 0)" for n sz
proof (unfold_locales, goal_cases)
  case (1 q)
  then show ?case using used_less [of q] by (auto simp: ring_at_def)
next
  case (2 q x)
  then show ?case
    using queueIsFull_iff [of q] by (auto simp: ring_at_def capacity_def intro!: enQueue_full)
next
  case (3 q x)
  then have "\<not> queueIsFull q" "elem_ok q x" "ring_ok q"
    using queueIsFull_iff [of q] by (auto simp: ring_at_def capacity_def elem_ok_def)
  then obtain q' where "enQueue q x = (True, q')" "ring_ok q'" "contents q' = contents q @ [x]"
    "dataSize q' = dataSize q" "q_len q' = q_len q" by (metis enQueue_ok)
  with 3 show ?case by (simp add: ring_at_def)
next
  case (4 q)
  then show ?case using queueIsEmpty_iff [of q] by (auto simp: ring_at_def intro!: deQueue_empty)
next
  case (5 q x xs)
  then have "ring_ok q" "length (replicate sz (0::BYTE)) = nat (dataSize q)"
    by (auto simp: ring_at_def)
  with 5(2) obtain q' where "deQueue q (replicate sz 0) = (True, x, q')" "ring_ok q'"
    "contents q' = xs" "dataSize q' = dataSize q" "q_len q' = q_len q" by (metis deQueue_ok)
  with 5 show ?case by (simp add: ring_at_def)
qed

end
