(* ===== verification/CString.thy ===== *)
theory CString
  imports SkhuPrelude
begin

text \<open>
  Strings and memory blocks: \<^verbatim>\<open>common/String.c\<close> and \<^verbatim>\<open>common/util.c\<close>. A pointer
  that is only read is the function from an index to the byte found there, \<open>None\<close> past the
  end of its object, so a result \<open>Some\<close> says both that the loop ended and that it stayed
  inside. \<^verbatim>\<open>memcpy\<close> and \<^verbatim>\<open>memsetZero\<close> write through a pointer: they act on a
  memory from addresses to bytes, where source and destination may overlap. A C
  \<^verbatim>\<open>char\<close> is signed.
\<close>

section \<open>Reading\<close>

type_synonym cptr = "nat \<Rightarrow> BYTE option"

partial_function (option) strlen_loop :: "cptr \<Rightarrow> nat \<Rightarrow> nat option" where
  "strlen_loop p idx = do { c \<leftarrow> p idx; if c = 0 then Some idx else strlen_loop p (Suc idx) }"

definition strlen :: "cptr \<Rightarrow> nat option" where
  "strlen str = strlen_loop str 0"

partial_function (option) strcmp_loop :: "cptr \<Rightarrow> cptr \<Rightarrow> nat \<Rightarrow> int option" where
  "strcmp_loop p q i = do {
     a \<leftarrow> p i;
     b \<leftarrow> q i;
     if sint a - sint b \<noteq> 0 then Some (sint a - sint b)
     else if a = 0 \<or> b = 0 then Some (sint a - sint b)
     else strcmp_loop p q (Suc i) }"

definition strcmp :: "cptr \<Rightarrow> cptr \<Rightarrow> int option" where
  "strcmp str1 str2 = strcmp_loop str1 str2 0"

function memcmp_loop :: "cptr \<Rightarrow> cptr \<Rightarrow> int \<Rightarrow> nat \<Rightarrow> int option" where
  "memcmp_loop p q sz i =
     (if int i < sz
      then do { a \<leftarrow> p i; b \<leftarrow> q i;
                if a - b \<noteq> 0 then Some (uint (a - b)) else memcmp_loop p q sz (Suc i) }
      else Some 0)"
  by pat_completeness auto
termination by (relation "measure (\<lambda>(p, q, sz, i). nat (sz - int i))") auto

definition memcmp :: "cptr \<Rightarrow> cptr \<Rightarrow> int \<Rightarrow> int option" where
  "memcmp mem1 mem2 sz = memcmp_loop mem1 mem2 sz 0"

declare memcmp_loop.simps [simp del]

section \<open>Writing\<close>

type_synonym memory = "nat \<Rightarrow> BYTE"

function memcpy_loop :: "memory \<Rightarrow> nat \<Rightarrow> nat \<Rightarrow> int \<Rightarrow> nat \<Rightarrow> memory" where
  "memcpy_loop m dest src sz i =
     (if int i < sz then memcpy_loop (m(dest + i := m (src + i))) dest src sz (Suc i) else m)"
  by pat_completeness auto
termination by (relation "measure (\<lambda>(m, dest, src, sz, i). nat (sz - int i))") auto

definition memcpy :: "memory \<Rightarrow> nat \<Rightarrow> nat \<Rightarrow> int \<Rightarrow> memory" where
  "memcpy m dest src sz = memcpy_loop m dest src sz 0"

function memsetZero_loop :: "memory \<Rightarrow> nat \<Rightarrow> int \<Rightarrow> nat \<Rightarrow> memory" where
  "memsetZero_loop m dest sz i =
     (if int i < sz then memsetZero_loop (m(dest + i := 0)) dest sz (Suc i) else m)"
  by pat_completeness auto
termination by (relation "measure (\<lambda>(m, dest, sz, i). nat (sz - int i))") auto

definition memsetZero :: "memory \<Rightarrow> nat \<Rightarrow> int \<Rightarrow> memory" where
  "memsetZero m dest sz = memsetZero_loop m dest sz 0"

declare memcpy_loop.simps [simp del] memsetZero_loop.simps [simp del]

definition swapChar :: "'a list \<Rightarrow> nat \<Rightarrow> nat \<Rightarrow> 'a list" where
  "swapChar arr a b = (let temp = arr ! a in (arr[a := arr ! b])[b := temp])"

function reverse_loop :: "'a list \<Rightarrow> nat \<Rightarrow> nat \<Rightarrow> 'a list" where
  "reverse_loop arr cnt i =
     (if i < cnt div 2 then reverse_loop (swapChar arr i (cnt - i - 1)) cnt (Suc i) else arr)"
  by pat_completeness auto
termination by (relation "measure (\<lambda>(arr, cnt, i). cnt div 2 - i)") auto

definition reverseArray :: "'a list \<Rightarrow> nat \<Rightarrow> 'a list" where
  "reverseArray arr cnt = reverse_loop arr cnt 0"

declare reverse_loop.simps [simp del]

section \<open>NUL-terminated strings\<close>

text \<open>\<open>cstr_at p i s\<close>: the pointer \<open>p\<close> holds from index \<open>i\<close> on the bytes \<open>s\<close>, none of them
  \<open>0\<close>, and then the terminating \<open>0\<close>.\<close>

fun cstr_at :: "cptr \<Rightarrow> nat \<Rightarrow> BYTE list \<Rightarrow> bool" where
  "cstr_at p i [] \<longleftrightarrow> p i = Some 0"
| "cstr_at p i (c # cs) \<longleftrightarrow> p i = Some c \<and> c \<noteq> 0 \<and> cstr_at p (Suc i) cs"

abbreviation cstr :: "cptr \<Rightarrow> BYTE list \<Rightarrow> bool" where
  "cstr p s \<equiv> cstr_at p 0 s"

fun byte_cmp :: "BYTE list \<Rightarrow> BYTE list \<Rightarrow> int" where
  "byte_cmp [] [] = 0"
| "byte_cmp [] (b # t) = - sint b"
| "byte_cmp (a # s) [] = sint a"
| "byte_cmp (a # s) (b # t) = (if a = b then byte_cmp s t else sint a - sint b)"

lemma strlen_loop_cstr: "cstr_at p i s \<Longrightarrow> strlen_loop p i = Some (i + length s)"
proof (induction s arbitrary: i)
  case Nil
  then show ?case by (subst strlen_loop.simps) simp
next
  case (Cons c s)
  then show ?case by (subst strlen_loop.simps) simp
qed

lemma strlen_cstr: "cstr p s \<Longrightarrow> strlen p = Some (length s)"
  by (simp add: strlen_def strlen_loop_cstr)

lemma sint_eq_0_iff [simp]: "sint (a::BYTE) = 0 \<longleftrightarrow> a = 0"
  by (metis signed_0 signed_word_eqI)

lemma sint_diff_0_iff [simp]: "sint (a::BYTE) - sint b = 0 \<longleftrightarrow> a = b"
  by (metis eq_iff_diff_eq_0 signed_word_eqI)

lemma sint_eq_iff [simp]: "sint (a::BYTE) = sint b \<longleftrightarrow> a = b"
  by (metis signed_word_eqI)

lemma strcmp_loop_cstr:
  "cstr_at p i s \<Longrightarrow> cstr_at q i t \<Longrightarrow> strcmp_loop p q i = Some (byte_cmp s t)"
proof (induction s t arbitrary: i rule: byte_cmp.induct)
  case (4 a s b t)
  then show ?case by (subst strcmp_loop.simps) auto
qed (subst strcmp_loop.simps, auto)+

lemma strcmp_cstr: "cstr p s \<Longrightarrow> cstr q t \<Longrightarrow> strcmp p q = Some (byte_cmp s t)"
  by (simp add: strcmp_def strcmp_loop_cstr)

lemma byte_cmp_eq_0_iff:
  "0 \<notin> set s \<Longrightarrow> 0 \<notin> set t \<Longrightarrow> byte_cmp s t = 0 \<longleftrightarrow> s = t"
  by (induction s t rule: byte_cmp.induct) auto

lemma cstr_at_no_NUL: "cstr_at p i s \<Longrightarrow> 0 \<notin> set s"
  by (induction s arbitrary: i) auto

lemma strcmp_eq_0_iff:
  "cstr p s \<Longrightarrow> cstr q t \<Longrightarrow> strcmp p q = Some 0 \<longleftrightarrow> s = t"
  by (simp add: strcmp_cstr byte_cmp_eq_0_iff cstr_at_no_NUL)

lemma cstr_at_unique: "cstr_at p i s \<Longrightarrow> cstr_at p i t \<Longrightarrow> s = t"
proof (induction s arbitrary: i t)
  case Nil
  then show ?case by (cases t) auto
next
  case (Cons c s)
  then show ?case by (cases t) auto
qed

section \<open>Memory blocks\<close>

lemma memcpy_loop_forward:
  "dest \<le> src \<or> src + nat sz \<le> dest \<Longrightarrow> memcpy_loop m dest src sz i =
     (\<lambda>a. if dest + i \<le> a \<and> a < dest + nat sz then m (src + (a - dest)) else m a)"
proof (induction m dest src sz i rule: memcpy_loop.induct)
  case (1 m dest src sz i)
  show ?case
  proof (cases "int i < sz")
    case True
    let ?m = "m(dest + i := m (src + i))"
    have "memcpy_loop m dest src sz i = memcpy_loop ?m dest src sz (Suc i)"
      using True by (subst memcpy_loop.simps) simp
    also have "\<dots> = (\<lambda>a. if dest + Suc i \<le> a \<and> a < dest + nat sz then ?m (src + (a - dest)) else ?m a)"
      using True 1 by blast
    also have "\<dots> = (\<lambda>a. if dest + i \<le> a \<and> a < dest + nat sz then m (src + (a - dest)) else m a)"
      using True "1.prems" by (auto simp: fun_eq_iff nat_less_eq_zless)
    finally show ?thesis .
  next
    case False
    then show ?thesis by (subst memcpy_loop.simps) (auto simp: fun_eq_iff)
  qed
qed

lemma memcpy_forward:
  "dest \<le> src \<or> src + nat sz \<le> dest \<Longrightarrow> memcpy m dest src sz =
     (\<lambda>a. if dest \<le> a \<and> a < dest + nat sz then m (src + (a - dest)) else m a)"
  by (simp add: memcpy_def memcpy_loop_forward)

lemma memsetZero_loop_eq:
  "memsetZero_loop m dest sz i = (\<lambda>a. if dest + i \<le> a \<and> a < dest + nat sz then 0 else m a)"
proof (induction m dest sz i rule: memsetZero_loop.induct)
  case (1 m dest sz i)
  show ?case
  proof (cases "int i < sz")
    case True
    have "memsetZero_loop m dest sz i = memsetZero_loop (m(dest + i := 0)) dest sz (Suc i)"
      using True by (subst memsetZero_loop.simps) simp
    also have "\<dots> = (\<lambda>a. if dest + Suc i \<le> a \<and> a < dest + nat sz then 0 else (m(dest + i := 0)) a)"
      using True by (rule "1.IH")
    also have "\<dots> = (\<lambda>a. if dest + i \<le> a \<and> a < dest + nat sz then 0 else m a)"
      using True by (auto simp: fun_eq_iff nat_less_eq_zless)
    finally show ?thesis .
  next
    case False
    then show ?thesis by (subst memsetZero_loop.simps) (auto simp: fun_eq_iff)
  qed
qed

lemma memsetZero_eq: "memsetZero m dest sz = (\<lambda>a. if dest \<le> a \<and> a < dest + nat sz then 0 else m a)"
  by (simp add: memsetZero_def memsetZero_loop_eq)

section \<open>Array reversal\<close>

lemma length_swapChar [simp]: "length (swapChar arr a b) = length arr"
  by (simp add: swapChar_def Let_def)

lemma nth_swapChar:
  "a < length arr \<Longrightarrow> b < length arr \<Longrightarrow> k < length arr \<Longrightarrow>
   swapChar arr a b ! k = (if k = b then arr ! a else if k = a then arr ! b else arr ! k)"
  by (simp add: swapChar_def Let_def nth_list_update)

lemma reverse_loop_nth:
  "cnt \<le> length arr \<Longrightarrow> length (reverse_loop arr cnt i) = length arr \<and>
   (\<forall>k < length arr. reverse_loop arr cnt i ! k =
      (if i \<le> k \<and> k < cnt - i then arr ! (cnt - 1 - k) else arr ! k))"
proof (induction arr cnt i rule: reverse_loop.induct)
  case (1 arr cnt i)
  show ?case
  proof (cases "i < cnt div 2")
    case True
    let ?arr = "swapChar arr i (cnt - i - 1)"
    have step: "reverse_loop arr cnt i = reverse_loop ?arr cnt (Suc i)"
      using True by (subst reverse_loop.simps) simp
    have IH: "length (reverse_loop ?arr cnt (Suc i)) = length ?arr"
      "\<forall>k < length ?arr. reverse_loop ?arr cnt (Suc i) ! k =
         (if Suc i \<le> k \<and> k < cnt - Suc i then ?arr ! (cnt - 1 - k) else ?arr ! k)"
      using True 1 by auto
    have b: "i < length arr" "cnt - i - 1 < length arr" "i < cnt - i - 1" using True "1.prems" by auto
    have "reverse_loop ?arr cnt (Suc i) ! k =
        (if i \<le> k \<and> k < cnt - i then arr ! (cnt - 1 - k) else arr ! k)" if k: "k < length arr" for k
    proof -
      have "cnt - 1 - k < length arr" using "1.prems" b(1) by linarith
      with IH(2) k b "1.prems" show ?thesis by (auto simp: nth_swapChar) 
    qed
    with IH(1) step show ?thesis by simp
  next
    case False
    then have "cnt - 1 - k = k" if "i \<le> k" "k < cnt - i" for k using that by linarith
    with False show ?thesis by (subst (1 2) reverse_loop.simps) auto
  qed
qed

lemma reverseArray_eq: "cnt \<le> length arr \<Longrightarrow> reverseArray arr cnt = rev (take cnt arr) @ drop cnt arr"
  using reverse_loop_nth [of cnt arr 0]
  by (intro nth_equalityI) (auto simp: reverseArray_def nth_append rev_nth min_def)

end
