(* ===== verification/Hardware.thy ===== *)
theory Hardware
  imports SkhuPrelude
begin

text \<open>
  Port input and output (\<^verbatim>\<open>kernel/arch/portControl.asm\<close>), the interrupt controller
  (\<^verbatim>\<open>kernel/drivers/PIC.c\<close>) and the interval timer (\<^verbatim>\<open>kernel/drivers/PIT.c\<close>).
  The devices behind the ports are not code of the repository: they are a parameter, a record
  \<^verbatim>\<open>portio\<close> of four functions on an arbitrary device state \<open>'d\<close>, and every operation
  that touches a port takes it as an argument.
\<close>

section \<open>Ports\<close>

record 'd portio =
  in_byte :: "WORD \<Rightarrow> 'd \<Rightarrow> BYTE \<times> 'd"
  out_byte :: "WORD \<Rightarrow> BYTE \<Rightarrow> 'd \<Rightarrow> 'd"
  in_word :: "WORD \<Rightarrow> 'd \<Rightarrow> WORD \<times> 'd"
  out_word :: "WORD \<Rightarrow> WORD \<Rightarrow> 'd \<Rightarrow> 'd"

record 'd hw =
  dev :: 'd
  picState :: int
  counter0Reload :: int

definition getPort :: "'d portio \<Rightarrow> WORD \<Rightarrow> ('d, 'z) hw_scheme \<Rightarrow> BYTE \<times> ('d, 'z) hw_scheme" where
  "getPort io port s = (let (b, d) = in_byte io port (dev s) in (b, s\<lparr>dev := d\<rparr>))"

definition setPort :: "'d portio \<Rightarrow> WORD \<Rightarrow> BYTE \<Rightarrow> ('d, 'z) hw_scheme \<Rightarrow> ('d, 'z) hw_scheme" where
  "setPort io port b s = s\<lparr>dev := out_byte io port b (dev s)\<rparr>"

definition getPortWord :: "'d portio \<Rightarrow> WORD \<Rightarrow> ('d, 'z) hw_scheme \<Rightarrow> WORD \<times> ('d, 'z) hw_scheme" where
  "getPortWord io port s = (let (w, d) = in_word io port (dev s) in (w, s\<lparr>dev := d\<rparr>))"

definition setPortWord :: "'d portio \<Rightarrow> WORD \<Rightarrow> WORD \<Rightarrow> ('d, 'z) hw_scheme \<Rightarrow> ('d, 'z) hw_scheme" where
  "setPortWord io port w s = s\<lparr>dev := out_word io port w (dev s)\<rparr>"

section \<open>Interrupt controller\<close>

abbreviation (input) PIC_INITIAL :: int where "PIC_INITIAL \<equiv> 0"
abbreviation (input) ICW_SET :: int where "ICW_SET \<equiv> 1"

abbreviation (input) MASTER_PORT1 :: WORD where "MASTER_PORT1 \<equiv> 0x20"
abbreviation (input) MASTER_PORT2 :: WORD where "MASTER_PORT2 \<equiv> 0x21"
abbreviation (input) SLAVE_PORT1 :: WORD where "SLAVE_PORT1 \<equiv> 0xA0"
abbreviation (input) SLAVE_PORT2 :: WORD where "SLAVE_PORT2 \<equiv> 0xA1"

definition IRQ_START_OFFSET :: int where "IRQ_START_OFFSET = 0x20"
abbreviation (input) IRQ_MAX_COUNT :: int where "IRQ_MAX_COUNT \<equiv> 8"

abbreviation (input) ICW1_DEFAULT :: BYTE where "ICW1_DEFAULT \<equiv> 0x10"
abbreviation (input) ICW1_IC4 :: BYTE where "ICW1_IC4 \<equiv> 0x01"
abbreviation (input) ICW3_MASTER_S2 :: BYTE where "ICW3_MASTER_S2 \<equiv> 0x04"
abbreviation (input) ICW3_SLAVE_ID1 :: BYTE where "ICW3_SLAVE_ID1 \<equiv> 0x02"
abbreviation (input) ICW4_UPM :: BYTE where "ICW4_UPM \<equiv> 0x01"
abbreviation (input) OCW2_EOI :: BYTE where "OCW2_EOI \<equiv> 0x20"

definition initializePIC :: "'d portio \<Rightarrow> ('d, 'z) hw_scheme \<Rightarrow> ('d, 'z) hw_scheme" where
  "initializePIC io s =
     (let s = setPort io MASTER_PORT1 (ICW1_DEFAULT OR ICW1_IC4) s;
          s = setPort io MASTER_PORT2 (word_of_int IRQ_START_OFFSET) s;
          s = setPort io MASTER_PORT2 ICW3_MASTER_S2 s;
          s = setPort io MASTER_PORT2 ICW4_UPM s;
          s = setPort io SLAVE_PORT1 (ICW1_DEFAULT OR ICW1_IC4) s;
          s = setPort io SLAVE_PORT2 (word_of_int (IRQ_START_OFFSET + IRQ_MAX_COUNT)) s;
          s = setPort io SLAVE_PORT2 ICW3_SLAVE_ID1 s;
          s = setPort io SLAVE_PORT2 ICW4_UPM s
      in s\<lparr>picState := ICW_SET\<rparr>)"

definition setIMR :: "'d portio \<Rightarrow> WORD \<Rightarrow> ('d, 'z) hw_scheme \<Rightarrow> int \<times> ('d, 'z) hw_scheme" where
  "setIMR io imr s =
     (if picState s \<noteq> ICW_SET then (-1, s)
      else (let s = setPort io MASTER_PORT2 (ucast (imr AND 0xFF)) s;
                s = setPort io SLAVE_PORT2 (ucast (drop_bit 8 (imr AND 0xFF00))) s
            in (0, s)))"

definition sendEOI :: "'d portio \<Rightarrow> int \<Rightarrow> ('d, 'z) hw_scheme \<Rightarrow> int \<times> ('d, 'z) hw_scheme" where
  "sendEOI io pin s =
     (if picState s \<noteq> ICW_SET then (-1, s)
      else (let s = setPort io MASTER_PORT1 OCW2_EOI s;
                s = (if pin \<ge> 8 then setPort io SLAVE_PORT1 OCW2_EOI s else s)
            in (0, s)))"

text \<open>An acknowledgement leaves everything but the device alone.\<close>

lemma sendEOI_frame: "\<exists>d. snd (sendEOI io pin s) = s\<lparr>dev := d\<rparr>"
proof (cases "picState s = ICW_SET")
  case True
  then show ?thesis by (auto simp: sendEOI_def setPort_def Let_def)
next
  case False
  then have "snd (sendEOI io pin s) = s\<lparr>dev := dev s\<rparr>" by (simp add: sendEOI_def)
  then show ?thesis ..
qed

section \<open>Interval timer\<close>

abbreviation (input) COUNTER0 :: WORD where "COUNTER0 \<equiv> 0x40"
abbreviation (input) CTRL_REG :: WORD where "CTRL_REG \<equiv> 0x43"
abbreviation (input) PIT_BCD_FALSE :: BYTE where "PIT_BCD_FALSE \<equiv> 0x00"
abbreviation (input) PIT_MODE_0 :: BYTE where "PIT_MODE_0 \<equiv> 0x00"
abbreviation (input) PIT_MODE_2 :: BYTE where "PIT_MODE_2 \<equiv> 0x04"
abbreviation (input) PIT_RW_LATCH :: BYTE where "PIT_RW_LATCH \<equiv> 0x00"
abbreviation (input) PIT_RW_LOWERTOUPPER :: BYTE where "PIT_RW_LOWERTOUPPER \<equiv> 0x30"
abbreviation (input) PIT_CONTROL_COUNTER0 :: BYTE where "PIT_CONTROL_COUNTER0 \<equiv> 0x00"

definition FREQUENCY :: QWORD where "FREQUENCY = 1193182"

text \<open>The product is computed in 64 bits and wraps; the quotient is cut to a C \<^verbatim>\<open>int\<close>.\<close>

definition int_of_qword :: "QWORD \<Rightarrow> int" where
  "int_of_qword w = sint (ucast w :: DWORD)"

definition usToClock :: "QWORD \<Rightarrow> int" where
  "usToClock us = int_of_qword ((FREQUENCY * us) div 1000000)"

definition msToClock :: "QWORD \<Rightarrow> int" where
  "msToClock ms = int_of_qword ((FREQUENCY * ms) div 1000)"

definition initializePIT :: "'d portio \<Rightarrow> int \<Rightarrow> bool \<Rightarrow> ('d, 'z) hw_scheme \<Rightarrow> ('d, 'z) hw_scheme" where
  "initializePIT io clock periodic s =
     (let s = (if periodic
               then setPort io CTRL_REG (PIT_BCD_FALSE OR PIT_MODE_2 OR PIT_RW_LOWERTOUPPER OR PIT_CONTROL_COUNTER0) s
               else setPort io CTRL_REG (PIT_BCD_FALSE OR PIT_MODE_0 OR PIT_RW_LOWERTOUPPER OR PIT_CONTROL_COUNTER0) s);
          s = setPort io COUNTER0 (word_of_int clock) s;
          s = setPort io COUNTER0 (word_of_int (drop_bit 8 clock)) s
      in s\<lparr>counter0Reload := (if clock AND 0xFFFF \<noteq> 0 then clock AND 0xFFFF else 0x10000)\<rparr>)"

definition readCounter0 :: "'d portio \<Rightarrow> ('d, 'z) hw_scheme \<Rightarrow> WORD \<times> ('d, 'z) hw_scheme" where
  "readCounter0 io s =
     (let s = setPort io CTRL_REG (PIT_RW_LATCH OR PIT_CONTROL_COUNTER0) s;
          (lo, s) = getPort io COUNTER0 s;
          (hi, s) = getPort io COUNTER0 s
      in (ucast lo OR push_bit 8 (ucast hi), s))"

record pitStopwatch =
  lastCounter :: WORD
  elapsedClock :: int

definition startStopwatch :: "'d portio \<Rightarrow> ('d, 'z) hw_scheme \<Rightarrow> pitStopwatch \<times> ('d, 'z) hw_scheme" where
  "startStopwatch io s =
     (let (now, s) = readCounter0 io s in (\<lparr>lastCounter = now, elapsedClock = 0\<rparr>, s))"

definition advanceStopwatch :: "int \<Rightarrow> WORD \<Rightarrow> pitStopwatch \<Rightarrow> pitStopwatch" where
  "advanceStopwatch reload now watch =
     (let delta = uint (lastCounter watch) - uint now;
          delta = (if delta < 0 then delta + reload else delta)
      in watch\<lparr>lastCounter := now, elapsedClock := elapsedClock watch + delta\<rparr>)"

definition getElapsedClock :: "'d portio \<Rightarrow> pitStopwatch \<Rightarrow> ('d, 'z) hw_scheme \<Rightarrow>
    int \<times> pitStopwatch \<times> ('d, 'z) hw_scheme" where
  "getElapsedClock io watch s =
     (let (now, s) = readCounter0 io s;
          watch = advanceStopwatch (counter0Reload s) now watch
      in (elapsedClock watch, watch, s))"

subsection \<open>The stopwatch measures the counter's clock\<close>

text \<open>
  In mode 2 the counter runs \<open>R, R - 1, \<dots>, 1\<close> and reloads: at clock \<open>t\<close> it shows
  \<open>R - t mod R\<close>, where the 16-bit port reads \<open>0x10000\<close> as \<open>0\<close>.
\<close>

definition counter_at :: "int \<Rightarrow> nat \<Rightarrow> WORD" where
  "counter_at R t = word_of_int (R - int t mod R)"

lemma uint_counter_at:
  assumes "0 < R" and "R \<le> 0x10000"
  shows "uint (counter_at R t) = (if R = 0x10000 \<and> int t mod R = 0 then 0 else R - int t mod R)"
proof -
  define x where "x = int t mod R"
  have x: "0 \<le> x" "x < R" using assms by (simp_all add: x_def)
  have "uint (counter_at R t) = (R - x) mod 0x10000"
    unfolding counter_at_def x_def [symmetric] by (simp only: uint_word_of_int) simp
  moreover have "(R - x) mod 0x10000 = R - x" if "R - x \<noteq> 0x10000"
    using that assms x by (intro mod_pos_pos_trivial) linarith+
  ultimately show ?thesis using assms x unfolding x_def [symmetric] by auto
qed

lemma mod_once:
  assumes "0 \<le> z" and "z < 2 * (R::int)"
  shows "z mod R = (if z < R then z else z - R)"
proof (cases "z < R")
  case True
  with assms show ?thesis by simp
next
  case False
  have "(z - R) mod R = z - R" using assms False by (intro mod_pos_pos_trivial) linarith+
  with False show ?thesis by simp
qed

lemma phase_delta:
  assumes "0 < R" and "t \<le> u" and "int (u - t) < R"
  shows "int u mod R = (if int t mod R + int (u - t) < R then int t mod R + int (u - t)
                        else int t mod R + int (u - t) - R)"
proof -
  have "0 \<le> int t mod R" and "int t mod R < R" using assms(1) by simp_all
  then have "0 \<le> int t mod R + int (u - t)" and "int t mod R + int (u - t) < 2 * R"
    using assms(3) by linarith+
  note once = mod_once [OF this]
  have "int u mod R = (int t + int (u - t)) mod R"
    by (rule arg_cong [where f = "\<lambda>z. z mod R"]) (use assms(2) in linarith)
  also have "\<dots> = (int t mod R + int (u - t)) mod R" by (rule mod_add_left_eq [symmetric])
  finally show ?thesis unfolding once .
qed

lemma advanceStopwatch_step:
  assumes R: "0 < R" "R \<le> 0x10000" and tu: "t \<le> u" "int (u - t) < R"
    and last: "lastCounter w = counter_at R t"
  shows "advanceStopwatch R (counter_at R u) w =
         w\<lparr>lastCounter := counter_at R u, elapsedClock := elapsedClock w + int (u - t)\<rparr>"
proof -
  define x y a b where "x = int t mod R" and "y = int u mod R"
    and "a = uint (counter_at R t)" and "b = uint (counter_at R u)"
  have "0 \<le> x" "x < R" "0 \<le> y" "y < R" using R by (simp_all add: x_def y_def)
  moreover have "y = (if x + int (u - t) < R then x + int (u - t) else x + int (u - t) - R)"
    using phase_delta [OF R(1) tu] by (simp only: x_def y_def)
  moreover have "a = (if R = 0x10000 \<and> x = 0 then 0 else R - x)"
    and "b = (if R = 0x10000 \<and> y = 0 then 0 else R - y)"
    using uint_counter_at [OF R] by (simp_all only: x_def y_def a_def b_def)
  ultimately have "(if a - b < 0 then a - b + R else a - b) = int (u - t)"
    using R tu by (cases "R = 0x10000"; cases "x = 0"; cases "y = 0") (simp_all split: if_splits)
  then show ?thesis
    unfolding advanceStopwatch_def last Let_def a_def [symmetric] b_def [symmetric] by simp
qed

lemma elapsed_polls:
  assumes R: "0 < R" "R \<le> 0x10000"
  shows "sorted (t # ts) \<Longrightarrow> (\<forall>i < length ts. int ((t # ts) ! Suc i - (t # ts) ! i) < R) \<Longrightarrow>
         lastCounter w = counter_at R t \<Longrightarrow>
         elapsedClock (fold (\<lambda>u. advanceStopwatch R (counter_at R u)) ts w) =
           elapsedClock w + int (last (t # ts) - t)"
proof (induction ts arbitrary: t w)
  case Nil
  then show ?case by simp
next
  case (Cons u us)
  let ?w = "w\<lparr>lastCounter := counter_at R u, elapsedClock := elapsedClock w + int (u - t)\<rparr>"
  have tu: "t \<le> u" "int (u - t) < R" using Cons.prems by auto
  have step: "advanceStopwatch R (counter_at R u) w = ?w"
    by (rule advanceStopwatch_step [OF R tu Cons.prems(3)])
  have gaps: "\<forall>i < length us. int ((u # us) ! Suc i - (u # us) ! i) < R"
    using Cons.prems(2) by (metis Suc_less_eq length_Cons nth_Cons_Suc)
  have last: "u \<le> last (u # us)" using Cons.prems(1) by (cases us rule: rev_cases) auto
  from Cons.IH [OF _ gaps, of ?w] Cons.prems(1)
  have "elapsedClock (fold (\<lambda>u. advanceStopwatch R (counter_at R u)) us ?w) =
      elapsedClock w + int (u - t) + int (last (u # us) - u)" by simp
  then show ?case using step tu last by (simp split: if_splits)
qed

end
