(* ===== verification/LibProps.thy ===== *)
theory LibProps
  imports LinkedList RingQueue CString Hardware
begin

text \<open>
  The properties of the library routines the kernel is built on: the linked list, the ring
  buffer, strings and memory blocks, and the stopwatch on the interval timer.
\<close>

section \<open>Linked list\<close>

text \<open>Removal by id from a well-formed list always returns: it takes out the first node with
  that id, or reports NULL and changes nothing when there is none. The list stays well formed,
  ids are kept, and no node outside the list is touched.\<close>

theorem list_remove_by_id:
  assumes "rep h l xs"
  shows "case find (\<lambda>p. nid (h p) = i) xs of
      None \<Rightarrow> removeList h l i = Some (NULL, h, l)
    | Some p \<Rightarrow> \<exists>h' l'. removeList h l i = Some (p, h', l') \<and> rep h' l' (remove1 p xs) \<and>
        (\<forall>q. nid (h' q) = nid (h q)) \<and> (\<forall>q. q \<notin> set xs \<longrightarrow> h' q = h q)"
proof (cases "find (\<lambda>p. nid (h p) = i) xs")
  case None
  then have "\<forall>y \<in> set xs. nid (h y) \<noteq> i" by (auto simp: find_None_iff)
  then show ?thesis using None removeList_absent [OF assms] by simp
next
  case (Some p)
  then obtain ys zs where xs: "xs = ys @ p # zs" "nid (h p) = i" "\<forall>y \<in> set ys. nid (h y) \<noteq> i"
    by (auto simp: find_Some_iff) (metis id_take_nth_drop in_set_conv_nth length_take min_less_iff_conj nth_take)
  then have "p \<notin> set ys" by auto
  moreover obtain h' l' where "removeList h l i = Some (p, h', l')" "rep h' l' (ys @ zs)"
    "\<And>x. nid (h' x) = nid (h x)" "\<And>x. x \<notin> set (ys @ p # zs) \<Longrightarrow> h' x = h x"
    using removeList_found [OF assms [unfolded xs(1)] xs(3,2)] by metis
  moreover have "remove1 p xs = ys @ zs" using \<open>p \<notin> set ys\<close> xs(1) by (simp add: remove1_append)
  ultimately show ?thesis unfolding Some using xs(1) by auto
qed

definition three_nodes :: nheap where
  "three_nodes = (\<lambda>_. \<lparr>nxt = 0, nid = 0\<rparr>)(10 := \<lparr>nxt = 20, nid = 1\<rparr>, 20 := \<lparr>nxt = 30, nid = 2\<rparr>, 30 := \<lparr>nxt = 0, nid = 3\<rparr>)"

definition three_list :: linkedList where
  "three_list = \<lparr>l_head = 10, l_tail = 30, l_count = 3\<rparr>"

lemma three_rep: "rep three_nodes three_list [10, 20, 30]"
  by (simp add: rep_def three_nodes_def three_list_def)

theorem list_remove_by_id_witness:
  "\<exists>h' l'. removeList three_nodes three_list 2 = Some (20, h', l') \<and> rep h' l' [10, 30]"
  using list_remove_by_id [OF three_rep, of 2] by (auto simp: three_nodes_def)

text \<open>The ready list is a queue: inserting puts the node last, and \<^verbatim>\<open>HeadRemove\<close> then
  takes the oldest node; both keep the list well formed.\<close>

theorem list_is_a_queue:
  assumes "rep h l xs" and "p \<notin> set xs" and "p \<noteq> NULL"
  shows "\<exists>h1 l1 h2 l2. insertList h l p = (h1, l1) \<and> rep h1 l1 (xs @ [p]) \<and>
    HeadRemove h1 l1 = Some (hd (xs @ [p]), h2, l2) \<and> rep h2 l2 (tl (xs @ [p]))"
proof -
  obtain h1 l1 where 1: "insertList h l p = (h1, l1)" by fastforce
  with nl.ins_law [OF assms this] have "rep h1 l1 (xs @ [p])" by simp
  then have rep1: "rep h1 l1 (hd (xs @ [p]) # tl (xs @ [p]))" by simp
  from nl.hrem_cons [OF this] 1 \<open>rep h1 l1 (xs @ [p])\<close> show ?thesis by blast
qed

theorem list_is_a_queue_witness:
  "\<exists>h1 l1 h2 l2. insertList three_nodes three_list 40 = (h1, l1) \<and> HeadRemove h1 l1 = Some (10, h2, l2) \<and>
    rep h2 l2 [20, 30, 40]"
  using list_is_a_queue [OF three_rep, of 40] by auto

section \<open>Ring buffer\<close>

text \<open>For any sequence of insertions and removals, a ring buffer of \<open>n\<close> slots of \<open>sz\<close> bytes
  that starts empty gives the results of a FIFO list of at most \<open>n - 1\<close> elements: an insertion
  into a full buffer is refused and changes nothing, a removal from an empty one reports it.\<close>

theorem ring_is_bounded_fifo:
  assumes "0 < n" and "0 < sz" and "length buf = sz * n"
    and "list_all (\<lambda>op. case op of Put x \<Rightarrow> length x = sz | Get \<Rightarrow> True) ops"
  shows "fst (fifo_run enQueue (\<lambda>q. deQueue q (replicate sz 0)) (initQueue buf (int n) (int sz)) ops) =
    fst (fifo_spec (n - 1) [] ops)"
proof -
  have "ring_at n sz (initQueue buf (int n) (int sz))"
    using assms(1-3) by (simp add: ring_at_def ring_ok_init) (simp add: initQueue_def)
  moreover have "list_all (ring.good_op sz) ops"
    using assms(4) by (simp add: ring.good_op_def list_all_iff split: fifo_op.splits)
  ultimately show ?thesis using ring.run_refines by (simp add: contents_init)
qed

theorem ring_is_bounded_fifo_witness:
  "fst (fifo_run enQueue (\<lambda>q. deQueue q (replicate 1 0)) (initQueue (replicate 3 0) (int 3) (int 1))
      [Put [7], Put [8], Put [9], Get, Get, Get]) =
   [Stored True, Stored True, Stored False, Got (Some [7]), Got (Some [8]), Got None]"
  using ring_is_bounded_fifo [of 3 1 "replicate 3 0" "[Put [7], Put [8], Put [9], Get, Get, Get]"] by simp

section \<open>Strings and memory blocks\<close>

text \<open>On NUL-terminated strings \<^verbatim>\<open>strlen\<close> and \<^verbatim>\<open>strcmp\<close> return without
  reading past the terminators: the length, and the difference of the first two differing
  characters as signed bytes, which is 0 exactly for equal strings.\<close>

theorem string_functions:
  assumes "cstr p s" and "cstr q t"
  shows "strlen p = Some (length s) \<and> strcmp p q = Some (byte_cmp s t) \<and>
    (strcmp p q = Some 0 \<longleftrightarrow> s = t)"
  using assms strlen_cstr strcmp_cstr strcmp_eq_0_iff by auto

definition as_cptr :: "BYTE list \<Rightarrow> cptr" where
  "as_cptr bs i = (if i < length bs then Some (bs ! i) else None)"

theorem string_functions_witness:
  "strlen (as_cptr [104, 105, 0]) = Some 2 \<and> strcmp (as_cptr [104, 105, 0]) (as_cptr [104, 0]) = Some 105"
  using string_functions [of "as_cptr [104, 105, 0]" "[104, 105]" "as_cptr [104, 0]" "[104]"]
  by (simp add: as_cptr_def)

text \<open>\<^verbatim>\<open>memcpy\<close> copies the source block as it was before the call when the blocks do
  not overlap or the destination starts below the source, and changes nothing else.\<close>

theorem memcpy_copies:
  assumes "dest \<le> src \<or> src + nat sz \<le> dest"
  shows "memcpy m dest src sz =
    (\<lambda>a. if dest \<le> a \<and> a < dest + nat sz then m (src + (a - dest)) else m a)"
  using assms by (rule memcpy_forward)

theorem memcpy_copies_witness:
  "memcpy ((\<lambda>_. 0)(5 := 1, 6 := 2)) 4 5 2 4 = (1 :: BYTE)"
  using memcpy_copies [of 4 5 2 "(\<lambda>_. 0)(5 := 1, 6 := 2)"] by simp

section \<open>Stopwatch\<close>

text \<open>The stopwatch is exact: if the down counter reloads at \<open>R\<close> and is polled at clocks
  \<open>t \<le> t1 \<le> \<dots>\<close> with gaps below \<open>R\<close>, the accumulated value after the polls is the
  number of clocks since the start, across any number of reloads.\<close>

theorem stopwatch_is_exact:
  assumes "0 < R" "R \<le> 0x10000" and "sorted (t # ts)"
    and "\<forall>i < length ts. int ((t # ts) ! Suc i - (t # ts) ! i) < R"
  shows "elapsedClock (fold (\<lambda>u. advanceStopwatch R (counter_at R u)) ts
      \<lparr>lastCounter = counter_at R t, elapsedClock = 0\<rparr>) = int (last (t # ts) - t)"
  using elapsed_polls [OF assms, of "\<lparr>lastCounter = counter_at R t, elapsedClock = 0\<rparr>"] by simp

theorem stopwatch_is_exact_witness:
  "elapsedClock (fold (\<lambda>u. advanceStopwatch 0x10000 (counter_at 0x10000 u)) [60000, 120000, 180000]
      \<lparr>lastCounter = counter_at 0x10000 0, elapsedClock = 0\<rparr>) = 180000"
  using stopwatch_is_exact [of "0x10000" 0 "[60000, 120000, 180000]"]
  by (simp add: less_Suc_eq numeral_3_eq_3)

end
