(* ===== verification/Process.thy ===== *)
theory Process
  imports LinkedList RingQueue CString Hardware
begin

text \<open>
  Processes and the scheduler: \<^verbatim>\<open>kernel/proc/Process.c\<close>, \<^verbatim>\<open>Process.h\<close>, the
  interrupt-flag helper of \<^verbatim>\<open>Sync.c\<close> and the context switch of
  \<^verbatim>\<open>kernel/arch/ContextSwitching.asm\<close>. The definitions only; the scheduler's
  invariant and the lemmas about it are in theory \<^verbatim>\<open>Scheduler\<close>.

  The link field of a PCB is its first member, so a PCB pointer is also the pointer to its
  node: the nodes are the heap \<open>nodes\<close>, the other fields the heap \<open>pcbs\<close>, both indexed by
  the PCB's address. The register file \<open>cpu\<close> holds 24 registers in the order of
  \<^verbatim>\<open>ProcessContext\<close>; \<open>ist\<close> is the frame an interrupt stub saves on the interrupt
  stack, which \<^verbatim>\<open>timeoutSchedule\<close> exchanges. Of a page-table entry the low word is
  kept (\<open>pte\<close>), and \<open>tlbView\<close> is the table as of the last TLB flush. An operation that
  blocks ends with the context switch; what the process does when it runs again is a separate
  definition of the component that blocks.
\<close>

section \<open>Constants of the headers\<close>

definition PCB_POOL_ADDRESS :: nat where "PCB_POOL_ADDRESS = 0x1000000"
definition PROCESS_STACK_BASE :: nat where "PROCESS_STACK_BASE = 0x2000000"
definition PROCESS_STACK_SIZE :: nat where "PROCESS_STACK_SIZE = 0x2000"
definition PROCESS_STACK_INTERVAL :: nat where "PROCESS_STACK_INTERVAL = 0x3000"
definition SLOT_TIME :: QWORD where "SLOT_TIME = 5"
definition PROCESS_MAXCOUNT :: nat where "PROCESS_MAXCOUNT = 1024"
definition USER_MEMORY_BASE :: nat where "USER_MEMORY_BASE = 0x3000000"
definition USER_CODE_ADDRESS :: nat where "USER_CODE_ADDRESS = USER_MEMORY_BASE"
definition USER_CODE_SIZE :: nat where "USER_CODE_SIZE = 0x100000"
definition USER_STACK_BASE :: nat where "USER_STACK_BASE = USER_CODE_ADDRESS + USER_CODE_SIZE"
definition USER_STACK_SIZE :: nat where "USER_STACK_SIZE = PROCESS_STACK_SIZE"
definition USER_STACK_INTERVAL :: nat where "USER_STACK_INTERVAL = PROCESS_STACK_INTERVAL"
definition USER_MEMORY_END :: nat where "USER_MEMORY_END = 0x4000000"
definition EXIT_QUEUE_COUNT :: nat where "EXIT_QUEUE_COUNT = 100"
definition KERNEL_SIZE :: nat where "KERNEL_SIZE = 0x4000"

lemmas memory_map_defs = PCB_POOL_ADDRESS_def PROCESS_STACK_BASE_def PROCESS_STACK_SIZE_def
  PROCESS_STACK_INTERVAL_def USER_MEMORY_BASE_def USER_CODE_ADDRESS_def USER_CODE_SIZE_def
  USER_STACK_BASE_def USER_STACK_SIZE_def USER_STACK_INTERVAL_def USER_MEMORY_END_def
  KERNEL_SIZE_def

definition REG_GS :: nat where "REG_GS = 0"
definition REG_FS :: nat where "REG_FS = 1"
definition REG_ES :: nat where "REG_ES = 2"
definition REG_DS :: nat where "REG_DS = 3"
definition REG_RDI :: nat where "REG_RDI = 9"
definition REG_RBP :: nat where "REG_RBP = 10"
definition REG_RIP :: nat where "REG_RIP = 19"
definition REG_CS :: nat where "REG_CS = 20"
definition REG_RFLAGS :: nat where "REG_RFLAGS = 21"
definition REG_RSP :: nat where "REG_RSP = 22"
definition REG_SS :: nat where "REG_SS = 23"

lemmas reg_defs = REG_GS_def REG_FS_def REG_ES_def REG_DS_def REG_RDI_def REG_RBP_def REG_RIP_def
  REG_CS_def REG_RFLAGS_def REG_RSP_def REG_SS_def

definition PROCESS_STATE_READY :: BYTE where "PROCESS_STATE_READY = 0"
definition PROCESS_STATE_RUNNING :: BYTE where "PROCESS_STATE_RUNNING = 1"
definition PROCESS_STATE_BLOCKED :: BYTE where "PROCESS_STATE_BLOCKED = 2"
definition PROCESS_STATE_EXIT :: BYTE where "PROCESS_STATE_EXIT = 3"

lemmas state_defs = PROCESS_STATE_READY_def PROCESS_STATE_RUNNING_def PROCESS_STATE_BLOCKED_def
  PROCESS_STATE_EXIT_def

lemma states_distinct [simp]:
  "PROCESS_STATE_READY \<noteq> PROCESS_STATE_RUNNING" "PROCESS_STATE_RUNNING \<noteq> PROCESS_STATE_READY"
  "PROCESS_STATE_READY \<noteq> PROCESS_STATE_BLOCKED" "PROCESS_STATE_BLOCKED \<noteq> PROCESS_STATE_READY"
  "PROCESS_STATE_READY \<noteq> PROCESS_STATE_EXIT" "PROCESS_STATE_EXIT \<noteq> PROCESS_STATE_READY"
  "PROCESS_STATE_RUNNING \<noteq> PROCESS_STATE_BLOCKED" "PROCESS_STATE_BLOCKED \<noteq> PROCESS_STATE_RUNNING"
  "PROCESS_STATE_RUNNING \<noteq> PROCESS_STATE_EXIT" "PROCESS_STATE_EXIT \<noteq> PROCESS_STATE_RUNNING"
  "PROCESS_STATE_BLOCKED \<noteq> PROCESS_STATE_EXIT" "PROCESS_STATE_EXIT \<noteq> PROCESS_STATE_BLOCKED"
  by (simp_all add: state_defs)

section \<open>State\<close>

record pcb =
  pageTableAddress :: QWORD
  stackSize :: QWORD
  stackAddress :: QWORD
  pstate :: BYTE
  wakeupTick :: QWORD
  ctx :: "QWORD list"

text \<open>The interrupt handlers the drivers register (\<^verbatim>\<open>arch/HandlerImp.c\<close>).\<close>

datatype isr = timerISR | keyboardISR | primaryDiskISR | secondaryDiskISR

record 'd proc = "'d hw" +
  nodes :: nheap
  pcbs :: "ptr \<Rightarrow> pcb"
  runningProcess :: ptr
  idleProcess :: ptr
  processList :: linkedList
  sleepList :: linkedList
  pidCountIdx :: WORD
  allocProcessTable :: "int list"
  exitProcessQueue :: queue
  collectorProcess :: ptr
  tickCount :: QWORD
  cpu :: "QWORD list"
  ist :: "QWORD list"
  tssRsp0 :: QWORD
  pte :: "nat \<Rightarrow> DWORD"
  tlbView :: "nat \<Rightarrow> DWORD"
  ram :: memory
  interruptHandlers :: "isr option list"

text \<open>\<^verbatim>\<open>sizeof(PCB)\<close> is 237: the struct is packed.\<close>

definition pcbAddr :: "nat \<Rightarrow> ptr" where
  "pcbAddr pid = PCB_POOL_ADDRESS + 237 * pid"

definition upd_pcb :: "ptr \<Rightarrow> (pcb \<Rightarrow> pcb) \<Rightarrow> ('d, 'z) proc_scheme \<Rightarrow> ('d, 'z) proc_scheme" where
  "upd_pcb p f s = s\<lparr>pcbs := (pcbs s)(p := f (pcbs s p))\<rparr>"

definition set_state :: "ptr \<Rightarrow> BYTE \<Rightarrow> ('d, 'z) proc_scheme \<Rightarrow> ('d, 'z) proc_scheme" where
  "set_state p st s = upd_pcb p (\<lambda>b. b\<lparr>pstate := st\<rparr>) s"

definition state_of :: "('d, 'z) proc_scheme \<Rightarrow> ptr \<Rightarrow> BYTE" where
  "state_of s p = pstate (pcbs s p)"

section \<open>Interrupt flag, task state, registration\<close>

definition RFLAGS_IF :: QWORD where "RFLAGS_IF = 0x200"

definition enableInterrupt :: "('d, 'z) proc_scheme \<Rightarrow> ('d, 'z) proc_scheme" where
  "enableInterrupt s = s\<lparr>cpu := (cpu s)[REG_RFLAGS := cpu s ! REG_RFLAGS OR RFLAGS_IF]\<rparr>"

definition disableInterrupt :: "('d, 'z) proc_scheme \<Rightarrow> ('d, 'z) proc_scheme" where
  "disableInterrupt s = s\<lparr>cpu := (cpu s)[REG_RFLAGS := cpu s ! REG_RFLAGS AND NOT RFLAGS_IF]\<rparr>"

definition interrupts_on :: "('d, 'z) proc_scheme \<Rightarrow> bool" where
  "interrupts_on s \<longleftrightarrow> cpu s ! REG_RFLAGS AND RFLAGS_IF \<noteq> 0"

definition setIf :: "bool \<Rightarrow> ('d, 'z) proc_scheme \<Rightarrow> bool \<times> ('d, 'z) proc_scheme" where
  "setIf interrupt s =
     (interrupts_on s, if interrupt then enableInterrupt s else disableInterrupt s)"

definition setTSSRsp0 :: "QWORD \<Rightarrow> ('d, 'z) proc_scheme \<Rightarrow> ('d, 'z) proc_scheme" where
  "setTSSRsp0 v s = s\<lparr>tssRsp0 := v\<rparr>"

definition updateTSSRsp0 :: "ptr \<Rightarrow> ('d, 'z) proc_scheme \<Rightarrow> ('d, 'z) proc_scheme" where
  "updateTSSRsp0 p s = setTSSRsp0 (stackAddress (pcbs s p) + stackSize (pcbs s p)) s"

definition registerInterruptHandler :: "int \<Rightarrow> isr \<Rightarrow> ('d, 'z) proc_scheme \<Rightarrow> ('d, 'z) proc_scheme" where
  "registerInterruptHandler vectorNumber handler s =
     (if vectorNumber < 0 \<or> vectorNumber \<ge> 48 then s
      else s\<lparr>interruptHandlers := (interruptHandlers s)[nat vectorNumber := Some handler]\<rparr>)"

text \<open>
  The context switch stores the register file in the context of the current process and loads
  the one of the next; a null current context is not stored. The registers of the model are
  those at the point where the call returns, which is what the assembly stores as
  \<^verbatim>\<open>RIP\<close> and \<^verbatim>\<open>RSP\<close>.
\<close>

definition switchContext :: "ptr \<Rightarrow> ptr \<Rightarrow> ('d, 'z) proc_scheme \<Rightarrow> ('d, 'z) proc_scheme" where
  "switchContext cur next_p s =
     (let s1 = (if cur = NULL then s else upd_pcb cur (\<lambda>b. b\<lparr>ctx := cpu s\<rparr>) s)
      in s1\<lparr>cpu := ctx (pcbs s1 next_p)\<rparr>)"

section \<open>Blocking, sleeping and waking\<close>

definition getTickCount :: "('d, 'z) proc_scheme \<Rightarrow> QWORD" where
  "getTickCount s = tickCount s"

definition getRunningProcess :: "('d, 'z) proc_scheme \<Rightarrow> ptr" where
  "getRunningProcess s = runningProcess s"

definition getRunningPid :: "('d, 'z) proc_scheme \<Rightarrow> int" where
  "getRunningPid s = nid (nodes s (runningProcess s))"

definition insert_ready :: "ptr \<Rightarrow> ('d, 'z) proc_scheme \<Rightarrow> ('d, 'z) proc_scheme" where
  "insert_ready p s =
     (let (h, l) = insertList (nodes s) (processList s) p in s\<lparr>nodes := h, processList := l\<rparr>)"

definition insert_sleep :: "ptr \<Rightarrow> ('d, 'z) proc_scheme \<Rightarrow> ('d, 'z) proc_scheme" where
  "insert_sleep p s =
     (let (h, l) = insertList (nodes s) (sleepList s) p in s\<lparr>nodes := h, sleepList := l\<rparr>)"

definition pop_ready :: "('d, 'z) proc_scheme \<Rightarrow> (ptr \<times> ('d, 'z) proc_scheme) option" where
  "pop_ready s = do {
     (p, h, l) \<leftarrow> HeadRemove (nodes s) (processList s);
     Some (p, s\<lparr>nodes := h, processList := l\<rparr>) }"

text \<open>Make \<open>p\<close> the running process: the statements before each context switch.\<close>

definition run_next :: "ptr \<Rightarrow> ('d, 'z) proc_scheme \<Rightarrow> ('d, 'z) proc_scheme" where
  "run_next p s =
     (let s1 = set_state p PROCESS_STATE_RUNNING s;
          s2 = s1\<lparr>runningProcess := p\<rparr>
      in updateTSSRsp0 p s2)"

definition scheduleBlocked :: "('d, 'z) proc_scheme \<Rightarrow> ('d, 'z) proc_scheme option" where
  "scheduleBlocked s = do {
     let cur = runningProcess s;
     (popped, s1) \<leftarrow> pop_ready s;
     let next_p = (if popped = NULL then idleProcess s1 else popped);
     Some (switchContext cur next_p (run_next next_p s1)) }"

definition blockRunningProcess :: "('d, 'z) proc_scheme \<Rightarrow> ('d, 'z) proc_scheme option" where
  "blockRunningProcess s =
     scheduleBlocked (set_state (runningProcess s) PROCESS_STATE_BLOCKED s)"

definition sleepUntilTick :: "QWORD \<Rightarrow> ('d, 'z) proc_scheme \<Rightarrow> ('d, 'z) proc_scheme option" where
  "sleepUntilTick tick s =
     (let cur = runningProcess s;
          s1 = upd_pcb cur (\<lambda>b. b\<lparr>wakeupTick := tick\<rparr>) s
      in blockRunningProcess (insert_sleep cur s1))"

text \<open>Up to the switch; the final \<^verbatim>\<open>setIf(preIf)\<close> runs when the process is resumed.\<close>

definition sleepProcess :: "QWORD \<Rightarrow> ('d, 'z) proc_scheme \<Rightarrow> (bool \<times> ('d, 'z) proc_scheme) option" where
  "sleepProcess ms s =
     (let (preIf, s1) = setIf False s
      in map_option (Pair preIf) (sleepUntilTick (tickCount s1 + (ms + SLOT_TIME - 1) div SLOT_TIME) s1))"

definition wakeupProcess :: "ptr \<Rightarrow> ('d, 'z) proc_scheme \<Rightarrow> (bool \<times> ('d, 'z) proc_scheme) option" where
  "wakeupProcess p s =
     (if p = NULL \<or> state_of s p \<noteq> PROCESS_STATE_BLOCKED then Some (False, s)
      else do {
        (removed, h, l) \<leftarrow> removeList (nodes s) (sleepList s) (nid (nodes s p));
        let s1 = s\<lparr>nodes := h, sleepList := l\<rparr>;
        let s2 = set_state p PROCESS_STATE_READY s1;
        Some (True, insert_ready p s2) })"

section \<open>Switching\<close>

text \<open>\<^verbatim>\<open>schedule\<close> up to the switch; the result tells whether a switch took place, in which
  case the final \<^verbatim>\<open>setIf(preIf)\<close> runs when the process is resumed.\<close>

definition schedule :: "('d, 'z) proc_scheme \<Rightarrow> (bool \<times> bool \<times> ('d, 'z) proc_scheme) option" where
  "schedule s = do {
     let (preIf, s1) = setIf False s;
     (nextProcess, s2) \<leftarrow> pop_ready s1;
     if nextProcess \<noteq> NULL then do {
       let curProcess = runningProcess s2;
       let s3 = insert_ready curProcess (set_state curProcess PROCESS_STATE_READY s2);
       Some (True, preIf, switchContext curProcess nextProcess (run_next nextProcess s3)) }
     else Some (False, preIf, snd (setIf preIf s2)) }"

text \<open>In an interrupt handler the interrupted context is the frame on the interrupt stack.\<close>

definition timeoutSchedule :: "('d, 'z) proc_scheme \<Rightarrow> ('d, 'z) proc_scheme option" where
  "timeoutSchedule s =
     (if l_count (processList s) = 0 then Some s
      else do {
        (nextProcess, s1) \<leftarrow> pop_ready s;
        let curProcess = runningProcess s1;
        let s2 = upd_pcb curProcess (\<lambda>b. b\<lparr>ctx := ist s1\<rparr>) s1;
        let s3 = (if curProcess \<noteq> idleProcess s2
                  then insert_ready curProcess (set_state curProcess PROCESS_STATE_READY s2)
                  else s2);
        let s4 = run_next nextProcess s3;
        Some (s4\<lparr>ist := ctx (pcbs s4 nextProcess)\<rparr>) })"

definition wakeupProcessInInterrupt :: "ptr \<Rightarrow> ('d, 'z) proc_scheme \<Rightarrow> ('d, 'z) proc_scheme option" where
  "wakeupProcessInInterrupt p s = do {
     (woken, s1) \<leftarrow> wakeupProcess p s;
     if \<not> woken then Some s1
     else if runningProcess s1 = idleProcess s1 then timeoutSchedule s1
     else Some s1 }"

partial_function (option) wake_loop :: "ptr \<Rightarrow> ('d, 'z) proc_scheme \<Rightarrow> ('d, 'z) proc_scheme option" where
  "wake_loop cur s =
     (if cur = NULL then Some s
      else do {
        let next_n = nxt (nodes s cur);
        s1 \<leftarrow> (if tickCount s \<ge> wakeupTick (pcbs s cur) then map_option snd (wakeupProcess cur s)
              else Some s);
        wake_loop next_n s1 })"

definition wakeExpiredProcess :: "('d, 'z) proc_scheme \<Rightarrow> ('d, 'z) proc_scheme option" where
  "wakeExpiredProcess s = wake_loop (l_head (sleepList s)) s"

definition timerInterruptHandler :: "'d portio \<Rightarrow> int \<Rightarrow> ('d, 'z) proc_scheme \<Rightarrow> ('d, 'z) proc_scheme option" where
  "timerInterruptHandler io vectorNumber s = do {
     let s1 = s\<lparr>tickCount := tickCount s + 1\<rparr>;
     let s2 = snd (sendEOI io (vectorNumber - IRQ_START_OFFSET) s1);
     s3 \<leftarrow> wakeExpiredProcess s2;
     timeoutSchedule s3 }"

section \<open>Exit and collection\<close>

text \<open>The exit queue holds pids as 4-byte integers.\<close>

definition pid_bytes :: "int \<Rightarrow> BYTE list" where
  "pid_bytes i = le_encode 4 (nat (i mod 2 ^ 32))"

definition bytes_pid :: "BYTE list \<Rightarrow> int" where
  "bytes_pid bs = sint (word_of_nat (le_decode bs) :: DWORD)"

definition exitProcess :: "('d, 'z) proc_scheme \<Rightarrow> ('d, 'z) proc_scheme option" where
  "exitProcess s = do {
     let (_, s1) = setIf False s;
     let cur = runningProcess s1;
     let (_, q) = enQueue (exitProcessQueue s1) (pid_bytes (nid (nodes s1 cur)));
     (_, s2) \<leftarrow> wakeupProcess (collectorProcess s1) (s1\<lparr>exitProcessQueue := q\<rparr>);
     scheduleBlocked (set_state cur PROCESS_STATE_EXIT s2) }"

definition PAGE_FLAG_P :: DWORD where "PAGE_FLAG_P = 0x1"
definition PAGE_FLAG_US :: DWORD where "PAGE_FLAG_US = 0x4"

definition flushTLB :: "('d, 'z) proc_scheme \<Rightarrow> ('d, 'z) proc_scheme" where
  "flushTLB s = s\<lparr>tlbView := pte s\<rparr>"

function page_loop :: "nat \<Rightarrow> nat \<Rightarrow> bool \<Rightarrow> (nat \<Rightarrow> DWORD) \<Rightarrow> nat \<Rightarrow> DWORD" where
  "page_loop addr last_addr allow pg =
     (if addr < last_addr
      then page_loop (addr + 0x1000) last_addr allow
             (pg(addr div 0x1000 := (if allow then pg (addr div 0x1000) OR PAGE_FLAG_US
                                     else pg (addr div 0x1000) AND NOT PAGE_FLAG_US)))
      else pg)"
  by pat_completeness auto
termination by (relation "measure (\<lambda>(addr, last_addr, _, _). last_addr - addr)") auto

declare page_loop.simps [simp del]

definition setPageUserAccess :: "nat \<Rightarrow> nat \<Rightarrow> bool \<Rightarrow> ('d, 'z) proc_scheme \<Rightarrow> ('d, 'z) proc_scheme" where
  "setPageUserAccess start last_addr allow s =
     flushTLB (s\<lparr>pte := page_loop start last_addr allow (pte s)\<rparr>)"

definition userStack :: "nat \<Rightarrow> nat" where
  "userStack pid = USER_STACK_BASE + USER_STACK_INTERVAL * pid"

text \<open>
  One turn of the collector with interrupts off, from the test of the inner loop on: an empty
  queue blocks it (\<open>False\<close>, the test is repeated when it is resumed), otherwise one pid is
  reclaimed (\<open>True\<close>) and \<^verbatim>\<open>setIf(preIf)\<close> ends the turn. A pid outside the table
  would write outside its array.
\<close>

definition reclaim :: "nat \<Rightarrow> ('d, 'z) proc_scheme \<Rightarrow> ('d, 'z) proc_scheme" where
  "reclaim pid s =
     (let s1 = s\<lparr>allocProcessTable := (allocProcessTable s)[pid := 0]\<rparr>;
          s2 = setPageUserAccess (userStack pid) (userStack pid + USER_STACK_SIZE) False s1;
          k = KERNEL_SIZE + pid * 2
      in s2\<lparr>pte := (pte s2)(k := pte s2 k AND NOT PAGE_FLAG_P)\<rparr>)"

definition collectorTurn :: "bool \<Rightarrow> ('d, 'z) proc_scheme \<Rightarrow> (bool \<times> ('d, 'z) proc_scheme) option" where
  "collectorTurn preIf s =
     (if queueIsEmpty (exitProcessQueue s) then map_option (Pair False) (blockRunningProcess s)
      else
        let (_, bs, q) = deQueue (exitProcessQueue s) (replicate 4 0);
            pid = bytes_pid bs
        in if 0 \<le> pid \<and> pid < int PROCESS_MAXCOUNT
           then Some (True, snd (setIf preIf (reclaim (nat pid) (s\<lparr>exitProcessQueue := q\<rparr>))))
           else None)"

definition collectorStart :: "('d, 'z) proc_scheme \<Rightarrow> bool \<times> (bool \<times> ('d, 'z) proc_scheme) option" where
  "collectorStart s = (let (preIf, s1) = setIf False s in (preIf, collectorTurn preIf s1))"

section \<open>Creation\<close>

definition CODE_DESCRIPTOR_OFFSET :: QWORD where "CODE_DESCRIPTOR_OFFSET = 0x10"
definition DATA_DESCRIPTOR_OFFSET :: QWORD where "DATA_DESCRIPTOR_OFFSET = 0x08"
definition USER_DATA_DESCRIPTOR_OFFSET :: QWORD where "USER_DATA_DESCRIPTOR_OFFSET = 0x18"
definition USER_CODE_DESCRIPTOR_OFFSET :: QWORD where "USER_CODE_DESCRIPTOR_OFFSET = 0x20"
definition RPL_USER :: QWORD where "RPL_USER = 0x03"

text \<open>
  \<^verbatim>\<open>InitializeMemory(start, end)\<close> of \<^verbatim>\<open>kernel/lib/64bit.c\<close> clears 4-byte
  words from address \<open>start\<close> up to the address \<open>end\<close>. On the register array at \<open>start\<close> this is
  \<open>clearRegisters\<close>. \<^verbatim>\<open>setUpProcess\<close> passes the array's size as the second argument.
\<close>

definition clearRegisters :: "nat \<Rightarrow> nat \<Rightarrow> QWORD list \<Rightarrow> QWORD list" where
  "clearRegisters start last_addr r =
     map (\<lambda>i. if start + 8 * i + 4 < last_addr then 0
              else if start + 8 * i < last_addr then r ! i AND 0xFFFFFFFF00000000
              else r ! i) [0..<length r]"

definition contextAddr :: "ptr \<Rightarrow> nat" where
  "contextAddr p = p + 45"

definition SIZEOF_CONTEXT :: nat where "SIZEOF_CONTEXT = 192"

definition setUpProcess :: "ptr \<Rightarrow> QWORD \<Rightarrow> QWORD \<Rightarrow> QWORD \<Rightarrow> pcb \<Rightarrow> pcb" where
  "setUpProcess p entryPoint stackAddr stackSz b =
     (let r = clearRegisters (contextAddr p) SIZEOF_CONTEXT (ctx b);
          r = r[REG_CS := CODE_DESCRIPTOR_OFFSET];
          r = r[REG_SS := DATA_DESCRIPTOR_OFFSET];
          r = r[REG_DS := DATA_DESCRIPTOR_OFFSET];
          r = r[REG_ES := DATA_DESCRIPTOR_OFFSET];
          r = r[REG_FS := DATA_DESCRIPTOR_OFFSET];
          r = r[REG_GS := DATA_DESCRIPTOR_OFFSET];
          r = r[REG_RIP := entryPoint];
          r = r[REG_RSP := stackAddr + stackSz];
          r = r[REG_RBP := stackAddr + stackSz];
          r = r[REG_RFLAGS := r ! REG_RFLAGS OR RFLAGS_IF]
      in b\<lparr>stackAddress := stackAddr, stackSize := stackSz, ctx := r\<rparr>)"

text \<open>The search for a free slot: \<open>None\<close> is the endless loop after the error message.\<close>

function findSlot :: "int list \<Rightarrow> nat \<Rightarrow> WORD \<Rightarrow> WORD option" where
  "findSlot tab tryCount idx =
     (if tab ! (unat idx mod PROCESS_MAXCOUNT) = 1
      then if tryCount + 1 > PROCESS_MAXCOUNT then None
           else findSlot tab (tryCount + 1) (word_of_nat ((unat idx + 1) mod PROCESS_MAXCOUNT))
      else Some idx)"
  by pat_completeness auto
termination by (relation "measure (\<lambda>(_, tryCount, _). PROCESS_MAXCOUNT - tryCount)") auto

declare findSlot.simps [simp del]

definition createProcess :: "QWORD \<Rightarrow> QWORD \<Rightarrow> ('d, 'z) proc_scheme \<Rightarrow> (ptr \<times> ('d, 'z) proc_scheme) option" where
  "createProcess entryPoint arg s = do {
     let (preIf, s1) = setIf False s;
     idx \<leftarrow> findSlot (allocProcessTable s1) 0 (pidCountIdx s1);
     let pid = unat idx;
     let stackAddr = word_of_nat (PROCESS_STACK_BASE + PROCESS_STACK_INTERVAL * pid);
     let cur = pcbAddr pid;
     let s2 = s1\<lparr>pidCountIdx := idx, nodes := (nodes s1)(cur := (nodes s1 cur)\<lparr>nid := int pid\<rparr>)\<rparr>;
     let s3 = upd_pcb cur (setUpProcess cur entryPoint stackAddr (word_of_nat PROCESS_STACK_SIZE)) s2;
     let s4 = upd_pcb cur (\<lambda>b. b\<lparr>ctx := (ctx b)[REG_RDI := arg]\<rparr>) s3;
     let s5 = insert_ready cur (set_state cur PROCESS_STATE_READY s4);
     let k = KERNEL_SIZE + pid * 2;
     let s6 = s5\<lparr>pte := (pte s5)(k := pte s5 k OR PAGE_FLAG_P)\<rparr>;
     if pid < length (allocProcessTable s6)
     then Some (cur, snd (setIf preIf
            (s6\<lparr>allocProcessTable := (allocProcessTable s6)[pid := 1], pidCountIdx := idx + 1\<rparr>)))
     else None }"

definition userContext :: "nat \<Rightarrow> QWORD list \<Rightarrow> QWORD list" where
  "userContext stk r =
     (let r = r[REG_CS := USER_CODE_DESCRIPTOR_OFFSET OR RPL_USER];
          r = r[REG_SS := USER_DATA_DESCRIPTOR_OFFSET OR RPL_USER];
          r = r[REG_DS := USER_DATA_DESCRIPTOR_OFFSET OR RPL_USER];
          r = r[REG_ES := USER_DATA_DESCRIPTOR_OFFSET OR RPL_USER];
          r = r[REG_FS := USER_DATA_DESCRIPTOR_OFFSET OR RPL_USER];
          r = r[REG_GS := USER_DATA_DESCRIPTOR_OFFSET OR RPL_USER];
          r = r[REG_RSP := word_of_nat (stk + USER_STACK_SIZE)];
          r = r[REG_RBP := word_of_nat (stk + USER_STACK_SIZE)]
      in r)"

definition createUserProcess :: "QWORD \<Rightarrow> QWORD \<Rightarrow> ('d, 'z) proc_scheme \<Rightarrow> (ptr \<times> ('d, 'z) proc_scheme) option" where
  "createUserProcess entryPoint arg s = do {
     let (preIf, s1) = setIf False s;
     (p, s2) \<leftarrow> createProcess entryPoint arg s1;
     let stk = userStack (nat (nid (nodes s2 p)));
     let s3 = setPageUserAccess stk (stk + USER_STACK_SIZE) True s2;
     let s4 = upd_pcb p (\<lambda>b. b\<lparr>ctx := userContext stk (ctx b)\<rparr>) s3;
     Some (p, snd (setIf preIf s4)) }"

definition runUserProgram :: "ptr \<Rightarrow> QWORD \<Rightarrow> QWORD \<Rightarrow> ('d, 'z) proc_scheme \<Rightarrow> (ptr \<times> ('d, 'z) proc_scheme) option" where
  "runUserProgram img sz arg s =
     (if unat sz > USER_CODE_SIZE then Some (NULL, s)
      else do {
        let (preIf, s1) = setIf False s;
        let s2 = s1\<lparr>ram := memcpy (ram s1) USER_CODE_ADDRESS img (int_of_qword sz)\<rparr>;
        let s3 = setPageUserAccess USER_CODE_ADDRESS (USER_CODE_ADDRESS + USER_CODE_SIZE) True s2;
        (p, s4) \<leftarrow> createUserProcess (word_of_nat USER_CODE_ADDRESS) arg s3;
        Some (p, snd (setIf preIf s4)) })"

text \<open>The entry points are addresses of C functions: arguments of the model.\<close>

definition initScheduler :: "QWORD \<Rightarrow> QWORD \<Rightarrow> BYTE list \<Rightarrow> ('d, 'z) proc_scheme \<Rightarrow> ('d, 'z) proc_scheme option" where
  "initScheduler collectorEntry idleEntry queueBuffer s = do {
     let p = pcbAddr 0;
     let s1 = s\<lparr>pidCountIdx := 0, nodes := (nodes s)(p := (nodes s p)\<lparr>nid := 0\<rparr>)\<rparr>;
     let s2 = set_state p PROCESS_STATE_RUNNING s1;
     let s3 = s2\<lparr>allocProcessTable := (allocProcessTable s2)[0 := 1], pidCountIdx := 1,
                 processList := initList (processList s2), sleepList := initList (sleepList s2),
                 runningProcess := p,
                 exitProcessQueue := initQueue queueBuffer (int EXIT_QUEUE_COUNT) 4\<rparr>;
     (c, s4) \<leftarrow> createProcess collectorEntry 0 s3;
     (i, s5) \<leftarrow> createProcess idleEntry 0 (s4\<lparr>collectorProcess := c\<rparr>);
     let s6 = s5\<lparr>idleProcess := i\<rparr>;
     (_, h, l) \<leftarrow> removeList (nodes s6) (processList s6) (nid (nodes s6 i));
     Some (registerInterruptHandler (IRQ_START_OFFSET + 0) timerISR (s6\<lparr>nodes := h, processList := l\<rparr>)) }"

end
