(* ===== verification/Scheduler.thy ===== *)
theory Scheduler
  imports Process
begin

text \<open>
  The scheduler's invariant and its preservation. \<open>srep s rs ss\<close> says that the ready list
  holds the PCBs \<open>rs\<close> and the sleep list the PCBs \<open>ss\<close>; \<open>core\<close> relates them to the
  process states, the running process, the slot table and the exit queue, without mentioning
  the heap; \<open>sched_rel\<close> is both. Each primitive of the scheduler has one lemma on \<open>srep\<close>
  and one on \<open>core\<close>, and each operation of \<^verbatim>\<open>Process.c\<close> one lemma on
  \<open>sched_rel\<close> that also gives the operation's effect on the abstract scheduler
  \<open>asched\<close>: the running process, the ready queue and the sleepers with their ticks.
\<close>

section \<open>PCB slots\<close>

definition live :: "int list \<Rightarrow> ptr \<Rightarrow> bool" where
  "live al p \<longleftrightarrow> (\<exists>pid < PROCESS_MAXCOUNT. p = pcbAddr pid \<and> al ! pid = 1)"

lemma pcbAddr_inj [simp]: "pcbAddr a = pcbAddr b \<longleftrightarrow> a = b"
  by (simp add: pcbAddr_def)

lemma pcbAddr_not_NULL [simp]: "pcbAddr a \<noteq> NULL" "pcbAddr a > 0"
  by (simp_all add: pcbAddr_def PCB_POOL_ADDRESS_def)

lemma live_pcbAddr [simp]: "live al (pcbAddr pid) \<longleftrightarrow> pid < PROCESS_MAXCOUNT \<and> al ! pid = 1"
  by (auto simp: live_def)

lemma live_not_NULL: "live al p \<Longrightarrow> p \<noteq> NULL"
  by (auto simp: live_def)

section \<open>The heap part\<close>

definition srep :: "('d, 'z) proc_scheme \<Rightarrow> ptr list \<Rightarrow> ptr list \<Rightarrow> bool" where
  "srep s rs ss \<longleftrightarrow> rep (nodes s) (processList s) rs \<and> rep (nodes s) (sleepList s) ss \<and>
     set rs \<inter> set ss = {}"

definition keeps_ids :: "nheap \<Rightarrow> nheap \<Rightarrow> bool" where
  "keeps_ids h h' \<longleftrightarrow> (\<forall>p. nid (h' p) = nid (h p))"

lemma keeps_idsD: "keeps_ids h h' \<Longrightarrow> nid (h' p) = nid (h p)"
  by (simp add: keeps_ids_def)

lemma pop_ready_nil: "srep s [] ss \<Longrightarrow> pop_ready s = Some (NULL, s)"
  by (simp add: pop_ready_def srep_def HeadRemove_empty)

lemma pop_ready_cons:
  assumes "srep s (x # rs) ss"
  obtains h l where "pop_ready s = Some (x, s\<lparr>nodes := h, processList := l\<rparr>)"
    and "srep (s\<lparr>nodes := h, processList := l\<rparr>) rs ss"
    and "keeps_ids (nodes s) h" and "same_outside (nodes s) h (set (x # rs))"
proof -
  obtain h l where *: "HeadRemove (nodes s) (processList s) = Some (x, h, l)" "rep h l rs"
    "same_outside (nodes s) h (set (x # rs))" "(\<lambda>p. nid (h p)) = (\<lambda>p. nid (nodes s p))"
    using nl.hrem_cons [of "nodes s" "processList s" x rs] assms by (auto simp: srep_def)
  moreover have "rep h (sleepList s) ss"
    using nl.reps_same [OF _ *(3)] assms by (auto simp: srep_def)
  ultimately show thesis
    using that [where h = h and l = l] assms by (auto simp: pop_ready_def srep_def keeps_ids_def dest: fun_cong)
qed

lemma insert_ready_srep:
  assumes "srep s rs ss" and "p \<notin> set rs" "p \<notin> set ss" "p \<noteq> NULL"
  obtains h l where "insert_ready p s = s\<lparr>nodes := h, processList := l\<rparr>"
    and "srep (s\<lparr>nodes := h, processList := l\<rparr>) (rs @ [p]) ss"
    and "keeps_ids (nodes s) h" and "same_outside (nodes s) h (insert p (set rs))"
proof -
  obtain h l where hl: "insertList (nodes s) (processList s) p = (h, l)" by fastforce
  with nl.ins_law [OF _ assms(2,4) hl] assms(1)
  have *: "rep h l (rs @ [p])" "same_outside (nodes s) h (insert p (set rs))"
    "(\<lambda>p. nid (h p)) = (\<lambda>p. nid (nodes s p))" by (auto simp: srep_def)
  moreover have "rep h (sleepList s) ss"
    using nl.reps_same [OF _ *(2)] assms by (auto simp: srep_def)
  ultimately show thesis
    using that [where h = h and l = l] assms hl by (auto simp: insert_ready_def srep_def keeps_ids_def dest: fun_cong)
qed

lemma insert_sleep_srep:
  assumes "srep s rs ss" and "p \<notin> set rs" "p \<notin> set ss" "p \<noteq> NULL"
  obtains h l where "insert_sleep p s = s\<lparr>nodes := h, sleepList := l\<rparr>"
    and "srep (s\<lparr>nodes := h, sleepList := l\<rparr>) rs (ss @ [p])"
    and "keeps_ids (nodes s) h" and "same_outside (nodes s) h (insert p (set ss))"
proof -
  obtain h l where hl: "insertList (nodes s) (sleepList s) p = (h, l)" by fastforce
  with nl.ins_law [OF _ assms(3,4) hl] assms(1)
  have *: "rep h l (ss @ [p])" "same_outside (nodes s) h (insert p (set ss))"
    "(\<lambda>p. nid (h p)) = (\<lambda>p. nid (nodes s p))" by (auto simp: srep_def)
  moreover have "rep h (processList s) rs"
    using nl.reps_same [OF _ *(2)] assms by (auto simp: srep_def)
  ultimately show thesis
    using that [where h = h and l = l] assms hl by (auto simp: insert_sleep_def srep_def keeps_ids_def dest: fun_cong)
qed

text \<open>A wake-up moves a blocked process from the sleep list, if it is there, to the ready tail.\<close>

lemma wakeup_srep:
  assumes "srep s rs ss" and "p \<notin> set rs" "p \<noteq> NULL"
    and blocked: "state_of s p = PROCESS_STATE_BLOCKED"
    and keys: "\<forall>y \<in> set ss. nid (nodes s y) = nid (nodes s p) \<longrightarrow> y = p"
  obtains h l l' where
    "wakeupProcess p s = Some (True, (set_state p PROCESS_STATE_READY s)
       \<lparr>nodes := h, processList := l', sleepList := l\<rparr>)"
    and "srep (s\<lparr>nodes := h, processList := l', sleepList := l\<rparr>) (rs @ [p]) (remove1 p ss)"
    and "keeps_ids (nodes s) h" and "same_outside (nodes s) h (insert p (set rs \<union> set ss))"
proof -
  from assms(1) have "rep (nodes s) (sleepList s) ss" "rep (nodes s) (processList s) rs"
    "set ss \<inter> set rs = {}" by (auto simp: srep_def)
  from nl.transfer [OF this assms(2,3) keys]
  obtain r h1 l h l' where *: "removeList (nodes s) (sleepList s) (nid (nodes s p)) = Some (r, h1, l)"
    "insertList h1 (processList s) p = (h, l')" "rep h l (remove1 p ss)" "rep h l' (rs @ [p])"
    "same_outside (nodes s) h (set ss \<union> insert p (set rs))"
    "(\<lambda>p. nid (h p)) = (\<lambda>p. nid (nodes s p))" by blast
  have "distinct ss" using assms(1) by (auto simp: srep_def rep_def)
  then have "set (rs @ [p]) \<inter> set (remove1 p ss) = {}"
    using assms(1) by (auto simp: srep_def)
  with * blocked assms(3) show thesis
    by (intro that [where h = h and l' = l' and l = l])
      (auto simp: wakeupProcess_def insert_ready_def set_state_def upd_pcb_def srep_def
        keeps_ids_def Un_commute dest: fun_cong)
qed

lemma wakeup_ignored:
  "p = NULL \<or> state_of s p \<noteq> PROCESS_STATE_BLOCKED \<Longrightarrow> wakeupProcess p s = Some (False, s)"
  by (simp add: wakeupProcess_def)

section \<open>The abstract part\<close>

definition exit_pids :: "queue \<Rightarrow> int list" where
  "exit_pids q = map bytes_pid (contents q)"

definition exitq_ok :: "(ptr \<Rightarrow> BYTE) \<Rightarrow> int list \<Rightarrow> queue \<Rightarrow> bool" where
  "exitq_ok st al q \<longleftrightarrow> ring_at EXIT_QUEUE_COUNT 4 q \<and> distinct (exit_pids q) \<and>
     (\<forall>i \<in> set (exit_pids q). 0 \<le> i \<and> i < int PROCESS_MAXCOUNT \<and> al ! nat i = 1 \<and>
        st (pcbAddr (nat i)) = PROCESS_STATE_EXIT)"

definition table_ok :: "int list \<Rightarrow> WORD \<Rightarrow> bool" where
  "table_ok al ix \<longleftrightarrow> length al = PROCESS_MAXCOUNT \<and> set al \<subseteq> {0, 1} \<and> al ! 0 = 1 \<and>
     unat ix \<le> PROCESS_MAXCOUNT"

text \<open>
  The ready list holds exactly the READY processes but the idle one; only the running process
  and the idle one are RUNNING (preempting the idle process does not change its state); sleepers
  are BLOCKED; the collector and the boot process never exit.
\<close>

definition core :: "(ptr \<Rightarrow> int) \<Rightarrow> (ptr \<Rightarrow> BYTE) \<Rightarrow> ptr \<Rightarrow> ptr \<Rightarrow> ptr \<Rightarrow> int list \<Rightarrow> ptr list \<Rightarrow> ptr list \<Rightarrow> bool" where
  "core ids st run idle coll al rs ss \<longleftrightarrow>
     set rs = {p. live al p \<and> st p = PROCESS_STATE_READY \<and> p \<noteq> idle} \<and>
     (\<forall>p. live al p \<and> st p = PROCESS_STATE_RUNNING \<and> p \<noteq> idle \<longleftrightarrow> p = run \<and> run \<noteq> idle) \<and>
     set ss \<subseteq> {p. live al p \<and> st p = PROCESS_STATE_BLOCKED \<and> p \<noteq> coll} \<and>
     live al run \<and> st run = PROCESS_STATE_RUNNING \<and>
     live al idle \<and> (st idle = PROCESS_STATE_READY \<or> st idle = PROCESS_STATE_RUNNING) \<and>
     live al coll \<and> coll \<noteq> idle \<and> coll \<noteq> pcbAddr 0 \<and> st coll \<noteq> PROCESS_STATE_EXIT \<and>
     idle \<noteq> pcbAddr 0 \<and> st (pcbAddr 0) \<noteq> PROCESS_STATE_EXIT \<and>
     (\<forall>pid < PROCESS_MAXCOUNT. al ! pid = 1 \<longrightarrow> ids (pcbAddr pid) = int pid)"

definition core_of :: "('d, 'z) proc_scheme \<Rightarrow> ptr list \<Rightarrow> ptr list \<Rightarrow> bool" where
  "core_of s rs ss \<longleftrightarrow> core (\<lambda>p. nid (nodes s p)) (state_of s) (runningProcess s) (idleProcess s)
     (collectorProcess s) (allocProcessTable s) rs ss \<and>
     table_ok (allocProcessTable s) (pidCountIdx s) \<and>
     exitq_ok (state_of s) (allocProcessTable s) (exitProcessQueue s)"

definition sched_rel :: "('d, 'z) proc_scheme \<Rightarrow> ptr list \<Rightarrow> ptr list \<Rightarrow> bool" where
  "sched_rel s rs ss \<longleftrightarrow> srep s rs ss \<and> core_of s rs ss"

text \<open>Every live process is its own pid; two live PCBs with one id are the same PCB.\<close>

lemma core_ids_inj:
  "core ids st run idle coll al rs ss \<Longrightarrow> live al p \<Longrightarrow> live al q \<Longrightarrow> ids p = ids q \<Longrightarrow> p = q"
  unfolding core_def live_def by force

lemma coreI:
  assumes "\<And>p. p \<in> set rs \<longleftrightarrow> live al p \<and> st p = PROCESS_STATE_READY \<and> p \<noteq> idle"
    and "\<And>p. live al p \<and> st p = PROCESS_STATE_RUNNING \<and> p \<noteq> idle \<longleftrightarrow> p = run \<and> run \<noteq> idle"
    and "\<And>p. p \<in> set ss \<Longrightarrow> live al p \<and> st p = PROCESS_STATE_BLOCKED \<and> p \<noteq> coll"
    and "live al run" "st run = PROCESS_STATE_RUNNING"
    and "live al idle" "st idle = PROCESS_STATE_READY \<or> st idle = PROCESS_STATE_RUNNING"
    and "live al coll" "coll \<noteq> idle" "coll \<noteq> pcbAddr 0" "st coll \<noteq> PROCESS_STATE_EXIT"
    and "idle \<noteq> pcbAddr 0" "st (pcbAddr 0) \<noteq> PROCESS_STATE_EXIT"
    and "\<And>pid. pid < PROCESS_MAXCOUNT \<Longrightarrow> al ! pid = 1 \<Longrightarrow> ids (pcbAddr pid) = int pid"
  shows "core ids st run idle coll al rs ss"
  unfolding core_def using assms by blast

lemma coreD:
  assumes "core ids st run idle coll al rs ss"
  shows "p \<in> set rs \<longleftrightarrow> live al p \<and> st p = PROCESS_STATE_READY \<and> p \<noteq> idle"
    and "live al p \<and> st p = PROCESS_STATE_RUNNING \<and> p \<noteq> idle \<longleftrightarrow> p = run \<and> run \<noteq> idle"
    and "p \<in> set ss \<Longrightarrow> live al p \<and> st p = PROCESS_STATE_BLOCKED \<and> p \<noteq> coll"
    and "live al run" "st run = PROCESS_STATE_RUNNING"
    and "live al idle" "st idle = PROCESS_STATE_READY \<or> st idle = PROCESS_STATE_RUNNING"
    and "live al coll" "coll \<noteq> idle" "coll \<noteq> pcbAddr 0" "st coll \<noteq> PROCESS_STATE_EXIT"
    and "idle \<noteq> pcbAddr 0" "st (pcbAddr 0) \<noteq> PROCESS_STATE_EXIT"
    and "pid < PROCESS_MAXCOUNT \<Longrightarrow> al ! pid = 1 \<Longrightarrow> ids (pcbAddr pid) = int pid"
  using assms unfolding core_def by blast+

lemma core_running_fresh:
  assumes "core ids st run idle coll al rs ss"
  shows "run \<notin> set rs" "run \<notin> set ss" "run \<noteq> NULL"
  using coreD [OF assms] live_not_NULL by (metis states_distinct)+

lemma core_wake:
  assumes "core ids st run idle coll al rs ss" and "live al p" and "st p = PROCESS_STATE_BLOCKED"
    and "distinct ss"
  shows "core ids (st(p := PROCESS_STATE_READY)) run idle coll al (rs @ [p]) (remove1 p ss)"
proof -
  note D = coreD [OF assms(1)]
  have ne: "p \<noteq> run" "p \<noteq> idle" using D(5,7) assms(3) by auto
  show ?thesis
    by (rule coreI) (use D(1-14) ne assms(2-4) in \<open>auto split: if_splits\<close>)
qed

text \<open>
  The running process leaves the processor: it blocks, possibly on the sleep list, or exits.
\<close>

definition leaves :: "BYTE \<Rightarrow> ptr \<Rightarrow> ptr \<Rightarrow> ptr list \<Rightarrow> ptr list \<Rightarrow> bool" where
  "leaves st' run coll ss ss' \<longleftrightarrow>
     (st' = PROCESS_STATE_BLOCKED \<and> (ss' = ss \<or> ss' = ss @ [run] \<and> run \<noteq> coll)) \<or>
     (st' = PROCESS_STATE_EXIT \<and> ss' = ss \<and> run \<noteq> coll \<and> run \<noteq> pcbAddr 0)"

lemma leavesE:
  assumes "leaves st' run coll ss ss'"
  obtains (block) "st' = PROCESS_STATE_BLOCKED" "ss' = ss"
    | (sleep) "st' = PROCESS_STATE_BLOCKED" "ss' = ss @ [run]" "run \<noteq> coll"
    | (exit) "st' = PROCESS_STATE_EXIT" "ss' = ss" "run \<noteq> coll" "run \<noteq> pcbAddr 0"
  using assms unfolding leaves_def by blast

lemma core_next:
  assumes core: "core ids st run idle coll al (x # rs) ss" and dist: "distinct (x # rs)"
  shows "x \<noteq> run" "x \<noteq> idle" "live al x" "x \<notin> set ss" "st x = PROCESS_STATE_READY"
    and "p \<in> set rs \<longleftrightarrow> live al p \<and> st p = PROCESS_STATE_READY \<and> p \<noteq> idle \<and> p \<noteq> x"
proof -
  note D = coreD [OF core]
  have x: "live al x \<and> st x = PROCESS_STATE_READY \<and> x \<noteq> idle" using D(1) [of x] by simp
  then show "x \<noteq> idle" "live al x" "st x = PROCESS_STATE_READY" by simp_all
  show "x \<noteq> run" using x D(5) by auto
  show "x \<notin> set ss" using x D(3) [of x] by auto
  show "p \<in> set rs \<longleftrightarrow> live al p \<and> st p = PROCESS_STATE_READY \<and> p \<noteq> idle \<and> p \<noteq> x"
    using D(1) [of p] dist by auto
qed

lemma core_leave:
  assumes core: "core ids st run idle coll al (x # rs) ss" and "run \<noteq> idle"
    and dist: "distinct (x # rs)" and lv: "leaves st' run coll ss ss'"
  shows "core ids (st(run := st', x := PROCESS_STATE_RUNNING)) x idle coll al rs ss'"
  using lv
proof (cases rule: leavesE)
  case block
  then show ?thesis by (intro coreI) (use coreD(2-14) [OF core] core_next [OF core dist] assms(2) in \<open>auto split: if_splits\<close>)
next
  case sleep
  then show ?thesis by (intro coreI) (use coreD(2-14) [OF core] core_next [OF core dist] assms(2) in \<open>auto split: if_splits\<close>)
next
  case exit
  then show ?thesis by (intro coreI) (use coreD(2-14) [OF core] core_next [OF core dist] assms(2) in \<open>auto split: if_splits\<close>)
qed

lemma core_leave_idle:
  assumes core: "core ids st run idle coll al [] ss" and "run \<noteq> idle"
    and lv: "leaves st' run coll ss ss'"
  shows "core ids (st(run := st', idle := PROCESS_STATE_RUNNING)) idle idle coll al [] ss'"
proof -
  have "\<not> (live al p \<and> st p = PROCESS_STATE_READY \<and> p \<noteq> idle)" for p
    using coreD(1) [OF core, of p] by simp
  with lv have none: "p \<in> set [] \<longleftrightarrow> live al p \<and> (st(run := st', idle := PROCESS_STATE_RUNNING)) p =
      PROCESS_STATE_READY \<and> p \<noteq> idle" for p
    by (auto elim!: leavesE)
  show ?thesis
    using lv
  proof (cases rule: leavesE)
  case block
  then show ?thesis by (intro coreI [OF none]) (use coreD(2-14) [OF core] assms(2) in \<open>auto split: if_splits\<close>)
next
  case sleep
  then show ?thesis by (intro coreI [OF none]) (use coreD(2-14) [OF core] assms(2) in \<open>auto split: if_splits\<close>)
next
  case exit
  then show ?thesis by (intro coreI [OF none]) (use coreD(2-14) [OF core] assms(2) in \<open>auto split: if_splits\<close>)
qed
qed

lemma core_rotate:
  assumes core: "core ids st run idle coll al (x # rs) ss" and "run \<noteq> idle" and dist: "distinct (x # rs)"
  shows "core ids (st(run := PROCESS_STATE_READY, x := PROCESS_STATE_RUNNING)) x idle coll al (rs @ [run]) ss"
  by (rule coreI)
    (use coreD(2-14) [OF core] core_next [OF core dist] assms(2) in \<open>auto split: if_splits\<close>)

lemma core_preempt_idle:
  assumes core: "core ids st idle idle coll al (x # rs) ss" and dist: "distinct (x # rs)"
  shows "core ids (st(x := PROCESS_STATE_RUNNING)) x idle coll al rs ss"
proof -
  note x = core_next [OF core dist]
  have "\<not> (live al p \<and> st p = PROCESS_STATE_RUNNING \<and> p \<noteq> idle)" for p
    using coreD(2) [OF core, of p] by simp
  with x(1-5) have run: "live al p \<and> (st(x := PROCESS_STATE_RUNNING)) p = PROCESS_STATE_RUNNING \<and> p \<noteq> idle
      \<longleftrightarrow> p = x \<and> x \<noteq> idle" for p
    by auto
  show ?thesis
    by (rule coreI [OF _ run]) (use coreD(3-14) [OF core] x in \<open>auto split: if_splits\<close>)
qed

lemma exitq_ok_cong:
  assumes "exitq_ok st al q"
    and "\<And>p. live al p \<Longrightarrow> st p = PROCESS_STATE_EXIT \<Longrightarrow> st' p = PROCESS_STATE_EXIT"
  shows "exitq_ok st' al q"
  using assms(1) unfolding exitq_ok_def by (auto intro!: assms(2))

section \<open>Dispatching the next process\<close>

definition next_proc :: "('d, 'z) proc_scheme \<Rightarrow> ptr list \<Rightarrow> ptr" where
  "next_proc s rs = (case rs of [] \<Rightarrow> idleProcess s | x # _ \<Rightarrow> x)"

text \<open>The state after the ready list has become \<open>l\<close> and the processor switched to \<open>nx\<close>.\<close>

definition dispatched :: "ptr \<Rightarrow> nheap \<Rightarrow> linkedList \<Rightarrow> ('d, 'z) proc_scheme \<Rightarrow> ('d, 'z) proc_scheme" where
  "dispatched nx h l s =
     switchContext (runningProcess s) nx (run_next nx (s\<lparr>nodes := h, processList := l\<rparr>))"

lemmas proc_update_defs = set_state_def upd_pcb_def run_next_def updateTSSRsp0_def setTSSRsp0_def
  switchContext_def setIf_def enableInterrupt_def disableInterrupt_def Let_def

lemma state_of_set_state [simp]: "state_of (set_state p st s) = (state_of s)(p := st)"
  by (auto simp: state_of_def set_state_def upd_pcb_def)

lemma set_state_sel [simp]:
  "nodes (set_state p st s) = nodes s" "processList (set_state p st s) = processList s"
  "sleepList (set_state p st s) = sleepList s" "runningProcess (set_state p st s) = runningProcess s"
  "idleProcess (set_state p st s) = idleProcess s" "collectorProcess (set_state p st s) = collectorProcess s"
  "allocProcessTable (set_state p st s) = allocProcessTable s" "pidCountIdx (set_state p st s) = pidCountIdx s"
  "exitProcessQueue (set_state p st s) = exitProcessQueue s" "tickCount (set_state p st s) = tickCount s"
  "ctx (pcbs (set_state p st s) q) = ctx (pcbs s q)"
  "wakeupTick (pcbs (set_state p st s) q) = wakeupTick (pcbs s q)"
  by (simp_all add: set_state_def upd_pcb_def)

lemma dispatched_sel [simp]:
  "nodes (dispatched nx h l s) = h" "processList (dispatched nx h l s) = l"
  "sleepList (dispatched nx h l s) = sleepList s" "runningProcess (dispatched nx h l s) = nx"
  "idleProcess (dispatched nx h l s) = idleProcess s"
  "collectorProcess (dispatched nx h l s) = collectorProcess s"
  "allocProcessTable (dispatched nx h l s) = allocProcessTable s"
  "pidCountIdx (dispatched nx h l s) = pidCountIdx s"
  "exitProcessQueue (dispatched nx h l s) = exitProcessQueue s"
  "tickCount (dispatched nx h l s) = tickCount s"
  "wakeupTick (pcbs (dispatched nx h l s) q) = wakeupTick (pcbs s q)"
  "state_of (dispatched nx h l s) = (state_of s)(nx := PROCESS_STATE_RUNNING)"
  by (auto simp: dispatched_def proc_update_defs state_of_def)

text \<open>The new running process continues with the registers of its own context, the old one's
  are saved in its PCB, and system calls of the new one enter on its own kernel stack.\<close>

lemma dispatched_context:
  assumes "nx \<noteq> runningProcess s" "runningProcess s \<noteq> NULL"
  shows "cpu (dispatched nx h l s) = ctx (pcbs s nx)"
    and "ctx (pcbs (dispatched nx h l s) (runningProcess s)) = cpu s"
    and "tssRsp0 (dispatched nx h l s) = stackAddress (pcbs s nx) + stackSize (pcbs s nx)"
  using assms by (simp_all add: dispatched_def proc_update_defs)

lemma srep_fields:
  "nodes s' = nodes s \<Longrightarrow> processList s' = processList s \<Longrightarrow> sleepList s' = sleepList s \<Longrightarrow>
   srep s' rs ss = srep s rs ss"
  by (simp add: srep_def)

lemma scheduleBlocked_eq:
  assumes "srep s rs ss"
  obtains h l where "scheduleBlocked s = Some (dispatched (next_proc s rs) h l s)"
    and "srep (dispatched (next_proc s rs) h l s) (tl rs) ss"
    and "keeps_ids (nodes s) h" and "same_outside (nodes s) h (set rs)"
proof (cases rs)
  case Nil
  then have "pop_ready s = Some (NULL, s)" using assms pop_ready_nil by blast
  then have "scheduleBlocked s = Some (dispatched (next_proc s rs) (nodes s) (processList s) s)"
    using Nil by (simp add: scheduleBlocked_def dispatched_def next_proc_def Let_def)
  with assms Nil show thesis by (intro that) (auto simp: srep_def keeps_ids_def same_outside_def)
next
  case (Cons x xs)
  with assms obtain h l where *: "pop_ready s = Some (x, s\<lparr>nodes := h, processList := l\<rparr>)"
    "srep (s\<lparr>nodes := h, processList := l\<rparr>) xs ss" "keeps_ids (nodes s) h"
    "same_outside (nodes s) h (set (x # xs))" by (metis pop_ready_cons)
  have "x \<noteq> NULL" using assms Cons by (auto simp: srep_def dest: rep_not_NULL)
  with * Cons have "scheduleBlocked s = Some (dispatched (next_proc s rs) h l s)"
    by (simp add: scheduleBlocked_def dispatched_def next_proc_def Let_def)
  moreover have "srep (dispatched (next_proc s rs) h l s) (tl rs) ss"
    using *(2) Cons by (simp add: srep_def)
  ultimately show thesis using * Cons by (intro that) auto
qed

text \<open>
  The process leaves the processor with its new state already written; \<open>st0\<close> are the states
  before.
\<close>

lemma leave_processor:
  assumes core: "core (\<lambda>p. nid (nodes s p)) st0 (runningProcess s) (idleProcess s) (collectorProcess s)
      (allocProcessTable s) rs ss"
    and table: "table_ok (allocProcessTable s) (pidCountIdx s)"
    and srep: "srep s rs ss'" and run: "runningProcess s \<noteq> idleProcess s"
    and st: "state_of s = st0(runningProcess s := st')"
    and lv: "leaves st' (runningProcess s) (collectorProcess s) ss ss'"
    and exitq: "exitq_ok (state_of s) (allocProcessTable s) (exitProcessQueue s)"
  obtains h l where "scheduleBlocked s = Some (dispatched (next_proc s rs) h l s)"
    and "sched_rel (dispatched (next_proc s rs) h l s) (tl rs) ss'"
    and "keeps_ids (nodes s) h" and "same_outside (nodes s) h (set rs)"
proof -
  obtain h l where *: "scheduleBlocked s = Some (dispatched (next_proc s rs) h l s)"
    "srep (dispatched (next_proc s rs) h l s) (tl rs) ss'" "keeps_ids (nodes s) h"
    "same_outside (nodes s) h (set rs)"
    using scheduleBlocked_eq [OF srep] by metis
  have ids: "(\<lambda>p. nid (h p)) = (\<lambda>p. nid (nodes s p))" using *(3) by (simp add: keeps_ids_def)
  have "core (\<lambda>p. nid (h p)) ((state_of s)(next_proc s rs := PROCESS_STATE_RUNNING)) (next_proc s rs)
      (idleProcess s) (collectorProcess s) (allocProcessTable s) (tl rs) ss' \<and>
      state_of s (next_proc s rs) \<noteq> PROCESS_STATE_EXIT"
  proof (cases rs)
    case Nil
    then show ?thesis using core_leave_idle [OF core [unfolded Nil] run lv] coreD(7) [OF core] run
      by (auto simp: ids st next_proc_def)
  next
    case (Cons x xs)
    then have "distinct (x # xs)" using srep by (auto simp: srep_def rep_def)
    from core_leave [OF core [unfolded Cons] run this lv] core_next(1,5) [OF core [unfolded Cons] this]
    show ?thesis by (auto simp: ids st next_proc_def Cons)
  qed
  moreover from this exitq have
    "exitq_ok ((state_of s)(next_proc s rs := PROCESS_STATE_RUNNING)) (allocProcessTable s) (exitProcessQueue s)"
    by (elim exitq_ok_cong) auto
  ultimately have "sched_rel (dispatched (next_proc s rs) h l s) (tl rs) ss'"
    using *(2) table by (simp add: sched_rel_def core_of_def)
  with * show thesis by (intro that)
qed

lemma sched_relD:
  assumes "sched_rel s rs ss"
  shows "srep s rs ss"
    and "core (\<lambda>p. nid (nodes s p)) (state_of s) (runningProcess s) (idleProcess s)
          (collectorProcess s) (allocProcessTable s) rs ss"
    and "table_ok (allocProcessTable s) (pidCountIdx s)"
    and "exitq_ok (state_of s) (allocProcessTable s) (exitProcessQueue s)"
    and "distinct rs" and "distinct ss"
  using assms by (auto simp: sched_rel_def core_of_def srep_def rep_def)

lemma sched_rel_lists: "sched_rel s rs ss \<Longrightarrow> elems (nodes s) (processList s) = rs \<and> elems (nodes s) (sleepList s) = ss"
  by (auto simp: sched_rel_def srep_def dest: rep_elems)

lemma exitq_not_EXIT:
  assumes "exitq_ok st al q" and "st p \<noteq> PROCESS_STATE_EXIT" and "live al p"
  shows "exitq_ok (st(p := x)) al q"
  using assms(1) by (rule exitq_ok_cong) (use assms(2,3) in auto)

section \<open>Blocking and sleeping\<close>

lemma blockRunningProcess_rel:
  assumes rel: "sched_rel s rs ss" and run: "runningProcess s \<noteq> idleProcess s"
  obtains h l where "blockRunningProcess s = Some (dispatched (next_proc s rs) h l
        (set_state (runningProcess s) PROCESS_STATE_BLOCKED s))"
    and "sched_rel (dispatched (next_proc s rs) h l
        (set_state (runningProcess s) PROCESS_STATE_BLOCKED s)) (tl rs) ss"
    and "keeps_ids (nodes s) h" and "same_outside (nodes s) h (set rs)"
proof -
  let ?s = "set_state (runningProcess s) PROCESS_STATE_BLOCKED s"
  note R = sched_relD [OF rel]
  have "exitq_ok (state_of ?s) (allocProcessTable ?s) (exitProcessQueue ?s)"
    using exitq_not_EXIT [OF R(4), of "runningProcess s"] coreD(4,5) [OF R(2)] by simp
  moreover have "srep ?s rs ss" using R(1) by (simp add: srep_def)
  moreover have "next_proc ?s rs = next_proc s rs" by (cases rs) (simp_all add: next_proc_def)
  ultimately show thesis
    using leave_processor [of ?s "state_of s" rs ss ss PROCESS_STATE_BLOCKED] R(2,3) run that
    by (auto simp: leaves_def blockRunningProcess_def)
qed

lemma insert_sleep_sel [simp]:
  "state_of (upd_pcb p (wakeupTick_update f) s) = state_of s"
  by (auto simp: upd_pcb_def state_of_def)

lemma sleepUntilTick_rel:
  assumes rel: "sched_rel s rs ss" and run: "runningProcess s \<noteq> idleProcess s"
    and coll: "runningProcess s \<noteq> collectorProcess s"
  obtains h l sl where "sleepUntilTick t s = Some (dispatched (next_proc s rs) h l
        (set_state (runningProcess s) PROCESS_STATE_BLOCKED
          (upd_pcb (runningProcess s) (wakeupTick_update (\<lambda>_. t)) s
            \<lparr>nodes := fst (insertList (nodes s) (sleepList s) (runningProcess s)), sleepList := sl\<rparr>)))"
    and "sched_rel (dispatched (next_proc s rs) h l
        (set_state (runningProcess s) PROCESS_STATE_BLOCKED
          (upd_pcb (runningProcess s) (wakeupTick_update (\<lambda>_. t)) s
            \<lparr>nodes := fst (insertList (nodes s) (sleepList s) (runningProcess s)), sleepList := sl\<rparr>)))
        (tl rs) (ss @ [runningProcess s])"
    and "keeps_ids (nodes s) h" and "same_outside (nodes s) h (set rs \<union> insert (runningProcess s) (set ss))"
proof -
  let ?cur = "runningProcess s" and ?w = "upd_pcb (runningProcess s) (wakeupTick_update (\<lambda>_. t)) s"
  note R = sched_relD [OF rel]
  note fresh = core_running_fresh [OF R(2)]
  have w: "nodes ?w = nodes s" "processList ?w = processList s" "sleepList ?w = sleepList s"
    "runningProcess ?w = ?cur" "idleProcess ?w = idleProcess s" "collectorProcess ?w = collectorProcess s"
    "allocProcessTable ?w = allocProcessTable s" "pidCountIdx ?w = pidCountIdx s"
    "exitProcessQueue ?w = exitProcessQueue s" by (simp_all add: upd_pcb_def)
  have "srep ?w rs ss" using R(1) w by (simp add: srep_def)
  then obtain h1 sl where ins: "insert_sleep ?cur ?w = ?w\<lparr>nodes := h1, sleepList := sl\<rparr>"
    "srep (?w\<lparr>nodes := h1, sleepList := sl\<rparr>) rs (ss @ [?cur])" "keeps_ids (nodes s) h1"
    "same_outside (nodes s) h1 (insert ?cur (set ss))"
    using insert_sleep_srep [of ?w rs ss ?cur] fresh w by metis
  have h1: "h1 = fst (insertList (nodes s) (sleepList s) ?cur)"
    using arg_cong [OF ins(1), of nodes] w by (simp add: insert_sleep_def split: prod.splits)
  let ?s = "set_state ?cur PROCESS_STATE_BLOCKED (?w\<lparr>nodes := h1, sleepList := sl\<rparr>)"
  have st: "state_of (?w\<lparr>nodes := h1, sleepList := sl\<rparr>) = state_of s"
    by (auto simp: state_of_def upd_pcb_def)
  have ids: "(\<lambda>p. nid (h1 p)) = (\<lambda>p. nid (nodes s p))" using ins(3) by (simp add: keeps_ids_def)
  have "exitq_ok (state_of ?s) (allocProcessTable ?s) (exitProcessQueue ?s)"
    using exitq_not_EXIT [OF R(4), of ?cur] coreD(4,5) [OF R(2)] by (simp add: w st)
  moreover have "srep ?s rs (ss @ [?cur])" using ins(2) by (simp add: srep_def)
  moreover have "next_proc ?s rs = next_proc s rs" by (cases rs) (simp_all add: next_proc_def w)
  moreover have "leaves PROCESS_STATE_BLOCKED ?cur (collectorProcess s) ss (ss @ [?cur])"
    using coll by (simp add: leaves_def)
  ultimately obtain h l where *: "scheduleBlocked ?s = Some (dispatched (next_proc s rs) h l ?s)"
    "sched_rel (dispatched (next_proc s rs) h l ?s) (tl rs) (ss @ [?cur])" "keeps_ids h1 h"
    "same_outside h1 h (set rs)"
    using leave_processor [of ?s "state_of s" rs ss "ss @ [?cur]" PROCESS_STATE_BLOCKED] R(2,3) run
    by (auto simp: w st ids)
  have "keeps_ids (nodes s) h" using ins(3) *(3) by (simp add: keeps_ids_def)
  moreover have "same_outside (nodes s) h (set rs \<union> insert ?cur (set ss))"
    using ins(4) *(4) by (auto simp: same_outside_def)
  moreover have "sleepUntilTick t s = scheduleBlocked ?s"
    using ins(1) w by (simp add: sleepUntilTick_def blockRunningProcess_def Let_def)
  ultimately show thesis using that * by (simp add: h1)
qed

end
