(* ===== verification/SchedulerOps.thy ===== *)
theory SchedulerOps
  imports Scheduler
begin

text \<open>
  The scheduling operations of \<^verbatim>\<open>Process.c\<close> on the scheduler's invariant: waking, the
  time slice, the voluntary switch, the sweep of the sleep list and the timer interrupt. Each
  lemma gives the new ready and sleep lists, the running process, the saved and loaded
  contexts and the fields left alone. \<open>asched\<close> is the abstract scheduler they implement.
\<close>

section \<open>Frames\<close>

text \<open>Everything the scheduling operations leave alone.\<close>

definition sched_frame :: "('d, 'z) proc_scheme \<Rightarrow> ('d, 'z) proc_scheme \<Rightarrow> bool" where
  "sched_frame s s' \<longleftrightarrow> s' = s\<lparr>nodes := nodes s', pcbs := pcbs s', runningProcess := runningProcess s',
     processList := processList s', sleepList := sleepList s', cpu := cpu s', ist := ist s',
     tssRsp0 := tssRsp0 s'\<rparr> \<and> keeps_ids (nodes s) (nodes s')"

lemma sched_frame_refl [simp]: "sched_frame s s"
  by (simp add: sched_frame_def keeps_ids_def)

lemma sched_frame_trans: "sched_frame s s' \<Longrightarrow> sched_frame s' s'' \<Longrightarrow> sched_frame s s''"
  by (cases s; cases s'; cases s'') (simp add: sched_frame_def keeps_ids_def)

lemma sched_frame_sel:
  assumes "sched_frame s s'"
  shows "idleProcess s' = idleProcess s" "collectorProcess s' = collectorProcess s"
    "allocProcessTable s' = allocProcessTable s" "pidCountIdx s' = pidCountIdx s"
    "exitProcessQueue s' = exitProcessQueue s" "tickCount s' = tickCount s"
    "pte s' = pte s" "tlbView s' = tlbView s" "ram s' = ram s"
    "interruptHandlers s' = interruptHandlers s" "dev s' = dev s"
    "proc.more s' = proc.more s" "nid (nodes s' p) = nid (nodes s p)"
  using assms by (cases s; cases s'; simp add: sched_frame_def keeps_ids_def)+

lemma sched_frame_dispatched [simp]:
  "sched_frame s (dispatched nx h l s) \<longleftrightarrow> keeps_ids (nodes s) h"
  by (simp add: sched_frame_def dispatched_def proc_update_defs)

lemma sched_frame_set_state [simp]: "sched_frame s (set_state p st s)"
  by (simp add: sched_frame_def proc_update_defs keeps_ids_def)

lemma sched_frame_lists [simp]:
  "sched_frame s (s\<lparr>nodes := h, processList := l, sleepList := k\<rparr>) \<longleftrightarrow> keeps_ids (nodes s) h"
  by (simp add: sched_frame_def)

section \<open>Waking up\<close>

lemma wakeup_rel:
  assumes rel: "sched_rel s rs ss" and p: "live (allocProcessTable s) p"
    and blocked: "state_of s p = PROCESS_STATE_BLOCKED"
  obtains s' where "wakeupProcess p s = Some (True, s')"
    and "sched_rel s' (rs @ [p]) (remove1 p ss)" and "sched_frame s s'"
    and "same_outside (nodes s) (nodes s') (insert p (set rs \<union> set ss))"
    and "state_of s' = (state_of s)(p := PROCESS_STATE_READY)"
    and "runningProcess s' = runningProcess s" "cpu s' = cpu s" "ist s' = ist s"
    and "\<And>q. ctx (pcbs s' q) = ctx (pcbs s q) \<and> wakeupTick (pcbs s' q) = wakeupTick (pcbs s q)"
proof -
  note R = sched_relD [OF rel]
  have np: "p \<notin> set rs" using coreD(1) [OF R(2), of p] blocked by simp
  have keys: "\<forall>y \<in> set ss. nid (nodes s y) = nid (nodes s p) \<longrightarrow> y = p"
  proof (intro ballI impI)
    fix y assume "y \<in> set ss" "nid (nodes s y) = nid (nodes s p)"
    moreover from this have "live (allocProcessTable s) y" using coreD(3) [OF R(2), of y] by blast
    ultimately show "y = p" by (intro core_ids_inj [OF R(2) _ p]) simp_all
  qed
  from wakeup_srep [OF R(1) np live_not_NULL [OF p] blocked keys]
  obtain h l l' where *: "wakeupProcess p s = Some (True, (set_state p PROCESS_STATE_READY s)
       \<lparr>nodes := h, processList := l', sleepList := l\<rparr>)" (is "_ = Some (True, ?s)")
    "srep (s\<lparr>nodes := h, processList := l', sleepList := l\<rparr>) (rs @ [p]) (remove1 p ss)"
    "keeps_ids (nodes s) h" "same_outside (nodes s) h (insert p (set rs \<union> set ss))" by blast
  have ids: "(\<lambda>p. nid (h p)) = (\<lambda>p. nid (nodes s p))" using *(3) by (simp add: keeps_ids_def)
  have st: "state_of ?s = (state_of s)(p := PROCESS_STATE_READY)"
    by (auto simp: state_of_def proc_update_defs)
  have "exitq_ok (state_of ?s) (allocProcessTable s) (exitProcessQueue s)"
    unfolding st using exitq_not_EXIT [OF R(4) _ p, of PROCESS_STATE_READY] blocked by simp
  moreover have "srep ?s (rs @ [p]) (remove1 p ss)" using *(2) by (simp add: srep_def)
  ultimately have "sched_rel ?s (rs @ [p]) (remove1 p ss)"
    using core_wake [OF R(2) p blocked R(6)] R(3) by (simp add: sched_rel_def core_of_def st ids)
  moreover have "sched_frame s ?s" using *(3) by (simp add: sched_frame_def proc_update_defs)
  ultimately show thesis using * st by (intro that [of ?s]) (simp_all add: proc_update_defs)
qed

section \<open>The time slice\<close>

lemma timeoutSchedule_nil: "srep s [] ss \<Longrightarrow> timeoutSchedule s = Some s"
  by (simp add: timeoutSchedule_def srep_def rep_def)

lemma timeoutSchedule_rel:
  assumes rel: "sched_rel s (x # rs) ss"
  obtains s' where "timeoutSchedule s = Some s'"
    and "sched_rel s' (if runningProcess s = idleProcess s then rs else rs @ [runningProcess s]) ss"
    and "sched_frame s s'"
    and "same_outside (nodes s) (nodes s') (insert (runningProcess s) (set (x # rs)))"
    and "runningProcess s' = x" "cpu s' = cpu s"
    and "ctx (pcbs s' (runningProcess s)) = ist s" "ist s' = ctx (pcbs s x)"
    and "tssRsp0 s' = stackAddress (pcbs s x) + stackSize (pcbs s x)"
    and "\<And>q. wakeupTick (pcbs s' q) = wakeupTick (pcbs s q)"
    and "\<And>q. q \<noteq> runningProcess s \<Longrightarrow> ctx (pcbs s' q) = ctx (pcbs s q)"
    and "\<And>q. q \<noteq> x \<Longrightarrow> q \<noteq> runningProcess s \<Longrightarrow> state_of s' q = state_of s q"
proof -
  note R = sched_relD [OF rel]
  let ?run = "runningProcess s"
  have fresh: "?run \<notin> set rs" "?run \<notin> set ss" "?run \<noteq> NULL" "x \<noteq> ?run"
    using core_running_fresh [OF R(2)] by auto
  have cnt: "l_count (processList s) \<noteq> 0" using R(1) by (simp add: srep_def rep_def)
  obtain h l where *: "pop_ready s = Some (x, s\<lparr>nodes := h, processList := l\<rparr>)"
    "srep (s\<lparr>nodes := h, processList := l\<rparr>) rs ss" "keeps_ids (nodes s) h"
    "same_outside (nodes s) h (set (x # rs))" by (metis pop_ready_cons [OF R(1)])
  let ?w = "upd_pcb ?run (ctx_update (\<lambda>_. ist s)) (s\<lparr>nodes := h, processList := l\<rparr>)"
  let ?r = "set_state ?run PROCESS_STATE_READY ?w"
  have r: "nodes ?r = h" by (simp add: upd_pcb_def)
  have "srep ?r rs ss" using *(2) by (simp add: srep_def upd_pcb_def)
  from insert_ready_srep [OF this fresh(1-3), unfolded r]
  obtain h2 l2 where ins: "insert_ready ?run ?r = ?r\<lparr>nodes := h2, processList := l2\<rparr>"
    "srep (?r\<lparr>nodes := h2, processList := l2\<rparr>) (rs @ [?run]) ss"
    "keeps_ids h h2" "same_outside h h2 (insert ?run (set rs))" by blast
  let ?t = "if ?run = idleProcess s then ?w else ?r\<lparr>nodes := h2, processList := l2\<rparr>"
  let ?n = "run_next x ?t"
  let ?s = "?n\<lparr>ist := ctx (pcbs ?n x)\<rparr>"
  let ?rs = "if ?run = idleProcess s then rs else rs @ [?run]"
  have eq: "timeoutSchedule s = Some ?s"
    using cnt *(1) ins(1) by (simp add: timeoutSchedule_def Let_def upd_pcb_def)
  have st: "state_of ?s = (if ?run = idleProcess s then state_of s
      else (state_of s)(?run := PROCESS_STATE_READY))(x := PROCESS_STATE_RUNNING)"
    by (auto simp: state_of_def proc_update_defs)
  have ids: "keeps_ids (nodes s) (nodes ?s)"
    using *(3) ins(3) by (auto simp: keeps_ids_def proc_update_defs)
  then have ids': "(\<lambda>p. nid (nodes ?s p)) = (\<lambda>p. nid (nodes s p))" by (simp add: keeps_ids_def)
  have fr: "sched_frame s ?s" using ids by (simp add: sched_frame_def proc_update_defs)
  have run: "runningProcess ?s = x" by (simp add: proc_update_defs)
  have "srep ?s ?rs ss" using *(2) ins(2) by (auto simp: srep_def proc_update_defs)
  moreover have "core (\<lambda>p. nid (nodes ?s p)) (state_of ?s) x (idleProcess s)
      (collectorProcess s) (allocProcessTable s) ?rs ss"
    unfolding ids' st
    by (cases "?run = idleProcess s")
      (use core_rotate [OF R(2) _ R(5)] core_preempt_idle [OF _ R(5)] R(2) in simp_all)
  moreover have "exitq_ok (state_of ?s) (allocProcessTable s) (exitProcessQueue s)"
    unfolding st using R(4) by (rule exitq_ok_cong) (use coreD(5) [OF R(2)] core_next(5) [OF R(2,5)] in auto)
  ultimately have "sched_rel ?s ?rs ss"
    using R(3) unfolding sched_rel_def core_of_def run sched_frame_sel(1-5) [OF fr] by blast
  moreover have "same_outside (nodes s) (nodes ?s) (insert ?run (set (x # rs)))"
    using *(4) ins(4) by (auto simp: same_outside_def proc_update_defs)
  moreover have "ctx (pcbs ?s ?run) = ist s" "ist ?s = ctx (pcbs s x)"
    "tssRsp0 ?s = stackAddress (pcbs s x) + stackSize (pcbs s x)"
    "cpu ?s = cpu s"
    "wakeupTick (pcbs ?s q) = wakeupTick (pcbs s q)"
    "q \<noteq> ?run \<Longrightarrow> ctx (pcbs ?s q) = ctx (pcbs s q)" for q
    using fresh(4) by (simp_all add: proc_update_defs)
  moreover have "state_of ?s q = state_of s q" if "q \<noteq> x" "q \<noteq> ?run" for q
    unfolding st using that by simp
  ultimately show thesis using fr eq run by (intro that [of ?s])
qed

section \<open>Yielding\<close>

lemma setIf_sel [simp]:
  "nodes (snd (setIf b s)) = nodes s" "processList (snd (setIf b s)) = processList s"
  "sleepList (snd (setIf b s)) = sleepList s" "runningProcess (snd (setIf b s)) = runningProcess s"
  "idleProcess (snd (setIf b s)) = idleProcess s" "collectorProcess (snd (setIf b s)) = collectorProcess s"
  "allocProcessTable (snd (setIf b s)) = allocProcessTable s" "pidCountIdx (snd (setIf b s)) = pidCountIdx s"
  "exitProcessQueue (snd (setIf b s)) = exitProcessQueue s" "tickCount (snd (setIf b s)) = tickCount s"
  "pcbs (snd (setIf b s)) = pcbs s" "state_of (snd (setIf b s)) = state_of s"
  "fst (setIf b s) = interrupts_on s"
  by (auto simp: proc_update_defs state_of_def)

lemma setIf_rel [simp]: "sched_rel (snd (setIf b s)) rs ss \<longleftrightarrow> sched_rel s rs ss"
  by (simp add: sched_rel_def core_of_def srep_def)

lemma sched_frame_setIf [simp]: "sched_frame s (snd (setIf b s))"
  by (simp add: sched_frame_def proc_update_defs keeps_ids_def)

lemma schedule_alt: "schedule s = do {
     (nextProcess, s2) \<leftarrow> pop_ready (snd (setIf False s));
     if nextProcess \<noteq> NULL then do {
       let curProcess = runningProcess s2;
       let s3 = insert_ready curProcess (set_state curProcess PROCESS_STATE_READY s2);
       Some (True, interrupts_on s, switchContext curProcess nextProcess (run_next nextProcess s3)) }
     else Some (False, interrupts_on s, snd (setIf (interrupts_on s) s2)) }"
  by (simp add: schedule_def setIf_def)

lemma schedule_nil:
  assumes "srep s [] ss"
  shows "schedule s = Some (False, interrupts_on s, snd (setIf (interrupts_on s) (snd (setIf False s))))"
proof -
  have "srep (snd (setIf False s)) [] ss" using assms by (simp add: srep_def)
  from pop_ready_nil [OF this] show ?thesis
    by (simp add: schedule_alt)
qed

lemma schedule_rel:
  assumes rel: "sched_rel s (x # rs) ss" and run: "runningProcess s \<noteq> idleProcess s"
  obtains s' where "schedule s = Some (True, interrupts_on s, s')"
    and "sched_rel s' (rs @ [runningProcess s]) ss" and "sched_frame s s'"
    and "runningProcess s' = x" "cpu s' = ctx (pcbs s x)"
    and "ctx (pcbs s' (runningProcess s)) = cpu (disableInterrupt s)"
    and "tssRsp0 s' = stackAddress (pcbs s x) + stackSize (pcbs s x)"
    and "\<And>q. wakeupTick (pcbs s' q) = wakeupTick (pcbs s q)"
    and "\<And>q. q \<noteq> runningProcess s \<Longrightarrow> ctx (pcbs s' q) = ctx (pcbs s q)"
    and "\<And>q. q \<noteq> x \<Longrightarrow> q \<noteq> runningProcess s \<Longrightarrow> state_of s' q = state_of s q"
    and "same_outside (nodes s) (nodes s') (insert (runningProcess s) (set (x # rs)))"
proof -
  let ?c = "snd (setIf False s)"
  let ?run = "runningProcess s"
  note R = sched_relD [OF rel]
  have fresh: "?run \<notin> set rs" "?run \<notin> set ss" "?run \<noteq> NULL" "x \<noteq> ?run"
    using core_running_fresh [OF R(2)] by auto
  have "srep ?c (x # rs) ss" using R(1) by (simp add: srep_def)
  from pop_ready_cons [OF this, simplified]
  obtain h l where *: "pop_ready ?c = Some (x, ?c\<lparr>nodes := h, processList := l\<rparr>)"
    "srep (?c\<lparr>nodes := h, processList := l\<rparr>) rs ss" "keeps_ids (nodes s) h"
    "same_outside (nodes s) h (insert x (set rs))" by blast
  let ?r = "set_state ?run PROCESS_STATE_READY (?c\<lparr>nodes := h, processList := l\<rparr>)"
  have r: "nodes ?r = h" by simp
  have "srep ?r rs ss" using *(2) by (simp add: srep_def)
  from insert_ready_srep [OF this fresh(1-3), unfolded r]
  obtain h2 l2 where ins: "insert_ready ?run ?r = ?r\<lparr>nodes := h2, processList := l2\<rparr>"
    "srep (?r\<lparr>nodes := h2, processList := l2\<rparr>) (rs @ [?run]) ss" "keeps_ids h h2"
    "same_outside h h2 (insert ?run (set rs))" by blast
  let ?s = "switchContext ?run x (run_next x (?r\<lparr>nodes := h2, processList := l2\<rparr>))"
  have x0: "x \<noteq> NULL" using R(1) by (auto simp: srep_def dest: rep_not_NULL)
  have eq: "schedule s = Some (True, interrupts_on s, ?s)"
    using *(1) ins(1) x0 by (simp add: schedule_alt Let_def)
  have st: "state_of ?s = (state_of s)(?run := PROCESS_STATE_READY, x := PROCESS_STATE_RUNNING)"
    by (auto simp: state_of_def proc_update_defs)
  have ids: "keeps_ids (nodes s) (nodes ?s)"
    using *(3) ins(3) by (auto simp: keeps_ids_def proc_update_defs)
  then have ids': "(\<lambda>p. nid (nodes ?s p)) = (\<lambda>p. nid (nodes s p))" by (simp add: keeps_ids_def)
  have fr: "sched_frame s ?s" using ids by (simp add: sched_frame_def proc_update_defs)
  have run': "runningProcess ?s = x" by (simp add: proc_update_defs)
  have "srep ?s (rs @ [?run]) ss" using ins(2) by (auto simp: srep_def proc_update_defs)
  moreover have "core (\<lambda>p. nid (nodes ?s p)) (state_of ?s) x (idleProcess s)
      (collectorProcess s) (allocProcessTable s) (rs @ [?run]) ss"
    unfolding ids' st using core_rotate [OF R(2) run R(5)] .
  moreover have "exitq_ok (state_of ?s) (allocProcessTable s) (exitProcessQueue s)"
    unfolding st using R(4) by (rule exitq_ok_cong) (use coreD(5) [OF R(2)] core_next(5) [OF R(2,5)] in auto)
  ultimately have "sched_rel ?s (rs @ [?run]) ss"
    using R(3) unfolding sched_rel_def core_of_def run' sched_frame_sel(1-5) [OF fr] by blast
  moreover have "ctx (pcbs ?s ?run) = cpu (disableInterrupt s)" "cpu ?s = ctx (pcbs s x)"
    "tssRsp0 ?s = stackAddress (pcbs s x) + stackSize (pcbs s x)"
    "wakeupTick (pcbs ?s q) = wakeupTick (pcbs s q)"
    "q \<noteq> ?run \<Longrightarrow> ctx (pcbs ?s q) = ctx (pcbs s q)" for q
    using fresh(3,4) by (simp_all add: proc_update_defs)
  moreover have "state_of ?s q = state_of s q" if "q \<noteq> x" "q \<noteq> ?run" for q
    unfolding st using that by simp
  moreover have "same_outside (nodes s) (nodes ?s) (insert ?run (set (x # rs)))"
    using *(4) ins(4) by (auto simp: same_outside_def proc_update_defs)
  ultimately show thesis using fr eq run' by (intro that [of ?s])
qed

section \<open>Sweeping the sleep list\<close>

definition expired :: "('d, 'z) proc_scheme \<Rightarrow> ptr \<Rightarrow> bool" where
  "expired s p \<longleftrightarrow> wakeupTick (pcbs s p) \<le> tickCount s"

definition first_of :: "ptr list \<Rightarrow> ptr" where
  "first_of xs = (case xs of [] \<Rightarrow> NULL | x # _ \<Rightarrow> x)"

lemma rep_nxt: "rep h l (ks @ x # xs) \<Longrightarrow> nxt (h x) = first_of xs"
  by (cases xs) (auto simp: rep_def lseg_append first_of_def)

lemma sleeper:
  assumes "sched_rel s rs ss" and "p \<in> set ss"
  shows "live (allocProcessTable s) p" "state_of s p = PROCESS_STATE_BLOCKED" "p \<noteq> collectorProcess s"
    "p \<noteq> NULL"
  using coreD(3) [OF sched_relD(2) [OF assms(1)] assms(2)] live_not_NULL by blast+

lemma remove1_middle: "x \<notin> set ks \<Longrightarrow> remove1 x (ks @ x # xs) = ks @ xs"
  by (simp add: remove1_append)

lemma wake_loop_rel:
  assumes "sched_rel s rs (ks @ todo)"
  shows "\<exists>s'. wake_loop (first_of todo) s = Some s' \<and>
     sched_rel s' (rs @ filter (expired s) todo) (ks @ filter (\<lambda>p. \<not> expired s p) todo) \<and>
     sched_frame s s' \<and> runningProcess s' = runningProcess s \<and> cpu s' = cpu s \<and> ist s' = ist s \<and>
     same_outside (nodes s) (nodes s') (set rs \<union> set (ks @ todo)) \<and>
     (\<forall>q. q \<notin> set todo \<longrightarrow> state_of s' q = state_of s q) \<and>
     (\<forall>q. ctx (pcbs s' q) = ctx (pcbs s q) \<and> wakeupTick (pcbs s' q) = wakeupTick (pcbs s q))"
  using assms
proof (induction todo arbitrary: s rs ks)
  case Nil
  then show ?case by (subst wake_loop.simps) (simp add: first_of_def same_outside_def)
next
  case (Cons x todo)
  note sl = sleeper [OF Cons.prems, of x]
  have nx: "nxt (nodes s x) = first_of todo"
    using sched_relD(1) [OF Cons.prems] by (auto simp: srep_def dest: rep_nxt)
  have dist: "x \<notin> set ks" using sched_relD(6) [OF Cons.prems] by simp
  show ?case
  proof (cases "expired s x")
    case True
    obtain s1 where s1: "wakeupProcess x s = Some (True, s1)"
      "sched_rel s1 (rs @ [x]) (remove1 x (ks @ x # todo))" "sched_frame s s1"
      "same_outside (nodes s) (nodes s1) (insert x (set rs \<union> set (ks @ x # todo)))"
      "runningProcess s1 = runningProcess s" "cpu s1 = cpu s" "ist s1 = ist s"
      "\<And>q. ctx (pcbs s1 q) = ctx (pcbs s q) \<and> wakeupTick (pcbs s1 q) = wakeupTick (pcbs s q)"
      "state_of s1 = (state_of s)(x := PROCESS_STATE_READY)"
      using wakeup_rel [OF Cons.prems, of x] sl by auto
    have ex: "expired s1 = expired s"
      using s1(8) sched_frame_sel(6) [OF s1(3)] by (auto simp: expired_def)
    from s1(2) dist have "sched_rel s1 (rs @ [x]) (ks @ todo)" by (simp add: remove1_middle)
    from Cons.IH [OF this] obtain s' where *: "wake_loop (first_of todo) s1 = Some s'"
      "sched_rel s' ((rs @ [x]) @ filter (expired s) todo) (ks @ filter (\<lambda>p. \<not> expired s p) todo)"
      "sched_frame s1 s'" "runningProcess s' = runningProcess s1" "cpu s' = cpu s1" "ist s' = ist s1"
      "same_outside (nodes s1) (nodes s') (set (rs @ [x]) \<union> set (ks @ todo))"
      "\<forall>q. q \<notin> set todo \<longrightarrow> state_of s' q = state_of s1 q"
      "\<forall>q. ctx (pcbs s' q) = ctx (pcbs s1 q) \<and> wakeupTick (pcbs s' q) = wakeupTick (pcbs s1 q)"
      unfolding ex by blast
    have "wake_loop (first_of (x # todo)) s = Some s'"
      using True s1(1) sl nx *(1) by (subst wake_loop.simps) (simp add: first_of_def expired_def)
    moreover have "same_outside (nodes s) (nodes s') (set rs \<union> set (ks @ x # todo))"
      using s1(4) *(7) by (auto simp: same_outside_def)
    ultimately show ?thesis
      using * s1 True sched_frame_trans [OF s1(3) *(3)] by (intro exI [of _ s']) simp
  next
    case False
    have "sched_rel s rs ((ks @ [x]) @ todo)" using Cons.prems by simp
    from Cons.IH [OF this] obtain s' where *: "wake_loop (first_of todo) s = Some s'"
      "sched_rel s' (rs @ filter (expired s) todo) ((ks @ [x]) @ filter (\<lambda>p. \<not> expired s p) todo)"
      "sched_frame s s'" "runningProcess s' = runningProcess s" "cpu s' = cpu s" "ist s' = ist s"
      "same_outside (nodes s) (nodes s') (set rs \<union> set ((ks @ [x]) @ todo))"
      "\<forall>q. q \<notin> set todo \<longrightarrow> state_of s' q = state_of s q"
      "\<forall>q. ctx (pcbs s' q) = ctx (pcbs s q) \<and> wakeupTick (pcbs s' q) = wakeupTick (pcbs s q)"
      by blast
    have "wake_loop (first_of (x # todo)) s = Some s'"
      using False sl nx *(1) by (subst wake_loop.simps) (simp add: first_of_def expired_def)
    then show ?thesis using * False by (intro exI [of _ s']) simp
  qed
qed

lemma wakeExpired_rel:
  assumes "sched_rel s rs ss"
  obtains s' where "wakeExpiredProcess s = Some s'"
    and "sched_rel s' (rs @ filter (expired s) ss) (filter (\<lambda>p. \<not> expired s p) ss)"
    and "sched_frame s s'" "runningProcess s' = runningProcess s" "cpu s' = cpu s" "ist s' = ist s"
    and "same_outside (nodes s) (nodes s') (set rs \<union> set ss)"
    and "\<And>q. q \<notin> set ss \<Longrightarrow> state_of s' q = state_of s q"
    and "\<And>q. ctx (pcbs s' q) = ctx (pcbs s q) \<and> wakeupTick (pcbs s' q) = wakeupTick (pcbs s q)"
proof -
  have hd: "l_head (sleepList s) = first_of ss"
    using sched_relD(1) [OF assms] by (auto simp: srep_def first_of_def dest: rep_head)
  show thesis
    using wake_loop_rel [of s rs "[]" ss] assms
    by (auto simp: wakeExpiredProcess_def hd intro: that)
qed

section \<open>The abstract scheduler\<close>

record asched =
  a_run :: ptr
  a_ready :: "ptr list"
  a_sleep :: "(ptr \<times> QWORD) list"

definition asched_of :: "('d, 'z) proc_scheme \<Rightarrow> asched" where
  "asched_of s = \<lparr>a_run = runningProcess s, a_ready = elems (nodes s) (processList s),
     a_sleep = map (\<lambda>p. (p, wakeupTick (pcbs s p))) (elems (nodes s) (sleepList s))\<rparr>"

definition sched_ok :: "('d, 'z) proc_scheme \<Rightarrow> bool" where
  "sched_ok s \<longleftrightarrow> sched_rel s (elems (nodes s) (processList s)) (elems (nodes s) (sleepList s))"

definition a_dispatch :: "ptr \<Rightarrow> asched \<Rightarrow> asched" where
  "a_dispatch idle A = (case a_ready A of [] \<Rightarrow> A\<lparr>a_run := idle\<rparr> | x # xs \<Rightarrow> A\<lparr>a_run := x, a_ready := xs\<rparr>)"

definition a_sleep_until :: "QWORD \<Rightarrow> ptr \<Rightarrow> asched \<Rightarrow> asched" where
  "a_sleep_until t idle A = a_dispatch idle (A\<lparr>a_sleep := a_sleep A @ [(a_run A, t)]\<rparr>)"

definition a_wake :: "ptr \<Rightarrow> asched \<Rightarrow> asched" where
  "a_wake p A = A\<lparr>a_ready := a_ready A @ [p], a_sleep := filter (\<lambda>e. fst e \<noteq> p) (a_sleep A)\<rparr>"

definition a_expire :: "QWORD \<Rightarrow> asched \<Rightarrow> asched" where
  "a_expire now A = A\<lparr>a_ready := a_ready A @ map fst (filter (\<lambda>e. snd e \<le> now) (a_sleep A)),
     a_sleep := filter (\<lambda>e. \<not> snd e \<le> now) (a_sleep A)\<rparr>"

definition a_slice :: "ptr \<Rightarrow> asched \<Rightarrow> asched" where
  "a_slice idle A = (case a_ready A of [] \<Rightarrow> A
     | x # xs \<Rightarrow> A\<lparr>a_run := x, a_ready := xs @ (if a_run A = idle then [] else [a_run A])\<rparr>)"

lemma asched_of_rel:
  "sched_rel s rs ss \<Longrightarrow> asched_of s = \<lparr>a_run = runningProcess s, a_ready = rs,
     a_sleep = map (\<lambda>p. (p, wakeupTick (pcbs s p))) ss\<rparr>"
  by (simp add: asched_of_def sched_rel_lists)

lemma sched_okI: "sched_rel s rs ss \<Longrightarrow> sched_ok s"
  by (simp add: sched_ok_def sched_rel_lists)

lemma sched_okE:
  assumes "sched_ok s"
  obtains rs ss where "sched_rel s rs ss" "elems (nodes s) (processList s) = rs"
    "elems (nodes s) (sleepList s) = ss"
  using assms by (auto simp: sched_ok_def)

lemma map_fst_ticks: "map fst (filter (\<lambda>e. P (snd e)) (map (\<lambda>p. (p, f p)) ss)) = filter (\<lambda>p. P (f p)) ss"
  by (induction ss) auto

lemma remove1_ticks:
  "distinct ss \<Longrightarrow> map (\<lambda>q. (q, f q)) (remove1 p ss) = filter (\<lambda>e. fst e \<noteq> p) (map (\<lambda>q. (q, f q)) ss)"
  by (simp add: distinct_remove1_removeAll removeAll_filter_not_eq filter_map o_def eq_commute)

subsection \<open>Refinement of each operation\<close>

lemma block_refines:
  assumes "sched_ok s" and "runningProcess s \<noteq> idleProcess s"
  obtains s' where "blockRunningProcess s = Some s'" "sched_ok s'"
    "asched_of s' = a_dispatch (idleProcess s) (asched_of s)" "sched_frame s s'"
    "state_of s' (runningProcess s) = PROCESS_STATE_BLOCKED"
    "same_outside (nodes s) (nodes s') (set (a_ready (asched_of s)))"
proof -
  obtain rs ss where rel: "sched_rel s rs ss" using assms(1) by (auto elim: sched_okE)
  let ?d = "\<lambda>h l. dispatched (next_proc s rs) h l (set_state (runningProcess s) PROCESS_STATE_BLOCKED s)"
  obtain h l where *: "blockRunningProcess s = Some (?d h l)" "sched_rel (?d h l) (tl rs) ss" "keeps_ids (nodes s) h" "same_outside (nodes s) h (set rs)"
    using blockRunningProcess_rel [OF rel assms(2)] by metis
  let ?s = "?d h l"
  have "sched_frame s ?s"
    by (rule sched_frame_trans [OF sched_frame_set_state [of s "runningProcess s" PROCESS_STATE_BLOCKED]]) (use *(3) in simp)
  moreover have "asched_of ?s = a_dispatch (idleProcess s) (asched_of s)"
    unfolding asched_of_rel [OF *(2)] asched_of_rel [OF rel]
    by (cases rs) (simp_all add: a_dispatch_def next_proc_def)
  moreover have "runningProcess s \<noteq> next_proc s rs"
    using core_running_fresh [OF sched_relD(2) [OF rel]] assms(2) by (cases rs) (auto simp: next_proc_def)
  ultimately show thesis using * by (intro that [of ?s]) (auto simp: asched_of_rel [OF rel] intro: sched_okI)
qed

lemma sleep_refines:
  assumes "sched_ok s" and "runningProcess s \<noteq> idleProcess s" "runningProcess s \<noteq> collectorProcess s"
  obtains s' where "sleepUntilTick t s = Some s'" "sched_ok s'"
    "asched_of s' = a_sleep_until t (idleProcess s) (asched_of s)" "sched_frame s s'"
proof -
  let ?run = "runningProcess s"
  obtain rs ss where rel: "sched_rel s rs ss" using assms(1) by (auto elim: sched_okE)
  let ?d = "\<lambda>h l sl. dispatched (next_proc s rs) h l
        (set_state ?run PROCESS_STATE_BLOCKED (upd_pcb ?run (wakeupTick_update (\<lambda>_. t)) s
            \<lparr>nodes := fst (insertList (nodes s) (sleepList s) ?run), sleepList := sl\<rparr>))"
  obtain h l sl where *: "sleepUntilTick t s = Some (?d h l sl)"
    "sched_rel (?d h l sl) (tl rs) (ss @ [?run])" "keeps_ids (nodes s) h"
    using sleepUntilTick_rel [OF rel assms(2,3)] by metis
  let ?s = "?d h l sl"
  have "sched_frame s ?s"
    using *(3) by (simp add: sched_frame_def dispatched_def proc_update_defs)
  moreover have "asched_of ?s = a_sleep_until t (idleProcess s) (asched_of s)"
    using core_running_fresh(2) [OF sched_relD(2) [OF rel]]
    unfolding asched_of_rel [OF *(2)] asched_of_rel [OF rel]
    by (cases rs) (auto simp: a_sleep_until_def a_dispatch_def next_proc_def upd_pcb_def)
  ultimately show thesis using * by (intro that [of ?s]) (auto intro: sched_okI)
qed

lemma wakeup_refines:
  assumes "sched_ok s" and "live (allocProcessTable s) p" "state_of s p = PROCESS_STATE_BLOCKED"
  obtains s' where "wakeupProcess p s = Some (True, s')" "sched_ok s'"
    "asched_of s' = a_wake p (asched_of s)" "sched_frame s s'"
    "same_outside (nodes s) (nodes s') (insert p (set (a_ready (asched_of s)) \<union> fst ` set (a_sleep (asched_of s))))"
    "state_of s' = (state_of s)(p := PROCESS_STATE_READY)"
proof -
  obtain rs ss where rel: "sched_rel s rs ss" using assms(1) by (auto elim: sched_okE)
  obtain s' where *: "wakeupProcess p s = Some (True, s')"
    "sched_rel s' (rs @ [p]) (remove1 p ss)" "sched_frame s s'"
    "same_outside (nodes s) (nodes s') (insert p (set rs \<union> set ss))"
    "state_of s' = (state_of s)(p := PROCESS_STATE_READY)"
    "runningProcess s' = runningProcess s"
    "\<And>q. ctx (pcbs s' q) = ctx (pcbs s q) \<and> wakeupTick (pcbs s' q) = wakeupTick (pcbs s q)"
    using wakeup_rel [OF rel assms(2,3)] by blast
  have "asched_of s' = a_wake p (asched_of s)"
    using remove1_ticks [OF sched_relD(6) [OF rel]] *(6,7)
    by (simp add: asched_of_rel [OF *(2)] asched_of_rel [OF rel] a_wake_def)
  with * show thesis by (intro that [of s']) (auto simp: asched_of_rel [OF rel] image_image intro: sched_okI)
qed

lemma slice_refines:
  assumes "sched_ok s"
  obtains s' where "timeoutSchedule s = Some s'" "sched_ok s'"
    "asched_of s' = a_slice (idleProcess s) (asched_of s)" "sched_frame s s'"
proof -
  obtain rs ss where rel: "sched_rel s rs ss" using assms(1) by (auto elim: sched_okE)
  show thesis
  proof (cases rs)
    case Nil
    then show ?thesis using timeoutSchedule_nil sched_relD(1) [OF rel] assms
      by (intro that [of s]) (auto simp: asched_of_rel [OF rel] a_slice_def)
  next
    case (Cons x xs)
    show ?thesis
    proof (rule timeoutSchedule_rel [OF rel [unfolded Cons]], goal_cases)
      case (1 s')
      then show ?case
        by (intro that [of s'])
          (auto simp: asched_of_rel [OF 1(2)] asched_of_rel [OF rel] a_slice_def Cons intro: sched_okI)
    qed
  qed
qed

lemma expire_refines:
  assumes "sched_ok s"
  obtains s' where "wakeExpiredProcess s = Some s'" "sched_ok s'"
    "asched_of s' = a_expire (tickCount s) (asched_of s)" "sched_frame s s'"
proof -
  obtain rs ss where rel: "sched_rel s rs ss" using assms(1) by (auto elim: sched_okE)
  show thesis
  proof (rule wakeExpired_rel [OF rel], goal_cases)
    case (1 s')
    have "asched_of s' = a_expire (tickCount s) (asched_of s)"
      using 1(4,9) by (simp add: asched_of_rel [OF 1(2)] asched_of_rel [OF rel] a_expire_def
        expired_def [abs_def] map_fst_ticks filter_map o_def)
    with 1(1-3) show ?case by (intro that [of s']) (auto intro: sched_okI)
  qed
qed

subsection \<open>The timer interrupt\<close>

lemma sched_rel_dev [simp]:
  "sched_rel (s\<lparr>dev := d\<rparr>) rs ss = sched_rel s rs ss"
  "sched_rel (s\<lparr>tickCount := n\<rparr>) rs ss = sched_rel s rs ss"
  "sched_rel (s\<lparr>ist := r\<rparr>) rs ss = sched_rel s rs ss"
  "sched_rel (s\<lparr>cpu := r\<rparr>) rs ss = sched_rel s rs ss"
  "sched_rel (s\<lparr>pte := g\<rparr>) rs ss = sched_rel s rs ss"
  "sched_rel (s\<lparr>tlbView := g\<rparr>) rs ss = sched_rel s rs ss"
  "sched_rel (s\<lparr>ram := m\<rparr>) rs ss = sched_rel s rs ss"
  "sched_rel (s\<lparr>interruptHandlers := hs\<rparr>) rs ss = sched_rel s rs ss"
  by (simp_all add: sched_rel_def core_of_def srep_def state_of_def [abs_def])

lemma timer_refines:
  assumes "sched_ok s"
  obtains s' where "timerInterruptHandler io v s = Some s'" "sched_ok s'"
    "asched_of s' = a_slice (idleProcess s) (a_expire (tickCount s + 1) (asched_of s))"
    "tickCount s' = tickCount s + 1" "idleProcess s' = idleProcess s"
    "allocProcessTable s' = allocProcessTable s" "proc.more s' = proc.more s"
    "collectorProcess s' = collectorProcess s" "exitProcessQueue s' = exitProcessQueue s"
proof -
  obtain rs ss where rel: "sched_rel s rs ss" using assms by (auto elim: sched_okE)
  obtain d where d: "snd (sendEOI io (v - IRQ_START_OFFSET) (s\<lparr>tickCount := tickCount s + 1\<rparr>)) =
      s\<lparr>tickCount := tickCount s + 1, dev := d\<rparr>" (is "_ = ?s")
    using sendEOI_frame [of io "v - IRQ_START_OFFSET" "s\<lparr>tickCount := tickCount s + 1\<rparr>"] by auto
  have "sched_rel ?s rs ss" using rel by simp
  then have "sched_ok ?s" and A: "asched_of ?s = asched_of s"
    using asched_of_rel [OF rel] by (auto simp: asched_of_rel intro: sched_okI)
  then obtain s1 where s1: "wakeExpiredProcess ?s = Some s1" "sched_ok s1"
    "asched_of s1 = a_expire (tickCount ?s) (asched_of ?s)" "sched_frame ?s s1"
    using expire_refines by metis
  obtain s2 where s2: "timeoutSchedule s1 = Some s2" "sched_ok s2"
    "asched_of s2 = a_slice (idleProcess s1) (asched_of s1)" "sched_frame s1 s2"
    using slice_refines [OF s1(2)] by metis
  note fr = sched_frame_sel [OF sched_frame_trans [OF s1(4) s2(4)]] sched_frame_sel(1) [OF s1(4)]
  have "timerInterruptHandler io v s = Some s2"
    unfolding timerInterruptHandler_def Let_def d using s1(1) s2(1) by simp
  then show thesis using s1 s2 fr A by (intro that [of s2]) simp_all
qed

end
