(* ===== verification/Lifecycle.thy ===== *)
theory Lifecycle
  imports SchedulerOps
begin

text \<open>
  The life of a process: creation (\<^verbatim>\<open>createProcess\<close>, \<^verbatim>\<open>createUserProcess\<close>,
  \<^verbatim>\<open>runUserProgram\<close>), exit and reclamation by the collector, and
  \<^verbatim>\<open>initScheduler\<close>, which establishes the scheduler's invariant from the boot state.
\<close>

section \<open>The search for a free slot\<close>

lemma findSlot_hit:
  "tab ! ((unat idx + d) mod PROCESS_MAXCOUNT) \<noteq> 1 \<Longrightarrow>
   (\<forall>k < d. tab ! ((unat idx + k) mod PROCESS_MAXCOUNT) = 1) \<Longrightarrow> t + d \<le> PROCESS_MAXCOUNT \<Longrightarrow>
   findSlot tab t idx = Some (if d = 0 then idx else word_of_nat ((unat idx + d) mod PROCESS_MAXCOUNT))"
proof (induction d arbitrary: t idx)
  case 0
  then show ?case by (subst findSlot.simps) simp
next
  case (Suc d)
  define i where "i = (word_of_nat ((unat idx + 1) mod PROCESS_MAXCOUNT) :: WORD)"
  have u: "unat i = (unat idx + 1) mod PROCESS_MAXCOUNT"
    by (simp add: i_def PROCESS_MAXCOUNT_def unat_of_nat)
  have m: "(unat i + k) mod PROCESS_MAXCOUNT = (unat idx + Suc k) mod PROCESS_MAXCOUNT" for k
    unfolding u by (simp add: mod_simps)
  have p1: "tab ! ((unat i + d) mod PROCESS_MAXCOUNT) \<noteq> 1"
    and p2: "\<forall>k < d. tab ! ((unat i + k) mod PROCESS_MAXCOUNT) = 1"
    unfolding m using Suc.prems by auto
  have "findSlot tab (t + 1) i = Some (if d = 0 then i
      else word_of_nat ((unat i + d) mod PROCESS_MAXCOUNT))"
    by (rule Suc.IH [OF p1 p2]) (use Suc.prems in auto)
  moreover have "(if d = 0 then i else word_of_nat ((unat i + d) mod PROCESS_MAXCOUNT)) =
      word_of_nat ((unat idx + Suc d) mod PROCESS_MAXCOUNT)"
    unfolding m by (simp add: i_def)
  moreover have "tab ! (unat idx mod PROCESS_MAXCOUNT) = 1" using Suc.prems(2) by force
  ultimately show ?case using Suc.prems(3)
    by (subst findSlot.simps, fold i_def) simp
qed

lemma findSlot_full:
  "(\<forall>k < PROCESS_MAXCOUNT. tab ! k = 1) \<Longrightarrow> findSlot tab t idx = None"
proof (induction tab t idx rule: findSlot.induct)
  case (1 tab t idx)
  have "tab ! (unat idx mod PROCESS_MAXCOUNT) = 1"
    using 1(2) by (simp add: PROCESS_MAXCOUNT_def)
  with 1 show ?case by (subst findSlot.simps) auto
qed

text \<open>The slot found is the first free one in cyclic order from the search index.\<close>

lemma findSlot_free:
  assumes tab: "table_ok al ix" and free: "\<exists>k < PROCESS_MAXCOUNT. al ! k \<noteq> 1"
  obtains idx d where "findSlot al 0 ix = Some idx" "unat idx < PROCESS_MAXCOUNT" "al ! unat idx = 0"
    "unat idx = (unat ix + d) mod PROCESS_MAXCOUNT" "d < PROCESS_MAXCOUNT"
    "\<forall>k < d. al ! ((unat ix + k) mod PROCESS_MAXCOUNT) = 1"
proof -
  let ?M = PROCESS_MAXCOUNT
  let ?P = "\<lambda>d. al ! ((unat ix + d) mod ?M) \<noteq> 1"
  have M: "0 < ?M" "?M \<le> 2 ^ 16" by (simp_all add: PROCESS_MAXCOUNT_def)
  obtain k where k: "k < ?M" "al ! k \<noteq> 1" using free by blast
  have ix: "unat ix \<le> ?M" using tab by (simp add: table_ok_def)
  have "?P ((k + ?M - unat ix) mod ?M)"
  proof -
    have "(unat ix + (k + ?M - unat ix) mod ?M) mod ?M = (unat ix + (k + ?M - unat ix)) mod ?M"
      by (simp add: mod_simps)
    also have "\<dots> = k" using k ix by simp
    finally show ?thesis using k by simp
  qed
  then have ex: "\<exists>d. d < ?M \<and> ?P d" using M by (intro exI [of _ "(k + ?M - unat ix) mod ?M"]) simp
  define d where "d = (LEAST d. ?P d)"
  have d: "?P d" "d < ?M" "\<forall>k < d. \<not> ?P k"
    using LeastI_ex [of ?P] Least_le [of ?P] not_less_Least [of _ ?P] ex
    by (auto simp: d_def intro: le_less_trans)
  let ?r = "if d = 0 then ix else word_of_nat ((unat ix + d) mod ?M)"
  have "findSlot al 0 ix = Some ?r"
    by (rule findSlot_hit) (use d in auto)
  moreover have r: "unat ?r = (unat ix + d) mod ?M"
  proof (cases "d = 0")
    case True
    then have "unat ix \<noteq> ?M" using d(1) tab by (auto simp: table_ok_def)
    then show ?thesis using True ix by simp
  next
    case False
    then show ?thesis by (simp add: PROCESS_MAXCOUNT_def unat_of_nat)
  qed
  moreover from this have "unat ?r < ?M" using M by simp
  moreover from this d(1) tab have "al ! unat ?r = 0"
    unfolding r table_ok_def by (metis M(1) insert_iff mod_less_divisor nth_mem singletonD subsetD)
  ultimately show thesis using d by (intro that [of ?r d]) auto
qed

section \<open>Exit\<close>

lemma more_simps [simp]:
  "proc.more (set_state p st s) = proc.more s" "proc.more (dispatched nx h l s) = proc.more s"
  by (simp_all add: dispatched_def proc_update_defs)

lemma bytes_pid_bytes:
  assumes "0 \<le> i" "i < 2 ^ 31"
  shows "bytes_pid (pid_bytes i) = i"
proof -
  have m: "i mod 2 ^ 32 = i" using assms by simp
  have "le_decode (le_encode 4 (nat i)) = nat i"
    by (rule le_decode_encode) (use assms in \<open>simp add: nat_less_iff\<close>)
  then have "bytes_pid (pid_bytes i) = sint (word_of_int i :: DWORD)"
    using assms(1) unfolding bytes_pid_def pid_bytes_def m by simp
  also have "\<dots> = i"
    using assms by (simp add: sint_word_ariths signed_take_bit_int_eq_self_iff sint_sbintrunc' flip: signed_of_int)
  finally show ?thesis .
qed

lemma length_pid_bytes [simp]: "length (pid_bytes i) = 4"
  by (simp add: pid_bytes_def)

text \<open>A full exit queue refuses the pid.\<close>

lemma exit_enqueue:
  assumes "ring_at EXIT_QUEUE_COUNT 4 q" and "0 \<le> i" "i < int PROCESS_MAXCOUNT"
  obtains b q' where "enQueue q (pid_bytes i) = (b, q')" "ring_at EXIT_QUEUE_COUNT 4 q'"
    "b \<longleftrightarrow> length (exit_pids q) < 99" "exit_pids q' = exit_pids q @ (if b then [i] else [])"
proof (cases "length (exit_pids q) < 99")
  case True
  then have "length (contents q) < EXIT_QUEUE_COUNT - 1" by (simp add: exit_pids_def EXIT_QUEUE_COUNT_def)
  from ring.enq_room [OF assms(1) _ this, of "pid_bytes i"] obtain q' where
    "enQueue q (pid_bytes i) = (True, q')" "ring_at EXIT_QUEUE_COUNT 4 q'"
    "contents q' = contents q @ [pid_bytes i]" by auto
  with True bytes_pid_bytes [of i] assms(2,3) show thesis
    by (intro that [of True q']) (auto simp: exit_pids_def PROCESS_MAXCOUNT_def)
next
  case False
  then have "length (contents q) = EXIT_QUEUE_COUNT - 1"
    using ring.items_bound [OF assms(1)] by (simp add: exit_pids_def EXIT_QUEUE_COUNT_def)
  from ring.enq_full [OF assms(1) this] False assms(1) show thesis
    by (intro that [of False q]) auto
qed

lemma wakeup_exitq:
  "wakeupProcess p (s\<lparr>exitProcessQueue := q\<rparr>) =
   map_option (\<lambda>(b, s'). (b, s'\<lparr>exitProcessQueue := q\<rparr>)) (wakeupProcess p s)"
  by (cases "removeList (nodes s) (sleepList s) (nid (nodes s p))")
    (auto simp: wakeupProcess_def state_of_def set_state_def upd_pcb_def insert_ready_def
      split: prod.splits)

text \<open>Waking the collector, which does nothing when it is ready.\<close>

lemma collector_woken:
  assumes rel: "sched_rel s rs ss"
  defines "c \<equiv> collectorProcess s"
  defines "rs' \<equiv> rs @ (if state_of s c = PROCESS_STATE_BLOCKED then [c] else [])"
  obtains w s1 where "wakeupProcess c (snd (setIf False s)) = Some (w, s1)" "sched_rel s1 rs' ss"
    "sched_frame (snd (setIf False s)) s1" "runningProcess s1 = runningProcess s"
    "\<And>q. wakeupTick (pcbs s1 q) = wakeupTick (pcbs s q)"
    "same_outside (nodes s) (nodes s1) (insert c (set rs \<union> set ss))"
    "\<And>q. q \<noteq> c \<Longrightarrow> state_of s1 q = state_of s q"
proof -
  let ?i = "snd (setIf False s)"
  have reli: "sched_rel ?i rs ss" using rel by simp
  have "\<exists>w s1. wakeupProcess c ?i = Some (w, s1) \<and> sched_rel s1 rs' ss \<and> sched_frame ?i s1 \<and>
      runningProcess s1 = runningProcess s \<and> (\<forall>q. wakeupTick (pcbs s1 q) = wakeupTick (pcbs s q)) \<and>
      same_outside (nodes s) (nodes s1) (insert c (set rs \<union> set ss)) \<and>
      (\<forall>q. q \<noteq> c \<longrightarrow> state_of s1 q = state_of s q)"
  proof (cases "state_of s c = PROCESS_STATE_BLOCKED")
    case True
    then have "c \<notin> set ss" using sleeper(3) [OF rel, of c] by (auto simp: c_def)
    then have "remove1 c ss = ss" by (simp add: remove1_idem)
    have lc: "live (allocProcessTable ?i) c" "state_of ?i c = PROCESS_STATE_BLOCKED"
      using coreD(8) [OF sched_relD(2) [OF rel]] True by (simp_all add: c_def)
    obtain s1 where "wakeupProcess c ?i = Some (True, s1)" "sched_rel s1 (rs @ [c]) (remove1 c ss)"
      "sched_frame ?i s1" "runningProcess s1 = runningProcess ?i"
      "\<And>q. ctx (pcbs s1 q) = ctx (pcbs ?i q) \<and> wakeupTick (pcbs s1 q) = wakeupTick (pcbs ?i q)"
      "same_outside (nodes ?i) (nodes s1) (insert c (set rs \<union> set ss))"
      "state_of s1 = (state_of ?i)(c := PROCESS_STATE_READY)"
      using wakeup_rel [OF reli lc] by blast
    with \<open>remove1 c ss = ss\<close> True show ?thesis by (auto simp: rs'_def)
  next
    case False
    then show ?thesis using wakeup_ignored [of c ?i] reli
      by (intro exI [of _ False] exI [of _ ?i]) (simp add: rs'_def same_outside_def)
  qed
  then show thesis using that by blast
qed

text \<open>
  The exiting process leaves its pid in the exit queue unless the queue is full, makes the
  collector ready if it was blocked, and never runs again.
\<close>

lemma exitProcess_rel:
  assumes rel: "sched_rel s rs ss" and run: "runningProcess s = pcbAddr pid" and pid: "pid < PROCESS_MAXCOUNT"
    and ne: "pcbAddr pid \<noteq> idleProcess s" "pcbAddr pid \<noteq> collectorProcess s" "pid \<noteq> 0"
  defines "c \<equiv> collectorProcess s"
  defines "rs' \<equiv> rs @ (if state_of s c = PROCESS_STATE_BLOCKED then [c] else [])"
  obtains s' where "exitProcess s = Some s'" "sched_rel s' (tl rs') ss"
    "runningProcess s' = next_proc s rs'"
    "state_of s' (pcbAddr pid) = PROCESS_STATE_EXIT"
    "exit_pids (exitProcessQueue s') =
       exit_pids (exitProcessQueue s) @ (if length (exit_pids (exitProcessQueue s)) < 99 then [int pid] else [])"
    "allocProcessTable s' = allocProcessTable s" "idleProcess s' = idleProcess s"
    "collectorProcess s' = collectorProcess s" "proc.more s' = proc.more s"
    "\<And>q. wakeupTick (pcbs s' q) = wakeupTick (pcbs s q)"
    "same_outside (nodes s) (nodes s') (insert c (set rs \<union> set ss))"
    "\<And>q. q \<noteq> pcbAddr pid \<Longrightarrow> q \<noteq> c \<Longrightarrow> q \<noteq> next_proc s rs' \<Longrightarrow> state_of s' q = state_of s q"
proof -
  let ?cur = "pcbAddr pid" and ?al = "allocProcessTable s"
  note R = sched_relD [OF rel]
  have live: "live ?al ?cur" "?al ! pid = 1" using coreD(4) [OF R(2)] run pid by auto
  have id: "nid (nodes s ?cur) = int pid" using coreD(14) [OF R(2) pid live(2)] .
  have ring: "ring_at EXIT_QUEUE_COUNT 4 (exitProcessQueue s)" using R(4) by (simp add: exitq_ok_def)
  obtain b q where q: "enQueue (exitProcessQueue s) (pid_bytes (int pid)) = (b, q)"
    "ring_at EXIT_QUEUE_COUNT 4 q" "b \<longleftrightarrow> length (exit_pids (exitProcessQueue s)) < 99"
    "exit_pids q = exit_pids (exitProcessQueue s) @ (if b then [int pid] else [])"
    using exit_enqueue [OF ring, of "int pid"] pid by auto
  obtain w s1 where s1: "wakeupProcess c (snd (setIf False s)) = Some (w, s1)" "sched_rel s1 rs' ss"
    "sched_frame (snd (setIf False s)) s1" "runningProcess s1 = ?cur" "\<And>q. wakeupTick (pcbs s1 q) = wakeupTick (pcbs s q)"
    "same_outside (nodes s) (nodes s1) (insert c (set rs \<union> set ss))"
    "\<And>q. q \<noteq> c \<Longrightarrow> state_of s1 q = state_of s q"
    using collector_woken [OF rel] unfolding c_def rs'_def run by metis
  note fr = sched_frame_sel [OF sched_frame_trans [OF sched_frame_setIf s1(3)]]
  note R1 = sched_relD [OF s1(2), unfolded fr s1(4)]
  let ?s3 = "set_state ?cur PROCESS_STATE_EXIT (s1\<lparr>exitProcessQueue := q\<rparr>)"
  have st2: "state_of (s1\<lparr>exitProcessQueue := q\<rparr>) = state_of s1" by (auto simp: state_of_def)
  have notin: "int pid \<notin> set (exit_pids (exitProcessQueue s))"
    using R1(4) coreD(5) [OF R1(2)] by (auto simp: exitq_ok_def)
  have exitq: "exitq_ok ((state_of s1)(?cur := PROCESS_STATE_EXIT)) ?al q"
    using R1(4) q(2,4) notin live pid by (auto simp: exitq_ok_def)
  have ee: "exitProcess s = scheduleBlocked ?s3"
    using s1(1) q(1) id run
    by (simp add: exitProcess_def Let_def wakeup_exitq setIf_def c_def) (simp add: disableInterrupt_def)
  have nx: "next_proc ?s3 rs' = next_proc s rs'" using fr by (cases rs') (simp_all add: next_proc_def)
  have "srep ?s3 rs' ss" using R1(1) by (simp add: srep_def)
  note lp = leave_processor [of ?s3 "state_of s1" rs' ss ss PROCESS_STATE_EXIT, unfolded nx, OF _ _ this]
  obtain h l where *: "scheduleBlocked ?s3 = Some (dispatched (next_proc s rs') h l ?s3)"
    "sched_rel (dispatched (next_proc s rs') h l ?s3) (tl rs') ss"
    "same_outside (nodes s1) h (set rs')"
    by (rule lp) (use R1(2,3) exitq ne fr s1(4) in \<open>simp_all add: leaves_def st2\<close>)
  have "next_proc s rs' \<noteq> ?cur"
    using core_running_fresh(1) [OF R1(2)] ne by (cases rs') (auto simp: next_proc_def)
  moreover have "same_outside (nodes s) h (insert c (set rs \<union> set ss))"
    using s1(6) *(3) by (auto simp: same_outside_def rs'_def split: if_splits)
  ultimately show thesis using * ee q(3,4) fr s1(5,7)
    by (intro that [OF _ *(2)]) (simp_all add: st2)
qed

section \<open>Reclamation\<close>

lemma core_reclaim:
  assumes core: "core ids st run idle coll al rs ss" and al: "length al = PROCESS_MAXCOUNT"
    and pid: "pid < PROCESS_MAXCOUNT" and st: "st (pcbAddr pid) = PROCESS_STATE_EXIT"
  shows "core ids st run idle coll (al[pid := 0]) rs ss"
proof -
  note D = coreD [OF core]
  have live: "live (al[pid := 0]) p \<longleftrightarrow> live al p \<and> p \<noteq> pcbAddr pid" for p
    using al pid by (auto simp: live_def nth_list_update)
  have ne: "run \<noteq> pcbAddr pid" "idle \<noteq> pcbAddr pid" "coll \<noteq> pcbAddr pid"
    using D(5,7,11) st by auto
  have ids: "k < PROCESS_MAXCOUNT \<Longrightarrow> al[pid := 0] ! k = 1 \<Longrightarrow> ids (pcbAddr k) = int k" for k
    using D(14) al pid by (auto simp: nth_list_update split: if_splits)
  show ?thesis
    by (rule coreI [OF _ _ _ _ _ _ _ _ _ _ _ _ _ ids])
      (use D(1-13) ne st in \<open>auto simp: live\<close>)
qed

lemma reclaim_sel [simp]:
  "nodes (reclaim pid s) = nodes s" "pcbs (reclaim pid s) = pcbs s"
  "processList (reclaim pid s) = processList s" "sleepList (reclaim pid s) = sleepList s"
  "runningProcess (reclaim pid s) = runningProcess s" "idleProcess (reclaim pid s) = idleProcess s"
  "collectorProcess (reclaim pid s) = collectorProcess s"
  "allocProcessTable (reclaim pid s) = (allocProcessTable s)[pid := 0]"
  "pidCountIdx (reclaim pid s) = pidCountIdx s"
  "exitProcessQueue (reclaim pid s) = exitProcessQueue s"
  "proc.more (reclaim pid s) = proc.more s"
  by (simp_all add: reclaim_def setPageUserAccess_def flushTLB_def Let_def)

lemma page_loop_other:
  assumes "\<And>k. addr + 0x1000 * k < last_addr \<Longrightarrow> i \<noteq> addr div 0x1000 + k"
  shows "page_loop addr last_addr allow pg i = pg i"
  using assms
proof (induction addr last_addr allow pg rule: page_loop.induct)
  case (1 addr last_addr allow pg)
  show ?case
  proof (cases "addr < last_addr")
    case True
    have "i \<noteq> addr div 0x1000" using 1(2) [of 0] True by simp
    moreover have "addr + 0x1000 + 0x1000 * k < last_addr \<Longrightarrow> i \<noteq> (addr + 0x1000) div 0x1000 + k" for k
      using 1(2) [of "Suc k"] by (simp add: algebra_simps)
    ultimately show ?thesis using 1(1) [OF True] True
      by (subst page_loop.simps) (cases allow; simp add: fun_upd_def)
  next
    case False
    then show ?thesis by (subst page_loop.simps) simp
  qed
qed

lemma page_loop_in:
  assumes "addr + 0x1000 * k < last_addr"
  shows "page_loop addr last_addr allow pg (addr div 0x1000 + k) =
     (if allow then pg (addr div 0x1000 + k) OR PAGE_FLAG_US else pg (addr div 0x1000 + k) AND NOT PAGE_FLAG_US)"
  using assms
proof (induction k arbitrary: addr pg)
  case 0
  have "page_loop (addr + 0x1000) last_addr allow pg' (addr div 0x1000) = pg' (addr div 0x1000)" for pg'
    by (rule page_loop_other) simp
  then show ?case using 0 by (subst page_loop.simps) simp
next
  case (Suc k)
  have "(addr + 0x1000) div 0x1000 = Suc (addr div 0x1000)" by simp
  with Suc.IH [of "addr + 0x1000"] Suc.prems show ?case
    by (subst page_loop.simps) (cases allow; simp add: algebra_simps)
qed

text \<open>The range \<open>[addr, addr + 0x1000 * n)\<close> of a page-aligned address: exactly its pages change.\<close>

lemma page_loop_range:
  assumes "addr mod 0x1000 = 0"
  shows "page_loop addr (addr + 0x1000 * n) allow pg =
     (\<lambda>i. if addr div 0x1000 \<le> i \<and> i < addr div 0x1000 + n
          then (if allow then pg i OR PAGE_FLAG_US else pg i AND NOT PAGE_FLAG_US) else pg i)"
proof
  fix i
  show "page_loop addr (addr + 0x1000 * n) allow pg i =
     (if addr div 0x1000 \<le> i \<and> i < addr div 0x1000 + n
          then (if allow then pg i OR PAGE_FLAG_US else pg i AND NOT PAGE_FLAG_US) else pg i)"
  proof (cases "addr div 0x1000 \<le> i \<and> i < addr div 0x1000 + n")
    case True
    then obtain k where k: "i = addr div 0x1000 + k" "k < n"
      by (metis add_less_cancel_left le_Suc_ex)
    then show ?thesis using page_loop_in [of addr k "addr + 0x1000 * n" allow pg] by simp
  next
    case False
    have "page_loop addr (addr + 0x1000 * n) allow pg i = pg i"
      by (rule page_loop_other) (use False in auto)
    then show ?thesis by (simp only: False if_False)
  qed
qed

lemma stack_pages: "userStack pid mod 0x1000 = 0" "USER_STACK_SIZE = 0x1000 * 2"
  by (auto simp: userStack_def USER_STACK_BASE_def memory_map_defs)

lemma stack_page_loop:
  "page_loop (userStack pid) (userStack pid + USER_STACK_SIZE) allow pg =
     (\<lambda>i. if userStack pid div 0x1000 \<le> i \<and> i < userStack pid div 0x1000 + 2
          then (if allow then pg i OR PAGE_FLAG_US else pg i AND NOT PAGE_FLAG_US) else pg i)"
  by (simp only: stack_pages(2) page_loop_range [OF stack_pages(1)])

lemma pte_setIf [simp]: "pte (snd (setIf b s)) = pte s"
  by (simp add: proc_update_defs)

lemma collectorTurn_rel:
  assumes rel: "sched_rel s rs ss" and ne: "exit_pids (exitProcessQueue s) = i # is"
  obtains s' pid where "collectorTurn preIf s = Some (True, s')" "sched_rel s' rs ss"
    "int pid = i" "allocProcessTable s ! pid = 1"
    "allocProcessTable s' = (allocProcessTable s)[pid := 0]"
    "exit_pids (exitProcessQueue s') = is" "runningProcess s' = runningProcess s"
    "idleProcess s' = idleProcess s" "collectorProcess s' = collectorProcess s"
    "proc.more s' = proc.more s" "pid < PROCESS_MAXCOUNT"
    "pcbs s' = pcbs s" "nodes s' = nodes s"
    "\<And>k. pte s' k = (let w = (if userStack pid div 0x1000 \<le> k \<and> k < userStack pid div 0x1000 + 2
         then pte s k AND NOT PAGE_FLAG_US else pte s k)
       in if k = KERNEL_SIZE + pid * 2 then w AND NOT PAGE_FLAG_P else w)"
proof -
  note R = sched_relD [OF rel]
  have ring: "ring_at EXIT_QUEUE_COUNT 4 (exitProcessQueue s)" using R(4) by (simp add: exitq_ok_def)
  have i: "0 \<le> i" "i < int PROCESS_MAXCOUNT" "allocProcessTable s ! nat i = 1"
    "state_of s (pcbAddr (nat i)) = PROCESS_STATE_EXIT" "i \<notin> set is" "distinct is"
    using R(4) by (auto simp: exitq_ok_def ne)
  let ?pid = "nat i"
  obtain bs xs where c: "contents (exitProcessQueue s) = bs # xs" "bytes_pid bs = i" "map bytes_pid xs = is"
    using ne by (auto simp: exit_pids_def)
  from ring.deq_cons [OF ring c(1)] obtain q where
    q: "deQueue (exitProcessQueue s) (replicate 4 0) = (True, bs, q)" "ring_at EXIT_QUEUE_COUNT 4 q"
      "contents q = xs" by blast
  have pids: "exit_pids q = is" using q(3) c(3) by (simp add: exit_pids_def)
  have "\<not> queueIsEmpty (exitProcessQueue s)"
    using queueIsEmpty_iff ring c(1) by (simp add: ring_at_def)
  let ?s = "reclaim ?pid (s\<lparr>exitProcessQueue := q\<rparr>)"
  have pid: "?pid < PROCESS_MAXCOUNT" using i by simp
  have len: "length (allocProcessTable s) = PROCESS_MAXCOUNT" using R(3) by (simp add: table_ok_def)
  have st: "state_of ?s = state_of s" by (auto simp: state_of_def)
  have "srep ?s rs ss" using R(1) by (simp add: srep_def)
  moreover have "core (\<lambda>p. nid (nodes ?s p)) (state_of ?s) (runningProcess ?s) (idleProcess ?s)
      (collectorProcess ?s) (allocProcessTable ?s) rs ss"
    using core_reclaim [OF R(2) len pid i(4)] by (simp add: st)
  moreover have "?pid \<noteq> 0" using coreD(13) [OF R(2)] i(4) by (intro notI) simp
  then have "table_ok (allocProcessTable ?s) (pidCountIdx ?s)"
    using R(3) set_update_subset_insert [of "allocProcessTable s" ?pid 0]
    by (auto simp: table_ok_def)
  moreover have "j \<in> set is \<Longrightarrow> (allocProcessTable s)[?pid := 0] ! nat j = allocProcessTable s ! nat j" for j
    using R(4) i(1,5) by (intro nth_list_update_neq) (auto simp: exitq_ok_def ne eq_nat_nat_iff)
  then have "exitq_ok (state_of ?s) (allocProcessTable ?s) (exitProcessQueue ?s)"
    unfolding st using R(4) i(6) q(2) by (auto simp: exitq_ok_def pids ne)
  ultimately have "sched_rel ?s rs ss" by (simp add: sched_rel_def core_of_def)
  then have "sched_rel (snd (setIf preIf ?s)) rs ss" by simp
  moreover have "collectorTurn preIf s = Some (True, snd (setIf preIf ?s))"
    using \<open>\<not> queueIsEmpty _\<close> q(1) i c(2) by (simp add: collectorTurn_def)
  moreover have "proc.more (snd (setIf preIf ?s)) = proc.more s"
    by (simp add: proc_update_defs)
  moreover have "pte (snd (setIf preIf ?s)) k = (let w = (if userStack ?pid div 0x1000 \<le> k \<and>
        k < userStack ?pid div 0x1000 + 2 then pte s k AND NOT PAGE_FLAG_US else pte s k)
      in if k = KERNEL_SIZE + ?pid * 2 then w AND NOT PAGE_FLAG_P else w)" for k
    by (simp add: reclaim_def setPageUserAccess_def flushTLB_def stack_page_loop Let_def)
  ultimately show thesis using i pid pids
    by (intro that [of "snd (setIf preIf ?s)" ?pid]) simp_all
qed

section \<open>Creation\<close>

lemma clear_restore_bit:
  "(if bit w k then (w AND NOT (2 ^ k)) OR 2 ^ k else w AND NOT (2 ^ k)) = (w :: 'a::len word)"
  by (rule bit_word_eqI) (auto simp: bit_simps)

lemma setIf_restore:
  assumes "length (cpu s) = 24"
  shows "snd (setIf (interrupts_on s) (snd (setIf False s))) = s"
proof -
  let ?f = "cpu s ! REG_RFLAGS"
  have if_bit: "RFLAGS_IF = 2 ^ 9" by (simp add: RFLAGS_IF_def)
  have on: "?f AND RFLAGS_IF = 0 \<longleftrightarrow> \<not> bit ?f 9"
    unfolding if_bit by (rule and_exp_eq_0_iff_not_bit)
  have "(if ?f AND RFLAGS_IF \<noteq> 0 then (?f AND NOT RFLAGS_IF) OR RFLAGS_IF else ?f AND NOT RFLAGS_IF) = ?f"
    unfolding on unfolding if_bit not_not by (rule clear_restore_bit)
  then show ?thesis
    using assms
    by (simp add: setIf_def interrupts_on_def enableInterrupt_def disableInterrupt_def REG_RFLAGS_def
        split: if_splits)
qed

text \<open>The effect of a creation, before anything is known of the running and idle processes.\<close>

definition created :: "nat \<Rightarrow> QWORD \<Rightarrow> QWORD \<Rightarrow> pcb \<Rightarrow> pcb" where
  "created pid entryPoint arg b =
     (let p = pcbAddr pid;
          b = setUpProcess p entryPoint (word_of_nat (PROCESS_STACK_BASE + PROCESS_STACK_INTERVAL * pid))
                (word_of_nat PROCESS_STACK_SIZE) b
      in b\<lparr>ctx := (ctx b)[REG_RDI := arg], pstate := PROCESS_STATE_READY\<rparr>)"

lemma createProcess_eq:
  assumes srep: "srep s rs ss" and slot: "findSlot (allocProcessTable s) 0 (pidCountIdx s) = Some idx"
    and idx: "unat idx < length (allocProcessTable s)"
    and new: "pcbAddr (unat idx) \<notin> set rs" "pcbAddr (unat idx) \<notin> set ss"
  obtains s' where "createProcess entryPoint arg s = Some (pcbAddr (unat idx), s')"
    "srep s' (rs @ [pcbAddr (unat idx)]) ss"
    "(\<lambda>p. nid (nodes s' p)) = (\<lambda>p. nid (nodes s p))(pcbAddr (unat idx) := int (unat idx))"
    "pcbs s' = (pcbs s)(pcbAddr (unat idx) := created (unat idx) entryPoint arg (pcbs s (pcbAddr (unat idx))))"
    "allocProcessTable s' = (allocProcessTable s)[unat idx := 1]" "pidCountIdx s' = idx + 1"
    "runningProcess s' = runningProcess s" "idleProcess s' = idleProcess s"
    "collectorProcess s' = collectorProcess s" "exitProcessQueue s' = exitProcessQueue s"
    "proc.more s' = proc.more s" "length (cpu s) = 24 \<longrightarrow> cpu s' = cpu s" "tickCount s' = tickCount s"
    "same_outside (nodes s) (nodes s') (insert (pcbAddr (unat idx)) (set rs))"
    "interruptHandlers s' = interruptHandlers s" "length (cpu s') = length (cpu s)" "ram s' = ram s"
    "pte s' = (pte s)(KERNEL_SIZE + unat idx * 2 := pte s (KERNEL_SIZE + unat idx * 2) OR PAGE_FLAG_P)"
proof -
  let ?pid = "unat idx" and ?p = "pcbAddr (unat idx)"
  let ?i = "disableInterrupt s"
  have i_sel: "nodes ?i = nodes s" "pidCountIdx ?i = pidCountIdx s"
    "allocProcessTable ?i = allocProcessTable s" by (simp_all add: disableInterrupt_def)
  let ?h = "(nodes s)(?p := (nodes s ?p)\<lparr>nid := int ?pid\<rparr>)"
  define s5 where "s5 = ?i\<lparr>pidCountIdx := idx, nodes := ?h,
      pcbs := (pcbs s)(?p := created ?pid entryPoint arg (pcbs s ?p))\<rparr>"
  have sel: "nodes s5 = ?h" "processList s5 = processList s" "sleepList s5 = sleepList s"
    by (simp_all add: s5_def proc_update_defs)
  have "rep ?h l xs = rep (nodes s) l xs" for l xs
    unfolding rep_def by (subst lseg_cong [of xs ?h "nodes s"]) auto
  then have "srep s5 rs ss" using srep by (simp add: srep_def sel)
  from insert_ready_srep [OF this new pcbAddr_not_NULL(1), unfolded sel]
  obtain h l where ins: "insert_ready ?p s5 = s5\<lparr>nodes := h, processList := l\<rparr>"
    "srep (s5\<lparr>nodes := h, processList := l\<rparr>) (rs @ [?p]) ss" "keeps_ids ?h h"
    "same_outside ?h h (insert ?p (set rs))" by blast
  let ?k = "KERNEL_SIZE + ?pid * 2"
  let ?t = "s5\<lparr>nodes := h, processList := l, pte := (pte s)(?k := pte s ?k OR PAGE_FLAG_P),
    allocProcessTable := (allocProcessTable s)[?pid := 1], pidCountIdx := idx + 1\<rparr>"
  have eq: "createProcess entryPoint arg s = Some (?p, snd (setIf (interrupts_on s) ?t))"
  proof -
    have prep: "set_state ?p PROCESS_STATE_READY
        (upd_pcb ?p (\<lambda>b. b\<lparr>ctx := (ctx b)[REG_RDI := arg]\<rparr>)
          (upd_pcb ?p (setUpProcess ?p entryPoint (word_of_nat (PROCESS_STACK_BASE + PROCESS_STACK_INTERVAL * ?pid))
              (word_of_nat PROCESS_STACK_SIZE))
            (?i\<lparr>pidCountIdx := idx, nodes := ?h\<rparr>))) = s5"
      by (simp add: s5_def set_state_def upd_pcb_def created_def Let_def disableInterrupt_def)
    have off: "setIf False s = (interrupts_on s, ?i)" by (simp add: setIf_def)
    have "pte s5 = pte s" "allocProcessTable s5 = allocProcessTable s"
      by (simp_all add: s5_def proc_update_defs)
    then show ?thesis using idx unfolding createProcess_def
      by (simp only: Let_def off prod.case i_sel slot Option.bind.bind_lunit prep ins(1)) simp
  qed
  have "srep (snd (setIf (interrupts_on s) ?t)) (rs @ [?p]) ss" using ins(2) by (simp add: srep_def)
  moreover have "(\<lambda>p. nid (nodes (snd (setIf (interrupts_on s) ?t)) p)) = (\<lambda>p. nid (nodes s p))(?p := int ?pid)"
    using ins(3) by (auto simp: keeps_ids_def)
  moreover have "cpu (snd (setIf (interrupts_on s) ?t)) = cpu (snd (setIf (interrupts_on s) (snd (setIf False s))))"
    by (simp add: s5_def setIf_def disableInterrupt_def enableInterrupt_def)
  then have "length (cpu s) = 24 \<longrightarrow> cpu (snd (setIf (interrupts_on s) ?t)) = cpu s"
    using setIf_restore [of s] by simp
  moreover have "same_outside (nodes s) h (insert ?p (set rs))"
    using ins(4) by (auto simp: same_outside_def)
  moreover have "length (cpu (snd (setIf (interrupts_on s) ?t))) = length (cpu s)"
    by (simp add: s5_def proc_update_defs)
  ultimately show thesis using eq
    by (intro that [of "snd (setIf (interrupts_on s) ?t)"])
      (simp_all add: s5_def proc_update_defs)
qed

lemma core_create:
  assumes core: "core ids st run idle coll al rs ss" and al: "length al = PROCESS_MAXCOUNT"
    and pid: "pid < PROCESS_MAXCOUNT" "al ! pid = 0"
  shows "core (ids(pcbAddr pid := int pid)) (st(pcbAddr pid := PROCESS_STATE_READY)) run idle coll
      (al[pid := 1]) (rs @ [pcbAddr pid]) ss"
proof -
  note D = coreD [OF core]
  let ?p = "pcbAddr pid"
  have live: "live (al[pid := 1]) p \<longleftrightarrow> live al p \<or> p = ?p" for p
    using al pid by (auto simp: live_def nth_list_update)
  have ne: "run \<noteq> ?p" "idle \<noteq> ?p" "coll \<noteq> ?p" "\<not> live al ?p"
    using D(4,6,8) pid by auto
  then have new: "?p \<notin> set ss" using D(3) [of ?p] by blast
  have ids: "k < PROCESS_MAXCOUNT \<Longrightarrow> al[pid := 1] ! k = 1 \<Longrightarrow> (ids(?p := int pid)) (pcbAddr k) = int k" for k
    using D(14) al pid by (auto simp: nth_list_update split: if_splits)
  have boot: "(st(?p := PROCESS_STATE_READY)) (pcbAddr 0) \<noteq> PROCESS_STATE_EXIT"
    using D(13) by auto
  show ?thesis
    by (rule coreI [where st = "st(?p := PROCESS_STATE_READY)" and ids = "ids(?p := int pid)",
          OF _ _ _ _ _ _ _ _ _ _ _ _ boot ids])
      (use D(1-12) ne new in \<open>auto simp: live\<close>)
qed

lemma table_ok_create:
  assumes "table_ok al ix" and "unat (idx :: WORD) < PROCESS_MAXCOUNT"
  shows "table_ok (al[unat idx := 1]) (idx + 1)"
proof -
  have "unat (idx + 1) = unat idx + 1"
    using assms(2) by (intro unat_add_lem [THEN iffD1, THEN trans])
      (simp_all add: PROCESS_MAXCOUNT_def)
  then show ?thesis
    using assms set_update_subset_insert [of al "unat idx" 1]
    by (auto simp: table_ok_def PROCESS_MAXCOUNT_def nth_list_update)
qed

lemma createProcess_rel:
  assumes rel: "sched_rel s rs ss" and free: "\<exists>k < PROCESS_MAXCOUNT. allocProcessTable s ! k \<noteq> 1"
  obtains pid s' where "createProcess entryPoint arg s = Some (pcbAddr pid, s')"
    "sched_rel s' (rs @ [pcbAddr pid]) ss" "pid < PROCESS_MAXCOUNT" "allocProcessTable s ! pid = 0"
    "allocProcessTable s' = (allocProcessTable s)[pid := 1]"
    "pcbs s' = (pcbs s)(pcbAddr pid := created pid entryPoint arg (pcbs s (pcbAddr pid)))"
    "nid (nodes s' (pcbAddr pid)) = int pid"
    "runningProcess s' = runningProcess s" "idleProcess s' = idleProcess s"
    "collectorProcess s' = collectorProcess s" "exitProcessQueue s' = exitProcessQueue s"
    "proc.more s' = proc.more s" "tickCount s' = tickCount s" "ram s' = ram s"
    "length (cpu s) = 24 \<longrightarrow> cpu s' = cpu s"
    "pte s' = (pte s)(KERNEL_SIZE + pid * 2 := pte s (KERNEL_SIZE + pid * 2) OR PAGE_FLAG_P)"
    "same_outside (nodes s) (nodes s') (insert (pcbAddr pid) (set rs))"
    "(\<lambda>p. nid (nodes s' p)) = (\<lambda>p. nid (nodes s p))(pcbAddr pid := int pid)"
proof -
  note R = sched_relD [OF rel]
  obtain idx d where slot: "findSlot (allocProcessTable s) 0 (pidCountIdx s) = Some idx"
    "unat idx < PROCESS_MAXCOUNT" "allocProcessTable s ! unat idx = 0"
    using findSlot_free [OF R(3) free] by metis
  let ?p = "pcbAddr (unat idx)" and ?al = "allocProcessTable s"
  have len: "length ?al = PROCESS_MAXCOUNT" using R(3) by (simp add: table_ok_def)
  have il: "unat idx < length ?al" using len slot(2) by simp
  have dead: "\<not> live ?al ?p" using slot by simp
  then have new: "?p \<notin> set rs" "?p \<notin> set ss"
    using coreD(1) [OF R(2), of ?p] sleeper(1) [OF rel, of ?p] by blast+
  obtain s' where s': "createProcess entryPoint arg s = Some (?p, s')"
    "srep s' (rs @ [?p]) ss"
    "(\<lambda>p. nid (nodes s' p)) = (\<lambda>p. nid (nodes s p))(?p := int (unat idx))"
    "pcbs s' = (pcbs s)(?p := created (unat idx) entryPoint arg (pcbs s ?p))"
    "allocProcessTable s' = ?al[unat idx := 1]" "pidCountIdx s' = idx + 1"
    "runningProcess s' = runningProcess s" "idleProcess s' = idleProcess s"
    "collectorProcess s' = collectorProcess s" "exitProcessQueue s' = exitProcessQueue s"
    "proc.more s' = proc.more s" "tickCount s' = tickCount s" "length (cpu s) = 24 \<longrightarrow> cpu s' = cpu s"
    "same_outside (nodes s) (nodes s') (insert ?p (set rs))" "ram s' = ram s"
    "pte s' = (pte s)(KERNEL_SIZE + unat idx * 2 := pte s (KERNEL_SIZE + unat idx * 2) OR PAGE_FLAG_P)"
    using createProcess_eq [OF R(1) slot(1) il new, where entryPoint = entryPoint and arg = arg] by blast
  have st: "state_of s' = (state_of s)(?p := PROCESS_STATE_READY)"
    by (auto simp: state_of_def s'(4) created_def Let_def)
  have "exitq_ok (state_of s') (allocProcessTable s') (exitProcessQueue s)"
    using R(4) dead slot(2) len unfolding exitq_ok_def st s'(5)
    by (auto simp: nth_list_update)
  moreover have "core (\<lambda>p. nid (nodes s' p)) (state_of s') (runningProcess s) (idleProcess s)
      (collectorProcess s) (allocProcessTable s') (rs @ [?p]) ss"
    unfolding st s'(3,5) by (rule core_create [OF R(2) len slot(2,3)])
  moreover have "table_ok (allocProcessTable s') (pidCountIdx s')"
    unfolding s'(5,6) using table_ok_create [OF R(3) slot(2)] .
  ultimately have "sched_rel s' (rs @ [?p]) ss"
    using s'(2,7-10) by (simp add: sched_rel_def core_of_def)
  moreover have "nid (nodes s' ?p) = int (unat idx)" using fun_cong [OF s'(3), of ?p] by simp
  ultimately show thesis using s' slot by (intro that [of "unat idx" s']) simp_all
qed

lemma createProcess_full:
  "(\<forall>k < PROCESS_MAXCOUNT. allocProcessTable s ! k = 1) \<Longrightarrow> createProcess entryPoint arg s = None"
  using findSlot_full [of "allocProcessTable s" 0 "pidCountIdx s"]
  by (simp add: createProcess_def setIf_def disableInterrupt_def)

lemma ctx_update_eta: "(\<lambda>b. b\<lparr>ctx := f (ctx b)\<rparr>) = ctx_update f"
proof
  show "b\<lparr>ctx := f (ctx b)\<rparr> = ctx_update f b" for b by (cases b) simp
qed

lemma sched_rel_ctx:
  assumes "sched_rel s rs ss"
  shows "sched_rel (upd_pcb p (ctx_update f) s) rs ss"
proof -
  have "state_of (upd_pcb p (ctx_update f) s) = state_of s"
    by (auto simp: state_of_def upd_pcb_def)
  then show ?thesis using assms
    by (simp add: sched_rel_def core_of_def srep_def) (simp add: upd_pcb_def)
qed

text \<open>
  A user process is a process whose context is in ring 3 on its own user stack; the two pages
  of that stack become accessible to ring 3 and no other page changes but the presence bit
  \<^verbatim>\<open>createProcess\<close> sets.
\<close>

lemma createUserProcess_rel:
  assumes rel: "sched_rel s rs ss" and free: "\<exists>k < PROCESS_MAXCOUNT. allocProcessTable s ! k \<noteq> 1"
  obtains pid s' where "createUserProcess entryPoint arg s = Some (pcbAddr pid, s')"
    "sched_rel s' (rs @ [pcbAddr pid]) ss" "pid < PROCESS_MAXCOUNT" "allocProcessTable s ! pid = 0"
    "allocProcessTable s' = (allocProcessTable s)[pid := 1]"
    "pcbs s' = (pcbs s)(pcbAddr pid :=
       ctx_update (userContext (userStack pid)) (created pid entryPoint arg (pcbs s (pcbAddr pid))))"
    "runningProcess s' = runningProcess s" "idleProcess s' = idleProcess s"
    "collectorProcess s' = collectorProcess s" "exitProcessQueue s' = exitProcessQueue s"
    "proc.more s' = proc.more s" "tickCount s' = tickCount s" "ram s' = ram s"
    "tlbView s' = pte s'"
    "\<And>i. pte s' i = (let w = (if i = KERNEL_SIZE + pid * 2 then pte s i OR PAGE_FLAG_P else pte s i)
       in if userStack pid div 0x1000 \<le> i \<and> i < userStack pid div 0x1000 + 2 then w OR PAGE_FLAG_US else w)"
proof -
  let ?i = "disableInterrupt s"
  have off: "?i = snd (setIf False s)" by (simp add: setIf_def)
  have i_sel: "allocProcessTable ?i = allocProcessTable s" "pcbs ?i = pcbs s" "pte ?i = pte s"
    "runningProcess ?i = runningProcess s" "idleProcess ?i = idleProcess s"
    "collectorProcess ?i = collectorProcess s" "exitProcessQueue ?i = exitProcessQueue s"
    "proc.more ?i = proc.more s" "tickCount ?i = tickCount s" "ram ?i = ram s"
    by (simp_all add: disableInterrupt_def)
  have "sched_rel ?i rs ss" using rel by (simp add: off)
  from createProcess_rel [OF this free [folded i_sel(1)], unfolded i_sel]
  obtain pid s2 where c: "createProcess entryPoint arg ?i = Some (pcbAddr pid, s2)"
    "sched_rel s2 (rs @ [pcbAddr pid]) ss" "pid < PROCESS_MAXCOUNT" "allocProcessTable s ! pid = 0"
    "allocProcessTable s2 = (allocProcessTable s)[pid := 1]"
    "pcbs s2 = (pcbs s)(pcbAddr pid := created pid entryPoint arg (pcbs s (pcbAddr pid)))"
    "nid (nodes s2 (pcbAddr pid)) = int pid"
    "runningProcess s2 = runningProcess s" "idleProcess s2 = idleProcess s"
    "collectorProcess s2 = collectorProcess s" "exitProcessQueue s2 = exitProcessQueue s"
    "proc.more s2 = proc.more s" "tickCount s2 = tickCount s" "ram s2 = ram s"
    "pte s2 = (pte s)(KERNEL_SIZE + pid * 2 := pte s (KERNEL_SIZE + pid * 2) OR PAGE_FLAG_P)"
    by blast
  let ?p = "pcbAddr pid" and ?stk = "userStack pid"
  let ?s3 = "setPageUserAccess ?stk (?stk + USER_STACK_SIZE) True s2"
  let ?s4 = "upd_pcb ?p (ctx_update (userContext ?stk)) ?s3"
  have "sched_rel ?s3 (rs @ [?p]) ss" using c(2) by (simp add: setPageUserAccess_def flushTLB_def)
  then have "sched_rel (snd (setIf (interrupts_on s) ?s4)) (rs @ [?p]) ss"
    using sched_rel_ctx by simp
  moreover have "createUserProcess entryPoint arg s = Some (?p, snd (setIf (interrupts_on s) ?s4))"
    using c(1,7) by (simp add: createUserProcess_def setIf_def Let_def ctx_update_eta)
  moreover have "pte (snd (setIf (interrupts_on s) ?s4)) = page_loop ?stk (?stk + 0x1000 * 2) True (pte s2)"
    by (simp add: proc_update_defs setPageUserAccess_def flushTLB_def stack_pages(2))
  then have "pte (snd (setIf (interrupts_on s) ?s4)) i =
      (let w = (if i = KERNEL_SIZE + pid * 2 then pte s i OR PAGE_FLAG_P else pte s i)
       in if ?stk div 0x1000 \<le> i \<and> i < ?stk div 0x1000 + 2 then w OR PAGE_FLAG_US else w)" for i
    unfolding page_loop_range [OF stack_pages(1)] c(15) by (simp add: Let_def)
  ultimately show thesis using c
    by (intro that [of pid "snd (setIf (interrupts_on s) ?s4)"])
      (simp_all add: proc_update_defs setPageUserAccess_def flushTLB_def)
qed

text \<open>A program too large for the code region is refused; otherwise its image is copied there.\<close>

lemma runUserProgram_rel:
  assumes rel: "sched_rel s rs ss" and free: "\<exists>k < PROCESS_MAXCOUNT. allocProcessTable s ! k \<noteq> 1"
    and sz: "unat sz \<le> USER_CODE_SIZE"
  obtains pid s' where "runUserProgram img sz arg s = Some (pcbAddr pid, s')"
    "sched_rel s' (rs @ [pcbAddr pid]) ss" "pid < PROCESS_MAXCOUNT" "allocProcessTable s ! pid = 0"
    "allocProcessTable s' = (allocProcessTable s)[pid := 1]"
    "pcbs s' = (pcbs s)(pcbAddr pid := ctx_update (userContext (userStack pid))
       (created pid (word_of_nat USER_CODE_ADDRESS) arg (pcbs s (pcbAddr pid))))"
    "runningProcess s' = runningProcess s" "idleProcess s' = idleProcess s"
    "ram s' = memcpy (ram s) USER_CODE_ADDRESS img (int_of_qword sz)"
    "proc.more s' = proc.more s"
proof -
  let ?i = "disableInterrupt s"
  have off: "?i = snd (setIf False s)" by (simp add: setIf_def)
  let ?s3 = "setPageUserAccess USER_CODE_ADDRESS (USER_CODE_ADDRESS + USER_CODE_SIZE) True
    (?i\<lparr>ram := memcpy (ram s) USER_CODE_ADDRESS img (int_of_qword sz)\<rparr>)"
  have s3: "allocProcessTable ?s3 = allocProcessTable s" "pcbs ?s3 = pcbs s"
    "runningProcess ?s3 = runningProcess s" "idleProcess ?s3 = idleProcess s"
    "ram ?s3 = memcpy (ram s) USER_CODE_ADDRESS img (int_of_qword sz)" "proc.more ?s3 = proc.more s"
    by (simp_all add: setPageUserAccess_def flushTLB_def disableInterrupt_def)
  have "sched_rel ?i rs ss" using rel by (simp add: off)
  then have "sched_rel ?s3 rs ss" by (simp add: setPageUserAccess_def flushTLB_def)
  from createUserProcess_rel [OF this free [folded s3(1)], unfolded s3]
  obtain pid s4 where c: "createUserProcess (word_of_nat USER_CODE_ADDRESS) arg ?s3 = Some (pcbAddr pid, s4)"
    "sched_rel s4 (rs @ [pcbAddr pid]) ss" "pid < PROCESS_MAXCOUNT" "allocProcessTable s ! pid = 0"
    "allocProcessTable s4 = (allocProcessTable s)[pid := 1]"
    "pcbs s4 = (pcbs s)(pcbAddr pid := ctx_update (userContext (userStack pid))
       (created pid (word_of_nat USER_CODE_ADDRESS) arg (pcbs s (pcbAddr pid))))"
    "runningProcess s4 = runningProcess s" "idleProcess s4 = idleProcess s"
    "ram s4 = memcpy (ram s) USER_CODE_ADDRESS img (int_of_qword sz)" "proc.more s4 = proc.more s"
    by blast
  have i_ram: "ram ?i = ram s" by (simp add: disableInterrupt_def)
  have "runUserProgram img sz arg s = Some (pcbAddr pid, snd (setIf (interrupts_on s) s4))"
    using c(1) sz by (simp add: runUserProgram_def setIf_def Let_def i_ram)
  then show thesis using c
    by (intro that [of pid "snd (setIf (interrupts_on s) s4)"]) (simp_all add: proc_update_defs)
qed

section \<open>The context of a new process\<close>

text \<open>
  \<^verbatim>\<open>setUpProcess\<close> passes the size of the register array where
  \<^verbatim>\<open>InitializeMemory\<close> takes its end address, which lies below the array: nothing is
  cleared.
\<close>

lemma clearRegisters_none:
  assumes "last_addr \<le> start"
  shows "clearRegisters start last_addr r = r"
  by (rule nth_equalityI) (use assms in \<open>auto simp: clearRegisters_def\<close>)

lemma setUp_clears_nothing: "clearRegisters (contextAddr (pcbAddr pid)) SIZEOF_CONTEXT r = r"
  by (rule clearRegisters_none)
    (simp add: contextAddr_def pcbAddr_def SIZEOF_CONTEXT_def PCB_POOL_ADDRESS_def)

definition stack_top :: "nat \<Rightarrow> QWORD" where
  "stack_top pid = word_of_nat (PROCESS_STACK_BASE + PROCESS_STACK_INTERVAL * pid) + word_of_nat PROCESS_STACK_SIZE"

lemma created_ctx:
  "ctx (created pid entryPoint arg b) = (ctx b)
     [REG_CS := CODE_DESCRIPTOR_OFFSET, REG_SS := DATA_DESCRIPTOR_OFFSET, REG_DS := DATA_DESCRIPTOR_OFFSET,
      REG_ES := DATA_DESCRIPTOR_OFFSET, REG_FS := DATA_DESCRIPTOR_OFFSET, REG_GS := DATA_DESCRIPTOR_OFFSET,
      REG_RIP := entryPoint, REG_RSP := stack_top pid, REG_RBP := stack_top pid,
      REG_RFLAGS := ctx b ! REG_RFLAGS OR RFLAGS_IF, REG_RDI := arg]"
  by (simp add: created_def setUpProcess_def Let_def setUp_clears_nothing stack_top_def reg_defs)

lemma created_nth:
  assumes "length (ctx b) = 24" and "i < 24"
  shows "ctx (created pid entryPoint arg b) ! i =
    (if i = REG_RDI then arg else if i = REG_RFLAGS then ctx b ! REG_RFLAGS OR RFLAGS_IF
     else if i = REG_RBP \<or> i = REG_RSP then stack_top pid else if i = REG_RIP then entryPoint
     else if i = REG_CS then CODE_DESCRIPTOR_OFFSET
     else if i = REG_GS \<or> i = REG_FS \<or> i = REG_ES \<or> i = REG_DS \<or> i = REG_SS then DATA_DESCRIPTOR_OFFSET
     else ctx b ! i)"
  using assms unfolding created_ctx by (simp add: nth_list_update reg_defs)

section \<open>The initial state\<close>

definition boot_ok :: "('d, 'z) proc_scheme \<Rightarrow> bool" where
  "boot_ok s \<longleftrightarrow> allocProcessTable s = replicate PROCESS_MAXCOUNT 0"

text \<open>The slot table once the boot process, the collector and the idle process exist.\<close>

definition boot_table :: "int list" where
  "boot_table = (replicate PROCESS_MAXCOUNT 0)[0 := 1, 1 := 1, 2 := 1]"

lemma boot_table_nth: "k < PROCESS_MAXCOUNT \<Longrightarrow> boot_table ! k = (if k = 0 \<or> k = 1 \<or> k = 2 then 1 else 0)"
  unfolding boot_table_def by (cases "k = 0"; cases "k = 1"; cases "k = 2") simp_all

lemma length_boot_table: "length boot_table = PROCESS_MAXCOUNT"
  by (simp add: boot_table_def)

lemma live_boot_table: "live boot_table p \<longleftrightarrow> p = pcbAddr 0 \<or> p = pcbAddr 1 \<or> p = pcbAddr 2"
proof -
  have "live boot_table p \<longleftrightarrow> (\<exists>k. k < PROCESS_MAXCOUNT \<and> p = pcbAddr k \<and> (k = 0 \<or> k = 1 \<or> k = 2))"
    unfolding live_def using boot_table_nth by (metis zero_neq_one)
  moreover have "(0::nat) < PROCESS_MAXCOUNT" "1 < PROCESS_MAXCOUNT" "2 < PROCESS_MAXCOUNT"
    by (simp_all add: PROCESS_MAXCOUNT_def)
  ultimately show ?thesis by blast
qed

lemma table_ok_boot: "table_ok boot_table 3"
proof -
  have "set boot_table \<subseteq> {0, 1}"
    using boot_table_nth length_boot_table by (auto simp: in_set_conv_nth split: if_splits)
  then show ?thesis
    using boot_table_nth [of 0] by (simp add: table_ok_def length_boot_table PROCESS_MAXCOUNT_def)
qed

lemma first_processes:
  fixes s :: "('d, 'z) proc_scheme"
  assumes "srep s [] []" and al: "allocProcessTable s = (replicate PROCESS_MAXCOUNT 0)[0 := 1]" and "pidCountIdx s = 1"
    and "nid (nodes s (pcbAddr 0)) = 0"
  obtains s4 s5 where "createProcess collectorEntry 0 s = Some (pcbAddr 1, s4)"
    "createProcess idleEntry 0 (s4\<lparr>collectorProcess := pcbAddr 1\<rparr>) = Some (pcbAddr 2, s5)"
    "srep s5 [pcbAddr 1, pcbAddr 2] []" "\<And>k. k \<le> 2 \<Longrightarrow> nid (nodes s5 (pcbAddr k)) = int k"
    "pcbs s5 (pcbAddr 0) = pcbs s (pcbAddr 0)"
    "state_of s5 (pcbAddr 1) = PROCESS_STATE_READY" "state_of s5 (pcbAddr 2) = PROCESS_STATE_READY"
    "allocProcessTable s5 = boot_table" "pidCountIdx s5 = 3"
    "runningProcess s5 = runningProcess s" "collectorProcess s5 = pcbAddr 1"
    "exitProcessQueue s5 = exitProcessQueue s" "proc.more s5 = proc.more s"
    "interruptHandlers s5 = interruptHandlers s" "tickCount s5 = tickCount s" "length (cpu s5) = length (cpu s)"
proof -
  have M: "PROCESS_MAXCOUNT = 1024" by (simp add: PROCESS_MAXCOUNT_def)
  have "findSlot (allocProcessTable s) 0 (pidCountIdx s) = Some 1"
    unfolding assms(2,3) by (subst findSlot.simps) (simp add: M nth_list_update)
  with assms(1) obtain s4 where s4: "createProcess collectorEntry 0 s = Some (pcbAddr 1, s4)" "srep s4 [pcbAddr 1] []"
    "(\<lambda>p. nid (nodes s4 p)) = (\<lambda>p. nid (nodes s p))(pcbAddr 1 := 1)"
    "pcbs s4 = (pcbs s)(pcbAddr 1 := created 1 collectorEntry 0 (pcbs s (pcbAddr 1)))"
    "allocProcessTable s4 = (replicate PROCESS_MAXCOUNT 0)[0 := 1, 1 := 1]" "pidCountIdx s4 = 2" "runningProcess s4 = runningProcess s"
    "exitProcessQueue s4 = exitProcessQueue s" "proc.more s4 = proc.more s"
    "interruptHandlers s4 = interruptHandlers s" "tickCount s4 = tickCount s" "length (cpu s4) = length (cpu s)"
    by (rule createProcess_eq [where entryPoint = collectorEntry and arg = 0]) (use assms M in simp_all)
  let ?s4 = "s4\<lparr>collectorProcess := pcbAddr 1\<rparr>"
  have "srep ?s4 [pcbAddr 1] []" using s4(2) by (simp add: srep_def)
  moreover have "findSlot (allocProcessTable ?s4) 0 (pidCountIdx ?s4) = Some 2"
    using s4 by (subst findSlot.simps) (simp add: M nth_list_update)
  ultimately obtain s5 where s5: "createProcess idleEntry 0 ?s4 = Some (pcbAddr 2, s5)" "srep s5 [pcbAddr 1, pcbAddr 2] []"
    "(\<lambda>p. nid (nodes s5 p)) = (\<lambda>p. nid (nodes s4 p))(pcbAddr 2 := 2)"
    "pcbs s5 = (pcbs s4)(pcbAddr 2 := created 2 idleEntry 0 (pcbs s4 (pcbAddr 2)))"
    "allocProcessTable s5 = (replicate PROCESS_MAXCOUNT 0)[0 := 1, 1 := 1, 2 := 1]" "pidCountIdx s5 = 3"
    "runningProcess s5 = runningProcess s" "collectorProcess s5 = pcbAddr 1"
    "exitProcessQueue s5 = exitProcessQueue s" "proc.more s5 = proc.more s"
    "interruptHandlers s5 = interruptHandlers s" "tickCount s5 = tickCount s" "length (cpu s5) = length (cpu s)"
    by (rule createProcess_eq [where entryPoint = idleEntry and arg = 0]) (use s4 M in simp_all)
  have ids: "nid (nodes s5 (pcbAddr k)) = int k" if "k \<le> 2" for k
    using fun_cong [OF s5(3), of "pcbAddr k"] fun_cong [OF s4(3), of "pcbAddr k"] that assms(4)
    by (auto simp: le_Suc_eq numeral_2_eq_2)
  have st: "pcbs s5 (pcbAddr 0) = pcbs s (pcbAddr 0)" "state_of s5 (pcbAddr 1) = PROCESS_STATE_READY"
    "state_of s5 (pcbAddr 2) = PROCESS_STATE_READY" by (simp_all add: state_of_def s4 s5 created_def Let_def)
  have tab: "allocProcessTable s5 = boot_table" by (simp add: s5 boot_table_def)
  show thesis by (rule that [OF s4(1) s5(1,2) ids st tab s5(6-)])
qed

lemma initScheduler_rel:
  assumes boot: "boot_ok s" and buf: "length buf = EXIT_QUEUE_COUNT * 4"
  obtains s' where "initScheduler collectorEntry idleEntry buf s = Some s'"
    "sched_rel s' [pcbAddr 1] []" "runningProcess s' = pcbAddr 0" "collectorProcess s' = pcbAddr 1"
    "idleProcess s' = pcbAddr 2" "allocProcessTable s' = boot_table"
    "proc.more s' = proc.more s" "exit_pids (exitProcessQueue s') = []"
    "interruptHandlers s' = (interruptHandlers s)[32 := Some timerISR]" "tickCount s' = tickCount s"
    "length (cpu s') = length (cpu s)"
proof -
  let ?q = "initQueue buf (int EXIT_QUEUE_COUNT) 4"
  define s3 where "s3 = (set_state (pcbAddr 0) PROCESS_STATE_RUNNING
      (s\<lparr>pidCountIdx := 0, nodes := (nodes s)(pcbAddr 0 := (nodes s (pcbAddr 0))\<lparr>nid := 0\<rparr>)\<rparr>))
    \<lparr>allocProcessTable := (allocProcessTable s)[0 := 1], pidCountIdx := 1,
      processList := initList (processList s), sleepList := initList (sleepList s),
      runningProcess := pcbAddr 0, exitProcessQueue := ?q\<rparr>"
  have s3: "srep s3 [] []" "allocProcessTable s3 = (replicate PROCESS_MAXCOUNT 0)[0 := 1]" "pidCountIdx s3 = 1"
    "nid (nodes s3 (pcbAddr 0)) = 0" "pstate (pcbs s3 (pcbAddr 0)) = PROCESS_STATE_RUNNING" "runningProcess s3 = pcbAddr 0"
    "exitProcessQueue s3 = ?q" "proc.more s3 = proc.more s" "interruptHandlers s3 = interruptHandlers s"
    "tickCount s3 = tickCount s" "length (cpu s3) = length (cpu s)"
    using boot by (simp_all add: s3_def boot_ok_def set_state_def upd_pcb_def srep_def rep_initList)
  show thesis
  proof (rule first_processes [OF s3(1-4), of collectorEntry idleEntry], goal_cases)
    case (1 s4 s5)
    note s5 = 1 [unfolded s3(6-)]
    have rep: "rep (nodes s5) (processList s5) ([pcbAddr 1] @ pcbAddr 2 # [])" "rep (nodes s5) (sleepList s5) []"
      using s5(3) by (simp_all add: srep_def)
    obtain h l where rm: "removeList (nodes s5) (processList s5) 2 = Some (pcbAddr 2, h, l)"
      "rep h l [pcbAddr 1]" "\<And>x. nid (h x) = nid (nodes s5 x)"
      by (rule removeList_found [OF rep(1), where i = 2]) (use s5(4) [of 1] s5(4) [of 2] in simp_all)
    let ?s = "s5\<lparr>idleProcess := pcbAddr 2, nodes := h, processList := l,
        interruptHandlers := (interruptHandlers s)[32 := Some timerISR]\<rparr>"
    have reg: "registerInterruptHandler (IRQ_START_OFFSET + 0) timerISR
      (s5\<lparr>idleProcess := pcbAddr 2, nodes := h, processList := l\<rparr>) = ?s"
      using s5(14) by (simp add: registerInterruptHandler_def IRQ_START_OFFSET_def)
    have st: "state_of ?s (pcbAddr 0) = PROCESS_STATE_RUNNING" "state_of ?s (pcbAddr 1) = PROCESS_STATE_READY"
      "state_of ?s (pcbAddr 2) = PROCESS_STATE_READY"
      using s5(5-7) s3(5) by (simp_all add: state_of_def)
    have "rep h (sleepList s5) []" using rep(2) by (simp add: rep_def)
    then have "srep ?s [pcbAddr 1] []" using rm(2) by (simp add: srep_def)
    moreover have "core (\<lambda>p. nid (h p)) (state_of ?s) (pcbAddr 0) (pcbAddr 2) (pcbAddr 1) boot_table [pcbAddr 1] []"
    proof (rule coreI)
      show "nid (h (pcbAddr k)) = int k" if "k < PROCESS_MAXCOUNT" "boot_table ! k = 1" for k
        using that s5(4) [of k] by (auto simp: rm(3) boot_table_nth split: if_splits)
    qed (use st in \<open>auto simp: live_boot_table simp del: live_pcbAddr\<close>)
    moreover have "ring_ok ?q" by (rule ring_ok_init) (use buf in \<open>simp_all add: EXIT_QUEUE_COUNT_def\<close>)
    then have "exitq_ok (state_of ?s) boot_table ?q"
      by (simp add: exitq_ok_def exit_pids_def contents_init ring_at_def) (simp add: initQueue_def)
    moreover have sel: "allocProcessTable ?s = boot_table" "pidCountIdx ?s = 3" "runningProcess ?s = pcbAddr 0"
      "idleProcess ?s = pcbAddr 2" "collectorProcess ?s = pcbAddr 1" "exitProcessQueue ?s = ?q" "nodes ?s = h"
      "processList ?s = l" "sleepList ?s = sleepList s5" "proc.more ?s = proc.more s" "tickCount ?s = tickCount s"
      "length (cpu ?s) = length (cpu s)" by (simp_all add: s5(8-))
    ultimately have "sched_rel ?s [pcbAddr 1] []"
      using table_ok_boot \<open>ring_ok ?q\<close> unfolding sched_rel_def core_of_def sel by blast
    moreover have "initScheduler collectorEntry idleEntry buf s = Some ?s"
      using s5(1,2) s5(4) [of 2] rm(1) reg by (simp add: initScheduler_def Let_def s3_def [symmetric])
    ultimately show ?case using sel \<open>ring_ok ?q\<close>
      by (intro that [of ?s]) (simp_all add: exit_pids_def contents_init)
  qed
qed

end
