(* ===== verification/SchedProps.thy ===== *)
theory SchedProps
  imports Lifecycle
begin

text \<open>
  The properties of the scheduler: boot, the timer interrupt, sleeping and waking, fairness of
  the round robin, saved contexts, creation, exit and reclamation. The witnesses run on
  \<open>booted\<close>, the state in which \<^verbatim>\<open>initScheduler\<close> leaves a machine with a device that
  ignores writes.
\<close>

section \<open>A booted machine\<close>

definition null_io :: "unit portio" where
  "null_io = \<lparr>in_byte = \<lambda>_ d. (0, d), out_byte = \<lambda>_ _ d. d, in_word = \<lambda>_ d. (0, d), out_word = \<lambda>_ _ d. d\<rparr>"

definition power_on :: "unit proc" where
  "power_on = \<lparr>dev = (), picState = ICW_SET, counter0Reload = 0x10000,
     nodes = \<lambda>_. \<lparr>nxt = NULL, nid = 0\<rparr>,
     pcbs = \<lambda>_. \<lparr>pageTableAddress = 0, stackSize = 0, stackAddress = 0, pstate = PROCESS_STATE_READY,
                   wakeupTick = 0, ctx = replicate 24 0\<rparr>,
     runningProcess = NULL, idleProcess = NULL,
     processList = \<lparr>l_head = NULL, l_tail = NULL, l_count = 0\<rparr>,
     sleepList = \<lparr>l_head = NULL, l_tail = NULL, l_count = 0\<rparr>,
     pidCountIdx = 0, allocProcessTable = replicate PROCESS_MAXCOUNT 0,
     exitProcessQueue = initQueue [] 0 0, collectorProcess = NULL, tickCount = 0,
     cpu = replicate 24 0, ist = replicate 24 0, tssRsp0 = 0, pte = \<lambda>_. 0, tlbView = \<lambda>_. 0,
     ram = \<lambda>_. 0, interruptHandlers = replicate 48 None\<rparr>"

definition booted :: "unit proc" where
  "booted = the (initScheduler 0x1000 0x2000 (replicate 400 0) power_on)"

lemma booted_eq:
  "initScheduler 0x1000 0x2000 (replicate 400 0) power_on = Some booted"
  "sched_rel booted [pcbAddr 1] []" "runningProcess booted = pcbAddr 0"
  "collectorProcess booted = pcbAddr 1" "idleProcess booted = pcbAddr 2"
  "allocProcessTable booted = boot_table" "exit_pids (exitProcessQueue booted) = []"
  "tickCount booted = 0" "length (cpu booted) = 24"
proof -
  have "boot_ok power_on" "length (replicate 400 (0::BYTE)) = EXIT_QUEUE_COUNT * 4"
    by (simp_all add: boot_ok_def power_on_def EXIT_QUEUE_COUNT_def)
  from initScheduler_rel [OF this, where collectorEntry = "0x1000" and idleEntry = "0x2000"]
  obtain s' where s': "initScheduler 0x1000 0x2000 (replicate 400 0) power_on = Some s'"
    "sched_rel s' [pcbAddr 1] []" "runningProcess s' = pcbAddr 0" "collectorProcess s' = pcbAddr 1"
    "idleProcess s' = pcbAddr 2" "allocProcessTable s' = boot_table"
    "exit_pids (exitProcessQueue s') = []" "tickCount s' = tickCount power_on"
    "length (cpu s') = length (cpu power_on)" by blast
  then show "initScheduler 0x1000 0x2000 (replicate 400 0) power_on = Some booted"
    "sched_rel booted [pcbAddr 1] []" "runningProcess booted = pcbAddr 0"
    "collectorProcess booted = pcbAddr 1" "idleProcess booted = pcbAddr 2"
    "allocProcessTable booted = boot_table" "exit_pids (exitProcessQueue booted) = []"
    "tickCount booted = 0" "length (cpu booted) = 24"
    by (simp_all add: booted_def power_on_def)
qed

lemma booted_ok [simp]: "sched_ok booted"
  using booted_eq(2) by (rule sched_okI)

lemma asched_booted: "asched_of booted = \<lparr>a_run = pcbAddr 0, a_ready = [pcbAddr 1], a_sleep = []\<rparr>"
  using asched_of_rel [OF booted_eq(2)] booted_eq(3) by simp

section \<open>Boot\<close>

text \<open>\<^verbatim>\<open>initScheduler\<close> leaves the scheduler's invariant established: the boot
  process with pid 0 runs, the collector (pid 1) is the only ready process, the idle process
  (pid 2) is outside the ready list, nobody sleeps and no exit is pending.\<close>

theorem boot_establishes_scheduler:
  assumes "allocProcessTable s = replicate PROCESS_MAXCOUNT 0" and "length buf = EXIT_QUEUE_COUNT * 4"
  shows "\<exists>s'. initScheduler collectorEntry idleEntry buf s = Some s' \<and> sched_ok s' \<and>
    asched_of s' = \<lparr>a_run = pcbAddr 0, a_ready = [pcbAddr 1], a_sleep = []\<rparr> \<and>
    idleProcess s' = pcbAddr 2 \<and> collectorProcess s' = pcbAddr 1 \<and>
    exit_pids (exitProcessQueue s') = []"
proof -
  have "boot_ok s" using assms(1) by (simp add: boot_ok_def)
  from initScheduler_rel [OF this assms(2), where collectorEntry = collectorEntry and idleEntry = idleEntry]
  obtain s' where s': "initScheduler collectorEntry idleEntry buf s = Some s'"
    "sched_rel s' [pcbAddr 1] []" "runningProcess s' = pcbAddr 0" "collectorProcess s' = pcbAddr 1"
    "idleProcess s' = pcbAddr 2" "exit_pids (exitProcessQueue s') = []" by blast
  then show ?thesis using asched_of_rel [OF s'(2)] sched_okI [OF s'(2)] by simp
qed

theorem boot_establishes_scheduler_witness:
  "\<exists>s'. initScheduler 0x1000 0x2000 (replicate 400 0) power_on = Some s' \<and> sched_ok s' \<and>
    asched_of s' = \<lparr>a_run = pcbAddr 0, a_ready = [pcbAddr 1], a_sleep = []\<rparr> \<and>
    idleProcess s' = pcbAddr 2 \<and> collectorProcess s' = pcbAddr 1 \<and>
    exit_pids (exitProcessQueue s') = []"
  by (rule boot_establishes_scheduler) (simp_all add: power_on_def EXIT_QUEUE_COUNT_def)

section \<open>The timer interrupt\<close>

text \<open>C1: A timer interrupt is one step of the abstract round robin: the tick count goes up by
  one, every sleeper whose tick has come goes to the end of the ready queue in sleep order, and
  the processor goes to the head of the ready queue, the running process to its tail unless it
  is the idle process. The handler always returns and keeps the scheduler's invariant.\<close>

theorem timer_interrupt_step:
  assumes "sched_ok s"
  shows "\<exists>s'. timerInterruptHandler io v s = Some s' \<and> sched_ok s' \<and>
    tickCount s' = tickCount s + 1 \<and> idleProcess s' = idleProcess s \<and>
    asched_of s' = a_slice (idleProcess s) (a_expire (tickCount s + 1) (asched_of s))"
  using timer_refines [OF assms] by metis

theorem timer_interrupt_step_witness:
  "\<exists>s'. timerInterruptHandler null_io 32 booted = Some s' \<and>
    asched_of s' = \<lparr>a_run = pcbAddr 1, a_ready = [pcbAddr 0], a_sleep = []\<rparr>"
  using timer_interrupt_step [OF booted_ok, of null_io 32]
  by (auto simp: asched_booted a_slice_def a_expire_def booted_eq(5))

section \<open>Rounds of the timer\<close>

primrec ticks :: "'d portio \<Rightarrow> int \<Rightarrow> nat \<Rightarrow> ('d, 'z) proc_scheme \<Rightarrow> ('d, 'z) proc_scheme option" where
  "ticks io v 0 s = Some s"
| "ticks io v (Suc n) s = do { s1 \<leftarrow> timerInterruptHandler io v s; ticks io v n s1 }"

primrec a_ticks :: "ptr \<Rightarrow> nat \<Rightarrow> QWORD \<Rightarrow> asched \<Rightarrow> asched" where
  "a_ticks idle 0 now A = A"
| "a_ticks idle (Suc n) now A = a_ticks idle n (now + 1) (a_slice idle (a_expire (now + 1) A))"

lemma ticks_refine:
  "sched_ok s \<Longrightarrow> \<exists>s'. ticks io v n s = Some s' \<and> sched_ok s' \<and> idleProcess s' = idleProcess s \<and>
     tickCount s' = tickCount s + word_of_nat n \<and>
     collectorProcess s' = collectorProcess s \<and> exitProcessQueue s' = exitProcessQueue s \<and>
     asched_of s' = a_ticks (idleProcess s) n (tickCount s) (asched_of s)"
proof (induction n arbitrary: s)
  case 0
  then show ?case by simp
next
  case (Suc n)
  obtain s1 where 1: "timerInterruptHandler io v s = Some s1" "sched_ok s1"
    "asched_of s1 = a_slice (idleProcess s) (a_expire (tickCount s + 1) (asched_of s))"
    "tickCount s1 = tickCount s + 1" "idleProcess s1 = idleProcess s"
    "collectorProcess s1 = collectorProcess s" "exitProcessQueue s1 = exitProcessQueue s"
    using timer_refines [OF Suc.prems, of io v] by metis
  from Suc.IH [OF 1(2)] 1 show ?case by auto
qed

text \<open>The ready queue moves on: after a tick its tail is a prefix of the new ready queue.\<close>

lemma a_tick_ready:
  assumes "a_ready A = x # xs"
  shows "a_run (a_slice idle (a_expire now A)) = x"
    and "\<exists>ys. a_ready (a_slice idle (a_expire now A)) = xs @ ys"
  using assms by (auto simp: a_slice_def a_expire_def)

lemma a_ticks_fair:
  "k < length (a_ready A) \<Longrightarrow> a_run (a_ticks idle (Suc k) now A) = a_ready A ! k"
proof (induction k arbitrary: A now)
  case 0
  then obtain x xs where "a_ready A = x # xs" by (cases "a_ready A") auto
  then show ?case using a_tick_ready(1) [of A x xs] by simp
next
  case (Suc k)
  then obtain x xs where A: "a_ready A = x # xs" by (cases "a_ready A") auto
  let ?A = "a_slice idle (a_expire (now + 1) A)"
  obtain ys where ys: "a_ready ?A = xs @ ys" using a_tick_ready(2) [OF A] by blast
  then have "a_run (a_ticks idle (Suc k) (now + 1) ?A) = a_ready ?A ! k"
    using Suc.prems A by (intro Suc.IH) simp
  then show ?case using Suc.prems A ys by (simp add: nth_append)
qed

text \<open>C5: Fairness of the round robin: the process at position \<open>k\<close> of the ready list has the
  processor after \<open>k + 1\<close> timer interrupts, whatever sleepers wake up meanwhile.\<close>

theorem round_robin_fair:
  assumes "sched_ok s" and "k < length (a_ready (asched_of s))"
  shows "\<exists>s'. ticks io v (k + 1) s = Some s' \<and> sched_ok s' \<and>
    runningProcess s' = a_ready (asched_of s) ! k"
proof -
  obtain s' where s': "ticks io v (k + 1) s = Some s'" "sched_ok s'"
    "asched_of s' = a_ticks (idleProcess s) (Suc k) (tickCount s) (asched_of s)"
    using ticks_refine [OF assms(1), of io v "k + 1"] by auto
  have "runningProcess s' = a_run (asched_of s')" by (simp add: asched_of_def)
  then show ?thesis using s' a_ticks_fair [OF assms(2)] by metis
qed

theorem round_robin_fair_witness:
  "\<exists>s'. ticks null_io 32 1 booted = Some s' \<and> sched_ok s' \<and> runningProcess s' = pcbAddr 1"
  using round_robin_fair [OF booted_ok, of 0 null_io 32] by (simp add: asched_booted)

section \<open>Sleeping\<close>

text \<open>A sleeper stays asleep until its tick and is ready or running at it.\<close>

lemma qword_less: "unat (w :: QWORD) < 2 ^ 64"
  by (rule less_le_trans [OF unsigned_less]) simp

lemma a_ticks_asleep:
  assumes "(p, t) \<in> set (a_sleep A)" and "unat now + n < unat t"
  shows "(p, t) \<in> set (a_sleep (a_ticks idle n now A))"
  using assms
proof (induction n arbitrary: A now)
  case 0
  then show ?case by simp
next
  case (Suc n)
  have b: "unat now + 1 < 2 ^ 64" using Suc.prems(2) qword_less [of t] by simp
  then have now: "unat (now + 1) = unat now + 1" by (simp add: unat_word_ariths)
  have "(p, t) \<in> set (a_sleep (a_slice idle (a_expire (now + 1) A)))"
    using Suc.prems now by (auto simp: a_slice_def a_expire_def word_le_nat_alt split: list.split)
  then show ?case using Suc now by simp
qed

lemma a_ticks_awake:
  assumes "(p, t) \<in> set (a_sleep A)" and "unat now + Suc n = unat t"
  shows "a_run (a_ticks idle (Suc n) now A) = p \<or> p \<in> set (a_ready (a_ticks idle (Suc n) now A))"
  using assms
proof (induction n arbitrary: A now)
  case 0
  have "unat now + 1 < 2 ^ 64" using 0(2) qword_less [of t] by simp
  then have "now + 1 = t" using 0(2) by (intro word_unat_eq_iff [THEN iffD2]) (simp add: unat_word_ariths)
  then have p: "p \<in> set (a_ready (a_expire (now + 1) A))"
    using 0 by (force simp: a_expire_def)
  show ?case
  proof (cases "a_ready (a_expire (now + 1) A)")
    case Nil
    then show ?thesis using p by simp
  next
    case (Cons x xs)
    then show ?thesis using p by (auto simp: a_slice_def)
  qed
next
  case (Suc n)
  have b: "unat now + 1 < 2 ^ 64" using Suc.prems(2) qword_less [of t] by simp
  then have now: "unat (now + 1) = unat now + 1" by (simp add: unat_word_ariths)
  have "(p, t) \<in> set (a_sleep (a_slice idle (a_expire (now + 1) A)))"
    using Suc.prems now by (auto simp: a_slice_def a_expire_def word_le_nat_alt split: list.split)
  note IH = Suc.IH [OF this, of "now + 1"]
  have "a_ticks idle (Suc (Suc n)) now A =
      a_ticks idle (Suc n) (now + 1) (a_slice idle (a_expire (now + 1) A))" by (simp only: a_ticks.simps)
  then show ?case using IH Suc.prems(2) now by (simp only:)
qed

lemma asleep_not_scheduled:
  assumes "sched_ok s" and "(p, t) \<in> set (a_sleep (asched_of s))"
  shows "p \<noteq> a_run (asched_of s)" and "p \<notin> set (a_ready (asched_of s))"
proof -
  obtain rs ss where rel: "sched_rel s rs ss" using assms(1) by (auto elim: sched_okE)
  have "p \<in> set ss" using assms(2) by (auto simp: asched_of_rel [OF rel])
  then show "p \<noteq> a_run (asched_of s)" "p \<notin> set (a_ready (asched_of s))"
    using core_running_fresh(2) [OF sched_relD(2) [OF rel]] sched_relD(1) [OF rel]
    by (auto simp: asched_of_rel [OF rel] srep_def)
qed

lemma sleep_ticks:
  assumes "unat ms + 4 < 2 ^ 64"
  shows "unat ((ms + SLOT_TIME - 1) div SLOT_TIME) = (unat ms + 4) div 5"
proof -
  have "unat (ms + 4) = unat ms + 4" using assms by (simp add: unat_word_ariths)
  moreover have "ms + SLOT_TIME - 1 = ms + 4" by (simp add: SLOT_TIME_def)
  ultimately show ?thesis unfolding unat_div_distrib by (simp only:) (simp add: SLOT_TIME_def)
qed

lemma sleepProcess_refines:
  assumes ok: "sched_ok s" and "runningProcess s \<noteq> idleProcess s" "runningProcess s \<noteq> collectorProcess s"
  obtains s' where "sleepProcess ms s = Some (interrupts_on s, s')" "sched_ok s'"
    "asched_of s' = a_sleep_until (tickCount s + (ms + SLOT_TIME - 1) div SLOT_TIME) (idleProcess s) (asched_of s)"
    "tickCount s' = tickCount s" "idleProcess s' = idleProcess s"
proof -
  let ?i = "disableInterrupt s"
  have off: "?i = snd (setIf False s)" by (simp add: setIf_def)
  obtain rs ss where rel: "sched_rel s rs ss" using ok by (auto elim: sched_okE)
  then have "sched_rel ?i rs ss" by (simp add: off)
  then have ok': "sched_ok ?i" and A: "asched_of ?i = asched_of s"
    by (auto simp: asched_of_rel [OF rel] asched_of_rel intro: sched_okI) (simp_all add: off)
  have sel: "runningProcess ?i = runningProcess s" "idleProcess ?i = idleProcess s"
    "collectorProcess ?i = collectorProcess s" "tickCount ?i = tickCount s"
    by (simp_all add: disableInterrupt_def)
  obtain s' where s': "sleepUntilTick (tickCount s + (ms + SLOT_TIME - 1) div SLOT_TIME) ?i = Some s'"
    "sched_ok s'" "asched_of s' = a_sleep_until (tickCount s + (ms + SLOT_TIME - 1) div SLOT_TIME)
      (idleProcess s) (asched_of s)" "sched_frame ?i s'"
    using sleep_refines [OF ok', unfolded sel A] assms(2,3) by metis
  have "sleepProcess ms s = Some (interrupts_on s, s')"
    using s'(1) sel by (simp add: sleepProcess_def setIf_def)
  then show thesis using s' sel sched_frame_sel [OF s'(4)] by (intro that [of s']) simp_all
qed

text \<open>C6: A process that sleeps \<open>ms\<close> milliseconds gives up the processor, is neither running nor
  ready before \<open>ceil(ms / 5)\<close> timer interrupts have come, and is running or ready right after
  that one. The bounds exclude the wrap-around of \<^verbatim>\<open>ms + SLOT_TIME - 1\<close> and of the tick
  count.\<close>

theorem sleep_wakes_on_time:
  assumes "sched_ok s" and "runningProcess s \<noteq> idleProcess s" "runningProcess s \<noteq> collectorProcess s"
    and "0 < ms" "unat ms + 4 < 2 ^ 64" "unat (tickCount s) + (unat ms + 4) div 5 < 2 ^ 64"
  shows "\<exists>s1. sleepProcess ms s = Some (interrupts_on s, s1) \<and> sched_ok s1 \<and>
    (\<forall>n < (unat ms + 4) div 5. \<exists>s2. ticks io v n s1 = Some s2 \<and>
       runningProcess s2 \<noteq> runningProcess s \<and> runningProcess s \<notin> set (a_ready (asched_of s2))) \<and>
    (\<exists>s2. ticks io v ((unat ms + 4) div 5) s1 = Some s2 \<and>
       (runningProcess s2 = runningProcess s \<or> runningProcess s \<in> set (a_ready (asched_of s2))))"
proof -
  let ?d = "(unat ms + 4) div 5" and ?p = "runningProcess s"
  let ?t = "tickCount s + (ms + SLOT_TIME - 1) div SLOT_TIME"
  obtain s1 where s1: "sleepProcess ms s = Some (interrupts_on s, s1)" "sched_ok s1"
    "asched_of s1 = a_sleep_until ?t (idleProcess s) (asched_of s)" "tickCount s1 = tickCount s"
    using sleepProcess_refines [OF assms(1-3)] by metis
  have t: "unat ?t = unat (tickCount s1) + ?d"
    using sleep_ticks [OF assms(5)] assms(6) s1(4) by (simp add: unat_word_ariths)
  have run: "a_run (asched_of x) = runningProcess x" for x :: "('a, 'b) proc_scheme"
    by (simp add: asched_of_def)
  have in_sleep: "(?p, ?t) \<in> set (a_sleep (asched_of s1))"
    by (simp add: s1(3) a_sleep_until_def a_dispatch_def run split: list.split)
  have "\<exists>s2. ticks io v n s1 = Some s2 \<and> runningProcess s2 \<noteq> ?p \<and> ?p \<notin> set (a_ready (asched_of s2))"
    if "n < ?d" for n
  proof -
    obtain s2 where s2: "ticks io v n s1 = Some s2" "sched_ok s2"
      "asched_of s2 = a_ticks (idleProcess s1) n (tickCount s1) (asched_of s1)"
      using ticks_refine [OF s1(2), of io v n] by blast
    have "(?p, ?t) \<in> set (a_sleep (asched_of s2))"
      unfolding s2(3) by (rule a_ticks_asleep [OF in_sleep]) (use that t in simp)
    from asleep_not_scheduled [OF s2(2) this] s2(1) show ?thesis by (auto simp: run)
  qed
  moreover have "\<exists>s2. ticks io v ?d s1 = Some s2 \<and>
      (runningProcess s2 = ?p \<or> ?p \<in> set (a_ready (asched_of s2)))"
  proof -
    have "0 < ?d" using assms(4) by (simp add: word_less_nat_alt)
    then obtain n where n: "?d = Suc n" by (cases ?d) auto
    obtain s2 where s2: "ticks io v ?d s1 = Some s2"
      "asched_of s2 = a_ticks (idleProcess s1) (Suc n) (tickCount s1) (asched_of s1)"
      using ticks_refine [OF s1(2), of io v ?d] n by auto
    from a_ticks_awake [OF in_sleep, of "tickCount s1" n] t n
    have "a_run (asched_of s2) = ?p \<or> ?p \<in> set (a_ready (asched_of s2))"
      unfolding s2(2) by simp
    then show ?thesis using s2(1) by (auto simp: run)
  qed
  ultimately show ?thesis using s1(1,2) by blast
qed

theorem sleep_wakes_on_time_witness:
  "\<exists>s1 s2. sleepProcess 7 booted = Some (interrupts_on booted, s1) \<and> ticks null_io 32 2 s1 = Some s2 \<and>
    (runningProcess s2 = pcbAddr 0 \<or> pcbAddr 0 \<in> set (a_ready (asched_of s2)))"
  using sleep_wakes_on_time [OF booted_ok, of 7 null_io 32] by (auto simp: booted_eq)

section \<open>Waking\<close>

text \<open>Waking a blocked process takes it off the sleep list, if it sleeps, and puts it at the end
  of the ready list, in state READY; any other process (or a null pointer) is left alone.\<close>

theorem wakeup_step:
  assumes "sched_ok s" and "p = NULL \<or> live (allocProcessTable s) p"
  shows "\<exists>s'. wakeupProcess p s = Some (p \<noteq> NULL \<and> state_of s p = PROCESS_STATE_BLOCKED, s') \<and> sched_ok s' \<and>
    (if p \<noteq> NULL \<and> state_of s p = PROCESS_STATE_BLOCKED
     then asched_of s' = a_wake p (asched_of s) \<and> state_of s' = (state_of s)(p := PROCESS_STATE_READY)
     else s' = s)"
proof (cases "p \<noteq> NULL \<and> state_of s p = PROCESS_STATE_BLOCKED")
  case True
  with assms obtain s' where "wakeupProcess p s = Some (True, s')" "sched_ok s'"
    "asched_of s' = a_wake p (asched_of s)" "state_of s' = (state_of s)(p := PROCESS_STATE_READY)"
    using wakeup_refines [OF assms(1), of p] by blast
  with True show ?thesis by simp
next
  case False
  then show ?thesis using wakeup_ignored [of p s] assms(1) by auto
qed

theorem wakeup_step_witness:
  "\<exists>s1 s'. sleepProcess 7 booted = Some (interrupts_on booted, s1) \<and>
    wakeupProcess (pcbAddr 0) s1 = Some (True, s') \<and> pcbAddr 0 \<in> set (a_ready (asched_of s'))"
proof -
  have ne: "runningProcess booted \<noteq> idleProcess booted" "runningProcess booted \<noteq> collectorProcess booted"
    by (simp_all add: booted_eq)
  obtain s1 where s1: "sleepProcess 7 booted = Some (interrupts_on booted, s1)" "sched_ok s1"
    "asched_of s1 = a_sleep_until (tickCount booted + (7 + SLOT_TIME - 1) div SLOT_TIME) (pcbAddr 2) (asched_of booted)"
    using sleepProcess_refines [OF booted_ok ne, of 7] booted_eq(5) by metis
  obtain rs ss where rel: "sched_rel s1 rs ss" using s1(2) by (auto elim: sched_okE)
  have "pcbAddr 0 \<in> set ss"
    using s1(3) by (auto simp: asched_of_rel [OF rel] asched_booted a_sleep_until_def a_dispatch_def)
  note sl = sleeper [OF rel this]
  obtain s' where "wakeupProcess (pcbAddr 0) s1 = Some (True, s')" "asched_of s' = a_wake (pcbAddr 0) (asched_of s1)"
    using wakeup_step [OF s1(2), of "pcbAddr 0"] sl by auto
  then show ?thesis using s1(1) by (auto simp: a_wake_def)
qed

section \<open>Contexts\<close>

text \<open>A time slice that switches saves the frame of the interrupted process in its PCB, puts
  the saved context of the next process in the frame the interrupt returns through, and points
  the kernel stack for system calls at the next process's own stack; no other saved context
  changes. A process that is switched out therefore resumes with the registers it had.\<close>

theorem slice_saves_and_loads:
  assumes "sched_ok s" and "a_ready (asched_of s) = x # xs"
  shows "\<exists>s'. timeoutSchedule s = Some s' \<and> runningProcess s' = x \<and>
    ctx (pcbs s' (runningProcess s)) = ist s \<and> ist s' = ctx (pcbs s x) \<and>
    (\<forall>q. q \<noteq> runningProcess s \<longrightarrow> ctx (pcbs s' q) = ctx (pcbs s q)) \<and>
    tssRsp0 s' = stackAddress (pcbs s x) + stackSize (pcbs s x)"
proof -
  obtain rs ss where rel: "sched_rel s rs ss" using assms(1) by (auto elim: sched_okE)
  with assms(2) have "sched_rel s (x # xs) ss" by (simp add: asched_of_rel [OF rel])
  from timeoutSchedule_rel [OF this] show ?thesis by metis
qed

theorem slice_saves_and_loads_witness:
  "\<exists>s'. timeoutSchedule booted = Some s' \<and> ctx (pcbs s' (pcbAddr 0)) = ist booted \<and>
    ist s' = ctx (pcbs booted (pcbAddr 1))"
  using slice_saves_and_loads [OF booted_ok, of "pcbAddr 1" "[]"] by (auto simp: asched_booted booted_eq)

section \<open>Creation\<close>




text \<open>What a new process starts with: the entry point, its argument in the first argument
  register, ring 0 segments, interrupts on, and the top of a stack that overlaps no other
  process's stack.\<close>

theorem new_process_context:
  assumes "pid < PROCESS_MAXCOUNT" and "length (ctx b) = 24"
  shows "(let r = ctx (created pid entryPoint arg b) in
      r ! REG_RIP = entryPoint \<and> r ! REG_RDI = arg \<and> r ! REG_CS = CODE_DESCRIPTOR_OFFSET \<and>
      r ! REG_SS = DATA_DESCRIPTOR_OFFSET \<and> r ! REG_RFLAGS AND RFLAGS_IF = RFLAGS_IF \<and>
      unat (r ! REG_RSP) = PROCESS_STACK_BASE + PROCESS_STACK_INTERVAL * pid + PROCESS_STACK_SIZE) \<and>
    (\<forall>pid' < PROCESS_MAXCOUNT. pid' \<noteq> pid \<longrightarrow>
      {PROCESS_STACK_BASE + PROCESS_STACK_INTERVAL * pid ..<
         PROCESS_STACK_BASE + PROCESS_STACK_INTERVAL * pid + PROCESS_STACK_SIZE} \<inter>
      {PROCESS_STACK_BASE + PROCESS_STACK_INTERVAL * pid' ..<
         PROCESS_STACK_BASE + PROCESS_STACK_INTERVAL * pid' + PROCESS_STACK_SIZE} = {})"
proof (intro conjI allI impI)
  have top: "unat (stack_top pid) = PROCESS_STACK_BASE + PROCESS_STACK_INTERVAL * pid + PROCESS_STACK_SIZE"
  proof -
    let ?n = "PROCESS_STACK_BASE + PROCESS_STACK_INTERVAL * pid + PROCESS_STACK_SIZE"
    have "?n < 2 ^ 64" using assms(1) by (simp add: memory_map_defs PROCESS_MAXCOUNT_def)
    then have "unat (word_of_nat ?n :: QWORD) = ?n" unfolding unat_of_nat by simp
    then show ?thesis by (simp add: stack_top_def)
  qed
  have flags: "(w OR RFLAGS_IF) AND RFLAGS_IF = RFLAGS_IF" for w
    by (rule bit_word_eqI) (auto simp: bit_simps)
  show "let r = ctx (created pid entryPoint arg b) in
      r ! REG_RIP = entryPoint \<and> r ! REG_RDI = arg \<and> r ! REG_CS = CODE_DESCRIPTOR_OFFSET \<and>
      r ! REG_SS = DATA_DESCRIPTOR_OFFSET \<and> r ! REG_RFLAGS AND RFLAGS_IF = RFLAGS_IF \<and>
      unat (r ! REG_RSP) = PROCESS_STACK_BASE + PROCESS_STACK_INTERVAL * pid + PROCESS_STACK_SIZE"
    unfolding Let_def by (subst (1 2 3 4 5 6) created_nth [OF assms(2)])
      (simp_all add: reg_defs top flags)
next
  fix pid' assume "pid' < PROCESS_MAXCOUNT" "pid' \<noteq> pid"
  then show "{PROCESS_STACK_BASE + PROCESS_STACK_INTERVAL * pid ..<
         PROCESS_STACK_BASE + PROCESS_STACK_INTERVAL * pid + PROCESS_STACK_SIZE} \<inter>
      {PROCESS_STACK_BASE + PROCESS_STACK_INTERVAL * pid' ..<
         PROCESS_STACK_BASE + PROCESS_STACK_INTERVAL * pid' + PROCESS_STACK_SIZE} = {}"
    by (auto simp: memory_map_defs)
qed

theorem new_process_context_witness:
  "(let r = ctx (created 3 0x5000 9 (pcbs power_on (pcbAddr 3))) in
      r ! REG_RIP = 0x5000 \<and> r ! REG_RDI = 9 \<and> unat (r ! REG_RSP) = 0x200B000)"
  using new_process_context [of 3 "pcbs power_on (pcbAddr 3)" "0x5000" 9]
  by (simp add: power_on_def Let_def PROCESS_MAXCOUNT_def memory_map_defs)

text \<open>A slot that is used again keeps the previous process's general registers and flags:
  every register that creation does not assign is the one left in the PCB.\<close>

theorem recycled_registers_leak:
  assumes "length (ctx b) = 24" and "i \<in> {4 ..< 9} \<union> {11 ..< 19}"
  shows "ctx (created pid entryPoint arg b) ! i = ctx b ! i \<and>
    ctx (created pid entryPoint arg b) ! REG_RFLAGS = ctx b ! REG_RFLAGS OR RFLAGS_IF"
proof -
  have "i < 24" "i \<notin> {REG_RDI, REG_RFLAGS, REG_RBP, REG_RSP, REG_RIP, REG_CS, REG_GS, REG_FS, REG_ES, REG_DS, REG_SS}"
    using assms(2) by (auto simp: reg_defs)
  then show ?thesis
    using created_nth [OF assms(1), of i pid entryPoint arg] created_nth [OF assms(1), of REG_RFLAGS pid entryPoint arg]
    by (simp add: reg_defs)
qed

theorem recycled_registers_leak_witness:
  "ctx (created 3 0x5000 9 \<lparr>pageTableAddress = 0, stackSize = 0, stackAddress = 0, pstate = PROCESS_STATE_EXIT,
      wakeupTick = 0, ctx = replicate 24 0x77\<rparr>) ! 18 = 0x77"
  using recycled_registers_leak [of "\<lparr>pageTableAddress = 0, stackSize = 0, stackAddress = 0,
      pstate = PROCESS_STATE_EXIT, wakeupTick = 0, ctx = replicate 24 0x77\<rparr>" 18 3 "0x5000" 9]
  by simp

section \<open>User processes\<close>

text \<open>\<^verbatim>\<open>runUserProgram\<close> refuses an image larger than the code region without any
  effect; otherwise it queues a new process that starts in ring 3 at the code address, on the top
  of its own user stack, with its argument.\<close>

theorem run_user_program_step:
  assumes "sched_ok s" and "\<exists>k < PROCESS_MAXCOUNT. allocProcessTable s ! k \<noteq> 1"
    and "\<forall>p. length (ctx (pcbs s p)) = 24"
  shows "if unat sz > USER_CODE_SIZE then runUserProgram img sz arg s = Some (NULL, s)
    else \<exists>pid s'. runUserProgram img sz arg s = Some (pcbAddr pid, s') \<and> sched_ok s' \<and>
      allocProcessTable s ! pid = 0 \<and> allocProcessTable s' = (allocProcessTable s)[pid := 1] \<and>
      ram s' = memcpy (ram s) USER_CODE_ADDRESS img (int_of_qword sz) \<and>
      last (a_ready (asched_of s')) = pcbAddr pid \<and>
      (let r = ctx (pcbs s' (pcbAddr pid)) in
         r ! REG_RIP = word_of_nat USER_CODE_ADDRESS \<and> r ! REG_RDI = arg \<and>
         r ! REG_CS AND 3 = 3 \<and> r ! REG_SS AND 3 = 3 \<and>
         r ! REG_RSP = word_of_nat (userStack pid + USER_STACK_SIZE))"
proof (cases "unat sz > USER_CODE_SIZE")
  case True
  then show ?thesis by (simp add: runUserProgram_def)
next
  case False
  obtain rs ss where rel: "sched_rel s rs ss" using assms(1) by (auto elim: sched_okE)
  from False have "unat sz \<le> USER_CODE_SIZE" by simp
  from runUserProgram_rel [OF rel assms(2) this, where img = img and arg = arg]
  obtain pid s' where c: "runUserProgram img sz arg s = Some (pcbAddr pid, s')"
    "sched_rel s' (rs @ [pcbAddr pid]) ss" "pid < PROCESS_MAXCOUNT" "allocProcessTable s ! pid = 0"
    "allocProcessTable s' = (allocProcessTable s)[pid := 1]"
    "pcbs s' = (pcbs s)(pcbAddr pid := ctx_update (userContext (userStack pid))
       (created pid (word_of_nat USER_CODE_ADDRESS) arg (pcbs s (pcbAddr pid))))"
    "ram s' = memcpy (ram s) USER_CODE_ADDRESS img (int_of_qword sz)" by blast
  have len: "length (ctx (pcbs s (pcbAddr pid))) = 24" using assms(3) by simp
  let ?c = "ctx (created pid (word_of_nat USER_CODE_ADDRESS) arg (pcbs s (pcbAddr pid)))"
  have "length ?c = 24" using len by (simp add: created_ctx)
  then have "let r = userContext (userStack pid) ?c in
      r ! REG_RIP = word_of_nat USER_CODE_ADDRESS \<and> r ! REG_RDI = arg \<and>
      r ! REG_CS AND 3 = 3 \<and> r ! REG_SS AND 3 = 3 \<and>
      r ! REG_RSP = word_of_nat (userStack pid + USER_STACK_SIZE)"
    using created_nth [OF len, of REG_RIP] created_nth [OF len, of REG_RDI]
    by (simp add: userContext_def Let_def reg_defs nth_list_update USER_CODE_DESCRIPTOR_OFFSET_def
        USER_DATA_DESCRIPTOR_OFFSET_def RPL_USER_def)
  with c False sched_okI [OF c(2)] show ?thesis by (simp add: asched_of_rel [OF c(2)])
qed

lemma sched_rel_pcbs:
  assumes "\<And>p. pstate (f p) = pstate (pcbs s p)"
  shows "sched_rel (s\<lparr>pcbs := f\<rparr>) rs ss = sched_rel s rs ss"
  using assms by (simp add: sched_rel_def core_of_def srep_def state_of_def [abs_def])

definition booted_clear :: "unit proc" where
  "booted_clear = booted\<lparr>pcbs := \<lambda>p. (pcbs booted p)\<lparr>ctx := replicate 24 0\<rparr>\<rparr>"

theorem run_user_program_step_witness:
  "(\<exists>pid s'. runUserProgram 0x8000 0x400 7 booted_clear = Some (pcbAddr pid, s') \<and> boot_table ! pid = 0 \<and>
     last (a_ready (asched_of s')) = pcbAddr pid \<and> ctx (pcbs s' (pcbAddr pid)) ! REG_CS AND 3 = 3) \<and>
   runUserProgram 0x8000 0x100001 7 booted_clear = Some (NULL, booted_clear)"
proof -
  have "sched_rel booted_clear [pcbAddr 1] []"
    using booted_eq(2) by (simp add: booted_clear_def sched_rel_pcbs)
  then have ok: "sched_ok booted_clear" by (rule sched_okI)
  have al: "allocProcessTable booted_clear = boot_table" by (simp add: booted_clear_def booted_eq(6))
  have "\<exists>k < PROCESS_MAXCOUNT. allocProcessTable booted_clear ! k \<noteq> 1"
    by (rule exI [of _ 3]) (simp add: al boot_table_nth PROCESS_MAXCOUNT_def)
  moreover have "\<forall>p. length (ctx (pcbs booted_clear p)) = 24" by (simp add: booted_clear_def)
  ultimately show ?thesis
    using run_user_program_step [OF ok, where img = "0x8000" and sz = "0x400" and arg = 7]
      run_user_program_step [OF ok, where img = "0x8000" and sz = "0x100001" and arg = 7]
    by (auto simp: al USER_CODE_SIZE_def Let_def)
qed

section \<open>Exit\<close>

text \<open>C8: \<^verbatim>\<open>exitProcess\<close> takes the process off the processor for good: it is in state
  EXIT, in no list, and the next ready process (or the idle one) runs; the collector is woken if
  it was blocked. Its pid goes to the end of the exit queue unless 99 exits are pending: then
  nothing records it, and its slot stays marked as used.\<close>

theorem exit_process_step:
  assumes "sched_ok s" and "runningProcess s = pcbAddr pid" "pid < PROCESS_MAXCOUNT" "pid \<noteq> 0"
    and "pcbAddr pid \<noteq> idleProcess s" "pcbAddr pid \<noteq> collectorProcess s"
  shows "\<exists>s'. exitProcess s = Some s' \<and> sched_ok s' \<and>
    state_of s' (pcbAddr pid) = PROCESS_STATE_EXIT \<and> runningProcess s' \<noteq> pcbAddr pid \<and>
    pcbAddr pid \<notin> set (a_ready (asched_of s')) \<and> pcbAddr pid \<notin> fst ` set (a_sleep (asched_of s')) \<and>
    asched_of s' = a_dispatch (idleProcess s) ((asched_of s)\<lparr>a_ready := a_ready (asched_of s) @
      (if state_of s (collectorProcess s) = PROCESS_STATE_BLOCKED then [collectorProcess s] else [])\<rparr>) \<and>
    exit_pids (exitProcessQueue s') = exit_pids (exitProcessQueue s) @
      (if length (exit_pids (exitProcessQueue s)) < 99 then [int pid] else []) \<and>
    allocProcessTable s' ! pid = 1"
proof -
  obtain rs ss where rel: "sched_rel s rs ss" using assms(1) by (auto elim: sched_okE)
  let ?rs = "rs @ (if state_of s (collectorProcess s) = PROCESS_STATE_BLOCKED then [collectorProcess s] else [])"
  show ?thesis
  proof (rule exitProcess_rel [OF rel assms(2,3,5,6,4)], goal_cases)
    case (1 s')
    note R' = sched_relD [OF 1(2)]
    have "runningProcess s' \<noteq> pcbAddr pid" using coreD(5) [OF R'(2)] 1(4) by auto
    moreover have "pcbAddr pid \<notin> set (tl ?rs)" using coreD(1) [OF R'(2), of "pcbAddr pid"] 1(4) by simp
    moreover have "pcbAddr pid \<notin> set ss" using coreD(3) [OF R'(2), of "pcbAddr pid"] 1(4) by auto
    moreover have "asched_of s' = a_dispatch (idleProcess s) ((asched_of s)\<lparr>a_ready := ?rs\<rparr>)"
      unfolding asched_of_rel [OF 1(2)] asched_of_rel [OF rel] 1(3,10)
      by (cases ?rs) (simp_all add: a_dispatch_def next_proc_def)
    moreover have "allocProcessTable s' ! pid = 1"
      using coreD(4) [OF sched_relD(2) [OF rel]] assms(2) 1(6) by simp
    moreover have "a_ready (asched_of s') = tl ?rs" "fst ` set (a_sleep (asched_of s')) = set ss"
      unfolding asched_of_rel [OF 1(2)] by (simp_all add: image_image)
    ultimately show ?case using 1(1,4,5) sched_okI [OF 1(2)]
      by (simp add: asched_of_rel [OF rel])
  qed
qed

text \<open>A process created after boot runs after two time slices.\<close>

lemma third_process_runs:
  "\<exists>(s :: unit proc) pid. sched_ok s \<and> runningProcess s = pcbAddr pid \<and> pid < PROCESS_MAXCOUNT \<and> pid \<noteq> 0 \<and>
     pcbAddr pid \<noteq> idleProcess s \<and> pcbAddr pid \<noteq> collectorProcess s \<and> exit_pids (exitProcessQueue s) = []"
proof -
  have free: "\<exists>k < PROCESS_MAXCOUNT. allocProcessTable booted ! k \<noteq> 1"
    by (rule exI [of _ 3]) (simp add: booted_eq(6) boot_table_nth PROCESS_MAXCOUNT_def)
  obtain pid and s1 :: "unit proc" where c': "sched_rel s1 ([pcbAddr 1] @ [pcbAddr pid]) []" "pid < PROCESS_MAXCOUNT"
    "allocProcessTable booted ! pid = 0" "idleProcess s1 = idleProcess booted"
    "collectorProcess s1 = collectorProcess booted" "exitProcessQueue s1 = exitProcessQueue booted"
    using createProcess_rel [OF booted_eq(2) free, where entryPoint = 0 and arg = 0] by blast
  note c = c' [unfolded booted_eq]
  then have ok: "sched_ok s1" and A: "a_ready (asched_of s1) = [pcbAddr 1, pcbAddr pid]"
    using sched_okI [OF c(1)] by (simp_all add: asched_of_rel [OF c(1)])
  obtain s2 :: "unit proc" where s2: "sched_ok s2" "idleProcess s2 = pcbAddr 2" "collectorProcess s2 = pcbAddr 1"
    "exitProcessQueue s2 = exitProcessQueue booted"
    "asched_of s2 = a_ticks (pcbAddr 2) (Suc 1) (tickCount s1) (asched_of s1)"
    using ticks_refine [OF ok, of null_io 32 "Suc 1"] c(4-6) by auto
  have "a_run (asched_of s2) = pcbAddr pid"
    unfolding s2(5) using a_ticks_fair [of 1 "asched_of s1"] A by simp
  then have "runningProcess s2 = pcbAddr pid" by (simp add: asched_of_def)
  moreover have "pid \<noteq> 0" "pid \<noteq> 1" "pid \<noteq> 2"
    using c(2,3) boot_table_nth [of pid] by (auto split: if_splits)
  ultimately show ?thesis using s2 c(2) booted_eq(7) by (intro exI [of _ s2] exI [of _ pid]) simp
qed

theorem exit_process_step_witness:
  "\<exists>(s :: unit proc) pid s'. exitProcess s = Some s' \<and> runningProcess s = pcbAddr pid \<and>
    state_of s' (pcbAddr pid) = PROCESS_STATE_EXIT \<and> exit_pids (exitProcessQueue s') = [int pid]"
proof -
  obtain s :: "unit proc" and pid where s: "sched_ok s" "runningProcess s = pcbAddr pid" "pid < PROCESS_MAXCOUNT"
    "pid \<noteq> 0" "pcbAddr pid \<noteq> idleProcess s" "pcbAddr pid \<noteq> collectorProcess s"
    "exit_pids (exitProcessQueue s) = []" using third_process_runs by blast
  from exit_process_step [OF s(1-6)] obtain s' where "exitProcess s = Some s'"
    "state_of s' (pcbAddr pid) = PROCESS_STATE_EXIT" "exit_pids (exitProcessQueue s') = [int pid]"
    using s(7) by auto
  with s(2) show ?thesis by blast
qed

text \<open>C9: One turn of the collector with a pending exit frees the slot of the oldest exited
  process and takes its two user-stack pages from ring 3; the scheduler's invariant and its lists
  are untouched, so no live process loses its slot.\<close>

theorem collector_reclaims:
  assumes "sched_ok s" and "exit_pids (exitProcessQueue s) = i # is"
  shows "\<exists>s' pid. collectorTurn preIf s = Some (True, s') \<and> sched_ok s' \<and> int pid = i \<and>
    pid < PROCESS_MAXCOUNT \<and> state_of s (pcbAddr pid) = PROCESS_STATE_EXIT \<and>
    allocProcessTable s' = (allocProcessTable s)[pid := 0] \<and> asched_of s' = asched_of s \<and>
    exit_pids (exitProcessQueue s') = is \<and>
    (\<forall>k \<in> {userStack pid div 0x1000, userStack pid div 0x1000 + 1}. pte s' k AND PAGE_FLAG_US = 0)"
proof -
  obtain rs ss where rel: "sched_rel s rs ss" using assms(1) by (auto elim: sched_okE)
  from collectorTurn_rel [OF rel assms(2), where preIf = preIf]
  obtain s' pid where c: "collectorTurn preIf s = Some (True, s')" "sched_rel s' rs ss" "int pid = i"
    "allocProcessTable s' = (allocProcessTable s)[pid := 0]"
    "exit_pids (exitProcessQueue s') = is" "runningProcess s' = runningProcess s" "pid < PROCESS_MAXCOUNT"
    "pcbs s' = pcbs s"
    "\<And>k. pte s' k = (let w = (if userStack pid div 0x1000 \<le> k \<and> k < userStack pid div 0x1000 + 2
         then pte s k AND NOT PAGE_FLAG_US else pte s k)
       in if k = KERNEL_SIZE + pid * 2 then w AND NOT PAGE_FLAG_P else w)" by blast
  have "(w AND NOT PAGE_FLAG_US) AND PAGE_FLAG_US = 0" for w
    by (rule bit_word_eqI) (auto simp: bit_simps)
  moreover have "((w AND NOT PAGE_FLAG_US) AND NOT PAGE_FLAG_P) AND PAGE_FLAG_US = 0" for w
    by (rule bit_word_eqI) (auto simp: bit_simps)
  ultimately have "\<forall>k \<in> {userStack pid div 0x1000, userStack pid div 0x1000 + 1}. pte s' k AND PAGE_FLAG_US = 0"
    by (auto simp: c(9) Let_def)
  moreover have "state_of s (pcbAddr pid) = PROCESS_STATE_EXIT"
    using sched_relD(4) [OF rel] assms(2) c(3) by (auto simp: exitq_ok_def)
  ultimately show ?thesis
    using c sched_okI [OF c(2)] by (intro exI [of _ s'] exI [of _ pid])
      (simp add: asched_of_rel [OF c(2)] asched_of_rel [OF rel])
qed

lemma one_exit_pending:
  "\<exists>s pid. sched_ok (s :: unit proc) \<and> exit_pids (exitProcessQueue s) = [int pid]"
proof -
  obtain s :: "unit proc" and pid where s: "sched_ok s" "runningProcess s = pcbAddr pid" "pid < PROCESS_MAXCOUNT"
    "pid \<noteq> 0" "pcbAddr pid \<noteq> idleProcess s" "pcbAddr pid \<noteq> collectorProcess s"
    "exit_pids (exitProcessQueue s) = []" using third_process_runs by blast
  obtain rs ss where rel: "sched_rel s rs ss" using s(1) by (auto elim: sched_okE)
  show ?thesis
    by (rule exitProcess_rel [OF rel s(2,3,5,6,4)]) (use s(7) in \<open>auto intro!: exI sched_okI\<close>)
qed

theorem collector_reclaims_witness:
  "\<exists>(s :: unit proc) s' pid. collectorTurn True s = Some (True, s') \<and> exit_pids (exitProcessQueue s) = [int pid] \<and>
    allocProcessTable s' = (allocProcessTable s)[pid := 0] \<and> exit_pids (exitProcessQueue s') = []"
proof -
  obtain s :: "unit proc" and pid where s: "sched_ok s" "exit_pids (exitProcessQueue s) = [int pid]"
    using one_exit_pending by blast
  obtain s' pid' where "collectorTurn True s = Some (True, s')" "int pid' = int pid"
    "allocProcessTable s' = (allocProcessTable s)[pid' := 0]" "exit_pids (exitProcessQueue s') = []"
    using collector_reclaims [OF s, of True] by blast
  with s(2) show ?thesis by (intro exI [of _ s] exI [of _ s'] exI [of _ pid]) simp
qed

end
