(* ===== verification/Parking.thy ===== *)
theory Parking
  imports Lifecycle
begin

text \<open>
  Parked processes: blocked, but neither asleep nor the collector. They wait for another process
  (on a mutex, for a key) and sit in lists of their own, whose nodes the scheduler must not touch:
  every scheduling operation keeps them parked and leaves their nodes alone, except the one that
  wakes them. This is what the clients of the scheduler rely on.
\<close>

definition parked :: "('d, 'z) proc_scheme \<Rightarrow> ptr \<Rightarrow> bool" where
  "parked s p \<longleftrightarrow> live (allocProcessTable s) p \<and> state_of s p = PROCESS_STATE_BLOCKED \<and>
     p \<notin> set (elems (nodes s) (sleepList s)) \<and> p \<noteq> collectorProcess s"

definition keeps_parked :: "ptr set \<Rightarrow> ('d, 'z) proc_scheme \<Rightarrow> ('d, 'z) proc_scheme \<Rightarrow> bool" where
  "keeps_parked W s s' \<longleftrightarrow> (\<forall>p. parked s p \<and> p \<notin> W \<longrightarrow> parked s' p \<and> nodes s' p = nodes s p)"

lemma keeps_parked_refl: "keeps_parked {} s s"
  by (simp add: keeps_parked_def)

lemma keeps_parked_trans:
  "keeps_parked {} s s' \<Longrightarrow> keeps_parked {} s' s'' \<Longrightarrow> keeps_parked {} s s''"
  by (simp add: keeps_parked_def)

lemma keeps_parkedD: "keeps_parked W s s' \<Longrightarrow> parked s p \<Longrightarrow> p \<notin> W \<Longrightarrow> parked s' p \<and> nodes s' p = nodes s p"
  by (simp add: keeps_parked_def)

lemma parked_rel:
  "sched_rel s rs ss \<Longrightarrow> parked s p \<longleftrightarrow> live (allocProcessTable s) p \<and> state_of s p = PROCESS_STATE_BLOCKED \<and>
     p \<notin> set ss \<and> p \<noteq> collectorProcess s"
  by (simp add: parked_def sched_rel_lists)

lemma parked_fresh:
  assumes "sched_rel s rs ss" and "parked s p"
  shows "p \<notin> set rs" "p \<notin> set ss" "p \<noteq> runningProcess s" "p \<noteq> idleProcess s" "p \<noteq> NULL"
    "live (allocProcessTable s) p" "p \<noteq> collectorProcess s"
proof -
  note core = sched_relD(2) [OF assms(1)]
  have p: "live (allocProcessTable s) p" "state_of s p = PROCESS_STATE_BLOCKED" "p \<notin> set ss"
    "p \<noteq> collectorProcess s"
    using assms(2) unfolding parked_rel [OF assms(1)] by auto
  then show "p \<notin> set ss" "live (allocProcessTable s) p" "p \<noteq> collectorProcess s" "p \<noteq> NULL"
    using live_not_NULL by blast+
  show "p \<notin> set rs" using coreD(1) [OF core, of p] p(2) by simp
  show "p \<noteq> runningProcess s" "p \<noteq> idleProcess s" using coreD(5,7) [OF core] p(2) by auto
qed

lemma keeps_parkedI:
  assumes rel: "sched_rel s rs ss" and rel': "sched_rel s' rs' ss'"
    and sub: "set ss' \<subseteq> insert (runningProcess s) (set ss)"
    and fr: "collectorProcess s' = collectorProcess s"
    and al: "\<And>p. p \<notin> W \<Longrightarrow> live (allocProcessTable s) p \<Longrightarrow> state_of s p = PROCESS_STATE_BLOCKED \<Longrightarrow> live (allocProcessTable s') p"
    and out: "same_outside (nodes s) (nodes s') A"
    and A: "A \<subseteq> W \<union> set rs \<union> set ss \<union> {runningProcess s, idleProcess s, collectorProcess s} \<union> {p. \<not> live (allocProcessTable s) p}"
    and st: "\<And>p. parked s p \<Longrightarrow> p \<notin> W \<Longrightarrow> state_of s' p = state_of s p"
  shows "keeps_parked W s s'"
  unfolding keeps_parked_def
proof (intro allI impI, elim conjE)
  fix p assume p: "parked s p" "p \<notin> W"
  note f = parked_fresh [OF rel p(1)]
  have "p \<notin> A" using A f p(2) by blast
  then have "nodes s' p = nodes s p" using out by (simp add: same_outside_def)
  moreover have "parked s' p"
    unfolding parked_rel [OF rel'] using p st [OF p] al [OF p(2)] sub f fr
    by (auto simp: parked_rel [OF rel])
  ultimately show "parked s' p \<and> nodes s' p = nodes s p" by simp
qed

section \<open>Each operation keeps the parked processes\<close>

lemma block_parks:
  assumes "sched_ok s" and "runningProcess s \<noteq> idleProcess s"
  obtains s' where "blockRunningProcess s = Some s'" "sched_ok s'"
    "asched_of s' = a_dispatch (idleProcess s) (asched_of s)" "sched_frame s s'"
    "keeps_parked {} s s'" "runningProcess s \<noteq> collectorProcess s \<Longrightarrow> parked s' (runningProcess s)"
    "nodes s' (runningProcess s) = nodes s (runningProcess s)"
proof -
  obtain rs ss where rel: "sched_rel s rs ss" using assms(1) by (auto elim: sched_okE)
  note R = sched_relD [OF rel]
  let ?d = "\<lambda>h l. dispatched (next_proc s rs) h l (set_state (runningProcess s) PROCESS_STATE_BLOCKED s)"
  obtain h l where *: "blockRunningProcess s = Some (?d h l)" "sched_rel (?d h l) (tl rs) ss"
    "keeps_ids (nodes s) h" "same_outside (nodes s) h (set rs)"
    using blockRunningProcess_rel [OF rel assms(2)] by metis
  obtain s' where s': "blockRunningProcess s = Some s'" "sched_ok s'"
    "asched_of s' = a_dispatch (idleProcess s) (asched_of s)" "sched_frame s s'"
    using block_refines [OF assms] by metis
  then have eq: "s' = ?d h l" using *(1) by simp
  have nx: "next_proc s rs = idleProcess s \<or> next_proc s rs \<in> set rs"
    by (cases rs) (auto simp: next_proc_def)
  have fresh: "runningProcess s \<notin> set rs" "runningProcess s \<notin> set ss"
    using core_running_fresh [OF R(2)] by auto
  have "keeps_parked {} s s'"
    unfolding eq
  proof (rule keeps_parkedI [OF rel *(2) _ _ _ _ _])
    show "same_outside (nodes s) (nodes (?d h l)) (set rs)" using *(4) by simp
    show "state_of (?d h l) p = state_of s p" if "parked s p" for p
      using parked_fresh [OF rel that] nx by auto
  qed auto
  moreover have "parked s' (runningProcess s)" if "runningProcess s \<noteq> collectorProcess s"
    unfolding eq parked_rel [OF *(2)] using that fresh nx assms(2) coreD(4) [OF R(2)] by auto
  moreover have "nodes s' (runningProcess s) = nodes s (runningProcess s)"
    unfolding eq using *(4) fresh by (simp add: same_outside_def)
  ultimately show thesis using s' by (intro that [of s']) auto
qed

lemma wakeup_parks:
  assumes "sched_ok s" and "live (allocProcessTable s) p" "state_of s p = PROCESS_STATE_BLOCKED"
  obtains s' where "wakeupProcess p s = Some (True, s')" "sched_ok s'"
    "asched_of s' = a_wake p (asched_of s)" "sched_frame s s'" "keeps_parked {p} s s'"
    "state_of s' = (state_of s)(p := PROCESS_STATE_READY)"
proof -
  obtain rs ss where rel: "sched_rel s rs ss" using assms(1) by (auto elim: sched_okE)
  obtain s' where s': "wakeupProcess p s = Some (True, s')" "sched_ok s'"
    "asched_of s' = a_wake p (asched_of s)" "sched_frame s s'"
    "same_outside (nodes s) (nodes s') (insert p (set (a_ready (asched_of s)) \<union> fst ` set (a_sleep (asched_of s))))"
    "state_of s' = (state_of s)(p := PROCESS_STATE_READY)"
    using wakeup_refines [OF assms] by metis
  have "sched_rel s' (rs @ [p]) (remove1 p ss)"
    using wakeup_rel [OF rel assms(2,3)] s'(1) by (metis option.inject prod.inject)
  note fr = sched_frame_sel [OF s'(4)]
  have "keeps_parked {p} s s'"
    by (rule keeps_parkedI [OF rel \<open>sched_rel s' _ _\<close> _ _ _ s'(5)])
      (auto simp: fr asched_of_rel [OF rel] image_image s'(6) dest: notin_set_remove1)
  with s' show thesis by (intro that [of s']) auto
qed

lemma slice_parks:
  assumes "sched_ok s"
  obtains s' where "timeoutSchedule s = Some s'" "sched_ok s'"
    "asched_of s' = a_slice (idleProcess s) (asched_of s)" "sched_frame s s'" "keeps_parked {} s s'"
proof -
  obtain rs ss where rel: "sched_rel s rs ss" using assms by (auto elim: sched_okE)
  obtain s' where s': "timeoutSchedule s = Some s'" "sched_ok s'"
    "asched_of s' = a_slice (idleProcess s) (asched_of s)" "sched_frame s s'"
    using slice_refines [OF assms] by metis
  have "keeps_parked {} s s'"
  proof (cases rs)
    case Nil
    then have "s' = s" using timeoutSchedule_nil [of s ss] sched_relD(1) [OF rel] s'(1) by simp
    then show ?thesis by (simp add: keeps_parked_refl)
  next
    case (Cons x xs)
    obtain s1 where s1: "timeoutSchedule s = Some s1"
      "sched_rel s1 (if runningProcess s = idleProcess s then xs else xs @ [runningProcess s]) ss"
      "same_outside (nodes s) (nodes s1) (insert (runningProcess s) (set (x # xs)))"
      "\<And>q. q \<noteq> x \<Longrightarrow> q \<noteq> runningProcess s \<Longrightarrow> state_of s1 q = state_of s q"
      using timeoutSchedule_rel [OF rel [unfolded Cons]] by blast
    then have eq: "s' = s1" using s'(1) by simp
    note fr = sched_frame_sel [OF s'(4)]
    show ?thesis
      unfolding eq
    proof (rule keeps_parkedI [OF rel s1(2) _ _ _ s1(3)])
      show "state_of s1 p = state_of s p" if "parked s p" for p
        using parked_fresh [OF rel that] s1(4) Cons by auto
    qed (use fr Cons in \<open>auto simp: eq\<close>)
  qed
  with s' show thesis by (intro that [of s']) auto
qed

lemma expire_parks:
  assumes "sched_ok s"
  obtains s' where "wakeExpiredProcess s = Some s'" "sched_ok s'"
    "asched_of s' = a_expire (tickCount s) (asched_of s)" "sched_frame s s'" "keeps_parked {} s s'"
proof -
  obtain rs ss where rel: "sched_rel s rs ss" using assms by (auto elim: sched_okE)
  obtain s' where s': "wakeExpiredProcess s = Some s'" "sched_ok s'"
    "asched_of s' = a_expire (tickCount s) (asched_of s)" "sched_frame s s'"
    using expire_refines [OF assms] by metis
  note fr = sched_frame_sel [OF s'(4)]
  have "keeps_parked {} s s'"
  proof (rule wakeExpired_rel [OF rel], goal_cases)
    case (1 s1)
    then have eq: "s1 = s'" using s'(1) by simp
    note s1 = 1(2,7,8) [unfolded eq]
    show ?case
    proof (rule keeps_parkedI [OF rel s1(1) _ _ _ s1(2)])
      show "state_of s' p = state_of s p" if "parked s p" for p
        using parked_fresh(2) [OF rel that] by (rule s1(3))
    qed (use fr in auto)
  qed
  with s' show thesis by (intro that [of s']) auto
qed

lemma parked_cong:
  "nodes s' = nodes s \<Longrightarrow> pcbs s' = pcbs s \<Longrightarrow> sleepList s' = sleepList s \<Longrightarrow>
   allocProcessTable s' = allocProcessTable s \<Longrightarrow> collectorProcess s' = collectorProcess s \<Longrightarrow>
   parked s' p = parked s p"
  by (simp add: parked_def state_of_def)

lemma timer_parks:
  assumes "sched_ok s"
  obtains s' where "timerInterruptHandler io v s = Some s'" "sched_ok s'"
    "asched_of s' = a_slice (idleProcess s) (a_expire (tickCount s + 1) (asched_of s))"
    "keeps_parked {} s s'" "idleProcess s' = idleProcess s" "collectorProcess s' = collectorProcess s"
    "allocProcessTable s' = allocProcessTable s" "proc.more s' = proc.more s"
    "\<And>p. nid (nodes s' p) = nid (nodes s p)"
proof -
  obtain rs ss where rel: "sched_rel s rs ss" using assms by (auto elim: sched_okE)
  obtain d where d: "snd (sendEOI io (v - IRQ_START_OFFSET) (s\<lparr>tickCount := tickCount s + 1\<rparr>)) =
      s\<lparr>tickCount := tickCount s + 1, dev := d\<rparr>" (is "_ = ?s")
    using sendEOI_frame [of io "v - IRQ_START_OFFSET" "s\<lparr>tickCount := tickCount s + 1\<rparr>"] by auto
  have "sched_rel ?s rs ss" using rel by simp
  then have ok: "sched_ok ?s" and A: "asched_of ?s = asched_of s"
    using asched_of_rel [OF rel] by (auto simp: asched_of_rel intro: sched_okI)
  obtain s1 where s1: "wakeExpiredProcess ?s = Some s1" "sched_ok s1"
    "asched_of s1 = a_expire (tickCount ?s) (asched_of ?s)" "sched_frame ?s s1" "keeps_parked {} ?s s1"
    using expire_parks [OF ok] by metis
  obtain s2 where s2: "timeoutSchedule s1 = Some s2" "sched_ok s2"
    "asched_of s2 = a_slice (idleProcess s1) (asched_of s1)" "sched_frame s1 s2" "keeps_parked {} s1 s2"
    using slice_parks [OF s1(2)] by metis
  note fr = sched_frame_sel [OF sched_frame_trans [OF s1(4) s2(4)]] sched_frame_sel(1) [OF s1(4)]
  have "timerInterruptHandler io v s = Some s2"
    unfolding timerInterruptHandler_def Let_def d using s1(1) s2(1) by simp
  moreover have "parked ?s p = parked s p" for p by (rule parked_cong) simp_all
  then have "keeps_parked {} s s2"
    using keeps_parked_trans [OF s1(5) s2(5)] by (simp add: keeps_parked_def)
  ultimately show thesis using s1 s2 fr A by (intro that [of s2]) simp_all
qed

lemma sleep_parks:
  assumes "sched_ok s" and "runningProcess s \<noteq> idleProcess s" "runningProcess s \<noteq> collectorProcess s"
  obtains s' where "sleepUntilTick t s = Some s'" "sched_ok s'"
    "asched_of s' = a_sleep_until t (idleProcess s) (asched_of s)" "sched_frame s s'" "keeps_parked {} s s'"
proof -
  let ?run = "runningProcess s"
  obtain rs ss where rel: "sched_rel s rs ss" using assms(1) by (auto elim: sched_okE)
  note R = sched_relD [OF rel]
  let ?d = "\<lambda>h l sl. dispatched (next_proc s rs) h l
        (set_state ?run PROCESS_STATE_BLOCKED (upd_pcb ?run (wakeupTick_update (\<lambda>_. t)) s
            \<lparr>nodes := fst (insertList (nodes s) (sleepList s) ?run), sleepList := sl\<rparr>))"
  obtain h l sl where *: "sleepUntilTick t s = Some (?d h l sl)"
    "sched_rel (?d h l sl) (tl rs) (ss @ [?run])"
    "same_outside (nodes s) h (set rs \<union> insert ?run (set ss))"
    using sleepUntilTick_rel [OF rel assms(2,3)] by metis
  obtain s' where s': "sleepUntilTick t s = Some s'" "sched_ok s'"
    "asched_of s' = a_sleep_until t (idleProcess s) (asched_of s)" "sched_frame s s'"
    using sleep_refines [OF assms] by metis
  then have eq: "s' = ?d h l sl" using *(1) by simp
  have nx: "next_proc s rs = idleProcess s \<or> next_proc s rs \<in> set rs"
    by (cases rs) (auto simp: next_proc_def)
  note fr = sched_frame_sel [OF s'(4)]
  have "keeps_parked {} s s'"
    unfolding eq
  proof (rule keeps_parkedI [OF rel *(2)])
    show "same_outside (nodes s) (nodes (?d h l sl)) (set rs \<union> insert ?run (set ss))" using *(3) by simp
    show "state_of (?d h l sl) p = state_of s p" if "parked s p" for p
      using parked_fresh [OF rel that] nx by (auto simp: state_of_def proc_update_defs dispatched_def)
  qed (use fr in \<open>auto simp: eq\<close>)
  with s' show thesis by (intro that [of s']) auto
qed

lemma create_parks:
  assumes "sched_ok s" and "\<exists>k < PROCESS_MAXCOUNT. allocProcessTable s ! k \<noteq> 1"
  obtains pid s' where "createProcess entryPoint arg s = Some (pcbAddr pid, s')" "sched_ok s'"
    "keeps_parked {} s s'" "runningProcess s' = runningProcess s" "idleProcess s' = idleProcess s"
    "collectorProcess s' = collectorProcess s" "proc.more s' = proc.more s"
    "allocProcessTable s ! pid = 0" "pid < PROCESS_MAXCOUNT"
proof -
  obtain rs ss where rel: "sched_rel s rs ss" using assms(1) by (auto elim: sched_okE)
  from createProcess_rel [OF rel assms(2), where entryPoint = entryPoint and arg = arg]
  obtain pid s' where c: "createProcess entryPoint arg s = Some (pcbAddr pid, s')"
    "sched_rel s' (rs @ [pcbAddr pid]) ss" "pid < PROCESS_MAXCOUNT" "allocProcessTable s ! pid = 0"
    "allocProcessTable s' = (allocProcessTable s)[pid := 1]"
    "pcbs s' = (pcbs s)(pcbAddr pid := created pid entryPoint arg (pcbs s (pcbAddr pid)))"
    "runningProcess s' = runningProcess s" "idleProcess s' = idleProcess s"
    "collectorProcess s' = collectorProcess s" "proc.more s' = proc.more s"
    "same_outside (nodes s) (nodes s') (insert (pcbAddr pid) (set rs))" by blast
  have "keeps_parked {} s s'"
  proof (rule keeps_parkedI [OF rel c(2) _ _ _ c(11)])
    show "live (allocProcessTable s') p" if lv: "live (allocProcessTable s) p" for p
    proof -
      obtain k where k: "k < PROCESS_MAXCOUNT" "p = pcbAddr k" "allocProcessTable s ! k = 1"
        using lv by (auto simp: live_def)
      then have "k \<noteq> pid" using c(4) by auto
      with k show ?thesis by (simp add: c(5))
    qed
    show "state_of s' p = state_of s p" if "parked s p" for p
      using parked_fresh(6) [OF rel that] c(4) by (auto simp: state_of_def c(6))
  qed (use c in auto)
  with c show thesis by (intro that [of pid s']) (auto intro: sched_okI)
qed

lemma exit_parks:
  assumes "sched_ok s" and "runningProcess s = pcbAddr pid" "pid < PROCESS_MAXCOUNT" "pid \<noteq> 0"
    and "pcbAddr pid \<noteq> idleProcess s" "pcbAddr pid \<noteq> collectorProcess s"
  obtains s' where "exitProcess s = Some s'" "sched_ok s'" "keeps_parked {} s s'"
    "state_of s' (pcbAddr pid) = PROCESS_STATE_EXIT" "idleProcess s' = idleProcess s"
    "collectorProcess s' = collectorProcess s" "proc.more s' = proc.more s"
proof -
  obtain rs ss where rel: "sched_rel s rs ss" using assms(1) by (auto elim: sched_okE)
  let ?c = "collectorProcess s"
  let ?rs = "rs @ (if state_of s ?c = PROCESS_STATE_BLOCKED then [?c] else [])"
  show thesis
  proof (rule exitProcess_rel [OF rel assms(2,3,5,6,4)], goal_cases)
    case (1 s')
    have nx: "next_proc s ?rs \<in> insert ?c (insert (idleProcess s) (set rs))"
      by (cases rs) (auto simp: next_proc_def)
    have "keeps_parked {} s s'"
    proof (rule keeps_parkedI [OF rel 1(2) _ _ _ 1(11)])
      show "state_of s' p = state_of s p" if "parked s p" for p
        using parked_fresh [OF rel that] nx assms(2) by (intro 1(12)) auto
    qed (use 1 in auto)
    with 1 show ?case by (intro that [of s']) (auto intro: sched_okI)
  qed
qed

section \<open>Waking from an interrupt handler\<close>

lemma scheduled_not_blocked:
  assumes "sched_ok s" and "p = a_run (asched_of s) \<or> p \<in> set (a_ready (asched_of s))"
  shows "state_of s p \<noteq> PROCESS_STATE_BLOCKED"
proof -
  obtain rs ss where rel: "sched_rel s rs ss" using assms(1) by (auto elim: sched_okE)
  note core = sched_relD(2) [OF rel]
  from assms(2) have "p = runningProcess s \<or> p \<in> set rs" by (simp add: asched_of_rel [OF rel])
  then show ?thesis using coreD(1) [OF core, of p] coreD(5) [OF core] by auto
qed

lemma interrupt_wake_ignored:
  "p = NULL \<or> state_of s p \<noteq> PROCESS_STATE_BLOCKED \<Longrightarrow> wakeupProcessInInterrupt p s = Some s"
  by (auto simp: wakeupProcessInInterrupt_def wakeupProcess_def)

text \<open>Waking from an interrupt handler also ends the idle process's turn.\<close>

definition a_wake_isr :: "ptr \<Rightarrow> ptr \<Rightarrow> asched \<Rightarrow> asched" where
  "a_wake_isr idle p A = (if a_run A = idle then a_slice idle (a_wake p A) else a_wake p A)"

lemma interrupt_wake_parks:
  assumes "sched_ok s" and "live (allocProcessTable s) p" "state_of s p = PROCESS_STATE_BLOCKED"
  obtains s' where "wakeupProcessInInterrupt p s = Some s'" "sched_ok s'"
    "asched_of s' = a_wake_isr (idleProcess s) p (asched_of s)" "sched_frame s s'" "keeps_parked {p} s s'"
    "state_of s' p \<noteq> PROCESS_STATE_BLOCKED"
proof -
  obtain s1 where s1: "wakeupProcess p s = Some (True, s1)" "sched_ok s1"
    "asched_of s1 = a_wake p (asched_of s)" "sched_frame s s1" "keeps_parked {p} s s1"
    "state_of s1 = (state_of s)(p := PROCESS_STATE_READY)"
    using wakeup_parks [OF assms] by metis
  note fr = sched_frame_sel [OF s1(4)]
  have run: "a_run (asched_of s1) = a_run (asched_of s)" by (simp add: s1(3) a_wake_def)
  then have run': "runningProcess s1 = a_run (asched_of s)" by (simp add: asched_of_def)
  show thesis
  proof (cases "a_run (asched_of s) = idleProcess s")
    case False
    then show ?thesis using s1 run' fr(1)
      by (intro that [of s1]) (simp_all add: wakeupProcessInInterrupt_def a_wake_isr_def)
  next
    case True
    obtain s2 where s2: "timeoutSchedule s1 = Some s2" "sched_ok s2"
      "asched_of s2 = a_slice (idleProcess s1) (asched_of s1)" "sched_frame s1 s2" "keeps_parked {} s1 s2"
      using slice_parks [OF s1(2)] by metis
    have "live (allocProcessTable s1) p" "p \<in> set (a_ready (asched_of s1))"
      using assms(2) by (simp_all add: fr s1(3) a_wake_def)
    moreover have "set (a_ready (asched_of s1)) \<subseteq> insert (a_run (asched_of s2)) (set (a_ready (asched_of s2)))"
      using s2(3) by (auto simp: a_slice_def split: list.splits)
    ultimately have "p = a_run (asched_of s2) \<or> p \<in> set (a_ready (asched_of s2))" by blast
    then have "state_of s2 p \<noteq> PROCESS_STATE_BLOCKED"
      using scheduled_not_blocked [OF s2(2)] by blast
    moreover have "keeps_parked {p} s s2" using s1(5) s2(5) by (auto simp: keeps_parked_def)
    moreover have "wakeupProcessInInterrupt p s = Some s2"
      using s1(1) s2(1) run' fr(1) True by (simp add: wakeupProcessInInterrupt_def)
    ultimately show ?thesis using s2(2,3) s1(3) fr(1) True sched_frame_trans [OF s1(4) s2(4)]
      by (intro that [of s2]) (simp_all add: a_wake_isr_def)
  qed
qed

section \<open>The blocking interface\<close>

text \<open>
  What a client with a queue of waiting processes (a mutex, the keyboard) relies on: the running
  process can be made to wait, a waiting one can be woken, and neither disturbs the other waiters
  or the nodes their queue is made of.
\<close>

locale blocking =
  fixes ok :: "'s \<Rightarrow> bool"
    and waits :: "'s \<Rightarrow> 'p \<Rightarrow> bool"
    and current :: "'s \<Rightarrow> 'p"
    and may_wait :: "'s \<Rightarrow> bool"
    and cell :: "'s \<Rightarrow> 'p \<Rightarrow> 'n"
    and block :: "'s \<Rightarrow> 's option"
    and wake :: "'p \<Rightarrow> 's \<Rightarrow> (bool \<times> 's) option"
  assumes block_law: "ok s \<Longrightarrow> may_wait s \<Longrightarrow> \<exists>s'. block s = Some s' \<and> ok s' \<and> waits s' (current s) \<and>
      cell s' (current s) = cell s (current s) \<and> (\<forall>p. waits s p \<longrightarrow> waits s' p \<and> cell s' p = cell s p)"
    and wake_law: "ok s \<Longrightarrow> waits s p \<Longrightarrow> \<exists>s'. wake p s = Some (True, s') \<and> ok s' \<and> \<not> waits s' p \<and>
      (\<forall>q. waits s q \<and> q \<noteq> p \<longrightarrow> waits s' q \<and> cell s' q = cell s q)"
    and current_not_waiting: "ok s \<Longrightarrow> \<not> waits s (current s)"
begin

text \<open>The running process joins the end of a queue of waiters; the head of one is woken.\<close>

lemma join_queue:
  assumes "ok s" "may_wait s" and "\<forall>p \<in> set ws. waits s p" "distinct ws"
  shows "\<exists>s'. block s = Some s' \<and> ok s' \<and> (\<forall>p \<in> set (ws @ [current s]). waits s' p \<and> cell s' p = cell s p) \<and>
      distinct (ws @ [current s])"
  using block_law [OF assms(1,2)] assms(3,4) current_not_waiting [OF assms(1)] by fastforce

lemma leave_queue:
  assumes "ok s" and "\<forall>p \<in> set (w # ws). waits s p" "distinct (w # ws)"
  shows "\<exists>s'. wake w s = Some (True, s') \<and> ok s' \<and> \<not> waits s' w \<and> (\<forall>p \<in> set ws. waits s' p \<and> cell s' p = cell s p)"
  using wake_law [OF assms(1), of w] assms(2,3) by fastforce

end

definition may_block :: "('d, 'z) proc_scheme \<Rightarrow> bool" where
  "may_block s \<longleftrightarrow> runningProcess s \<noteq> idleProcess s \<and> runningProcess s \<noteq> collectorProcess s"

lemma parked_not_running: "sched_ok s \<Longrightarrow> \<not> parked s (runningProcess s)"
  by (metis parked_fresh(3) sched_okE)

interpretation sched: blocking sched_ok parked runningProcess may_block nodes blockRunningProcess wakeupProcess
proof (unfold_locales, goal_cases)
  case (1 s)
  then have "runningProcess s \<noteq> idleProcess s" "runningProcess s \<noteq> collectorProcess s"
    by (simp_all add: may_block_def)
  with 1(1) obtain s' where "blockRunningProcess s = Some s'" "sched_ok s'" "keeps_parked {} s s'"
    "parked s' (runningProcess s)" "nodes s' (runningProcess s) = nodes s (runningProcess s)"
    using block_parks [OF 1(1)] by metis
  then show ?case by (auto simp: keeps_parked_def)
next
  case (2 s p)
  then have p: "live (allocProcessTable s) p" "state_of s p = PROCESS_STATE_BLOCKED"
    by (auto simp: parked_def)
  obtain s' where "wakeupProcess p s = Some (True, s')" "sched_ok s'" "keeps_parked {p} s s'"
    "state_of s' = (state_of s)(p := PROCESS_STATE_READY)"
    using wakeup_parks [OF 2(1) p] by metis
  then show ?case by (auto simp: keeps_parked_def) (auto simp: parked_def)
next
  case (3 s)
  then show ?case by (rule parked_not_running)
qed

end
