(* ===== verification/Sync.thy ===== *)
theory Sync
  imports Parking
begin

text \<open>
  Mutexes: \<^verbatim>\<open>kernel/proc/Sync.c\<close>. A mutex holds the pid of its owner, a nesting count
  and the FIFO list of processes blocked on it; a release with waiters hands the mutex to the
  first of them before waking it. The mutexes live in a store from addresses, a field added to the
  state of the scheduler. \<open>locks_rel U s wl\<close> is their invariant: of each mutex \<open>m\<close> of \<open>U\<close>
  the list holds the parked processes \<open>wl m\<close>.
\<close>

section \<open>State and operations\<close>

record mutex =
  owner :: int
  mcount :: WORD
  waitList :: linkedList

record 'd ksync = "'d proc" +
  mutexes :: "ptr \<Rightarrow> mutex"

definition upd_mutex :: "ptr \<Rightarrow> (mutex \<Rightarrow> mutex) \<Rightarrow> ('d, 'z) ksync_scheme \<Rightarrow> ('d, 'z) ksync_scheme" where
  "upd_mutex m f s = s\<lparr>mutexes := (mutexes s)(m := f (mutexes s m))\<rparr>"

definition initMutex :: "ptr \<Rightarrow> ('d, 'z) ksync_scheme \<Rightarrow> ('d, 'z) ksync_scheme" where
  "initMutex m s = upd_mutex m (\<lambda>x. x\<lparr>owner := -1, mcount := 0, waitList := initList (waitList x)\<rparr>) s"

text \<open>Up to the switch, if any; the result tells whether the caller was blocked, in which case
  the final \<^verbatim>\<open>setIf(preIf)\<close> runs when it is resumed.\<close>

definition acquireLock :: "ptr \<Rightarrow> ('d, 'z) ksync_scheme \<Rightarrow> (bool \<times> bool \<times> ('d, 'z) ksync_scheme) option" where
  "acquireLock m s =
     (let (preIf, s1) = setIf False s;
          currentPid = getRunningPid s1
      in if owner (mutexes s1 m) = currentPid
         then Some (False, preIf, snd (setIf preIf (upd_mutex m (\<lambda>x. x\<lparr>mcount := mcount x + 1\<rparr>) s1)))
         else if owner (mutexes s1 m) = -1
         then Some (False, preIf, snd (setIf preIf (upd_mutex m (\<lambda>x. x\<lparr>owner := currentPid, mcount := 1\<rparr>) s1)))
         else
           let (h, l) = insertList (nodes s1) (waitList (mutexes s1 m)) (getRunningProcess s1);
               s2 = upd_mutex m (\<lambda>x. x\<lparr>waitList := l\<rparr>) (s1\<lparr>nodes := h\<rparr>)
           in map_option (\<lambda>s3. (True, preIf, s3)) (blockRunningProcess s2))"

definition releaseLock :: "ptr \<Rightarrow> ('d, 'z) ksync_scheme \<Rightarrow> ('d, 'z) ksync_scheme option" where
  "releaseLock m s =
     (let (preIf, s1) = setIf False s
      in if owner (mutexes s1 m) \<noteq> getRunningPid s1 then Some (snd (setIf preIf s1))
         else
           let s2 = upd_mutex m (\<lambda>x. x\<lparr>mcount := mcount x - 1\<rparr>) s1
           in if mcount (mutexes s2 m) = 0
              then do {
                (next_p, h, l) \<leftarrow> HeadRemove (nodes s2) (waitList (mutexes s2 m));
                let s3 = upd_mutex m (\<lambda>x. x\<lparr>waitList := l\<rparr>) (s2\<lparr>nodes := h\<rparr>);
                s4 \<leftarrow> (if next_p = NULL then Some (upd_mutex m (\<lambda>x. x\<lparr>owner := -1\<rparr>) s3)
                      else map_option snd (wakeupProcess next_p
                        (upd_mutex m (\<lambda>x. x\<lparr>owner := nid (nodes s3 next_p), mcount := 1\<rparr>) s3)));
                Some (snd (setIf preIf s4)) }
              else Some (snd (setIf preIf s2)))"

section \<open>Invariant\<close>

definition mutex_ok :: "('d, 'z) ksync_scheme \<Rightarrow> mutex \<Rightarrow> ptr list \<Rightarrow> bool" where
  "mutex_ok s x ws \<longleftrightarrow> rep (nodes s) (waitList x) ws \<and> (\<forall>p \<in> set ws. parked s p \<and> nid (nodes s p) \<noteq> owner x) \<and>
     (owner x = -1 \<longrightarrow> ws = []) \<and> (owner x = -1 \<longleftrightarrow> mcount x = 0)"

definition locks_rel :: "ptr set \<Rightarrow> ('d, 'z) ksync_scheme \<Rightarrow> (ptr \<Rightarrow> ptr list) \<Rightarrow> bool" where
  "locks_rel U s wl \<longleftrightarrow> sched_ok s \<and> (\<forall>m \<in> U. mutex_ok s (mutexes s m) (wl m)) \<and>
     (\<forall>m \<in> U. \<forall>n \<in> U. m \<noteq> n \<longrightarrow> set (wl m) \<inter> set (wl n) = {})"

lemma locks_disj:
  "locks_rel U s wl \<Longrightarrow> m \<in> U \<Longrightarrow> n \<in> U \<Longrightarrow> m \<noteq> n \<Longrightarrow> set (wl m) \<inter> set (wl n) = {}"
  unfolding locks_rel_def by blast

lemma mutexes_more: "proc.more s' = proc.more s \<Longrightarrow> mutexes s' = mutexes s"
  by (cases s; cases s') simp

lemma mutex_ok_keeps:
  assumes "mutex_ok s x ws" and "\<And>p. p \<in> set ws \<Longrightarrow> parked s' p \<and> nodes s' p = nodes s p"
  shows "mutex_ok s' x ws"
  using assms rep_frame [of "nodes s" "waitList x" ws "nodes s'"] by (auto simp: mutex_ok_def)

text \<open>Every scheduling operation keeps the mutexes as they are.\<close>

lemma locks_rel_keeps:
  assumes "locks_rel U s wl" and "sched_ok s'" and "keeps_parked {} s s'" and "mutexes s' = mutexes s"
  shows "locks_rel U s' wl"
  using assms mutex_ok_keeps [of s _ _ s'] by (auto simp: locks_rel_def mutex_ok_def keeps_parked_def)

text \<open>Changing nodes of parked processes only does not touch the scheduler.\<close>

lemma sched_rel_nodes:
  assumes rel: "sched_rel s rs ss" and ids: "keeps_ids (nodes s) h"
    and out: "same_outside (nodes s) h A" and A: "A \<inter> (set rs \<union> set ss) = {}"
  shows "sched_rel (s\<lparr>nodes := h\<rparr>) rs ss"
proof -
  have "(\<lambda>p. nid (h p)) = (\<lambda>p. nid (nodes s p))" using ids by (simp add: keeps_ids_def)
  moreover have "rep h (processList s) rs" "rep h (sleepList s) ss"
    using sched_relD(1) [OF rel] rep_same_outside [OF _ out] A by (auto simp: srep_def)
  ultimately show ?thesis using rel by (auto simp: sched_rel_def srep_def core_of_def state_of_def [abs_def])
qed

lemma sched_rel_more:
  "sched_rel (proc.more_update f s) rs ss = sched_rel s rs ss"
  by (simp add: sched_rel_def core_of_def srep_def state_of_def [abs_def])

lemma sched_rel_mutex [simp]: "sched_rel (upd_mutex m f s) rs ss = sched_rel s rs ss"
  by (simp add: upd_mutex_def sched_rel_def core_of_def srep_def state_of_def [abs_def])

lemma running_pid:
  assumes "sched_ok s"
  obtains pid where "pid < PROCESS_MAXCOUNT" "runningProcess s = pcbAddr pid" "getRunningPid s = int pid"
    "allocProcessTable s ! pid = 1"
proof -
  obtain rs ss where rel: "sched_rel s rs ss" using assms by (auto elim: sched_okE)
  note core = sched_relD(2) [OF rel]
  obtain pid where "pid < PROCESS_MAXCOUNT" "runningProcess s = pcbAddr pid" "allocProcessTable s ! pid = 1"
    using coreD(4) [OF core] by (auto simp: live_def)
  with coreD(14) [OF core this(1,3)] that show thesis by (simp add: getRunningPid_def)
qed

lemma setIf_ksync [simp]:
  "mutexes (snd (setIf b s)) = mutexes s" "sched_ok (snd (setIf b s)) = sched_ok s"
  "parked (snd (setIf b s)) p = parked s p" "getRunningPid (snd (setIf b s)) = getRunningPid s"
  "asched_of (snd (setIf b s)) = asched_of s"
  by (simp_all add: proc_update_defs parked_def state_of_def getRunningPid_def asched_of_def
      sched_ok_def sched_rel_def core_of_def srep_def [abs_def] state_of_def [abs_def])

lemma locks_rel_setIf [simp]: "locks_rel U (snd (setIf b s)) wl = locks_rel U s wl"
  by (simp add: locks_rel_def mutex_ok_def)

lemma upd_mutex_sel [simp]:
  "nodes (upd_mutex m f s) = nodes s" "pcbs (upd_mutex m f s) = pcbs s"
  "mutexes (upd_mutex m f s) = (mutexes s)(m := f (mutexes s m))"
  "runningProcess (upd_mutex m f s) = runningProcess s" "sched_ok (upd_mutex m f s) = sched_ok s"
  "parked (upd_mutex m f s) p = parked s p" "asched_of (upd_mutex m f s) = asched_of s"
  "getRunningPid (upd_mutex m f s) = getRunningPid s" "idleProcess (upd_mutex m f s) = idleProcess s"
  "collectorProcess (upd_mutex m f s) = collectorProcess s"
  "allocProcessTable (upd_mutex m f s) = allocProcessTable s"
  by (simp_all add: upd_mutex_def parked_def state_of_def asched_of_def getRunningPid_def
      sched_ok_def sched_rel_def core_of_def srep_def [abs_def] state_of_def [abs_def])

lemma locks_rel_upd:
  assumes "locks_rel U s wl" and "mutex_ok s (f (mutexes s m)) (wl m)"
  shows "locks_rel U (upd_mutex m f s) wl"
  using assms by (auto simp: locks_rel_def mutex_ok_def)

text \<open>Moving the nodes of one wait list, and possibly of the running process, keeps the rest.\<close>

lemma wait_nodes_change:
  assumes L: "locks_rel U s wl" and m: "m \<in> U" and ids: "keeps_ids (nodes s) h"
    and out: "same_outside (nodes s) h (insert (runningProcess s) (set (wl m)))"
  shows "sched_ok (s\<lparr>nodes := h\<rparr>)" and "parked (s\<lparr>nodes := h\<rparr>) p = parked s p"
    and "asched_of (s\<lparr>nodes := h\<rparr>) = asched_of s"
    and "n \<in> U \<Longrightarrow> n \<noteq> m \<Longrightarrow> mutex_ok (s\<lparr>nodes := h\<rparr>) (mutexes s n) (wl n)"
proof -
  have ok: "sched_ok s" using L by (simp add: locks_rel_def)
  obtain rs ss where rel: "sched_rel s rs ss" using ok by (auto elim: sched_okE)
  have W: "\<forall>p \<in> set (wl n). parked s p" if "n \<in> U" for n
    using L that by (auto simp: locks_rel_def mutex_ok_def)
  have "insert (runningProcess s) (set (wl m)) \<inter> (set rs \<union> set ss) = {}"
    using parked_fresh(1,2) [OF rel] W [OF m] core_running_fresh [OF sched_relD(2) [OF rel]] by blast
  from sched_rel_nodes [OF rel ids out this] have rel': "sched_rel (s\<lparr>nodes := h\<rparr>) rs ss" .
  then show "sched_ok (s\<lparr>nodes := h\<rparr>)" by (rule sched_okI)
  show pk: "parked (s\<lparr>nodes := h\<rparr>) p = parked s p" for p
    unfolding parked_rel [OF rel'] parked_rel [OF rel] by (simp add: state_of_def)
  show "asched_of (s\<lparr>nodes := h\<rparr>) = asched_of s"
    unfolding asched_of_rel [OF rel'] asched_of_rel [OF rel] by simp
  show "mutex_ok (s\<lparr>nodes := h\<rparr>) (mutexes s n) (wl n)" if n: "n \<in> U" "n \<noteq> m"
  proof (rule mutex_ok_keeps)
    show "mutex_ok s (mutexes s n) (wl n)" using L n by (simp add: locks_rel_def)
    fix q assume q: "q \<in> set (wl n)"
    then have "q \<noteq> runningProcess s" using W [OF n(1)] parked_not_running [OF ok] by auto
    moreover have "q \<notin> set (wl m)" using L m n q by (auto simp: locks_rel_def)
    ultimately show "parked (s\<lparr>nodes := h\<rparr>) q \<and> nodes (s\<lparr>nodes := h\<rparr>) q = nodes s q"
      using W [OF n(1)] q out pk by (simp add: same_outside_def)
  qed
qed

section \<open>Acquiring\<close>

lemma acquireLock_alt:
  "acquireLock m s =
     (let s1 = snd (setIf False s)
      in if owner (mutexes s m) = getRunningPid s
         then Some (False, interrupts_on s, snd (setIf (interrupts_on s) (upd_mutex m (\<lambda>x. x\<lparr>mcount := mcount x + 1\<rparr>) s1)))
         else if owner (mutexes s m) = -1
         then Some (False, interrupts_on s, snd (setIf (interrupts_on s)
                (upd_mutex m (\<lambda>x. x\<lparr>owner := getRunningPid s, mcount := 1\<rparr>) s1)))
         else
           let (h, l) = insertList (nodes s) (waitList (mutexes s m)) (runningProcess s);
               s2 = upd_mutex m (\<lambda>x. x\<lparr>waitList := l\<rparr>) (s1\<lparr>nodes := h\<rparr>)
           in map_option (\<lambda>s3. (True, interrupts_on s, s3)) (blockRunningProcess s2))"
  by (simp add: acquireLock_def Let_def case_prod_beta getRunningProcess_def)

lemma acquire_own:
  assumes L: "locks_rel U s wl" and m: "m \<in> U" and own: "owner (mutexes s m) = getRunningPid s"
    and room: "mcount (mutexes s m) \<noteq> -1"
  obtains s' where "acquireLock m s = Some (False, interrupts_on s, s')" "locks_rel U s' wl"
    "mutexes s' = (mutexes s)(m := (mutexes s m)\<lparr>mcount := mcount (mutexes s m) + 1\<rparr>)"
    "asched_of s' = asched_of s" "nodes s' = nodes s" "pcbs s' = pcbs s"
proof -
  let ?u = "upd_mutex m (\<lambda>x. x\<lparr>mcount := mcount x + 1\<rparr>) (snd (setIf False s))"
  have ok: "sched_ok s" using L by (simp add: locks_rel_def)
  obtain pid where "getRunningPid s = int pid" using running_pid [OF ok] by metis
  then have "owner (mutexes s m) \<noteq> -1" using own by simp
  moreover have "mcount (mutexes s m) + 1 \<noteq> 0" using room by (metis add_cancel_right_right add_eq_0_iff add.commute)
  ultimately have "mutex_ok s ((mutexes s m)\<lparr>mcount := mcount (mutexes s m) + 1\<rparr>) (wl m)"
    using L m by (auto simp: locks_rel_def mutex_ok_def)
  then have "locks_rel U ?u wl"
    using L by (intro locks_rel_upd) (simp_all add: mutex_ok_def)
  moreover have "acquireLock m s = Some (False, interrupts_on s, snd (setIf (interrupts_on s) ?u))"
    using own by (simp add: acquireLock_alt)
  ultimately show thesis by (intro that [of "snd (setIf (interrupts_on s) ?u)"]) simp_all
qed

lemma acquire_free:
  assumes L: "locks_rel U s wl" and m: "m \<in> U" and free: "owner (mutexes s m) = -1"
  obtains s' where "acquireLock m s = Some (False, interrupts_on s, s')" "locks_rel U s' wl"
    "mutexes s' = (mutexes s)(m := (mutexes s m)\<lparr>owner := getRunningPid s, mcount := 1\<rparr>)"
    "asched_of s' = asched_of s" "nodes s' = nodes s" "pcbs s' = pcbs s"
proof -
  let ?i = "snd (setIf False s)"
  let ?u = "upd_mutex m (\<lambda>x. x\<lparr>owner := getRunningPid s, mcount := 1\<rparr>) ?i"
  have ok: "sched_ok s" using L by (simp add: locks_rel_def)
  obtain pid where pid: "getRunningPid s = int pid" using running_pid [OF ok] by metis
  have "wl m = []" using L m free by (auto simp: locks_rel_def mutex_ok_def)
  then have "mutex_ok s ((mutexes s m)\<lparr>owner := getRunningPid s, mcount := 1\<rparr>) (wl m)"
    using L m pid by (auto simp: locks_rel_def mutex_ok_def)
  then have "locks_rel U ?u wl"
    using L by (intro locks_rel_upd) (simp_all add: mutex_ok_def)
  moreover have "acquireLock m s = Some (False, interrupts_on s, snd (setIf (interrupts_on s) ?u))"
    using free pid by (simp add: acquireLock_alt)
  ultimately show thesis by (intro that [of "snd (setIf (interrupts_on s) ?u)"]) simp_all
qed

lemma acquire_busy:
  assumes L: "locks_rel U s wl" and m: "m \<in> U" and may: "may_block s"
    and busy: "owner (mutexes s m) \<noteq> -1" "owner (mutexes s m) \<noteq> getRunningPid s"
  obtains s' where "acquireLock m s = Some (True, interrupts_on s, s')"
    "locks_rel U s' (wl(m := wl m @ [runningProcess s]))"
    "owner (mutexes s' m) = owner (mutexes s m)" "mcount (mutexes s' m) = mcount (mutexes s m)"
    "\<And>n. n \<noteq> m \<Longrightarrow> mutexes s' n = mutexes s n"
    "asched_of s' = a_dispatch (idleProcess s) (asched_of s)"
    "parked s' (runningProcess s)" "idleProcess s' = idleProcess s" "collectorProcess s' = collectorProcess s"
proof -
  let ?i = "snd (setIf False s)" and ?run = "runningProcess s" and ?x = "mutexes s m"
  have ok: "sched_ok s" and mx: "mutex_ok s ?x (wl m)"
    using L m by (auto simp: locks_rel_def)
  obtain pid where "?run = pcbAddr pid" using running_pid [OF ok] by metis
  then have fresh: "?run \<notin> set (wl m)" "?run \<noteq> NULL"
    using mx parked_not_running [OF ok] by (auto simp: mutex_ok_def)
  obtain h l where ins: "insertList (nodes s) (waitList ?x) ?run = (h, l)" by fastforce
  have h: "rep h l (wl m @ [?run])" "same_outside (nodes s) h (insert ?run (set (wl m)))" "keeps_ids (nodes s) h"
  proof -
    have "rep (nodes s) (waitList ?x) (wl m)" using mx by (simp add: mutex_ok_def)
    from nl.ins_law [OF this fresh ins] show "rep h l (wl m @ [?run])"
      "same_outside (nodes s) h (insert ?run (set (wl m)))" "keeps_ids (nodes s) h"
      by (auto simp: keeps_ids_def fun_eq_iff)
  qed
  have Li: "locks_rel U ?i wl" using L by simp
  note ch = wait_nodes_change [OF Li m, of h, simplified, OF h(3,2)]
  let ?s2 = "upd_mutex m (\<lambda>x. x\<lparr>waitList := l\<rparr>) (?i\<lparr>nodes := h\<rparr>)"
  have ok2: "sched_ok ?s2" using ch(1) by simp
  have ne: "runningProcess ?s2 \<noteq> idleProcess ?s2" "runningProcess ?s2 \<noteq> collectorProcess ?s2"
    using may by (simp_all add: may_block_def)
  obtain s' where s': "blockRunningProcess ?s2 = Some s'" "sched_ok s'"
    "asched_of s' = a_dispatch (idleProcess ?s2) (asched_of ?s2)" "sched_frame ?s2 s'"
    "keeps_parked {} ?s2 s'" "parked s' (runningProcess ?s2)"
    "nodes s' (runningProcess ?s2) = nodes ?s2 (runningProcess ?s2)"
    using block_parks [OF ok2 ne(1)] ne(2) by metis
  note fr = sched_frame_sel [OF s'(4)]
  have mut: "mutexes s' = (mutexes s)(m := ?x\<lparr>waitList := l\<rparr>)"
    using mutexes_more [OF fr(12)] by simp
  have kp: "parked s p \<Longrightarrow> parked s' p \<and> nodes s' p = h p" for p
    using keeps_parkedD [OF s'(5), of p] ch(2) by simp
  have W: "parked s p" if "p \<in> set (wl n)" "n \<in> U" for p n
    using L that by (auto simp: locks_rel_def mutex_ok_def)
  have run: "parked s' ?run" "nodes s' ?run = h ?run" using s'(6,7) by simp_all
  have "rep (nodes s') l (wl m @ [?run])"
    by (rule rep_frame [OF h(1)]) (use kp W [OF _ m] run in auto)
  moreover have "nid (nodes s' p) = nid (nodes s p)" for p
    using fr(13) h(3) by (simp add: keeps_ids_def)
  ultimately have "mutex_ok s' (?x\<lparr>waitList := l\<rparr>) (wl m @ [?run])"
    using mx kp run(1) busy by (auto simp: mutex_ok_def getRunningPid_def)
  moreover have "mutex_ok s' (mutexes s n) (wl n)" if "n \<in> U" "n \<noteq> m" for n
    by (rule mutex_ok_keeps [OF ch(4) [OF that]]) (use kp W [OF _ that(1)] in simp)
  moreover have "?run \<notin> set (wl n)" if "n \<in> U" for n
    using W that parked_not_running [OF ok] by blast
  ultimately have "locks_rel U s' (wl(m := wl m @ [?run]))"
    using L s'(2) by (auto simp: locks_rel_def mut)
  moreover have "acquireLock m s = Some (True, interrupts_on s, s')"
    using busy ins s'(1) by (simp add: acquireLock_alt)
  ultimately show thesis
    using s'(3) run fr(1,2) ch(3) by (intro that [of s']) (simp_all add: mut)
qed

section \<open>Releasing\<close>

lemma releaseLock_alt:
  "releaseLock m s =
     (let s1 = snd (setIf False s)
      in if owner (mutexes s m) \<noteq> getRunningPid s then Some (snd (setIf (interrupts_on s) s1))
         else
           let s2 = upd_mutex m (\<lambda>x. x\<lparr>mcount := mcount x - 1\<rparr>) s1
           in if mcount (mutexes s m) = 1
              then do {
                (next_p, h, l) \<leftarrow> HeadRemove (nodes s) (waitList (mutexes s m));
                let s3 = upd_mutex m (\<lambda>x. x\<lparr>waitList := l\<rparr>) (s2\<lparr>nodes := h\<rparr>);
                s4 \<leftarrow> (if next_p = NULL then Some (upd_mutex m (\<lambda>x. x\<lparr>owner := -1\<rparr>) s3)
                      else map_option snd (wakeupProcess next_p
                        (upd_mutex m (\<lambda>x. x\<lparr>owner := nid (nodes s3 next_p), mcount := 1\<rparr>) s3)));
                Some (snd (setIf (interrupts_on s) s4)) }
              else Some (snd (setIf (interrupts_on s) s2)))"
  by (simp add: releaseLock_def Let_def case_prod_beta)

lemma release_other:
  "owner (mutexes s m) \<noteq> getRunningPid s \<Longrightarrow>
   releaseLock m s = Some (snd (setIf (interrupts_on s) (snd (setIf False s))))"
  by (simp add: releaseLock_alt)

lemma release_nested:
  assumes L: "locks_rel U s wl" and m: "m \<in> U" and own: "owner (mutexes s m) = getRunningPid s"
    and nested: "mcount (mutexes s m) \<noteq> 1"
  obtains s' where "releaseLock m s = Some s'" "locks_rel U s' wl"
    "mutexes s' = (mutexes s)(m := (mutexes s m)\<lparr>mcount := mcount (mutexes s m) - 1\<rparr>)"
    "asched_of s' = asched_of s" "nodes s' = nodes s" "pcbs s' = pcbs s"
proof -
  let ?u = "upd_mutex m (\<lambda>x. x\<lparr>mcount := mcount x - 1\<rparr>) (snd (setIf False s))"
  have ok: "sched_ok s" using L by (simp add: locks_rel_def)
  obtain pid where "getRunningPid s = int pid" using running_pid [OF ok] by metis
  then have "owner (mutexes s m) \<noteq> -1" using own by simp
  then have "mutex_ok s ((mutexes s m)\<lparr>mcount := mcount (mutexes s m) - 1\<rparr>) (wl m)"
    using L m nested by (auto simp: locks_rel_def mutex_ok_def)
  then have "locks_rel U ?u wl"
    using L by (intro locks_rel_upd) (simp_all add: mutex_ok_def)
  moreover have "releaseLock m s = Some (snd (setIf (interrupts_on s) ?u))"
    using own nested by (simp add: releaseLock_alt)
  ultimately show thesis by (intro that [of "snd (setIf (interrupts_on s) ?u)"]) simp_all
qed

lemma release_last:
  assumes L: "locks_rel U s wl" and m: "m \<in> U" and own: "owner (mutexes s m) = getRunningPid s"
    and one: "mcount (mutexes s m) = 1" and none: "wl m = []"
  obtains s' where "releaseLock m s = Some s'" "locks_rel U s' wl"
    "owner (mutexes s' m) = -1" "mcount (mutexes s' m) = 0" "\<And>n. n \<noteq> m \<Longrightarrow> mutexes s' n = mutexes s n"
    "asched_of s' = asched_of s" "nodes s' = nodes s" "pcbs s' = pcbs s"
proof -
  let ?x = "mutexes s m"
  let ?u = "upd_mutex m (\<lambda>x. x\<lparr>owner := -1\<rparr>) (upd_mutex m (\<lambda>x. x\<lparr>waitList := waitList ?x\<rparr>)
      (upd_mutex m (\<lambda>x. x\<lparr>mcount := mcount x - 1\<rparr>) (snd (setIf False s))\<lparr>nodes := nodes s\<rparr>))"
  have rep: "rep (nodes s) (waitList ?x) []"
    using L m none by (auto simp: locks_rel_def mutex_ok_def)
  have u: "?u = upd_mutex m (\<lambda>x. x\<lparr>owner := -1, mcount := 0\<rparr>) (snd (setIf False s))"
  proof -
    have "(snd (setIf False s))\<lparr>nodes := nodes s\<rparr> = snd (setIf False s)"
      by (simp add: setIf_def disableInterrupt_def)
    moreover have "upd_mutex m f z\<lparr>nodes := nodes s\<rparr> = upd_mutex m f (z\<lparr>nodes := nodes s\<rparr>)"
      for f and z :: "('a, 'b) ksync_scheme" by (simp add: upd_mutex_def)
    ultimately show ?thesis using one
      by (cases "mutexes s m") (simp add: upd_mutex_def)
  qed
  have "mutex_ok s (?x\<lparr>owner := -1, mcount := 0\<rparr>) (wl m)"
    using rep none by (simp add: mutex_ok_def)
  then have "locks_rel U ?u wl"
    unfolding u using L by (intro locks_rel_upd) (simp_all add: mutex_ok_def rep none)
  moreover have "releaseLock m s = Some (snd (setIf (interrupts_on s) ?u))"
    using own one HeadRemove_empty [OF rep] by (simp add: releaseLock_alt)
  ultimately show thesis by (intro that [of "snd (setIf (interrupts_on s) ?u)"]) (simp_all add: u)
qed

text \<open>The processes that wait for a mutex: the first one, and its difference from the others.\<close>

lemma waiters:
  assumes L: "locks_rel U s wl" and m: "m \<in> U" and some: "wl m = w # ws"
  shows "parked s w" "w \<notin> set ws" "w \<noteq> NULL" "nid (nodes s w) \<noteq> -1"
    "p \<in> set ws \<Longrightarrow> parked s p \<and> p \<noteq> w \<and> nid (nodes s p) \<noteq> nid (nodes s w)"
proof -
  have mx: "mutex_ok s (mutexes s m) (w # ws)" using L m some by (auto simp: locks_rel_def)
  obtain rs ss where rel: "sched_rel s rs ss" using L by (auto simp: locks_rel_def elim: sched_okE)
  note core = sched_relD(2) [OF rel]
  show w: "parked s w" "w \<notin> set ws" using mx by (auto simp: mutex_ok_def rep_def)
  show "w \<noteq> NULL" using parked_fresh(5) [OF rel w(1)] .
  obtain k where "w = pcbAddr k" "k < PROCESS_MAXCOUNT" "allocProcessTable s ! k = 1"
    using parked_fresh(6) [OF rel w(1)] by (auto simp: live_def)
  then show "nid (nodes s w) \<noteq> -1" using coreD(14) [OF core] by simp
  show "parked s p \<and> p \<noteq> w \<and> nid (nodes s p) \<noteq> nid (nodes s w)" if "p \<in> set ws"
  proof -
    have p: "parked s p" "p \<noteq> w" using mx that w(2) by (auto simp: mutex_ok_def)
    then show ?thesis using core_ids_inj [OF core parked_fresh(6) [OF rel p(1)] parked_fresh(6) [OF rel w(1)]] by blast
  qed
qed

lemma locks_handed:
  assumes L: "locks_rel U s wl" and m: "m \<in> U" and some: "wl m = w # ws" and ok: "sched_ok s'"
    and mut: "mutexes s' = (mutexes s)(m := (mutexes s m)\<lparr>owner := nid (nodes s w), mcount := 1, waitList := l\<rparr>)"
    and h: "rep h l ws" and kp: "\<And>p. parked s p \<Longrightarrow> p \<noteq> w \<Longrightarrow> parked s' p \<and> nodes s' p = h p"
    and ids: "\<And>p. nid (nodes s' p) = nid (nodes s p)"
    and others: "\<And>n. n \<in> U \<Longrightarrow> n \<noteq> m \<Longrightarrow> mutex_ok (s0\<lparr>nodes := h\<rparr>) (mutexes s n) (wl n)"
  shows "locks_rel U s' (wl(m := ws))"
proof -
  note w = waiters [OF L m some]
  have "rep (nodes s') l ws" by (rule rep_frame [OF h]) (use kp w(5) in simp)
  moreover have "parked s' p \<and> nid (nodes s' p) \<noteq> nid (nodes s w)" if "p \<in> set ws" for p
    using kp [of p] w(5) [OF that] unfolding ids by blast
  ultimately have "mutex_ok s' ((mutexes s m)\<lparr>owner := nid (nodes s w), mcount := 1, waitList := l\<rparr>) ws"
    using w(4) by (simp add: mutex_ok_def)
  moreover have "mutex_ok s' (mutexes s n) (wl n)" if n: "n \<in> U" "n \<noteq> m" for n
  proof (rule mutex_ok_keeps [OF others [OF n]])
    fix p assume p: "p \<in> set (wl n)"
    then have "p \<noteq> w" using locks_disj [OF L m n(1)] n(2) some by auto
    moreover have "parked s p" using L p n(1) by (auto simp: locks_rel_def mutex_ok_def)
    ultimately show "parked s' p \<and> nodes s' p = nodes (s0\<lparr>nodes := h\<rparr>) p" using kp by simp
  qed
  moreover have "set ws \<inter> set (wl n) = {}" if "n \<in> U" "n \<noteq> m" for n
    using locks_disj [OF L m that(1)] that(2) some by auto
  then have "\<forall>i \<in> U. \<forall>j \<in> U. i \<noteq> j \<longrightarrow> set ((wl(m := ws)) i) \<inter> set ((wl(m := ws)) j) = {}"
    using L by (simp add: locks_rel_def Int_commute)
  ultimately show ?thesis using ok by (simp add: locks_rel_def mut)
qed

lemma release_handoff:
  assumes L: "locks_rel U s wl" and m: "m \<in> U" and own: "owner (mutexes s m) = getRunningPid s"
    and one: "mcount (mutexes s m) = 1" and some: "wl m = w # ws"
  obtains s' where "releaseLock m s = Some s'" "locks_rel U s' (wl(m := ws))"
    "owner (mutexes s' m) = nid (nodes s w)" "mcount (mutexes s' m) = 1"
    "\<And>n. n \<noteq> m \<Longrightarrow> mutexes s' n = mutexes s n"
    "asched_of s' = a_wake w (asched_of s)" "state_of s' = (state_of s)(w := PROCESS_STATE_READY)"
    "idleProcess s' = idleProcess s" "collectorProcess s' = collectorProcess s"
proof -
  let ?x = "mutexes s m" and ?i = "snd (setIf False s)"
  note w = waiters [OF L m some]
  have "rep (nodes s) (waitList ?x) (w # ws)" using L m some by (auto simp: locks_rel_def mutex_ok_def)
  from nl.hrem_cons [OF this] obtain h l where
    hr: "HeadRemove (nodes s) (waitList ?x) = Some (w, h, l)" and h: "rep h l ws"
      "same_outside (nodes s) h (set (w # ws))" "(\<lambda>p. nid (h p)) = (\<lambda>p. nid (nodes s p))" by blast
  have ids: "keeps_ids (nodes s) h" using h(3) by (simp add: keeps_ids_def fun_eq_iff)
  have out: "same_outside (nodes s) h (insert (runningProcess s) (set (wl m)))"
    using h(2) some by (auto simp: same_outside_def)
  have "locks_rel U ?i wl" using L by simp
  note ch = wait_nodes_change [OF this m, of h, simplified, OF ids out]
  define s3 where "s3 = upd_mutex m (\<lambda>x. x\<lparr>owner := nid (nodes s w), mcount := 1, waitList := l\<rparr>) (?i\<lparr>nodes := h\<rparr>)"
  have s3: "upd_mutex m (\<lambda>x. x\<lparr>owner := nid (h w), mcount := 1\<rparr>) (upd_mutex m (\<lambda>x. x\<lparr>waitList := l\<rparr>)
      (upd_mutex m (\<lambda>x. x\<lparr>mcount := mcount x - 1\<rparr>) ?i\<lparr>nodes := h\<rparr>)) = s3"
    using h(3) by (simp add: s3_def upd_mutex_def fun_eq_iff)
  have sel3: "nodes s3 = h" "mutexes s3 = (mutexes s)(m := ?x\<lparr>owner := nid (nodes s w), mcount := 1, waitList := l\<rparr>)"
    "idleProcess s3 = idleProcess s" "collectorProcess s3 = collectorProcess s" "asched_of s3 = asched_of s"
    "sched_ok s3" "parked s3 p = parked s p" "state_of s3 = state_of s" for p
    using ch by (simp_all add: s3_def state_of_def [abs_def])
  have blk: "live (allocProcessTable s3) w" "state_of s3 w = PROCESS_STATE_BLOCKED"
    using w(1) sel3(7) [of w] by (auto simp: parked_def)
  obtain s' where s': "wakeupProcess w s3 = Some (True, s')" "sched_ok s'"
    "asched_of s' = a_wake w (asched_of s3)" "sched_frame s3 s'" "keeps_parked {w} s3 s'"
    "state_of s' = (state_of s3)(w := PROCESS_STATE_READY)"
    using wakeup_parks [OF sel3(6) blk] by metis
  note fr = sched_frame_sel [OF s'(4)]
  have mut: "mutexes s' = (mutexes s)(m := ?x\<lparr>owner := nid (nodes s w), mcount := 1, waitList := l\<rparr>)"
    using mutexes_more [OF fr(12)] sel3(2) by simp
  have "locks_rel U s' (wl(m := ws))"
  proof (rule locks_handed [OF L m some s'(2) mut h(1) _ _ ch(4)], goal_cases)
    case (1 p)
    then show ?case using keeps_parkedD [OF s'(5), of p] sel3 by simp
  next
    case (2 p)
    then show ?case using fr(13) h(3) by (simp add: sel3 fun_eq_iff)
  qed
  then have "locks_rel U (snd (setIf (interrupts_on s) s')) (wl(m := ws))" by simp
  moreover have "releaseLock m s = Some (snd (setIf (interrupts_on s) s'))"
    using own one hr s'(1) s3 w(3) by (simp add: releaseLock_alt)
  ultimately show thesis
    using s'(3,6) fr(1,2) by (intro that [of "snd (setIf (interrupts_on s) s')"]) (simp_all add: mut sel3)
qed

end
