(* ===== verification/SyncProps.thy ===== *)
theory SyncProps
  imports Sync SchedProps
begin

text \<open>
  The mutex as a FIFO lock. The abstract lock is a holder, a nesting depth and a queue;
  \<^verbatim>\<open>acquireLock\<close> and \<^verbatim>\<open>releaseLock\<close> refine its two operations, leave every
  other mutex alone and act on the scheduler only by blocking the caller or waking the new holder.
\<close>

section \<open>The abstract lock\<close>

record alock =
  holder :: "int option"
  depth :: nat
  waiters :: "ptr list"

definition alock_of :: "mutex \<Rightarrow> ptr list \<Rightarrow> alock" where
  "alock_of x ws = \<lparr>holder = (if owner x = -1 then None else Some (owner x)), depth = unat (mcount x), waiters = ws\<rparr>"

definition must_wait :: "int \<Rightarrow> alock \<Rightarrow> bool" where
  "must_wait me A \<longleftrightarrow> holder A \<noteq> None \<and> holder A \<noteq> Some me"

definition a_acquire :: "int \<Rightarrow> ptr \<Rightarrow> alock \<Rightarrow> alock" where
  "a_acquire me p A =
     (if must_wait me A then A\<lparr>waiters := waiters A @ [p]\<rparr>
      else A\<lparr>holder := Some me, depth := depth A + 1\<rparr>)"

definition hands_off :: "int \<Rightarrow> alock \<Rightarrow> bool" where
  "hands_off me A \<longleftrightarrow> holder A = Some me \<and> depth A = 1 \<and> waiters A \<noteq> []"

definition a_release :: "int \<Rightarrow> (ptr \<Rightarrow> int) \<Rightarrow> alock \<Rightarrow> alock" where
  "a_release me pid A =
     (if holder A \<noteq> Some me then A
      else if depth A \<noteq> 1 then A\<lparr>depth := depth A - 1\<rparr>
      else case waiters A of
             [] \<Rightarrow> A\<lparr>holder := None, depth := 0\<rparr>
           | w # ws \<Rightarrow> A\<lparr>holder := Some (pid w), depth := 1, waiters := ws\<rparr>)"

lemma unat_word_succ: "(c::WORD) \<noteq> -1 \<Longrightarrow> unat (c + 1) = unat c + 1"
  by (metis Suc_eq_plus1 add_eq_0_iff unatSuc add.commute)

lemma unat_word_pred: "(c::WORD) \<noteq> 0 \<Longrightarrow> unat (c - 1) = unat c - 1"
  using unat_minus_one by blast

lemma unat_one_iff: "unat (c::WORD) = Suc 0 \<longleftrightarrow> c = 1"
  by (metis One_nat_def unat_1 word_unat_eq_iff)

lemma running_not_none: "sched_ok s \<Longrightarrow> getRunningPid s \<noteq> -1"
  using running_pid [of s] by force

lemma parked_pid:
  assumes "sched_ok s" and "parked s p"
  shows "nid (nodes s p) \<noteq> -1"
proof -
  obtain rs ss where rel: "sched_rel s rs ss" using assms(1) by (auto elim: sched_okE)
  obtain k where "p = pcbAddr k" "k < PROCESS_MAXCOUNT" "allocProcessTable s ! k = 1"
    using parked_fresh(6) [OF rel assms(2)] by (auto simp: live_def)
  then show ?thesis using coreD(14) [OF sched_relD(2) [OF rel]] by simp
qed

section \<open>Properties\<close>

text \<open>C15: \<^verbatim>\<open>acquireLock\<close> refines the FIFO lock. The owner nests, a free mutex is taken,
  and otherwise the caller goes to the end of the wait queue and the processor to the next ready
  process. It always returns; the other mutexes and, unless the caller waits, the scheduler are
  as before. The bound on the nesting count is the one of its 16-bit field.\<close>

theorem acquire_refines_fifo_lock:
  assumes "locks_rel U s wl" and "m \<in> U" and "may_block s" and "mcount (mutexes s m) \<noteq> -1"
  shows "\<exists>s' wl'.
    acquireLock m s = Some (must_wait (getRunningPid s) (alock_of (mutexes s m) (wl m)), interrupts_on s, s') \<and>
    locks_rel U s' wl' \<and>
    alock_of (mutexes s' m) (wl' m) =
      a_acquire (getRunningPid s) (runningProcess s) (alock_of (mutexes s m) (wl m)) \<and>
    (\<forall>n. n \<noteq> m \<longrightarrow> mutexes s' n = mutexes s n \<and> wl' n = wl n) \<and>
    asched_of s' = (if must_wait (getRunningPid s) (alock_of (mutexes s m) (wl m))
                    then a_dispatch (idleProcess s) (asched_of s) else asched_of s)"
proof -
  let ?x = "mutexes s m" and ?me = "getRunningPid s"
  have ok: "sched_ok s" and mx: "mutex_ok s ?x (wl m)" using assms(1,2) by (auto simp: locks_rel_def)
  note me = running_not_none [OF ok]
  consider (own) "owner ?x = ?me" | (free) "owner ?x = -1" | (busy) "owner ?x \<noteq> -1" "owner ?x \<noteq> ?me" by blast
  then show ?thesis
  proof cases
    case own
    obtain s' where "acquireLock m s = Some (False, interrupts_on s, s')" "locks_rel U s' wl"
      "mutexes s' = (mutexes s)(m := ?x\<lparr>mcount := mcount ?x + 1\<rparr>)" "asched_of s' = asched_of s"
      using acquire_own [OF assms(1,2) own assms(4)] by metis
    then show ?thesis using own me assms(4)
      by (intro exI [of _ s'] exI [of _ wl])
        (simp add: must_wait_def alock_of_def a_acquire_def unat_word_succ)
  next
    case free
    obtain s' where "acquireLock m s = Some (False, interrupts_on s, s')" "locks_rel U s' wl"
      "mutexes s' = (mutexes s)(m := ?x\<lparr>owner := ?me, mcount := 1\<rparr>)" "asched_of s' = asched_of s"
      using acquire_free [OF assms(1,2) free] by metis
    moreover have "mcount ?x = 0" using mx free by (simp add: mutex_ok_def)
    ultimately show ?thesis using free me
      by (intro exI [of _ s'] exI [of _ wl]) (simp add: must_wait_def alock_of_def a_acquire_def)
  next
    case busy
    show ?thesis
    proof (rule acquire_busy [OF assms(1-3) busy], goal_cases)
      case (1 s')
      then show ?case using busy
        by (intro exI [of _ s'] exI [of _ "wl(m := wl m @ [runningProcess s])"])
          (simp add: must_wait_def alock_of_def a_acquire_def)
    qed
  qed
qed

text \<open>C16: \<^verbatim>\<open>releaseLock\<close> refines the FIFO lock. A caller that is not the owner
  changes nothing, a nested release counts down, and the last one hands the mutex to the process
  that has waited longest, which becomes ready, or frees it. It always returns and the other
  mutexes are as before.\<close>

theorem release_refines_fifo_lock:
  assumes "locks_rel U s wl" and "m \<in> U"
  shows "\<exists>s' wl'. releaseLock m s = Some s' \<and> locks_rel U s' wl' \<and>
    alock_of (mutexes s' m) (wl' m) =
      a_release (getRunningPid s) (\<lambda>p. nid (nodes s p)) (alock_of (mutexes s m) (wl m)) \<and>
    (\<forall>n. n \<noteq> m \<longrightarrow> mutexes s' n = mutexes s n \<and> wl' n = wl n) \<and>
    asched_of s' = (if hands_off (getRunningPid s) (alock_of (mutexes s m) (wl m))
                    then a_wake (hd (wl m)) (asched_of s) else asched_of s)"
proof -
  let ?x = "mutexes s m" and ?me = "getRunningPid s"
  have ok: "sched_ok s" and mx: "mutex_ok s ?x (wl m)" using assms by (auto simp: locks_rel_def)
  note me = running_not_none [OF ok]
  consider (other) "owner ?x \<noteq> ?me" | (nested) "owner ?x = ?me" "mcount ?x \<noteq> 1"
    | (last) "owner ?x = ?me" "mcount ?x = 1" "wl m = []"
    | (hand) w ws where "owner ?x = ?me" "mcount ?x = 1" "wl m = w # ws" by (cases "wl m") auto
  then show ?thesis
  proof cases
    case other
    then show ?thesis using release_other [OF other] assms
      by (intro exI exI [of _ wl]) (auto simp: alock_of_def a_release_def hands_off_def)
  next
    case nested
    obtain s' where "releaseLock m s = Some s'" "locks_rel U s' wl"
      "mutexes s' = (mutexes s)(m := ?x\<lparr>mcount := mcount ?x - 1\<rparr>)" "asched_of s' = asched_of s"
      using release_nested [OF assms nested] by metis
    moreover have "mcount ?x \<noteq> 0" using mx nested me by (auto simp: mutex_ok_def)
    ultimately show ?thesis using nested me
      by (intro exI [of _ s'] exI [of _ wl])
        (simp add: alock_of_def a_release_def hands_off_def unat_word_pred unat_one_iff)
  next
    case last
    obtain s' where "releaseLock m s = Some s'" "locks_rel U s' wl" "owner (mutexes s' m) = -1"
      "mcount (mutexes s' m) = 0" "\<And>n. n \<noteq> m \<Longrightarrow> mutexes s' n = mutexes s n" "asched_of s' = asched_of s"
      using release_last [OF assms last] by metis
    then show ?thesis using last me
      by (intro exI [of _ s'] exI [of _ wl]) (simp add: alock_of_def a_release_def hands_off_def)
  next
    case hand
    have "parked s w" using mx hand(3) by (simp add: mutex_ok_def)
    then have "nid (nodes s w) \<noteq> -1" using parked_pid [OF ok] by metis
    show ?thesis
    proof (rule release_handoff [OF assms hand], goal_cases)
      case (1 s')
      with \<open>nid (nodes s w) \<noteq> -1\<close> show ?case using hand me
        by (intro exI [of _ s'] exI [of _ "wl(m := ws)"])
          (simp add: alock_of_def a_release_def hands_off_def)
    qed
  qed
qed

section \<open>Witnesses\<close>

text \<open>The booted machine with a free mutex at \<open>0x700\<close> and one at \<open>0x800\<close> that the collector
  (pid 1) holds.\<close>

definition booted_sync :: "unit ksync" where
  "booted_sync = proc.extend booted
     \<lparr>mutexes = (\<lambda>_. \<lparr>owner = -1, mcount = 0, waitList = \<lparr>l_head = NULL, l_tail = NULL, l_count = 0\<rparr>\<rparr>)
        (0x800 := \<lparr>owner = 1, mcount = 1, waitList = \<lparr>l_head = NULL, l_tail = NULL, l_count = 0\<rparr>\<rparr>)\<rparr>"

lemma extend_rel: "sched_rel (proc.extend s z) rs ss = sched_rel s rs ss"
  by (simp add: sched_rel_def core_of_def srep_def state_of_def [abs_def] proc.extend_def)

lemma booted_sync_sel:
  "sched_rel booted_sync [pcbAddr 1] []" "runningProcess booted_sync = pcbAddr 0"
  "idleProcess booted_sync = pcbAddr 2" "collectorProcess booted_sync = pcbAddr 1"
  "allocProcessTable booted_sync = boot_table"
  using booted_eq by (simp_all add: booted_sync_def extend_rel) (simp_all add: proc.extend_def)

lemma booted_sync_pid: "nid (nodes booted_sync (pcbAddr 0)) = 0" "nid (nodes booted_sync (pcbAddr 1)) = 1"
  "getRunningPid booted_sync = 0"
proof -
  note core = sched_relD(2) [OF booted_sync_sel(1)]
  show "nid (nodes booted_sync (pcbAddr 0)) = 0" "nid (nodes booted_sync (pcbAddr 1)) = 1"
    using coreD(14) [OF core, of 0] coreD(14) [OF core, of 1]
    by (simp_all add: booted_sync_sel(5) boot_table_nth PROCESS_MAXCOUNT_def)
  then show "getRunningPid booted_sync = 0" by (simp add: getRunningPid_def booted_sync_sel(2))
qed

lemma booted_sync_locks: "locks_rel {0x700, 0x800} booted_sync (\<lambda>_. [])"
  using sched_okI [OF booted_sync_sel(1)]
  by (simp add: locks_rel_def mutex_ok_def booted_sync_def proc.extend_def rep_def)

lemma booted_sync_may: "may_block booted_sync"
  by (simp add: may_block_def booted_sync_sel)

theorem acquire_refines_fifo_lock_witness:
  "(\<exists>s' wl'. acquireLock 0x700 booted_sync = Some (False, interrupts_on booted_sync, s') \<and>
      locks_rel {0x700, 0x800} s' wl' \<and> alock_of (mutexes s' 0x700) (wl' 0x700) = \<lparr>holder = Some 0, depth = 1, waiters = []\<rparr>) \<and>
   (\<exists>s' wl'. acquireLock 0x800 booted_sync = Some (True, interrupts_on booted_sync, s') \<and>
      locks_rel {0x700, 0x800} s' wl' \<and> alock_of (mutexes s' 0x800) (wl' 0x800) = \<lparr>holder = Some 1, depth = 1, waiters = [pcbAddr 0]\<rparr>)"
proof -
  have c: "mcount (mutexes booted_sync m) \<noteq> -1" for m by (simp add: booted_sync_def proc.extend_def)
  have A: "alock_of (mutexes booted_sync 0x700) [] = \<lparr>holder = None, depth = 0, waiters = []\<rparr>"
    "alock_of (mutexes booted_sync 0x800) [] = \<lparr>holder = Some 1, depth = 1, waiters = []\<rparr>"
    by (simp_all add: alock_of_def booted_sync_def proc.extend_def)
  show ?thesis
    using acquire_refines_fifo_lock [OF booted_sync_locks _ booted_sync_may c, of "0x700"]
      acquire_refines_fifo_lock [OF booted_sync_locks _ booted_sync_may c, of "0x800"]
    by (simp add: A booted_sync_pid booted_sync_sel must_wait_def a_acquire_def) blast
qed

lemma waiting_state:
  "\<exists>s :: unit ksync. locks_rel {0x700, 0x800} s ((\<lambda>_. [])(0x800 := [pcbAddr 0])) \<and> getRunningPid s = 1 \<and>
     alock_of (mutexes s 0x800) [pcbAddr 0] = \<lparr>holder = Some 1, depth = 1, waiters = [pcbAddr 0]\<rparr> \<and>
     nid (nodes s (pcbAddr 0)) = 0"
proof -
  have m: "mutexes booted_sync 0x800 =
      \<lparr>owner = 1, mcount = 1, waitList = \<lparr>l_head = NULL, l_tail = NULL, l_count = 0\<rparr>\<rparr>"
    by (simp add: booted_sync_def proc.extend_def)
  have b: "owner (mutexes booted_sync 0x800) \<noteq> -1" "owner (mutexes booted_sync 0x800) \<noteq> getRunningPid booted_sync"
    by (simp_all add: m booted_sync_pid)
  show ?thesis
  proof (rule acquire_busy [OF booted_sync_locks _ booted_sync_may b], goal_cases)
    case (2 s')
    then have ok: "sched_ok s'" by (simp add: locks_rel_def)
    then obtain rs ss where rel: "sched_rel s' rs ss" by (auto elim: sched_okE)
    have "asched_of booted_sync = \<lparr>a_run = pcbAddr 0, a_ready = [pcbAddr 1], a_sleep = []\<rparr>"
      using asched_of_rel [OF booted_sync_sel(1)] booted_sync_sel(2) by simp
    then have "runningProcess s' = pcbAddr 1"
      using 2(6) by (simp add: asched_of_rel [OF rel] a_dispatch_def)
    moreover have "nid (nodes s' (pcbAddr k)) = int k" if "live (allocProcessTable s') (pcbAddr k)" "k < PROCESS_MAXCOUNT" for k
      using coreD(14) [OF sched_relD(2) [OF rel] that(2)] that(1) by simp
    moreover have "live (allocProcessTable s') (pcbAddr 0)"
      using parked_fresh(6) [OF rel 2(7)] by (simp add: booted_sync_sel)
    moreover have "live (allocProcessTable s') (pcbAddr 1)"
      using coreD(4) [OF sched_relD(2) [OF rel]] \<open>runningProcess s' = pcbAddr 1\<close> by simp
    ultimately show ?case using 2 booted_sync_sel m
      by (intro exI [of _ s']) (simp add: getRunningPid_def PROCESS_MAXCOUNT_def alock_of_def)
  qed simp
qed

theorem release_refines_fifo_lock_witness:
  "\<exists>(s :: unit ksync) s' wl'. getRunningPid s = 1 \<and> releaseLock 0x800 s = Some s' \<and>
     locks_rel {0x700, 0x800} s' wl' \<and> alock_of (mutexes s' 0x800) (wl' 0x800) = \<lparr>holder = Some 0, depth = 1, waiters = []\<rparr>"
proof -
  obtain s :: "unit ksync" where s: "locks_rel {0x700, 0x800} s ((\<lambda>_. [])(0x800 := [pcbAddr 0]))" "getRunningPid s = 1"
    "alock_of (mutexes s 0x800) [pcbAddr 0] = \<lparr>holder = Some 1, depth = 1, waiters = [pcbAddr 0]\<rparr>"
    "nid (nodes s (pcbAddr 0)) = 0"
    using waiting_state by blast
  from release_refines_fifo_lock [OF s(1), of "0x800"] s(2,4)
  show ?thesis by (simp add: s(3) a_release_def) blast
qed

end
