(* ===== verification/Keyboard.thy ===== *)
theory Keyboard
  imports Sync
begin

text \<open>
  The keyboard driver: \<^verbatim>\<open>kernel/drivers/Keyboard.c\<close> and \<^verbatim>\<open>Keyboard.h\<close>. The
  interrupt handler decodes scan codes and puts the keys in a ring of \<^verbatim>\<open>QUEUE_COUNT\<close>
  slots; \<^verbatim>\<open>getKey\<close> takes them out and waits for an interrupt when there is none. The
  numbers in the mapping table are the ASCII codes of the characters of the C table. Polling the
  controller may never end: the loops are \<open>partial_function\<close>s.
\<close>

section \<open>Constants and state\<close>

definition STATE_REG :: WORD where "STATE_REG = 0x64"
definition BUFFER :: WORD where "BUFFER = 0x60"
definition QUEUE_COUNT :: nat where "QUEUE_COUNT = 50"
definition IRQ_KEYBOARD :: int where "IRQ_KEYBOARD = 1"

definition KEY_NONE :: BYTE where "KEY_NONE = 0x00"
definition KEY_ENTER :: BYTE where "KEY_ENTER = 10"
definition KEY_TAB :: BYTE where "KEY_TAB = 9"
definition KEY_ESC :: BYTE where "KEY_ESC = 0x1B"
definition KEY_BACKSPACE :: BYTE where "KEY_BACKSPACE = 0x08"
definition KEY_SHIFT_DOWN :: BYTE where "KEY_SHIFT_DOWN = 0x2A"
definition KEY_SHIFT_UP :: BYTE where "KEY_SHIFT_UP = 0xAA"
definition KEY_F1 :: BYTE where "KEY_F1 = 0x61"
definition KEY_F2 :: BYTE where "KEY_F2 = 0x62"
definition KEY_F3 :: BYTE where "KEY_F3 = 0x63"
definition KEY_F4 :: BYTE where "KEY_F4 = 0x64"
definition KEY_F5 :: BYTE where "KEY_F5 = 0x65"
definition KEY_F6 :: BYTE where "KEY_F6 = 0x66"
definition KEY_F7 :: BYTE where "KEY_F7 = 0x67"
definition KEY_F8 :: BYTE where "KEY_F8 = 0x68"
definition KEY_F9 :: BYTE where "KEY_F9 = 0x69"
definition KEY_F10 :: BYTE where "KEY_F10 = 0x6A"
definition KEY_F11 :: BYTE where "KEY_F11 = 0x6B"
definition KEY_F12 :: BYTE where "KEY_F12 = 0x6C"
definition KEY_CTRL :: BYTE where "KEY_CTRL = 0x6D"
definition KEY_ALT :: BYTE where "KEY_ALT = 0x6E"
definition KEY_LSHIFT :: BYTE where "KEY_LSHIFT = 0x6F"
definition KEY_RSHIFT :: BYTE where "KEY_RSHIFT = 0x70"
definition KEY_PRINTSCREEN :: BYTE where "KEY_PRINTSCREEN = 0x71"
definition KEY_CAPSLOCK :: BYTE where "KEY_CAPSLOCK = 0x72"
definition KEY_NUMLOCK :: BYTE where "KEY_NUMLOCK = 0x73"
definition KEY_SCROLLLOCK :: BYTE where "KEY_SCROLLLOCK = 0x74"
definition KEY_INS :: BYTE where "KEY_INS = 0x75"
definition KEY_HOME :: BYTE where "KEY_HOME = 0x76"
definition KEY_DEL :: BYTE where "KEY_DEL = 0x77"
definition KEY_END :: BYTE where "KEY_END = 0x78"
definition KEY_PAGEUP :: BYTE where "KEY_PAGEUP = 0x79"
definition KEY_PAGEDOWN :: BYTE where "KEY_PAGEDOWN = 0x7A"
definition KEY_UP :: BYTE where "KEY_UP = 0x7B"
definition KEY_LEFT :: BYTE where "KEY_LEFT = 0x7C"
definition KEY_CENTER :: BYTE where "KEY_CENTER = 0x7D"
definition KEY_RIGHT :: BYTE where "KEY_RIGHT = 0x7E"
definition KEY_DOWN :: BYTE where "KEY_DOWN = 0x7F"
definition KEY_PAUSE :: BYTE where "KEY_PAUSE = 0x80"

lemmas key_defs = KEY_NONE_def KEY_ENTER_def KEY_TAB_def KEY_ESC_def KEY_BACKSPACE_def
  KEY_SHIFT_DOWN_def KEY_SHIFT_UP_def KEY_F1_def KEY_F2_def KEY_F3_def KEY_F4_def KEY_F5_def
  KEY_F6_def KEY_F7_def KEY_F8_def KEY_F9_def KEY_F10_def KEY_F11_def KEY_F12_def KEY_CTRL_def
  KEY_ALT_def KEY_LSHIFT_def KEY_RSHIFT_def KEY_PRINTSCREEN_def KEY_CAPSLOCK_def
  KEY_NUMLOCK_def KEY_SCROLLLOCK_def KEY_INS_def KEY_HOME_def KEY_DEL_def KEY_END_def
  KEY_PAGEUP_def KEY_PAGEDOWN_def KEY_UP_def KEY_LEFT_def KEY_CENTER_def KEY_RIGHT_def
  KEY_DOWN_def KEY_PAUSE_def

definition keyMappingTable :: "(BYTE \<times> BYTE) list" where
  "keyMappingTable =
    [(KEY_NONE, KEY_NONE), (KEY_ESC, KEY_ESC), (49, 33), (50, 64), (51, 35), (52, 36),
     (53, 37), (54, 94), (55, 38), (56, 42), (57, 40), (48, 41), (45, 95), (61, 43),
     (KEY_BACKSPACE, KEY_BACKSPACE), (KEY_TAB, KEY_TAB), (113, 81), (119, 87), (101, 69),
     (114, 82), (116, 84), (121, 89), (117, 85), (105, 73), (111, 79), (112, 80), (91, 123),
     (93, 125), (10, 10), (KEY_CTRL, KEY_CTRL), (97, 65), (115, 83), (100, 68), (102, 70),
     (103, 71), (104, 72), (106, 74), (107, 75), (108, 76), (59, 58), (39, 34), (96, 126),
     (KEY_LSHIFT, KEY_LSHIFT), (92, 124), (122, 90), (120, 88), (99, 67), (118, 86),
     (98, 66), (110, 78), (109, 77), (44, 60), (46, 62), (47, 63), (KEY_RSHIFT, KEY_RSHIFT),
     (42, 42), (KEY_ALT, KEY_ALT), (32, 32), (KEY_CAPSLOCK, KEY_CAPSLOCK), (KEY_F1, KEY_F1),
     (KEY_F2, KEY_F2), (KEY_F3, KEY_F3), (KEY_F4, KEY_F4), (KEY_F5, KEY_F5),
     (KEY_F6, KEY_F6), (KEY_F7, KEY_F7), (KEY_F8, KEY_F8), (KEY_F9, KEY_F9),
     (KEY_F10, KEY_F10), (KEY_NUMLOCK, KEY_NUMLOCK), (KEY_SCROLLLOCK, KEY_SCROLLLOCK),
     (KEY_HOME, 55), (KEY_UP, 56), (KEY_PAGEUP, 57), (45, 45), (KEY_LEFT, 52),
     (KEY_CENTER, 53), (KEY_RIGHT, 54), (43, 43), (KEY_END, 49), (KEY_DOWN, 50),
     (KEY_PAGEDOWN, 51), (KEY_INS, 48), (KEY_DEL, 46), (KEY_NONE, KEY_NONE),
     (KEY_NONE, KEY_NONE), (KEY_NONE, KEY_NONE), (KEY_F11, KEY_F11), (KEY_F12, KEY_F12)]"

record 'd kbd = "'d ksync" +
  shiftOn :: bool
  keyQueue :: queue
  keyWaiter :: ptr

section \<open>Polling the controller\<close>

definition isOutputBufferFull :: "'d portio \<Rightarrow> ('d, 'z) hw_scheme \<Rightarrow> bool \<times> ('d, 'z) hw_scheme" where
  "isOutputBufferFull io s = (let (b, s1) = getPort io STATE_REG s in (b AND 0x01 \<noteq> 0, s1))"

definition isInputBufferFull :: "'d portio \<Rightarrow> ('d, 'z) hw_scheme \<Rightarrow> bool \<times> ('d, 'z) hw_scheme" where
  "isInputBufferFull io s = (let (b, s1) = getPort io STATE_REG s in (b AND 0x02 \<noteq> 0, s1))"

partial_function (option) getScanCode :: "'d portio \<Rightarrow> ('d, 'z) hw_scheme \<Rightarrow> (BYTE \<times> ('d, 'z) hw_scheme) option" where
  "getScanCode io s =
     (let (full, s1) = isOutputBufferFull io s
      in if full then Some (getPort io BUFFER s1) else getScanCode io s1)"

partial_function (option) waitInputBuffer :: "'d portio \<Rightarrow> ('d, 'z) hw_scheme \<Rightarrow> ('d, 'z) hw_scheme option" where
  "waitInputBuffer io s =
     (let (full, s1) = isInputBufferFull io s in if full then waitInputBuffer io s1 else Some s1)"

definition rebootSystem :: "'d portio \<Rightarrow> ('d, 'z) hw_scheme \<Rightarrow> ('d, 'z) hw_scheme option" where
  "rebootSystem io s = do {
     s1 \<leftarrow> waitInputBuffer io s;
     s2 \<leftarrow> waitInputBuffer io (setPort io STATE_REG 0xD1 s1);
     Some (setPort io BUFFER 0x00 s2) }"

section \<open>Decoding\<close>

definition scanToASCII :: "'d portio \<Rightarrow> BYTE \<Rightarrow> ('d, 'z) kbd_scheme \<Rightarrow> (BYTE \<times> ('d, 'z) kbd_scheme) option" where
  "scanToASCII io scanCode s =
     (if scanCode = KEY_SHIFT_DOWN then Some (0, s\<lparr>shiftOn := True\<rparr>)
      else
        let s1 = (if scanCode = KEY_SHIFT_UP then s\<lparr>shiftOn := False\<rparr> else s)
        in if scanCode = 0xE1 then do {
             (_, s2) \<leftarrow> getScanCode io s1;
             (_, s3) \<leftarrow> getScanCode io s2;
             Some (KEY_PAUSE, s3) }
           else if scanCode = 0xE0 then do {
             (_, s2) \<leftarrow> getScanCode io s1;
             Some (0, s2) }
           else if unat scanCode \<ge> length keyMappingTable then Some (0, s1)
           else Some ((if shiftOn s1 then snd else fst) (keyMappingTable ! unat scanCode), s1))"

section \<open>The interrupt side\<close>

definition inputQueue :: "'d portio \<Rightarrow> BYTE \<Rightarrow> ('d, 'z) kbd_scheme \<Rightarrow> ('d, 'z) kbd_scheme option" where
  "inputQueue io scanCode s = do {
     (ascii, s1) \<leftarrow> scanToASCII io scanCode s;
     if ascii \<noteq> 0 then do {
       let (preIf, s2) = setIf False s1;
       let s3 = s2\<lparr>keyQueue := snd (enQueue (keyQueue s2) [ascii])\<rparr>;
       s4 \<leftarrow> wakeupProcessInInterrupt (keyWaiter s3) s3;
       Some (snd (setIf preIf s4)) }
     else Some s1 }"

definition keyboardInterruptHandler :: "'d portio \<Rightarrow> int \<Rightarrow> ('d, 'z) kbd_scheme \<Rightarrow> ('d, 'z) kbd_scheme option" where
  "keyboardInterruptHandler io vectorNumber s = do {
     let (full, s1) = isOutputBufferFull io s;
     s2 \<leftarrow> (if full then do { (scanCode, s2) \<leftarrow> getScanCode io s1; inputQueue io scanCode s2 }
           else Some s1);
     Some (snd (sendEOI io (vectorNumber - IRQ_START_OFFSET) s2)) }"

definition initKeyboard :: "BYTE list \<Rightarrow> ('d, 'z) kbd_scheme \<Rightarrow> ('d, 'z) kbd_scheme" where
  "initKeyboard queueBuffer s =
     registerInterruptHandler (IRQ_START_OFFSET + IRQ_KEYBOARD) keyboardISR
       (s\<lparr>keyQueue := initQueue queueBuffer (int QUEUE_COUNT) 1, shiftOn := False\<rparr>)"

section \<open>The reading side\<close>

text \<open>\<^verbatim>\<open>getQueue\<close> leaves the caller's byte as it was when there is no key.\<close>

definition getQueue :: "BYTE \<Rightarrow> ('d, 'z) kbd_scheme \<Rightarrow> bool \<times> BYTE \<times> ('d, 'z) kbd_scheme" where
  "getQueue data s =
     (let (preIf, s1) = setIf False s;
          (success, bs, q) = deQueue (keyQueue s1) [data]
      in (success, hd bs, snd (setIf preIf (s1\<lparr>keyQueue := q\<rparr>))))"

text \<open>
  \<^verbatim>\<open>getKey\<close> in turns. A turn tests the queue with interrupts off: it returns a key
  (\<open>Some\<close>), or it registers the caller as the waiter and blocks it (\<open>None\<close>). When the process
  runs again it clears the registration and takes another turn.
\<close>

definition getKeyTurn :: "bool \<Rightarrow> ('d, 'z) kbd_scheme \<Rightarrow> (BYTE option \<times> ('d, 'z) kbd_scheme) option" where
  "getKeyTurn preIf s =
     (let (success, bs, q) = deQueue (keyQueue s) [0]
      in if success then Some (Some (hd bs), snd (setIf preIf (s\<lparr>keyQueue := q\<rparr>)))
         else map_option (Pair None) (blockRunningProcess (s\<lparr>keyWaiter := getRunningProcess s\<rparr>)))"

definition getKey :: "('d, 'z) kbd_scheme \<Rightarrow> bool \<times> (BYTE option \<times> ('d, 'z) kbd_scheme) option" where
  "getKey s = (let (preIf, s1) = setIf False s in (preIf, getKeyTurn preIf s1))"

definition getKeyResume :: "bool \<Rightarrow> ('d, 'z) kbd_scheme \<Rightarrow> (BYTE option \<times> ('d, 'z) kbd_scheme) option" where
  "getKeyResume preIf s = getKeyTurn preIf (s\<lparr>keyWaiter := NULL\<rparr>)"

section \<open>Invariant and decoding without a device\<close>

definition kbd_ok :: "('d, 'z) kbd_scheme \<Rightarrow> bool" where
  "kbd_ok s \<longleftrightarrow> sched_ok s \<and> ring_at QUEUE_COUNT 1 (keyQueue s) \<and>
     (keyWaiter s = NULL \<or> live (allocProcessTable s) (keyWaiter s))"

definition keys :: "('d, 'z) kbd_scheme \<Rightarrow> BYTE list" where
  "keys s = map hd (contents (keyQueue s))"

definition reader_waits :: "('d, 'z) kbd_scheme \<Rightarrow> bool" where
  "reader_waits s \<longleftrightarrow> keyWaiter s \<noteq> NULL \<and> state_of s (keyWaiter s) = PROCESS_STATE_BLOCKED"

definition plain :: "BYTE \<Rightarrow> bool" where
  "plain c \<longleftrightarrow> c \<noteq> 0xE0 \<and> c \<noteq> 0xE1"

text \<open>The shift state and the key of a scan code other than the two prefixes; 0 is no key.\<close>

definition decode :: "bool \<Rightarrow> BYTE \<Rightarrow> bool \<times> BYTE" where
  "decode sh c =
     (if c = KEY_SHIFT_DOWN then (True, 0)
      else if c = KEY_SHIFT_UP then (False, 0)
      else (sh, if unat c < length keyMappingTable
                then (if sh then snd else fst) (keyMappingTable ! unat c) else 0))"

text \<open>The device delivers byte \<open>c\<close>, after any number of polls that find its buffer empty, and is \<open>d'\<close> then.\<close>

inductive arrives :: "'d portio \<Rightarrow> 'd \<Rightarrow> BYTE \<Rightarrow> 'd \<Rightarrow> bool" for io where
  full: "in_byte io STATE_REG d = (b, d1) \<Longrightarrow> b AND 0x01 \<noteq> 0 \<Longrightarrow> in_byte io BUFFER d1 = (c, d') \<Longrightarrow> arrives io d c d'"
| empty: "in_byte io STATE_REG d = (b, d1) \<Longrightarrow> b AND 0x01 = 0 \<Longrightarrow> arrives io d1 c d' \<Longrightarrow> arrives io d c d'"

text \<open>The bytes a prefix announces arrive: two after \<^verbatim>\<open>0xE1\<close>, one after \<^verbatim>\<open>0xE0\<close>.\<close>

definition follows :: "'d portio \<Rightarrow> BYTE \<Rightarrow> 'd \<Rightarrow> 'd \<Rightarrow> bool" where
  "follows io c d d' \<longleftrightarrow>
     (if c = 0xE1 then \<exists>x y d1. arrives io d x d1 \<and> arrives io d1 y d'
      else if c = 0xE0 then \<exists>x. arrives io d x d' else d' = d)"

text \<open>The shift state and the key of any scan code: after \<^verbatim>\<open>0xE1\<close> it is the pause key, after
  \<^verbatim>\<open>0xE0\<close> none.\<close>

definition decode_key :: "bool \<Rightarrow> BYTE \<Rightarrow> bool \<times> BYTE" where
  "decode_key sh c = (if c = 0xE1 then (sh, KEY_PAUSE) else if c = 0xE0 then (sh, 0) else decode sh c)"

definition push :: "BYTE list \<Rightarrow> BYTE \<Rightarrow> BYTE list" where
  "push ks k = (if k = 0 \<or> length ks \<ge> QUEUE_COUNT - 1 then ks else ks @ [k])"

lemma length_table: "length keyMappingTable = 89"
  by (simp add: keyMappingTable_def)

lemma scanToASCII_plain:
  "plain c \<Longrightarrow> scanToASCII io c s =
     Some (snd (decode (shiftOn s) c), s\<lparr>shiftOn := fst (decode (shiftOn s) c)\<rparr>)"
  by (auto simp: scanToASCII_def decode_def plain_def Let_def length_table KEY_SHIFT_UP_def KEY_SHIFT_DOWN_def)

lemma getScanCode_arrives: "arrives io (dev s) c d' \<Longrightarrow> getScanCode io s = Some (c, s\<lparr>dev := d'\<rparr>)"
proof (induction "dev s" c d' arbitrary: s rule: arrives.induct)
  case (full b d1 c d')
  then show ?case by (subst getScanCode.simps) (simp add: isOutputBufferFull_def getPort_def)
next
  case (empty b d1 c d')
  from empty.hyps(4) [of "s\<lparr>dev := d1\<rparr>"] empty.hyps(1,2) show ?case
    by (subst getScanCode.simps) (simp add: isOutputBufferFull_def getPort_def)
qed

lemma arrives_getScanCode:
  assumes "getScanCode io s = Some r"
  shows "arrives io (dev s) (fst r) (dev (snd r)) \<and> snd r = s\<lparr>dev := dev (snd r)\<rparr>"
  using assms
proof (rule getScanCode.raw_induct [where P = "\<lambda>io s r. arrives io (dev s) (fst r) (dev (snd r)) \<and> snd r = s\<lparr>dev := dev (snd r)\<rparr>",
      rotated], goal_cases)
  case (1 f io s r)
  obtain b d1 where o: "in_byte io STATE_REG (dev s) = (b, d1)" by fastforce
  show ?case
  proof (cases "b AND 1 = 0")
    case True
    then have "f io (s\<lparr>dev := d1\<rparr>) = Some r" using 1(2) o by (simp add: isOutputBufferFull_def getPort_def)
    from 1(1) [OF this] show ?thesis using arrives.empty [OF o, of "fst r" "dev (snd r)"] True by simp
  next
    case False
    obtain c d2 where o2: "in_byte io BUFFER d1 = (c, d2)" by fastforce
    then have "r = (c, s\<lparr>dev := d2\<rparr>)" using False 1(2) o by (simp add: isOutputBufferFull_def getPort_def)
    then show ?thesis using arrives.full [OF o False o2] by simp
  qed
qed

lemma scanToASCII_any:
  assumes "follows io c (dev s) d'"
  shows "scanToASCII io c s = Some (snd (decode_key (shiftOn s) c), s\<lparr>shiftOn := fst (decode_key (shiftOn s) c), dev := d'\<rparr>)"
proof -
  consider "c = 0xE1" | "c = 0xE0" | "plain c" by (auto simp: plain_def)
  then show ?thesis
  proof cases
    case 1
    then obtain x y d1 where "arrives io (dev s) x d1" "arrives io d1 y d'" using assms by (auto simp: follows_def)
    then have "getScanCode io s = Some (x, s\<lparr>dev := d1\<rparr>)" "getScanCode io (s\<lparr>dev := d1\<rparr>) = Some (y, s\<lparr>dev := d'\<rparr>)"
      using getScanCode_arrives [of io s] getScanCode_arrives [of io "s\<lparr>dev := d1\<rparr>"] by simp_all
    then show ?thesis using 1 by (simp add: scanToASCII_def decode_key_def KEY_SHIFT_DOWN_def KEY_SHIFT_UP_def)
  next
    case 2
    then obtain x where "arrives io (dev s) x d'" using assms by (auto simp: follows_def)
    then show ?thesis using 2 getScanCode_arrives [of io s]
      by (simp add: scanToASCII_def decode_key_def KEY_SHIFT_DOWN_def KEY_SHIFT_UP_def)
  next
    case 3
    then show ?thesis using assms by (auto simp: scanToASCII_plain follows_def decode_key_def plain_def)
  qed
qed

text \<open>Decoding returns only when the announced bytes arrive.\<close>

lemma follows_scanToASCII: "scanToASCII io c s = Some r \<Longrightarrow> \<exists>d'. follows io c (dev s) d'"
  by (fastforce simp: scanToASCII_def follows_def Let_def KEY_SHIFT_UP_def KEY_SHIFT_DOWN_def
      dest: arrives_getScanCode split: if_splits Option.bind_splits)

lemma kbd_upd_sel [simp]:
  "sched_ok (s\<lparr>keyQueue := q\<rparr>) = sched_ok s" "sched_ok (s\<lparr>shiftOn := b\<rparr>) = sched_ok s"
  "sched_ok (s\<lparr>keyWaiter := p\<rparr>) = sched_ok s"
  "asched_of (s\<lparr>keyQueue := q\<rparr>) = asched_of s" "asched_of (s\<lparr>shiftOn := b\<rparr>) = asched_of s"
  "asched_of (s\<lparr>keyWaiter := p\<rparr>) = asched_of s"
  "parked (s\<lparr>keyQueue := q\<rparr>) p = parked s p" "parked (s\<lparr>shiftOn := b\<rparr>) p = parked s p"
  "parked (s\<lparr>keyWaiter := r\<rparr>) p = parked s p"
  "state_of (s\<lparr>keyQueue := q\<rparr>) = state_of s" "state_of (s\<lparr>shiftOn := b\<rparr>) = state_of s"
  "state_of (s\<lparr>keyWaiter := r\<rparr>) = state_of s"
  "may_block (s\<lparr>keyWaiter := r\<rparr>) = may_block s"
  by (simp_all add: sched_ok_def sched_rel_def core_of_def srep_def state_of_def [abs_def]
      asched_of_def parked_def may_block_def)

lemma setIf_kbd [simp]:
  "keyQueue (snd (setIf b s)) = keyQueue s" "shiftOn (snd (setIf b s)) = shiftOn s"
  "keyWaiter (snd (setIf b s)) = keyWaiter s" "state_of (snd (setIf b s)) = state_of s"
  "may_block (snd (setIf b s)) = may_block s"
  by (simp_all add: proc_update_defs state_of_def [abs_def] may_block_def)

lemma kbd_more:
  assumes "proc.more s' = proc.more s"
  shows "mutexes s' = mutexes s" "shiftOn s' = shiftOn s" "keyQueue s' = keyQueue s" "keyWaiter s' = keyWaiter s"
  using assms by (cases s; cases s'; simp)+

lemma kbd_ok_dev [simp]: "kbd_ok (s\<lparr>dev := d\<rparr>) = kbd_ok s"
  by (simp add: kbd_ok_def sched_ok_def)

lemma kbd_dev_sel [simp]:
  "keys (s\<lparr>dev := d\<rparr>) = keys s" "reader_waits (s\<lparr>dev := d\<rparr>) = reader_waits s"
  "asched_of (s\<lparr>dev := d\<rparr>) = asched_of s" "parked (s\<lparr>dev := d\<rparr>) p = parked s p"
  by (simp_all add: keys_def reader_waits_def state_of_def [abs_def] asched_of_def parked_def)

lemma kbd_ok_shift [simp]:
  "kbd_ok (s\<lparr>shiftOn := b\<rparr>) = kbd_ok s" "keys (s\<lparr>shiftOn := b\<rparr>) = keys s" "reader_waits (s\<lparr>shiftOn := b\<rparr>) = reader_waits s"
  by (simp_all add: kbd_ok_def keys_def reader_waits_def)

section \<open>A key arrives\<close>

text \<open>What \<^verbatim>\<open>inputQueue\<close> does with the key it decoded.\<close>

lemma put_key:
  assumes ok: "kbd_ok s"
  obtains s' where "wakeupProcessInInterrupt (keyWaiter s) (s\<lparr>keyQueue := snd (enQueue (keyQueue s) [k])\<rparr>) = Some s'"
    "kbd_ok s'" "keys s' = (if length (keys s) \<ge> QUEUE_COUNT - 1 then keys s else keys s @ [k])"
    "shiftOn s' = shiftOn s" "keyWaiter s' = keyWaiter s" "mutexes s' = mutexes s"
    "asched_of s' = (if reader_waits s then a_wake_isr (idleProcess s) (keyWaiter s) (asched_of s) else asched_of s)"
    "keeps_parked {keyWaiter s} s s'" "\<not> reader_waits s'" "idleProcess s' = idleProcess s"
    "allocProcessTable s' = allocProcessTable s"
proof -
  let ?q = "snd (enQueue (keyQueue s) [k])" and ?s = "s\<lparr>keyQueue := snd (enQueue (keyQueue s) [k])\<rparr>"
  have ring: "ring_at QUEUE_COUNT 1 (keyQueue s)" and sok: "sched_ok s" using ok by (simp_all add: kbd_ok_def)
  have q: "ring_at QUEUE_COUNT 1 ?q \<and> map hd (contents ?q) =
      (if length (keys s) \<ge> QUEUE_COUNT - 1 then keys s else keys s @ [k])"
  proof (cases "length (contents (keyQueue s)) < QUEUE_COUNT - 1")
    case True
    from ring.enq_room [OF ring _ this, of "[k]"] True show ?thesis by (auto simp: keys_def)
  next
    case False
    then have "length (contents (keyQueue s)) = QUEUE_COUNT - 1" using ring.items_bound [OF ring] by simp
    from ring.enq_full [OF ring this] this ring show ?thesis by (simp add: keys_def)
  qed
  have kq: "keyQueue s' = ?q" if "proc.more s' = proc.more ?s" for s'
    using kbd_more(3) [OF that] by simp
  show thesis
  proof (cases "reader_waits s")
    case False
    then have "wakeupProcessInInterrupt (keyWaiter s) ?s = Some ?s"
      by (intro interrupt_wake_ignored) (auto simp: reader_waits_def)
    then show ?thesis using False ok q
      by (intro that [of ?s]) (auto simp: kbd_ok_def keys_def reader_waits_def keeps_parked_def)
  next
    case True
    then have b: "live (allocProcessTable ?s) (keyWaiter s)" "state_of ?s (keyWaiter s) = PROCESS_STATE_BLOCKED"
      using ok by (auto simp: kbd_ok_def reader_waits_def)
    have sok': "sched_ok ?s" using sok by simp
    obtain s' where s': "wakeupProcessInInterrupt (keyWaiter s) ?s = Some s'" "sched_ok s'"
      "asched_of s' = a_wake_isr (idleProcess ?s) (keyWaiter s) (asched_of ?s)" "sched_frame ?s s'"
      "keeps_parked {keyWaiter s} ?s s'" "state_of s' (keyWaiter s) \<noteq> PROCESS_STATE_BLOCKED"
      using interrupt_wake_parks [OF sok' b] by metis
    note fr = sched_frame_sel [OF s'(4)] note more = kbd_more [OF fr(12)]
    show ?thesis using True ok s' q fr(1,3) more
      by (intro that [of s']) (auto simp: kbd_ok_def keys_def reader_waits_def keeps_parked_def)
  qed
qed

lemma inputQueue_any:
  assumes ok: "kbd_ok s" and c: "follows io c (dev s) d"
  defines "k \<equiv> snd (decode_key (shiftOn s) c)"
  obtains s' where "inputQueue io c s = Some s'" "kbd_ok s'" "keys s' = push (keys s) k"
    "shiftOn s' = fst (decode_key (shiftOn s) c)" "keyWaiter s' = keyWaiter s" "mutexes s' = mutexes s"
    "asched_of s' = (if k \<noteq> 0 \<and> reader_waits s then a_wake_isr (idleProcess s) (keyWaiter s) (asched_of s) else asched_of s)"
    "keeps_parked (if k = 0 then {} else {keyWaiter s}) s s'" "reader_waits s' \<longleftrightarrow> k = 0 \<and> reader_waits s"
    "idleProcess s' = idleProcess s" "allocProcessTable s' = allocProcessTable s"
proof -
  define s1 where "s1 = s\<lparr>shiftOn := fst (decode_key (shiftOn s) c), dev := d\<rparr>"
  have scan: "scanToASCII io c s = Some (k, s1)" using scanToASCII_any [OF c] by (simp add: k_def s1_def)
  show thesis
  proof (cases "k = 0")
    case True
    have "kbd_ok s1" "keys s1 = keys s" "reader_waits s1 = reader_waits s" "asched_of s1 = asched_of s" "keeps_parked {} s s1"
      using ok by (simp_all add: s1_def keeps_parked_def)
    then show ?thesis using scan True
      by (intro that [of s1]) (simp_all add: inputQueue_def push_def, simp_all add: s1_def)
  next
    case False
    define s2 where "s2 = snd (setIf False s1)"
    have "kbd_ok s1" using ok by (simp add: s1_def)
    then have ok2: "kbd_ok s2" by (simp add: s2_def kbd_ok_def)
    have same: "keys s2 = keys s" "keyWaiter s2 = keyWaiter s" "mutexes s2 = mutexes s" "reader_waits s2 = reader_waits s"
      "asched_of s2 = asched_of s" "idleProcess s2 = idleProcess s" "shiftOn s2 = fst (decode_key (shiftOn s) c)"
      "parked s2 p = parked s p" "nodes s2 = nodes s" "allocProcessTable s2 = allocProcessTable s" for p
      by (simp_all add: s2_def keys_def reader_waits_def) (simp_all add: s1_def state_of_def [abs_def])
    have q12: "keyQueue s1 = keyQueue s2" "keyWaiter s1 = keyWaiter s2" by (simp_all add: s2_def)
    show ?thesis
    proof (rule put_key [OF ok2, of k], goal_cases)
      case (1 s3)
      define s4 where "s4 = snd (setIf (interrupts_on s1) s3)"
      have s4: "kbd_ok s4" "keys s4 = keys s3" "reader_waits s4 = reader_waits s3" "asched_of s4 = asched_of s3"
        "nodes s4 = nodes s3" "mutexes s4 = mutexes s3" "shiftOn s4 = shiftOn s3" "keyWaiter s4 = keyWaiter s3"
        "idleProcess s4 = idleProcess s3" "allocProcessTable s4 = allocProcessTable s3" "parked s4 p = parked s3 p" for p
        using 1(2) by (simp_all add: s4_def kbd_ok_def keys_def reader_waits_def)
      have "inputQueue io c s = Some s4"
        using False scan 1(1) q12 by (simp add: inputQueue_def s2_def [symmetric] case_prod_beta s4_def)
      moreover have "keys s4 = push (keys s) k" using False 1(3) by (simp add: s4 same push_def)
      moreover have "keeps_parked (if k = 0 then {} else {keyWaiter s}) s s4"
        using False 1(8) by (simp add: s4 same keeps_parked_def)
      moreover have "asched_of s4 = (if k \<noteq> 0 \<and> reader_waits s
          then a_wake_isr (idleProcess s) (keyWaiter s) (asched_of s) else asched_of s)"
        using False 1(7) by (simp only: s4 same simp_thms)
      ultimately show ?case using 1(4-6,9-11) False s4(1)
        by (intro that [of s4]) (simp_all add: s4 same)
    qed
  qed
qed

lemma inputQueue_plain:
  assumes ok: "kbd_ok s" and c: "plain c"
  defines "k \<equiv> snd (decode (shiftOn s) c)"
  obtains s' where "inputQueue io c s = Some s'" "kbd_ok s'" "keys s' = push (keys s) k"
    "shiftOn s' = fst (decode (shiftOn s) c)" "keyWaiter s' = keyWaiter s" "mutexes s' = mutexes s"
    "asched_of s' = (if k \<noteq> 0 \<and> reader_waits s then a_wake_isr (idleProcess s) (keyWaiter s) (asched_of s) else asched_of s)"
    "keeps_parked (if k = 0 then {} else {keyWaiter s}) s s'" "reader_waits s' \<longleftrightarrow> k = 0 \<and> reader_waits s"
    "idleProcess s' = idleProcess s" "allocProcessTable s' = allocProcessTable s"
proof -
  have "follows io c (dev s) (dev s)" "decode_key (shiftOn s) c = decode (shiftOn s) c"
    using c by (auto simp: follows_def plain_def decode_key_def)
  note f = this
  show thesis by (rule inputQueue_any [OF ok f(1), unfolded f(2), folded k_def]) (rule that)
qed

section \<open>A key is read\<close>

lemma queue_ok: "kbd_ok s \<Longrightarrow> ring_at QUEUE_COUNT 1 (keyQueue s)"
  by (simp add: kbd_ok_def)

lemma keys_Cons:
  assumes "kbd_ok s" and "keys s = k # ks"
  obtains bs q where "deQueue (keyQueue s) [d] = (True, bs, q)" "hd bs = k" "ring_at QUEUE_COUNT 1 q"
    "map hd (contents q) = ks"
proof -
  obtain bs xs where c: "contents (keyQueue s) = bs # xs" "hd bs = k" "map hd xs = ks"
    using assms(2) by (auto simp: keys_def)
  from deQueue_ok [OF _ c(1), of "[d]"] queue_ok [OF assms(1)]
  obtain q where "deQueue (keyQueue s) [d] = (True, bs, q)" "ring_ok q" "contents q = xs"
    "dataSize q = dataSize (keyQueue s)" "q_len q = q_len (keyQueue s)"
    by (auto simp: ring_at_def)
  with c queue_ok [OF assms(1)] show thesis by (intro that [of bs q]) (auto simp: ring_at_def)
qed

lemma keys_Nil:
  assumes "kbd_ok s" and "keys s = []"
  shows "deQueue (keyQueue s) d = (False, d, keyQueue s)"
  using deQueue_empty [of "keyQueue s" d] queueIsEmpty_iff [of "keyQueue s"] queue_ok [OF assms(1)] assms(2)
  by (simp add: ring_at_def keys_def)

lemma kbd_ok_upd:
  "kbd_ok s \<Longrightarrow> ring_at QUEUE_COUNT 1 q \<Longrightarrow> kbd_ok (snd (setIf b (s\<lparr>keyQueue := q\<rparr>)))"
  "kbd_ok s \<Longrightarrow> kbd_ok (snd (setIf b s))" "kbd_ok s \<Longrightarrow> kbd_ok (s\<lparr>keyWaiter := NULL\<rparr>)"
  by (simp_all add: kbd_ok_def)

lemma getQueue_step:
  assumes "kbd_ok s"
  shows "\<exists>s'. getQueue d s = (keys s \<noteq> [], if keys s = [] then d else hd (keys s), s') \<and> kbd_ok s' \<and>
    keys s' = tl (keys s) \<and> shiftOn s' = shiftOn s"
proof (cases "keys s")
  case Nil
  then show ?thesis using keys_Nil [OF assms Nil, of "[d]"] assms queue_ok [OF assms]
    by (simp add: getQueue_def case_prod_beta kbd_ok_upd) (simp add: keys_def)
next
  case (Cons k ks)
  from keys_Cons [OF assms Cons, of d] obtain bs q where
    "deQueue (keyQueue s) [d] = (True, bs, q)" "hd bs = k" "ring_at QUEUE_COUNT 1 q" "map hd (contents q) = ks"
    by blast
  with Cons assms show ?thesis
    by (simp add: getQueue_def case_prod_beta kbd_ok_upd) (simp add: keys_def kbd_ok_def)
qed

lemma getKeyTurn_key:
  assumes "kbd_ok s" and "keys s = k # ks"
  shows "\<exists>s'. getKeyTurn b s = Some (Some k, s') \<and> kbd_ok s' \<and> keys s' = ks \<and> keyWaiter s' = keyWaiter s \<and>
    asched_of s' = asched_of s"
proof -
  from keys_Cons [OF assms, of 0] obtain bs q where
    "deQueue (keyQueue s) [0] = (True, bs, q)" "hd bs = k" "ring_at QUEUE_COUNT 1 q" "map hd (contents q) = ks"
    by blast
  with assms show ?thesis
    by (simp add: getKeyTurn_def case_prod_beta kbd_ok_upd) (simp add: keys_def kbd_ok_def)
qed

lemma getKeyTurn_wait:
  assumes ok: "kbd_ok s" and none: "keys s = []" and may: "may_block s"
  obtains s' where "getKeyTurn b s = Some (None, s')" "kbd_ok s'" "keys s' = []" "keyWaiter s' = runningProcess s"
    "parked s' (runningProcess s)" "asched_of s' = a_dispatch (idleProcess s) (asched_of s)"
    "shiftOn s' = shiftOn s" "idleProcess s' = idleProcess s" "reader_waits s'"
proof -
  let ?s = "s\<lparr>keyWaiter := runningProcess s\<rparr>"
  have sok: "sched_ok ?s" using ok by (simp add: kbd_ok_def)
  have ne: "runningProcess ?s \<noteq> idleProcess ?s" "runningProcess ?s \<noteq> collectorProcess ?s"
    using may by (simp_all add: may_block_def)
  obtain s' where s': "blockRunningProcess ?s = Some s'" "sched_ok s'"
    "asched_of s' = a_dispatch (idleProcess ?s) (asched_of ?s)" "sched_frame ?s s'" "parked s' (runningProcess ?s)"
    using block_parks [OF sok ne(1)] ne(2) by metis
  note fr = sched_frame_sel [OF s'(4)] note more = kbd_more [OF fr(12)]
  obtain rs ss where rel: "sched_rel s' rs ss" using s'(2) by (auto elim: sched_okE)
  have p: "runningProcess s \<noteq> NULL" "live (allocProcessTable s') (runningProcess s)"
    using parked_fresh(5,6) [OF rel, of "runningProcess s"] s'(5) by simp_all
  have "getKeyTurn b s = Some (None, s')"
    using keys_Nil [OF ok none] s'(1) by (simp add: getKeyTurn_def getRunningProcess_def)
  then show thesis using s' p more fr(1) queue_ok [OF ok] none
    by (intro that [of s']) (auto simp: kbd_ok_def keys_def reader_waits_def parked_def)
qed

end
