(* ===== verification/KeyboardProps.thy ===== *)
theory KeyboardProps
  imports Keyboard SyncProps
begin

text \<open>
  The properties of the keyboard: one interrupt, the buffer as a bounded queue of decoded keys
  for any sequence of interrupts and reads, a blocked reader that is woken by the next key, and
  the special keys whose codes are those of letters.
\<close>

section \<open>The interrupt handler\<close>

text \<open>The controller has the scan code \<open>c\<close> for the interrupt handler, and the bytes that belong to it arrive.\<close>

definition delivers :: "'d portio \<Rightarrow> 'd \<Rightarrow> BYTE \<Rightarrow> bool" where
  "delivers io d c \<longleftrightarrow> fst (in_byte io STATE_REG d) AND 0x01 \<noteq> 0 \<and>
     (\<exists>d1 d2. arrives io (snd (in_byte io STATE_REG d)) c d1 \<and> follows io c d1 d2)"

lemma keys_bound: "kbd_ok s \<Longrightarrow> length (keys s) \<le> 49"
  using ring.items_bound [of QUEUE_COUNT 1 "keyQueue s"] by (simp add: kbd_ok_def keys_def QUEUE_COUNT_def)

lemma keyboard_polls:
  "isOutputBufferFull io s = (fst (in_byte io STATE_REG (dev s)) AND 0x01 \<noteq> 0, s\<lparr>dev := snd (in_byte io STATE_REG (dev s))\<rparr>)"
  by (simp add: isOutputBufferFull_def getPort_def split: prod.split)

text \<open>A keyboard interrupt with a scan code at the controller decodes it, stores the key unless
  49 keys are pending, and makes the process that waits for a key ready (giving it the processor
  if the idle process runs). It always returns, acknowledges the interrupt, keeps the invariant
  and leaves every other waiting process alone.\<close>

theorem keyboard_interrupt_step:
  assumes "kbd_ok s" and "delivers io (dev s) c"
  shows "\<exists>s'. keyboardInterruptHandler io v s = Some s' \<and> kbd_ok s' \<and>
    shiftOn s' = fst (decode_key (shiftOn s) c) \<and>
    keys s' = push (keys s) (snd (decode_key (shiftOn s) c)) \<and>
    asched_of s' = (if snd (decode_key (shiftOn s) c) \<noteq> 0 \<and> reader_waits s
                    then a_wake_isr (idleProcess s) (keyWaiter s) (asched_of s) else asched_of s) \<and>
    keeps_parked {keyWaiter s} s s' \<and> mutexes s' = mutexes s"
proof -
  let ?d = "snd (in_byte io STATE_REG (dev s))"
  obtain d1 d2 where full: "fst (in_byte io STATE_REG (dev s)) AND 1 \<noteq> 0" and c: "arrives io ?d c d1" "follows io c d1 d2"
    using assms(2) by (auto simp: delivers_def)
  have scan: "getScanCode io (s\<lparr>dev := ?d\<rparr>) = Some (c, s\<lparr>dev := d1\<rparr>)" using getScanCode_arrives [of io "s\<lparr>dev := ?d\<rparr>"] c(1) by simp
  have ok: "kbd_ok (s\<lparr>dev := d1\<rparr>)" "follows io c (dev (s\<lparr>dev := d1\<rparr>)) d2" using assms(1) c(2) by simp_all
  show ?thesis
  proof (rule inputQueue_any [OF ok], goal_cases)
    case (1 s2)
    note s2 = 1 [simplified]
    obtain d3 where e: "snd (sendEOI io (v - IRQ_START_OFFSET) s2) = s2\<lparr>dev := d3\<rparr>"
      using sendEOI_frame [of io "v - IRQ_START_OFFSET" s2] by metis
    have "keeps_parked {keyWaiter s} s (s2\<lparr>dev := d3\<rparr>)"
      using s2(8) by (auto simp: keeps_parked_def split: if_splits)
    moreover have "keyboardInterruptHandler io v s = Some (s2\<lparr>dev := d3\<rparr>)"
      using full scan s2(1) e by (simp add: keyboardInterruptHandler_def keyboard_polls)
    ultimately show ?case using s2(2-4,6,7)
      by (intro exI [of _ "s2\<lparr>dev := d3\<rparr>"]) (simp only: kbd_ok_dev kbd_dev_sel, simp)
  qed
qed

text \<open>Without a byte the handler only acknowledges the interrupt, and if one of the bytes never arrives it does not return.\<close>

lemma keyboard_interrupt_empty:
  assumes "fst (in_byte io STATE_REG (dev s)) AND 0x01 = 0"
  obtains d where "keyboardInterruptHandler io v s = Some (s\<lparr>dev := d\<rparr>)"
proof -
  obtain d where "snd (sendEOI io (v - IRQ_START_OFFSET) (s\<lparr>dev := snd (in_byte io STATE_REG (dev s))\<rparr>)) =
      s\<lparr>dev := snd (in_byte io STATE_REG (dev s))\<rparr>\<lparr>dev := d\<rparr>"
    using sendEOI_frame by metis
  then show thesis using assms by (intro that [of d]) (simp add: keyboardInterruptHandler_def keyboard_polls)
qed

lemma keyboard_interrupt_spins:
  assumes "keyboardInterruptHandler io v s \<noteq> None" and "fst (in_byte io STATE_REG (dev s)) AND 0x01 \<noteq> 0"
  shows "\<exists>c. delivers io (dev s) c"
proof -
  let ?d = "snd (in_byte io STATE_REG (dev s))"
  obtain c s1 s2 where scan: "getScanCode io (s\<lparr>dev := ?d\<rparr>) = Some (c, s1)" and q: "inputQueue io c s1 = Some s2"
    using assms by (auto simp: keyboardInterruptHandler_def keyboard_polls split: Option.bind_splits)
  have "arrives io ?d c (dev s1)" using arrives_getScanCode [OF scan] by simp
  moreover obtain r where "scanToASCII io c s1 = Some r" using q by (auto simp: inputQueue_def split: Option.bind_splits)
  ultimately show ?thesis using follows_scanToASCII [of io c s1] assms(2) by (auto simp: delivers_def)
qed

section \<open>Any sequence of interrupts and reads\<close>

text \<open>An interrupt, with the state of the controller then and the scan code it has, or a read by a program.\<close>

datatype 'd kbd_event = Scan 'd BYTE | Read

fun kbd_run :: "'d portio \<Rightarrow> 'd kbd_event list \<Rightarrow> ('d, 'z) kbd_scheme \<Rightarrow> (BYTE option list \<times> ('d, 'z) kbd_scheme) option" where
  "kbd_run io [] s = Some ([], s)"
| "kbd_run io (Scan d c # es) s = do {
     s1 \<leftarrow> keyboardInterruptHandler io (IRQ_START_OFFSET + IRQ_KEYBOARD) (s\<lparr>dev := d\<rparr>);
     kbd_run io es s1 }"
| "kbd_run io (Read # es) s =
     (let (success, data, s1) = getQueue 0 s
      in map_option (apfst ((#) (if success then Some data else None))) (kbd_run io es s1))"

fun kbd_spec :: "bool \<Rightarrow> BYTE list \<Rightarrow> 'd kbd_event list \<Rightarrow> BYTE option list \<times> BYTE list" where
  "kbd_spec sh ks [] = ([], ks)"
| "kbd_spec sh ks (Scan d c # es) = kbd_spec (fst (decode_key sh c)) (push ks (snd (decode_key sh c))) es"
| "kbd_spec sh [] (Read # es) = apfst ((#) None) (kbd_spec sh [] es)"
| "kbd_spec sh (k # ks) (Read # es) = apfst ((#) (Some k)) (kbd_spec sh ks es)"

definition delivered :: "'d portio \<Rightarrow> 'd kbd_event \<Rightarrow> bool" where
  "delivered io e \<longleftrightarrow> (case e of Scan d c \<Rightarrow> delivers io d c | Read \<Rightarrow> True)"

text \<open>C27: For any interleaving of keyboard interrupts and reads the driver behaves as a queue of at most
  49 decoded keys: reads return the keys in the order typed, each with the shift state at its
  key press, keys typed into a full queue are dropped and nothing else is lost. Every scan code counts: the two bytes
  after \<^verbatim>\<open>0xE1\<close> are swallowed and give the pause key, the one after \<^verbatim>\<open>0xE0\<close> is swallowed and
  gives none, so that arrows and delete type nothing. The bytes a prefix announces must arrive: the handler waits for
  them.\<close>

theorem keyboard_is_bounded_fifo:
  assumes "kbd_ok s" and "list_all (delivered io) es"
  shows "\<exists>s'. kbd_run io es s = Some (fst (kbd_spec (shiftOn s) (keys s) es), s') \<and> kbd_ok s' \<and>
    keys s' = snd (kbd_spec (shiftOn s) (keys s) es) \<and> length (keys s') \<le> 49"
  using assms
proof (induction es arbitrary: s)
  case Nil
  then show ?case by (simp add: keys_bound)
next
  case (Cons e es)
  show ?case
  proof (cases e)
    case (Scan d c)
    then have d: "kbd_ok (s\<lparr>dev := d\<rparr>)" "delivers io (dev (s\<lparr>dev := d\<rparr>)) c" using Cons.prems by (simp_all add: delivered_def)
    obtain s1 where
      "keyboardInterruptHandler io (IRQ_START_OFFSET + IRQ_KEYBOARD) (s\<lparr>dev := d\<rparr>) = Some s1" "kbd_ok s1"
      "keys s1 = push (keys s) (snd (decode_key (shiftOn s) c))" "shiftOn s1 = fst (decode_key (shiftOn s) c)"
      using keyboard_interrupt_step [OF d] by (simp, metis)
    with Cons.IH [of s1] Cons.prems(2) Scan show ?thesis by auto
  next
    case Read
    obtain s1 where s1: "getQueue 0 s = (keys s \<noteq> [], if keys s = [] then 0 else hd (keys s), s1)" "kbd_ok s1"
      "keys s1 = tl (keys s)" "shiftOn s1 = shiftOn s" using getQueue_step [OF Cons.prems(1), of 0] by blast
    from Cons.IH [OF s1(2)] Cons.prems(2) obtain s' where
      "kbd_run io es s1 = Some (fst (kbd_spec (shiftOn s1) (keys s1) es), s')" "kbd_ok s'"
      "keys s' = snd (kbd_spec (shiftOn s1) (keys s1) es)" "length (keys s') \<le> 49" by auto
    with s1 Read show ?thesis by (cases "keys s") auto
  qed
qed

section \<open>A reader that waits\<close>

text \<open>C28: \<^verbatim>\<open>getKey\<close> on an empty buffer blocks the caller and registers it, and the
  next key press makes it ready again with the key in the buffer: no key press is missed between
  the test and the blocking. When the process runs again it takes exactly that key and the
  registration is gone.\<close>

theorem blocked_reader_gets_key:
  assumes "kbd_ok s" and "may_block s" and "keys s = []"
    and "plain c" and "snd (decode (shiftOn s) c) \<noteq> 0"
  shows "\<exists>s1 s2 s3. getKey s = (interrupts_on s, Some (None, s1)) \<and>
    asched_of s1 = a_dispatch (idleProcess s) (asched_of s) \<and> parked s1 (runningProcess s) \<and>
    inputQueue io c s1 = Some s2 \<and>
    asched_of s2 = a_wake_isr (idleProcess s) (runningProcess s) (asched_of s1) \<and>
    getKeyResume (interrupts_on s) s2 = Some (Some (snd (decode (shiftOn s) c)), s3) \<and>
    kbd_ok s3 \<and> keys s3 = [] \<and> keyWaiter s3 = NULL \<and> asched_of s3 = asched_of s2"
proof -
  let ?s = "snd (setIf False s)" and ?k = "snd (decode (shiftOn s) c)"
  have s: "kbd_ok ?s" "keys ?s = []" "may_block ?s" using assms(1-3) by (simp_all add: kbd_ok_upd) (simp add: keys_def)
  obtain s1 where s1: "getKeyTurn (interrupts_on s) ?s = Some (None, s1)" "kbd_ok s1" "keys s1 = []"
    "keyWaiter s1 = runningProcess s" "parked s1 (runningProcess s)"
    "asched_of s1 = a_dispatch (idleProcess s) (asched_of s)" "shiftOn s1 = shiftOn s"
    "idleProcess s1 = idleProcess s" "reader_waits s1"
    using getKeyTurn_wait [OF s, of "interrupts_on s"] by auto
  obtain s2 where s2: "inputQueue io c s1 = Some s2" "kbd_ok s2" "keys s2 = [?k]"
    "asched_of s2 = a_wake_isr (idleProcess s) (runningProcess s) (asched_of s1)"
    using inputQueue_plain [OF s1(2) assms(4), of io] s1 assms(5) by (auto simp: push_def QUEUE_COUNT_def)
  have "kbd_ok (s2\<lparr>keyWaiter := NULL\<rparr>)" "keys (s2\<lparr>keyWaiter := NULL\<rparr>) = [?k]"
    using s2 by (simp_all add: kbd_ok_upd) (simp add: keys_def)
  from getKeyTurn_key [OF this, of "interrupts_on s"] obtain s3 where
    "getKeyResume (interrupts_on s) s2 = Some (Some ?k, s3)" "kbd_ok s3" "keys s3 = []" "keyWaiter s3 = NULL"
    "asched_of s3 = asched_of s2" by (auto simp: getKeyResume_def)
  then show ?thesis using s1 s2 by (auto simp: getKey_def case_prod_beta)
qed

section \<open>Special keys\<close>

text \<open>The codes of the special keys are ASCII codes of letters and reach the buffer as such:
  without shift, Ctrl types \<^verbatim>\<open>m\<close>, right Shift \<^verbatim>\<open>p\<close>, Alt \<^verbatim>\<open>n\<close>,
  Caps Lock \<^verbatim>\<open>r\<close> and F1 to F10 type \<^verbatim>\<open>a\<close> to \<^verbatim>\<open>j\<close>, exactly as the
  letter's own key does.\<close>

theorem special_keys_type_letters:
  "list_all (\<lambda>(special, letter).
       scanToASCII io special (s\<lparr>shiftOn := False\<rparr>) = scanToASCII io letter (s\<lparr>shiftOn := False\<rparr>) \<and>
       map_option fst (scanToASCII io special (s\<lparr>shiftOn := False\<rparr>)) \<noteq> Some 0)
     (zip [0x1D, 0x36, 0x38, 0x3A, 0x3B, 0x3C, 0x3D, 0x3E, 0x3F, 0x40, 0x41, 0x42, 0x43, 0x44]
          [0x32, 0x19, 0x31, 0x13, 0x1E, 0x30, 0x2E, 0x20, 0x12, 0x21, 0x22, 0x23, 0x17, 0x24])"
proof -
  have "list_all (\<lambda>(a, b). plain a \<and> plain b \<and> decode False a = decode False b \<and> snd (decode False a) \<noteq> 0)
      (zip [0x1D, 0x36, 0x38, 0x3A, 0x3B, 0x3C, 0x3D, 0x3E, 0x3F, 0x40, 0x41, 0x42, 0x43, 0x44]
           [0x32, 0x19, 0x31, 0x13, 0x1E, 0x30, 0x2E, 0x20, 0x12, 0x21, 0x22, 0x23, 0x17, 0x24])"
    by code_simp
  then show ?thesis by (auto simp: scanToASCII_plain)
qed

section \<open>Witnesses\<close>

text \<open>A controller that always has the scan code of \<^verbatim>\<open>a\<close>, and the booted machine with an
  empty key queue.\<close>

definition kb_io :: "unit portio" where
  "kb_io = \<lparr>in_byte = \<lambda>port d. (if port = BUFFER then 0x1E else 1, d), out_byte = \<lambda>_ _ d. d,
     in_word = \<lambda>_ d. (0, d), out_word = \<lambda>_ _ d. d\<rparr>"

definition booted_kbd :: "unit kbd" where
  "booted_kbd = ksync.extend booted_sync
     \<lparr>shiftOn = False, keyQueue = initQueue (replicate QUEUE_COUNT 0) (int QUEUE_COUNT) 1, keyWaiter = NULL\<rparr>"

lemma extend_ksync_rel: "sched_rel (ksync.extend s z) rs ss = sched_rel s rs ss"
  by (simp add: sched_rel_def core_of_def srep_def state_of_def [abs_def] ksync.extend_def)

lemma booted_kbd_sel:
  "sched_rel booted_kbd [pcbAddr 1] []" "runningProcess booted_kbd = pcbAddr 0"
  "idleProcess booted_kbd = pcbAddr 2" "collectorProcess booted_kbd = pcbAddr 1"
  "shiftOn booted_kbd = False" "keys booted_kbd = []" "keyWaiter booted_kbd = NULL"
  using booted_sync_sel
  by (simp_all add: booted_kbd_def extend_ksync_rel keys_def contents_init)
    (simp_all add: ksync.extend_def contents_init)

lemma booted_kbd_ok: "kbd_ok booted_kbd"
proof -
  have "ring_ok (initQueue (replicate QUEUE_COUNT 0) (int QUEUE_COUNT) 1)"
    by (rule ring_ok_init) (simp_all add: QUEUE_COUNT_def)
  then show ?thesis
    using sched_okI [OF booted_kbd_sel(1)]
    by (simp add: kbd_ok_def ring_at_def booted_kbd_def ksync.extend_def) (simp add: initQueue_def)
qed

lemma decode_a: "decode False 0x1E = (False, 97)" "plain 0x1E" "decode True 0x1E = (True, 65)" "plain 0x2A"
  "decode False 0x2A = (True, 0)"
  by code_simp+

lemma booted_kbd_run:
  "asched_of booted_kbd = \<lparr>a_run = pcbAddr 0, a_ready = [pcbAddr 1], a_sleep = []\<rparr>"
  using asched_of_rel [OF booted_kbd_sel(1)] booted_kbd_sel(2) by simp

lemma decode_key_a: "decode_key False 0x1E = (False, 97)" "decode_key True 0x1E = (True, 65)" "decode_key False 0x2A = (True, 0)"
  "decode_key True 0xE0 = (True, 0)" "decode_key True 0xE1 = (True, KEY_PAUSE)"
  by code_simp+

text \<open>A controller with the bytes still to come, one per read of its buffer.\<close>

definition wire :: "BYTE list portio" where
  "wire = \<lparr>in_byte = \<lambda>port d. (if port = BUFFER then (hd d, tl d) else (if d = [] then 0 else 1, d)), out_byte = \<lambda>_ _ d. d,
     in_word = \<lambda>_ d. (0, d), out_word = \<lambda>_ _ d. d\<rparr>"

lemma wire_poll: "in_byte wire STATE_REG d = (if d = [] then 0 else 1, d)" "in_byte wire BUFFER d = (hd d, tl d)"
  by (simp_all add: wire_def STATE_REG_def BUFFER_def)

lemma wire_arrives: "arrives wire (x # r) x r"
  by (rule arrives.full [of _ _ 1 "x # r"]) (simp_all add: wire_poll)

lemma wire_delivers:
  "plain c \<Longrightarrow> delivers wire (c # r) c" "delivers wire (0xE0 # x # r) 0xE0" "delivers wire (0xE1 # x # y # r) 0xE1"
  unfolding delivers_def follows_def plain_def wire_poll
  using wire_arrives by (simp_all, blast+)

text \<open>The booted machine, wired to another device.\<close>

definition wired :: "'d \<Rightarrow> 'd kbd" where
  "wired d =
     \<lparr>dev = d, picState = picState booted_kbd, counter0Reload = counter0Reload booted_kbd, nodes = nodes booted_kbd,
      pcbs = pcbs booted_kbd, runningProcess = runningProcess booted_kbd, idleProcess = idleProcess booted_kbd,
      processList = processList booted_kbd, sleepList = sleepList booted_kbd, pidCountIdx = pidCountIdx booted_kbd,
      allocProcessTable = allocProcessTable booted_kbd, exitProcessQueue = exitProcessQueue booted_kbd,
      collectorProcess = collectorProcess booted_kbd, tickCount = tickCount booted_kbd, cpu = cpu booted_kbd,
      ist = ist booted_kbd, tssRsp0 = tssRsp0 booted_kbd, pte = pte booted_kbd, tlbView = tlbView booted_kbd,
      ram = ram booted_kbd, interruptHandlers = interruptHandlers booted_kbd, mutexes = mutexes booted_kbd,
      shiftOn = shiftOn booted_kbd, keyQueue = keyQueue booted_kbd, keyWaiter = keyWaiter booted_kbd\<rparr>"

lemma wired_eq: "kbd_ok (wired d)" "keys (wired d) = []" "shiftOn (wired d) = False"
proof -
  have "sched_rel (wired d) rs ss = sched_rel booted_kbd rs ss" for rs ss
    by (simp add: sched_rel_def core_of_def srep_def state_of_def [abs_def] wired_def)
  then have "sched_ok (wired d)" using booted_kbd_sel(1) by (auto intro: sched_okI)
  then show "kbd_ok (wired d)" "keys (wired d) = []" "shiftOn (wired d) = False"
    using booted_kbd_ok booted_kbd_sel(5,6) by (simp_all add: kbd_ok_def wired_def keys_def)
qed

theorem keyboard_interrupt_step_witness:
  "\<exists>s'. keyboardInterruptHandler wire 33 (wired [0x1E]) = Some s' \<and> keys s' = [97]"
proof -
  have "delivers wire (dev (wired [0x1E])) 0x1E" using wire_delivers(1) [of "0x1E" "[]"] by (simp add: wired_def plain_def)
  from keyboard_interrupt_step [OF wired_eq(1) this, of 33]
  show ?thesis by (auto simp: decode_key_a wired_eq push_def QUEUE_COUNT_def)
qed

theorem keyboard_is_bounded_fifo_witness:
  "\<exists>s'. kbd_run wire [Scan [0x1E] 0x1E, Scan [0x2A] 0x2A, Scan [0x1E] 0x1E, Scan [0xE0, 0x48] 0xE0, Scan [0xE1, 0x1D, 0x45] 0xE1,
       Read, Read, Read, Read] (wired []) =
     Some ([Some 97, Some 65, Some KEY_PAUSE, None], s')"
proof -
  have "list_all (delivered wire) [Scan [0x1E] 0x1E, Scan [0x2A] 0x2A, Scan [0x1E] 0x1E, Scan [0xE0, 0x48] 0xE0,
      Scan [0xE1, 0x1D, 0x45] 0xE1, Read, Read, Read, Read]"
    by (simp add: delivered_def wire_delivers plain_def)
  from keyboard_is_bounded_fifo [OF wired_eq(1) this]
  show ?thesis by (auto simp: decode_key_a wired_eq push_def QUEUE_COUNT_def KEY_PAUSE_def)
qed

theorem blocked_reader_gets_key_witness:
  "\<exists>s1 s2 s3. getKey booted_kbd = (interrupts_on booted_kbd, Some (None, s1)) \<and>
     inputQueue kb_io 0x1E s1 = Some s2 \<and> a_ready (asched_of s2) = [pcbAddr 0] \<and>
     getKeyResume (interrupts_on booted_kbd) s2 = Some (Some 97, s3)"
proof -
  have may: "may_block booted_kbd" by (simp add: may_block_def booted_kbd_sel)
  have k: "snd (decode (shiftOn booted_kbd) 0x1E) \<noteq> 0" by (simp add: booted_kbd_sel decode_a)
  from blocked_reader_gets_key [OF booted_kbd_ok may booted_kbd_sel(6) decode_a(2) k, of kb_io]
  obtain s1 s2 s3 :: "unit kbd" where "getKey booted_kbd = (interrupts_on booted_kbd, Some (None, s1))"
    "asched_of s1 = a_dispatch (pcbAddr 2) (asched_of booted_kbd)" "inputQueue kb_io 0x1E s1 = Some s2"
    "asched_of s2 = a_wake_isr (pcbAddr 2) (pcbAddr 0) (asched_of s1)"
    "getKeyResume (interrupts_on booted_kbd) s2 = Some (Some 97, s3)"
    by (auto simp: decode_a booted_kbd_sel)
  then show ?thesis
    by (auto simp: booted_kbd_run a_dispatch_def a_wake_isr_def a_wake_def intro!: exI)
qed

end
