(* ===== verification/Console.thy ===== *)
theory Console
  imports CString
begin

text \<open>
  The text screen: \<^verbatim>\<open>common/Print.c\<close> and \<^verbatim>\<open>Print.h\<close>. Video memory is a memory
  from addresses to bytes, a character cell two bytes (character, attribute) of it;
  \<^verbatim>\<open>currentPoint\<close> is the address of the cursor's cell. Nothing in the code keeps the
  cursor on the screen, so neither does the type: that it stays there is proved where it does.
\<close>

section \<open>State\<close>

definition ONE_LINE_SIZE :: int where "ONE_LINE_SIZE = 160"
definition VIDEO_MEMORY_ADDR :: int where "VIDEO_MEMORY_ADDR = 0xB8000"
definition ONE_CHAR_SIZE :: int where "ONE_CHAR_SIZE = 2"
definition LINE_COUNT :: int where "LINE_COUNT = 25"
definition BACK_SPACE :: BYTE where "BACK_SPACE = 0x08"

lemmas video_defs = ONE_LINE_SIZE_def VIDEO_MEMORY_ADDR_def ONE_CHAR_SIZE_def LINE_COUNT_def

record videoCharacter =
  character :: BYTE
  attribute :: BYTE

record monitor =
  mvc :: "videoCharacter list"
  cp :: int

record console =
  vmem :: memory
  currentPoint :: int
  monitor :: monitor

definition set_character :: "int \<Rightarrow> BYTE \<Rightarrow> console \<Rightarrow> console" where
  "set_character a b s = s\<lparr>vmem := (vmem s)(nat a := b)\<rparr>"

definition set_attribute :: "int \<Rightarrow> BYTE \<Rightarrow> console \<Rightarrow> console" where
  "set_attribute a b s = s\<lparr>vmem := (vmem s)(nat (a + 1) := b)\<rparr>"

section \<open>Characters\<close>

definition moveToNextLine :: "console \<Rightarrow> console" where
  "moveToNextLine s =
     (let xIdx = (currentPoint s - VIDEO_MEMORY_ADDR) smod ONE_LINE_SIZE
      in s\<lparr>currentPoint := currentPoint s + (ONE_LINE_SIZE - xIdx)\<rparr>)"

function fill_loop :: "int \<Rightarrow> nat \<Rightarrow> console \<Rightarrow> console" where
  "fill_loop a i s =
     (if int i < ONE_LINE_SIZE div 2 then fill_loop (a + ONE_CHAR_SIZE) (Suc i) (set_character a 0 s) else s)"
  by pat_completeness auto
termination by (relation "measure (\<lambda>(a, i, s). nat (ONE_LINE_SIZE div 2) - i)") (auto simp: video_defs)

declare fill_loop.simps [simp del]

definition fillLastLineBlank :: "console \<Rightarrow> console" where
  "fillLastLineBlank s = fill_loop (VIDEO_MEMORY_ADDR + ONE_LINE_SIZE * (LINE_COUNT - 1)) 0 s"

definition viewCharacter :: "BYTE \<Rightarrow> console \<Rightarrow> console" where
  "viewCharacter ch s =
     (let videoMemory = currentPoint s
      in if ch = BACK_SPACE then
           let videoMemory = videoMemory - ONE_CHAR_SIZE;
               s1 = set_character videoMemory 0 s
           in s1\<lparr>currentPoint := currentPoint s1 - ONE_CHAR_SIZE\<rparr>
         else
           let s1 = s\<lparr>currentPoint := currentPoint s + ONE_CHAR_SIZE\<rparr>;
               (videoMemory, s2) =
                 (if currentPoint s1 \<ge> VIDEO_MEMORY_ADDR + ONE_LINE_SIZE * LINE_COUNT then
                    let s2 = s1\<lparr>vmem := memcpy (vmem s1) (nat VIDEO_MEMORY_ADDR)
                                 (nat (VIDEO_MEMORY_ADDR + ONE_LINE_SIZE)) (ONE_LINE_SIZE * (LINE_COUNT - 1))\<rparr>;
                        s3 = fillLastLineBlank s2
                    in (videoMemory - ONE_LINE_SIZE, s3\<lparr>currentPoint := currentPoint s3 - ONE_LINE_SIZE\<rparr>)
                  else (videoMemory, s1))
           in set_character videoMemory ch s2)"

definition viewCharacterXY :: "BYTE \<Rightarrow> int \<Rightarrow> int \<Rightarrow> console \<Rightarrow> console" where
  "viewCharacterXY ch line x s =
     (let videoMemory = VIDEO_MEMORY_ADDR + line * ONE_LINE_SIZE + 2 * x
      in if ch = BACK_SPACE then
           let s1 = set_character (videoMemory - ONE_CHAR_SIZE) 0 s
           in s1\<lparr>currentPoint := currentPoint s1 - ONE_CHAR_SIZE\<rparr>
         else set_character videoMemory ch (set_attribute videoMemory 0x0A s))"

section \<open>Strings and numbers\<close>

partial_function (option) print_loop :: "cptr \<Rightarrow> nat \<Rightarrow> console \<Rightarrow> console option" where
  "print_loop str i s = do {
     c \<leftarrow> str i;
     if c = 0 then Some s
     else print_loop str (Suc i) (if c = 10 then moveToNextLine s else viewCharacter c s) }"

definition printString :: "cptr \<Rightarrow> console \<Rightarrow> console option" where
  "printString str s = print_loop str 0 s"

definition puts :: "cptr \<Rightarrow> console \<Rightarrow> console option" where
  "puts str s = map_option moveToNextLine (printString str s)"

function line_loop :: "cptr \<Rightarrow> int \<Rightarrow> nat \<Rightarrow> console \<Rightarrow> console option" where
  "line_loop str line i s = do {
     c \<leftarrow> str i;
     if c \<noteq> 0 \<and> i \<le> 80 then line_loop str line (Suc i) (viewCharacterXY c line (int i) s) else Some s }"
  by pat_completeness auto
termination by (relation "measure (\<lambda>(str, line, i, s). 81 - i)") auto

declare line_loop.simps [simp del]

definition printStringLine :: "cptr \<Rightarrow> int \<Rightarrow> console \<Rightarrow> console option" where
  "printStringLine str line s = line_loop str line 0 s"

text \<open>The digits come from a string literal, whose 17th byte is its terminator.\<close>

definition hexDigit :: "int \<Rightarrow> BYTE option" where
  "hexDigit d =
     (if 0 \<le> d \<and> d < 10 then Some (word_of_int (48 + d))
      else if 10 \<le> d \<and> d < 16 then Some (word_of_int (55 + d))
      else if d = 16 then Some 0 else None)"

partial_function (option) int_digits :: "int \<Rightarrow> int \<Rightarrow> nat \<Rightarrow> BYTE list \<Rightarrow> (nat \<times> BYTE list) option" where
  "int_digits num radix count charNum =
     (if num > 0 then
        if radix = 0 then None
        else do {
          d \<leftarrow> hexDigit (num smod radix);
          if count < length charNum
          then int_digits (num sdiv radix) radix (Suc count) (charNum[count := d])
          else None }
      else Some (count, charNum))"

definition view_all :: "BYTE list \<Rightarrow> console \<Rightarrow> console" where
  "view_all bs s = fold viewCharacter bs s"

text \<open>A C \<^verbatim>\<open>int\<close>: the negation of the least one is itself.\<close>

definition negate_int :: "int \<Rightarrow> int" where
  "negate_int num = sint (word_of_int (- num) :: DWORD)"

definition printInt :: "int \<Rightarrow> int \<Rightarrow> console \<Rightarrow> console option" where
  "printInt num radix s =
     (if num = 0 then Some (viewCharacter 48 s)
      else
        let s1 = (if num < 0 then viewCharacter 45 s else s);
            num = (if num < 0 then negate_int num else num)
        in do {
          (count, charNum) \<leftarrow> int_digits num radix 0 (replicate 32 0);
          Some (view_all (take count (reverseArray charNum count)) s1) })"

partial_function (option) hex_digits :: "QWORD \<Rightarrow> nat \<Rightarrow> BYTE list \<Rightarrow> (nat \<times> BYTE list) option" where
  "hex_digits num count charNum =
     (if num > 0 then do {
        d \<leftarrow> hexDigit (uint (num mod 16));
        if count < length charNum
        then hex_digits (num div 16) (Suc count) (charNum[count := d])
        else None }
      else Some (count, charNum))"

definition printHex :: "QWORD \<Rightarrow> console \<Rightarrow> console option" where
  "printHex num s =
     (if num = 0 then Some (viewCharacter 48 s)
      else do {
        (count, charNum) \<leftarrow> hex_digits num 0 (replicate 16 0);
        Some (view_all (take count (reverseArray charNum count)) s) })"

text \<open>A string literal, with its terminator.\<close>

definition lit :: "string \<Rightarrow> cptr" where
  "lit cs i = (if i < length cs then Some (of_char (cs ! i)) else if i = length cs then Some 0 else None)"

definition okSign :: cptr where "okSign = lit ''OK''"
definition failSign :: cptr where "failSign = lit ''Fail''"

definition printStateAndReturn :: "bool \<Rightarrow> console \<Rightarrow> (bool \<times> console) option" where
  "printStateAndReturn state s = map_option (Pair state) (if state then puts okSign s else puts failSign s)"

section \<open>The whole screen\<close>

definition cursorInit :: "console \<Rightarrow> console" where
  "cursorInit s = s\<lparr>currentPoint := VIDEO_MEMORY_ADDR\<rparr>"

definition cursorLine :: "int \<Rightarrow> console \<Rightarrow> console" where
  "cursorLine line s = s\<lparr>currentPoint := VIDEO_MEMORY_ADDR + ONE_LINE_SIZE * line\<rparr>"

definition CELLS :: nat where "CELLS = nat (ONE_LINE_SIZE * LINE_COUNT div ONE_CHAR_SIZE)"

definition cell_addr :: "nat \<Rightarrow> int" where
  "cell_addr i = VIDEO_MEMORY_ADDR + ONE_CHAR_SIZE * int i"

definition clear :: "console \<Rightarrow> console" where
  "clear s = cursorInit (fold (\<lambda>i s. set_attribute (cell_addr i) 0x07 (set_character (cell_addr i) 0 s)) [0..<CELLS] s)"

definition saveVideoMemory :: "console \<Rightarrow> console" where
  "saveVideoMemory s = s\<lparr>monitor := \<lparr>mvc = map (\<lambda>i. \<lparr>character = vmem s (nat (cell_addr i)),
     attribute = vmem s (nat (cell_addr i + 1))\<rparr>) [0..<CELLS], cp = currentPoint s\<rparr>\<rparr>"

definition loadVideoMemory :: "console \<Rightarrow> console" where
  "loadVideoMemory s =
     (let vc = mvc (monitor s);
          s1 = fold (\<lambda>i s. set_character (cell_addr i) (character (vc ! i))
                         (set_attribute (cell_addr i) (attribute (vc ! i)) s)) [0..<CELLS] s
      in s1\<lparr>currentPoint := cp (monitor s1)\<rparr>)"

section \<open>The screen as a list of cells\<close>

definition cells :: "console \<Rightarrow> BYTE list" where
  "cells s = map (\<lambda>i. vmem s (nat (cell_addr i))) [0..<CELLS]"

definition cursor_at :: "console \<Rightarrow> nat \<Rightarrow> bool" where
  "cursor_at s k \<longleftrightarrow> currentPoint s = cell_addr k"

text \<open>Writing a character at cell \<open>k\<close>: the screen scrolls up one line when the cursor reaches its
  end. A write to a cell past the end is lost.\<close>

definition put_cell :: "BYTE \<Rightarrow> nat \<times> BYTE list \<Rightarrow> nat \<times> BYTE list" where
  "put_cell ch kc =
     (if fst kc + 1 < CELLS then (fst kc + 1, (snd kc)[fst kc := ch])
      else (fst kc + 1 - 80, (drop 80 (snd kc) @ replicate 80 0)[fst kc - 80 := ch]))"

definition new_line :: "nat \<times> BYTE list \<Rightarrow> nat \<times> BYTE list" where
  "new_line kc = ((fst kc div 80 + 1) * 80, snd kc)"

definition put_char :: "BYTE \<Rightarrow> nat \<times> BYTE list \<Rightarrow> nat \<times> BYTE list" where
  "put_char ch kc = (if ch = 10 then new_line kc else put_cell ch kc)"

lemma CELLS_eq: "CELLS = 2000"
  by (simp add: CELLS_def video_defs)

lemma length_cells [simp]: "length (cells s) = CELLS"
  by (simp add: cells_def)

lemma nat_cell_addr: "nat (cell_addr i) = 0xB8000 + 2 * i" "nat (cell_addr i + 1) = 0xB8000 + 2 * i + 1"
  by (simp_all add: cell_addr_def video_defs nat_add_distrib)

lemma nth_cells: "i < CELLS \<Longrightarrow> cells s ! i = vmem s (0xB8000 + 2 * i)"
  by (simp add: cells_def nat_cell_addr)

lemma cells_cong: "vmem s' = vmem s \<Longrightarrow> cells s' = cells s"
  by (simp add: cells_def)

lemma moveToNextLine_cell: "cursor_at s k \<Longrightarrow> cursor_at (moveToNextLine s) ((k div 80 + 1) * 80)"
proof -
  assume "cursor_at s k"
  then have c: "currentPoint s = 0xB8000 + 2 * int k" by (simp add: cursor_at_def cell_addr_def video_defs)
  have "(2 * int k) smod 160 = 2 * (int k mod 80)"
    by (subst smod_nonneg) (simp_all add: mod_mult_mult1 [of 2 "int k" 80, simplified])
  moreover have "int k mod 80 = int k - 80 * (int k div 80)" by (simp add: minus_div_mult_eq_mod [symmetric] mult.commute)
  ultimately show ?thesis
    by (simp add: moveToNextLine_def cursor_at_def cell_addr_def video_defs c zdiv_int)
qed

lemma moveToNextLine_sel [simp]: "vmem (moveToNextLine s) = vmem s" "monitor (moveToNextLine s) = monitor s"
  by (simp_all add: moveToNextLine_def Let_def)

lemma set_character_sel [simp]:
  "vmem (set_character a b s) = (vmem s)(nat a := b)" "currentPoint (set_character a b s) = currentPoint s"
  "monitor (set_character a b s) = monitor s"
  "vmem (set_attribute a b s) = (vmem s)(nat (a + 1) := b)" "currentPoint (set_attribute a b s) = currentPoint s"
  "monitor (set_attribute a b s) = monitor s"
  by (simp_all add: set_character_def set_attribute_def)

lemma fill_loop_eq:
  "0 \<le> a \<Longrightarrow> fill_loop a i s =
     s\<lparr>vmem := \<lambda>x. if nat a \<le> x \<and> x < nat a + 2 * (80 - i) \<and> even (x - nat a) then 0 else vmem s x\<rparr>"
proof (induction a i s rule: fill_loop.induct)
  case (1 a i s)
  show ?case
  proof (cases "i < 80")
    case True
    have step: "fill_loop a i s = fill_loop (a + 2) (Suc i) (set_character a 0 s)"
      using True by (subst fill_loop.simps) (simp add: video_defs)
    have IH: "fill_loop (a + 2) (Suc i) (set_character a 0 s) = set_character a 0 s\<lparr>vmem := \<lambda>x.
       if nat (a + 2) \<le> x \<and> x < nat (a + 2) + 2 * (80 - Suc i) \<and> even (x - nat (a + 2)) then 0
       else vmem (set_character a 0 s) x\<rparr>"
      using "1.IH" True "1.prems" by (simp add: video_defs)
    have n: "nat (a + 2) = nat a + 2" using "1.prems" by (simp add: nat_add_distrib)
    have "(if nat a + 2 \<le> x \<and> x < nat a + 2 + 2 * (80 - Suc i) \<and> even (x - (nat a + 2)) then 0
         else vmem (set_character a 0 s) x) =
        (if nat a \<le> x \<and> x < nat a + 2 * (80 - i) \<and> even (x - nat a) then 0 else vmem s x)" for x
    proof -
      consider "x < nat a" | "x = nat a" | "x = nat a + 1" | "nat a + 2 \<le> x" by linarith
      then show ?thesis
      proof cases
        case 4
        then obtain d where "x = nat a + 2 + d" by (metis le_Suc_ex)
        with True show ?thesis by auto
      qed (use True in auto)
    qed
    then show ?thesis unfolding step IH n by (simp add: set_character_def)
  next
    case False
    then have "(\<lambda>x. if nat a \<le> x \<and> x < nat a + 2 * (80 - i) \<and> even (x - nat a) then 0 else vmem s x) = vmem s"
      by (auto simp: fun_eq_iff)
    with False show ?thesis by (subst fill_loop.simps) (simp add: video_defs)
  qed
qed

lemma viewCharacter_low:
  assumes "ch \<noteq> BACK_SPACE" and "cursor_at s k" and "k + 1 < CELLS"
  shows "vmem (viewCharacter ch s) = (vmem s)(0xB8000 + 2 * k := ch)" and "cursor_at (viewCharacter ch s) (k + 1)"
    and "monitor (viewCharacter ch s) = monitor s"
  using assms by (simp_all add: viewCharacter_def Let_def cursor_at_def nat_cell_addr)
    (simp_all add: cell_addr_def video_defs CELLS_eq)

lemma viewCharacter_scroll:
  assumes "ch \<noteq> BACK_SPACE" and "cursor_at s k" and "k + 1 \<ge> CELLS"
  shows "vmem (viewCharacter ch s) = (\<lambda>x. if 0xB8000 + 3840 \<le> x \<and> x < 0xB8000 + 4000 \<and> even x then 0
      else if 0xB8000 \<le> x \<and> x < 0xB8000 + 3840 then vmem s (160 + x) else vmem s x)(0xB8000 + 2 * (k - 80) := ch)"
    and "cursor_at (viewCharacter ch s) (k + 1 - 80)" and "monitor (viewCharacter ch s) = monitor s"
proof -
  have k: "1999 \<le> k" using assms(3) by (simp add: CELLS_eq)
  have c: "currentPoint s = 0xB8000 + 2 * int k" using assms(2) by (simp add: cursor_at_def cell_addr_def video_defs)
  have m: "memcpy m 0xB8000 (0xB8000 + 160) 3840 =
      (\<lambda>a. if 0xB8000 \<le> a \<and> a < 0xB8000 + 3840 then m (0xB8000 + 160 + (a - 0xB8000)) else m a)" for m
    using memcpy_forward [of "0xB8000" "0xB8000 + 160" 3840 m] by simp
  have n: "nat (0xB8000 + 2 * int k - 160) = 0xB8000 + 2 * (k - 80)" using k by simp
  show "vmem (viewCharacter ch s) = (\<lambda>x. if 0xB8000 + 3840 \<le> x \<and> x < 0xB8000 + 4000 \<and> even x then 0
      else if 0xB8000 \<le> x \<and> x < 0xB8000 + 3840 then vmem s (160 + x) else vmem s x)(0xB8000 + 2 * (k - 80) := ch)"
    "cursor_at (viewCharacter ch s) (k + 1 - 80)" "monitor (viewCharacter ch s) = monitor s"
    using assms(1) k m [of "vmem s"] n
    by (auto simp: viewCharacter_def Let_def c video_defs fillLastLineBlank_def fill_loop_eq fun_eq_iff
        cursor_at_def cell_addr_def)
qed

lemma viewCharacter_cells:
  assumes "ch \<noteq> BACK_SPACE" and "cursor_at s k"
  shows "cursor_at (viewCharacter ch s) (fst (put_cell ch (k, cells s)))"
    and "cells (viewCharacter ch s) = snd (put_cell ch (k, cells s))"
    and "monitor (viewCharacter ch s) = monitor s"
proof -
  show "cursor_at (viewCharacter ch s) (fst (put_cell ch (k, cells s)))" "monitor (viewCharacter ch s) = monitor s"
    using viewCharacter_low [OF assms] viewCharacter_scroll [OF assms]
    by (cases "k + 1 < CELLS"; simp add: put_cell_def)+
  show "cells (viewCharacter ch s) = snd (put_cell ch (k, cells s))"
  proof (cases "k + 1 < CELLS")
    case True
    then show ?thesis
      by (intro nth_equalityI) (auto simp: put_cell_def nth_cells viewCharacter_low [OF assms True] nth_list_update)
  next
    case False
    then have k: "CELLS \<le> k + 1" "80 \<le> k" by (simp_all add: CELLS_eq)
    show ?thesis
    proof (rule nth_equalityI)
      show "length (cells (viewCharacter ch s)) = length (snd (put_cell ch (k, cells s)))"
        using False by (simp add: put_cell_def CELLS_eq)
      fix j assume "j < length (cells (viewCharacter ch s))"
      then have j: "j < CELLS" "j < 2000" by (simp_all add: CELLS_eq)
      have "0xB8000 + 2 * j = 0xB8000 + 2 * (k - 80) \<longleftrightarrow> j = k - 80" by auto
      then show "cells (viewCharacter ch s) ! j = snd (put_cell ch (k, cells s)) ! j"
        using False j(2) by (auto simp: put_cell_def nth_cells [OF j(1)] viewCharacter_scroll(1) [OF assms k(1)]
            nth_list_update nth_append CELLS_eq nth_cells)
    qed
  qed
qed

lemma moveToNextLine_cells:
  "cursor_at s k \<Longrightarrow> cursor_at (moveToNextLine s) (fst (new_line (k, cells s))) \<and>
     cells (moveToNextLine s) = snd (new_line (k, cells s))"
  using moveToNextLine_cell cells_cong [OF moveToNextLine_sel(1)] by (simp add: new_line_def)

lemma print_loop_cells:
  "cstr_at p i t \<Longrightarrow> BACK_SPACE \<notin> set t \<Longrightarrow> cursor_at s k \<Longrightarrow>
   \<exists>s'. print_loop p i s = Some s' \<and> cursor_at s' (fst (fold put_char t (k, cells s))) \<and>
     cells s' = snd (fold put_char t (k, cells s)) \<and> monitor s' = monitor s"
proof (induction t arbitrary: i s k)
  case Nil
  then show ?case by (subst print_loop.simps) simp
next
  case (Cons c t)
  define s1 where "s1 = (if c = 10 then moveToNextLine s else viewCharacter c s)"
  have ne: "c \<noteq> BACK_SPACE" using Cons.prems(2) by auto
  have 1: "cursor_at s1 (fst (put_char c (k, cells s)))" "cells s1 = snd (put_char c (k, cells s))"
    "monitor s1 = monitor s"
    using moveToNextLine_cells [OF Cons.prems(3)] viewCharacter_cells [OF ne Cons.prems(3)]
    by (auto simp: s1_def put_char_def)
  from Cons.IH [OF _ _ 1(1), of "Suc i"] Cons.prems(1,2) 1(2,3) show ?case
    by (subst print_loop.simps) (simp add: s1_def)
qed

section \<open>Numbers\<close>

text \<open>The digits of a positive number, least significant first, and the number a digit string
  denotes.\<close>

function digits_le :: "nat \<Rightarrow> nat \<Rightarrow> BYTE list" where
  "digits_le r n = (if n = 0 \<or> r < 2 then [] else the (hexDigit (int (n mod r))) # digits_le r (n div r))"
  by pat_completeness auto
termination by (relation "measure snd") auto

declare digits_le.simps [simp del]

definition dval :: "BYTE \<Rightarrow> nat" where
  "dval b = (if unat b \<le> 57 then unat b - 48 else unat b - 55)"

definition number_of :: "nat \<Rightarrow> BYTE list \<Rightarrow> nat" where
  "number_of r ds = fold (\<lambda>d v. v * r + dval d) ds 0"

lemma hexDigit_val: "0 \<le> d \<Longrightarrow> d < 16 \<Longrightarrow> \<exists>b. hexDigit d = Some b \<and> dval b = nat d"
proof -
  assume "0 \<le> d" "d < 16"
  then have "d = 0 \<or> d = 1 \<or> d = 2 \<or> d = 3 \<or> d = 4 \<or> d = 5 \<or> d = 6 \<or> d = 7 \<or> d = 8 \<or> d = 9 \<or>
      d = 10 \<or> d = 11 \<or> d = 12 \<or> d = 13 \<or> d = 14 \<or> d = 15" by arith
  then show ?thesis by (elim disjE) (simp_all add: hexDigit_def dval_def)
qed

lemma digits_value: "2 \<le> r \<Longrightarrow> r \<le> 16 \<Longrightarrow> number_of r (rev (digits_le r n)) = n"
proof (induction n rule: less_induct)
  case (less n)
  show ?case
  proof (cases "n = 0")
    case True
    then show ?thesis by (simp add: number_of_def digits_le.simps)
  next
    case False
    then have lt: "n div r < n" "n mod r < 16" using less.prems by (auto intro: order_less_le_trans [OF mod_less_divisor])
    obtain b where b: "hexDigit (int (n mod r)) = Some b" "dval b = n mod r"
      using hexDigit_val [of "int (n mod r)"] lt(2) by auto
    have "number_of r (rev (digits_le r n)) = number_of r (rev (digits_le r (n div r))) * r + dval b"
      using False less.prems b(1) by (subst digits_le.simps) (simp add: number_of_def)
    with less.IH [OF lt(1) less.prems] b(2) show ?thesis by simp
  qed
qed

lemma digits_bound: "2 \<le> r \<Longrightarrow> n < r ^ m \<Longrightarrow> length (digits_le r n) \<le> m"
proof (induction m arbitrary: n)
  case 0
  then show ?case by (simp add: digits_le.simps)
next
  case (Suc m)
  have "n div r < r ^ m" using Suc.prems by (simp add: less_mult_imp_div_less mult.commute)
  with Suc.IH [OF Suc.prems(1) this] show ?case by (subst digits_le.simps) simp
qed

lemma sdiv_nonneg: "0 \<le> a \<Longrightarrow> 0 < b \<Longrightarrow> (a::int) sdiv b = a div b"
  by (auto simp: signed_divide_int_def sgn_if)

lemma int_digits_eq:
  "2 \<le> r \<Longrightarrow> r \<le> 16 \<Longrightarrow> count + length (digits_le r n) \<le> length buf \<Longrightarrow>
   \<exists>buf'. int_digits (int n) (int r) count buf = Some (count + length (digits_le r n), buf') \<and>
     length buf' = length buf \<and> take (count + length (digits_le r n)) buf' = take count buf @ digits_le r n"
proof (induction n arbitrary: count buf rule: less_induct)
  case (less n)
  show ?case
  proof (cases "n = 0")
    case True
    then show ?thesis by (subst int_digits.simps) (simp add: digits_le.simps)
  next
    case False
    then have lt: "n div r < n" "n mod r < 16" using less.prems by (auto intro: order_less_le_trans [OF mod_less_divisor])
    obtain b where b: "hexDigit (int (n mod r)) = Some b" using hexDigit_val [of "int (n mod r)"] lt(2) by auto
    have d: "digits_le r n = b # digits_le r (n div r)" using False less.prems b by (subst digits_le.simps) simp
    have "int n smod int r = int (n mod r)" "int n sdiv int r = int (n div r)"
      using less.prems(1) by (simp_all add: smod_nonneg sdiv_nonneg zmod_int zdiv_int)
    then have step: "int_digits (int n) (int r) count buf = int_digits (int (n div r)) (int r) (Suc count) (buf[count := b])"
      using False less.prems b d by (subst int_digits.simps) simp
    have "take (Suc count) (buf[count := b]) = take count buf @ [b]"
      using less.prems(3) d by (simp add: take_Suc_conv_app_nth)
    then show ?thesis
      using less.IH [OF lt(1) less.prems(1,2), of "Suc count" "buf[count := b]"] less.prems(3)
      by (auto simp: step d)
  qed
qed

lemma hex_digits_eq:
  "count + length (digits_le 16 (unat n)) \<le> length buf \<Longrightarrow>
   hex_digits n count buf = int_digits (int (unat n)) 16 count buf"
proof (induction "unat n" arbitrary: n count buf rule: less_induct)
  case less
  show ?case
  proof (cases "n = 0")
    case True
    then show ?thesis by (subst hex_digits.simps, subst int_digits.simps) simp
  next
    case False
    then have pos: "0 < unat n" by (simp add: unat_gt_0)
    have m: "uint (n mod 16) = int (unat n mod 16)" "unat (n div 16) = unat n div 16"
      by (simp_all add: uint_mod unat_div zmod_int)
    obtain b where b: "hexDigit (int (unat n mod 16)) = Some b" using hexDigit_val [of "int (unat n mod 16)"] by auto
    have d: "digits_le 16 (unat n) = b # digits_le 16 (unat n div 16)" using pos b by (subst digits_le.simps) simp
    have i: "int (unat n) smod 16 = int (unat n mod 16)" "int (unat n) sdiv 16 = int (unat n div 16)"
      by (simp_all add: smod_nonneg sdiv_nonneg zmod_int zdiv_int)
    have "hex_digits n count buf = hex_digits (n div 16) (Suc count) (buf[count := b])"
      using False less.prems d b m(1) by (subst hex_digits.simps) (simp add: word_gt_0)
    also have "\<dots> = int_digits (int (unat (n div 16))) 16 (Suc count) (buf[count := b])"
      by (rule less.hyps) (use pos m(2) less.prems d in \<open>simp_all del: of_nat_unat\<close>)
    also have "\<dots> = int_digits (int (unat n)) 16 count buf"
      using pos less.prems d b i m(2) by (subst (2) int_digits.simps) (simp del: of_nat_unat)
    finally show ?thesis .
  qed
qed

section \<open>Saving and restoring\<close>

lemma write_cells:
  "vmem (fold (\<lambda>i s. set_character (cell_addr i) (f i) (set_attribute (cell_addr i) (g i) s)) [0..<n] s) =
     (\<lambda>x. if 0xB8000 \<le> x \<and> x < 0xB8000 + 2 * n
          then if even x then f ((x - 0xB8000) div 2) else g ((x - 0xB8000) div 2) else vmem s x) \<and>
   monitor (fold (\<lambda>i s. set_character (cell_addr i) (f i) (set_attribute (cell_addr i) (g i) s)) [0..<n] s) = monitor s"
proof (induction n)
  case 0
  then show ?case by (auto simp: fun_eq_iff)
next
  case (Suc n)
  have "x < 0xB8000 + 2 * Suc n \<longleftrightarrow> x < 0xB8000 + 2 * n \<or> x = 0xB8000 + 2 * n \<or> x = 0xB8000 + 2 * n + 1" for x
    by auto
  then show ?case using Suc.IH by (auto simp: nat_cell_addr fun_eq_iff)
qed

lemma fold_monitor: "(\<And>i s. monitor (F i s) = monitor s) \<Longrightarrow> monitor (fold F xs s) = monitor s"
  by (induction xs arbitrary: s) simp_all

lemma clear_monitor: "monitor (clear s) = monitor s"
  by (simp add: clear_def cursorInit_def fold_monitor)

lemma load_eq:
  "vmem (loadVideoMemory t) = (\<lambda>x. if 0xB8000 \<le> x \<and> x < 0xB8000 + 2 * CELLS
     then if even x then character (mvc (monitor t) ! ((x - 0xB8000) div 2))
          else attribute (mvc (monitor t) ! ((x - 0xB8000) div 2)) else vmem t x)"
  "currentPoint (loadVideoMemory t) = cp (monitor t)"
  using write_cells [of "\<lambda>i. character (mvc (monitor t) ! i)" "\<lambda>i. attribute (mvc (monitor t) ! i)" CELLS t]
  by (simp_all add: loadVideoMemory_def Let_def)

lemma load_save:
  assumes "monitor t = monitor (saveVideoMemory s)"
  shows "vmem (loadVideoMemory t) = (\<lambda>x. if 0xB8000 \<le> x \<and> x < 0xB8000 + 2 * CELLS then vmem s x else vmem t x)"
    and "currentPoint (loadVideoMemory t) = currentPoint s"
proof -
  have "2 * ((x - 0xB8000) div 2) + 0xB8000 = (if even x then x else x - 1)" if "0xB8000 \<le> x" for x :: nat
    using that by (auto elim!: evenE oddE)
  then have "(if even x then character (mvc (monitor t) ! ((x - 0xB8000) div 2))
      else attribute (mvc (monitor t) ! ((x - 0xB8000) div 2))) = vmem s x"
    if "0xB8000 \<le> x" "x < 0xB8000 + 2 * CELLS" for x
    using that unfolding assms by (auto simp: saveVideoMemory_def nat_cell_addr elim!: evenE oddE)
  then show "vmem (loadVideoMemory t) = (\<lambda>x. if 0xB8000 \<le> x \<and> x < 0xB8000 + 2 * CELLS then vmem s x else vmem t x)"
    unfolding load_eq by (simp add: fun_eq_iff)
  show "currentPoint (loadVideoMemory t) = currentPoint s"
    unfolding load_eq assms by (simp add: saveVideoMemory_def)
qed

end
