(* ===== verification/ConsoleProps.thy ===== *)
theory ConsoleProps
  imports Console
begin

text \<open>
  The properties of the text screen: strings, what literals and numbers type, the saved screen, and the
  character that is lost after two new lines on the last line.
\<close>

text \<open>\<^verbatim>\<open>printString\<close> of a string without backspaces returns for every cursor
  position and writes its characters one after the other: a new line goes to the next multiple
  of 80, and a character that takes the cursor past the end scrolls the screen up by one line.\<close>

theorem print_string_on_screen:
  assumes "cstr p t" and "BACK_SPACE \<notin> set t" and "cursor_at s k"
  shows "\<exists>s'. printString p s = Some s' \<and> cursor_at s' (fst (fold put_char t (k, cells s))) \<and>
    cells s' = snd (fold put_char t (k, cells s))"
  using print_loop_cells [OF assms] by (auto simp: printString_def)

definition blank :: console where
  "blank = \<lparr>vmem = \<lambda>_. 0, currentPoint = 0xB8000 + 2 * 1998, monitor = \<lparr>mvc = [], cp = 0\<rparr>\<rparr>"

lemma cells_blank: "cells blank = replicate CELLS 0"
  by (rule nth_equalityI) (simp_all add: cells_def blank_def)

lemma print_end:
  "(drop 80 ((replicate 2000 (0::BYTE))[1998 := a]) @ replicate 80 0)[1919 := b] = replicate 1918 0 @ [a, b] @ replicate 80 0"
proof (rule nth_equalityI)
  fix i assume "i < length ((drop 80 ((replicate 2000 (0::BYTE))[1998 := a]) @ replicate 80 0)[1919 := b])"
  then have "i < 1918 \<or> i = 1918 \<or> i = 1919 \<or> 1919 < i \<and> i < 2000" by auto
  then show "(drop 80 ((replicate 2000 (0::BYTE))[1998 := a]) @ replicate 80 0)[1919 := b] ! i =
      (replicate 1918 0 @ [a, b] @ replicate 80 0) ! i"
    by (elim disjE) (simp_all add: nth_append nth_list_update nth_Cons')
qed simp

theorem print_string_on_screen_witness:
  "\<exists>s'. printString (lit ''OK'') blank = Some s' \<and> cursor_at s' 1920 \<and>
     cells s' = replicate 1918 0 @ [79, 75] @ replicate 80 0"
proof -
  have "cstr (lit ''OK'') [79, 75]" "cursor_at blank 1998" "BACK_SPACE \<notin> set [79, 75]"
    by (simp_all add: lit_def cursor_at_def blank_def cell_addr_def video_defs BACK_SPACE_def)
  from print_string_on_screen [OF this(1,3,2)] show ?thesis
    by (simp add: put_char_def put_cell_def CELLS_eq cells_blank print_end)
qed

section \<open>What is typed\<close>

text \<open>Bytes typed one after the other, a new line moving the cursor; the characters of a literal and the digits of a number.\<close>

definition type_char :: "BYTE \<Rightarrow> console \<Rightarrow> console" where
  "type_char ch s = (if ch = 10 then moveToNextLine s else viewCharacter ch s)"

definition type_text :: "BYTE list \<Rightarrow> console \<Rightarrow> console" where
  "type_text bs s = fold type_char bs s"

definition chars :: "string \<Rightarrow> BYTE list" where
  "chars cs = map of_char cs"

definition decimal :: "int \<Rightarrow> BYTE list" where
  "decimal n = (if n = 0 then [48] else (if n < 0 then [45] else []) @ rev (digits_le 10 (nat \<bar>n\<bar>)))"

definition hexadecimal :: "QWORD \<Rightarrow> BYTE list" where
  "hexadecimal w = (if w = 0 then [48] else rev (digits_le 16 (unat w)))"

lemma type_text_simps [simp]:
  "type_text [] s = s" "type_text (bs @ bs') s = type_text bs' (type_text bs s)" "type_text (10 # bs) s = type_text bs (moveToNextLine s)"
  by (simp_all add: type_text_def type_char_def)

lemma hexDigit_visible: "hexDigit d = Some b \<Longrightarrow> d < 16 \<Longrightarrow> b \<noteq> 10"
proof -
  assume b: "hexDigit d = Some b" "d < 16"
  then have "0 \<le> d" by (auto simp: hexDigit_def split: if_splits)
  with b(2) have "d = 0 \<or> d = 1 \<or> d = 2 \<or> d = 3 \<or> d = 4 \<or> d = 5 \<or> d = 6 \<or> d = 7 \<or> d = 8 \<or> d = 9 \<or>
      d = 10 \<or> d = 11 \<or> d = 12 \<or> d = 13 \<or> d = 14 \<or> d = 15" by arith
  then show ?thesis using b(1) by (auto simp: hexDigit_def)
qed

lemma digits_visible: "r \<le> 16 \<Longrightarrow> 10 \<notin> set (digits_le r n)"
proof (induction r n rule: digits_le.induct)
  case (1 r n)
  show ?case
  proof (cases "n = 0 \<or> r < 2")
    case True
    then show ?thesis by (subst digits_le.simps) auto
  next
    case False
    then have d: "int (n mod r) < 16" "0 \<le> int (n mod r)"
      using 1(2) by (metis linorder_not_less mod_less_divisor less_le_trans of_nat_less_numeral_iff not_less_zero neq0_conv zero_less_numeral, simp)
    then obtain b where "hexDigit (int (n mod r)) = Some b" using hexDigit_val by blast
    with False 1 d hexDigit_visible show ?thesis by (subst digits_le.simps) auto
  qed
qed

lemma view_typed: "10 \<notin> set bs \<Longrightarrow> view_all bs s = type_text bs s"
proof -
  assume "10 \<notin> set bs"
  then show ?thesis
    unfolding view_all_def type_text_def by (intro fold_cong) (auto simp: type_char_def)
qed

lemma print_loop_lit:
  "i \<le> length cs \<Longrightarrow> 0 \<notin> set (chars cs) \<Longrightarrow> print_loop (lit cs) i s = Some (type_text (drop i (chars cs)) s)"
proof (induction "length cs - i" arbitrary: i s)
  case 0
  then show ?case by (subst print_loop.simps) (simp add: lit_def chars_def)
next
  case (Suc n)
  then have i: "i < length cs" "Suc i \<le> length cs" "n = length cs - Suc i" by auto
  then have ne: "of_char (cs ! i) \<noteq> (0 :: BYTE)" using Suc.prems(2) by (auto simp: chars_def)
  have "drop i (chars cs) = of_char (cs ! i) # drop (Suc i) (chars cs)"
    using i(1) by (simp add: chars_def flip: Cons_nth_drop_Suc)
  then show ?case using Suc.hyps(1) [OF i(3,2)] Suc.prems(2) i(1) ne
    by (subst print_loop.simps) (simp add: lit_def type_text_def type_char_def)
qed

lemma print_typed:
  assumes "0 \<notin> set (chars cs)"
  shows "printString (lit cs) s = Some (type_text (chars cs) s)" "puts (lit cs) s = Some (type_text (chars cs @ [10]) s)"
  using print_loop_lit [OF _ assms, of 0] by (simp_all add: printString_def puts_def)

text \<open>\<^verbatim>\<open>printHex\<close> prints the hexadecimal digits of its argument: it returns, stays
  inside its 16-byte buffer, and the digits denote the number.\<close>

theorem printHex_typed: "printHex num s = Some (type_text (hexadecimal num) s)"
proof (cases "num = 0")
  case True
  then show ?thesis by (simp add: printHex_def hexadecimal_def type_text_def type_char_def)
next
  case False
  let ?ds = "digits_le 16 (unat num)"
  have "unat num < 16 ^ 16" using unsigned_less [of num] by simp
  then have len: "length ?ds \<le> 16" by (intro digits_bound) simp_all
  have h: "hex_digits num 0 (replicate 16 0) = int_digits (int (unat num)) (int 16) 0 (replicate 16 0)"
    using hex_digits_eq [of 0 num "replicate 16 0"] len by simp
  obtain buf where buf: "int_digits (int (unat num)) (int 16) 0 (replicate 16 0) = Some (length ?ds, buf)"
    "length buf = 16" "take (length ?ds) buf = ?ds"
    using int_digits_eq [of 16 0 "unat num" "replicate 16 0"] len by auto
  have "take (length ?ds) (reverseArray buf (length ?ds)) = rev ?ds"
    using len buf by (simp add: reverseArray_eq)
  then show ?thesis
    using False len h buf(1) digits_visible [of 16 "unat num"] view_typed [of "rev ?ds"]
    by (simp add: printHex_def hexadecimal_def)
qed

lemma hexadecimal_value: "number_of 16 (hexadecimal w) = unat w"
  using digits_value [of 16 "unat w"] by (simp add: hexadecimal_def number_of_def dval_def)

lemma negate_int_eq: "- (2 ^ 31) < num \<Longrightarrow> num < 2 ^ 31 \<Longrightarrow> negate_int num = - num"
  unfolding negate_int_def int_word_sint by simp

text \<open>\<^verbatim>\<open>printInt\<close> in a base from 2 to 16 prints a minus sign for a negative number
  and the digits of its absolute value, inside its 32-byte buffer; of the least \<^verbatim>\<open>int\<close>,
  whose negation overflows, it prints the sign alone.\<close>

theorem print_int_roundtrip:
  assumes "2 \<le> radix" and "radix \<le> 16" and "- (2 ^ 31) \<le> num" and "num < 2 ^ 31"
  shows "\<exists>ds. printInt num radix s = Some (view_all ((if num < 0 then [45] else []) @ ds) s) \<and>
    (if num = - (2 ^ 31) then ds = [] else int (number_of (nat radix) ds) = \<bar>num\<bar>)"
proof -
  consider "num = 0" | "num = - (2 ^ 31)" | "num \<noteq> 0" "num \<noteq> - (2 ^ 31)" by blast
  then show ?thesis
  proof cases
    case 1
    then show ?thesis by (intro exI [of _ "[48]"]) (simp add: printInt_def view_all_def number_of_def dval_def)
  next
    case 2
    then show ?thesis
      by (intro exI [of _ "[]"])
        (simp add: printInt_def view_all_def negate_int_def int_digits.simps reverseArray_eq)
  next
    case 3
    let ?n = "nat \<bar>num\<bar>" and ?r = "nat radix"
    let ?ds = "digits_le ?r ?n"
    have r: "2 \<le> ?r" "?r \<le> 16" "int ?r = radix" using assms(1,2) by auto
    have "?n < 2 ^ 31" using assms(3,4) 3 by auto
    also have "(2::nat) ^ 31 \<le> ?r ^ 31" using r(1) by (rule power_mono) simp
    finally have len: "length ?ds \<le> 31" using r(1) by (intro digits_bound) simp_all
    have abs: "(if num < 0 then negate_int num else num) = int ?n"
      using assms(3,4) 3 negate_int_eq [of num] by auto
    obtain buf where buf: "int_digits (int ?n) radix 0 (replicate 32 0) = Some (length ?ds, buf)"
      "length buf = 32" "take (length ?ds) buf = ?ds"
      using int_digits_eq [of ?r 0 ?n "replicate 32 0"] len r by auto
    have "take (length ?ds) (reverseArray buf (length ?ds)) = rev ?ds"
      using len buf by (simp add: reverseArray_eq)
    then show ?thesis
      using 3 buf(1) digits_value [OF r(1,2), of ?n] abs
      by (intro exI [of _ "rev ?ds"]) (simp add: printInt_def view_all_def)
  qed
qed

lemma printInt_typed:
  assumes "- (2 ^ 31) < num" and "num < 2 ^ 31"
  shows "printInt num 10 s = Some (type_text (decimal num) s)"
proof (cases "num = 0")
  case True
  then show ?thesis by (simp add: printInt_def decimal_def type_text_def type_char_def)
next
  case False
  let ?n = "nat \<bar>num\<bar>"
  let ?ds = "digits_le 10 ?n"
  have "?n < 2 ^ 31" using assms by auto
  also have "(2::nat) ^ 31 \<le> 10 ^ 31" by (rule power_mono) simp_all
  finally have len: "length ?ds \<le> 31" by (intro digits_bound) simp_all
  have abs: "(if num < 0 then negate_int num else num) = int ?n"
    using assms negate_int_eq [of num] by auto
  obtain buf where buf: "int_digits (int ?n) 10 0 (replicate 32 0) = Some (length ?ds, buf)"
    "length buf = 32" "take (length ?ds) buf = ?ds"
    using int_digits_eq [of 10 0 ?n "replicate 32 0"] len by auto
  have "take (length ?ds) (reverseArray buf (length ?ds)) = rev ?ds" using len buf by (simp add: reverseArray_eq)
  then show ?thesis
    using False buf(1) abs digits_visible [of 10 ?n] view_typed [of "rev ?ds"]
    by (simp add: printInt_def decimal_def) (simp add: type_text_def type_char_def)
qed

theorem print_int_roundtrip_witness:
  "\<exists>ds. printInt (-255) 16 blank = Some (view_all (45 # ds) blank) \<and> number_of 16 ds = 255"
  using print_int_roundtrip [of 16 "-255" blank] by auto

text \<open>\<^verbatim>\<open>loadVideoMemory\<close> undoes everything done to the screen since
  \<^verbatim>\<open>saveVideoMemory\<close>, however it was changed: characters, attributes and cursor are
  those of the saved screen, and memory outside the 25 lines is not touched.\<close>

theorem screen_saved_and_restored:
  assumes "monitor t = monitor (saveVideoMemory s)"
  shows "(\<forall>x. vmem (loadVideoMemory t) x = (if 0xB8000 \<le> x \<and> x < 0xB8000 + 4000 then vmem s x else vmem t x)) \<and>
    currentPoint (loadVideoMemory t) = currentPoint s"
  using load_save [OF assms] by (simp_all add: CELLS_eq)

theorem screen_saved_and_restored_witness:
  "cells (loadVideoMemory (clear (saveVideoMemory blank))) = cells blank"
proof -
  have "monitor (clear (saveVideoMemory blank)) = monitor (saveVideoMemory blank)"
    by (simp add: clear_monitor)
  from screen_saved_and_restored [OF this] show ?thesis
    by (intro nth_equalityI) (simp_all add: nth_cells CELLS_eq)
qed

text \<open>Two new lines on the last line, as the shell prints around a command without output,
  take the cursor below the screen, where the next character is lost: the screen scrolls and
  shows no trace of it.\<close>

theorem character_lost_below_screen:
  assumes "cursor_at s k" and "1920 \<le> k" and "k < 2000" and "ch \<noteq> BACK_SPACE"
  shows "cells (viewCharacter ch (moveToNextLine (moveToNextLine s))) = drop 80 (cells s) @ replicate 80 0"
proof -
  have "k div 80 = 24" using assms(2,3) by simp
  then have "cursor_at (moveToNextLine (moveToNextLine s)) 2080"
    using moveToNextLine_cells [OF moveToNextLine_cells [OF assms(1), THEN conjunct1]] by (simp add: new_line_def)
  from viewCharacter_cells(2) [OF assms(4) this]
  moreover have "length (drop 80 (cells s) @ replicate 80 (0::BYTE)) = 2000" by (simp add: CELLS_eq)
  ultimately show ?thesis
    by (simp add: put_cell_def CELLS_eq cells_cong [OF moveToNextLine_sel(1)] list_update_beyond)
qed

theorem character_lost_below_screen_witness:
  "cells (viewCharacter 78 (moveToNextLine (moveToNextLine blank))) = replicate CELLS 0"
proof -
  have "cursor_at blank 1998" by (simp add: cursor_at_def blank_def cell_addr_def video_defs)
  from character_lost_below_screen [OF this, of 78] show ?thesis
    by (simp add: BACK_SPACE_def cells_blank CELLS_eq flip: replicate_add)
qed

end
