(* ===== verification/Fat.thy ===== *)
theory Fat
  imports Console
begin

text \<open>
  The file system: \<^verbatim>\<open>kernel/fs/FAT.c\<close> and \<^verbatim>\<open>FAT.h\<close>. A file is one
  cluster; the root directory is cluster 0 and holds 128 entries of 32 bytes. The disk is an
  argument of every operation, a record of the two transfer functions of
  \<^verbatim>\<open>drivers/Disk.c\<close> on a state \<open>'b\<close>, with the number of sectors it reports.

  The structures of the C code are overlays on the two static buffers, so a field is read and
  written at its byte offset. The code ignores most results of the transfers: a failed read leaves
  the buffer as it was, and the operation goes on with it. An index outside a buffer is \<open>None\<close>.
\<close>

section \<open>Constants and layout\<close>

definition CLUSTER_SIZE :: nat where "CLUSTER_SIZE = 4096"
definition SECTOR_SIZE :: nat where "SECTOR_SIZE = 512"
definition LINK_SIZE :: nat where "LINK_SIZE = 4"
definition SIGNATURE :: DWORD where "SIGNATURE = 0x19990125"
definition BOOTLOADER_SIGNATURE :: WORD where "BOOTLOADER_SIGNATURE = 0x55AA"
definition MAX_FILECOUNT :: nat where "MAX_FILECOUNT = 128"
definition MAX_FILENAME :: nat where "MAX_FILENAME = CLUSTER_SIZE div MAX_FILECOUNT - 8"

lemmas fat_const = CLUSTER_SIZE_def SECTOR_SIZE_def LINK_SIZE_def MAX_FILECOUNT_def MAX_FILENAME_def

definition getDWORD :: "BYTE list \<Rightarrow> nat \<Rightarrow> DWORD" where
  "getDWORD buf off = word_of_nat (le_decode (chunk off 4 buf))"

definition putDWORD :: "BYTE list \<Rightarrow> nat \<Rightarrow> DWORD \<Rightarrow> BYTE list" where
  "putDWORD buf off w = splice_at buf off (le_encode 4 (unat w))"

definition putWORD :: "BYTE list \<Rightarrow> nat \<Rightarrow> WORD \<Rightarrow> BYTE list" where
  "putWORD buf off w = splice_at buf off (le_encode 2 (unat w))"

text \<open>Offsets of the fields of the packed \<^verbatim>\<open>BootSector\<close>.\<close>

definition SIZEOF_BOOTCODE :: nat where "SIZEOF_BOOTCODE = 420"
definition OFF_signature :: nat where "OFF_signature = 420"
definition OFF_freeClusterCount :: nat where "OFF_freeClusterCount = 424"
definition OFF_clusterLinkSectorCount :: nat where "OFF_clusterLinkSectorCount = 428"
definition OFF_clusterLinkSectorAddress :: nat where "OFF_clusterLinkSectorAddress = 432"
definition OFF_dataAddress :: nat where "OFF_dataAddress = 436"
definition OFF_bootLoaderSignature :: nat where "OFF_bootLoaderSignature = 440"

lemmas boot_offsets = SIZEOF_BOOTCODE_def OFF_signature_def OFF_freeClusterCount_def
  OFF_clusterLinkSectorCount_def OFF_clusterLinkSectorAddress_def OFF_dataAddress_def
  OFF_bootLoaderSignature_def

record fatInformation =
  freeClusterCount :: DWORD
  clusterLinkSectorCount :: DWORD
  clusterLinkSectorAddress :: DWORD
  dataAddress :: DWORD

record fileInformation =
  fileName :: "BYTE list"
  fileSize :: DWORD
  clusterIdx :: DWORD

definition SIZEOF_FILEINFO :: nat where "SIZEOF_FILEINFO = 32"

definition encode_info :: "fileInformation \<Rightarrow> BYTE list" where
  "encode_info f = fileName f @ le_encode 4 (unat (fileSize f)) @ le_encode 4 (unat (clusterIdx f))"

text \<open>Entry \<open>i\<close> of a directory buffer; its name as a pointer into the buffer.\<close>

definition entry_size :: "BYTE list \<Rightarrow> nat \<Rightarrow> DWORD" where
  "entry_size dir i = getDWORD dir (SIZEOF_FILEINFO * i + 24)"

definition entry_cluster :: "BYTE list \<Rightarrow> nat \<Rightarrow> DWORD" where
  "entry_cluster dir i = getDWORD dir (SIZEOF_FILEINFO * i + 28)"

definition entry_ptr :: "BYTE list \<Rightarrow> nat \<Rightarrow> cptr" where
  "entry_ptr dir i k =
     (if SIZEOF_FILEINFO * i + k < length dir then Some (dir ! (SIZEOF_FILEINFO * i + k)) else None)"

section \<open>State\<close>

record 'b blockdev =
  read_sectors :: "int \<Rightarrow> DWORD \<Rightarrow> BYTE list \<Rightarrow> 'b \<Rightarrow> int \<times> BYTE list \<times> 'b"
  write_sectors :: "int \<Rightarrow> DWORD \<Rightarrow> BYTE list \<Rightarrow> 'b \<Rightarrow> int \<times> 'b"
  total_sectors :: "'b \<Rightarrow> DWORD"

record 'b fat =
  disk :: 'b
  screen :: console
  fatInfor :: fatInformation
  bestIdx :: int
  bestRootDirIdx :: int
  isMounted :: bool
  buffer512 :: "BYTE list"
  buffer4096 :: "BYTE list"

definition mountFailMessage1 :: cptr where "mountFailMessage1 = lit ''read disk fail.''"
definition mountFailMessage2 :: cptr where "mountFailMessage2 = lit ''do formatting first.''"
definition notMountedMessage :: cptr where "notMountedMessage = lit ''do mounting disk first.''"
definition notFoundFileMessage :: cptr where "notFoundFileMessage = lit ''File was not found''"
definition alreadyExistMessage :: cptr where "alreadyExistMessage = lit ''file already exists''"

definition say :: "cptr \<Rightarrow> 'b fat \<Rightarrow> 'b fat option" where
  "say msg s = map_option (\<lambda>c. s\<lparr>screen := c\<rparr>) (puts msg (screen s))"

section \<open>Transfers\<close>

definition read512 :: "'b blockdev \<Rightarrow> DWORD \<Rightarrow> 'b fat \<Rightarrow> int \<times> 'b fat" where
  "read512 dv lba s =
     (let (r, buf, d) = read_sectors dv 1 lba (buffer512 s) (disk s)
      in (r, s\<lparr>buffer512 := buf, disk := d\<rparr>))"

definition write512 :: "'b blockdev \<Rightarrow> DWORD \<Rightarrow> 'b fat \<Rightarrow> int \<times> 'b fat" where
  "write512 dv lba s =
     (let (r, d) = write_sectors dv 1 lba (buffer512 s) (disk s) in (r, s\<lparr>disk := d\<rparr>))"

definition cluster_lba :: "int \<Rightarrow> 'b fat \<Rightarrow> DWORD" where
  "cluster_lba offset s =
     dataAddress (fatInfor s) + word_of_int (offset * int (CLUSTER_SIZE div SECTOR_SIZE))"

definition readCluster :: "'b blockdev \<Rightarrow> int \<Rightarrow> BYTE list \<Rightarrow> 'b fat \<Rightarrow> BYTE list \<times> 'b fat" where
  "readCluster dv offset buf s =
     (let (_, buf', d) = read_sectors dv (int (CLUSTER_SIZE div SECTOR_SIZE)) (cluster_lba offset s) buf (disk s)
      in (buf', s\<lparr>disk := d\<rparr>))"

definition writeCluster :: "'b blockdev \<Rightarrow> int \<Rightarrow> BYTE list \<Rightarrow> 'b fat \<Rightarrow> 'b fat" where
  "writeCluster dv offset buf s =
     (let (_, d) = write_sectors dv (int (CLUSTER_SIZE div SECTOR_SIZE)) (cluster_lba offset s) buf (disk s)
      in s\<lparr>disk := d\<rparr>)"

definition readDir :: "'b blockdev \<Rightarrow> 'b fat \<Rightarrow> 'b fat" where
  "readDir dv s = (let (buf, s1) = readCluster dv 0 (buffer4096 s) s in s1\<lparr>buffer4096 := buf\<rparr>)"

definition writeDir :: "'b blockdev \<Rightarrow> 'b fat \<Rightarrow> 'b fat" where
  "writeDir dv s = writeCluster dv 0 (buffer4096 s) s"

section \<open>Mounting and formatting\<close>

definition initFAT :: "'b fat \<Rightarrow> 'b fat" where
  "initFAT s = s\<lparr>isMounted := False\<rparr>"

definition mount :: "'b blockdev \<Rightarrow> 'b fat \<Rightarrow> (bool \<times> 'b fat) option" where
  "mount dv s =
     (let s1 = s\<lparr>buffer512 := replicate SECTOR_SIZE 0, buffer4096 := replicate CLUSTER_SIZE 0\<rparr>;
          (r, s2) = read512 dv 0 s1;
          boot = buffer512 s2
      in if r = 0 then map_option (Pair False) (say mountFailMessage1 s2)
         else if getDWORD boot OFF_signature \<noteq> SIGNATURE then map_option (Pair False) (say mountFailMessage2 s2)
         else Some (True, s2\<lparr>fatInfor :=
                \<lparr>freeClusterCount = getDWORD boot OFF_freeClusterCount,
                 clusterLinkSectorCount = getDWORD boot OFF_clusterLinkSectorCount,
                 clusterLinkSectorAddress = getDWORD boot OFF_clusterLinkSectorAddress,
                 dataAddress = getDWORD boot OFF_dataAddress\<rparr>,
              bestIdx := 0, bestRootDirIdx := 0, isMounted := True\<rparr>))"

function format_loop :: "'b blockdev \<Rightarrow> int \<Rightarrow> int \<Rightarrow> 'b fat \<Rightarrow> bool \<times> 'b fat" where
  "format_loop dv initSectorCount i s =
     (if i < initSectorCount then
        let writeCount = initSectorCount - i;
            writeCount = (if writeCount > int (CLUSTER_SIZE div SECTOR_SIZE)
                          then int (CLUSTER_SIZE div SECTOR_SIZE) else writeCount);
            (r, d) = write_sectors dv writeCount (word_of_int (1 + i)) (buffer4096 s) (disk s);
            s1 = s\<lparr>disk := d\<rparr>
        in if r \<noteq> writeCount then (False, s1)
           else format_loop dv initSectorCount (i + int (CLUSTER_SIZE div SECTOR_SIZE)) s1
      else (True, s))"
  by pat_completeness auto
termination by (relation "measure (\<lambda>(dv, n, i, s). nat (n - i))") (auto simp: fat_const)

declare format_loop.simps [simp del]

text \<open>The three counts of \<^verbatim>\<open>format\<close>: clusters, and the sectors of the link table.\<close>

definition cluster_count :: "int \<Rightarrow> int" where
  "cluster_count sectorCount = sectorCount sdiv int (CLUSTER_SIZE div SECTOR_SIZE)"

definition link_sectors :: "int \<Rightarrow> int" where
  "link_sectors sectorCount =
     (let perSector = int (SECTOR_SIZE div LINK_SIZE);
          linkCount = (cluster_count sectorCount + perSector - 1) sdiv perSector;
          dataSectorCount = sectorCount - 1 - linkCount
      in (dataSectorCount + perSector - 1) sdiv perSector)"

definition boot_image :: "int \<Rightarrow> BYTE list \<Rightarrow> BYTE list" where
  "boot_image sectorCount buf =
     (let b = splice_at buf 0 (replicate SIZEOF_BOOTCODE 0);
          b = putWORD b OFF_bootLoaderSignature BOOTLOADER_SIGNATURE;
          b = putDWORD b OFF_signature SIGNATURE;
          b = putDWORD b OFF_freeClusterCount (word_of_int (cluster_count sectorCount));
          b = putDWORD b OFF_clusterLinkSectorCount (word_of_int (link_sectors sectorCount));
          b = putDWORD b OFF_clusterLinkSectorAddress 1;
          b = putDWORD b OFF_dataAddress (word_of_int (1 + link_sectors sectorCount))
      in b)"

definition format :: "'b blockdev \<Rightarrow> 'b fat \<Rightarrow> bool \<times> 'b fat" where
  "format dv s =
     (let sectorCount = sint (total_sectors dv (disk s));
          s1 = s\<lparr>buffer512 := boot_image sectorCount (buffer512 s)\<rparr>;
          (r, s2) = write512 dv 0 s1
      in if r = 0 then (False, s2)
         else
           let s3 = s2\<lparr>buffer4096 := replicate CLUSTER_SIZE 0\<rparr>;
               (ok, s4) = format_loop dv (link_sectors sectorCount + int (CLUSTER_SIZE div SECTOR_SIZE)) 0 s3
           in if \<not> ok then (False, s4)
              else
                let s5 = s4\<lparr>buffer512 := putDWORD (replicate SECTOR_SIZE 0) 0 0xFFFFFFFF\<rparr>
                in (True, snd (write512 dv 1 s5)))"

section \<open>Allocation\<close>

function scan_links :: "BYTE list \<Rightarrow> nat \<Rightarrow> int \<Rightarrow> bool \<times> int" where
  "scan_links buf j best =
     (if j < SECTOR_SIZE div 4 then
        if getDWORD buf (4 * j) = 0 then (True, best) else scan_links buf (Suc j) (best + 1)
      else (False, best))"
  by pat_completeness auto
termination by (relation "measure (\<lambda>(buf, j, best). SECTOR_SIZE div 4 - j)") auto

declare scan_links.simps [simp del]

definition link_lba :: "int \<Rightarrow> 'b fat \<Rightarrow> DWORD" where
  "link_lba idx s = clusterLinkSectorAddress (fatInfor s) + word_of_int (idx sdiv int (SECTOR_SIZE div LINK_SIZE))"

primrec find_cluster_loop :: "'b blockdev \<Rightarrow> nat \<Rightarrow> 'b fat \<Rightarrow> int \<times> 'b fat" where
  "find_cluster_loop dv 0 s = (-1, s)"
| "find_cluster_loop dv (Suc n) s =
     (let s1 = snd (read512 dv (link_lba (bestIdx s) s) s);
          (found, best) = scan_links (buffer512 s1) 0 (bestIdx s1)
      in if found then (best, s1\<lparr>bestIdx := best + 1\<rparr>)
         else find_cluster_loop dv n (s1\<lparr>bestIdx := best\<rparr>))"

definition findFreeClusterAndUpdate :: "'b blockdev \<Rightarrow> 'b fat \<Rightarrow> int \<times> 'b fat" where
  "findFreeClusterAndUpdate dv s =
     find_cluster_loop dv (nat (sint (clusterLinkSectorCount (fatInfor s)))) s"

primrec find_entry_loop :: "nat \<Rightarrow> 'b fat \<Rightarrow> int \<times> 'b fat" where
  "find_entry_loop 0 s = (-1, s)"
| "find_entry_loop (Suc n) s =
     (if entry_cluster (buffer4096 s) (nat (bestRootDirIdx s)) = 0 then (bestRootDirIdx s, s)
      else find_entry_loop n (s\<lparr>bestRootDirIdx := (bestRootDirIdx s + 1) smod int MAX_FILECOUNT\<rparr>))"

definition findFreeDirectoryEntryAndUpdate :: "'b blockdev \<Rightarrow> 'b fat \<Rightarrow> int \<times> 'b fat" where
  "findFreeDirectoryEntryAndUpdate dv s = find_entry_loop MAX_FILECOUNT (readDir dv s)"

definition setClusterLinkTable :: "'b blockdev \<Rightarrow> int \<Rightarrow> DWORD \<Rightarrow> 'b fat \<Rightarrow> 'b fat option" where
  "setClusterLinkTable dv idx data s =
     (let s1 = snd (read512 dv (link_lba idx s) s);
          k = idx smod int (SECTOR_SIZE div LINK_SIZE)
      in if k < 0 then None
         else let s2 = s1\<lparr>buffer512 := putDWORD (buffer512 s1) (4 * nat k) data\<rparr>
              in Some (snd (write512 dv (link_lba idx s2) s2)))"

section \<open>Files\<close>

text \<open>
  The search of the directory buffer for a name, from entry \<open>i\<close> on. \<^verbatim>\<open>deleteFile\<close>
  also looks at unused entries.
\<close>

function find_name :: "bool \<Rightarrow> BYTE list \<Rightarrow> cptr \<Rightarrow> nat \<Rightarrow> nat option option" where
  "find_name used_only dir name i =
     (if i < MAX_FILECOUNT then
        if \<not> used_only \<or> entry_cluster dir i \<noteq> 0 then do {
          r \<leftarrow> strcmp (entry_ptr dir i) name;
          if r = 0 then Some (Some i) else find_name used_only dir name (Suc i) }
        else find_name used_only dir name (Suc i)
      else Some None)"
  by pat_completeness auto
termination by (relation "measure (\<lambda>(u, dir, name, i). MAX_FILECOUNT - i)") auto

declare find_name.simps [simp del]

text \<open>The first \<open>n\<close> bytes of a string.\<close>

primrec take_ptr :: "cptr \<Rightarrow> nat \<Rightarrow> BYTE list option" where
  "take_ptr p 0 = Some []"
| "take_ptr p (Suc n) = do { bs \<leftarrow> take_ptr p n; b \<leftarrow> p n; Some (bs @ [b]) }"

definition newFileInfo :: "cptr \<Rightarrow> int \<Rightarrow> fileInformation option" where
  "newFileInfo name cluster = do {
     len \<leftarrow> strlen name;
     let nameLen = (if len > MAX_FILENAME - 1 then MAX_FILENAME - 1 else len);
     bs \<leftarrow> take_ptr name nameLen;
     Some \<lparr>fileName = splice_at (replicate MAX_FILENAME 0) 0 bs, fileSize = 0, clusterIdx = word_of_int cluster\<rparr> }"

definition createFile :: "'b blockdev \<Rightarrow> cptr \<Rightarrow> 'b fat \<Rightarrow> 'b fat option" where
  "createFile dv name s =
     (if \<not> isMounted s then say notMountedMessage s
      else do {
        let s1 = readDir dv s;
        found \<leftarrow> find_name True (buffer4096 s1) name 0;
        if found \<noteq> None then say alreadyExistMessage s1
        else do {
          let (dirEntry, s2) = findFreeDirectoryEntryAndUpdate dv s1;
          if dirEntry = -1 then Some s2
          else do {
            let (cluster, s3) = findFreeClusterAndUpdate dv s2;
            if cluster = -1 then Some s3
            else do {
              s4 \<leftarrow> setClusterLinkTable dv cluster 0xFFFFFFFF s3;
              fileInfo \<leftarrow> newFileInfo name cluster;
              let s5 = readDir dv s4;
              let s6 = s5\<lparr>buffer4096 :=
                    splice_at (buffer4096 s5) (SIZEOF_FILEINFO * nat dirEntry) (encode_info fileInfo)\<rparr>;
              Some (writeDir dv s6) } } } })"

definition deleteFile :: "'b blockdev \<Rightarrow> cptr \<Rightarrow> 'b fat \<Rightarrow> 'b fat option" where
  "deleteFile dv name s =
     (if \<not> isMounted s then say notMountedMessage s
      else do {
        let s1 = readDir dv s;
        found \<leftarrow> find_name False (buffer4096 s1) name 0;
        case found of
          None \<Rightarrow> say notFoundFileMessage s1
        | Some i \<Rightarrow> do {
            s2 \<leftarrow> setClusterLinkTable dv (sint (entry_cluster (buffer4096 s1) i)) 0 s1;
            let d = putDWORD (buffer4096 s2) (SIZEOF_FILEINFO * i + 28) 0;
            let d = d[SIZEOF_FILEINFO * i := 0xE5];
            Some (writeDir dv (s2\<lparr>buffer4096 := d\<rparr>)) } })"

definition readFile :: "'b blockdev \<Rightarrow> cptr \<Rightarrow> BYTE list \<Rightarrow> 'b fat \<Rightarrow> (int \<times> BYTE list \<times> 'b fat) option" where
  "readFile dv name buf s =
     (if \<not> isMounted s then map_option (\<lambda>s'. (-1, buf, s')) (say notMountedMessage s)
      else do {
        let s1 = readDir dv s;
        found \<leftarrow> find_name True (buffer4096 s1) name 0;
        case found of
          None \<Rightarrow> map_option (\<lambda>s'. (-1, buf, s')) (say notFoundFileMessage s1)
        | Some i \<Rightarrow>
            let (buf', s2) = readCluster dv (sint (entry_cluster (buffer4096 s1) i)) buf s1
            in Some (sint (entry_size (buffer4096 s2) i), buf', s2) })"

definition writeFile :: "'b blockdev \<Rightarrow> cptr \<Rightarrow> BYTE list \<Rightarrow> int \<Rightarrow> 'b fat \<Rightarrow> (bool \<times> 'b fat) option" where
  "writeFile dv name buf sz s =
     (if \<not> isMounted s then map_option (Pair False) (say notMountedMessage s)
      else do {
        let s1 = readDir dv s;
        found \<leftarrow> find_name True (buffer4096 s1) name 0;
        case found of
          None \<Rightarrow> map_option (Pair False) (say notFoundFileMessage s1)
        | Some i \<Rightarrow>
            let s2 = writeCluster dv (sint (entry_cluster (buffer4096 s1) i)) buf s1;
                s3 = s2\<lparr>buffer4096 := putDWORD (buffer4096 s2) (SIZEOF_FILEINFO * i + 24) (word_of_int sz)\<rparr>
            in Some (True, writeDir dv s3) })"

function show_loop :: "nat \<Rightarrow> 'b fat \<Rightarrow> 'b fat option" where
  "show_loop i s =
     (if i < MAX_FILECOUNT then
        if entry_cluster (buffer4096 s) i \<noteq> 0 then do {
          c1 \<leftarrow> printString (entry_ptr (buffer4096 s) i) (screen s);
          c2 \<leftarrow> printString (lit '' '') c1;
          c3 \<leftarrow> printInt (sint (entry_size (buffer4096 s) i)) 10 c2;
          c4 \<leftarrow> printString (lit ''Byte'') c3;
          c5 \<leftarrow> puts (lit []) c4;
          show_loop (Suc i) (s\<lparr>screen := c5\<rparr>) }
        else show_loop (Suc i) s
      else Some s)"
  by pat_completeness auto
termination by (relation "measure (\<lambda>(i, s). MAX_FILECOUNT - i)") auto

declare show_loop.simps [simp del]

definition showDir :: "'b blockdev \<Rightarrow> 'b fat \<Rightarrow> 'b fat option" where
  "showDir dv s =
     (if \<not> isMounted s then say notMountedMessage s
      else do { s1 \<leftarrow> say (lit ''.'') (readDir dv s); show_loop 0 s1 })"

end
