(* ===== verification/FatOps.thy ===== *)
theory FatOps
  imports Fat
begin

text \<open>
  The file system on a disk that works. \<open>block_device\<close> is the contract of the two transfer
  functions: they succeed within the disk and read and write its sectors. Under it every operation
  of theory \<open>Fat\<close> acts on clusters and on the link table of the mounted disk.
\<close>

section \<open>Sectors and clusters\<close>

lemma concat_chunks:
  "512 * n \<le> length buf \<Longrightarrow> concat (map (\<lambda>i. chunk (512 * (i - a)) 512 buf) [a..<a + n]) = take (512 * n) buf"
proof (induction n)
  case 0
  then show ?case by simp
next
  case (Suc n)
  then show ?case by (simp add: chunk_def take_add [symmetric] add.commute)
qed

lemma length_concat_sectors:
  "(\<And>i. i \<in> set is \<Longrightarrow> length (f i) = 512) \<Longrightarrow> length (concat (map f is)) = 512 * length is"
  by (induction "is") auto

lemma concat_nth_sector:
  "(\<And>i. i \<in> set is \<Longrightarrow> length (f i) = 512) \<Longrightarrow> k < length is \<Longrightarrow> chunk (512 * k) 512 (concat (map f is)) = f (is ! k)"
proof (induction "is" arbitrary: k)
  case (Cons x xs)
  then show ?case by (cases k) (simp_all add: chunk_def drop_append)
qed simp

definition cluster_data :: "('b \<Rightarrow> nat \<Rightarrow> BYTE list) \<Rightarrow> 'b fat \<Rightarrow> nat \<Rightarrow> BYTE list" where
  "cluster_data sector s c = concat (map (sector (disk s))
     [unat (dataAddress (fatInfor s)) + 8 * c..<unat (dataAddress (fatInfor s)) + 8 * c + 8])"

definition link_sector :: "('b \<Rightarrow> nat \<Rightarrow> BYTE list) \<Rightarrow> 'b fat \<Rightarrow> nat \<Rightarrow> BYTE list" where
  "link_sector sector s k = sector (disk s) (unat (clusterLinkSectorAddress (fatInfor s)) + k)"

text \<open>The link of cluster \<open>c\<close>.\<close>

definition link_of :: "('b \<Rightarrow> nat \<Rightarrow> BYTE list) \<Rightarrow> 'b fat \<Rightarrow> nat \<Rightarrow> DWORD" where
  "link_of sector s c = getDWORD (link_sector sector s (c div 128)) (4 * (c mod 128))"

definition valid_cluster :: "'b blockdev \<Rightarrow> 'b fat \<Rightarrow> nat \<Rightarrow> bool" where
  "valid_cluster dv s c \<longleftrightarrow>
     unat (dataAddress (fatInfor s)) + 8 * c + 8 \<le> unat (total_sectors dv (disk s)) \<and>
     c < 128 * unat (clusterLinkSectorCount (fatInfor s))"

text \<open>A mounted disk: link table and clusters lie on it, in this order, and do not overlap.\<close>

definition mounted_ok :: "'b blockdev \<Rightarrow> ('b \<Rightarrow> bool) \<Rightarrow> 'b fat \<Rightarrow> bool" where
  "mounted_ok dv good s \<longleftrightarrow> isMounted s \<and> good (disk s) \<and> length (buffer512 s) = SECTOR_SIZE \<and>
     length (buffer4096 s) = CLUSTER_SIZE \<and> 0 \<le> bestIdx s \<and>
     0 \<le> bestRootDirIdx s \<and> bestRootDirIdx s < int MAX_FILECOUNT \<and>
     unat (clusterLinkSectorAddress (fatInfor s)) + unat (clusterLinkSectorCount (fatInfor s))
       \<le> unat (dataAddress (fatInfor s)) \<and>
     unat (total_sectors dv (disk s)) < 2 ^ 31 \<and> valid_cluster dv s 0"

text \<open>What an operation on the disk leaves alone.\<close>

definition fat_frame :: "'b blockdev \<Rightarrow> 'b fat \<Rightarrow> 'b fat \<Rightarrow> bool" where
  "fat_frame dv s s' \<longleftrightarrow> fatInfor s' = fatInfor s \<and> isMounted s' = isMounted s \<and> screen s' = screen s \<and>
     total_sectors dv (disk s') = total_sectors dv (disk s)"

lemma fat_frame_refl [simp]: "fat_frame dv s s"
  by (simp add: fat_frame_def)

lemma fat_frame_trans: "fat_frame dv s t \<Longrightarrow> fat_frame dv t u \<Longrightarrow> fat_frame dv s u"
  by (simp add: fat_frame_def)

lemma fat_frame_valid: "fat_frame dv s s' \<Longrightarrow> valid_cluster dv s' c = valid_cluster dv s c"
  by (simp add: fat_frame_def valid_cluster_def)

section \<open>Fields of a buffer\<close>

lemma length_putDWORD [simp]: "off + 4 \<le> length buf \<Longrightarrow> length (putDWORD buf off w) = length buf"
  by (simp add: putDWORD_def)

lemma unat_DWORD_bound: "unat (w :: DWORD) < 256 ^ 4"
  using unsigned_less [of w] by simp

lemma get_put_DWORD: "off + 4 \<le> length buf \<Longrightarrow> getDWORD (putDWORD buf off w) off = w"
  using unat_DWORD_bound [of w] by (simp add: getDWORD_def putDWORD_def)

lemma get_put_DWORD_other:
  "off + 4 \<le> length buf \<Longrightarrow> off' + 4 \<le> length buf \<Longrightarrow> off' + 4 \<le> off \<or> off + 4 \<le> off' \<Longrightarrow>
   getDWORD (putDWORD buf off w) off' = getDWORD buf off'"
  by (simp add: getDWORD_def putDWORD_def chunk_splice_other)

lemma chunk_put_DWORD:
  "off + 4 \<le> length buf \<Longrightarrow> j + n \<le> length buf \<Longrightarrow> j + n \<le> off \<or> off + 4 \<le> j \<Longrightarrow>
   chunk j n (putDWORD buf off w) = chunk j n buf"
  by (simp add: putDWORD_def chunk_splice_other)

section \<open>The contract of the disk\<close>

locale block_device =
  fixes dv :: "'b blockdev"
    and good :: "'b \<Rightarrow> bool"
    and sector :: "'b \<Rightarrow> nat \<Rightarrow> BYTE list"
  assumes size_law: "good b \<Longrightarrow> i < unat (total_sectors dv b) \<Longrightarrow> length (sector b i) = 512"
    and read_law: "good b \<Longrightarrow> 0 < n \<Longrightarrow> n \<le> 8 \<Longrightarrow> unat lba + n \<le> unat (total_sectors dv b) \<Longrightarrow>
      length buf = 512 * n \<Longrightarrow>
      \<exists>b'. read_sectors dv (int n) lba buf b = (int n, concat (map (sector b) [unat lba..<unat lba + n]), b') \<and>
        good b' \<and> total_sectors dv b' = total_sectors dv b \<and>
        (\<forall>i < unat (total_sectors dv b). sector b' i = sector b i)"
    and write_law: "good b \<Longrightarrow> 0 < n \<Longrightarrow> n \<le> 8 \<Longrightarrow> unat lba + n \<le> unat (total_sectors dv b) \<Longrightarrow>
      512 * n \<le> length buf \<Longrightarrow>
      \<exists>b'. write_sectors dv (int n) lba buf b = (int n, b') \<and>
        good b' \<and> total_sectors dv b' = total_sectors dv b \<and>
        (\<forall>i < unat (total_sectors dv b). sector b' i =
           (if unat lba \<le> i \<and> i < unat lba + n then chunk (512 * (i - unat lba)) 512 buf else sector b i))"
begin

definition same_sectors :: "'b fat \<Rightarrow> 'b fat \<Rightarrow> bool" where
  "same_sectors s s' \<longleftrightarrow> (\<forall>i < unat (total_sectors dv (disk s)). sector (disk s') i = sector (disk s) i)"

lemma same_cluster:
  "same_sectors s s' \<Longrightarrow> fatInfor s' = fatInfor s \<Longrightarrow> valid_cluster dv s c \<Longrightarrow> cluster_data sector s' c = cluster_data sector s c"
  by (auto simp: same_sectors_def cluster_data_def valid_cluster_def intro!: arg_cong [where f = concat])

lemma length_cluster: "good (disk s) \<Longrightarrow> valid_cluster dv s c \<Longrightarrow> length (cluster_data sector s c) = 4096"
  unfolding cluster_data_def by (subst length_concat_sectors) (auto simp: valid_cluster_def intro!: size_law)

lemma cluster_lba_unat:
  assumes "valid_cluster dv s c" and "unat (total_sectors dv (disk s)) < 2 ^ 31"
  shows "unat (cluster_lba (int c) s) = unat (dataAddress (fatInfor s)) + 8 * c"
proof -
  have lt: "unat (dataAddress (fatInfor s)) + 8 * c < 2 ^ 32" using assms by (simp add: valid_cluster_def)
  have "cluster_lba (int c) s = word_of_nat (unat (dataAddress (fatInfor s)) + 8 * c)"
    by (simp add: cluster_lba_def fat_const mult.commute)
  then show ?thesis using lt by (simp only: unat_of_nat) simp
qed

lemma readCluster_ok:
  assumes ok: "mounted_ok dv good s" and c: "valid_cluster dv s c" and buf: "length buf = 4096"
  obtains d where "readCluster dv (int c) buf s = (cluster_data sector s c, s\<lparr>disk := d\<rparr>)"
    "mounted_ok dv good (s\<lparr>disk := d\<rparr>)" "fat_frame dv s (s\<lparr>disk := d\<rparr>)" "same_sectors s (s\<lparr>disk := d\<rparr>)"
proof -
  have t: "unat (total_sectors dv (disk s)) < 2 ^ 31" and g: "good (disk s)" using ok by (simp_all add: mounted_ok_def)
  note lba = cluster_lba_unat [OF c t]
  have "unat (cluster_lba (int c) s) + 8 \<le> unat (total_sectors dv (disk s))"
    using c by (simp add: lba valid_cluster_def)
  from read_law [OF g _ _ this, of buf] buf obtain b' where b':
    "read_sectors dv 8 (cluster_lba (int c) s) buf (disk s) = (8, cluster_data sector s c, b')" "good b'"
    "total_sectors dv b' = total_sectors dv (disk s)" "\<forall>i < unat (total_sectors dv (disk s)). sector b' i = sector (disk s) i"
    by (auto simp: lba cluster_data_def)
  then show thesis using ok
    by (intro that [of b']) (auto simp: readCluster_def fat_const mounted_ok_def fat_frame_def same_sectors_def valid_cluster_def)
qed

lemma writeCluster_ok:
  assumes ok: "mounted_ok dv good s" and c: "valid_cluster dv s c" and buf: "length buf = 4096"
  obtains d where "writeCluster dv (int c) buf s = s\<lparr>disk := d\<rparr>"
    "mounted_ok dv good (s\<lparr>disk := d\<rparr>)" "fat_frame dv s (s\<lparr>disk := d\<rparr>)"
    "cluster_data sector (s\<lparr>disk := d\<rparr>) c = buf"
    "\<And>c'. valid_cluster dv s c' \<Longrightarrow> c' \<noteq> c \<Longrightarrow> cluster_data sector (s\<lparr>disk := d\<rparr>) c' = cluster_data sector s c'"
    "\<And>k. k < unat (dataAddress (fatInfor s)) \<Longrightarrow> sector d k = sector (disk s) k"
proof -
  have t: "unat (total_sectors dv (disk s)) < 2 ^ 31" and g: "good (disk s)" using ok by (simp_all add: mounted_ok_def)
  note lba = cluster_lba_unat [OF c t]
  let ?a = "unat (dataAddress (fatInfor s)) + 8 * c"
  have "unat (cluster_lba (int c) s) + 8 \<le> unat (total_sectors dv (disk s))"
    using c by (simp add: lba valid_cluster_def)
  from write_law [OF g _ _ this, of buf] buf obtain b' where b':
    "write_sectors dv 8 (cluster_lba (int c) s) buf (disk s) = (8, b')" "good b'"
    "total_sectors dv b' = total_sectors dv (disk s)"
    "\<forall>i < unat (total_sectors dv (disk s)). sector b' i =
       (if ?a \<le> i \<and> i < ?a + 8 then chunk (512 * (i - ?a)) 512 buf else sector (disk s) i)"
    by (auto simp: lba)
  have "map (sector b') [?a..<?a + 8] = map (\<lambda>i. chunk (512 * (i - ?a)) 512 buf) [?a..<?a + 8]"
    using c by (intro map_cong refl) (simp add: b'(4) valid_cluster_def)
  then have "concat (map (sector b') [?a..<?a + 8]) = buf"
    using concat_chunks [of 8 buf ?a] buf by (simp only:) simp
  then have "cluster_data sector (s\<lparr>disk := b'\<rparr>) c = buf" by (simp add: cluster_data_def)
  moreover have "cluster_data sector (s\<lparr>disk := b'\<rparr>) c' = cluster_data sector s c'"
    if "valid_cluster dv s c'" "c' \<noteq> c" for c'
    unfolding cluster_data_def
    by (rule arg_cong [where f = concat], rule map_cong)
      (use that b'(4) in \<open>auto simp: valid_cluster_def\<close>)
  moreover have "sector b' k = sector (disk s) k" if "k < unat (dataAddress (fatInfor s))" for k
    using that b'(4) c by (simp add: valid_cluster_def)
  moreover have "writeCluster dv (int c) buf s = s\<lparr>disk := b'\<rparr>"
    using b'(1) by (simp add: writeCluster_def fat_const)
  ultimately show thesis using ok b'(2,3)
    by (intro that [of b']) (auto simp: mounted_ok_def fat_frame_def valid_cluster_def)
qed

text \<open>The directory is cluster 0, read into and written from \<^verbatim>\<open>buffer4096\<close>.\<close>

lemma readDir_ok:
  assumes ok: "mounted_ok dv good s"
  obtains d where "readDir dv s = s\<lparr>disk := d, buffer4096 := cluster_data sector s 0\<rparr>"
    "mounted_ok dv good (readDir dv s)" "fat_frame dv s (readDir dv s)" "same_sectors s (readDir dv s)"
proof -
  have v: "valid_cluster dv s 0" and l: "length (buffer4096 s) = 4096" and g: "good (disk s)"
    using ok by (simp_all add: mounted_ok_def fat_const)
  obtain d where d: "readCluster dv (int 0) (buffer4096 s) s = (cluster_data sector s 0, s\<lparr>disk := d\<rparr>)"
    "mounted_ok dv good (s\<lparr>disk := d\<rparr>)" "fat_frame dv s (s\<lparr>disk := d\<rparr>)" "same_sectors s (s\<lparr>disk := d\<rparr>)"
    using readCluster_ok [OF ok v l] by metis
  then show thesis using length_cluster [OF g v]
    by (intro that [of d])
      (auto simp: readDir_def mounted_ok_def fat_frame_def same_sectors_def valid_cluster_def fat_const)
qed

lemma writeDir_ok:
  assumes ok: "mounted_ok dv good s"
  obtains d where "writeDir dv s = s\<lparr>disk := d\<rparr>" "mounted_ok dv good (writeDir dv s)"
    "fat_frame dv s (writeDir dv s)" "cluster_data sector (writeDir dv s) 0 = buffer4096 s"
    "\<And>c. valid_cluster dv s c \<Longrightarrow> c \<noteq> 0 \<Longrightarrow> cluster_data sector (writeDir dv s) c = cluster_data sector s c"
    "\<And>k. k < unat (dataAddress (fatInfor s)) \<Longrightarrow> sector (disk (writeDir dv s)) k = sector (disk s) k"
proof -
  have v: "valid_cluster dv s 0" and l: "length (buffer4096 s) = 4096"
    using ok by (simp_all add: mounted_ok_def fat_const)
  show thesis
    by (rule writeCluster_ok [OF ok v l]) (auto simp: writeDir_def intro: that)
qed

section \<open>Link sectors\<close>

definition links_ok :: "'b fat \<Rightarrow> bool" where
  "links_ok s \<longleftrightarrow> unat (clusterLinkSectorAddress (fatInfor s)) + unat (clusterLinkSectorCount (fatInfor s))
       \<le> unat (dataAddress (fatInfor s))"

lemma link_lba_unat:
  assumes ok: "mounted_ok dv good s" and c: "c < 128 * unat (clusterLinkSectorCount (fatInfor s))"
  shows "unat (link_lba (int c) s) = unat (clusterLinkSectorAddress (fatInfor s)) + c div 128"
    and "unat (link_lba (int c) s) < unat (dataAddress (fatInfor s))"
    and "unat (link_lba (int c) s) + 1 \<le> unat (total_sectors dv (disk s))"
proof -
  let ?la = "unat (clusterLinkSectorAddress (fatInfor s))"
  have k: "c div 128 < unat (clusterLinkSectorCount (fatInfor s))" using c by (simp add: less_mult_imp_div_less mult.commute)
  then have lt: "?la + c div 128 < unat (dataAddress (fatInfor s))" using ok by (simp add: mounted_ok_def)
  also have "unat (dataAddress (fatInfor s)) < 2 ^ 32" using unsigned_less [of "dataAddress (fatInfor s)"] by simp
  finally have b: "?la + c div 128 < 2 ^ 32" .
  have "int c sdiv 128 = int (c div 128)" by (simp add: sdiv_nonneg zdiv_int)
  then have "link_lba (int c) s = word_of_nat (?la + c div 128)" by (simp add: link_lba_def fat_const)
  then show *: "unat (link_lba (int c) s) = ?la + c div 128" using b by (simp only: unat_of_nat) simp
  show "unat (link_lba (int c) s) < unat (dataAddress (fatInfor s))" using lt by (simp add: *)
  then show "unat (link_lba (int c) s) + 1 \<le> unat (total_sectors dv (disk s))"
    using ok by (simp add: mounted_ok_def valid_cluster_def)
qed

lemma read512_ok:
  assumes ok: "mounted_ok dv good s" and l: "unat lba + 1 \<le> unat (total_sectors dv (disk s))"
  obtains d where "snd (read512 dv lba s) = s\<lparr>buffer512 := sector (disk s) (unat lba), disk := d\<rparr>"
    "mounted_ok dv good (snd (read512 dv lba s))" "fat_frame dv s (snd (read512 dv lba s))"
    "same_sectors s (snd (read512 dv lba s))"
proof -
  have b: "length (buffer512 s) = 512 * 1" "good (disk s)" using ok by (simp_all add: mounted_ok_def fat_const)
  from read_law [OF b(2) _ _ l b(1)] obtain b' where
    "read_sectors dv 1 lba (buffer512 s) (disk s) = (1, sector (disk s) (unat lba), b')" "good b'"
    "total_sectors dv b' = total_sectors dv (disk s)" "\<forall>i < unat (total_sectors dv (disk s)). sector b' i = sector (disk s) i"
    by auto
  moreover have "length (sector (disk s) (unat lba)) = 512" using l by (intro size_law [OF b(2)]) simp
  ultimately show thesis using ok
    by (intro that [of b'])
      (auto simp: read512_def mounted_ok_def fat_frame_def same_sectors_def valid_cluster_def fat_const)
qed

lemma write512_ok:
  assumes ok: "mounted_ok dv good s" and l: "unat lba + 1 \<le> unat (total_sectors dv (disk s))"
  obtains d where "snd (write512 dv lba s) = s\<lparr>disk := d\<rparr>" "mounted_ok dv good (s\<lparr>disk := d\<rparr>)"
    "fat_frame dv s (s\<lparr>disk := d\<rparr>)"
    "\<And>i. i < unat (total_sectors dv (disk s)) \<Longrightarrow> sector d i = (if i = unat lba then buffer512 s else sector (disk s) i)"
proof -
  have b: "512 * 1 \<le> length (buffer512 s)" "good (disk s)" using ok by (simp_all add: mounted_ok_def fat_const)
  from write_law [OF b(2) _ _ l b(1)] obtain b' where b':
    "write_sectors dv 1 lba (buffer512 s) (disk s) = (1, b')" "good b'" "total_sectors dv b' = total_sectors dv (disk s)"
    "\<forall>i < unat (total_sectors dv (disk s)). sector b' i = (if unat lba \<le> i \<and> i < unat lba + 1
       then chunk (512 * (i - unat lba)) 512 (buffer512 s) else sector (disk s) i)" by auto
  have "chunk 0 512 (buffer512 s) = buffer512 s" using ok by (simp add: chunk_def mounted_ok_def fat_const)
  with b' ok show thesis
    by (intro that [of b']) (auto simp: write512_def mounted_ok_def fat_frame_def valid_cluster_def less_Suc_eq_le)
qed

lemma setClusterLinkTable_ok:
  assumes ok: "mounted_ok dv good s" and c: "c < 128 * unat (clusterLinkSectorCount (fatInfor s))"
  obtains s' where "setClusterLinkTable dv (int c) w s = Some s'" "mounted_ok dv good s'" "fat_frame dv s s'"
    "buffer4096 s' = buffer4096 s" "bestIdx s' = bestIdx s" "bestRootDirIdx s' = bestRootDirIdx s"
    "\<And>x. valid_cluster dv s x \<Longrightarrow> cluster_data sector s' x = cluster_data sector s x"
    "link_of sector s' c = w"
    "\<And>x. x < 128 * unat (clusterLinkSectorCount (fatInfor s)) \<Longrightarrow> x \<noteq> c \<Longrightarrow> link_of sector s' x = link_of sector s x"
    "\<And>i. i < unat (clusterLinkSectorAddress (fatInfor s)) \<Longrightarrow> sector (disk s') i = sector (disk s) i"
proof -
  let ?lba = "link_lba (int c) s" and ?la = "unat (clusterLinkSectorAddress (fatInfor s))"
  note L = link_lba_unat [OF ok c]
  obtain d1 where d1: "snd (read512 dv ?lba s) = s\<lparr>buffer512 := sector (disk s) (unat ?lba), disk := d1\<rparr>"
    "mounted_ok dv good (snd (read512 dv ?lba s))" "fat_frame dv s (snd (read512 dv ?lba s))"
    "same_sectors s (snd (read512 dv ?lba s))" using read512_ok [OF ok L(3)] by metis
  let ?sec = "sector (disk s) (unat ?lba)"
  define s1 where "s1 = s\<lparr>disk := d1, buffer512 := putDWORD ?sec (4 * (c mod 128)) w\<rparr>"
  have g: "good (disk s)" using ok by (simp add: mounted_ok_def)
  have len: "length ?sec = 512" using L(3) by (intro size_law [OF g]) simp
  have k: "4 * (c mod 128) + 4 \<le> 512" by simp
  have ok1: "mounted_ok dv good s1"
    using d1(1,2) len k by (simp add: s1_def mounted_ok_def putDWORD_def valid_cluster_def fat_const)
  have same1: "sector d1 i = sector (disk s) i" if "i < unat (total_sectors dv (disk s))" for i
    using d1(1,4) that by (simp add: same_sectors_def)
  have tot1: "total_sectors dv d1 = total_sectors dv (disk s)" using d1(1,3) by (simp add: fat_frame_def)
  have L1: "unat ?lba + 1 \<le> unat (total_sectors dv (disk s1))" using L(3) tot1 by (simp add: s1_def)
  obtain d2 where d2: "snd (write512 dv ?lba s1) = s1\<lparr>disk := d2\<rparr>" "mounted_ok dv good (s1\<lparr>disk := d2\<rparr>)"
    "fat_frame dv s1 (s1\<lparr>disk := d2\<rparr>)"
    "\<And>i. i < unat (total_sectors dv (disk s1)) \<Longrightarrow> sector d2 i = (if i = unat ?lba then buffer512 s1 else sector (disk s1) i)"
    using write512_ok [OF ok1 L1] by metis
  let ?s' = "s1\<lparr>disk := d2\<rparr>"
  have sec: "sector d2 i = (if i = unat ?lba then putDWORD ?sec (4 * (c mod 128)) w else sector (disk s) i)"
    if "i < unat (total_sectors dv (disk s))" for i
    using that d2(4) [of i] same1 [of i] tot1 by (simp add: s1_def)
  have "int c smod 128 = int (c mod 128)" by (simp add: smod_nonneg zmod_int)
  then have "setClusterLinkTable dv (int c) w s = Some ?s'"
    using d1(1) d2(1) by (simp add: setClusterLinkTable_def Let_def fat_const s1_def link_lba_def)
  moreover have "fat_frame dv s ?s'"
    using d2(3) tot1 by (simp add: fat_frame_def s1_def)
  moreover have "cluster_data sector ?s' x = cluster_data sector s x" if "valid_cluster dv s x" for x
    unfolding cluster_data_def by (rule arg_cong [where f = concat], rule map_cong)
      (use that L(2) sec in \<open>auto simp: s1_def valid_cluster_def\<close>)
  moreover have "link_of sector ?s' c = w"
    using sec [of "unat ?lba"] L len k
    by (simp add: link_of_def link_sector_def s1_def get_put_DWORD)
  moreover have "link_of sector ?s' x = link_of sector s x"
    if x: "x < 128 * unat (clusterLinkSectorCount (fatInfor s))" "x \<noteq> c" for x
  proof -
    note X = link_lba_unat [OF ok x(1)]
    show ?thesis
    proof (cases "x div 128 = c div 128")
      case True
      then have "x mod 128 \<noteq> c mod 128" using x(2) by (metis div_mult_mod_eq)
      then have "4 * (x mod 128) + 4 \<le> 4 * (c mod 128) \<or> 4 * (c mod 128) + 4 \<le> 4 * (x mod 128)" by linarith
      then have "getDWORD (putDWORD ?sec (4 * (c mod 128)) w) (4 * (x mod 128)) = getDWORD ?sec (4 * (x mod 128))"
        using len by (intro get_put_DWORD_other) simp_all
      then show ?thesis using sec [of "unat ?lba"] L True
        by (simp add: link_of_def link_sector_def s1_def)
    next
      case False
      then show ?thesis using sec [of "unat (link_lba (int x) s)"] X L(1)
        by (simp add: link_of_def link_sector_def s1_def)
    qed
  qed
  moreover have "sector d2 i = sector (disk s) i" if "i < ?la" for i
    using sec [of i] that L by simp
  ultimately show thesis using d2(2) by (intro that [of ?s']) (simp_all add: s1_def)
qed

end

end
