(* ===== verification/FatFiles.thy ===== *)
theory FatFiles
  imports FatOps
begin

text \<open>
  Files on a disk that works: the search of the directory, reading, writing, creating and
  deleting a file, and the allocation of its cluster.
\<close>

section \<open>The directory\<close>

definition name_of :: "BYTE list \<Rightarrow> nat \<Rightarrow> BYTE list" where
  "name_of dir i = takeWhile (\<lambda>b. b \<noteq> 0) (chunk (32 * i) 24 dir)"

text \<open>The last byte of every name field is the terminator.\<close>

definition dir_ok :: "BYTE list \<Rightarrow> bool" where
  "dir_ok dir \<longleftrightarrow> length dir = 4096 \<and> (\<forall>i < 128. chunk (32 * i) 24 dir ! 23 = 0)"

lemma dir_ok_NUL: "dir_ok dir \<Longrightarrow> i < 128 \<Longrightarrow> 0 \<in> set (chunk (32 * i) 24 dir)"
  by (rule in_set_conv_nth [THEN iffD2], rule exI [of _ 23]) (simp add: dir_ok_def)

definition lookup :: "BYTE list \<Rightarrow> BYTE list \<Rightarrow> nat option" where
  "lookup dir t = find (\<lambda>j. entry_cluster dir j \<noteq> 0 \<and> name_of dir j = t) [0..<128]"

lemma cstr_takeWhile:
  "(\<And>j. j < length xs \<Longrightarrow> p (k + j) = Some (xs ! j)) \<Longrightarrow> 0 \<in> set xs \<Longrightarrow> cstr_at p k (takeWhile (\<lambda>b. b \<noteq> 0) xs)"
proof (induction xs arbitrary: k)
  case (Cons x xs)
  have x: "p k = Some x" using Cons.prems(1) [of 0] by simp
  have "p (Suc k + j) = Some (xs ! j)" if "j < length xs" for j
    using Cons.prems(1) [of "Suc j"] that by simp
  with x Cons show ?case by auto
qed simp

lemma cstr_entry:
  assumes "length dir = 4096" and "i < 128" and "0 \<in> set (chunk (32 * i) 24 dir)"
  shows "cstr (entry_ptr dir i) (name_of dir i)"
  unfolding name_of_def
  by (rule cstr_takeWhile)
    (use assms in \<open>auto simp: entry_ptr_def SIZEOF_FILEINFO_def nth_chunk\<close>)

lemma find_name_eq:
  assumes dir: "dir_ok dir" and name: "cstr name t"
  shows "find_name u dir name i = Some (find (\<lambda>j. (u \<longrightarrow> entry_cluster dir j \<noteq> 0) \<and> name_of dir j = t) [i..<128])"
proof (induction "128 - i" arbitrary: i)
  case 0
  then show ?case by (subst find_name.simps) (simp add: fat_const)
next
  case (Suc n)
  then have i: "i < 128" by simp
  have IH: "find_name u dir name (Suc i) = Some (find (\<lambda>j. (u \<longrightarrow> entry_cluster dir j \<noteq> 0) \<and> name_of dir j = t) [Suc i..<128])"
    using Suc by (intro Suc.hyps(1)) simp
  have c: "cstr (entry_ptr dir i) (name_of dir i)"
    using dir i dir_ok_NUL [OF dir i] by (intro cstr_entry) (auto simp: dir_ok_def)
  then obtain r where r: "strcmp (entry_ptr dir i) name = Some r" "r = 0 \<longleftrightarrow> name_of dir i = t"
    using strcmp_cstr [OF c name] strcmp_eq_0_iff [OF c name] by auto
  show ?case using i IH r by (cases u; subst find_name.simps; simp add: fat_const upt_conv_Cons)
qed

lemma lookupD:
  assumes "lookup dir t = Some i"
  shows "i < 128" "entry_cluster dir i \<noteq> 0" "name_of dir i = t"
  using assms by (auto simp: lookup_def find_Some_iff)

lemma find_name_lookup: "dir_ok dir \<Longrightarrow> cstr name t \<Longrightarrow> find_name True dir name 0 = Some (lookup dir t)"
  by (simp add: find_name_eq lookup_def)

text \<open>Replacing the size or the cluster of an entry leaves all names and the other entries alone.\<close>

lemma put_entry_field:
  fixes w :: DWORD
  assumes len: "length dir = 4096" and i: "i < 128" and k: "k = 24 \<or> k = 28"
  defines "d \<equiv> putDWORD dir (SIZEOF_FILEINFO * i + k) w"
  shows "length d = 4096" "\<And>j. j < 128 \<Longrightarrow> chunk (32 * j) 24 d = chunk (32 * j) 24 dir"
    "\<And>j. j < 128 \<Longrightarrow> j \<noteq> i \<Longrightarrow> chunk (32 * j) 32 d = chunk (32 * j) 32 dir"
    "entry_size d i = (if k = 24 then w else entry_size dir i)"
    "entry_cluster d i = (if k = 28 then w else entry_cluster dir i)"
    "\<And>j. j < 128 \<Longrightarrow> j \<noteq> i \<Longrightarrow> entry_size d j = entry_size dir j \<and> entry_cluster d j = entry_cluster dir j"
proof -
  have kb: "24 \<le> k" "k \<le> 28" using k by auto
  have off: "32 * i + k + 4 \<le> length dir" using len i kb by linarith
  show "length d = 4096" using off len by (simp add: d_def SIZEOF_FILEINFO_def)
  show "chunk (32 * j) 24 d = chunk (32 * j) 24 dir" if j: "j < 128" for j
  proof -
    have "32 * j + 24 \<le> 32 * i + k \<or> 32 * i + k + 4 \<le> 32 * j" using kb by (cases "j \<le> i") linarith+
    then show ?thesis unfolding d_def SIZEOF_FILEINFO_def
      by (intro chunk_put_DWORD) (use off len j in linarith)+
  qed
  have far: "32 * j + 32 \<le> 32 * i + k \<or> 32 * i + k + 4 \<le> 32 * j" if "j \<noteq> i" for j
    using kb that by (cases "j < i") linarith+
  show "chunk (32 * j) 32 d = chunk (32 * j) 32 dir" if "j < 128" "j \<noteq> i" for j
    unfolding d_def SIZEOF_FILEINFO_def
    by (intro chunk_put_DWORD) (use far [OF that(2)] off len that in linarith)+
  show "entry_size d j = entry_size dir j \<and> entry_cluster d j = entry_cluster dir j" if "j < 128" "j \<noteq> i" for j
    unfolding d_def entry_size_def entry_cluster_def SIZEOF_FILEINFO_def
    by (intro conjI get_put_DWORD_other) (use far [OF that(2)] off len that in linarith)+
  show "entry_size d i = (if k = 24 then w else entry_size dir i)"
    using k off len i
    by (elim disjE) (simp_all add: d_def entry_size_def SIZEOF_FILEINFO_def get_put_DWORD get_put_DWORD_other)
  show "entry_cluster d i = (if k = 28 then w else entry_cluster dir i)"
    using k off len i
    by (elim disjE) (simp_all add: d_def entry_cluster_def SIZEOF_FILEINFO_def get_put_DWORD get_put_DWORD_other)
qed

section \<open>Reading and writing\<close>

context block_device
begin

lemma length_dir: "mounted_ok dv good s \<Longrightarrow> length (cluster_data sector s 0) = 4096"
  by (rule length_cluster) (simp_all add: mounted_ok_def)

lemma cluster_int:
  "mounted_ok dv good s \<Longrightarrow> valid_cluster dv s (unat c) \<Longrightarrow> sint (c :: DWORD) = int (unat c)"
  by (rule sint_DWORD) (auto simp: mounted_ok_def valid_cluster_def)

lemma readFile_ok:
  assumes ok: "mounted_ok dv good s" and dir: "dir_ok (cluster_data sector s 0)" and name: "cstr name t"
    and some: "lookup (cluster_data sector s 0) t = Some i"
    and v: "valid_cluster dv s (unat (entry_cluster (cluster_data sector s 0) i))" and buf: "length buf = 4096"
  obtains s' where "readFile dv name buf s = Some (sint (entry_size (cluster_data sector s 0) i),
      cluster_data sector s (unat (entry_cluster (cluster_data sector s 0) i)), s')"
    "mounted_ok dv good s'" "fat_frame dv s s'" "same_sectors s s'"
proof -
  let ?d = "cluster_data sector s 0"
  obtain b where b: "readDir dv s = s\<lparr>disk := b, buffer4096 := ?d\<rparr>" "mounted_ok dv good (readDir dv s)"
    "fat_frame dv s (readDir dv s)" "same_sectors s (readDir dv s)" using readDir_ok [OF ok] by metis
  let ?s1 = "readDir dv s" and ?c = "unat (entry_cluster ?d i)"
  have v1: "valid_cluster dv ?s1 ?c" using v fat_frame_valid [OF b(3)] by simp
  obtain b2 where b2: "readCluster dv (int ?c) buf ?s1 = (cluster_data sector ?s1 ?c, ?s1\<lparr>disk := b2\<rparr>)"
    "mounted_ok dv good (?s1\<lparr>disk := b2\<rparr>)" "fat_frame dv ?s1 (?s1\<lparr>disk := b2\<rparr>)" "same_sectors ?s1 (?s1\<lparr>disk := b2\<rparr>)"
    using readCluster_ok [OF b(2) v1 buf] by metis
  have "cluster_data sector ?s1 ?c = cluster_data sector s ?c"
    using b(3) by (intro same_cluster [OF b(4) _ v]) (simp add: fat_frame_def)
  then have "readFile dv name buf s = Some (sint (entry_size ?d i), cluster_data sector s ?c, ?s1\<lparr>disk := b2\<rparr>)"
    using ok b(1) b2(1) find_name_lookup [OF dir name] some cluster_int [OF ok v]
    by (simp add: readFile_def mounted_ok_def)
  moreover have "same_sectors s (?s1\<lparr>disk := b2\<rparr>)"
    using b(3,4) b2(4) by (simp add: same_sectors_def fat_frame_def)
  ultimately show thesis using b2(2) fat_frame_trans [OF b(3) b2(3)] by (intro that) auto
qed

lemma writeFile_ok:
  assumes ok: "mounted_ok dv good s" and dir: "dir_ok (cluster_data sector s 0)" and name: "cstr name t"
    and some: "lookup (cluster_data sector s 0) t = Some i" and c: "unat (entry_cluster (cluster_data sector s 0) i) = c"
    and v: "valid_cluster dv s c" and buf: "length buf = 4096"
  obtains s' where "writeFile dv name buf sz s = Some (True, s')" "mounted_ok dv good s'" "fat_frame dv s s'"
    "cluster_data sector s' 0 = putDWORD (cluster_data sector s 0) (SIZEOF_FILEINFO * i + 24) (word_of_int sz)"
    "cluster_data sector s' c = buf"
    "\<And>x. valid_cluster dv s x \<Longrightarrow> x \<noteq> 0 \<Longrightarrow> x \<noteq> c \<Longrightarrow> cluster_data sector s' x = cluster_data sector s x"
    "\<And>k. k < unat (dataAddress (fatInfor s)) \<Longrightarrow> sector (disk s') k = sector (disk s) k"
proof -
  let ?d = "cluster_data sector s 0"
  have c0: "c \<noteq> 0" using lookupD(2) [OF some] c by (auto simp: unat_gt_0)
  obtain b where b: "readDir dv s = s\<lparr>disk := b, buffer4096 := ?d\<rparr>" "mounted_ok dv good (readDir dv s)"
    "fat_frame dv s (readDir dv s)" "same_sectors s (readDir dv s)" using readDir_ok [OF ok] by metis
  define s1 where "s1 = readDir dv s"
  note B = b(2-4) [folded s1_def]
  have s1: "buffer4096 s1 = ?d" "fatInfor s1 = fatInfor s" "total_sectors dv (disk s1) = total_sectors dv (disk s)"
    using b(1) B(2) by (simp_all add: s1_def fat_frame_def)
  have v1: "valid_cluster dv s1 x = valid_cluster dv s x" for x using fat_frame_valid [OF B(2)] by simp
  obtain b2 where b2: "writeCluster dv (int c) buf s1 = s1\<lparr>disk := b2\<rparr>"
    "mounted_ok dv good (s1\<lparr>disk := b2\<rparr>)" "fat_frame dv s1 (s1\<lparr>disk := b2\<rparr>)"
    "cluster_data sector (s1\<lparr>disk := b2\<rparr>) c = buf"
    "\<And>x. valid_cluster dv s1 x \<Longrightarrow> x \<noteq> c \<Longrightarrow> cluster_data sector (s1\<lparr>disk := b2\<rparr>) x = cluster_data sector s1 x"
    "\<And>k. k < unat (dataAddress (fatInfor s1)) \<Longrightarrow> sector b2 k = sector (disk s1) k"
    using writeCluster_ok [OF B(1) v1 [THEN iffD2, OF v] buf] by metis
  define s3 where "s3 = s1\<lparr>disk := b2, buffer4096 := putDWORD ?d (SIZEOF_FILEINFO * i + 24) (word_of_int sz)\<rparr>"
  have "length (putDWORD ?d (SIZEOF_FILEINFO * i + 24) (word_of_int sz)) = 4096"
    using put_entry_field(1) [OF length_dir [OF ok] lookupD(1) [OF some], of 24] by simp
  then have ok3: "mounted_ok dv good s3"
    using b2(2) by (simp add: s3_def mounted_ok_def valid_cluster_def fat_const)
  obtain b3 where b3: "writeDir dv s3 = s3\<lparr>disk := b3\<rparr>" "mounted_ok dv good (writeDir dv s3)"
    "fat_frame dv s3 (writeDir dv s3)" "cluster_data sector (writeDir dv s3) 0 = buffer4096 s3"
    "\<And>x. valid_cluster dv s3 x \<Longrightarrow> x \<noteq> 0 \<Longrightarrow> cluster_data sector (writeDir dv s3) x = cluster_data sector s3 x"
    "\<And>k. k < unat (dataAddress (fatInfor s3)) \<Longrightarrow> sector (disk (writeDir dv s3)) k = sector (disk s3) k"
    using writeDir_ok [OF ok3] by metis
  have "fat_frame dv s s3" using B(2) b2(3) by (simp add: fat_frame_def s3_def)
  note fr = this fat_frame_trans [OF this b3(3)]
  have v3: "valid_cluster dv s3 x = valid_cluster dv s x" for x using fat_frame_valid [OF fr(1)] by simp
  have c3: "cluster_data sector s3 x = cluster_data sector (s1\<lparr>disk := b2\<rparr>) x" for x
    by (simp add: s3_def cluster_data_def)
  have c1: "cluster_data sector s1 x = cluster_data sector s x" if "valid_cluster dv s x" for x
    using same_cluster [OF B(3) s1(2) that] .
  have "writeFile dv name buf sz s = Some (True, writeDir dv s3)"
    using ok b(1) b2(1) find_name_lookup [OF dir name] some cluster_int [OF ok, of "entry_cluster ?d i"] v c s1(1)
    by (simp add: writeFile_def mounted_ok_def s1_def [symmetric] s3_def)
  moreover have "cluster_data sector (writeDir dv s3) c = buf"
    using b3(5) [of c] v3 v c0 c3 b2(4) by simp
  moreover have "cluster_data sector (writeDir dv s3) x = cluster_data sector s x"
    if "valid_cluster dv s x" "x \<noteq> 0" "x \<noteq> c" for x
    using b3(5) [of x] v3 v1 that c3 b2(5) [of x] c1 by simp
  moreover have "sector (disk (writeDir dv s3)) k = sector (disk s) k" if "k < unat (dataAddress (fatInfor s))" for k
  proof -
    have "k < unat (total_sectors dv (disk s))" using that ok by (simp add: mounted_ok_def valid_cluster_def)
    then have "sector (disk s1) k = sector (disk s) k" using B(3) by (simp add: same_sectors_def)
    then show ?thesis using b3(6) [of k] b2(6) [of k] that s1(2) by (simp add: s3_def)
  qed
  ultimately show thesis using b3(2,4) fr(2) by (intro that [of "writeDir dv s3"]) (simp_all add: s3_def)
qed

end

section \<open>Entries as blocks of 32 bytes\<close>

lemma getDWORD_chunk: "off + 4 \<le> n \<Longrightarrow> i + n \<le> length buf \<Longrightarrow> getDWORD (chunk i n buf) off = getDWORD buf (i + off)"
proof -
  assume a: "off + 4 \<le> n" "i + n \<le> length buf"
  have "chunk off 4 (chunk i n buf) = chunk (i + off) 4 buf"
    by (rule nth_equalityI) (use a in \<open>simp_all add: nth_chunk add.assoc\<close>)
  then show ?thesis by (simp add: getDWORD_def)
qed

lemma entry_of_chunk:
  assumes "length dir = 4096" and "j < 128"
  shows "entry_size dir j = getDWORD (chunk (32 * j) 32 dir) 24"
    "entry_cluster dir j = getDWORD (chunk (32 * j) 32 dir) 28"
    "chunk (32 * j) 24 dir = take 24 (chunk (32 * j) 32 dir)"
  using assms by (simp_all add: entry_size_def entry_cluster_def SIZEOF_FILEINFO_def getDWORD_chunk)
    (simp add: chunk_def)

lemma getDWORD_append_le: "getDWORD (xs @ le_encode 4 (unat w) @ ys) (length xs) = w"
  using unat_DWORD_bound [of w] by (simp add: getDWORD_def chunk_def)

lemma encode_info_fields:
  assumes "length (fileName f) = 24"
  shows "length (encode_info f) = 32" "take 24 (encode_info f) = fileName f"
    "getDWORD (encode_info f) 24 = fileSize f" "getDWORD (encode_info f) 28 = clusterIdx f"
proof -
  show "length (encode_info f) = 32" "take 24 (encode_info f) = fileName f" using assms by (simp_all add: encode_info_def)
  show "getDWORD (encode_info f) 24 = fileSize f"
    using getDWORD_append_le [of "fileName f" "fileSize f" "le_encode 4 (unat (clusterIdx f))"] assms
    by (simp add: encode_info_def)
  show "getDWORD (encode_info f) 28 = clusterIdx f"
    using getDWORD_append_le [of "fileName f @ le_encode 4 (unat (fileSize f))" "clusterIdx f" "[]"] assms
    by (simp add: encode_info_def)
qed

text \<open>Storing a whole entry.\<close>

lemma put_entry:
  assumes dir: "dir_ok dir" and e: "e < 128" and f: "length (fileName f) = 24" "fileName f ! 23 = 0"
  defines "d \<equiv> splice_at dir (SIZEOF_FILEINFO * e) (encode_info f)"
  shows "dir_ok d" "entry_size d e = fileSize f" "entry_cluster d e = clusterIdx f"
    "name_of d e = takeWhile (\<lambda>b. b \<noteq> 0) (fileName f)"
    "\<And>j. j < 128 \<Longrightarrow> j \<noteq> e \<Longrightarrow> chunk (32 * j) 32 d = chunk (32 * j) 32 dir"
proof -
  note F = encode_info_fields [OF f(1)]
  have len: "length dir = 4096" using dir by (simp add: dir_ok_def)
  have off: "32 * e + length (encode_info f) \<le> length dir" using len e F(1) by simp
  then have ld: "length d = 4096" using len by (simp add: d_def SIZEOF_FILEINFO_def)
  have here: "chunk (32 * e) 32 d = encode_info f" using off F(1) by (simp add: d_def SIZEOF_FILEINFO_def)
  note E = entry_of_chunk [OF ld e, unfolded here F]
  show "entry_size d e = fileSize f" "entry_cluster d e = clusterIdx f" using E by simp_all
  show "name_of d e = takeWhile (\<lambda>b. b \<noteq> 0) (fileName f)" using E(3) by (simp add: name_of_def)
  show other: "chunk (32 * j) 32 d = chunk (32 * j) 32 dir" if "j < 128" "j \<noteq> e" for j
  proof -
    have "32 * j + 32 \<le> 32 * e \<or> 32 * e + 32 \<le> 32 * j" using that(2) by (cases "j < e") linarith+
    then show ?thesis unfolding d_def SIZEOF_FILEINFO_def
      by (intro chunk_splice_other) (use off F(1) len that in linarith)+
  qed
  have "chunk (32 * j) 24 d ! 23 = 0" if "j < 128" for j
  proof (cases "j = e")
    case True
    then show ?thesis using E(3) f(2) by simp
  next
    case False
    then have "chunk (32 * j) 24 d = chunk (32 * j) 24 dir"
      unfolding entry_of_chunk(3) [OF ld that] entry_of_chunk(3) [OF len that] using other [OF that] by simp
    then show ?thesis using dir that by (simp add: dir_ok_def)
  qed
  with ld show "dir_ok d" by (simp add: dir_ok_def)
qed

lemma cstr_at_nth: "cstr_at p k t \<Longrightarrow> i < length t \<Longrightarrow> p (k + i) = Some (t ! i)"
proof (induction t arbitrary: k i)
  case (Cons c t)
  then show ?case by (cases i) (use Cons.IH [of "Suc k"] in auto)
qed simp

lemma take_ptr_cstr: "cstr p t \<Longrightarrow> n \<le> length t \<Longrightarrow> take_ptr p n = Some (take n t)"
proof (induction n)
  case (Suc n)
  then show ?case using cstr_at_nth [of p 0 t n] by (simp add: take_Suc_conv_app_nth)
qed simp

lemma newFileInfo_ok:
  assumes "cstr name t"
  shows "newFileInfo name c = Some \<lparr>fileName = take 23 t @ replicate (24 - length (take 23 t)) 0,
    fileSize = 0, clusterIdx = word_of_int c\<rparr>"
proof (cases "23 < length t")
  case True
  then show ?thesis using take_ptr_cstr [OF assms, of 23] strlen_cstr [OF assms]
    by (simp add: newFileInfo_def fat_const splice_at_def)
next
  case False
  then show ?thesis using take_ptr_cstr [OF assms, of "length t"] strlen_cstr [OF assms]
    by (simp add: newFileInfo_def fat_const splice_at_def)
qed

lemma takeWhile_name:
  assumes "0 \<notin> set t"
  shows "takeWhile (\<lambda>b. b \<noteq> 0) (take n t @ replicate m 0) = take n (t :: BYTE list)"
proof -
  have "takeWhile (\<lambda>b. b \<noteq> 0) (take n t @ replicate m 0) = take n t @ takeWhile (\<lambda>b. b \<noteq> 0) (replicate m (0::BYTE))"
    using assms by (intro takeWhile_append2) (auto dest: in_set_takeD)
  also have "takeWhile (\<lambda>b. b \<noteq> 0) (replicate m (0::BYTE)) = []" by (cases m) simp_all
  finally show ?thesis by simp
qed

section \<open>Allocation\<close>

lemma scan_links_eq:
  "j \<le> 128 \<Longrightarrow> scan_links buf j best =
     (case find (\<lambda>k. getDWORD buf (4 * k) = 0) [j..<128] of
        Some k \<Rightarrow> (True, best + int k - int j) | None \<Rightarrow> (False, best + 128 - int j))"
proof (induction "128 - j" arbitrary: j best)
  case 0
  then show ?case by (subst scan_links.simps) (simp add: fat_const)
next
  case (Suc n)
  then have j: "j < 128" by simp
  have IH: "scan_links buf (Suc j) (best + 1) =
     (case find (\<lambda>k. getDWORD buf (4 * k) = 0) [Suc j..<128] of
        Some k \<Rightarrow> (True, best + 1 + int k - int (Suc j)) | None \<Rightarrow> (False, best + 1 + 128 - int (Suc j)))"
    using Suc by (intro Suc.hyps(1)) simp_all
  show ?case using j IH by (subst scan_links.simps) (simp add: fat_const upt_conv_Cons split: option.split)
qed

lemma find_entry_loop_ok:
  "0 \<le> bestRootDirIdx s \<Longrightarrow> bestRootDirIdx s < 128 \<Longrightarrow>
   \<exists>m < n. entry_cluster (buffer4096 s) (nat ((bestRootDirIdx s + int m) mod 128)) = 0 \<Longrightarrow>
   \<exists>e < 128. entry_cluster (buffer4096 s) e = 0 \<and> find_entry_loop n s = (int e, s\<lparr>bestRootDirIdx := int e\<rparr>)"
proof (induction n arbitrary: s)
  case (Suc n)
  let ?b = "bestRootDirIdx s"
  show ?case
  proof (cases "entry_cluster (buffer4096 s) (nat ?b) = 0")
    case True
    then show ?thesis using Suc.prems by (intro exI [of _ "nat ?b"]) auto
  next
    case False
    let ?s = "s\<lparr>bestRootDirIdx := (?b + 1) smod 128\<rparr>"
    have b: "(?b + 1) smod 128 = (?b + 1) mod 128" using Suc.prems by (simp add: smod_nonneg)
    obtain m where m: "m < Suc n" "entry_cluster (buffer4096 s) (nat ((?b + int m) mod 128)) = 0" using Suc.prems by blast
    then obtain m' where "m = Suc m'" using False Suc.prems by (cases m) auto
    moreover have "((?b + 1) mod 128 + int m') mod 128 = (?b + int (Suc m')) mod 128"
      by (simp add: mod_simps algebra_simps)
    ultimately have "\<exists>m < n. entry_cluster (buffer4096 ?s) (nat ((bestRootDirIdx ?s + int m) mod 128)) = 0"
      using m b by (intro exI [of _ m']) simp
    from Suc.IH [OF _ _ this] b False show ?thesis by (auto simp: fat_const)
  qed
qed simp

lemma free_entry_cyclic:
  assumes "0 \<le> b" "b < 128" and "e < 128" "P e"
  shows "\<exists>m < 128. P (nat ((b + int m) mod 128))"
proof (intro exI conjI)
  show "nat ((int e - b) mod 128) < 128" by simp
  have "(b + (int e - b) mod 128) mod 128 = int e" using assms(3) by (simp add: mod_simps)
  then show "P (nat ((b + int (nat ((int e - b) mod 128))) mod 128))" using assms(4) by simp
qed

section \<open>Creating and deleting\<close>

definition new_info :: "BYTE list \<Rightarrow> nat \<Rightarrow> fileInformation" where
  "new_info t c = \<lparr>fileName = take 23 t @ replicate (24 - length (take 23 t)) 0, fileSize = 0, clusterIdx = word_of_nat c\<rparr>"

context block_device
begin

lemma same_sectors_trans:
  "fat_frame dv s t \<Longrightarrow> same_sectors s t \<Longrightarrow> same_sectors t u \<Longrightarrow> same_sectors s u"
  by (simp add: same_sectors_def fat_frame_def)

lemma same_links:
  assumes "mounted_ok dv good s" and "same_sectors s t" and "fatInfor t = fatInfor s"
    and "c < 128 * unat (clusterLinkSectorCount (fatInfor s))"
  shows "link_of sector t c = link_of sector s c"
  using assms(2,3) link_lba_unat(1,3) [OF assms(1,4)]
  by (simp add: link_of_def link_sector_def same_sectors_def)

lemma findFreeCluster_ok:
  assumes ok: "mounted_ok dv good s" and b: "bestIdx s = int b"
    and q: "b div 128 < unat (clusterLinkSectorCount (fatInfor s))"
    and k: "find (\<lambda>k. link_of sector s (128 * (b div 128) + k) = 0) [0..<128] = Some k"
  obtains s' where "findFreeClusterAndUpdate dv s = (int (b + k), s')" "mounted_ok dv good s'" "fat_frame dv s s'"
    "same_sectors s s'" "buffer4096 s' = buffer4096 s" "bestRootDirIdx s' = bestRootDirIdx s"
    "bestIdx s' = int (b + k + 1)"
proof -
  have b128: "b < 128 * unat (clusterLinkSectorCount (fatInfor s))"
    using q by (metis mult.commute div_less_iff_less_mult zero_less_numeral)
  note L = link_lba_unat [OF ok b128]
  obtain d where d: "snd (read512 dv (link_lba (int b) s) s) = s\<lparr>buffer512 := sector (disk s) (unat (link_lba (int b) s)), disk := d\<rparr>"
    "mounted_ok dv good (snd (read512 dv (link_lba (int b) s) s))" "fat_frame dv s (snd (read512 dv (link_lba (int b) s) s))"
    "same_sectors s (snd (read512 dv (link_lba (int b) s) s))" using read512_ok [OF ok L(3)] by metis
  define s1 where "s1 = snd (read512 dv (link_lba (int b) s) s)"
  note D = d(2-4) [folded s1_def]
  have s1: "s1 = s\<lparr>buffer512 := link_sector sector s (b div 128), disk := d\<rparr>"
    unfolding s1_def d(1) L(1) link_sector_def ..
  have "find (\<lambda>k. getDWORD (link_sector sector s (b div 128)) (4 * k) = 0) [0..<128] =
      find (\<lambda>k. link_of sector s (128 * (b div 128) + k) = 0) [0..<128]"
    by (rule find_cong) (simp_all add: link_of_def)
  then have "find (\<lambda>k. getDWORD (link_sector sector s (b div 128)) (4 * k) = 0) [0..<128] = Some k" using k by simp
  then have scan: "scan_links (link_sector sector s (b div 128)) 0 (int b) = (True, int (b + k))"
    by (simp add: scan_links_eq)
  have "unat (clusterLinkSectorCount (fatInfor s)) < 2 ^ 31"
    using ok by (simp add: mounted_ok_def valid_cluster_def)
  then have "nat (sint (clusterLinkSectorCount (fatInfor s))) = unat (clusterLinkSectorCount (fatInfor s))"
    by (simp add: sint_DWORD del: of_nat_unat)
  then obtain n where n: "nat (sint (clusterLinkSectorCount (fatInfor s))) = Suc n" using q by (cases "unat (clusterLinkSectorCount (fatInfor s))") auto
  have "findFreeClusterAndUpdate dv s = (int (b + k), s1\<lparr>bestIdx := int (b + k) + 1\<rparr>)"
    unfolding findFreeClusterAndUpdate_def n using scan b
    by (simp add: s1_def [symmetric] Let_def) (simp add: s1)
  moreover have "mounted_ok dv good (s1\<lparr>bestIdx := int (b + k) + 1\<rparr>)"
    using D(1) by (simp add: mounted_ok_def valid_cluster_def)
  moreover have "fat_frame dv s (s1\<lparr>bestIdx := int (b + k) + 1\<rparr>)" "same_sectors s (s1\<lparr>bestIdx := int (b + k) + 1\<rparr>)"
    using D(2,3) by (simp_all add: fat_frame_def same_sectors_def)
  ultimately show thesis
    by (intro that [of "s1\<lparr>bestIdx := int (b + k) + 1\<rparr>"]) (simp_all add: s1)
qed

lemma findFreeEntry_ok:
  assumes ok: "mounted_ok dv good s" and free: "\<exists>e < 128. entry_cluster (cluster_data sector s 0) e = 0"
  obtains e s' where "findFreeDirectoryEntryAndUpdate dv s = (int e, s')" "e < 128"
    "entry_cluster (cluster_data sector s 0) e = 0" "mounted_ok dv good s'" "fat_frame dv s s'" "same_sectors s s'"
    "bestIdx s' = bestIdx s"
proof -
  obtain b where b: "readDir dv s = s\<lparr>disk := b, buffer4096 := cluster_data sector s 0\<rparr>" "mounted_ok dv good (readDir dv s)"
    "fat_frame dv s (readDir dv s)" "same_sectors s (readDir dv s)" using readDir_ok [OF ok] by metis
  have r: "0 \<le> bestRootDirIdx (readDir dv s)" "bestRootDirIdx (readDir dv s) < 128"
    using b(2) by (simp_all add: mounted_ok_def fat_const)
  obtain e0 where "e0 < 128" "entry_cluster (buffer4096 (readDir dv s)) e0 = 0" using free b(1) by auto
  from free_entry_cyclic [OF r this(1), of "\<lambda>e. entry_cluster (buffer4096 (readDir dv s)) e = 0", OF this(2)]
  have "\<exists>m < 128. entry_cluster (buffer4096 (readDir dv s)) (nat ((bestRootDirIdx (readDir dv s) + int m) mod 128)) = 0" .
  from find_entry_loop_ok [OF r this] obtain e where e: "e < 128" "entry_cluster (buffer4096 (readDir dv s)) e = 0"
    "find_entry_loop 128 (readDir dv s) = (int e, readDir dv s\<lparr>bestRootDirIdx := int e\<rparr>)" by blast
  have "mounted_ok dv good (readDir dv s\<lparr>bestRootDirIdx := int e\<rparr>)"
    using b(2) e(1) by (simp add: mounted_ok_def valid_cluster_def fat_const)
  moreover have "fat_frame dv s (readDir dv s\<lparr>bestRootDirIdx := int e\<rparr>)" "same_sectors s (readDir dv s\<lparr>bestRootDirIdx := int e\<rparr>)"
    using b(3,4) by (simp_all add: fat_frame_def same_sectors_def)
  ultimately show thesis using e b(1)
    by (intro that [of e "readDir dv s\<lparr>bestRootDirIdx := int e\<rparr>"])
      (simp_all add: findFreeDirectoryEntryAndUpdate_def fat_const)
qed

text \<open>A new directory is written behind a read of the old one.\<close>

lemma replaceDir_ok:
  assumes ok: "mounted_ok dv good s" and len: "length d' = 4096"
  defines "s' \<equiv> writeDir dv ((readDir dv s)\<lparr>buffer4096 := d'\<rparr>)"
  shows "mounted_ok dv good s'" "fat_frame dv s s'" "cluster_data sector s' 0 = d'" "bestIdx s' = bestIdx s"
    "valid_cluster dv s x \<Longrightarrow> x \<noteq> 0 \<Longrightarrow> cluster_data sector s' x = cluster_data sector s x"
    "y < 128 * unat (clusterLinkSectorCount (fatInfor s)) \<Longrightarrow> link_of sector s' y = link_of sector s y"
    "i < unat (clusterLinkSectorAddress (fatInfor s)) \<Longrightarrow> sector (disk s') i = sector (disk s) i"
    "buffer4096 (readDir dv s) = cluster_data sector s 0"
proof -
  obtain b5 where b5: "readDir dv s = s\<lparr>disk := b5, buffer4096 := cluster_data sector s 0\<rparr>" "mounted_ok dv good (readDir dv s)"
    "fat_frame dv s (readDir dv s)" "same_sectors s (readDir dv s)" using readDir_ok [OF ok] by metis
  define s6 where "s6 = (readDir dv s)\<lparr>buffer4096 := d'\<rparr>"
  have ok6: "mounted_ok dv good s6" using b5(2) len by (simp add: s6_def mounted_ok_def valid_cluster_def fat_const)
  obtain b7 where b7: "writeDir dv s6 = s6\<lparr>disk := b7\<rparr>" "mounted_ok dv good (writeDir dv s6)"
    "fat_frame dv s6 (writeDir dv s6)" "cluster_data sector (writeDir dv s6) 0 = buffer4096 s6"
    "\<And>x. valid_cluster dv s6 x \<Longrightarrow> x \<noteq> 0 \<Longrightarrow> cluster_data sector (writeDir dv s6) x = cluster_data sector s6 x"
    "\<And>i. i < unat (dataAddress (fatInfor s6)) \<Longrightarrow> sector (disk (writeDir dv s6)) i = sector (disk s6) i"
    using writeDir_ok [OF ok6] by metis
  have s': "s' = writeDir dv s6" by (simp add: s'_def s6_def)
  have f6: "fat_frame dv s s6" using b5(3) by (simp add: s6_def fat_frame_def)
  have f7: "fat_frame dv s (writeDir dv s6)" using fat_frame_trans [OF f6 b7(3)] .
  have sec: "sector (disk s6) i = sector (disk s) i" if "i < unat (total_sectors dv (disk s))" for i
    using b5(4) that by (simp add: s6_def same_sectors_def)
  show "mounted_ok dv good s'" "fat_frame dv s s'" "cluster_data sector s' 0 = d'" "bestIdx s' = bestIdx s"
    "buffer4096 (readDir dv s) = cluster_data sector s 0"
    using b7(1,2,4) f7 b5(1) by (simp_all add: s' s6_def)
  show "cluster_data sector s' x = cluster_data sector s x" if x: "valid_cluster dv s x" "x \<noteq> 0"
  proof -
    have "cluster_data sector s6 x = cluster_data sector (readDir dv s) x" by (simp add: s6_def cluster_data_def)
    also have "\<dots> = cluster_data sector s x" using b5(3) by (intro same_cluster [OF b5(4) _ x(1)]) (simp add: fat_frame_def)
    finally show ?thesis using b7(5) [of x] x fat_frame_valid [OF f6] by (simp add: s')
  qed
  show "link_of sector s' y = link_of sector s y" if y: "y < 128 * unat (clusterLinkSectorCount (fatInfor s))"
    using link_lba_unat [OF ok y] b7(6) [of "unat (link_lba (int y) s)"] sec f7 f6
    by (simp add: s' link_of_def link_sector_def fat_frame_def)
  show "sector (disk s') i = sector (disk s) i" if i: "i < unat (clusterLinkSectorAddress (fatInfor s))"
  proof -
    have "i < unat (dataAddress (fatInfor s))" "i < unat (total_sectors dv (disk s))"
      using i ok by (simp_all add: mounted_ok_def valid_cluster_def)
    then show ?thesis using b7(6) [of i] sec f6 by (simp add: s' fat_frame_def)
  qed
qed

text \<open>The search for a free entry and a free cluster, and the mark on the cluster's link.\<close>

lemma allocate_ok:
  assumes ok: "mounted_ok dv good s" and free: "\<exists>e < 128. entry_cluster (cluster_data sector s 0) e = 0"
    and b: "bestIdx s = int b" and q: "b div 128 < unat (clusterLinkSectorCount (fatInfor s))"
    and k: "find (\<lambda>k. link_of sector s (128 * (b div 128) + k) = 0) [0..<128] = Some k"
    and c: "b + k < 128 * unat (clusterLinkSectorCount (fatInfor s))"
  obtains e s2 s3 s4 where "buffer4096 (readDir dv s) = cluster_data sector s 0"
    "findFreeDirectoryEntryAndUpdate dv (readDir dv s) = (int e, s2)" "e < 128" "entry_cluster (cluster_data sector s 0) e = 0"
    "findFreeClusterAndUpdate dv s2 = (int (b + k), s3)" "setClusterLinkTable dv (int (b + k)) 0xFFFFFFFF s3 = Some s4"
    "mounted_ok dv good s4" "fat_frame dv s s4" "\<And>x. valid_cluster dv s x \<Longrightarrow> cluster_data sector s4 x = cluster_data sector s x"
    "link_of sector s4 (b + k) = 0xFFFFFFFF" "bestIdx s4 = int (b + k + 1)"
    "\<And>x. x < 128 * unat (clusterLinkSectorCount (fatInfor s)) \<Longrightarrow> x \<noteq> b + k \<Longrightarrow> link_of sector s4 x = link_of sector s x"
    "\<And>i. i < unat (clusterLinkSectorAddress (fatInfor s)) \<Longrightarrow> sector (disk s4) i = sector (disk s) i"
proof -
  let ?d = "cluster_data sector s 0" and ?n = "128 * unat (clusterLinkSectorCount (fatInfor s))"
  have v0: "valid_cluster dv s 0" using ok by (simp add: mounted_ok_def)
  obtain b1 where b1: "readDir dv s = s\<lparr>disk := b1, buffer4096 := ?d\<rparr>" "mounted_ok dv good (readDir dv s)"
    "fat_frame dv s (readDir dv s)" "same_sectors s (readDir dv s)" using readDir_ok [OF ok] by metis
  define s1 where "s1 = readDir dv s" note B1 = b1(2-4) [folded s1_def]
  have s1: "buffer4096 s1 = ?d" "fatInfor s1 = fatInfor s" "bestIdx s1 = int b"
    using b1(1) B1(2) b by (simp_all add: s1_def fat_frame_def)
  have d1: "cluster_data sector s1 0 = ?d" using same_cluster [OF B1(3) s1(2) v0] .
  obtain e s2 where s2: "findFreeDirectoryEntryAndUpdate dv s1 = (int e, s2)" "e < 128" "entry_cluster ?d e = 0"
    "mounted_ok dv good s2" "fat_frame dv s1 s2" "same_sectors s1 s2" "bestIdx s2 = bestIdx s1"
    using findFreeEntry_ok [OF B1(1)] free d1 by metis
  have f2: "fat_frame dv s s2" "same_sectors s s2" "fatInfor s2 = fatInfor s"
    using fat_frame_trans [OF B1(2) s2(5)] same_sectors_trans [OF B1(2,3) s2(6)] by (simp_all add: fat_frame_def)
  have "find (\<lambda>k. link_of sector s2 (128 * (b div 128) + k) = 0) [0..<128] =
      find (\<lambda>k. link_of sector s (128 * (b div 128) + k) = 0) [0..<128]"
    by (rule find_cong) (use q same_links [OF ok f2(2,3)] in simp_all)
  moreover have "bestIdx s2 = int b" "b div 128 < unat (clusterLinkSectorCount (fatInfor s2))" using s2(7) s1(3) q f2(3) by simp_all
  ultimately obtain s3 where s3: "findFreeClusterAndUpdate dv s2 = (int (b + k), s3)" "mounted_ok dv good s3" "fat_frame dv s2 s3"
    "same_sectors s2 s3" "bestIdx s3 = int (b + k + 1)" using findFreeCluster_ok [OF s2(4)] k by metis
  have f3: "fat_frame dv s s3" "same_sectors s s3" "fatInfor s3 = fatInfor s"
    using fat_frame_trans [OF f2(1) s3(3)] same_sectors_trans [OF f2(1,2) s3(4)] by (simp_all add: fat_frame_def)
  have c3: "b + k < 128 * unat (clusterLinkSectorCount (fatInfor s3))" using c f3(3) by simp
  obtain s4 where s4: "setClusterLinkTable dv (int (b + k)) 0xFFFFFFFF s3 = Some s4" "mounted_ok dv good s4" "fat_frame dv s3 s4"
    "\<And>x. valid_cluster dv s3 x \<Longrightarrow> cluster_data sector s4 x = cluster_data sector s3 x"
    "link_of sector s4 (b + k) = 0xFFFFFFFF"
    "\<And>x. x < 128 * unat (clusterLinkSectorCount (fatInfor s3)) \<Longrightarrow> x \<noteq> b + k \<Longrightarrow> link_of sector s4 x = link_of sector s3 x"
    "bestIdx s4 = bestIdx s3"
    "\<And>i. i < unat (clusterLinkSectorAddress (fatInfor s3)) \<Longrightarrow> sector (disk s4) i = sector (disk s3) i"
    using setClusterLinkTable_ok [OF s3(2) c3, of "0xFFFFFFFF"] by metis
  show thesis
  proof (rule that [of e s2 s3 s4], goal_cases)
    case (9 x)
    then show ?case using s4(4) [of x] fat_frame_valid [OF f3(1)] same_cluster [OF f3(2,3) 9] by simp
  next
    case (12 x)
    then show ?case using s4(6) [of x] f3(3) same_links [OF ok f3(2,3) 12(1)] by simp
  next
    case (13 i)
    then have "i < unat (total_sectors dv (disk s))" using ok by (simp add: mounted_ok_def valid_cluster_def)
    then show ?case using s4(8) [of i] 13 f3(2,3) by (simp add: same_sectors_def)
  qed (use s1(1) s2(1-3) s3(1,5) s4(1,2,5,7) fat_frame_trans [OF f3(1) s4(3)] in \<open>simp_all add: s1_def\<close>)
qed

lemma createFile_ok:
  assumes ok: "mounted_ok dv good s" and dir: "dir_ok (cluster_data sector s 0)" and name: "cstr name t"
    and new: "lookup (cluster_data sector s 0) t = None"
    and free: "\<exists>e < 128. entry_cluster (cluster_data sector s 0) e = 0"
    and b: "bestIdx s = int b" and q: "b div 128 < unat (clusterLinkSectorCount (fatInfor s))"
    and k: "find (\<lambda>k. link_of sector s (128 * (b div 128) + k) = 0) [0..<128] = Some k"
    and c: "b + k < 128 * unat (clusterLinkSectorCount (fatInfor s))"
  obtains e s' where "createFile dv name s = Some s'" "e < 128" "entry_cluster (cluster_data sector s 0) e = 0"
    "mounted_ok dv good s'" "fat_frame dv s s'"
    "cluster_data sector s' 0 = splice_at (cluster_data sector s 0) (SIZEOF_FILEINFO * e) (encode_info (new_info t (b + k)))"
    "\<And>x. valid_cluster dv s x \<Longrightarrow> x \<noteq> 0 \<Longrightarrow> cluster_data sector s' x = cluster_data sector s x"
    "link_of sector s' (b + k) = 0xFFFFFFFF"
    "\<And>x. x < 128 * unat (clusterLinkSectorCount (fatInfor s)) \<Longrightarrow> x \<noteq> b + k \<Longrightarrow> link_of sector s' x = link_of sector s x"
    "bestIdx s' = int (b + k + 1)"
    "\<And>i. i < unat (clusterLinkSectorAddress (fatInfor s)) \<Longrightarrow> sector (disk s') i = sector (disk s) i"
proof (rule allocate_ok [OF ok free b q k c], goal_cases)
  case (1 e s2 s3 s4)
  note a = 1(2-)
  let ?d = "cluster_data sector s 0"
  let ?d' = "splice_at ?d (SIZEOF_FILEINFO * e) (encode_info (new_info t (b + k)))"
  let ?s' = "writeDir dv ((readDir dv s4)\<lparr>buffer4096 := ?d'\<rparr>)"
  have info: "length (fileName (new_info t (b + k))) = 24" by (simp add: new_info_def min_def)
  have "length ?d' = 4096"
    using encode_info_fields(1) [OF info] length_dir [OF ok] a(3) by (simp add: SIZEOF_FILEINFO_def)
  note w = replaceDir_ok [OF a(7) this]
  have found: "find_name True ?d name 0 = Some None" using find_name_lookup [OF dir name] new by simp
  have "newFileInfo name (int (b + k)) = Some (new_info t (b + k))"
    by (simp only: newFileInfo_ok [OF name] new_info_def of_int_of_nat_eq)
  moreover have "buffer4096 (readDir dv s4) = ?d" using w(8) a(9) [of 0] ok by (simp add: mounted_ok_def)
  ultimately have run: "createFile dv name s = Some ?s'"
    using ok a(1,2,5,6) found by (simp add: createFile_def mounted_ok_def)
  have f: "fatInfor s4 = fatInfor s" using a(8) by (simp add: fat_frame_def)
  show thesis
  proof (rule that [OF run a(3,4) w(1) fat_frame_trans [OF a(8) w(2)] w(3)], goal_cases)
    case (1 x)
    then show ?case using w(5) [of x] a(9) [of x] fat_frame_valid [OF a(8)] by simp
  qed (use w(4,6,7) a(10-13) c f in simp_all)
qed

lemma deleteFile_ok:
  assumes ok: "mounted_ok dv good s" and dir: "dir_ok (cluster_data sector s 0)" and name: "cstr name t"
    and some: "find (\<lambda>j. name_of (cluster_data sector s 0) j = t) [0..<128] = Some i"
    and c: "unat (entry_cluster (cluster_data sector s 0) i) = c" and v: "valid_cluster dv s c"
  obtains s' where "deleteFile dv name s = Some s'" "mounted_ok dv good s'" "fat_frame dv s s'"
    "cluster_data sector s' 0 =
       (putDWORD (cluster_data sector s 0) (SIZEOF_FILEINFO * i + 28) 0)[SIZEOF_FILEINFO * i := 0xE5]"
    "\<And>x. valid_cluster dv s x \<Longrightarrow> x \<noteq> 0 \<Longrightarrow> cluster_data sector s' x = cluster_data sector s x"
    "link_of sector s' c = 0"
    "\<And>x. x < 128 * unat (clusterLinkSectorCount (fatInfor s)) \<Longrightarrow> x \<noteq> c \<Longrightarrow> link_of sector s' x = link_of sector s x"
    "\<And>i. i < unat (clusterLinkSectorAddress (fatInfor s)) \<Longrightarrow> sector (disk s') i = sector (disk s) i"
proof -
  let ?d = "cluster_data sector s 0" and ?n = "128 * unat (clusterLinkSectorCount (fatInfor s))"
  have v0: "valid_cluster dv s 0" and cn: "c < ?n" using ok v by (simp_all add: mounted_ok_def valid_cluster_def)
  have i: "i < 128" using some by (auto simp: find_Some_iff)
  obtain b1 where b1: "readDir dv s = s\<lparr>disk := b1, buffer4096 := ?d\<rparr>" "mounted_ok dv good (readDir dv s)"
    "fat_frame dv s (readDir dv s)" "same_sectors s (readDir dv s)" using readDir_ok [OF ok] by metis
  define s1 where "s1 = readDir dv s" note B1 = b1(2-4) [folded s1_def]
  have s1: "buffer4096 s1 = ?d" "fatInfor s1 = fatInfor s" using b1(1) B1(2) by (simp_all add: s1_def fat_frame_def)
  have c1: "c < 128 * unat (clusterLinkSectorCount (fatInfor s1))" using cn s1(2) by simp
  obtain s2 where s2: "setClusterLinkTable dv (int c) 0 s1 = Some s2" "mounted_ok dv good s2" "fat_frame dv s1 s2"
    "buffer4096 s2 = buffer4096 s1"
    "\<And>x. valid_cluster dv s1 x \<Longrightarrow> cluster_data sector s2 x = cluster_data sector s1 x" "link_of sector s2 c = 0"
    "\<And>x. x < 128 * unat (clusterLinkSectorCount (fatInfor s1)) \<Longrightarrow> x \<noteq> c \<Longrightarrow> link_of sector s2 x = link_of sector s1 x"
    "\<And>i. i < unat (clusterLinkSectorAddress (fatInfor s1)) \<Longrightarrow> sector (disk s2) i = sector (disk s1) i"
    using setClusterLinkTable_ok [OF B1(1) c1, of 0] by metis
  have f2: "fat_frame dv s s2" using fat_frame_trans [OF B1(2) s2(3)] .
  let ?d' = "(putDWORD ?d (SIZEOF_FILEINFO * i + 28) 0)[SIZEOF_FILEINFO * i := 0xE5]"
  define s3 where "s3 = s2\<lparr>buffer4096 := ?d'\<rparr>"
  have "length ?d' = 4096" using put_entry_field(1) [OF length_dir [OF ok] i, of 28] by simp
  then have ok3: "mounted_ok dv good s3" using s2(2) by (simp add: s3_def mounted_ok_def valid_cluster_def fat_const)
  obtain b3 where b3: "writeDir dv s3 = s3\<lparr>disk := b3\<rparr>" "mounted_ok dv good (writeDir dv s3)"
    "fat_frame dv s3 (writeDir dv s3)" "cluster_data sector (writeDir dv s3) 0 = buffer4096 s3"
    "\<And>x. valid_cluster dv s3 x \<Longrightarrow> x \<noteq> 0 \<Longrightarrow> cluster_data sector (writeDir dv s3) x = cluster_data sector s3 x"
    "\<And>k. k < unat (dataAddress (fatInfor s3)) \<Longrightarrow> sector (disk (writeDir dv s3)) k = sector (disk s3) k"
    using writeDir_ok [OF ok3] by metis
  have f3: "fat_frame dv s s3" using f2 by (simp add: s3_def fat_frame_def)
  note f4 = fat_frame_trans [OF f3 b3(3)]
  have found: "find_name False ?d name 0 = Some (Some i)" using find_name_eq [OF dir name, of False 0] some by simp
  have run: "deleteFile dv name s = Some (writeDir dv s3)"
    using ok s2(1,4) found cluster_int [OF ok, of "entry_cluster ?d i"] v c
    by (simp add: deleteFile_def s1_def [symmetric] s1(1) s3_def mounted_ok_def)
  have cl: "cluster_data sector (writeDir dv s3) x = cluster_data sector s x" if x: "valid_cluster dv s x" "x \<noteq> 0" for x
  proof -
    have "cluster_data sector s3 x = cluster_data sector s2 x" by (simp add: s3_def cluster_data_def)
    also have "\<dots> = cluster_data sector s x"
      using s2(5) [of x] fat_frame_valid [OF B1(2)] same_cluster [OF B1(3) s1(2) x(1)] x(1) by simp
    finally show ?thesis using b3(5) [of x] x fat_frame_valid [OF f3] by simp
  qed
  have lk: "link_of sector (writeDir dv s3) x = link_of sector s2 x" if x: "x < ?n" for x
    using link_lba_unat [OF ok x] b3(6) [of "unat (link_lba (int x) s)"] f2 f3 f4
    by (simp add: link_of_def link_sector_def fat_frame_def s3_def)
  have lk': "link_of sector (writeDir dv s3) x = link_of sector s x" if x: "x < ?n" "x \<noteq> c" for x
    using lk [OF x(1)] s2(7) [of x] x s1(2) same_links [OF ok B1(3) s1(2) x(1)] by simp
  have low: "sector (disk (writeDir dv s3)) i = sector (disk s) i"
    if i: "i < unat (clusterLinkSectorAddress (fatInfor s))" for i
  proof -
    have il: "i < unat (dataAddress (fatInfor s))" "i < unat (total_sectors dv (disk s))"
      using i ok by (simp_all add: mounted_ok_def valid_cluster_def)
    have "sector (disk s1) i = sector (disk s) i" using B1(3) il by (simp add: same_sectors_def)
    then show ?thesis
      using b3(6) [of i] il f3 s2(8) [of i] i s1(2) by (simp add: fat_frame_def s3_def)
  qed
  show thesis
    by (rule that [OF run b3(2) f4 _ cl _ lk' low]) (use b3(4) lk [OF cn] s2(6) in \<open>simp_all add: s3_def\<close>)
qed

text \<open>The directory stays well formed, and the entry is gone.\<close>

lemma deleted_entry:
  assumes dir: "dir_ok d" and i: "i < 128"
  defines "d' \<equiv> (putDWORD d (SIZEOF_FILEINFO * i + 28) 0)[SIZEOF_FILEINFO * i := 0xE5]"
  shows "dir_ok d'" "entry_cluster d' i = 0" "\<And>j. j < 128 \<Longrightarrow> j \<noteq> i \<Longrightarrow> chunk (32 * j) 32 d' = chunk (32 * j) 32 d"
proof -
  let ?p = "putDWORD d (SIZEOF_FILEINFO * i + 28) 0"
  have len: "length d = 4096" using dir by (simp add: dir_ok_def)
  note P = put_entry_field [OF len i, where k = 28 and w = 0, OF disjI2, OF refl]
  have len': "length d' = 4096" using P(1) by (simp add: d'_def)
  have upd: "chunk a n d' = (chunk a n ?p)[32 * i - a := 0xE5]" if "a \<le> 32 * i" "a + n \<le> 4096" for a n
    by (rule nth_equalityI) (use that i P(1) len' in \<open>auto simp: nth_chunk d'_def SIZEOF_FILEINFO_def nth_list_update\<close>)
  have away: "chunk a n d' = chunk a n ?p" if "32 * i < a \<or> a + n \<le> 32 * i" "a + n \<le> 4096" for a n
    by (rule nth_equalityI) (use that i P(1) len' in \<open>auto simp: nth_chunk d'_def SIZEOF_FILEINFO_def nth_list_update\<close>)
  have far: "32 * i < 32 * j \<or> 32 * j + 32 \<le> 32 * i" if "j \<noteq> i" for j using that by (cases "j < i") linarith+
  show other: "chunk (32 * j) 32 d' = chunk (32 * j) 32 d" if "j < 128" "j \<noteq> i" for j
    using away [of "32 * j" 32] far [OF that(2)] P(3) [OF that] that by simp
  have "getDWORD d' (32 * i + 28) = getDWORD ?p (32 * i + 28)"
    unfolding getDWORD_def using away [of "32 * i + 28" 4] i by simp
  then show "entry_cluster d' i = 0" using P(5) by (simp add: entry_cluster_def SIZEOF_FILEINFO_def)
  have "chunk (32 * j) 24 d' ! 23 = 0" if j: "j < 128" for j
  proof (cases "j = i")
    case True
    have z: "chunk (32 * i) 24 ?p ! 23 = 0" using P(2) [OF i] dir i by (simp add: dir_ok_def)
    have "chunk (32 * i) 24 d' = (chunk (32 * i) 24 ?p)[0 := 0xE5]" using upd [of "32 * i" 24] i by simp
    then show ?thesis using True z by simp
  next
    case False
    then have "chunk (32 * j) 24 d' = chunk (32 * j) 24 ?p" using away [of "32 * j" 24] far [OF False] j by linarith
    then show ?thesis using P(2) [OF j] dir j by (simp add: dir_ok_def)
  qed
  then show "dir_ok d'" using len' by (simp add: dir_ok_def)
qed

end

end
