(* ===== verification/FatFormat.thy ===== *)
theory FatFormat
  imports FatFiles
begin

text \<open>
  Formatting and mounting, and a disk in memory, on which the contract holds.
\<close>

section \<open>The geometry \<^verbatim>\<open>format\<close> computes\<close>

lemma link_sectors_eq:
  assumes "11 \<le> n"
  shows "link_sectors n = (n - 1 - (n div 8 + 127) div 128 + 127) div 128"
    and "1 \<le> link_sectors n" and "9 + link_sectors n \<le> n" and "128 * link_sectors n \<le> n + 125"
proof -
  have "cluster_count n = n div 8" using assms by (simp add: cluster_count_def fat_const sdiv_nonneg)
  then have l: "(cluster_count n + 127) sdiv 128 = (n div 8 + 127) div 128"
    using assms by (simp add: sdiv_nonneg)
  define q where "q = (n div 8 + 127) div 128"
  define r where "r = n div 8"
  have r: "8 * r \<le> n" "n < 8 * r + 8" unfolding r_def by linarith+
  have q: "128 * q \<le> r + 127" "r + 127 < 128 * q + 128" unfolding q_def r_def by linarith+
  have b: "1 \<le> q" "q \<le> n - 2" using assms r q by linarith+
  show eq: "link_sectors n = (n - 1 - (n div 8 + 127) div 128 + 127) div 128"
    unfolding link_sectors_def Let_def fat_const using b l by (simp add: sdiv_nonneg q_def [symmetric] add.commute [of 127])
  define e where "e = (n - 1 - q + 127) div 128"
  have e: "128 * e \<le> n + 126 - q" "n + 126 - q < 128 * e + 128" unfolding e_def by linarith+
  have "link_sectors n = e" unfolding eq e_def q_def by simp
  then show "1 \<le> link_sectors n" "9 + link_sectors n \<le> n" "128 * link_sectors n \<le> n + 125" using assms b e by linarith+
qed

lemma concat_replicate_replicate: "concat (replicate m (replicate k x)) = replicate (m * k) x"
  by (induction m) (simp_all add: replicate_add)

lemma length_putWORD [simp]: "off + 2 \<le> length buf \<Longrightarrow> length (putWORD buf off w) = length buf"
  by (simp add: putWORD_def)

lemma boot_image_fields:
  assumes "length buf = 512"
  shows "length (boot_image n buf) = 512" "getDWORD (boot_image n buf) OFF_signature = SIGNATURE"
    "getDWORD (boot_image n buf) OFF_clusterLinkSectorCount = word_of_int (link_sectors n)"
    "getDWORD (boot_image n buf) OFF_clusterLinkSectorAddress = 1"
    "getDWORD (boot_image n buf) OFF_dataAddress = word_of_int (1 + link_sectors n)"
  using assms by (simp_all add: boot_image_def Let_def boot_offsets get_put_DWORD get_put_DWORD_other)

lemma getDWORD_zero: "off + 4 \<le> n \<Longrightarrow> getDWORD (replicate n 0) off = 0"
proof -
  assume "off + 4 \<le> n"
  then have "chunk off 4 (replicate n (0::BYTE)) = [0, 0, 0, 0]"
    by (intro nth_equalityI) (auto simp: nth_chunk less_Suc_eq numeral_eq_Suc)
  then show ?thesis by (simp add: getDWORD_def)
qed

lemma empty_dir:
  "dir_ok (replicate 4096 0)" "i < 128 \<Longrightarrow> entry_cluster (replicate 4096 0) i = 0"
  "lookup (replicate 4096 0) t = None"
proof -
  show z: "i < 128 \<Longrightarrow> entry_cluster (replicate 4096 0) i = 0" for i
    by (simp add: entry_cluster_def SIZEOF_FILEINFO_def getDWORD_zero)
  then show "lookup (replicate 4096 0) t = None" by (auto simp: lookup_def find_None_iff)
  show "dir_ok (replicate 4096 0)" by (auto simp: dir_ok_def nth_chunk)
qed

section \<open>Formatting\<close>

text \<open>The boot sector of a mounted disk describes it, and lies before the link table.\<close>

definition boot_ok :: "('b \<Rightarrow> nat \<Rightarrow> BYTE list) \<Rightarrow> 'b fat \<Rightarrow> bool" where
  "boot_ok sector s \<longleftrightarrow> getDWORD (sector (disk s) 0) OFF_signature = SIGNATURE \<and>
     fatInfor s = \<lparr>freeClusterCount = getDWORD (sector (disk s) 0) OFF_freeClusterCount,
        clusterLinkSectorCount = getDWORD (sector (disk s) 0) OFF_clusterLinkSectorCount,
        clusterLinkSectorAddress = getDWORD (sector (disk s) 0) OFF_clusterLinkSectorAddress,
        dataAddress = getDWORD (sector (disk s) 0) OFF_dataAddress\<rparr> \<and>
     0 < unat (clusterLinkSectorAddress (fatInfor s))"

text \<open>What formatting leaves on the disk: the boot sector, the links, of which the root directory's is taken, and an empty directory.\<close>

definition root_link :: "BYTE list" where "root_link = putDWORD (replicate 512 0) 0 0xFFFFFFFF"

definition formatted :: "('b \<Rightarrow> nat \<Rightarrow> BYTE list) \<Rightarrow> int \<Rightarrow> BYTE list \<Rightarrow> 'b \<Rightarrow> bool" where
  "formatted sector N bs b \<longleftrightarrow> (\<forall>k < 9 + nat (link_sectors N).
     sector b k = (if k = 0 then boot_image N bs else if k = 1 then root_link else replicate 512 0))"

context block_device
begin

lemma format_loop_ok:
  "good (disk s) \<Longrightarrow> buffer4096 s = replicate 4096 0 \<Longrightarrow> 0 \<le> i \<Longrightarrow>
   n + 1 \<le> int (unat (total_sectors dv (disk s))) \<Longrightarrow> unat (total_sectors dv (disk s)) < 2 ^ 31 \<Longrightarrow>
   \<exists>d. format_loop dv n i s = (True, s\<lparr>disk := d\<rparr>) \<and> good d \<and> total_sectors dv d = total_sectors dv (disk s) \<and>
     (\<forall>k < unat (total_sectors dv (disk s)). sector d k =
        (if 1 + i \<le> int k \<and> int k < 1 + n then replicate 512 0 else sector (disk s) k))"
proof (induction "nat (n - i)" arbitrary: i s rule: less_induct)
  case less
  let ?t = "unat (total_sectors dv (disk s))"
  show ?case
  proof (cases "i < n")
    case False
    then show ?thesis using less.prems by (intro exI [of _ "disk s"], subst format_loop.simps) auto
  next
    case True
    define m where "m = (if n - i > 8 then 8 else n - i)"
    have m: "0 < m" "m \<le> 8" "m \<le> n - i" using True by (auto simp: m_def)
    have "int ?t < int (2 ^ 31)" using less.prems(5) by (simp only: of_nat_less_iff)
    then have "1 + i < 2 ^ 32" using True less.prems(4) by simp
    then have lba: "unat (word_of_int (1 + i) :: DWORD) = nat (1 + i)"
      using less.prems(3) by (simp only: unat_eq_nat_uint uint_word_of_int) (simp add: mod_pos_pos_trivial)
    have fit: "nat (1 + i) + nat m \<le> ?t" using m less.prems(3,4) by linarith
    define lw where "lw = (word_of_int (1 + i) :: DWORD)"
    have lw: "unat lw = nat (1 + i)" using lba by (simp only: lw_def)
    have p: "0 < nat m" "nat m \<le> 8" "unat lw + nat m \<le> ?t" "512 * nat m \<le> length (buffer4096 s)"
      using m fit lw less.prems(2) by simp_all
    from write_law [OF less.prems(1) p] obtain b' where b'': "write_sectors dv (int (nat m)) lw (buffer4096 s) (disk s) = (int (nat m), b')" "good b'"
      "total_sectors dv b' = total_sectors dv (disk s)"
      "\<And>k. k < ?t \<Longrightarrow> sector b' k = (if unat lw \<le> k \<and> k < unat lw + nat m
           then chunk (512 * (k - unat lw)) 512 (buffer4096 s) else sector (disk s) k)"
      by auto
    have mm: "int (nat m) = m" using m by simp
    note b' = b'' [unfolded mm lw, unfolded lw_def]
    have z: "chunk (512 * (k - nat (1 + i))) 512 (buffer4096 s) = replicate 512 0"
      if "k < nat (1 + i) + nat m" for k
      using that m less.prems(2,3) by (intro nth_equalityI) (auto simp: nth_chunk)
    let ?s = "s\<lparr>disk := b'\<rparr>"
    have step: "format_loop dv n i s = format_loop dv n (i + 8) ?s"
      using True b'(1) by (cases "8 < n - i") (simp_all add: format_loop.simps [of dv n i s] fat_const m_def Let_def)
    obtain d where d: "format_loop dv n (i + 8) ?s = (True, ?s\<lparr>disk := d\<rparr>)" "good d"
      "total_sectors dv d = total_sectors dv b'"
      "\<And>k. k < unat (total_sectors dv b') \<Longrightarrow> sector d k =
         (if 1 + (i + 8) \<le> int k \<and> int k < 1 + n then replicate 512 0 else sector b' k)"
      using less.hyps [of "i + 8" ?s] True less.prems b'(2,3) by auto
    have "sector d k = (if 1 + i \<le> int k \<and> int k < 1 + n then replicate 512 0 else sector (disk s) k)" if k: "k < ?t" for k
    proof -
      have "1 + i \<le> int k \<and> int k < 1 + n \<longleftrightarrow>
          (1 + (i + 8) \<le> int k \<and> int k < 1 + n) \<or> (nat (1 + i) \<le> k \<and> k < nat (1 + i) + nat m)"
        using less.prems(3) m by (auto simp: m_def split: if_splits)
      moreover have "\<not> (1 + (i + 8) \<le> int k \<and> nat (1 + i) \<le> k \<and> k < nat (1 + i) + nat m)"
        using less.prems(3) m by auto
      ultimately show ?thesis using d(4) [of k] b'(3) b'(4) [OF k] z [of k] k by auto
    qed
    then show ?thesis using step d(1-3) b'(3) by (intro exI [of _ d]) simp
  qed
qed

lemma format_writes:
  fixes s :: "'b fat"
  defines "N \<equiv> int (unat (total_sectors dv (disk s)))"
  assumes g: "good (disk s)" and l: "length (buffer512 s) = SECTOR_SIZE" and N: "11 \<le> N" "N < 2 ^ 31"
  shows "\<exists>d. format dv s = (True, s\<lparr>disk := d, buffer512 := root_link, buffer4096 := replicate 4096 0\<rparr>) \<and> good d \<and>
    total_sectors dv d = total_sectors dv (disk s) \<and> formatted sector N (buffer512 s) d"
proof -
  let ?lc = "nat (link_sectors N)" and ?T = "total_sectors dv (disk s)" and ?t = "unat (total_sectors dv (disk s))"
  note geo = link_sectors_eq [OF N(1)]
  have sN: "sint ?T = N" using N(2) by (simp add: N_def sint_DWORD del: of_nat_unat)
  have lc: "int ?lc = link_sectors N" "1 \<le> ?lc" "9 + ?lc \<le> ?t"
    using geo(2,3) unfolding N_def by linarith+
  have t31: "?t < 2 ^ 31" using N(2) by (simp add: N_def del: of_nat_unat)
  define bi where "bi = boot_image N (buffer512 s)"
  have bl: "length (buffer512 s) = 512" using l by (simp add: fat_const)
  note B = boot_image_fields [OF bl, of N, folded bi_def]
  have w0: "unat (0::DWORD) + 1 \<le> ?t" "512 * 1 \<le> length bi" using lc B(1) by simp_all
  from write_law [OF g _ _ w0(1) w0(2)] obtain d1 where d1: "write_sectors dv 1 0 bi (disk s) = (1, d1)" "good d1"
    "total_sectors dv d1 = ?T" "\<And>k. k < ?t \<Longrightarrow> sector d1 k = (if k = 0 then chunk 0 512 bi else sector (disk s) k)"
    by auto
  define s3 where "s3 = s\<lparr>disk := d1, buffer512 := bi, buffer4096 := replicate 4096 0\<rparr>"
  have s3: "good (disk s3)" "buffer4096 s3 = replicate 4096 0" "total_sectors dv (disk s3) = ?T"
    using d1(2,3) by (simp_all add: s3_def)
  have n: "link_sectors N + 8 + 1 \<le> int (unat (total_sectors dv (disk s3)))" "unat (total_sectors dv (disk s3)) < 2 ^ 31"
    using geo(3) t31 s3(3) by (simp_all add: N_def)
  from format_loop_ok [OF s3(1,2) order_refl n] obtain d2 where
    d2: "format_loop dv (link_sectors N + 8) 0 s3 = (True, s3\<lparr>disk := d2\<rparr>)" "good d2" "total_sectors dv d2 = ?T"
    "\<And>k. k < ?t \<Longrightarrow> sector d2 k = (if 1 \<le> int k \<and> int k < 1 + (link_sectors N + 8) then replicate 512 0 else sector d1 k)"
    using s3(3) by (auto simp: s3_def)
  have ll: "length root_link = 512" by (simp add: root_link_def)
  have w1: "unat (1::DWORD) + 1 \<le> unat (total_sectors dv d2)" "512 * 1 \<le> length root_link" using lc d2(3) ll by simp_all
  from write_law [OF d2(2) _ _ w1(1) w1(2)] obtain d3 where d3: "write_sectors dv 1 1 root_link d2 = (1, d3)" "good d3"
    "total_sectors dv d3 = ?T" "\<And>k. k < ?t \<Longrightarrow> sector d3 k = (if k = 1 then chunk 0 512 root_link else sector d2 k)"
    using d2(3) by (auto simp: le_less_Suc_eq)
  have e: "s\<lparr>buffer512 := bi, disk := d1, buffer4096 := replicate 4096 0\<rparr> = s3"
    "(s3\<lparr>disk := d2\<rparr>)\<lparr>buffer512 := root_link, disk := d3\<rparr> = s\<lparr>disk := d3, buffer512 := root_link, buffer4096 := replicate 4096 0\<rparr>"
    by (simp_all add: s3_def)
  have "format dv s = (True, s\<lparr>disk := d3, buffer512 := root_link, buffer4096 := replicate 4096 0\<rparr>)"
    using d1(1) d2(1) d3(1) sN e(2)
    by (simp add: format_def Let_def bi_def [symmetric] write512_def e(1) root_link_def [symmetric] fat_const)
  moreover have "formatted sector N (buffer512 s) d3"
    unfolding formatted_def bi_def [symmetric]
  proof (intro allI impI)
    fix k assume "k < 9 + ?lc"
    then have "k < ?t" "1 \<le> int k \<and> int k < 1 + (link_sectors N + 8) \<longleftrightarrow> 1 \<le> k" using lc by linarith+
    then show "sector d3 k = (if k = 0 then bi else if k = 1 then root_link else replicate 512 0)"
      using d1(4) [of k] d2(4) [of k] d3(4) [of k] B(1) ll by (simp add: chunk_def split: if_splits)
  qed
  ultimately show ?thesis using d3(2,3) by blast
qed

lemma formatted_links:
  assumes f: "formatted sector N bs (disk s)" and geo: "1 \<le> nat (link_sectors N)"
    and fi: "unat (clusterLinkSectorCount (fatInfor s)) = nat (link_sectors N)" "unat (clusterLinkSectorAddress (fatInfor s)) = 1"
      "unat (dataAddress (fatInfor s)) = 1 + nat (link_sectors N)"
  shows "cluster_data sector s 0 = replicate 4096 0" "link_of sector s 0 = 0xFFFFFFFF"
    "\<And>c. 0 < c \<Longrightarrow> c < 128 * nat (link_sectors N) \<Longrightarrow> link_of sector s c = 0"
proof -
  let ?lc = "nat (link_sectors N)"
  have sec: "sector (disk s) k = (if k = 0 then boot_image N bs else if k = 1 then root_link else replicate 512 0)" if "k < 9 + ?lc" for k
    using f that by (simp add: formatted_def)
  have "map (sector (disk s)) [1 + ?lc..<1 + ?lc + 8] = map (\<lambda>_. replicate 512 0) [1 + ?lc..<1 + ?lc + 8]"
    by (rule map_cong) (use sec geo in auto)
  also have "\<dots> = replicate 8 (replicate 512 0)" by (simp only: map_replicate_const length_upt) simp
  finally show "cluster_data sector s 0 = replicate 4096 0"
    by (simp add: cluster_data_def fi concat_replicate_replicate)
  show "link_of sector s 0 = 0xFFFFFFFF"
    using sec [of 1] by (simp add: link_of_def link_sector_def fi root_link_def get_put_DWORD)
  show "link_of sector s c = 0" if c: "0 < c" "c < 128 * ?lc" for c
  proof -
    have k: "c div 128 < ?lc" using c(2) by (simp add: less_mult_imp_div_less mult.commute)
    have m: "4 * (c mod 128) + 4 \<le> 512" by simp
    have zero: "getDWORD root_link (4 * (c mod 128)) = 0" if "c div 128 = 0"
    proof -
      from that have "0 + 4 \<le> 4 * (c mod 128)" using c(1) by (simp add: div_eq_0_iff)
      then have "getDWORD root_link (4 * (c mod 128)) = getDWORD (replicate 512 0) (4 * (c mod 128))"
        unfolding root_link_def using m by (intro get_put_DWORD_other) simp_all
      then show ?thesis using m by (simp add: getDWORD_zero)
    qed
    then show ?thesis using sec [of "1 + c div 128"] k m
      by (cases "c div 128 = 0") (simp_all add: link_of_def link_sector_def fi getDWORD_zero)
  qed
qed

lemma mount_formatted:
  fixes s :: "'b fat"
  defines "N \<equiv> int (unat (total_sectors dv (disk s)))"
  assumes g: "good (disk s)" and f: "formatted sector N bs (disk s)" and l: "length bs = SECTOR_SIZE" and N: "11 \<le> N" "N < 2 ^ 31"
  obtains s'' where "mount dv s = Some (True, s'')" "mounted_ok dv good s''"
    "unat (clusterLinkSectorCount (fatInfor s'')) = nat (link_sectors N)"
    "cluster_data sector s'' 0 = replicate 4096 0" "link_of sector s'' 0 = 0xFFFFFFFF"
    "\<And>c. 0 < c \<Longrightarrow> c < 128 * nat (link_sectors N) \<Longrightarrow> link_of sector s'' c = 0" "bestIdx s'' = 0"
    "screen s'' = screen s" "total_sectors dv (disk s'') = total_sectors dv (disk s)"
    "unat (dataAddress (fatInfor s'')) = 1 + nat (link_sectors N)"
    "boot_ok sector s''" "unat (clusterLinkSectorAddress (fatInfor s'')) = 1"
proof -
  let ?lc = "nat (link_sectors N)" and ?T = "total_sectors dv (disk s)" and ?t = "unat (total_sectors dv (disk s))"
  note geo = link_sectors_eq [OF N(1)]
  have lc: "int ?lc = link_sectors N" "1 \<le> ?lc" "9 + ?lc \<le> ?t" using geo(2,3) unfolding N_def by linarith+
  have t31: "?t < 2 ^ 31" using N(2) by (simp add: N_def del: of_nat_unat)
  define bi where "bi = boot_image N bs"
  have bl: "length bs = 512" using l by (simp add: fat_const)
  note B = boot_image_fields [OF bl, of N, folded bi_def]
  have s0: "sector (disk s) 0 = bi" using f by (simp add: formatted_def bi_def)
  have t0: "unat (0::DWORD) + 1 \<le> ?t" using lc by simp
  from read_law [OF g _ _ t0, of "replicate 512 0"] obtain d4 where d4:
    "read_sectors dv 1 0 (replicate 512 0) (disk s) = (1, bi, d4)" "good d4" "total_sectors dv d4 = ?T"
    "\<And>k. k < ?t \<Longrightarrow> sector d4 k = sector (disk s) k"
    using s0 by auto
  define fi where "fi = \<lparr>freeClusterCount = getDWORD bi OFF_freeClusterCount,
      clusterLinkSectorCount = word_of_int (link_sectors N), clusterLinkSectorAddress = 1,
      dataAddress = word_of_int (1 + link_sectors N)\<rparr>"
  define s'' where "s'' = s\<lparr>disk := d4, fatInfor := fi, bestIdx := 0, bestRootDirIdx := 0, isMounted := True,
      buffer512 := bi, buffer4096 := replicate 4096 0\<rparr>"
  have run: "mount dv s = Some (True, s'')"
    using d4(1) B(2-5) by (simp add: mount_def read512_def Let_def fat_const fi_def s''_def)
  have "N < 2147483648" using N(2) by simp
  then have "link_sectors N < 2147483648" using geo(3) by linarith
  then have lN: "0 \<le> link_sectors N" "1 + link_sectors N < 2 ^ 32" using geo(2) by simp_all
  then have u: "unat (word_of_int (link_sectors N) :: DWORD) = ?lc" "unat (word_of_int (1 + link_sectors N) :: DWORD) = 1 + ?lc"
    by (simp_all only: unat_eq_nat_uint uint_word_of_int) (simp_all add: mod_pos_pos_trivial nat_add_distrib)
  have fi: "unat (clusterLinkSectorCount fi) = ?lc" "unat (clusterLinkSectorAddress fi) = 1" "unat (dataAddress fi) = 1 + ?lc"
    using u by (simp_all add: fi_def)
  have fi': "unat (clusterLinkSectorCount (fatInfor s'')) = ?lc" "unat (clusterLinkSectorAddress (fatInfor s'')) = 1"
    "unat (dataAddress (fatInfor s'')) = 1 + ?lc" using fi by (simp_all add: s''_def)
  have "formatted sector N bs (disk s'')" using f d4(4) lc(3) by (simp add: formatted_def s''_def)
  note L = formatted_links [OF this lc(2) fi']
  have m: "mounted_ok dv good s''" using d4(2,3) lc t31 B(1) fi by (simp add: mounted_ok_def s''_def valid_cluster_def fat_const)
  have b: "boot_ok sector s''" using d4(4) [of 0] s0 lc B by (simp add: boot_ok_def s''_def fi_def)
  show thesis by (rule that [OF run m fi'(1) L _ _ _ fi'(3) b fi'(2)]) (simp_all add: s''_def d4(3))
qed

end

section \<open>A disk in memory\<close>

definition ram_disk :: "DWORD \<Rightarrow> (nat \<Rightarrow> BYTE list) blockdev" where
  "ram_disk n = \<lparr>read_sectors = \<lambda>k lba buf b. (k, splice_at buf 0 (concat (map b [unat lba..<unat lba + nat k])), b),
     write_sectors = \<lambda>k lba buf b. (k, \<lambda>i. if unat lba \<le> i \<and> i < unat lba + nat k
        then chunk (512 * (i - unat lba)) 512 buf else b i),
     total_sectors = \<lambda>_. n\<rparr>"

definition ram_ok :: "(nat \<Rightarrow> BYTE list) \<Rightarrow> bool" where
  "ram_ok b \<longleftrightarrow> (\<forall>i. length (b i) = 512)"

interpretation ram: block_device "ram_disk n" ram_ok "\<lambda>b. b" for n
proof (unfold_locales, goal_cases)
  case (1 b i)
  then show ?case by (simp add: ram_ok_def)
next
  case (2 b k lba buf)
  have "length (concat (map b [unat lba..<unat lba + k])) = 512 * k"
    using 2(1) by (subst length_concat_sectors) (simp_all add: ram_ok_def)
  with 2 show ?case by (simp add: ram_disk_def splice_at_def)
next
  case (3 b k lba buf)
  then show ?case by (auto simp: ram_disk_def ram_ok_def)
qed

end
