(* ===== verification/FatSpec.thy ===== *)
theory FatSpec
  imports FatFormat
begin

text \<open>
  The file system as a map. \<open>files\<close> reads the directory on the disk as a map from names to a size
  and a cluster; \<open>fs_ok\<close> is the invariant under which the operations are updates of this map.
\<close>

section \<open>The directory as a map\<close>

definition dir_map :: "BYTE list \<Rightarrow> BYTE list \<Rightarrow> (DWORD \<times> nat) option" where
  "dir_map dir t = map_option (\<lambda>i. (entry_size dir i, unat (entry_cluster dir i))) (lookup dir t)"

text \<open>
  The name of an unused entry is empty, or begins with the mark of a deleted file; two used entries
  have different names.
\<close>

definition dir_inv :: "BYTE list \<Rightarrow> bool" where
  "dir_inv dir \<longleftrightarrow> dir_ok dir \<and>
     (\<forall>i < 128. entry_cluster dir i = 0 \<longrightarrow> name_of dir i = [] \<or> hd (name_of dir i) = 0xE5) \<and>
     (\<forall>i < 128. \<forall>j < 128. entry_cluster dir i \<noteq> 0 \<longrightarrow> entry_cluster dir j \<noteq> 0 \<longrightarrow>
        name_of dir i = name_of dir j \<longrightarrow> i = j)"

definition used_entries :: "BYTE list \<Rightarrow> nat set" where
  "used_entries dir = {i. i < 128 \<and> entry_cluster dir i \<noteq> 0}"

lemma used_entries_finite [simp]: "finite (used_entries dir)"
  by (simp add: used_entries_def)

lemma free_entry: "card (used_entries dir) < 128 \<Longrightarrow> \<exists>e < 128. entry_cluster dir e = 0"
proof (rule ccontr)
  assume c: "card (used_entries dir) < 128" and "\<nexists>e. e < 128 \<and> entry_cluster dir e = 0"
  then have "used_entries dir = {..<128}" by (auto simp: used_entries_def)
  with c show False by simp
qed

lemma lookup_unique:
  assumes "dir_inv dir" and "i < 128" and "entry_cluster dir i \<noteq> 0"
  shows "lookup dir (name_of dir i) = Some i"
proof (cases "lookup dir (name_of dir i)")
  case None
  with assms show ?thesis by (auto simp: lookup_def find_None_iff)
next
  case (Some j)
  from lookupD [OF Some] assms show ?thesis by (metis Some dir_inv_def)
qed

lemma lookup_None: "lookup dir t = None \<longleftrightarrow> (\<forall>i < 128. entry_cluster dir i \<noteq> 0 \<longrightarrow> name_of dir i \<noteq> t)"
  by (auto simp: lookup_def find_None_iff)

lemma dir_map_None [simp]: "dir_map dir t = None \<longleftrightarrow> lookup dir t = None"
  by (simp add: dir_map_def)

lemma dir_map_Some: "dir_map dir t = Some (z, c) \<longleftrightarrow>
    (\<exists>i. lookup dir t = Some i \<and> entry_size dir i = z \<and> unat (entry_cluster dir i) = c)"
  by (auto simp: dir_map_def)

text \<open>Two directories that differ in entry \<open>e\<close> only.\<close>

definition same_but :: "nat \<Rightarrow> BYTE list \<Rightarrow> BYTE list \<Rightarrow> bool" where
  "same_but e d d' \<longleftrightarrow> (\<forall>j < 128. j \<noteq> e \<longrightarrow> entry_size d' j = entry_size d j \<and>
     entry_cluster d' j = entry_cluster d j \<and> name_of d' j = name_of d j)"

lemma same_but_chunks:
  assumes "length d = 4096" "length d' = 4096" and "\<And>j. j < 128 \<Longrightarrow> j \<noteq> e \<Longrightarrow> chunk (32 * j) 32 d' = chunk (32 * j) 32 d"
  shows "same_but e d d'"
  using assms(3) entry_of_chunk [OF assms(1)] entry_of_chunk [OF assms(2)]
  by (simp add: same_but_def name_of_def)

lemma lookup_same_but:
  assumes "same_but e d d'"
    and "entry_cluster d e \<noteq> 0 \<Longrightarrow> name_of d e \<noteq> u" and "entry_cluster d' e \<noteq> 0 \<Longrightarrow> name_of d' e \<noteq> u"
  shows "lookup d' u = lookup d u" and "dir_map d' u = dir_map d u"
proof -
  have "(entry_cluster d' j \<noteq> 0 \<and> name_of d' j = u) = (entry_cluster d j \<noteq> 0 \<and> name_of d j = u)" if "j < 128" for j
    using assms that by (cases "j = e") (auto simp: same_but_def)
  then show *: "lookup d' u = lookup d u" unfolding lookup_def by (intro find_cong) simp_all
  show "dir_map d' u = dir_map d u"
  proof (cases "lookup d u")
    case (Some i)
    with lookupD [OF Some] assms(1,2) have "i \<noteq> e" "i < 128" by auto
    with Some * assms(1) show ?thesis by (simp add: dir_map_def same_but_def)
  qed (simp add: dir_map_def *)
qed

text \<open>A new file in an unused entry.\<close>

lemma dir_add:
  assumes inv: "dir_inv d" "dir_ok d'" and e: "e < 128" "entry_cluster d e = 0" "same_but e d d'"
    and new: "name_of d' e = t" "entry_cluster d' e \<noteq> 0" and fresh: "lookup d t = None"
  shows "dir_inv d'" "dir_map d' = (dir_map d)(t \<mapsto> (entry_size d' e, unat (entry_cluster d' e)))"
    "card (used_entries d') = Suc (card (used_entries d))"
proof -
  have other: "entry_cluster d' j = entry_cluster d j" "name_of d' j = name_of d j" if "j < 128" "j \<noteq> e" for j
    using e(3) that by (simp_all add: same_but_def)
  show inv': "dir_inv d'"
    unfolding dir_inv_def
  proof (intro conjI allI impI)
    show "dir_ok d'" by (rule inv(2))
  next
    fix i assume "i < 128" "entry_cluster d' i = 0"
    then show "name_of d' i = [] \<or> hd (name_of d' i) = 0xE5"
      using other [of i] new(2) inv(1) by (cases "i = e") (simp_all add: dir_inv_def)
  next
    fix i j assume "i < 128" "j < 128" "entry_cluster d' i \<noteq> 0" "entry_cluster d' j \<noteq> 0" "name_of d' i = name_of d' j"
    then show "i = j"
      using other [of i] other [of j] new(1) fresh inv(1) by (cases "i = e"; cases "j = e") (auto simp: lookup_None dir_inv_def)
  qed
  show "dir_map d' = (dir_map d)(t \<mapsto> (entry_size d' e, unat (entry_cluster d' e)))"
  proof
    fix u
    show "dir_map d' u = ((dir_map d)(t \<mapsto> (entry_size d' e, unat (entry_cluster d' e)))) u"
    proof (cases "u = t")
      case True
      with lookup_unique [OF inv' e(1) new(2)] new(1) show ?thesis by (simp add: dir_map_def)
    next
      case False
      with new(1) e(2) show ?thesis by (simp add: lookup_same_but(2) [OF e(3)])
    qed
  qed
  have "x \<in> used_entries d' \<longleftrightarrow> x = e \<or> x \<in> used_entries d" for x
    using other [of x] e(1) new(2) by (cases "x = e") (auto simp: used_entries_def)
  then have "used_entries d' = insert e (used_entries d)" by blast
  moreover have "e \<notin> used_entries d" using e(2) by (simp add: used_entries_def)
  ultimately
  show "card (used_entries d') = Suc (card (used_entries d))" by simp
qed

text \<open>A file removed.\<close>

lemma dir_del:
  assumes inv: "dir_inv d" "dir_ok d'" and i: "lookup d t = Some i" and same: "same_but i d d'"
    and del: "entry_cluster d' i = 0" "hd (name_of d' i) = 0xE5"
  shows "dir_inv d'" "dir_map d' = (dir_map d)(t := None)" "Suc (card (used_entries d')) = card (used_entries d)"
proof -
  note I = lookupD [OF i]
  have other: "entry_cluster d' j = entry_cluster d j" "name_of d' j = name_of d j" if "j < 128" "j \<noteq> i" for j
    using same that by (simp_all add: same_but_def)
  show "dir_inv d'"
    unfolding dir_inv_def
  proof (intro conjI allI impI)
    show "dir_ok d'" by (rule inv(2))
  next
    fix j assume "j < 128" "entry_cluster d' j = 0"
    then show "name_of d' j = [] \<or> hd (name_of d' j) = 0xE5"
      using other [of j] del inv(1) by (cases "j = i") (simp_all add: dir_inv_def)
  next
    fix j k assume "j < 128" "k < 128" "entry_cluster d' j \<noteq> 0" "entry_cluster d' k \<noteq> 0" "name_of d' j = name_of d' k"
    then show "j = k"
      using other [of j] other [of k] del(1) inv(1) by (cases "j = i"; cases "k = i") (auto simp: dir_inv_def)
  qed
  show "dir_map d' = (dir_map d)(t := None)"
  proof
    fix u
    show "dir_map d' u = ((dir_map d)(t := None)) u"
    proof (cases "u = t")
      case True
      have "name_of d' j \<noteq> t" if "j < 128" "entry_cluster d' j \<noteq> 0" for j
        using that other [of j] del(1) inv(1) I by (metis dir_inv_def)
      with True show ?thesis by (simp add: lookup_None)
    next
      case False
      with I(3) del(1) show ?thesis by (simp add: lookup_same_but(2) [OF same])
    qed
  qed
  have "x \<in> used_entries d \<longleftrightarrow> x = i \<or> x \<in> used_entries d'" for x
    using other [of x] I(1,2) by (cases "x = i") (auto simp: used_entries_def)
  then have "used_entries d = insert i (used_entries d')" by blast
  moreover have "i \<notin> used_entries d'" using del(1) by (simp add: used_entries_def)
  ultimately show "Suc (card (used_entries d')) = card (used_entries d)" by simp
qed

text \<open>An unused entry has the name and comes before any other of the name: \<^verbatim>\<open>deleteFile\<close> takes it.\<close>

definition unused_first :: "BYTE list \<Rightarrow> BYTE list \<Rightarrow> bool" where
  "unused_first dir t \<longleftrightarrow> (\<exists>i < 128. entry_cluster dir i = 0 \<and> name_of dir i = t \<and> (\<forall>j < i. name_of dir j \<noteq> t))"

lemma unused_firstD:
  assumes "unused_first dir t"
  obtains i where "find (\<lambda>j. name_of dir j = t) [0..<128] = Some i" "i < 128" "entry_cluster dir i = 0"
proof -
  obtain i where i: "i < 128" "entry_cluster dir i = 0" "name_of dir i = t" "\<forall>j < i. name_of dir j \<noteq> t"
    using assms by (auto simp: unused_first_def)
  then have "find (\<lambda>j. name_of dir j = t) [0..<128] = Some i" by (simp add: find_Some_iff) (metis add_0 nth_upt less_trans)
  with i show thesis by (intro that)
qed

lemma used_first:
  assumes "\<not> unused_first dir t"
  shows "find (\<lambda>j. name_of dir j = t) [0..<128] = lookup dir t"
proof (cases "find (\<lambda>j. name_of dir j = t) [0..<128]")
  case None
  then have "lookup dir t = None" by (auto simp: lookup_None find_None_iff)
  then show ?thesis using None by simp
next
  case (Some i)
  then have i: "i < 128" "name_of dir i = t" "\<forall>j < i. name_of dir j \<noteq> t"
    by (auto simp: find_Some_iff)
  then have "entry_cluster dir i \<noteq> 0" using assms by (auto simp: unused_first_def)
  with i have "lookup dir t = Some i"
    unfolding lookup_def by (simp add: find_Some_iff) (metis add_0 nth_upt less_trans)
  with Some show ?thesis by simp
qed

lemma named_used_first: "dir_inv dir \<Longrightarrow> t \<noteq> [] \<Longrightarrow> hd t \<noteq> 0xE5 \<Longrightarrow> \<not> unused_first dir t"
  by (auto simp: unused_first_def dir_inv_def)

lemma dir_blot:
  assumes inv: "dir_inv d" "dir_ok d'" and i: "entry_cluster d i = 0" and same: "same_but i d d'"
    and blot: "entry_cluster d' i = 0"
  shows "dir_map d' = dir_map d" "used_entries d' = used_entries d"
proof -
  show "dir_map d' = dir_map d" using lookup_same_but(2) [OF same] i blot by (simp add: fun_eq_iff)
  have "x \<in> used_entries d' \<longleftrightarrow> x \<in> used_entries d" for x
    using same i blot by (cases "x = i") (auto simp: used_entries_def same_but_def)
  then show "used_entries d' = used_entries d" by blast
qed

text \<open>A new size for a file.\<close>

lemma dir_resize:
  assumes inv: "dir_inv d" "dir_ok d'" and i: "lookup d t = Some i" and same: "same_but i d d'"
    and keep: "entry_cluster d' i = entry_cluster d i" "name_of d' i = name_of d i"
  shows "dir_inv d'" "dir_map d' = (dir_map d)(t \<mapsto> (entry_size d' i, unat (entry_cluster d i)))"
    "used_entries d' = used_entries d" "lookup d' t = Some i"
proof -
  note I = lookupD [OF i]
  have other: "entry_cluster d' j = entry_cluster d j" "name_of d' j = name_of d j" if "j < 128" for j
    using same that keep by (cases "j = i"; simp add: same_but_def)+
  show inv': "dir_inv d'" using inv other by (simp add: dir_inv_def)
  show l: "lookup d' t = Some i" using lookup_unique [OF inv' I(1)] I keep by simp
  show "dir_map d' = (dir_map d)(t \<mapsto> (entry_size d' i, unat (entry_cluster d i)))"
  proof
    fix u
    show "dir_map d' u = ((dir_map d)(t \<mapsto> (entry_size d' i, unat (entry_cluster d i)))) u"
      using l keep I by (cases "u = t") (simp add: dir_map_def, simp add: lookup_same_but(2) [OF same])
  qed
  show "used_entries d' = used_entries d" using other by (auto simp: used_entries_def)
qed

section \<open>The invariant\<close>

definition files :: "('b \<Rightarrow> nat \<Rightarrow> BYTE list) \<Rightarrow> 'b fat \<Rightarrow> BYTE list \<Rightarrow> (DWORD \<times> nat) option" where
  "files sector s = dir_map (cluster_data sector s 0)"

definition file_count :: "('b \<Rightarrow> nat \<Rightarrow> BYTE list) \<Rightarrow> 'b fat \<Rightarrow> nat" where
  "file_count sector s = card (used_entries (cluster_data sector s 0))"

text \<open>The first free link of the link sector of cluster \<open>b\<close>.\<close>

definition first_free :: "('b \<Rightarrow> nat \<Rightarrow> BYTE list) \<Rightarrow> 'b fat \<Rightarrow> nat \<Rightarrow> nat option" where
  "first_free sector s b = find (\<lambda>k. link_of sector s (128 * (b div 128) + k) = 0) [0..<128]"

definition fs_ok :: "'b blockdev \<Rightarrow> ('b \<Rightarrow> bool) \<Rightarrow> ('b \<Rightarrow> nat \<Rightarrow> BYTE list) \<Rightarrow> 'b fat \<Rightarrow> bool" where
  "fs_ok dv good sector s \<longleftrightarrow> mounted_ok dv good s \<and> boot_ok sector s \<and> dir_inv (cluster_data sector s 0) \<and>
     link_of sector s 0 \<noteq> 0 \<and> (\<forall>t z c. files sector s t = Some (z, c) \<longrightarrow> valid_cluster dv s c)"

text \<open>What an update of the map keeps: the disk's geometry, and every other cluster and link.\<close>

definition data_same :: "'b blockdev \<Rightarrow> ('b \<Rightarrow> nat \<Rightarrow> BYTE list) \<Rightarrow> nat set \<Rightarrow> 'b fat \<Rightarrow> 'b fat \<Rightarrow> bool" where
  "data_same dv sector C s s' \<longleftrightarrow>
     (\<forall>x. valid_cluster dv s x \<and> x \<noteq> 0 \<and> x \<notin> C \<longrightarrow> cluster_data sector s' x = cluster_data sector s x)"

definition links_upd :: "('b \<Rightarrow> nat \<Rightarrow> BYTE list) \<Rightarrow> 'b fat \<Rightarrow> (nat \<Rightarrow> DWORD) \<Rightarrow> 'b fat \<Rightarrow> bool" where
  "links_upd sector s f s' \<longleftrightarrow>
     (\<forall>x < 128 * unat (clusterLinkSectorCount (fatInfor s)). link_of sector s' x = f x)"

context block_device
begin

lemma fs_okD:
  assumes "fs_ok dv good sector s"
  shows "mounted_ok dv good s" "dir_ok (cluster_data sector s 0)" "dir_inv (cluster_data sector s 0)"
  using assms by (simp_all add: fs_ok_def dir_inv_def)

lemma files_cluster:
  assumes ok: "fs_ok dv good sector s" and f: "files sector s t = Some (z, c)"
  obtains i where "lookup (cluster_data sector s 0) t = Some i" "entry_size (cluster_data sector s 0) i = z"
    "unat (entry_cluster (cluster_data sector s 0) i) = c" "valid_cluster dv s c" "c \<noteq> 0"
proof -
  obtain i where i: "lookup (cluster_data sector s 0) t = Some i" "entry_size (cluster_data sector s 0) i = z"
    "unat (entry_cluster (cluster_data sector s 0) i) = c" using f by (auto simp: files_def dir_map_Some)
  have "c \<noteq> 0" using lookupD(2) [OF i(1)] i(3) by (auto simp: unat_gt_0)
  with i f ok show thesis by (intro that) (auto simp: fs_ok_def)
qed

lemma boot_keep:
  assumes "boot_ok sector s" and e: "fatInfor s' = fatInfor s" "sector (disk s') 0 = sector (disk s) 0"
  shows "boot_ok sector s'"
  using assms(1) unfolding boot_ok_def e .

lemma fs_ok_frame:
  assumes ok: "fs_ok dv good sector s" and m: "mounted_ok dv good s'" and fr: "fat_frame dv s s'"
    and low: "sector (disk s') 0 = sector (disk s) 0" and d: "dir_inv (cluster_data sector s' 0)"
    and l: "link_of sector s' 0 \<noteq> 0"
    and f: "\<And>t z c. files sector s' t = Some (z, c) \<Longrightarrow> valid_cluster dv s c"
  shows "fs_ok dv good sector s'"
proof -
  have "boot_ok sector s" "fatInfor s' = fatInfor s" using ok fr by (simp_all only: fs_ok_def fat_frame_def)
  then have b: "boot_ok sector s'" using low by (rule boot_keep)
  show ?thesis unfolding fs_ok_def using m b d l f fat_frame_valid [OF fr] by blast
qed

lemma links_pos: "mounted_ok dv good s \<Longrightarrow> 0 < 128 * unat (clusterLinkSectorCount (fatInfor s))"
  by (simp add: mounted_ok_def valid_cluster_def)

lemma fs_ok_same:
  assumes ok: "fs_ok dv good sector s" and m: "mounted_ok dv good s'" and fr: "fat_frame dv s s'"
    and same: "same_sectors s s'"
  shows "fs_ok dv good sector s'" "files sector s' = files sector s"
    "links_upd sector s (link_of sector s) s'" "data_same dv sector {} s s'"
proof -
  have fi: "fatInfor s' = fatInfor s" using fr by (simp add: fat_frame_def)
  have v0: "valid_cluster dv s 0" and t: "0 < unat (total_sectors dv (disk s))"
    using fs_okD(1) [OF ok] by (simp_all add: mounted_ok_def valid_cluster_def)
  have d: "cluster_data sector s' 0 = cluster_data sector s 0" by (rule same_cluster [OF same fi v0])
  then show f: "files sector s' = files sector s" by (simp add: files_def)
  have low: "sector (disk s') 0 = sector (disk s) 0" using same t by (simp add: same_sectors_def)
  have lk: "link_of sector s' x = link_of sector s x" if "x < 128 * unat (clusterLinkSectorCount (fatInfor s))" for x
    by (rule same_links [OF fs_okD(1) [OF ok] same fi that])
  then show "links_upd sector s (link_of sector s) s'" by (simp add: links_upd_def)
  show "data_same dv sector {} s s'" using same_cluster [OF same fi] by (simp add: data_same_def)
  show "fs_ok dv good sector s'"
    by (rule fs_ok_frame [OF ok m fr low])
      (use ok d f lk [OF links_pos [OF fs_okD(1) [OF ok]]] in \<open>simp_all only: fs_ok_def, blast\<close>)
qed

end

end
