(* ===== verification/FatSteps.thy ===== *)
theory FatSteps
  imports FatSpec
begin

text \<open>
  Every operation of the file system, on a disk that works, as an update of the map of its files.
\<close>

lemma name_of_new_info:
  assumes "0 \<notin> set t"
  shows "length (fileName (new_info t c)) = 24" "fileName (new_info t c) ! 23 = 0"
    "takeWhile (\<lambda>b. b \<noteq> 0) (fileName (new_info t c)) = take 23 t"
  using takeWhile_name [OF assms, of 23 "24 - length (take 23 t)"]
  by (simp_all add: new_info_def nth_append min_def)

lemma length_name: "dir_ok dir \<Longrightarrow> i < 128 \<Longrightarrow> length (name_of dir i) \<le> 23"
proof -
  assume a: "dir_ok dir" "i < 128"
  let ?n = "chunk (32 * i) 24 dir"
  have l: "length ?n = 24" "?n ! 23 = 0" using a by (simp_all add: dir_ok_def)
  show ?thesis
  proof (rule ccontr)
    assume "\<not> length (name_of dir i) \<le> 23"
    then have "23 < length (takeWhile (\<lambda>b. b \<noteq> 0) ?n)" by (simp add: name_of_def)
    then have "takeWhile (\<lambda>b. b \<noteq> 0) ?n ! 23 \<in> set (takeWhile (\<lambda>b. b \<noteq> 0) ?n)" by simp
    then have "takeWhile (\<lambda>b. b \<noteq> 0) ?n ! 23 \<noteq> 0" using set_takeWhileD by metis
    moreover have "takeWhile (\<lambda>b. b \<noteq> 0) ?n ! 23 = ?n ! 23"
      using \<open>23 < length (takeWhile (\<lambda>b. b \<noteq> 0) ?n)\<close> by (rule takeWhile_nth)
    ultimately show False using l by simp
  qed
qed

lemma cstr_no_NUL: "cstr p t \<Longrightarrow> 0 \<notin> set t"
  by (rule cstr_at_no_NUL)

context block_device
begin

lemma create_step:
  assumes ok: "fs_ok dv good sector s" and name: "cstr name t" and new: "files sector s (take 23 t) = None"
    and room: "file_count sector s < 128" and b: "bestIdx s = int b" and k: "first_free sector s b = Some k"
    and q: "b div 128 < unat (clusterLinkSectorCount (fatInfor s))" and v: "valid_cluster dv s (b + k)"
  obtains s' where "createFile dv name s = Some s'" "fs_ok dv good sector s'" "fat_frame dv s s'"
    "files sector s' = (files sector s)(take 23 t \<mapsto> (0, b + k))" "file_count sector s' = Suc (file_count sector s)"
    "links_upd sector s ((link_of sector s)(b + k := 0xFFFFFFFF)) s'" "data_same dv sector {} s s'"
    "bestIdx s' = int (b + k + 1)"
proof -
  let ?d = "cluster_data sector s 0"
  note m = fs_okD [OF ok]
  have nz: "0 \<notin> set t" using name by (rule cstr_no_NUL)
  have "lookup ?d t = None"
  proof (cases "length t \<le> 23")
    case True
    with new show ?thesis by (simp add: files_def)
  next
    case False
    with length_name [OF m(2)] show ?thesis by (auto simp: lookup_None)
  qed
  note new' = this
  have free: "\<exists>e < 128. entry_cluster ?d e = 0" using room by (intro free_entry) (simp add: file_count_def)
  have kf: "find (\<lambda>k. link_of sector s (128 * (b div 128) + k) = 0) [0..<128] = Some k"
    using k by (simp add: first_free_def)
  have c: "b + k < 128 * unat (clusterLinkSectorCount (fatInfor s))" using v by (simp add: valid_cluster_def)
  have bk: "b + k \<noteq> 0"
  proof
    assume "b + k = 0"
    then have "link_of sector s 0 = 0" using kf by (auto simp: find_Some_iff)
    with ok show False by (simp add: fs_ok_def)
  qed
  have "b + k < 2 ^ 31" using v m(1) by (simp add: valid_cluster_def mounted_ok_def)
  then have u: "unat (word_of_nat (b + k) :: DWORD) = b + k" by (simp only: unat_of_nat) simp
  obtain e s' where s': "createFile dv name s = Some s'" "e < 128" "entry_cluster ?d e = 0"
    "mounted_ok dv good s'" "fat_frame dv s s'"
    "cluster_data sector s' 0 = splice_at ?d (SIZEOF_FILEINFO * e) (encode_info (new_info t (b + k)))"
    "\<And>x. valid_cluster dv s x \<Longrightarrow> x \<noteq> 0 \<Longrightarrow> cluster_data sector s' x = cluster_data sector s x"
    "link_of sector s' (b + k) = 0xFFFFFFFF"
    "\<And>x. x < 128 * unat (clusterLinkSectorCount (fatInfor s)) \<Longrightarrow> x \<noteq> b + k \<Longrightarrow> link_of sector s' x = link_of sector s x"
    "bestIdx s' = int (b + k + 1)"
    "\<And>i. i < unat (clusterLinkSectorAddress (fatInfor s)) \<Longrightarrow> sector (disk s') i = sector (disk s) i"
    using createFile_ok [OF m(1,2) name new' free b q kf c] by metis
  let ?d' = "cluster_data sector s' 0"
  note P = put_entry [OF m(2) s'(2) name_of_new_info(1,2) [OF nz, of "b + k"], folded s'(6)]
  have len: "length ?d = 4096" "length ?d' = 4096" using m(2) P(1) by (simp_all add: dir_ok_def)
  have sb: "same_but e ?d ?d'" by (rule same_but_chunks [OF len P(5)])
  have ec: "entry_cluster ?d' e = word_of_nat (b + k)" "entry_size ?d' e = 0" "name_of ?d' e = take 23 t"
    using P(2-4) name_of_new_info(3) [OF nz] by (simp_all add: new_info_def)
  have ne: "entry_cluster ?d' e \<noteq> 0" using u bk ec(1) by (metis unsigned_0)
  have fresh: "lookup ?d (take 23 t) = None" using new by (simp add: files_def)
  note D = dir_add [OF m(3) P(1) s'(2,3) sb ec(3) ne fresh]
  have f: "files sector s' = (files sector s)(take 23 t \<mapsto> (0, b + k))" using D(2) ec u by (simp add: files_def)
  have "0 < unat (clusterLinkSectorAddress (fatInfor s))" using ok unfolding fs_ok_def boot_ok_def by blast
  then have low: "sector (disk s') 0 = sector (disk s) 0" using s'(11) by simp
  have l0: "link_of sector s' 0 \<noteq> 0"
    using s'(9) [OF links_pos [OF m(1)]] bk ok by (simp add: fs_ok_def)
  have val: "valid_cluster dv s x" if "files sector s' u = Some (z, x)" for u z x
  proof (cases "u = take 23 t")
    case False
    with that ok show ?thesis unfolding f fs_ok_def by (metis fun_upd_other)
  qed (use that f v in simp)
  have ok': "fs_ok dv good sector s'" by (rule fs_ok_frame [OF ok s'(4,5) low D(1) l0 val])
  show thesis
    by (rule that [OF s'(1) ok' s'(5) f]) (use D(3) s'(7-10) in \<open>simp_all add: file_count_def links_upd_def data_same_def\<close>)
qed

lemma write_step:
  assumes ok: "fs_ok dv good sector s" and name: "cstr name t" and f: "files sector s t = Some (z, c)"
    and buf: "length buf = 4096"
  obtains s' where "writeFile dv name buf sz s = Some (True, s')" "fs_ok dv good sector s'" "fat_frame dv s s'"
    "files sector s' = (files sector s)(t \<mapsto> (word_of_int sz, c))" "file_count sector s' = file_count sector s"
    "links_upd sector s (link_of sector s) s'" "cluster_data sector s' c = buf" "data_same dv sector {c} s s'"
proof -
  let ?d = "cluster_data sector s 0"
  note m = fs_okD [OF ok]
  obtain i where i: "lookup ?d t = Some i" "entry_size ?d i = z" "unat (entry_cluster ?d i) = c"
    "valid_cluster dv s c" "c \<noteq> 0" using files_cluster [OF ok f] by metis
  obtain s' where s': "writeFile dv name buf sz s = Some (True, s')" "mounted_ok dv good s'" "fat_frame dv s s'"
    "cluster_data sector s' 0 = putDWORD ?d (SIZEOF_FILEINFO * i + 24) (word_of_int sz)"
    "cluster_data sector s' c = buf"
    "\<And>x. valid_cluster dv s x \<Longrightarrow> x \<noteq> 0 \<Longrightarrow> x \<noteq> c \<Longrightarrow> cluster_data sector s' x = cluster_data sector s x"
    "\<And>k. k < unat (dataAddress (fatInfor s)) \<Longrightarrow> sector (disk s') k = sector (disk s) k"
    using writeFile_ok [OF m(1,2) name i(1,3,4) buf] by metis
  let ?d' = "cluster_data sector s' 0"
  have i128: "i < 128" by (rule lookupD(1) [OF i(1)])
  have len: "length ?d = 4096" using m(2) by (simp add: dir_ok_def)
  note P = put_entry_field [OF len i128, where k = 24 and w = "word_of_int sz", OF disjI1, OF refl, folded s'(4)]
  have sb: "same_but i ?d ?d'" by (rule same_but_chunks [OF len P(1,3)])
  have dok: "dir_ok ?d'" using m(2) P(1,2) by (simp add: dir_ok_def)
  have keep: "entry_cluster ?d' i = entry_cluster ?d i" "name_of ?d' i = name_of ?d i" "entry_size ?d' i = word_of_int sz"
    using P(2) [OF i128] P(4-) by (simp_all add: name_of_def)
  note D = dir_resize [OF m(3) dok i(1) sb keep(1,2)]
  have ff: "files sector s' = (files sector s)(t \<mapsto> (word_of_int sz, c))" using D(2) keep(3) i(3) by (simp add: files_def)
  have da: "0 < unat (dataAddress (fatInfor s))" "unat (clusterLinkSectorAddress (fatInfor s)) + unat (clusterLinkSectorCount (fatInfor s))
       \<le> unat (dataAddress (fatInfor s))"
    using m(1) links_pos [OF m(1)] by (simp_all add: mounted_ok_def)
  have lk: "link_of sector s' x = link_of sector s x" if "x < 128 * unat (clusterLinkSectorCount (fatInfor s))" for x
    using s'(7) [of "unat (link_lba (int x) s)"] link_lba_unat [OF m(1) that] s'(3)
    by (simp add: link_of_def link_sector_def fat_frame_def)
  have l0: "link_of sector s' 0 \<noteq> 0" using lk [OF links_pos [OF m(1)]] ok by (simp add: fs_ok_def)
  have val: "valid_cluster dv s x" if "files sector s' u = Some (y, x)" for u y x
  proof (cases "u = t")
    case False
    with that ok show ?thesis unfolding ff fs_ok_def by (metis fun_upd_other)
  qed (use that ff i(4) in simp)
  have ok': "fs_ok dv good sector s'" by (rule fs_ok_frame [OF ok s'(2,3) s'(7) [OF da(1)] D(1) l0 val])
  show thesis
    by (rule that [OF s'(1) ok' s'(3) ff])
      (use D(3) lk s'(5,6) in \<open>simp_all add: file_count_def links_upd_def data_same_def\<close>)
qed

lemma read_step:
  assumes ok: "fs_ok dv good sector s" and name: "cstr name t" and f: "files sector s t = Some (z, c)"
    and buf: "length buf = 4096"
  obtains s' where "readFile dv name buf s = Some (sint z, cluster_data sector s c, s')" "fs_ok dv good sector s'"
    "files sector s' = files sector s" "links_upd sector s (link_of sector s) s'" "data_same dv sector {} s s'"
proof -
  let ?d = "cluster_data sector s 0"
  note m = fs_okD [OF ok]
  obtain i where i: "lookup ?d t = Some i" "entry_size ?d i = z" "unat (entry_cluster ?d i) = c"
    "valid_cluster dv s c" "c \<noteq> 0" using files_cluster [OF ok f] by metis
  have v: "valid_cluster dv s (unat (entry_cluster ?d i))" using i by simp
  obtain s' where s': "readFile dv name buf s = Some (sint (entry_size ?d i), cluster_data sector s (unat (entry_cluster ?d i)), s')"
    "mounted_ok dv good s'" "fat_frame dv s s'" "same_sectors s s'" using readFile_ok [OF m(1,2) name i(1) v buf] by metis
  note S = fs_ok_same [OF ok s'(2-4)]
  show thesis by (rule that [OF _ S]) (use s'(1) i in simp)
qed

lemma delete_step:
  assumes ok: "fs_ok dv good sector s" and name: "cstr name t" and t: "\<not> unused_first (cluster_data sector s 0) t"
    and f: "files sector s t = Some (z, c)"
  obtains s' where "deleteFile dv name s = Some s'" "fs_ok dv good sector s'" "fat_frame dv s s'"
    "files sector s' = (files sector s)(t := None)" "Suc (file_count sector s') = file_count sector s"
    "links_upd sector s ((link_of sector s)(c := 0)) s'" "data_same dv sector {} s s'"
proof -
  let ?d = "cluster_data sector s 0"
  note m = fs_okD [OF ok]
  obtain i where i: "lookup ?d t = Some i" "entry_size ?d i = z" "unat (entry_cluster ?d i) = c"
    "valid_cluster dv s c" "c \<noteq> 0" using files_cluster [OF ok f] by metis
  note I = lookupD [OF i(1)]
  have fn: "find (\<lambda>j. name_of ?d j = t) [0..<128] = Some i" using used_first [OF t] i(1) by simp
  obtain s' where s': "deleteFile dv name s = Some s'" "mounted_ok dv good s'" "fat_frame dv s s'"
    "cluster_data sector s' 0 = (putDWORD ?d (SIZEOF_FILEINFO * i + 28) 0)[SIZEOF_FILEINFO * i := 0xE5]"
    "\<And>x. valid_cluster dv s x \<Longrightarrow> x \<noteq> 0 \<Longrightarrow> cluster_data sector s' x = cluster_data sector s x"
    "link_of sector s' c = 0"
    "\<And>x. x < 128 * unat (clusterLinkSectorCount (fatInfor s)) \<Longrightarrow> x \<noteq> c \<Longrightarrow> link_of sector s' x = link_of sector s x"
    "\<And>k. k < unat (clusterLinkSectorAddress (fatInfor s)) \<Longrightarrow> sector (disk s') k = sector (disk s) k"
    using deleteFile_ok [OF m(1,2) name fn i(3,4)] by metis
  let ?d' = "cluster_data sector s' 0"
  note P = deleted_entry [OF m(2) I(1), folded s'(4)]
  have len: "length ?d = 4096" "length ?d' = 4096" using m(2) P(1) by (simp_all add: dir_ok_def)
  have sb: "same_but i ?d ?d'" by (rule same_but_chunks [OF len P(3)])
  have "?d' ! (32 * i) = 0xE5" using s'(4) len I(1) by (simp add: SIZEOF_FILEINFO_def)
  then have "chunk (32 * i) 24 ?d' ! 0 = 0xE5" using len I(1) by (simp add: nth_chunk)
  moreover have "length (chunk (32 * i) 24 ?d') = 24" using len I(1) by simp
  ultimately obtain r where "chunk (32 * i) 24 ?d' = 0xE5 # r" by (cases "chunk (32 * i) 24 ?d'") auto
  then have hd: "hd (name_of ?d' i) = 0xE5" by (simp add: name_of_def)
  note D = dir_del [OF m(3) P(1) i(1) sb P(2) hd]
  have ff: "files sector s' = (files sector s)(t := None)" using D(2) by (simp add: files_def)
  have "0 < unat (clusterLinkSectorAddress (fatInfor s))" using ok unfolding fs_ok_def boot_ok_def by blast
  then have low: "sector (disk s') 0 = sector (disk s) 0" using s'(8) by simp
  have l0: "link_of sector s' 0 \<noteq> 0" using s'(7) [OF links_pos [OF m(1)]] i(5) ok by (simp add: fs_ok_def)
  have val: "valid_cluster dv s x" if "files sector s' u = Some (y, x)" for u y x
  proof (cases "u = t")
    case False
    with that ok show ?thesis unfolding ff fs_ok_def by (metis fun_upd_other)
  qed (use that ff in simp)
  have ok': "fs_ok dv good sector s'" by (rule fs_ok_frame [OF ok s'(2,3) low D(1) l0 val])
  show thesis
    by (rule that [OF s'(1) ok' s'(3) ff])
      (use D(3) s'(5-7) in \<open>simp_all add: file_count_def links_upd_def data_same_def\<close>)
qed

text \<open>An unused entry of the name before the file's: the directory's own link is freed, and the file stays.\<close>

lemma delete_unused:
  assumes ok: "fs_ok dv good sector s" and name: "cstr name t" and t: "unused_first (cluster_data sector s 0) t"
  obtains s' where "deleteFile dv name s = Some s'" "files sector s' = files sector s" "file_count sector s' = file_count sector s"
    "links_upd sector s ((link_of sector s)(0 := 0)) s'" "data_same dv sector {} s s'" "\<not> fs_ok dv good sector s'"
proof -
  let ?d = "cluster_data sector s 0"
  note m = fs_okD [OF ok]
  obtain i where i: "find (\<lambda>j. name_of ?d j = t) [0..<128] = Some i" "i < 128" "entry_cluster ?d i = 0"
    using unused_firstD [OF t] by metis
  have v: "unat (entry_cluster ?d i) = 0" "valid_cluster dv s 0" using i(3) m(1) by (simp_all add: mounted_ok_def)
  obtain s' where s': "deleteFile dv name s = Some s'"
    "cluster_data sector s' 0 = (putDWORD ?d (SIZEOF_FILEINFO * i + 28) 0)[SIZEOF_FILEINFO * i := 0xE5]"
    "\<And>x. valid_cluster dv s x \<Longrightarrow> x \<noteq> 0 \<Longrightarrow> cluster_data sector s' x = cluster_data sector s x"
    "link_of sector s' 0 = 0"
    "\<And>x. x < 128 * unat (clusterLinkSectorCount (fatInfor s)) \<Longrightarrow> x \<noteq> 0 \<Longrightarrow> link_of sector s' x = link_of sector s x"
    using deleteFile_ok [OF m(1,2) name i(1) v] by metis
  let ?d' = "cluster_data sector s' 0"
  note P = deleted_entry [OF m(2) i(2), folded s'(2)]
  have len: "length ?d = 4096" "length ?d' = 4096" using m(2) P(1) by (simp_all add: dir_ok_def)
  have sb: "same_but i ?d ?d'" by (rule same_but_chunks [OF len P(3)])
  note D = dir_blot [OF m(3) P(1) i(3) sb P(2)]
  show thesis
    by (rule that [OF s'(1)]) (use D s'(3-5) in \<open>simp_all add: files_def file_count_def links_upd_def data_same_def fs_ok_def\<close>)
qed

text \<open>A name that is not in the directory: a message on the screen, and nothing else.\<close>

lemma not_found_ok:
  assumes ok: "fs_ok dv good sector s" and name: "cstr name t" and f: "files sector s t = None"
    and msg: "puts notFoundFileMessage (screen s) = Some scr"
  obtains s' where "readFile dv name buf s = Some (-1, buf, s')" "writeFile dv name dat sz s = Some (False, s')"
    "screen s' = scr" "fs_ok dv good sector s'" "files sector s' = files sector s"
    "links_upd sector s (link_of sector s) s'" "data_same dv sector {} s s'"
    "\<not> unused_first (cluster_data sector s 0) t \<Longrightarrow> deleteFile dv name s = Some s'"
    "file_count sector s' = file_count sector s"
proof -
  let ?d = "cluster_data sector s 0"
  note m = fs_okD [OF ok]
  obtain b where b: "readDir dv s = s\<lparr>disk := b, buffer4096 := ?d\<rparr>" "mounted_ok dv good (readDir dv s)"
    "fat_frame dv s (readDir dv s)" "same_sectors s (readDir dv s)" using readDir_ok [OF m(1)] by metis
  define s1 where "s1 = readDir dv s"
  note B = b(2-4) [folded s1_def]
  have s1: "buffer4096 s1 = ?d" "screen s1 = screen s" using b(1) by (simp_all add: s1_def)
  define s' where "s' = s1\<lparr>screen := scr\<rparr>"
  have say: "say notFoundFileMessage s1 = Some s'" using msg s1(2) by (simp add: say_def s'_def)
  have found: "find_name True ?d name 0 = Some None" using find_name_lookup [OF m(2) name] f by (simp add: files_def)
  note S = fs_ok_same [OF ok B]
  have e: "disk s' = disk s1" "fatInfor s' = fatInfor s1" "screen s' = scr" by (simp_all add: s'_def)
  have eqs: "cluster_data sector s' = cluster_data sector s1" "link_of sector s' = link_of sector s1"
    "files sector s' = files sector s1"
    by (simp_all add: fun_eq_iff cluster_data_def link_of_def link_sector_def files_def e)
  have mk: "mounted_ok dv good s'" using B(1) by (simp add: s'_def mounted_ok_def valid_cluster_def)
  have val: "valid_cluster dv s' = valid_cluster dv s1" by (simp add: fun_eq_iff valid_cluster_def e)
  have "boot_ok sector s1" using S(1) by (simp only: fs_ok_def)
  then have bo: "boot_ok sector s'" by (rule boot_keep) (simp_all add: e)
  have ok': "fs_ok dv good sector s'" using S(1) mk bo unfolding fs_ok_def eqs val by blast
  have run: "readFile dv name buf s = Some (-1, buf, s')" "writeFile dv name dat sz s = Some (False, s')"
    using m(1) found say by (simp_all add: readFile_def writeFile_def s1_def [symmetric] s1 mounted_ok_def)
  have del: "deleteFile dv name s = Some s'" if "\<not> unused_first ?d t"
    using m(1) say find_name_eq [OF m(2) name, of False 0] used_first [OF that] f
    by (simp add: deleteFile_def s1_def [symmetric] s1 mounted_ok_def files_def)
  have "cluster_data sector s1 0 = cluster_data sector s 0" using B(3) B(2) m(1)
    by (intro same_cluster) (simp_all add: fat_frame_def mounted_ok_def)
  then have fc: "file_count sector s' = file_count sector s" by (simp add: file_count_def eqs)
  show thesis
    by (rule that [OF run e(3) ok' _ _ _ del fc]) (use S(2-4) in \<open>simp_all add: eqs links_upd_def data_same_def\<close>)
qed

text \<open>Mounting again: the same files, and the search for free clusters starts over.\<close>

lemma mount_step:
  assumes ok: "fs_ok dv good sector s"
  obtains s' where "mount dv s = Some (True, s')" "fs_ok dv good sector s'" "fat_frame dv s s'"
    "files sector s' = files sector s" "file_count sector s' = file_count sector s"
    "links_upd sector s (link_of sector s) s'" "data_same dv sector {} s s'" "bestIdx s' = 0"
    "mount dv (initFAT s) = Some (True, s')"
proof -
  note m = fs_okD [OF ok]
  have g: "good (disk s)" "unat (total_sectors dv (disk s)) < 2 ^ 31" "valid_cluster dv s 0" "isMounted s"
    using m(1) by (simp_all add: mounted_ok_def)
  have l: "unat (0::DWORD) + 1 \<le> unat (total_sectors dv (disk s))" using g(3) by (simp add: valid_cluster_def)
  from read_law [OF g(1) _ _ l, of "replicate 512 0"] obtain d where d:
    "read_sectors dv 1 0 (replicate 512 0) (disk s) = (1, sector (disk s) 0, d)" "good d"
    "total_sectors dv d = total_sectors dv (disk s)"
    "\<And>i. i < unat (total_sectors dv (disk s)) \<Longrightarrow> sector d i = sector (disk s) i" by auto
  have len: "length (sector (disk s) 0) = 512" using l by (intro size_law [OF g(1)]) simp
  define s' where "s' = s\<lparr>disk := d, fatInfor := fatInfor s, bestIdx := 0, bestRootDirIdx := 0, isMounted := True,
    buffer512 := sector (disk s) 0, buffer4096 := replicate 4096 0\<rparr>"
  have bo: "getDWORD (sector (disk s) 0) OFF_signature = SIGNATURE"
    "fatInfor s = \<lparr>freeClusterCount = getDWORD (sector (disk s) 0) OFF_freeClusterCount,
        clusterLinkSectorCount = getDWORD (sector (disk s) 0) OFF_clusterLinkSectorCount,
        clusterLinkSectorAddress = getDWORD (sector (disk s) 0) OFF_clusterLinkSectorAddress,
        dataAddress = getDWORD (sector (disk s) 0) OFF_dataAddress\<rparr>"
    using ok unfolding fs_ok_def boot_ok_def by blast+
  have run: "mount dv s = Some (True, s')"
    using d(1) bo(1) by (simp add: mount_def read512_def Let_def fat_const s'_def bo(2) [symmetric])
  have run': "mount dv (initFAT s) = Some (True, s')"
    using d(1) bo(1) by (simp add: mount_def initFAT_def read512_def Let_def fat_const s'_def bo(2) [symmetric])
  have "mounted_ok dv good s'"
    using m(1) d(2,3) len by (simp add: mounted_ok_def s'_def valid_cluster_def fat_const)
  moreover have fr: "fat_frame dv s s'" using d(3) g(4) by (simp add: fat_frame_def s'_def)
  moreover have ss: "same_sectors s s'" using d(4) by (simp add: same_sectors_def s'_def)
  ultimately have S: "fs_ok dv good sector s'" "files sector s' = files sector s"
    "links_upd sector s (link_of sector s) s'" "data_same dv sector {} s s'" by (rule fs_ok_same [OF ok])+
  have "cluster_data sector s' 0 = cluster_data sector s 0"
    by (rule same_cluster [OF ss _ g(3)]) (simp add: s'_def)
  then have fc: "file_count sector s' = file_count sector s" by (simp add: file_count_def)
  show thesis by (rule that [OF run S(1) fr S(2) fc S(3,4) _ run']) (simp add: s'_def)
qed

text \<open>Mounting a formatted disk, and both in a row.\<close>

lemma mount_formatted_step:
  fixes s :: "'b fat"
  defines "N \<equiv> int (unat (total_sectors dv (disk s)))"
  assumes g: "good (disk s)" and f: "formatted sector N bs (disk s)" and l: "length bs = SECTOR_SIZE" and N: "11 \<le> N" "N < 2 ^ 31"
  obtains s'' where "mount dv s = Some (True, s'')" "fs_ok dv good sector s''"
    "files sector s'' = Map.empty" "file_count sector s'' = 0"
    "links_upd sector s'' ((\<lambda>_. 0)(0 := 0xFFFFFFFF)) s''" "bestIdx s'' = 0" "screen s'' = screen s"
    "total_sectors dv (disk s'') = total_sectors dv (disk s)"
    "unat (clusterLinkSectorCount (fatInfor s'')) = nat (link_sectors N)"
    "unat (dataAddress (fatInfor s'')) = 1 + nat (link_sectors N)"
proof -
  obtain s'' where F: "mount dv s = Some (True, s'')" "mounted_ok dv good s''"
    "unat (clusterLinkSectorCount (fatInfor s'')) = nat (link_sectors N)"
    "cluster_data sector s'' 0 = replicate 4096 0" "link_of sector s'' 0 = 0xFFFFFFFF"
    "\<And>c. 0 < c \<Longrightarrow> c < 128 * nat (link_sectors N) \<Longrightarrow> link_of sector s'' c = 0" "bestIdx s'' = 0"
    "screen s'' = screen s" "total_sectors dv (disk s'') = total_sectors dv (disk s)"
    "unat (dataAddress (fatInfor s'')) = 1 + nat (link_sectors N)" "boot_ok sector s''"
    using mount_formatted [OF g f [unfolded N_def] l N [unfolded N_def]] unfolding N_def by metis
  have c0: "i < 128 \<Longrightarrow> entry_cluster (cluster_data sector s'' 0) i = 0" for i using empty_dir(2) F(4) by simp
  have n0: "i < 128 \<Longrightarrow> name_of (cluster_data sector s'' 0) i = []" for i
    by (simp add: F(4) name_of_def chunk_def)
  have inv: "dir_inv (cluster_data sector s'' 0)" using empty_dir(1) c0 n0 by (simp add: dir_inv_def F(4))
  have fe: "files sector s'' = Map.empty"
    using empty_dir(3) by (simp add: fun_eq_iff files_def F(4))
  have fc: "file_count sector s'' = 0" using c0 by (simp add: file_count_def used_entries_def)
  have ok: "fs_ok dv good sector s''" using F(2,11) inv F(5) fe unfolding fs_ok_def by simp
  have lk: "links_upd sector s'' ((\<lambda>_. 0)(0 := 0xFFFFFFFF)) s''" using F(3,5,6) by (simp add: links_upd_def)
  show thesis by (rule that [OF F(1) ok fe fc lk F(7-9,3,10)])
qed

lemma format_step:
  fixes s :: "'b fat"
  defines "N \<equiv> int (unat (total_sectors dv (disk s)))"
  assumes g: "good (disk s)" and l: "length (buffer512 s) = SECTOR_SIZE" and N: "11 \<le> N" "N < 2 ^ 31"
  obtains s' s'' where "format dv s = (True, s')" "mount dv s' = Some (True, s'')" "fs_ok dv good sector s''"
    "files sector s'' = Map.empty" "file_count sector s'' = 0"
    "links_upd sector s'' ((\<lambda>_. 0)(0 := 0xFFFFFFFF)) s''" "bestIdx s'' = 0" "screen s'' = screen s"
    "total_sectors dv (disk s'') = total_sectors dv (disk s)"
    "unat (clusterLinkSectorCount (fatInfor s'')) = nat (link_sectors N)"
    "unat (dataAddress (fatInfor s'')) = 1 + nat (link_sectors N)"
proof -
  obtain d where d: "format dv s = (True, s\<lparr>disk := d, buffer512 := root_link, buffer4096 := replicate 4096 0\<rparr>)" "good d"
    "total_sectors dv d = total_sectors dv (disk s)" "formatted sector N (buffer512 s) d"
    using format_writes [OF g l N [unfolded N_def]] unfolding N_def by blast
  let ?s = "s\<lparr>disk := d, buffer512 := root_link, buffer4096 := replicate 4096 0\<rparr>"
  have "good (disk ?s)" "formatted sector (int (unat (total_sectors dv (disk ?s)))) (buffer512 s) (disk ?s)"
    "11 \<le> int (unat (total_sectors dv (disk ?s)))" "int (unat (total_sectors dv (disk ?s))) < 2 ^ 31"
    "total_sectors dv (disk ?s) = total_sectors dv (disk s)" "screen ?s = screen s"
    using d N by (simp_all add: N_def del: of_nat_unat)
  note S = this
  from mount_formatted_step [OF S(1,2) l S(3,4)] show thesis using d(1) that unfolding S(5,6) N_def by metis
qed

end

end
