(* ===== verification/FatProps.thy ===== *)
theory FatProps
  imports FatSteps ConsoleProps
begin

text \<open>
  The properties of the file system, on any disk that keeps the contract \<open>block_device\<close>, and one
  sequence of commands after which two files own the same cluster.
\<close>

section \<open>A disk of 200 sectors\<close>

definition blank_disk :: "nat \<Rightarrow> BYTE list" where
  "blank_disk i = replicate 512 0"

definition unformatted :: "(nat \<Rightarrow> BYTE list) fat" where
  "unformatted = \<lparr>disk = blank_disk, screen = blank, fatInfor = \<lparr>freeClusterCount = 0, clusterLinkSectorCount = 0,
      clusterLinkSectorAddress = 0, dataAddress = 0\<rparr>, bestIdx = 0, bestRootDirIdx = 0, isMounted = False,
      buffer512 = replicate 512 0, buffer4096 = replicate 4096 0\<rparr>"

lemma unformatted_ok:
  "ram_ok (disk unformatted)" "length (buffer512 unformatted) = SECTOR_SIZE"
  "total_sectors (ram_disk n) (disk unformatted) = n"
  by (simp_all add: unformatted_def ram_ok_def blank_disk_def fat_const ram_disk_def)

lemma link_sectors_200: "link_sectors 200 = 2"
  by (simp add: link_sectors_def cluster_count_def fat_const sdiv_nonneg)

lemma find_first: "P k \<Longrightarrow> (\<And>j. j < k \<Longrightarrow> \<not> P j) \<Longrightarrow> k < n \<Longrightarrow> find P [0..<n] = Some k"
  by (auto simp: find_Some_iff intro!: exI [of _ k])

section \<open>Sequences of commands\<close>

primrec create_all :: "'b blockdev \<Rightarrow> cptr list \<Rightarrow> 'b fat \<Rightarrow> 'b fat option" where
  "create_all dv [] s = Some s"
| "create_all dv (name # names) s = do { s' \<leftarrow> createFile dv name s; create_all dv names s' }"

text \<open>
  \<open>fs_at\<close> collects what a sequence of commands needs of a state: the files, the links, the place
  where the search for a free cluster begins, and the geometry of the disk.
\<close>

definition fs_at :: "'b blockdev \<Rightarrow> ('b \<Rightarrow> bool) \<Rightarrow> ('b \<Rightarrow> nat \<Rightarrow> BYTE list) \<Rightarrow> 'b fat \<Rightarrow>
    (BYTE list \<Rightarrow> (DWORD \<times> nat) option) \<Rightarrow> (nat \<Rightarrow> DWORD) \<Rightarrow> nat \<Rightarrow> nat \<Rightarrow> bool" where
  "fs_at dv good sector s F f b n \<longleftrightarrow> fs_ok dv good sector s \<and> files sector s = F \<and> file_count sector s = n \<and>
     links_upd sector s f s \<and> bestIdx s = int b"

text \<open>The links \<open>xs\<close> are in use, the others are free.\<close>

definition used :: "nat list \<Rightarrow> nat \<Rightarrow> DWORD" where
  "used xs c = (if c \<in> set xs then 0xFFFFFFFF else 0)"

lemma used_upd: "(used xs)(c := 0xFFFFFFFF) = used (c # xs)"
  by (auto simp: used_def)

lemma all_less_3: "(\<forall>j < Suc 0. P j) = P 0" "(\<forall>j < 2. P j) = (P 0 \<and> P 1)" "(\<forall>j < 3. P j) = (P 0 \<and> P 1 \<and> P 2)"
  by (auto simp: less_Suc_eq numeral_2_eq_2 numeral_3_eq_3)

lemma used_0: "used [0] = (\<lambda>_. 0)(0 := 0xFFFFFFFF)"
  by (auto simp: used_def)

context block_device
begin

lemma fs_at_create:
  assumes st: "fs_at dv good sector s F f b n" and name: "cstr name t" "length t \<le> 23" "F t = None" and n: "n < 128"
    and k: "f k = 0" "\<forall>j < k. f j \<noteq> 0" "b + k < 128" and v: "valid_cluster dv s (b + k)"
  obtains s' where "createFile dv name s = Some s'"
    "fs_at dv good sector s' (F(t \<mapsto> (0, b + k))) (f(b + k := 0xFFFFFFFF)) (b + k + 1) (Suc n)" "fat_frame dv s s'"
proof -
  have ok: "fs_ok dv good sector s" and b: "bestIdx s = int b" using st by (simp_all add: fs_at_def)
  have q: "b div 128 < unat (clusterLinkSectorCount (fatInfor s))"
    using k(3) links_pos [OF fs_okD(1) [OF ok]] by simp
  have lk: "link_of sector s j = f j" if "j < 128" for j
    using st that q k(3) by (simp add: fs_at_def links_upd_def)
  have kf: "first_free sector s b = Some k"
    unfolding first_free_def by (rule find_first) (use k lk in simp_all)
  have t: "take 23 t = t" using name(2) by simp
  have new: "files sector s (take 23 t) = None" and room: "file_count sector s < 128"
    using st name(3) n t by (simp_all add: fs_at_def)
  obtain s' where s': "createFile dv name s = Some s'" "fs_ok dv good sector s'" "fat_frame dv s s'"
    "files sector s' = (files sector s)(take 23 t \<mapsto> (0, b + k))" "file_count sector s' = Suc (file_count sector s)"
    "links_upd sector s ((link_of sector s)(b + k := 0xFFFFFFFF)) s'" "bestIdx s' = int (b + k + 1)"
    using create_step [OF ok name(1) new room b kf q v] by metis
  have "fs_at dv good sector s' (F(t \<mapsto> (0, b + k))) (f(b + k := 0xFFFFFFFF)) (b + k + 1) (Suc n)"
    using s' st t by (auto simp: fs_at_def links_upd_def fat_frame_def)
  with s'(1,3) show thesis by (intro that)
qed

lemma fs_at_create_used:
  assumes st: "fs_at dv good sector s F (used xs) b n" and val: "\<And>c. c \<le> 10 \<Longrightarrow> valid_cluster dv s c"
    and name: "cstr name [ch]" "F [ch] = None" and n: "n < 128"
    and k: "k \<notin> set xs" "\<forall>j < k. j \<in> set xs" and c: "c = b + k" "c \<le> 10" "b' = c + 1" "m = Suc n"
  obtains s' where "createFile dv name s = Some s'" "fs_at dv good sector s' (F([ch] \<mapsto> (0, c))) (used (c # xs)) b' m"
    "\<And>c. c \<le> 10 \<Longrightarrow> valid_cluster dv s' c"
proof -
  have p: "length [ch] \<le> 23" "used xs k = 0" "\<forall>j < k. used xs j \<noteq> 0" "b + k < 128" "valid_cluster dv s (b + k)"
    using k c val by (simp_all add: used_def)
  show thesis
  proof (rule fs_at_create [OF st name(1) p(1) name(2) n p(2-5)], goal_cases)
    case (1 s')
    then show ?case using val fat_frame_valid [OF 1(3)] c by (intro that [of s']) (simp_all add: used_upd)
  qed
qed

lemma fs_at_mount:
  assumes st: "fs_at dv good sector s F f b n"
  obtains s' where "mount dv s = Some (True, s')" "fs_at dv good sector s' F f 0 n" "fat_frame dv s s'"
proof -
  have ok: "fs_ok dv good sector s" using st by (simp add: fs_at_def)
  obtain s' where s': "mount dv s = Some (True, s')" "fs_ok dv good sector s'" "fat_frame dv s s'"
    "files sector s' = files sector s" "file_count sector s' = file_count sector s"
    "links_upd sector s (link_of sector s) s'" "bestIdx s' = 0" using mount_step [OF ok] by metis
  have "fs_at dv good sector s' F f 0 n" using s' st by (auto simp: fs_at_def links_upd_def fat_frame_def)
  with s'(1,3) show thesis by (intro that)
qed

end

text \<open>Seven files, with a second mount after the fourth.\<close>

context block_device
begin

lemma shared_run:
  fixes s :: "'b fat"
  assumes gd: "good (disk s)" and l: "length (buffer512 s) = SECTOR_SIZE"
    and N: "200 \<le> int (unat (total_sectors dv (disk s)))" "int (unat (total_sectors dv (disk s))) < 2 ^ 31"
  obtains s0 s1 s2 s3 s4 where "format dv s = (True, s0)" "mount dv s0 = Some (True, s1)"
    "create_all dv [lit ''a'', lit ''b'', lit ''c'', lit ''d''] s1 = Some s2" "mount dv s2 = Some (True, s3)"
    "create_all dv [lit ''e'', lit ''f'', lit ''g''] s3 = Some s4" "fs_ok dv good sector s4"
    "files sector s4 [100] = Some (0, 10)" "files sector s4 [103] = Some (0, 10)"
proof -
  have N11: "11 \<le> int (unat (total_sectors dv (disk s)))" using N(1) by linarith
  note geo = link_sectors_eq [OF N11]
  obtain s0 s1 where F: "format dv s = (True, s0)" "mount dv s0 = Some (True, s1)" "fs_ok dv good sector s1"
    "files sector s1 = Map.empty" "file_count sector s1 = 0" "links_upd sector s1 ((\<lambda>_. 0)(0 := 0xFFFFFFFF)) s1" "bestIdx s1 = 0"
    "total_sectors dv (disk s1) = total_sectors dv (disk s)"
    "unat (clusterLinkSectorCount (fatInfor s1)) = nat (link_sectors (int (unat (total_sectors dv (disk s)))))"
    "unat (dataAddress (fatInfor s1)) = 1 + nat (link_sectors (int (unat (total_sectors dv (disk s)))))"
    using format_step [OF gd l N11 N(2)] by metis
  have v1: "valid_cluster dv s1 c" if "c \<le> 10" for c
    unfolding valid_cluster_def F(8-10) using that geo N(1) by linarith
  have "fs_at dv good sector s1 Map.empty (used [0]) 0 0"
    using F(3-7) by (simp add: fs_at_def used_0)
  note st = this
  obtain a where a: "createFile dv (lit ''a'') s1 = Some a"
    "fs_at dv good sector a [[97] \<mapsto> (0, 1)] (used [1, 0]) 2 1"
    "\<And>x. x \<le> 10 \<Longrightarrow> valid_cluster dv a x"
    by (rule fs_at_create_used [OF st v1, where name = "lit ''a''" and ch = 97 and k = 1 and c = 1 and b' = 2 and m = 1]) (simp_all add: lit_def all_less_3)
  obtain b where b: "createFile dv (lit ''b'') a = Some b"
    "fs_at dv good sector b [[97] \<mapsto> (0, 1), [98] \<mapsto> (0, 4)] (used [4, 1, 0]) 5 2"
    "\<And>x. x \<le> 10 \<Longrightarrow> valid_cluster dv b x"
    by (rule fs_at_create_used [OF a(2) a(3), where name = "lit ''b''" and ch = 98 and k = 2 and c = 4 and b' = 5 and m = 2]) (simp_all add: lit_def all_less_3)
  obtain c where c: "createFile dv (lit ''c'') b = Some c"
    "fs_at dv good sector c [[97] \<mapsto> (0, 1), [98] \<mapsto> (0, 4), [99] \<mapsto> (0, 7)] (used [7, 4, 1, 0]) 8 3"
    "\<And>x. x \<le> 10 \<Longrightarrow> valid_cluster dv c x"
    by (rule fs_at_create_used [OF b(2) b(3), where name = "lit ''c''" and ch = 99 and k = 2 and c = 7 and b' = 8 and m = 3]) (simp_all add: lit_def all_less_3)
  obtain d where d: "createFile dv (lit ''d'') c = Some d"
    "fs_at dv good sector d [[97] \<mapsto> (0, 1), [98] \<mapsto> (0, 4), [99] \<mapsto> (0, 7), [100] \<mapsto> (0, 10)] (used [10, 7, 4, 1, 0]) 11 4"
    "\<And>x. x \<le> 10 \<Longrightarrow> valid_cluster dv d x"
    by (rule fs_at_create_used [OF c(2) c(3), where name = "lit ''d''" and ch = 100 and k = 2 and c = 10 and b' = 11 and m = 4]) (simp_all add: lit_def all_less_3)
  obtain m where m: "mount dv d = Some (True, m)"
    "fs_at dv good sector m [[97] \<mapsto> (0, 1), [98] \<mapsto> (0, 4), [99] \<mapsto> (0, 7), [100] \<mapsto> (0, 10)] (used [10, 7, 4, 1, 0]) 0 4" "fat_frame dv d m"
    using fs_at_mount [OF d(2)] by metis
  have vm: "valid_cluster dv m c" if "c \<le> 10" for c using d(3) [OF that] fat_frame_valid [OF m(3)] by simp
  obtain e where e: "createFile dv (lit ''e'') m = Some e"
    "fs_at dv good sector e [[97] \<mapsto> (0, 1), [98] \<mapsto> (0, 4), [99] \<mapsto> (0, 7), [100] \<mapsto> (0, 10), [101] \<mapsto> (0, 2)] (used [2, 10, 7, 4, 1, 0]) 3 5"
    "\<And>x. x \<le> 10 \<Longrightarrow> valid_cluster dv e x"
    by (rule fs_at_create_used [OF m(2) vm, where name = "lit ''e''" and ch = 101 and k = 2 and c = 2 and b' = 3 and m = 5]) (simp_all add: lit_def all_less_3)
  obtain f where f: "createFile dv (lit ''f'') e = Some f"
    "fs_at dv good sector f [[97] \<mapsto> (0, 1), [98] \<mapsto> (0, 4), [99] \<mapsto> (0, 7), [100] \<mapsto> (0, 10), [101] \<mapsto> (0, 2), [102] \<mapsto> (0, 6)] (used [6, 2, 10, 7, 4, 1, 0]) 7 6"
    "\<And>x. x \<le> 10 \<Longrightarrow> valid_cluster dv f x"
    by (rule fs_at_create_used [OF e(2) e(3), where name = "lit ''f''" and ch = 102 and k = 3 and c = 6 and b' = 7 and m = 6]) (simp_all add: lit_def all_less_3)
  obtain g where g: "createFile dv (lit ''g'') f = Some g"
    "fs_at dv good sector g [[97] \<mapsto> (0, 1), [98] \<mapsto> (0, 4), [99] \<mapsto> (0, 7), [100] \<mapsto> (0, 10), [101] \<mapsto> (0, 2), [102] \<mapsto> (0, 6), [103] \<mapsto> (0, 10)] (used [10, 6, 2, 10, 7, 4, 1, 0]) 11 7"
    "\<And>x. x \<le> 10 \<Longrightarrow> valid_cluster dv g x"
    by (rule fs_at_create_used [OF f(2) f(3), where name = "lit ''g''" and ch = 103 and k = 3 and c = 10 and b' = 11 and m = 7]) (simp_all add: lit_def all_less_3)
  have "fs_ok dv good sector g" "files sector g [100] = Some (0, 10)" "files sector g [103] = Some (0, 10)"
    using g(2) by (simp_all add: fs_at_def)
  then show thesis
    using F(1,2) a(1) b(1) c(1) d(1) m(1) e(1) f(1) g(1) by (intro that [of s0 s1 d m g]) simp_all
qed

end

section \<open>Properties\<close>

text \<open>On any working disk of at least 11 sectors, \<^verbatim>\<open>format\<close> followed by \<^verbatim>\<open>mount\<close> succeeds and gives an
  empty file system: no file in the directory, link 0 (the directory) in use, every other link free, the
  search for free clusters at the start, and the invariant of the file system established.\<close>

theorem format_then_mount:
  assumes "block_device dv good sector" and "good (disk s)" and "length (buffer512 s) = SECTOR_SIZE"
    and "11 \<le> int (unat (total_sectors dv (disk s)))" and "int (unat (total_sectors dv (disk s))) < 2 ^ 31"
  shows "\<exists>s' s''. format dv s = (True, s') \<and> mount dv s' = Some (True, s'') \<and> fs_ok dv good sector s'' \<and>
    files sector s'' = Map.empty \<and> links_upd sector s'' ((\<lambda>_. 0)(0 := 0xFFFFFFFF)) s'' \<and> bestIdx s'' = 0 \<and>
    screen s'' = screen s \<and> total_sectors dv (disk s'') = total_sectors dv (disk s)"
proof (rule block_device.format_step [OF assms], goal_cases)
  case (1 s' s'')
  then show ?case by blast
qed

lemma format_then_mount_witness:
  "\<exists>s' s''. format (ram_disk 200) unformatted = (True, s') \<and> mount (ram_disk 200) s' = Some (True, s'') \<and>
    files (\<lambda>b. b) s'' [97] = None \<and> bestIdx s'' = 0"
proof -
  have "(11::int) \<le> int (unat (total_sectors (ram_disk 200) (disk unformatted)))"
    "int (unat (total_sectors (ram_disk 200) (disk unformatted))) < 2 ^ 31" by (simp_all add: unformatted_ok)
  from format_then_mount [OF ram.block_device_axioms unformatted_ok(1,2) this] show ?thesis by auto
qed

text \<open>A file system with a file for the other witnesses.\<close>

lemma formatted_200:
  obtains s where "fs_at (ram_disk 200) ram_ok (\<lambda>b. b) s Map.empty ((\<lambda>_. 0)(0 := 0xFFFFFFFF)) 0 0"
    "\<And>c. c \<le> 20 \<Longrightarrow> valid_cluster (ram_disk 200) s c" "screen s = blank"
proof -
  have N: "(11::int) \<le> int (unat (total_sectors (ram_disk 200) (disk unformatted)))"
    "int (unat (total_sectors (ram_disk 200) (disk unformatted))) < 2 ^ 31" by (simp_all add: unformatted_ok)
  show thesis
  proof (rule ram.format_step [OF unformatted_ok(1,2) N], goal_cases)
    case (1 s' s)
    have "total_sectors (ram_disk 200) (disk s) = 200" using 1(9) by (simp add: unformatted_ok)
    then have "valid_cluster (ram_disk 200) s c" if "c \<le> 20" for c
      using 1(10,11) that by (simp add: unformatted_ok link_sectors_200 valid_cluster_def)
    moreover have "screen s = blank" using 1(8) by (simp add: unformatted_def)
    ultimately show ?case using 1(3-7) by (intro that [of s]) (auto simp: fs_at_def)
  qed
qed

lemma cstr_a: "cstr (lit ''a'') [97]"
  by (simp add: lit_def)

lemma one_file_200:
  obtains s where "fs_at (ram_disk 200) ram_ok (\<lambda>b. b) s [[97] \<mapsto> (0, 1)]
      ((\<lambda>_. 0)(0 := 0xFFFFFFFF, 1 := 0xFFFFFFFF)) 2 1"
    "\<And>c. c \<le> 20 \<Longrightarrow> valid_cluster (ram_disk 200) s c" "screen s = blank"
proof -
  obtain s where s: "fs_at (ram_disk 200) ram_ok (\<lambda>b. b) s Map.empty ((\<lambda>_. 0)(0 := 0xFFFFFFFF)) 0 0"
    "\<And>c. c \<le> 20 \<Longrightarrow> valid_cluster (ram_disk 200) s c" "screen s = blank" using formatted_200 by metis
  show thesis
  proof (rule ram.fs_at_create [OF s(1) cstr_a, of 1], goal_cases)
    case (8 s')
    from 8(3) have "screen s' = blank" "\<And>c. c \<le> 20 \<Longrightarrow> valid_cluster (ram_disk 200) s' c"
      using s(2,3) fat_frame_valid [OF 8(3)] by (simp_all add: fat_frame_def)
    with 8(2) show ?case by (intro that [of s']) (simp_all add: numeral_2_eq_2)
  qed (use s(2) in simp_all)
qed

text \<open>C29: \<^verbatim>\<open>createFile\<close> with a new name adds one file of size 0 to the directory, under the first 23
  characters of the name, at cluster \<open>b + k\<close>, where \<open>b\<close> is the place the search starts from and \<open>k\<close> the
  first free link of the sector \<open>b\<close> lies in; it marks that link and no other, and leaves the data of every
  file alone. When the search starts at the first link of a sector the cluster was free.\<close>

theorem create_file_adds_to_map:
  assumes "block_device dv good sector" and "fs_ok dv good sector s" and "cstr name t"
    and "files sector s (take 23 t) = None" and "file_count sector s < 128" and "bestIdx s = int b"
    and "first_free sector s b = Some k" and "b div 128 < unat (clusterLinkSectorCount (fatInfor s))"
    and "valid_cluster dv s (b + k)"
  shows "\<exists>s'. createFile dv name s = Some s' \<and> fs_ok dv good sector s' \<and>
    files sector s' = (files sector s)(take 23 t \<mapsto> (0, b + k)) \<and>
    file_count sector s' = Suc (file_count sector s) \<and>
    links_upd sector s ((link_of sector s)(b + k := 0xFFFFFFFF)) s' \<and> data_same dv sector {} s s' \<and>
    bestIdx s' = int (b + k + 1) \<and> (b mod 128 = 0 \<longrightarrow> link_of sector s (b + k) = 0)"
proof (rule block_device.create_step [OF assms], goal_cases)
  case (1 s')
  have "link_of sector s (b + k) = 0" if "b mod 128 = 0"
  proof -
    have "128 * (b div 128) = b" using that by (metis add_0_right mult_div_mod_eq)
    then show ?thesis using assms(7) by (auto simp: first_free_def find_Some_iff)
  qed
  then show ?case using 1 by (intro exI [of _ s'] conjI impI)
qed

lemma create_file_adds_to_map_witness:
  "\<exists>s s'. createFile (ram_disk 200) (lit ''a'') s = Some s' \<and> files (\<lambda>b. b) s [97] = None \<and>
    files (\<lambda>b. b) s' [97] = Some (0, 1)"
proof -
  obtain s where s: "fs_at (ram_disk 200) ram_ok (\<lambda>b. b) s Map.empty ((\<lambda>_. 0)(0 := 0xFFFFFFFF)) 0 0"
    "\<And>c. c \<le> 20 \<Longrightarrow> valid_cluster (ram_disk 200) s c" using formatted_200 by metis
  have ok: "fs_ok (ram_disk 200) ram_ok (\<lambda>b. b) s" "files (\<lambda>b. b) s = Map.empty" "bestIdx s = int 0"
    "file_count (\<lambda>b. b) s < 128" using s(1) by (simp_all add: fs_at_def)
  have n: "0 < unat (clusterLinkSectorCount (fatInfor s))" using ram.links_pos [OF ram.fs_okD(1) [OF ok(1)]] by simp
  have "first_free (\<lambda>b. b) s 0 = Some 1"
    unfolding first_free_def by (rule find_first) (use s(1) n in \<open>simp_all add: fs_at_def links_upd_def\<close>)
  from create_file_adds_to_map [OF ram.block_device_axioms ok(1) cstr_a _ ok(4,3) this] n s(2) [of 1] ok(2)
  obtain s' where "createFile (ram_disk 200) (lit ''a'') s = Some s'" "files (\<lambda>b. b) s' = [[97] \<mapsto> (0, 1)]"
    by auto
  with ok(2) show ?thesis by (intro exI [of _ s] exI [of _ s']) simp
qed

text \<open>C30: Reading back what was written. \<^verbatim>\<open>writeFile\<close> replaces the contents and the size of the file and
  changes no other entry of the directory, no link and no other cluster. Another file keeps its contents unless it has the
  same cluster, as two files may have (\<^verbatim>\<open>createFile\<close> gives it to both); then it has the new contents too.
  \<^verbatim>\<open>readFile\<close> of the same name then fills the buffer of the caller with the contents written, returns the
  size, and changes no file.\<close>

theorem write_then_read:
  assumes "block_device dv good sector" and "fs_ok dv good sector s" and "cstr name t"
    and "files sector s t = Some (z, c)" and "length buf = 4096"
  shows "\<exists>s'. writeFile dv name buf sz s = Some (True, s') \<and> fs_ok dv good sector s' \<and>
    files sector s' = (files sector s)(t \<mapsto> (word_of_int sz, c)) \<and>
    links_upd sector s (link_of sector s) s' \<and> data_same dv sector {c} s s' \<and>
    (\<forall>u z' c'. u \<noteq> t \<and> files sector s u = Some (z', c') \<longrightarrow>
       cluster_data sector s' c' = (if c' = c then buf else cluster_data sector s c')) \<and>
    (\<forall>old. length old = 4096 \<longrightarrow> (\<exists>s''. readFile dv name old s' = Some (sint (word_of_int sz :: DWORD), buf, s'') \<and>
       fs_ok dv good sector s'' \<and> files sector s'' = files sector s' \<and> data_same dv sector {} s' s''))"
proof (rule block_device.write_step [OF assms, of sz], goal_cases)
  case (1 s')
  have "files sector s' t = Some (word_of_int sz, c)" using 1(4) by simp
  note R = block_device.read_step [OF assms(1) 1(2) assms(3) this]
  have "\<exists>s''. readFile dv name old s' = Some (sint (word_of_int sz :: DWORD), buf, s'') \<and>
      fs_ok dv good sector s'' \<and> files sector s'' = files sector s' \<and> data_same dv sector {} s' s''"
    if "length old = 4096" for old
    by (rule R [OF that]) (use 1(7) in auto)
  moreover have "cluster_data sector s' c' = (if c' = c then buf else cluster_data sector s c')"
    if u: "files sector s u = Some (z', c')" for u z' c'
    by (rule block_device.files_cluster [OF assms(1,2) u]) (use 1(7,8) in \<open>auto simp: data_same_def\<close>)
  ultimately show ?case using 1 by blast
qed

lemma write_then_read_witness:
  "\<exists>s s'. writeFile (ram_disk 200) (lit ''a'') (replicate 4096 7) 12 s = Some (True, s') \<and>
    files (\<lambda>b. b) s' [97] = Some (12, 1)"
proof -
  obtain s where s: "fs_at (ram_disk 200) ram_ok (\<lambda>b. b) s [[97] \<mapsto> (0, 1)]
      ((\<lambda>_. 0)(0 := 0xFFFFFFFF, 1 := 0xFFFFFFFF)) 2 1" using one_file_200 by metis
  have f: "fs_ok (ram_disk 200) ram_ok (\<lambda>b. b) s" "files (\<lambda>b. b) s [97] = Some (0, 1)" using s by (simp_all add: fs_at_def)
  have l: "length (replicate 4096 (7::BYTE)) = 4096" by simp
  from write_then_read [OF ram.block_device_axioms f(1) cstr_a f(2) l, of 12] obtain s' where
    "writeFile (ram_disk 200) (lit ''a'') (replicate 4096 7) 12 s = Some (True, s')"
    "files (\<lambda>b. b) s' = (files (\<lambda>b. b) s)([97] \<mapsto> (12, 1))" by auto
  then show ?thesis by (intro exI [of _ s] exI [of _ s']) simp
qed

text \<open>C31: \<^verbatim>\<open>deleteFile\<close> of any name. It removes the file of that name from the directory and frees its link,
  and changes no other link and no data; a name that no entry has only gets the message. But its search also looks at unused
  entries: when one of them has the name and comes first, the file stays, and what it frees is the link of the directory's own
  cluster, so that the file system is no longer sound. Unused entries have no name, or one that begins with the mark of a deleted
  file: for every other name the call is right.\<close>

theorem delete_file_removes_from_map:
  assumes "block_device dv good sector" and "fs_ok dv good sector s" and "cstr name t"
  shows "\<exists>s'. deleteFile dv name s = Some s' \<and> data_same dv sector {} s s' \<and>
    (if unused_first (cluster_data sector s 0) t
     then files sector s' = files sector s \<and> file_count sector s' = file_count sector s \<and>
       links_upd sector s ((link_of sector s)(0 := 0)) s' \<and> \<not> fs_ok dv good sector s'
     else fs_ok dv good sector s' \<and> files sector s' = (files sector s)(t := None) \<and>
       (case files sector s t of
          None \<Rightarrow> file_count sector s' = file_count sector s \<and> links_upd sector s (link_of sector s) s' \<and>
            screen s' = type_text (chars ''File was not found'' @ [10]) (screen s)
        | Some (z, c) \<Rightarrow> Suc (file_count sector s') = file_count sector s \<and>
            links_upd sector s ((link_of sector s)(c := 0)) s' \<and> screen s' = screen s)) \<and>
    (t \<noteq> [] \<and> hd t \<noteq> 0xE5 \<longrightarrow> \<not> unused_first (cluster_data sector s 0) t)"
proof -
  have inv: "dir_inv (cluster_data sector s 0)" using assms(2) by (simp add: fs_ok_def)
  note named = named_used_first [OF inv, of t]
  show ?thesis
  proof (cases "unused_first (cluster_data sector s 0) t")
    case True
    show ?thesis by (rule block_device.delete_unused [OF assms True]) (use True named in auto)
  next
    case False
    show ?thesis
    proof (cases "files sector s t")
      case None
      have msg: "puts notFoundFileMessage (screen s) = Some (type_text (chars ''File was not found'' @ [10]) (screen s))"
        unfolding notFoundFileMessage_def by (rule print_typed(2)) (simp add: chars_def)
      show ?thesis
        by (rule block_device.not_found_ok [OF assms None msg]) (use False None in \<open>auto simp: fun_upd_idem\<close>)
    next
      case (Some zc)
      then obtain z c where zc: "files sector s t = Some (z, c)" by (cases zc) simp
      show ?thesis
        by (rule block_device.delete_step [OF assms False zc]) (use False zc in \<open>auto simp: fat_frame_def\<close>)
    qed
  qed
qed

lemma delete_file_removes_from_map_witness:
  "\<exists>s s'. files (\<lambda>b. b) s [97] = Some (0, 1) \<and> deleteFile (ram_disk 200) (lit ''a'') s = Some s' \<and>
    files (\<lambda>b. b) s' [97] = None"
proof -
  obtain s where s: "fs_at (ram_disk 200) ram_ok (\<lambda>b. b) s [[97] \<mapsto> (0, 1)]
      ((\<lambda>_. 0)(0 := 0xFFFFFFFF, 1 := 0xFFFFFFFF)) 2 1" using one_file_200 by metis
  have f: "fs_ok (ram_disk 200) ram_ok (\<lambda>b. b) s" "files (\<lambda>b. b) s [97] = Some (0, 1)" using s by (simp_all add: fs_at_def)
  from delete_file_removes_from_map [OF ram.block_device_axioms f(1) cstr_a] obtain s' where
    "deleteFile (ram_disk 200) (lit ''a'') s = Some s'" "files (\<lambda>b. b) s' = (files (\<lambda>b. b) s)([97] := None)" by auto
  with f(2) show ?thesis by (intro exI [of _ s] exI [of _ s']) simp
qed

text \<open>A name that is not in the directory is an error: \<^verbatim>\<open>readFile\<close> returns -1 and leaves the buffer of
  the caller, \<^verbatim>\<open>writeFile\<close> returns FALSE, both print the message, and no file, link or cluster changes.\<close>

theorem missing_file_is_an_error:
  assumes "block_device dv good sector" and "fs_ok dv good sector s" and "cstr name t"
    and "files sector s t = None" and "puts notFoundFileMessage (screen s) = Some scr"
  shows "\<exists>s'. readFile dv name buf s = Some (-1, buf, s') \<and> writeFile dv name data sz s = Some (False, s') \<and>
    screen s' = scr \<and> fs_ok dv good sector s' \<and> files sector s' = files sector s \<and>
    links_upd sector s (link_of sector s) s' \<and> data_same dv sector {} s s'"
proof (rule block_device.not_found_ok [OF assms, of buf data sz], goal_cases)
  case (1 s')
  then show ?case by blast
qed

lemma puts_blank:
  assumes "cstr msg t" and "BACK_SPACE \<notin> set t"
  obtains scr where "puts msg blank = Some scr"
proof -
  have "cursor_at blank 1998" by (simp add: cursor_at_def blank_def cell_addr_def video_defs)
  from print_loop_cells [OF assms this] show thesis by (auto simp: puts_def printString_def intro: that)
qed

lemma missing_file_is_an_error_witness:
  "\<exists>s s'. readFile (ram_disk 200) (lit ''a'') [1, 2] s = Some (-1, [1, 2], s') \<and>
    writeFile (ram_disk 200) (lit ''a'') [3] 1 s = Some (False, s')"
proof -
  obtain s where s: "fs_at (ram_disk 200) ram_ok (\<lambda>b. b) s Map.empty ((\<lambda>_. 0)(0 := 0xFFFFFFFF)) 0 0" "screen s = blank"
    using formatted_200 by metis
  have f: "fs_ok (ram_disk 200) ram_ok (\<lambda>b. b) s" "files (\<lambda>b. b) s [97] = None" using s(1) by (simp_all add: fs_at_def)
  have "cstr notFoundFileMessage [70, 105, 108, 101, 32, 119, 97, 115, 32, 110, 111, 116, 32, 102, 111, 117, 110, 100]"
    by (simp add: notFoundFileMessage_def lit_def)
  then obtain scr where "puts notFoundFileMessage (screen s) = Some scr"
    unfolding s(2) by (rule puts_blank) (simp add: BACK_SPACE_def)
  from missing_file_is_an_error [OF ram.block_device_axioms f(1) cstr_a f(2) this, of "[1, 2]" "[3]" 1]
  show ?thesis by blast
qed

text \<open>Mounting the disk again keeps the file system: the same names, sizes and clusters, the same links and
  the same data. The search for free clusters starts again from cluster 0.\<close>

theorem remount_keeps_files:
  assumes "block_device dv good sector" and "fs_ok dv good sector s"
  shows "\<exists>s'. mount dv (initFAT s) = Some (True, s') \<and> fs_ok dv good sector s' \<and>
    files sector s' = files sector s \<and> links_upd sector s (link_of sector s) s' \<and>
    data_same dv sector {} s s' \<and> bestIdx s' = 0"
proof (rule block_device.mount_step [OF assms], goal_cases)
  case (1 s')
  then show ?case by blast
qed

lemma remount_keeps_files_witness:
  "\<exists>s s'. files (\<lambda>b. b) s [97] = Some (0, 1) \<and> mount (ram_disk 200) (initFAT s) = Some (True, s') \<and>
    files (\<lambda>b. b) s' [97] = Some (0, 1)"
proof -
  obtain s where s: "fs_at (ram_disk 200) ram_ok (\<lambda>b. b) s [[97] \<mapsto> (0, 1)]
      ((\<lambda>_. 0)(0 := 0xFFFFFFFF, 1 := 0xFFFFFFFF)) 2 1" using one_file_200 by metis
  have f: "fs_ok (ram_disk 200) ram_ok (\<lambda>b. b) s" "files (\<lambda>b. b) s [97] = Some (0, 1)" using s by (simp_all add: fs_at_def)
  from remount_keeps_files [OF ram.block_device_axioms f(1)] f(2) show ?thesis by metis
qed

text \<open>C32: The search for a free cluster does not keep files apart. It returns the place it started from plus
  the number of used links at the beginning of the sector, whatever the link there says. On any working disk of
  at least 200 sectors: format, mount, create four files, mount again, create three more; the fourth and the
  seventh file then own the same cluster, so that writing the one overwrites the other.\<close>

theorem two_files_share_a_cluster:
  assumes "block_device dv good sector" and "good (disk s)" and "length (buffer512 s) = SECTOR_SIZE"
    and "200 \<le> int (unat (total_sectors dv (disk s)))" and "int (unat (total_sectors dv (disk s))) < 2 ^ 31"
  shows "\<exists>s0 s1 s2 s3 s4. format dv s = (True, s0) \<and> mount dv s0 = Some (True, s1) \<and>
    create_all dv [lit ''a'', lit ''b'', lit ''c'', lit ''d''] s1 = Some s2 \<and> mount dv s2 = Some (True, s3) \<and>
    create_all dv [lit ''e'', lit ''f'', lit ''g''] s3 = Some s4 \<and> fs_ok dv good sector s4 \<and>
    files sector s4 [100] = Some (0, 10) \<and> files sector s4 [103] = Some (0, 10)"
proof (rule block_device.shared_run [OF assms], goal_cases)
  case (1 s0 s1 s2 s3 s4)
  then show ?case by blast
qed

lemma two_files_share_a_cluster_witness:
  "\<exists>s3 s4. create_all (ram_disk 200) [lit ''e'', lit ''f'', lit ''g''] s3 = Some s4 \<and>
    files (\<lambda>b. b) s4 [100] = Some (0, 10) \<and> files (\<lambda>b. b) s4 [103] = Some (0, 10)"
proof -
  have "(200::int) \<le> int (unat (total_sectors (ram_disk 200) (disk unformatted)))"
    "int (unat (total_sectors (ram_disk 200) (disk unformatted))) < 2 ^ 31" by (simp_all add: unformatted_ok)
  from two_files_share_a_cluster [OF ram.block_device_axioms unformatted_ok(1,2) this] show ?thesis by metis
qed

end
