(* ===== verification/Disk.thy ===== *)
theory Disk
  imports Keyboard Console
begin

text \<open>
  The disk driver: \<^verbatim>\<open>kernel/drivers/Disk.c\<close> and \<^verbatim>\<open>Disk.h\<close>, programmed input
  and output on an ATA drive. A transfer sends a command, and for every sector waits for the
  completion interrupt and moves 256 words through the data port, under the driver's mutex.

  Where the calling process is blocked (on the mutex or on the interrupt) everything else runs: other
  processes, interrupt handlers, the drive. This is the argument \<open>rs\<close> of the operations: it takes
  the state in which the process was switched out to the one in which it runs again, or to \<open>None\<close> when
  it never does. Interrupts that are taken between two statements of the driver while it runs are
  not modelled; they are the calls of the handlers below at the points where the process sleeps.
\<close>

section \<open>Constants\<close>

abbreviation (input) FS_PRIMARY :: bool where "FS_PRIMARY \<equiv> True"
abbreviation (input) FS_MASTER :: bool where "FS_MASTER \<equiv> False"

definition PRIMARY_DATA :: WORD where "PRIMARY_DATA = 0x1F0"
definition PRIMARY_ERROR :: WORD where "PRIMARY_ERROR = 0x1F1"
definition PRIMARY_SECTOR_COUNT :: WORD where "PRIMARY_SECTOR_COUNT = 0x1F2"
definition PRIMARY_SECTOR_NUMBER :: WORD where "PRIMARY_SECTOR_NUMBER = 0x1F3"
definition PRIMARY_CYLINDER_LSB :: WORD where "PRIMARY_CYLINDER_LSB = 0x1F4"
definition PRIMARY_CYLINDER_MSB :: WORD where "PRIMARY_CYLINDER_MSB = 0x1F5"
definition PRIMARY_DRIVE_AND_HEADER :: WORD where "PRIMARY_DRIVE_AND_HEADER = 0x1F6"
definition PRIMARY_STATUS :: WORD where "PRIMARY_STATUS = 0x1F7"
definition PRIMARY_COMMAND :: WORD where "PRIMARY_COMMAND = 0x1F7"
definition PRIMARY_DIGITAL_OUTPUT :: WORD where "PRIMARY_DIGITAL_OUTPUT = 0x3F6"
definition PRIMARY_DRIVE_ADDRESS :: WORD where "PRIMARY_DRIVE_ADDRESS = 0x3F7"
definition SECONDARY_DATA :: WORD where "SECONDARY_DATA = 0x170"
definition SECONDARY_ERROR :: WORD where "SECONDARY_ERROR = 0x171"
definition SECONDARY_SECTOR_COUNT :: WORD where "SECONDARY_SECTOR_COUNT = 0x172"
definition SECONDARY_SECTOR_NUMBER :: WORD where "SECONDARY_SECTOR_NUMBER = 0x173"
definition SECONDARY_CYLINDER_LSB :: WORD where "SECONDARY_CYLINDER_LSB = 0x174"
definition SECONDARY_CYLINDER_MSB :: WORD where "SECONDARY_CYLINDER_MSB = 0x175"
definition SECONDARY_DRIVE_AND_HEADER :: WORD where "SECONDARY_DRIVE_AND_HEADER = 0x176"
definition SECONDARY_STATUS :: WORD where "SECONDARY_STATUS = 0x177"
definition SECONDARY_COMMAND :: WORD where "SECONDARY_COMMAND = 0x177"
definition SECONDARY_DIGITAL_OUTPUT :: WORD where "SECONDARY_DIGITAL_OUTPUT = 0x376"
definition SECONDARY_DRIVE_ADDRESS :: WORD where "SECONDARY_DRIVE_ADDRESS = 0x377"

lemmas disk_ports = PRIMARY_DATA_def PRIMARY_ERROR_def PRIMARY_SECTOR_COUNT_def PRIMARY_SECTOR_NUMBER_def
  PRIMARY_CYLINDER_LSB_def PRIMARY_CYLINDER_MSB_def PRIMARY_DRIVE_AND_HEADER_def PRIMARY_STATUS_def
  PRIMARY_COMMAND_def PRIMARY_DIGITAL_OUTPUT_def PRIMARY_DRIVE_ADDRESS_def SECONDARY_DATA_def
  SECONDARY_ERROR_def SECONDARY_SECTOR_COUNT_def SECONDARY_SECTOR_NUMBER_def SECONDARY_CYLINDER_LSB_def
  SECONDARY_CYLINDER_MSB_def SECONDARY_DRIVE_AND_HEADER_def SECONDARY_STATUS_def SECONDARY_COMMAND_def
  SECONDARY_DIGITAL_OUTPUT_def SECONDARY_DRIVE_ADDRESS_def

definition DATA :: nat where "DATA = 0"
definition SECTOR_COUNT :: nat where "SECTOR_COUNT = 2"
definition SECTOR_NUMBER :: nat where "SECTOR_NUMBER = 3"
definition CYLINDER_LSB :: nat where "CYLINDER_LSB = 4"
definition CYLINDER_MSB :: nat where "CYLINDER_MSB = 5"
definition DRIVE_AND_HEADER :: nat where "DRIVE_AND_HEADER = 6"
definition STATUS :: nat where "STATUS = 7"
definition COMMAND :: nat where "COMMAND = 8"

lemmas disk_regs = DATA_def SECTOR_COUNT_def SECTOR_NUMBER_def CYLINDER_LSB_def CYLINDER_MSB_def
  DRIVE_AND_HEADER_def STATUS_def COMMAND_def

definition COMMAND_READ :: BYTE where "COMMAND_READ = 0x20"
definition COMMAND_WRITE :: BYTE where "COMMAND_WRITE = 0x30"
definition COMMAND_DRIVE_IDENTIFY :: BYTE where "COMMAND_DRIVE_IDENTIFY = 0xEC"
definition STATUS_BSY :: BYTE where "STATUS_BSY = 0x80"
definition STATUS_DRDY :: BYTE where "STATUS_DRDY = 0x40"
definition STATUS_DRQ :: BYTE where "STATUS_DRQ = 0x08"
definition STATUS_ERR :: BYTE where "STATUS_ERR = 0x01"
definition DRIVERHEAD_LBA :: BYTE where "DRIVERHEAD_LBA = 0xE0"
definition DRIVERHEAD_SLAVE :: BYTE where "DRIVERHEAD_SLAVE = 0x10"
definition DRIVERHEAD_MASTER :: BYTE where "DRIVERHEAD_MASTER = 0x00"
definition WAIT_TIMEOUT_MS :: nat where "WAIT_TIMEOUT_MS = 500"
definition IRQ_DISK1 :: int where "IRQ_DISK1 = 14"
definition IRQ_DISK2 :: int where "IRQ_DISK2 = 15"

lemmas disk_const = COMMAND_READ_def COMMAND_WRITE_def COMMAND_DRIVE_IDENTIFY_def STATUS_BSY_def STATUS_DRDY_def
  STATUS_DRQ_def STATUS_ERR_def DRIVERHEAD_LBA_def DRIVERHEAD_SLAVE_def DRIVERHEAD_MASTER_def WAIT_TIMEOUT_MS_def

definition portAddress :: "WORD list list" where
  "portAddress =
     [[SECONDARY_DATA, SECONDARY_ERROR, SECONDARY_SECTOR_COUNT, SECONDARY_SECTOR_NUMBER, SECONDARY_CYLINDER_LSB,
       SECONDARY_CYLINDER_MSB, SECONDARY_DRIVE_AND_HEADER, SECONDARY_STATUS, SECONDARY_COMMAND,
       SECONDARY_DIGITAL_OUTPUT, SECONDARY_DRIVE_ADDRESS],
      [PRIMARY_DATA, PRIMARY_ERROR, PRIMARY_SECTOR_COUNT, PRIMARY_SECTOR_NUMBER, PRIMARY_CYLINDER_LSB,
       PRIMARY_CYLINDER_MSB, PRIMARY_DRIVE_AND_HEADER, PRIMARY_STATUS, PRIMARY_COMMAND,
       PRIMARY_DIGITAL_OUTPUT, PRIMARY_DRIVE_ADDRESS]]"

definition portOf :: "bool \<Rightarrow> nat \<Rightarrow> WORD" where
  "portOf isPrimary r = portAddress ! (if isPrimary then 1 else 0) ! r"

section \<open>State\<close>

text \<open>\<open>diskMutex\<close> is the address of the static mutex, \<open>diskInfo\<close> the words of the identification.\<close>

record 'd dsk = "'d kbd" +
  diskMutex :: ptr
  diskInfo :: "WORD list"
  isPrimaryInterruptOccur :: bool
  isSecondaryInterruptOccur :: bool
  diskWaiter :: "bool \<Rightarrow> ptr"

type_synonym ('d, 'z) resume = "('d, 'z) dsk_scheme \<Rightarrow> ('d, 'z) dsk_scheme option"

definition occurFlag :: "bool \<Rightarrow> ('d, 'z) dsk_scheme \<Rightarrow> bool" where
  "occurFlag isPrimary s = (if isPrimary then isPrimaryInterruptOccur s else isSecondaryInterruptOccur s)"

definition getTotalSector :: "('d, 'z) dsk_scheme \<Rightarrow> DWORD" where
  "getTotalSector s = ucast (diskInfo s ! 60) OR push_bit 16 (ucast (diskInfo s ! 61))"

text \<open>The code returns the address of the static variable.\<close>

definition getDiskInformation :: "('d, 'z) dsk_scheme \<Rightarrow> WORD list" where
  "getDiskInformation s = diskInfo s"

section \<open>Interrupt handlers\<close>

definition primaryDiskInterruptHandler :: "'d portio \<Rightarrow> int \<Rightarrow> ('d, 'z) dsk_scheme \<Rightarrow> ('d, 'z) dsk_scheme option" where
  "primaryDiskInterruptHandler io vectorNumber s =
     (let s1 = s\<lparr>isPrimaryInterruptOccur := True\<rparr>;
          s2 = snd (sendEOI io (vectorNumber - IRQ_START_OFFSET) s1)
      in wakeupProcessInInterrupt (diskWaiter s2 True) s2)"

definition secondaryDiskInterruptHandler :: "'d portio \<Rightarrow> int \<Rightarrow> ('d, 'z) dsk_scheme \<Rightarrow> ('d, 'z) dsk_scheme option" where
  "secondaryDiskInterruptHandler io vectorNumber s =
     (let s1 = s\<lparr>isSecondaryInterruptOccur := True\<rparr>;
          s2 = snd (sendEOI io (vectorNumber - IRQ_START_OFFSET) s1)
      in wakeupProcessInInterrupt (diskWaiter s2 False) s2)"

definition clearDiskInterruptFlag :: "bool \<Rightarrow> ('d, 'z) dsk_scheme \<Rightarrow> ('d, 'z) dsk_scheme" where
  "clearDiskInterruptFlag isPrimary s =
     (if isPrimary then s\<lparr>isPrimaryInterruptOccur := False\<rparr> else s\<lparr>isSecondaryInterruptOccur := False\<rparr>)"

section \<open>Waiting\<close>

text \<open>
  Waiting for the completion interrupt. With interrupts off the driver polls the flag, which
  no handler can set then, until the time is over; otherwise it sleeps until the interrupt or the deadline.
\<close>

partial_function (option) poll_loop ::
  "'d portio \<Rightarrow> bool \<Rightarrow> int \<Rightarrow> pitStopwatch \<Rightarrow> ('d, 'z) dsk_scheme \<Rightarrow> (bool \<times> ('d, 'z) dsk_scheme) option" where
  "poll_loop io isPrimary limit watch s =
     (if occurFlag isPrimary s then Some (True, s)
      else let (elapsed, watch', s1) = getElapsedClock io watch s
           in if elapsed < limit then poll_loop io isPrimary limit watch' s1 else Some (False, s1))"

partial_function (option) sleep_loop ::
  "('d, 'z) resume \<Rightarrow> bool \<Rightarrow> bool \<Rightarrow> QWORD \<Rightarrow> ('d, 'z) dsk_scheme \<Rightarrow> (bool \<times> ('d, 'z) dsk_scheme) option" where
  "sleep_loop rs isPrimary preIf deadline s =
     (if occurFlag isPrimary s then Some (True, snd (setIf preIf s))
      else if getTickCount s \<ge> deadline then Some (False, snd (setIf preIf s))
      else do {
        let s1 = s\<lparr>diskWaiter := (diskWaiter s)(isPrimary := getRunningProcess s)\<rparr>;
        s2 \<leftarrow> sleepUntilTick deadline s1;
        s3 \<leftarrow> rs s2;
        sleep_loop rs isPrimary preIf deadline (s3\<lparr>diskWaiter := (diskWaiter s3)(isPrimary := NULL)\<rparr>) })"

definition waitInterrupt ::
  "'d portio \<Rightarrow> ('d, 'z) resume \<Rightarrow> bool \<Rightarrow> ('d, 'z) dsk_scheme \<Rightarrow> (bool \<times> ('d, 'z) dsk_scheme) option" where
  "waitInterrupt io rs isPrimary s =
     (let (preIf, s1) = setIf False s
      in if \<not> preIf then
           let (watch, s2) = startStopwatch io s1
           in poll_loop io isPrimary (msToClock (of_nat WAIT_TIMEOUT_MS)) watch s2
         else sleep_loop rs isPrimary preIf
           (getTickCount s1 + of_nat ((WAIT_TIMEOUT_MS + unat SLOT_TIME - 1) div unat SLOT_TIME)) s1)"

partial_function (option) status_loop ::
  "'d portio \<Rightarrow> bool \<Rightarrow> BYTE \<Rightarrow> BYTE \<Rightarrow> int \<Rightarrow> pitStopwatch \<Rightarrow> ('d, 'z) hw_scheme \<Rightarrow> (bool \<times> ('d, 'z) hw_scheme) option" where
  "status_loop io isPrimary msk v limit watch s =
     (let (status, s1) = getPort io (portOf isPrimary STATUS) s
      in if status AND msk = v then Some (True, s1)
         else let (elapsed, watch', s2) = getElapsedClock io watch s1
              in if elapsed < limit then status_loop io isPrimary msk v limit watch' s2 else Some (False, s2))"

definition waitStatus :: "'d portio \<Rightarrow> bool \<Rightarrow> BYTE \<Rightarrow> BYTE \<Rightarrow> ('d, 'z) hw_scheme \<Rightarrow> (bool \<times> ('d, 'z) hw_scheme) option" where
  "waitStatus io isPrimary msk v s =
     (let (watch, s1) = startStopwatch io s
      in status_loop io isPrimary msk v (msToClock (of_nat WAIT_TIMEOUT_MS)) watch s1)"

definition waitNoBusy :: "'d portio \<Rightarrow> bool \<Rightarrow> ('d, 'z) hw_scheme \<Rightarrow> (bool \<times> ('d, 'z) hw_scheme) option" where
  "waitNoBusy io isPrimary s = waitStatus io isPrimary STATUS_BSY 0 s"

definition waitReady :: "'d portio \<Rightarrow> bool \<Rightarrow> ('d, 'z) hw_scheme \<Rightarrow> (bool \<times> ('d, 'z) hw_scheme) option" where
  "waitReady io isPrimary s = waitStatus io isPrimary STATUS_DRDY STATUS_DRDY s"

partial_function (option) request_loop ::
  "'d portio \<Rightarrow> bool \<Rightarrow> int \<Rightarrow> pitStopwatch \<Rightarrow> ('d, 'z) hw_scheme \<Rightarrow> (bool \<times> ('d, 'z) hw_scheme) option" where
  "request_loop io isPrimary limit watch s =
     (let (status, s1) = getPort io (portOf isPrimary STATUS) s
      in if status AND STATUS_BSY \<noteq> STATUS_BSY \<and> status AND STATUS_ERR = STATUS_ERR then Some (False, s1)
         else if status AND STATUS_BSY \<noteq> STATUS_BSY \<and> status AND STATUS_DRQ = STATUS_DRQ then Some (True, s1)
         else let (elapsed, watch', s2) = getElapsedClock io watch s1
              in if elapsed < limit then request_loop io isPrimary limit watch' s2 else Some (False, s2))"

definition waitDataRequest :: "'d portio \<Rightarrow> bool \<Rightarrow> ('d, 'z) hw_scheme \<Rightarrow> (bool \<times> ('d, 'z) hw_scheme) option" where
  "waitDataRequest io isPrimary s =
     (let (watch, s1) = startStopwatch io s
      in request_loop io isPrimary (msToClock (of_nat WAIT_TIMEOUT_MS)) watch s1)"

section \<open>Commands and transfers\<close>

definition driveFlag :: "bool \<Rightarrow> BYTE" where
  "driveFlag isMaster = (if isMaster then DRIVERHEAD_LBA OR DRIVERHEAD_MASTER else DRIVERHEAD_LBA OR DRIVERHEAD_SLAVE)"

definition sendDiskCommand :: "'d portio \<Rightarrow> bool \<Rightarrow> bool \<Rightarrow> BYTE \<Rightarrow> DWORD \<Rightarrow> BYTE \<Rightarrow> ('d, 'z) dsk_scheme \<Rightarrow>
    (bool \<times> ('d, 'z) dsk_scheme) option" where
  "sendDiskCommand io isPrimary isMaster sectorCount LBA command s = do {
     (idle, s1) \<leftarrow> waitNoBusy io isPrimary s;
     if \<not> idle then Some (False, s1)
     else do {
       let s2 = setPort io (portOf isPrimary SECTOR_COUNT) sectorCount s1;
       let s3 = setPort io (portOf isPrimary SECTOR_NUMBER) (ucast LBA) s2;
       let s4 = setPort io (portOf isPrimary CYLINDER_LSB) (ucast (drop_bit 8 LBA)) s3;
       let s5 = setPort io (portOf isPrimary CYLINDER_MSB) (ucast (drop_bit 16 LBA)) s4;
       let s6 = setPort io (portOf isPrimary DRIVE_AND_HEADER)
                  ((driveFlag isMaster AND 0xF0) OR (ucast (drop_bit 24 LBA) AND 0x0F)) s5;
       (ready, s7) \<leftarrow> waitReady io isPrimary s6;
       if \<not> ready then Some (False, s7)
       else Some (True, setPort io (portOf isPrimary COMMAND) command (clearDiskInterruptFlag isPrimary s7)) } }"

text \<open>The driver's mutex. A caller that has to wait sets its interrupt flag again when it is resumed.\<close>

definition lockDisk :: "('d, 'z) resume \<Rightarrow> ('d, 'z) dsk_scheme \<Rightarrow> ('d, 'z) dsk_scheme option" where
  "lockDisk rs s = do {
     (blocked, preIf, s1) \<leftarrow> acquireLock (diskMutex s) s;
     if blocked then do { s2 \<leftarrow> rs s1; Some (snd (setIf preIf s2)) } else Some s1 }"

definition unlockDisk :: "('d, 'z) dsk_scheme \<Rightarrow> ('d, 'z) dsk_scheme option" where
  "unlockDisk s = releaseLock (diskMutex s) s"

text \<open>Word \<open>k\<close> of a byte buffer; outside the buffer the C code is undefined.\<close>

definition put_word :: "BYTE list \<Rightarrow> nat \<Rightarrow> WORD \<Rightarrow> BYTE list option" where
  "put_word buf k w = (if 2 * k + 2 \<le> length buf then Some (splice_at buf (2 * k) (le_encode 2 (unat w))) else None)"

definition get_word :: "BYTE list \<Rightarrow> nat \<Rightarrow> WORD option" where
  "get_word buf k = (if 2 * k + 2 \<le> length buf then Some (word_of_nat (le_decode (chunk (2 * k) 2 buf))) else None)"

primrec info_loop :: "'d portio \<Rightarrow> bool \<Rightarrow> nat \<Rightarrow> nat \<Rightarrow> ('d, 'z) dsk_scheme \<Rightarrow> ('d, 'z) dsk_scheme" where
  "info_loop io isPrimary 0 k s = s"
| "info_loop io isPrimary (Suc n) k s =
     (let (w, s1) = getPortWord io (portOf isPrimary DATA) s
      in info_loop io isPrimary n (Suc k) (s1\<lparr>diskInfo := (diskInfo s1)[k := w]\<rparr>))"

definition readInformation :: "'d portio \<Rightarrow> ('d, 'z) resume \<Rightarrow> bool \<Rightarrow> bool \<Rightarrow> ('d, 'z) dsk_scheme \<Rightarrow>
    (bool \<times> ('d, 'z) dsk_scheme) option" where
  "readInformation io rs isPrimary isMaster s = do {
     s1 \<leftarrow> lockDisk rs s;
     (idle, s2) \<leftarrow> waitNoBusy io isPrimary s1;
     if \<not> idle then map_option (Pair False) (unlockDisk s2)
     else do {
       (ready, s3) \<leftarrow> waitReady io isPrimary (setPort io (portOf isPrimary DRIVE_AND_HEADER) (driveFlag isMaster) s2);
       if \<not> ready then map_option (Pair False) (unlockDisk s3)
       else do {
         let s4 = setPort io (portOf isPrimary COMMAND) COMMAND_DRIVE_IDENTIFY (clearDiskInterruptFlag isPrimary s3);
         (request, s5) \<leftarrow> waitDataRequest io isPrimary s4;
         if \<not> request then map_option (Pair False) (unlockDisk s5)
         else map_option (Pair True) (unlockDisk (info_loop io isPrimary 256 0 s5)) } } }"

primrec read_words :: "'d portio \<Rightarrow> bool \<Rightarrow> nat \<Rightarrow> nat \<Rightarrow> BYTE list \<Rightarrow> ('d, 'z) dsk_scheme \<Rightarrow>
    (BYTE list \<times> ('d, 'z) dsk_scheme) option" where
  "read_words io isPrimary 0 k buf s = Some (buf, s)"
| "read_words io isPrimary (Suc n) k buf s =
     (let (w, s1) = getPortWord io (portOf isPrimary DATA) s
      in do { buf' \<leftarrow> put_word buf k w; read_words io isPrimary n (Suc k) buf' s1 })"

primrec write_words :: "'d portio \<Rightarrow> bool \<Rightarrow> nat \<Rightarrow> nat \<Rightarrow> BYTE list \<Rightarrow> ('d, 'z) dsk_scheme \<Rightarrow>
    ('d, 'z) dsk_scheme option" where
  "write_words io isPrimary 0 k buf s = Some s"
| "write_words io isPrimary (Suc n) k buf s =
     do { w \<leftarrow> get_word buf k;
          write_words io isPrimary n (Suc k) buf (setPortWord io (portOf isPrimary DATA) w s) }"

text \<open>The loops over the sectors: \<open>n\<close> sectors are left, \<open>i\<close> are done. The result is the number
  of sectors transferred.\<close>

primrec read_loop :: "'d portio \<Rightarrow> ('d, 'z) resume \<Rightarrow> bool \<Rightarrow> nat \<Rightarrow> nat \<Rightarrow> BYTE list \<Rightarrow> ('d, 'z) dsk_scheme \<Rightarrow>
    (nat \<times> BYTE list \<times> ('d, 'z) dsk_scheme) option" where
  "read_loop io rs isPrimary 0 i buf s = Some (i, buf, s)"
| "read_loop io rs isPrimary (Suc n) i buf s = do {
     (occured, s1) \<leftarrow> waitInterrupt io rs isPrimary s;
     if \<not> occured then Some (i, buf, s1)
     else do {
       let (status, s2) = getPort io (portOf isPrimary STATUS) (clearDiskInterruptFlag isPrimary s1);
       if status AND STATUS_ERR \<noteq> 0 then Some (i, buf, s2)
       else do {
         (buf', s3) \<leftarrow> read_words io isPrimary 256 (i * 256) buf s2;
         read_loop io rs isPrimary n (Suc i) buf' s3 } } }"

primrec write_loop :: "'d portio \<Rightarrow> ('d, 'z) resume \<Rightarrow> bool \<Rightarrow> nat \<Rightarrow> nat \<Rightarrow> BYTE list \<Rightarrow> ('d, 'z) dsk_scheme \<Rightarrow>
    (nat \<times> ('d, 'z) dsk_scheme) option" where
  "write_loop io rs isPrimary 0 i buf s = Some (i, s)"
| "write_loop io rs isPrimary (Suc n) i buf s = do {
     s1 \<leftarrow> write_words io isPrimary 256 (i * 256) buf (clearDiskInterruptFlag isPrimary s);
     (occured, s2) \<leftarrow> waitInterrupt io rs isPrimary s1;
     if \<not> occured then Some (i, s2)
     else do {
       let (status, s3) = getPort io (portOf isPrimary STATUS) s2;
       if status AND STATUS_ERR \<noteq> 0 then Some (i, s3)
       else write_loop io rs isPrimary n (Suc i) buf s3 } }"

text \<open>The count is a signed \<^verbatim>\<open>char\<close>: a negative one transfers nothing.\<close>

definition readSector :: "'d portio \<Rightarrow> ('d, 'z) resume \<Rightarrow> bool \<Rightarrow> bool \<Rightarrow> BYTE \<Rightarrow> DWORD \<Rightarrow> BYTE list \<Rightarrow>
    ('d, 'z) dsk_scheme \<Rightarrow> (int \<times> BYTE list \<times> ('d, 'z) dsk_scheme) option" where
  "readSector io rs isPrimary isMaster sectorCount LBA buf s = do {
     s1 \<leftarrow> lockDisk rs s;
     (sent, s2) \<leftarrow> sendDiskCommand io isPrimary isMaster sectorCount LBA COMMAND_READ s1;
     if \<not> sent then map_option (\<lambda>s3. (0, buf, s3)) (unlockDisk s2)
     else do {
       (i, buf', s3) \<leftarrow> read_loop io rs isPrimary (nat (sint sectorCount)) 0 buf s2;
       s4 \<leftarrow> unlockDisk s3;
       Some (if i < nat (sint sectorCount) then int i else sint sectorCount, buf', s4) } }"

definition writeSector :: "'d portio \<Rightarrow> ('d, 'z) resume \<Rightarrow> bool \<Rightarrow> bool \<Rightarrow> BYTE \<Rightarrow> DWORD \<Rightarrow> BYTE list \<Rightarrow>
    ('d, 'z) dsk_scheme \<Rightarrow> (int \<times> ('d, 'z) dsk_scheme) option" where
  "writeSector io rs isPrimary isMaster sectorCount LBA buf s = do {
     s1 \<leftarrow> lockDisk rs s;
     (sent, s2) \<leftarrow> sendDiskCommand io isPrimary isMaster sectorCount LBA COMMAND_WRITE s1;
     if \<not> sent then map_option (Pair 0) (unlockDisk s2)
     else do {
       (request, s3) \<leftarrow> waitDataRequest io isPrimary s2;
       if \<not> request then map_option (Pair 0) (unlockDisk s3)
       else do {
         (i, s4) \<leftarrow> write_loop io rs isPrimary (nat (sint sectorCount)) 0 buf s3;
         s5 \<leftarrow> unlockDisk s4;
         Some (if i < nat (sint sectorCount) then int i else sint sectorCount, s5) } } }"

definition initDisk :: "'d portio \<Rightarrow> ('d, 'z) resume \<Rightarrow> console \<Rightarrow> ('d, 'z) dsk_scheme \<Rightarrow>
    (console \<times> ('d, 'z) dsk_scheme) option" where
  "initDisk io rs scr s = do {
     let s1 = (initMutex (diskMutex s) s)\<lparr>isPrimaryInterruptOccur := False, isSecondaryInterruptOccur := False\<rparr>;
     let s2 = registerInterruptHandler (IRQ_START_OFFSET + IRQ_DISK1) primaryDiskISR s1;
     let s3 = registerInterruptHandler (IRQ_START_OFFSET + IRQ_DISK2) secondaryDiskISR s2;
     let s4 = setPort io SECONDARY_DIGITAL_OUTPUT 0 (setPort io PRIMARY_DIGITAL_OUTPUT 0 s3);
     (found, s5) \<leftarrow> readInformation io rs FS_PRIMARY FS_MASTER s4;
     if found then Some (scr, s5)
     else map_option (\<lambda>scr'. (scr', s5)) (puts (lit ''Disk identify fail!'') scr) }"

end
