(* ===== verification/DiskOps.thy ===== *)
theory DiskOps
  imports Disk SyncProps FatOps
begin

text \<open>
  The driver on a drive that follows the ATA protocol. \<open>ata\<close> is the protocol's state of one channel
  and \<open>ata_drive\<close> the contract of the device behind the ports: each access is the one of the protocol.
\<close>

section \<open>The protocol of the drive\<close>

text \<open>
  \<open>Fetch\<close> and \<open>Flush\<close> are the busy phases that end with an interrupt: \<open>Fetch lba k\<close> gets sector \<open>lba\<close> of
  the \<open>k\<close> sectors that are left, \<open>Flush lba k\<close> has taken a sector, with \<open>k\<close> left from \<open>lba\<close> on. In
  \<open>DataIn\<close> and \<open>DataOut\<close> the words of a sector, or those the drive identifies itself with, go through the data register.
\<close>

datatype ata_mode = Idle | Fetch nat nat | DataIn nat nat "WORD list" | DataOut nat nat "WORD list" | Flush nat nat

record ata =
  media :: "bool \<Rightarrow> nat \<Rightarrow> BYTE list"
  identity :: "WORD list"
  regCount :: BYTE
  regLow :: BYTE
  regMid :: BYTE
  regHigh :: BYTE
  regDrive :: BYTE
  mode :: ata_mode

definition words_of :: "BYTE list \<Rightarrow> WORD list" where
  "words_of bs = map (\<lambda>j. word_of_nat (le_decode (chunk (2 * j) 2 bs))) [0..<256]"

definition bytes_of :: "WORD list \<Rightarrow> BYTE list" where
  "bytes_of ws = concat (map (\<lambda>w. le_encode 2 (unat w)) ws)"

definition slave :: "ata \<Rightarrow> bool" where
  "slave a \<longleftrightarrow> regDrive a AND 0x10 \<noteq> 0"

definition ata_lba :: "ata \<Rightarrow> nat" where
  "ata_lba a = unat (regLow a) + 2 ^ 8 * unat (regMid a) + 2 ^ 16 * unat (regHigh a) + 2 ^ 24 * unat (regDrive a AND 0x0F)"

definition ata_command :: "BYTE \<Rightarrow> ata \<Rightarrow> ata" where
  "ata_command c a =
     (if c = 0x20 then a\<lparr>mode := Fetch (ata_lba a) (unat (regCount a))\<rparr>
      else if c = 0x30 then a\<lparr>mode := DataOut (ata_lba a) (unat (regCount a)) []\<rparr>
      else if c = 0xEC then a\<lparr>mode := DataIn 0 0 (identity a)\<rparr>
      else a)"

definition ata_status :: "ata \<Rightarrow> BYTE" where
  "ata_status a = (case mode a of Idle \<Rightarrow> 0x40 | DataIn _ _ _ \<Rightarrow> 0x48 | DataOut _ _ _ \<Rightarrow> 0x48 | _ \<Rightarrow> 0x80)"

definition ata_out :: "WORD \<Rightarrow> BYTE \<Rightarrow> ata \<Rightarrow> ata" where
  "ata_out port b a =
     (if port = 0x1F2 then a\<lparr>regCount := b\<rparr>
      else if port = 0x1F3 then a\<lparr>regLow := b\<rparr>
      else if port = 0x1F4 then a\<lparr>regMid := b\<rparr>
      else if port = 0x1F5 then a\<lparr>regHigh := b\<rparr>
      else if port = 0x1F6 then a\<lparr>regDrive := b\<rparr>
      else if port = 0x1F7 then ata_command b a
      else a)"

definition set_sector :: "nat \<Rightarrow> BYTE list \<Rightarrow> ata \<Rightarrow> ata" where
  "set_sector lba bs a = a\<lparr>media := (media a)(slave a := (media a (slave a))(lba := bs))\<rparr>"

fun ata_read_data :: "ata \<Rightarrow> WORD \<times> ata" where
  "ata_read_data a = (case mode a of
     DataIn lba k (w # ws) \<Rightarrow>
       (w, a\<lparr>mode := (if ws \<noteq> [] then DataIn lba k ws else if k \<le> 1 then Idle else Fetch (lba + 1) (k - 1))\<rparr>)
   | _ \<Rightarrow> (0, a))"

fun ata_write_data :: "WORD \<Rightarrow> ata \<Rightarrow> ata" where
  "ata_write_data w a = (case mode a of
     DataOut lba k ws \<Rightarrow>
       (if length ws < 255 then a\<lparr>mode := DataOut lba k (ws @ [w])\<rparr>
        else (set_sector lba (bytes_of (ws @ [w])) a)\<lparr>mode := Flush (lba + 1) (k - 1)\<rparr>)
   | _ \<Rightarrow> a)"

text \<open>The end of a busy phase, at which the drive requests the interrupt.\<close>

definition ata_complete :: "ata \<Rightarrow> ata" where
  "ata_complete a = (case mode a of
     Fetch lba k \<Rightarrow> a\<lparr>mode := DataIn lba k (words_of (media a (slave a) lba))\<rparr>
   | Flush lba k \<Rightarrow> a\<lparr>mode := (if k = 0 then Idle else DataOut lba k [])\<rparr>
   | _ \<Rightarrow> a)"

lemma set_sector_sel [simp]:
  "slave (set_sector lba bs a) = slave a" "mode (set_sector lba bs a) = mode a"
  "media (set_sector lba bs a) (slave a) = (media a (slave a))(lba := bs)"
  by (simp_all add: set_sector_def slave_def)

lemma slave_mode [simp]: "slave (a\<lparr>mode := x\<rparr>) = slave a"
  by (simp add: slave_def)

lemma words_bytes: "length bs = 512 \<Longrightarrow> bytes_of (words_of bs) = bs"
proof -
  assume l: "length bs = 512"
  have w: "le_encode 2 (unat (word_of_nat (le_decode (chunk (2 * j) 2 bs)) :: WORD)) = chunk (2 * j) 2 bs" if "j < 256" for j
  proof -
    have "length (chunk (2 * j) 2 bs) = 2" using that l by simp
    moreover from this have "le_decode (chunk (2 * j) 2 bs) < 2 ^ 16" using le_decode_bound [of "chunk (2 * j) 2 bs"] by simp
    ultimately show ?thesis by (simp add: unat_of_nat)
  qed
  have "bytes_of (words_of bs) = concat (map (\<lambda>j. chunk (2 * j) 2 bs) [0..<256])"
    unfolding bytes_of_def words_of_def map_map o_def
    by (rule arg_cong [where f = concat], rule map_cong) (simp_all add: w)
  moreover have "concat (map (\<lambda>j. chunk (2 * j) 2 bs) [0..<n]) = take (2 * n) bs" if "2 * n \<le> length bs" for n
    using that
  proof (induction n)
    case (Suc n)
    then show ?case by (simp add: chunk_def take_add [symmetric] add.commute)
  qed simp
  ultimately show "bytes_of (words_of bs) = bs" using l by simp
qed

lemma length_bytes_of [simp]: "length (bytes_of ws) = 2 * length ws"
  by (induction ws) (simp_all add: bytes_of_def)

lemma length_words_of [simp]: "length (words_of bs) = 256"
  by (simp add: words_of_def)

section \<open>The contract of the drive\<close>

locale ata_drive =
  fixes io :: "'d portio"
    and drv :: "'d \<Rightarrow> ata"
  assumes out_law: "port \<in> {0x1F2, 0x1F3, 0x1F4, 0x1F5, 0x1F6, 0x1F7, 0x20, 0x21, 0xA0, 0xA1, 0x40, 0x43} \<Longrightarrow>
      drv (out_byte io port b d) = ata_out port b (drv d)"
    and control_law: "drv (out_byte io 0x3F6 0 d) = drv d" "drv (out_byte io 0x376 0 d) = drv d"
    and status_law: "fst (in_byte io 0x1F7 d) = ata_status (drv d)" "drv (snd (in_byte io 0x1F7 d)) = drv d"
    and timer_law: "drv (snd (in_byte io 0x40 d)) = drv d"
    and data_in_law: "fst (in_word io 0x1F0 d) = fst (ata_read_data (drv d))"
      "drv (snd (in_word io 0x1F0 d)) = snd (ata_read_data (drv d))"
    and data_out_law: "drv (out_word io 0x1F0 w d) = ata_write_data w (drv d)"
begin

text \<open>Every poll leaves the protocol's state alone.\<close>

lemma stopwatch_frame: "\<exists>w d. startStopwatch io s = (w, s\<lparr>dev := d\<rparr>) \<and> drv d = drv (dev s)"
  by (auto simp: startStopwatch_def readCounter0_def setPort_def getPort_def case_prod_beta Let_def
      timer_law out_law ata_out_def)

lemma status_read:
  "\<exists>d. getPort io (portOf True STATUS) s = (ata_status (drv (dev s)), s\<lparr>dev := d\<rparr>) \<and> drv d = drv (dev s)"
  by (auto simp: getPort_def case_prod_beta portOf_def portAddress_def disk_ports disk_regs status_law Let_def)

lemma waitStatus_ok:
  assumes "ata_status (drv (dev s)) AND msk = v"
  shows "\<exists>d. waitStatus io True msk v s = Some (True, s\<lparr>dev := d\<rparr>) \<and> drv d = drv (dev s)"
proof -
  obtain w d where w: "startStopwatch io s = (w, s\<lparr>dev := d\<rparr>)" "drv d = drv (dev s)" using stopwatch_frame by metis
  obtain d' where d': "getPort io (portOf True STATUS) (s\<lparr>dev := d\<rparr>) = (ata_status (drv (dev s)), s\<lparr>dev := d'\<rparr>)"
    "drv d' = drv (dev s)" using status_read [of "s\<lparr>dev := d\<rparr>"] w(2) by auto
  show ?thesis using w(1) d' assms
    by (intro exI [of _ d']) (simp add: waitStatus_def status_loop.simps)
qed

lemma waitDataRequest_ok:
  assumes "mode (drv (dev s)) = DataOut lba k ws \<or> mode (drv (dev s)) = DataIn lba k ws"
  shows "\<exists>d. waitDataRequest io True s = Some (True, s\<lparr>dev := d\<rparr>) \<and> drv d = drv (dev s)"
proof -
  obtain w d where w: "startStopwatch io s = (w, s\<lparr>dev := d\<rparr>)" "drv d = drv (dev s)" using stopwatch_frame by metis
  obtain d' where d': "getPort io (portOf True STATUS) (s\<lparr>dev := d\<rparr>) = (ata_status (drv (dev s)), s\<lparr>dev := d'\<rparr>)"
    "drv d' = drv (dev s)" using status_read [of "s\<lparr>dev := d\<rparr>"] w(2) by auto
  have "ata_status (drv (dev s)) = 0x48" using assms by (auto simp: ata_status_def)
  then show ?thesis using w(1) d'
    by (intro exI [of _ d']) (simp add: waitDataRequest_def request_loop.simps disk_const)
qed

lemma setPort_abs:
  "r \<in> {SECTOR_COUNT, SECTOR_NUMBER, CYLINDER_LSB, CYLINDER_MSB, DRIVE_AND_HEADER, COMMAND} \<Longrightarrow>
   \<exists>d. setPort io (portOf True r) b s = s\<lparr>dev := d\<rparr> \<and> drv d = ata_out (portOf True r) b (drv (dev s))"
  by (auto simp: setPort_def portOf_def portAddress_def disk_ports disk_regs out_law)

end

text \<open>The four bytes of the sector number, in the task file.\<close>

lemma drive_byte:
  fixes b :: BYTE
  shows "(0xF0 OR (b AND 0x0F)) AND 0x0F = b AND 0x0F" "(0xF0 OR (b AND 0x0F)) AND 0x10 \<noteq> 0"
proof -
  show "(0xF0 OR (b AND 0x0F)) AND 0x0F = b AND 0x0F"
    by (simp add: bit.conj_disj_distrib2 and.assoc)
  have "(0xF0 OR (b AND 0x0F)) AND 0x10 = (0x10 :: BYTE)"
    by (simp add: bit.conj_disj_distrib2 and.assoc)
  then show "(0xF0 OR (b AND 0x0F)) AND 0x10 \<noteq> 0" by simp
qed

lemma lba_bytes:
  assumes "unat (L :: DWORD) < 2 ^ 28"
  shows "unat (ucast L :: BYTE) + 2 ^ 8 * unat (ucast (drop_bit 8 L) :: BYTE) + 2 ^ 16 * unat (ucast (drop_bit 16 L) :: BYTE) +
    2 ^ 24 * unat ((ucast (drop_bit 24 L) :: BYTE) AND 0x0F) = unat L"
proof -
  define n where "n = unat L"
  have b: "unat (ucast (drop_bit k L) :: BYTE) = n div 2 ^ k mod 256" for k
  proof -
    have "unat (drop_bit k L) = n div 2 ^ k" 
      by (simp only: unat_drop_bit_eq n_def) (simp only: drop_bit_eq_div)
    then show ?thesis by (simp add: unsigned_ucast_eq take_bit_eq_mod)
  qed
  have b0: "unat (ucast L :: BYTE) = n mod 256" by (simp add: n_def unsigned_ucast_eq take_bit_eq_mod)
  have "unat ((ucast (drop_bit 24 L) :: BYTE) AND 0x0F) = unat (ucast (drop_bit 24 L) :: BYTE) mod 16"
  proof -
    have "(ucast (drop_bit 24 L) :: BYTE) AND 0x0F = take_bit 4 (ucast (drop_bit 24 L))"
      by (simp add: take_bit_eq_mask mask_eq_exp_minus_1)
    then show ?thesis by (simp add: unsigned_take_bit_eq) (simp add: take_bit_eq_mod)
  qed
  moreover have "n div 2 ^ 24 < 16" using assms by (simp add: n_def less_mult_imp_div_less)
  moreover have "n div 2 ^ 8 div 2 ^ 8 = n div 2 ^ 16" "n div 2 ^ 16 div 2 ^ 8 = n div 2 ^ 24"
    by (simp_all only: div_mult2_eq [symmetric]) simp_all
  ultimately have eqs: "n div 2 ^ 24 mod 256 mod 16 = n div 2 ^ 24" "n div 2 ^ 8 = 256 * (n div 2 ^ 16) + n div 2 ^ 8 mod 256"
    "n div 2 ^ 16 = 256 * (n div 2 ^ 24) + n div 2 ^ 16 mod 256"
    and top: "unat ((ucast (drop_bit 24 L) :: BYTE) AND 0x0F) = n div 2 ^ 24"
    using mult_div_mod_eq [of 256 "n div 2 ^ 8"] mult_div_mod_eq [of 256 "n div 2 ^ 16"] by (simp_all add: b)
  have "n = 256 * (n div 2 ^ 8) + n mod 256" using mult_div_mod_eq [of 256 n] by simp
  with eqs(2,3) have "n = n mod 256 + 256 * (n div 2 ^ 8 mod 256) + 65536 * (n div 2 ^ 16 mod 256) + 16777216 * (n div 2 ^ 24)"
    by linarith
  then show ?thesis unfolding b b0 top n_def [symmetric] by simp
qed

context ata_drive
begin

lemma sendDiskCommand_ok:
  assumes idle: "mode (drv (dev s)) = Idle" and lba: "unat L < 2 ^ 28"
  obtains d a where "sendDiskCommand io True False n L c s = Some (True, s\<lparr>dev := d, isPrimaryInterruptOccur := False\<rparr>)"
    "drv d = ata_command c a" "media a = media (drv (dev s))" "slave a" "ata_lba a = unat L" "regCount a = n"
proof -
  obtain d0 where d0: "waitNoBusy io True s = Some (True, s\<lparr>dev := d0\<rparr>)" "drv d0 = drv (dev s)"
    using waitStatus_ok [of s STATUS_BSY 0] idle by (auto simp: waitNoBusy_def ata_status_def disk_const)
  obtain d1 where d1: "setPort io (portOf True SECTOR_COUNT) n (s\<lparr>dev := d0\<rparr>) = s\<lparr>dev := d1\<rparr>"
    "drv d1 = (drv (dev s))\<lparr>regCount := n\<rparr>"
    using setPort_abs [of SECTOR_COUNT n "s\<lparr>dev := d0\<rparr>"] d0(2)
    by (auto simp: ata_out_def portOf_def portAddress_def disk_ports disk_regs)
  obtain d2 where d2: "setPort io (portOf True SECTOR_NUMBER) (ucast L) (s\<lparr>dev := d1\<rparr>) = s\<lparr>dev := d2\<rparr>"
    "drv d2 = (drv d1)\<lparr>regLow := ucast L\<rparr>"
    using setPort_abs [of SECTOR_NUMBER "ucast L" "s\<lparr>dev := d1\<rparr>"]
    by (auto simp: ata_out_def portOf_def portAddress_def disk_ports disk_regs)
  obtain d3 where d3: "setPort io (portOf True CYLINDER_LSB) (ucast (drop_bit 8 L)) (s\<lparr>dev := d2\<rparr>) = s\<lparr>dev := d3\<rparr>"
    "drv d3 = (drv d2)\<lparr>regMid := ucast (drop_bit 8 L)\<rparr>"
    using setPort_abs [of CYLINDER_LSB "ucast (drop_bit 8 L)" "s\<lparr>dev := d2\<rparr>"]
    by (auto simp: ata_out_def portOf_def portAddress_def disk_ports disk_regs)
  obtain d4 where d4: "setPort io (portOf True CYLINDER_MSB) (ucast (drop_bit 16 L)) (s\<lparr>dev := d3\<rparr>) = s\<lparr>dev := d4\<rparr>"
    "drv d4 = (drv d3)\<lparr>regHigh := ucast (drop_bit 16 L)\<rparr>"
    using setPort_abs [of CYLINDER_MSB "ucast (drop_bit 16 L)" "s\<lparr>dev := d3\<rparr>"]
    by (auto simp: ata_out_def portOf_def portAddress_def disk_ports disk_regs)
  let ?h = "0xF0 OR (ucast (drop_bit 24 L) AND 0x0F) :: BYTE"
  have h: "(driveFlag False AND 0xF0) OR (ucast (drop_bit 24 L) AND 0x0F) = ?h"
    by (simp add: driveFlag_def disk_const)
  obtain d5 where d5: "setPort io (portOf True DRIVE_AND_HEADER) ?h (s\<lparr>dev := d4\<rparr>) = s\<lparr>dev := d5\<rparr>"
    "drv d5 = (drv d4)\<lparr>regDrive := ?h\<rparr>"
    using setPort_abs [of DRIVE_AND_HEADER ?h "s\<lparr>dev := d4\<rparr>"]
    by (auto simp: ata_out_def portOf_def portAddress_def disk_ports disk_regs)
  have m: "mode (drv d5) = Idle" using idle d1(2) d2(2) d3(2) d4(2) d5(2) by simp
  obtain d6 where d6: "waitReady io True (s\<lparr>dev := d5\<rparr>) = Some (True, s\<lparr>dev := d6\<rparr>)" "drv d6 = drv d5"
    using waitStatus_ok [of "s\<lparr>dev := d5\<rparr>" STATUS_DRDY STATUS_DRDY] m by (auto simp: waitReady_def ata_status_def disk_const)
  let ?s6 = "s\<lparr>dev := d6, isPrimaryInterruptOccur := False\<rparr>"
  obtain d7 where d7': "setPort io (portOf True COMMAND) c ?s6 = ?s6\<lparr>dev := d7\<rparr>"
    "drv d7 = ata_out (portOf True COMMAND) c (drv (dev ?s6))"
    using setPort_abs [of COMMAND c ?s6] by blast
  have d7: "setPort io (portOf True COMMAND) c ?s6 = s\<lparr>dev := d7, isPrimaryInterruptOccur := False\<rparr>"
    "drv d7 = ata_command c (drv d5)"
    using d7' d6(2) by (simp_all add: ata_out_def portOf_def portAddress_def disk_ports disk_regs)
  have "sendDiskCommand io True False n L c s = Some (True, s\<lparr>dev := d7, isPrimaryInterruptOccur := False\<rparr>)"
    using d0(1) d1(1) d2(1) d3(1) d4(1) d5(1) d6(1) d7(1)
    by (simp add: sendDiskCommand_def h clearDiskInterruptFlag_def Let_def)
  moreover have "slave (drv d5)" using d5(2) drive_byte(2) by (simp add: slave_def)
  moreover have "ata_lba (drv d5) = unat L"
    using lba_bytes [OF lba] d1(2) d2(2) d3(2) d4(2) d5(2) by (simp add: ata_lba_def drive_byte(1))
  ultimately show thesis using d7(2) d1(2) d2(2) d3(2) d4(2) d5(2) by (intro that [of d7 "drv d5"]) simp_all
qed

end

section \<open>Words through the data port\<close>

lemma splice_splice:
  "i + length xs + length ys \<le> length buf \<Longrightarrow>
   splice_at (splice_at buf i xs) (i + length xs) ys = splice_at buf i (xs @ ys)"
  by (rule nth_equalityI) (auto simp: nth_splice_at nth_append)

definition buffer_words :: "BYTE list \<Rightarrow> nat \<Rightarrow> nat \<Rightarrow> WORD list" where
  "buffer_words buf j n = map (\<lambda>i. word_of_nat (le_decode (chunk (2 * i) 2 buf))) [j..<j + n]"

lemma buffer_words_Suc:
  "buffer_words buf j (Suc n) = word_of_nat (le_decode (chunk (2 * j) 2 buf)) # buffer_words buf (Suc j) n"
  by (simp add: buffer_words_def upt_conv_Cons del: upt_Suc)

lemma chunk_chunk: "j + m \<le> n \<Longrightarrow> chunk j m (chunk i n xs) = chunk (i + j) m xs"
  by (simp add: chunk_def drop_take min_def add.commute)

lemma buffer_sector:
  assumes "512 * (i + 1) \<le> length buf"
  shows "bytes_of (buffer_words buf (i * 256) 256) = chunk (512 * i) 512 buf"
proof -
  let ?c = "chunk (512 * i) 512 buf"
  have "buffer_words buf (i * 256) 256 = words_of ?c"
    unfolding buffer_words_def words_of_def
    by (rule nth_equalityI) (simp_all add: chunk_chunk algebra_simps)
  then show ?thesis using words_bytes [of ?c] assms by simp
qed

context ata_drive
begin

lemma data_port: "portOf True DATA = 0x1F0"
  by (simp add: portOf_def portAddress_def disk_ports disk_regs)

lemma read_words_ok:
  "mode (drv (dev s)) = DataIn lba k ws \<Longrightarrow> ws \<noteq> [] \<Longrightarrow> 2 * (j + length ws) \<le> length buf \<Longrightarrow>
   \<exists>d. read_words io True (length ws) j buf s = Some (splice_at buf (2 * j) (bytes_of ws), s\<lparr>dev := d\<rparr>) \<and>
     drv d = (drv (dev s))\<lparr>mode := (if k \<le> 1 then Idle else Fetch (lba + 1) (k - 1))\<rparr>"
proof (induction ws arbitrary: j buf s)
  case (Cons w ws)
  let ?a = "drv (dev s)" and ?b = "splice_at buf (2 * j) (le_encode 2 (unat w))"
  define d where "d = snd (in_word io 0x1F0 (dev s))"
  have r: "getPortWord io 0x1F0 s = (w, s\<lparr>dev := d\<rparr>)"
    using data_in_law(1) [of "dev s"] Cons.prems(1) by (simp add: getPortWord_def d_def case_prod_beta)
  have a: "drv d = ?a\<lparr>mode := (if ws \<noteq> [] then DataIn lba k ws else if k \<le> 1 then Idle else Fetch (lba + 1) (k - 1))\<rparr>"
    using data_in_law(2) [of "dev s"] Cons.prems(1) by (simp add: d_def)
  have len: "length ?b = length buf" "2 * j + 2 \<le> length buf" using Cons.prems(3) by simp_all
  have sp: "splice_at ?b (2 * Suc j) (bytes_of ws) = splice_at buf (2 * j) (bytes_of (w # ws))"
    using splice_splice [of "2 * j" "le_encode 2 (unat w)" "bytes_of ws" buf] Cons.prems(3)
    by (simp add: bytes_of_def [of "w # ws"] bytes_of_def [of ws, symmetric] length_bytes_of [symmetric] del: length_bytes_of)
  show ?case
  proof (cases "ws = []")
    case True
    then show ?thesis using r a len(2)
      by (intro exI [of _ d]) (simp add: data_port put_word_def bytes_of_def)
  next
    case False
    have m: "mode (drv (dev (s\<lparr>dev := d\<rparr>))) = DataIn lba k ws" using a False by simp
    from Cons.IH [OF m False, of "Suc j" ?b] Cons.prems(3) len(1) obtain d' where
      "read_words io True (length ws) (Suc j) ?b (s\<lparr>dev := d\<rparr>) = Some (splice_at ?b (2 * Suc j) (bytes_of ws), s\<lparr>dev := d'\<rparr>)"
      "drv d' = (drv d)\<lparr>mode := (if k \<le> 1 then Idle else Fetch (lba + 1) (k - 1))\<rparr>" by auto
    then show ?thesis using r a len(2) sp
      by (intro exI [of _ d']) (simp add: data_port put_word_def)
  qed
qed simp

lemma write_words_ok:
  "mode (drv (dev s)) = DataOut lba k ws \<Longrightarrow> length ws + n = 256 \<Longrightarrow> 0 < n \<Longrightarrow> 2 * (j + n) \<le> length buf \<Longrightarrow>
   \<exists>d. write_words io True n j buf s = Some (s\<lparr>dev := d\<rparr>) \<and>
     drv d = (set_sector lba (bytes_of (ws @ buffer_words buf j n)) (drv (dev s)))\<lparr>mode := Flush (lba + 1) (k - 1)\<rparr>"
proof (induction n arbitrary: j ws s)
  case (Suc n)
  let ?a = "drv (dev s)" and ?w = "word_of_nat (le_decode (chunk (2 * j) 2 buf)) :: WORD"
  define d where "d = out_word io 0x1F0 ?w (dev s)"
  have r: "setPortWord io 0x1F0 ?w s = s\<lparr>dev := d\<rparr>" by (simp add: setPortWord_def d_def)
  have g: "get_word buf j = Some ?w" using Suc.prems(4) by (simp add: get_word_def)
  have a: "drv d = ata_write_data ?w ?a" by (simp add: d_def data_out_law)
  show ?case
  proof (cases "n = 0")
    case True
    then show ?thesis using r g a Suc.prems(1,2)
      by (intro exI [of _ d]) (simp add: data_port buffer_words_def)
  next
    case False
    then have l: "length ws < 255" using Suc.prems(2) by simp
    then have a': "drv d = ?a\<lparr>mode := DataOut lba k (ws @ [?w])\<rparr>" using a Suc.prems(1) by simp
    then have m: "mode (drv (dev (s\<lparr>dev := d\<rparr>))) = DataOut lba k (ws @ [?w])" by simp
    have sl: "(set_sector lba bs (drv d))\<lparr>mode := x\<rparr> = (set_sector lba bs ?a)\<lparr>mode := x\<rparr>" for bs x
      unfolding a' by (simp add: set_sector_def slave_def)
    from Suc.IH [OF m, of "Suc j"] False Suc.prems(2,4) obtain d' where
      "write_words io True n (Suc j) buf (s\<lparr>dev := d\<rparr>) = Some (s\<lparr>dev := d'\<rparr>)"
      "drv d' = (set_sector lba (bytes_of ((ws @ [?w]) @ buffer_words buf (Suc j) n)) (drv d))\<lparr>mode := Flush (lba + 1) (k - 1)\<rparr>"
      by auto
    then show ?thesis using r g a' sl
      by (intro exI [of _ d']) (simp add: data_port buffer_words_Suc)
  qed
qed simp

end

section \<open>The processor while a process waits\<close>

text \<open>Process \<open>p\<close> runs and may block; the mutexes \<open>U\<close> are in order.\<close>

definition runs :: "ptr set \<Rightarrow> ptr \<Rightarrow> ('d, 'z) dsk_scheme \<Rightarrow> bool" where
  "runs U p s \<longleftrightarrow> (\<exists>wl. locks_rel U s wl) \<and> diskMutex s \<in> U \<and> runningProcess s = p \<and> may_block s \<and>
     length (cpu s) = 24 \<and> unat (tickCount s) < 2 ^ 63"

definition lock_owner :: "('d, 'z) dsk_scheme \<Rightarrow> int" where
  "lock_owner s = owner (mutexes s (diskMutex s))"

definition holds_lock :: "('d, 'z) dsk_scheme \<Rightarrow> bool" where
  "holds_lock s \<longleftrightarrow> lock_owner s = getRunningPid s \<and> mcount (mutexes s (diskMutex s)) = 1"

definition disk_same :: "('d, 'z) dsk_scheme \<Rightarrow> ('d, 'z) dsk_scheme \<Rightarrow> bool" where
  "disk_same s s' \<longleftrightarrow> diskMutex s' = diskMutex s \<and> diskInfo s' = diskInfo s"

lemma interrupts_setIf:
  assumes "length (cpu s) = 24"
  shows "interrupts_on (snd (setIf b s)) = b" "length (cpu (snd (setIf b s))) = 24"
proof -
  let ?f = "cpu s ! REG_RFLAGS"
  have "(?f OR RFLAGS_IF) AND RFLAGS_IF \<noteq> 0" "(?f AND NOT RFLAGS_IF) AND RFLAGS_IF = 0"
  proof -
    have b: "RFLAGS_IF = 2 ^ 9" by (simp add: RFLAGS_IF_def)
    show "(?f OR RFLAGS_IF) AND RFLAGS_IF \<noteq> 0" unfolding b and_exp_eq_0_iff_not_bit by (simp add: bit_simps)
    show "(?f AND NOT RFLAGS_IF) AND RFLAGS_IF = 0" unfolding b and_exp_eq_0_iff_not_bit by (simp add: bit_simps)
  qed
  then show "interrupts_on (snd (setIf b s)) = b"
    using assms by (simp add: setIf_def interrupts_on_def enableInterrupt_def disableInterrupt_def REG_RFLAGS_def)
  show "length (cpu (snd (setIf b s))) = 24"
    using assms by (simp add: setIf_def enableInterrupt_def disableInterrupt_def)
qed

lemma setIf_disk [simp]:
  "dev (snd (setIf b s)) = dev s" "runningProcess (snd (setIf b s)) = runningProcess s"
  "idleProcess (snd (setIf b s)) = idleProcess s" "collectorProcess (snd (setIf b s)) = collectorProcess s"
  "tickCount (snd (setIf b s)) = tickCount s" "proc.more (snd (setIf b s)) = proc.more s"
  "counter0Reload (snd (setIf b s)) = counter0Reload s"
  by (simp_all add: setIf_def enableInterrupt_def disableInterrupt_def)

text \<open>What releasing a mutex leaves alone.\<close>

definition lock_frame :: "('d, 'z) ksync_scheme \<Rightarrow> ('d, 'z) ksync_scheme \<Rightarrow> bool" where
  "lock_frame s s' \<longleftrightarrow> dev s' = dev s \<and> runningProcess s' = runningProcess s \<and> idleProcess s' = idleProcess s \<and>
     collectorProcess s' = collectorProcess s \<and> tickCount s' = tickCount s \<and> counter0Reload s' = counter0Reload s \<and>
     ksync.more s' = ksync.more s \<and>
     (length (cpu s) = 24 \<longrightarrow> length (cpu s') = 24 \<and> interrupts_on s' = interrupts_on s)"

lemma more_ksync: "proc.more s' = proc.more s \<Longrightarrow> ksync.more s' = ksync.more s"
  by (cases s; cases s') simp

lemma wakeup_frame:
  assumes "wakeupProcess p s = Some (b, s')"
  shows "dev s' = dev s" "runningProcess s' = runningProcess s" "idleProcess s' = idleProcess s"
    "collectorProcess s' = collectorProcess s" "tickCount s' = tickCount s" "proc.more s' = proc.more s" "cpu s' = cpu s"
    "counter0Reload s' = counter0Reload s"
  using assms
  by (auto simp: wakeupProcess_def insert_ready_def set_state_def upd_pcb_def Let_def
      split: if_splits bind_splits prod.splits)

lemma setIf_lock_frame:
  assumes "dev t = dev s" "runningProcess t = runningProcess s" "idleProcess t = idleProcess s"
    "collectorProcess t = collectorProcess s" "tickCount t = tickCount s" "ksync.more t = ksync.more s"
    "counter0Reload t = counter0Reload s" "length (cpu s) = 24 \<longrightarrow> length (cpu t) = 24"
  shows "lock_frame s (snd (setIf (interrupts_on s) t))"
  using assms more_ksync [OF setIf_disk(6), of "interrupts_on s" t] interrupts_setIf [of t]
  by (auto simp: lock_frame_def)

lemma release_frame:
  assumes "releaseLock m s = Some s'"
  shows "lock_frame s s'"
proof -
  let ?s1 = "snd (setIf False s)"
  have m1: "ksync.more ?s1 = ksync.more s" by (rule more_ksync) simp
  have l1: "length (cpu s) = 24 \<longrightarrow> length (cpu ?s1) = 24" using interrupts_setIf(2) by blast
  consider (a) "s' = snd (setIf (interrupts_on s) ?s1)"
    | (b) "s' = snd (setIf (interrupts_on s) (upd_mutex m (\<lambda>x. x\<lparr>mcount := mcount x - 1\<rparr>) ?s1))"
    | (c) f g h where "s' = snd (setIf (interrupts_on s) (upd_mutex m f (upd_mutex m g (upd_mutex m (\<lambda>x. x\<lparr>mcount := mcount x - 1\<rparr>) ?s1\<lparr>nodes := h\<rparr>))))"
    | (d) f g h p b s4 where "wakeupProcess p (upd_mutex m f (upd_mutex m g (upd_mutex m (\<lambda>x. x\<lparr>mcount := mcount x - 1\<rparr>) ?s1\<lparr>nodes := h\<rparr>))) = Some (b, s4)"
        "s' = snd (setIf (interrupts_on s) s4)"
    using assms unfolding releaseLock_alt Let_def
    by (auto split: if_splits bind_splits prod.splits option.splits)
  then show ?thesis
  proof cases
    case a
    then show ?thesis using m1 l1 by (auto intro!: setIf_lock_frame)
  next
    case b
    then show ?thesis using m1 l1 by (auto intro!: setIf_lock_frame simp: upd_mutex_def)
  next
    case c
    then show ?thesis using m1 l1 by (auto intro!: setIf_lock_frame simp: upd_mutex_def)
  next
    case d
    note w = wakeup_frame [OF d(1)]
    have "ksync.more s4 = ksync.more s" using more_ksync [OF w(6)] m1 by (simp add: upd_mutex_def)
    then show ?thesis unfolding d(2) using w l1 by (intro setIf_lock_frame) (simp_all add: upd_mutex_def)
  qed
qed

end
