(* ===== verification/DiskTransfers.thy ===== *)
theory DiskTransfers
  imports DiskOps
begin

text \<open>
  Transfers on a working drive: the driver keeps the contract \<open>block_device\<close> of the file system.
\<close>

section \<open>Updates the scheduler does not see\<close>

lemma sched_dev [simp]: "sched_ok (s\<lparr>dev := d\<rparr>) = sched_ok s" "parked (s\<lparr>dev := d\<rparr>) q = parked s q"
  by (simp_all add: parked_def state_of_def sched_ok_def sched_rel_def core_of_def srep_def [abs_def]
      state_of_def [abs_def])

lemma locks_disk_upd [simp]:
  "locks_rel U (s\<lparr>dev := d\<rparr>) wl = locks_rel U s wl"
  "locks_rel U (s\<lparr>isPrimaryInterruptOccur := b\<rparr>) wl = locks_rel U s wl"
  "locks_rel U (s\<lparr>diskWaiter := w\<rparr>) wl = locks_rel U s wl"
  by (simp_all add: locks_rel_def mutex_ok_def parked_def state_of_def sched_ok_def sched_rel_def core_of_def
      srep_def [abs_def] state_of_def [abs_def])

lemma runs_upd [simp]:
  "runs U p (s\<lparr>dev := d\<rparr>) = runs U p s" "runs U p (s\<lparr>isPrimaryInterruptOccur := b\<rparr>) = runs U p s"
  "runs U p (s\<lparr>diskWaiter := w\<rparr>) = runs U p s"
  by (simp_all add: runs_def may_block_def)

lemma holds_upd [simp]:
  "holds_lock (s\<lparr>dev := d\<rparr>) = holds_lock s" "holds_lock (s\<lparr>isPrimaryInterruptOccur := b\<rparr>) = holds_lock s"
  "holds_lock (s\<lparr>diskWaiter := w\<rparr>) = holds_lock s"
  by (simp_all add: holds_lock_def lock_owner_def getRunningPid_def)

lemma interrupts_upd [simp]:
  "interrupts_on (s\<lparr>dev := d\<rparr>) = interrupts_on s"
  "interrupts_on (s\<lparr>isPrimaryInterruptOccur := b\<rparr>) = interrupts_on s"
  "interrupts_on (s\<lparr>diskWaiter := w\<rparr>) = interrupts_on s"
  by (simp_all add: interrupts_on_def)

lemma more_dsk: "proc.more s' = proc.more s \<Longrightarrow> diskMutex s' = diskMutex s \<and> diskInfo s' = diskInfo s \<and>
    isPrimaryInterruptOccur s' = isPrimaryInterruptOccur s \<and> diskWaiter s' = diskWaiter s \<and> mutexes s' = mutexes s"
  by (cases s; cases s') simp

lemma more_dsk': "ksync.more s' = ksync.more s \<Longrightarrow> diskMutex s' = diskMutex s \<and> diskInfo s' = diskInfo s \<and>
    isPrimaryInterruptOccur s' = isPrimaryInterruptOccur s \<and> diskWaiter s' = diskWaiter s"
  by (cases s; cases s') simp

lemma setIf_dsk [simp]:
  "diskMutex (snd (setIf b s)) = diskMutex s" "diskInfo (snd (setIf b s)) = diskInfo s"
  "isPrimaryInterruptOccur (snd (setIf b s)) = isPrimaryInterruptOccur s" "diskWaiter (snd (setIf b s)) = diskWaiter s"
  using more_dsk [OF setIf_disk(6), of b s] by blast+

lemma runs_setIf [simp]: "runs U p s \<Longrightarrow> runs U p (snd (setIf b s))"
  using interrupts_setIf(2) [of s b] by (auto simp: runs_def may_block_def)

lemma holds_setIf [simp]: "holds_lock (snd (setIf b s)) = holds_lock s"
  by (simp add: holds_lock_def lock_owner_def)

lemma disk_same_refl [simp]: "disk_same s s"
  by (simp add: disk_same_def)

lemma disk_same_upd [simp]:
  "disk_same (s\<lparr>dev := d\<rparr>) s' = disk_same s s'" "disk_same s (s'\<lparr>dev := d\<rparr>) = disk_same s s'"
  "disk_same (s\<lparr>isPrimaryInterruptOccur := b\<rparr>) s' = disk_same s s'"
  "disk_same s (s'\<lparr>isPrimaryInterruptOccur := b\<rparr>) = disk_same s s'"
  "disk_same (s\<lparr>diskWaiter := w\<rparr>) s' = disk_same s s'" "disk_same s (s'\<lparr>diskWaiter := w\<rparr>) = disk_same s s'"
  "disk_same (snd (setIf c s)) s' = disk_same s s'" "disk_same s (snd (setIf c s')) = disk_same s s'"
  by (simp_all add: disk_same_def)

lemma disk_same_trans: "disk_same s t \<Longrightarrow> disk_same t u \<Longrightarrow> disk_same s u"
  by (simp add: disk_same_def)

lemma same_pid:
  assumes "sched_ok s" "sched_ok s'" "runningProcess s' = runningProcess s"
  shows "getRunningPid s' = getRunningPid s"
proof -
  obtain k where k: "runningProcess s = pcbAddr k" "getRunningPid s = int k" using running_pid [OF assms(1)] by metis
  obtain k' where k': "runningProcess s' = pcbAddr k'" "getRunningPid s' = int k'" using running_pid [OF assms(2)] by metis
  from k k' assms(3) show ?thesis by (simp add: pcbAddr_def)
qed

section \<open>The driver's mutex\<close>

lemma lock_free:
  assumes r: "runs U p s" and none: "lock_owner s = -1" and other: "lock_owner s \<noteq> getRunningPid s"
  obtains s' where "acquireLock (diskMutex s) s = Some (False, interrupts_on s, s')" "runs U p s'" "holds_lock s'"
    "interrupts_on s' = interrupts_on s" "dev s' = dev s" "disk_same s s'" "counter0Reload s' = counter0Reload s"
proof -
  obtain wl where L: "locks_rel U s wl" and m: "diskMutex s \<in> U" and len: "length (cpu s) = 24"
    using r by (auto simp: runs_def)
  have free: "owner (mutexes s (diskMutex s)) = -1" using none by (simp add: lock_owner_def)
  let ?s1 = "upd_mutex (diskMutex s) (\<lambda>x. x\<lparr>owner := getRunningPid s, mcount := 1\<rparr>) (snd (setIf False s))"
  obtain s' where s': "acquireLock (diskMutex s) s = Some (False, interrupts_on s, s')" "locks_rel U s' wl"
    "mutexes s' = (mutexes s)(diskMutex s := (mutexes s (diskMutex s))\<lparr>owner := getRunningPid s, mcount := 1\<rparr>)"
    "nodes s' = nodes s"
    using acquire_free [OF L m free] by metis
  have "getRunningPid s \<noteq> -1" using other none by simp
  then have e: "s' = snd (setIf (interrupts_on s) ?s1)" using s'(1) free by (simp add: acquireLock_alt Let_def)
  have "lock_frame s s'"
    unfolding e using more_ksync [OF setIf_disk(6), of False s] interrupts_setIf(2) [OF len, of False]
    by (intro setIf_lock_frame) (simp_all add: upd_mutex_def)
  then have fr: "dev s' = dev s" "runningProcess s' = runningProcess s" "idleProcess s' = idleProcess s"
    "collectorProcess s' = collectorProcess s" "tickCount s' = tickCount s" "ksync.more s' = ksync.more s"
    "length (cpu s') = 24" "interrupts_on s' = interrupts_on s" "counter0Reload s' = counter0Reload s"
    using len by (simp_all add: lock_frame_def)
  note D = more_dsk' [OF fr(6)]
  have pid: "getRunningPid s' = getRunningPid s" using s'(4) fr(2) by (simp add: getRunningPid_def)
  have "runs U p s'" using r s'(2) fr D by (auto simp: runs_def may_block_def)
  moreover have "holds_lock s'" using s'(3) D pid by (simp add: holds_lock_def lock_owner_def)
  moreover have "disk_same s s'" using D by (simp add: disk_same_def)
  ultimately show thesis using s'(1) fr(1,8,9) by (intro that [of s']) simp_all
qed

lemma lock_busy:
  assumes r: "runs U p s" and "lock_owner s \<noteq> -1" and "lock_owner s \<noteq> getRunningPid s"
  obtains s1 where "acquireLock (diskMutex s) s = Some (True, interrupts_on s, s1)"
proof -
  obtain wl where L: "locks_rel U s wl" and m: "diskMutex s \<in> U" and may: "may_block s"
    using r by (auto simp: runs_def)
  show thesis using acquire_busy [OF L m may] assms(2,3) that by (auto simp: lock_owner_def)
qed

lemma unlockDisk_ok:
  assumes r: "runs U p s" and h: "holds_lock s"
  obtains s' where "unlockDisk s = Some s'" "runs U p s'" "lock_owner s' \<noteq> getRunningPid s'"
    "interrupts_on s' = interrupts_on s" "dev s' = dev s" "disk_same s s'" "counter0Reload s' = counter0Reload s"
proof -
  let ?m = "diskMutex s"
  obtain wl where L: "locks_rel U s wl" and m: "?m \<in> U" and len: "length (cpu s) = 24" using r by (auto simp: runs_def)
  have ok: "sched_ok s" and mx: "mutex_ok s (mutexes s ?m) (wl ?m)" using L m by (simp_all add: locks_rel_def)
  have own: "owner (mutexes s ?m) = getRunningPid s" and one: "mcount (mutexes s ?m) = 1"
    using h by (simp_all add: holds_lock_def lock_owner_def)
  obtain k where k: "getRunningPid s = int k" using running_pid [OF ok] by metis
  obtain s' wl' where s': "releaseLock ?m s = Some s'" "locks_rel U s' wl'" "owner (mutexes s' ?m) \<noteq> getRunningPid s"
  proof (cases "wl ?m")
    case Nil
    obtain s' where "releaseLock ?m s = Some s'" "locks_rel U s' wl" "owner (mutexes s' ?m) = -1"
      using release_last [OF L m own one Nil] by metis
    moreover have "(-1) \<noteq> getRunningPid s" using k by simp
    ultimately show thesis using that by metis
  next
    case (Cons w ws)
    obtain s' where "releaseLock ?m s = Some s'" "locks_rel U s' (wl(?m := ws))" "owner (mutexes s' ?m) = nid (nodes s w)"
      using release_handoff [OF L m own one Cons] by metis
    moreover have "nid (nodes s w) \<noteq> getRunningPid s" using mx Cons own by (simp add: mutex_ok_def)
    ultimately show thesis using that by metis
  qed
  have fr: "dev s' = dev s" "runningProcess s' = runningProcess s" "idleProcess s' = idleProcess s"
    "collectorProcess s' = collectorProcess s" "tickCount s' = tickCount s" "ksync.more s' = ksync.more s"
    "length (cpu s') = 24" "interrupts_on s' = interrupts_on s" "counter0Reload s' = counter0Reload s"
    using release_frame [OF s'(1)] len by (simp_all add: lock_frame_def)
  note D = more_dsk' [OF fr(6)]
  have "sched_ok s'" using s'(2) by (simp add: locks_rel_def)
  then have pid: "getRunningPid s' = getRunningPid s" by (rule same_pid [OF ok]) (rule fr(2))
  have "runs U p s'" using r s'(2) fr D by (auto simp: runs_def may_block_def)
  then show thesis using s'(1,3) fr D pid by (intro that [of s']) (simp_all add: unlockDisk_def lock_owner_def disk_same_def)
qed

section \<open>Between two transfers\<close>

text \<open>
  The state in which a transfer starts and ends: process \<open>p\<close> runs with interrupts on and does not hold the
  driver's mutex; when nobody does the drive is at rest. \<open>drive_sector\<close> is a sector of the file system's drive.
\<close>

definition disk_good :: "('d \<Rightarrow> ata) \<Rightarrow> ptr set \<Rightarrow> ptr \<Rightarrow> ('d, 'z) dsk_scheme \<Rightarrow> bool" where
  "disk_good drv U p s \<longleftrightarrow> runs U p s \<and> interrupts_on s \<and> lock_owner s \<noteq> getRunningPid s \<and>
     (lock_owner s = -1 \<longrightarrow> mode (drv (dev s)) = Idle) \<and> unat (getTotalSector s) \<le> 2 ^ 28 \<and>
     (\<forall>i < unat (getTotalSector s). length (media (drv (dev s)) True i) = 512)"

definition drive_sector :: "('d \<Rightarrow> ata) \<Rightarrow> ('d, 'z) dsk_scheme \<Rightarrow> nat \<Rightarrow> BYTE list" where
  "drive_sector drv s i = media (drv (dev s)) True i"

section \<open>One sleep\<close>

text \<open>A wait with interrupts on is one sleep when the flag is set at its end; \<open>Q\<close> is what else the system around the process makes true.\<close>

lemma waitInterrupt_once:
  assumes r: "runs U p s" and h: "holds_lock s" and on: "interrupts_on s" and no: "\<not> isPrimaryInterruptOccur s"
    and wake: "\<And>t x y. runs U p x \<Longrightarrow> holds_lock x \<Longrightarrow> \<not> interrupts_on x \<Longrightarrow> diskWaiter x True = p \<Longrightarrow> dev x = dev s \<Longrightarrow>
      tickCount x = tickCount s \<Longrightarrow> disk_same s x \<Longrightarrow> asched_of x = asched_of s \<Longrightarrow> interruptHandlers x = interruptHandlers s \<Longrightarrow>
      tickCount x < t \<Longrightarrow> sleepUntilTick t x = Some y \<Longrightarrow> \<exists>z. rs y = Some z \<and> Q z \<and> isPrimaryInterruptOccur z"
  obtains z where "waitInterrupt io rs True s = Some (True, snd (setIf True (z\<lparr>diskWaiter := (diskWaiter z)(True := NULL)\<rparr>)))" "Q z"
proof -
  have len: "length (cpu s) = 24" "unat (tickCount s) < 2 ^ 63" and run: "runningProcess s = p"
    using r by (simp_all add: runs_def)
  define s1 where "s1 = snd (setIf False s)"
  define t where "t = tickCount s + 100"
  have lt: "tickCount s < t"
  proof -
    have "unat t = unat (tickCount s) + 100" unfolding t_def using len(2) by (subst unat_add_lem [THEN iffD1]) simp_all
    then show ?thesis by (simp add: word_less_nat_alt)
  qed
  have lt': "\<not> t \<le> tickCount s" using lt by (simp only: not_le)
  define s2 where "s2 = s1\<lparr>diskWaiter := (diskWaiter s1)(True := p)\<rparr>"
  have s2: "runs U p s2" "holds_lock s2" "\<not> interrupts_on s2" "diskWaiter s2 True = p" "dev s2 = dev s" "tickCount s2 = tickCount s"
    "disk_same s s2" using r h interrupts_setIf(1) [OF len(1), of False] by (simp_all add: s2_def s1_def)
  have s2': "asched_of s2 = asched_of s" "interruptHandlers s2 = interruptHandlers s"
    by (simp_all add: s2_def s1_def asched_of_def setIf_def disableInterrupt_def)
  have "sched_ok s2" "may_block s2" using s2(1) by (auto simp: runs_def locks_rel_def)
  then obtain s3 where s3: "sleepUntilTick t s2 = Some s3"
    using sleep_parks [of s2 t] by (auto simp: may_block_def)
  obtain z where z: "rs s3 = Some z" "Q z" "isPrimaryInterruptOccur z"
    using wake [OF s2 s2' _ s3] lt s2(6) by auto
  define s5 where "s5 = z\<lparr>diskWaiter := (diskWaiter z)(True := NULL)\<rparr>"
  have w: "waitInterrupt io rs True s = sleep_loop rs True True t s1"
    using on by (simp add: waitInterrupt_def setIf_def s1_def t_def getTickCount_def WAIT_TIMEOUT_MS_def SLOT_TIME_def
        enableInterrupt_def disableInterrupt_def)
  also have "\<dots> = sleep_loop rs True True t s5"
    using no lt' s3 z(1) run
    by (subst sleep_loop.simps) (simp add: occurFlag_def s1_def s2_def s5_def getTickCount_def getRunningProcess_def)
  also have "\<dots> = Some (True, snd (setIf True s5))"
    using z(3) by (subst sleep_loop.simps) (simp add: occurFlag_def s5_def)
  finally show thesis using z(2) by (intro that) (simp_all add: s5_def)
qed

section \<open>The system around the driver\<close>

text \<open>
  What the driver relies on while its process waits. The drive completes and its interrupt is handled
  before the deadline; the owner of the mutex finishes and hands it over, with the drive at rest;
  nobody else writes to the drive in between.
\<close>

locale disk_system = ata_drive io drv
  for io :: "'d portio" and drv :: "'d \<Rightarrow> ata" +
  fixes rs :: "('d, 'z) resume" and U :: "ptr set" and p :: ptr
  assumes wake_disk: "runs U p s \<Longrightarrow> holds_lock s \<Longrightarrow> \<not> interrupts_on s \<Longrightarrow> diskWaiter s True = p \<Longrightarrow>
      mode (drv (dev s)) = Fetch lba k \<or> mode (drv (dev s)) = Flush lba k \<Longrightarrow> tickCount s < t \<Longrightarrow>
      sleepUntilTick t s = Some s1 \<Longrightarrow>
      \<exists>s'. rs s1 = Some s' \<and> runs U p s' \<and> holds_lock s' \<and> \<not> interrupts_on s' \<and> isPrimaryInterruptOccur s' \<and>
        drv (dev s') = ata_complete (drv (dev s)) \<and> disk_same s s'"
    and wake_lock: "runs U p s \<Longrightarrow> lock_owner s \<noteq> -1 \<Longrightarrow> lock_owner s \<noteq> getRunningPid s \<Longrightarrow>
      acquireLock (diskMutex s) s = Some (True, preIf, s1) \<Longrightarrow>
      \<exists>s'. rs s1 = Some s' \<and> runs U p s' \<and> holds_lock s' \<and> mode (drv (dev s')) = Idle \<and>
        media (drv (dev s')) True = media (drv (dev s)) True \<and> disk_same s s'"
begin

lemma waitInterrupt_ok:
  assumes r: "runs U p s" and h: "holds_lock s" and on: "interrupts_on s" and no: "\<not> isPrimaryInterruptOccur s"
    and busy: "mode (drv (dev s)) = Fetch lba k \<or> mode (drv (dev s)) = Flush lba k"
  obtains s' where "waitInterrupt io rs True s = Some (True, s')" "runs U p s'" "holds_lock s'" "interrupts_on s'"
    "drv (dev s') = ata_complete (drv (dev s))" "disk_same s s'"
proof -
  let ?Q = "\<lambda>z. runs U p z \<and> holds_lock z \<and> drv (dev z) = ata_complete (drv (dev s)) \<and> disk_same s z"
  show thesis
  proof (rule waitInterrupt_once [OF r h on no, where Q = ?Q and rs = rs and io = io], goal_cases)
    case (1 t x y)
    then show ?case using wake_disk [OF 1(1-4) _ 1(10,11)] busy disk_same_trans [of s x] by metis
  next
    case (2 z)
    then have "length (cpu (z\<lparr>diskWaiter := (diskWaiter z)(True := NULL)\<rparr>)) = 24" by (simp add: runs_def)
    from interrupts_setIf(1) [OF this, of True] 2 show ?case by (intro that [OF 2(1)]) simp_all
  qed
qed

lemma status_ok:
  assumes "mode (drv (dev s)) = Idle \<or> (\<exists>l k ws. mode (drv (dev s)) = DataIn l k ws \<or> mode (drv (dev s)) = DataOut l k ws)"
  obtains d where "getPort io (portOf True STATUS) s = (ata_status (drv (dev s)), s\<lparr>dev := d\<rparr>)"
    "drv d = drv (dev s)" "ata_status (drv (dev s)) AND STATUS_ERR = 0"
proof -
  have "ata_status (drv (dev s)) AND STATUS_ERR = 0" using assms by (auto simp: ata_status_def disk_const)
  then show thesis using status_read [of s] that by blast
qed

lemma read_loop_ok:
  "runs U p s \<Longrightarrow> holds_lock s \<Longrightarrow> interrupts_on s \<Longrightarrow> \<not> isPrimaryInterruptOccur s \<Longrightarrow>
   mode (drv (dev s)) = (if n = 0 then Idle else Fetch lba n) \<Longrightarrow> slave (drv (dev s)) \<Longrightarrow>
   512 * (i + n) \<le> length buf \<Longrightarrow> (\<And>x. lba \<le> x \<Longrightarrow> x < lba + n \<Longrightarrow> length (media (drv (dev s)) True x) = 512) \<Longrightarrow>
   \<exists>s'. read_loop io rs True n i buf s =
       Some (i + n, splice_at buf (512 * i) (concat (map (media (drv (dev s)) True) [lba..<lba + n])), s') \<and>
     runs U p s' \<and> holds_lock s' \<and> interrupts_on s' \<and> mode (drv (dev s')) = Idle \<and>
     media (drv (dev s')) = media (drv (dev s)) \<and> disk_same s s'"
proof (induction n arbitrary: lba i buf s)
  case 0
  then show ?case by (intro exI [of _ s]) (simp add: splice_at_def)
next
  case (Suc n)
  let ?a = "drv (dev s)" and ?S = "media (drv (dev s)) True"
  have m: "mode ?a = Fetch lba (Suc n)" using Suc.prems(5) by simp
  obtain s1 where s1: "waitInterrupt io rs True s = Some (True, s1)" "runs U p s1" "holds_lock s1" "interrupts_on s1"
    "drv (dev s1) = ata_complete ?a" "disk_same s s1"
    using waitInterrupt_ok [OF Suc.prems(1-4) disjI1, OF m] by metis
  have sec: "length (?S lba) = 512" using Suc.prems(8) by simp
  have a1: "drv (dev s1) = ?a\<lparr>mode := DataIn lba (Suc n) (words_of (?S lba))\<rparr>"
    using s1(5) m Suc.prems(6) by (simp add: ata_complete_def)
  define s2 where "s2 = s1\<lparr>isPrimaryInterruptOccur := False\<rparr>"
  have m2: "mode (drv (dev s2)) = DataIn lba (Suc n) (words_of (?S lba))" using a1 by (simp add: s2_def)
  then obtain d where d: "getPort io (portOf True STATUS) s2 = (ata_status (drv (dev s2)), s2\<lparr>dev := d\<rparr>)"
    "drv d = drv (dev s2)" "ata_status (drv (dev s2)) AND STATUS_ERR = 0"
    using status_ok [of s2] by blast
  define s3 where "s3 = s2\<lparr>dev := d\<rparr>"
  have m3: "mode (drv (dev s3)) = DataIn lba (Suc n) (words_of (?S lba))" using m2 d(2) by (simp add: s3_def)
  have len: "2 * (i * 256 + length (words_of (?S lba))) \<le> length buf" "words_of (?S lba) \<noteq> []"
    using Suc.prems(7) length_words_of [of "?S lba"] by (simp, metis length_0_conv zero_neq_numeral)
  obtain d' where d': "read_words io True 256 (i * 256) buf s3 = Some (splice_at buf (512 * i) (?S lba), s3\<lparr>dev := d'\<rparr>)"
    "drv d' = (drv (dev s3))\<lparr>mode := (if Suc n \<le> 1 then Idle else Fetch (lba + 1) (Suc n - 1))\<rparr>"
    using read_words_ok [OF m3 len(2,1)] words_bytes [OF sec] by (auto simp: mult.commute [of i])
  define s4 where "s4 = s3\<lparr>dev := d'\<rparr>"
  have a4: "drv (dev s4) = ?a\<lparr>mode := (if n = 0 then Idle else Fetch (Suc lba) n)\<rparr>"
    using d'(2) d(2) a1 by (simp add: s4_def s3_def s2_def)
  have s4: "runs U p s4" "holds_lock s4" "interrupts_on s4" "\<not> isPrimaryInterruptOccur s4"
    "mode (drv (dev s4)) = (if n = 0 then Idle else Fetch (Suc lba) n)" "slave (drv (dev s4))" "disk_same s s4"
    "media (drv (dev s4)) = media ?a"
    using s1 Suc.prems(6) a4 by (simp_all add: s4_def s3_def s2_def)
  let ?b = "splice_at buf (512 * i) (?S lba)"
  have lb: "length ?b = length buf" using Suc.prems(7) sec by simp
  have L: "512 * (Suc i + n) \<le> length ?b"
    "\<And>x. Suc lba \<le> x \<Longrightarrow> x < Suc lba + n \<Longrightarrow> length (media (drv (dev s4)) True x) = 512"
    using Suc.prems(7,8) lb s4(8) by simp_all
  from Suc.IH [OF s4(1-6) L] obtain s' where s':
    "read_loop io rs True n (Suc i) ?b s4 =
       Some (Suc i + n, splice_at ?b (512 * Suc i) (concat (map (media (drv (dev s4)) True) [Suc lba..<Suc lba + n])), s')"
    "runs U p s'" "holds_lock s'" "interrupts_on s'" "mode (drv (dev s')) = Idle"
    "media (drv (dev s')) = media (drv (dev s4))" "disk_same s4 s'" by blast
  have cl: "length (concat (map ?S [Suc lba..<Suc lba + n])) = 512 * n"
    using Suc.prems(8) by (subst length_concat_sectors) auto
  have sp: "splice_at ?b (512 * Suc i) (concat (map ?S [Suc lba..<Suc lba + n])) =
      splice_at buf (512 * i) (concat (map ?S [lba..<lba + Suc n]))"
    using splice_splice [of "512 * i" "?S lba" "concat (map ?S [Suc lba..<Suc lba + n])" buf] sec cl Suc.prems(7)
    by (simp add: upt_conv_Cons algebra_simps del: upt_Suc)
  have "read_loop io rs True (Suc n) i buf s = read_loop io rs True n (Suc i) ?b s4"
    using s1(1) d d'(1) by (simp add: clearDiskInterruptFlag_def s2_def [symmetric] s3_def [symmetric] s4_def [symmetric])
  then show ?case using s' s4(7,8) sp disk_same_trans [of s s4 s'] by (intro exI [of _ s']) simp
qed

lemma write_loop_ok:
  "runs U p s \<Longrightarrow> holds_lock s \<Longrightarrow> interrupts_on s \<Longrightarrow>
   mode (drv (dev s)) = (if n = 0 then Idle else DataOut lba n []) \<Longrightarrow> slave (drv (dev s)) \<Longrightarrow>
   512 * (i + n) \<le> length buf \<Longrightarrow>
   \<exists>s'. write_loop io rs True n i buf s = Some (i + n, s') \<and>
     runs U p s' \<and> holds_lock s' \<and> interrupts_on s' \<and> mode (drv (dev s')) = Idle \<and> disk_same s s' \<and>
     (\<forall>x. media (drv (dev s')) True x =
        (if lba \<le> x \<and> x < lba + n then chunk (512 * (i + x - lba)) 512 buf else media (drv (dev s)) True x))"
proof (induction n arbitrary: lba i s)
  case 0
  then show ?case by (intro exI [of _ s]) auto
next
  case (Suc n)
  let ?a = "drv (dev s)"
  define s0 where "s0 = s\<lparr>isPrimaryInterruptOccur := False\<rparr>"
  have m: "mode (drv (dev s0)) = DataOut lba (Suc n) []" using Suc.prems(4) by (simp add: s0_def)
  have len: "2 * (i * 256 + 256) \<le> length buf" "512 * (i + 1) \<le> length buf" using Suc.prems(6) by simp_all
  let ?b = "chunk (512 * i) 512 buf"
  obtain d where d: "write_words io True 256 (i * 256) buf s0 = Some (s0\<lparr>dev := d\<rparr>)"
    "drv d = (set_sector lba ?b ?a)\<lparr>mode := Flush (lba + 1) n\<rparr>"
    using write_words_ok [OF m _ _ len(1)] buffer_sector [OF len(2)] by (auto simp: s0_def)
  define s1 where "s1 = s0\<lparr>dev := d\<rparr>"
  have s1: "runs U p s1" "holds_lock s1" "interrupts_on s1" "\<not> isPrimaryInterruptOccur s1"
    "mode (drv (dev s1)) = Flush (lba + 1) n"
    using Suc.prems(1-3) d(2) by (simp_all add: s1_def s0_def)
  obtain s2 where s2: "waitInterrupt io rs True s1 = Some (True, s2)" "runs U p s2" "holds_lock s2" "interrupts_on s2"
    "drv (dev s2) = ata_complete (drv (dev s1))" "disk_same s1 s2"
    using waitInterrupt_ok [OF s1(1-4) disjI2, OF s1(5)] by metis
  have a2: "drv (dev s2) = (set_sector lba ?b ?a)\<lparr>mode := (if n = 0 then Idle else DataOut (Suc lba) n [])\<rparr>"
    using s2(5) s1(5) d(2) by (simp add: ata_complete_def s1_def)
  obtain d' where d': "getPort io (portOf True STATUS) s2 = (ata_status (drv (dev s2)), s2\<lparr>dev := d'\<rparr>)"
    "drv d' = drv (dev s2)" "ata_status (drv (dev s2)) AND STATUS_ERR = 0"
  proof -
    have "mode (drv (dev s2)) = Idle \<or>
        (\<exists>l k ws. mode (drv (dev s2)) = DataIn l k ws \<or> mode (drv (dev s2)) = DataOut l k ws)" using a2 by simp
    then show thesis by (rule status_ok) (rule that)
  qed
  define s3 where "s3 = s2\<lparr>dev := d'\<rparr>"
  have a3: "drv (dev s3) = (set_sector lba ?b ?a)\<lparr>mode := (if n = 0 then Idle else DataOut (Suc lba) n [])\<rparr>"
    using a2 d'(2) by (simp add: s3_def)
  have s3: "runs U p s3" "holds_lock s3" "interrupts_on s3"
    "mode (drv (dev s3)) = (if n = 0 then Idle else DataOut (Suc lba) n [])" "slave (drv (dev s3))"
    using s2 a3 Suc.prems(5) by (simp_all add: s3_def)
  have ds: "disk_same s s3" using s2(6) by (simp add: s3_def s1_def s0_def)
  have L: "512 * (Suc i + n) \<le> length buf" using Suc.prems(6) by simp
  from Suc.IH [OF s3 L] obtain s' where s':
    "write_loop io rs True n (Suc i) buf s3 = Some (Suc i + n, s')" "runs U p s'" "holds_lock s'" "interrupts_on s'"
    "mode (drv (dev s')) = Idle" "disk_same s3 s'"
    "\<And>x. media (drv (dev s')) True x = (if Suc lba \<le> x \<and> x < Suc lba + n then chunk (512 * (Suc i + x - Suc lba)) 512 buf
        else media (drv (dev s3)) True x)" by blast
  have m3: "media (drv (dev s3)) True x = (if x = lba then ?b else media ?a True x)" for x
    using a3 Suc.prems(5) set_sector_sel(3) [where a = ?a and lba = lba and bs = ?b] by simp
  have "media (drv (dev s')) True x = (if lba \<le> x \<and> x < lba + Suc n then chunk (512 * (i + x - lba)) 512 buf
      else media ?a True x)" for x
    using s'(7) [of x] m3 [of x] by (cases "x = lba") auto
  moreover have "write_loop io rs True (Suc n) i buf s = write_loop io rs True n (Suc i) buf s3"
    using d(1) s2(1) d'(1,3) by (simp add: clearDiskInterruptFlag_def s0_def [symmetric] s1_def [symmetric] s3_def [symmetric])
  ultimately show ?case using s' disk_same_trans [OF ds s'(6)] by (intro exI [of _ s']) simp
qed

text \<open>The mutex, from a state in which the process does not hold it.\<close>

lemma lockDisk_ok:
  assumes r: "runs U p s" and on: "interrupts_on s" and other: "lock_owner s \<noteq> getRunningPid s"
    and rest: "lock_owner s = -1 \<Longrightarrow> mode (drv (dev s)) = Idle"
  obtains s' where "lockDisk rs s = Some s'" "runs U p s'" "holds_lock s'" "interrupts_on s'"
    "mode (drv (dev s')) = Idle" "media (drv (dev s')) True = media (drv (dev s)) True" "disk_same s s'"
proof (cases "lock_owner s = -1")
  case True
  obtain s' where "acquireLock (diskMutex s) s = Some (False, interrupts_on s, s')" "runs U p s'" "holds_lock s'"
    "interrupts_on s' = interrupts_on s" "dev s' = dev s" "disk_same s s'"
    using lock_free [OF r True other] by metis
  then show thesis using on rest [OF True] by (intro that [of s']) (simp_all add: lockDisk_def)
next
  case False
  obtain s1 where s1: "acquireLock (diskMutex s) s = Some (True, interrupts_on s, s1)"
    using lock_busy [OF r False other] by metis
  obtain s2 where s2: "rs s1 = Some s2" "runs U p s2" "holds_lock s2" "mode (drv (dev s2)) = Idle"
    "media (drv (dev s2)) True = media (drv (dev s)) True" "disk_same s s2"
    using wake_lock [OF r False other s1] by blast
  have "length (cpu s2) = 24" using s2(2) by (simp add: runs_def)
  note I = interrupts_setIf(1) [OF this, of True]
  show thesis
  proof (rule that)
    show "lockDisk rs s = Some (snd (setIf True s2))" using s1 s2(1) on by (simp add: lockDisk_def)
  qed (use s2 I in simp_all)
qed

section \<open>Whole transfers\<close>

lemma total_same: "disk_same s s' \<Longrightarrow> getTotalSector s' = getTotalSector s"
  by (simp add: disk_same_def getTotalSector_def)

lemma small_count:
  assumes "n \<le> 8"
  shows "sint (word_of_nat n :: BYTE) = int n" "unat (word_of_nat n :: BYTE) = n"
proof -
  have "n \<in> {0, 1, 2, 3, 4, 5, 6, 7, 8}" using assms by auto
  then show "sint (word_of_nat n :: BYTE) = int n" "unat (word_of_nat n :: BYTE) = n" by auto
qed

lemma readSector_ok:
  assumes g: "disk_good drv U p s" and n: "0 < n" "n \<le> 8" "unat L + n \<le> unat (getTotalSector s)" and buf: "length buf = 512 * n"
  obtains s' where "readSector io rs True False (word_of_nat n) L buf s =
      Some (int n, concat (map (media (drv (dev s)) True) [unat L..<unat L + n]), s')" "disk_good drv U p s'"
    "getTotalSector s' = getTotalSector s" "media (drv (dev s')) True = media (drv (dev s)) True"
proof -
  let ?S = "media (drv (dev s)) True" and ?n = "word_of_nat n :: BYTE"
  have G: "runs U p s" "interrupts_on s" "lock_owner s \<noteq> getRunningPid s"
    "lock_owner s = -1 \<Longrightarrow> mode (drv (dev s)) = Idle" "unat (getTotalSector s) \<le> 2 ^ 28"
    "\<And>i. i < unat (getTotalSector s) \<Longrightarrow> length (?S i) = 512" using g by (simp_all add: disk_good_def)
  obtain s1 where s1: "lockDisk rs s = Some s1" "runs U p s1" "holds_lock s1" "interrupts_on s1"
    "mode (drv (dev s1)) = Idle" "media (drv (dev s1)) True = ?S" "disk_same s s1"
    using lockDisk_ok [OF G(1-4)] by metis
  have L28: "unat L < 2 ^ 28" using n G(5) by simp
  obtain d a where d: "sendDiskCommand io True False ?n L COMMAND_READ s1 = Some (True, s1\<lparr>dev := d, isPrimaryInterruptOccur := False\<rparr>)"
    "drv d = ata_command COMMAND_READ a" "media a = media (drv (dev s1))" "slave a" "ata_lba a = unat L" "regCount a = ?n"
    using sendDiskCommand_ok [OF s1(5) L28] by metis
  define s2 where "s2 = s1\<lparr>dev := d, isPrimaryInterruptOccur := False\<rparr>"
  have a2: "drv (dev s2) = a\<lparr>mode := Fetch (unat L) n\<rparr>"
    using d(2,5,6) small_count(2) [OF n(2)] by (simp add: s2_def ata_command_def COMMAND_READ_def)
  have s2: "runs U p s2" "holds_lock s2" "interrupts_on s2" "\<not> isPrimaryInterruptOccur s2"
    "mode (drv (dev s2)) = (if n = 0 then Idle else Fetch (unat L) n)" "slave (drv (dev s2))"
    "media (drv (dev s2)) True = ?S" "disk_same s s2"
    using s1 a2 n(1) d(3,4) by (simp_all add: s2_def)
  have R: "512 * (0 + n) \<le> length buf" "\<And>x. unat L \<le> x \<Longrightarrow> x < unat L + n \<Longrightarrow> length (media (drv (dev s2)) True x) = 512"
    using buf G(6) n(3) s2(7) by simp_all
  from read_loop_ok [OF s2(1-6) R] obtain s3 where s3:
    "read_loop io rs True n 0 buf s2 = Some (n, splice_at buf 0 (concat (map ?S [unat L..<unat L + n])), s3)"
    "runs U p s3" "holds_lock s3" "interrupts_on s3" "mode (drv (dev s3)) = Idle" "media (drv (dev s3)) True = ?S" "disk_same s2 s3"
    using s2(7) by auto
  obtain s4 where s4: "unlockDisk s3 = Some s4" "runs U p s4" "lock_owner s4 \<noteq> getRunningPid s4"
    "interrupts_on s4 = interrupts_on s3" "dev s4 = dev s3" "disk_same s3 s4" using unlockDisk_ok [OF s3(2,3)] by metis
  have ds: "disk_same s s4" using s2(8) s3(7) s4(6) by (simp add: disk_same_def)
  have "length (concat (map ?S [unat L..<unat L + n])) = 512 * n" using R(2) s2(7) by (subst length_concat_sectors) auto
  then have "splice_at buf 0 (concat (map ?S [unat L..<unat L + n])) = concat (map ?S [unat L..<unat L + n])"
    using buf by (simp add: splice_at_def)
  then have "readSector io rs True False ?n L buf s = Some (int n, concat (map ?S [unat L..<unat L + n]), s4)"
    using s1(1) d(1) s3(1) s4(1) by (simp add: readSector_def s2_def [symmetric] small_count(1) [OF n(2)])
  moreover have "disk_good drv U p s4" using s3 s4 total_same [OF ds] G(5,6) by (simp add: disk_good_def)
  ultimately show thesis using total_same [OF ds] s4(5) s3(6) by (intro that [of s4]) simp_all
qed

lemma writeSector_ok:
  assumes g: "disk_good drv U p s" and n: "0 < n" "n \<le> 8" "unat L + n \<le> unat (getTotalSector s)" and buf: "512 * n \<le> length buf"
  obtains s' where "writeSector io rs True False (word_of_nat n) L buf s = Some (int n, s')" "disk_good drv U p s'"
    "getTotalSector s' = getTotalSector s"
    "\<And>x. media (drv (dev s')) True x = (if unat L \<le> x \<and> x < unat L + n then chunk (512 * (x - unat L)) 512 buf
        else media (drv (dev s)) True x)"
proof -
  let ?S = "media (drv (dev s)) True" and ?n = "word_of_nat n :: BYTE"
  have G: "runs U p s" "interrupts_on s" "lock_owner s \<noteq> getRunningPid s"
    "lock_owner s = -1 \<Longrightarrow> mode (drv (dev s)) = Idle" "unat (getTotalSector s) \<le> 2 ^ 28"
    "\<And>i. i < unat (getTotalSector s) \<Longrightarrow> length (?S i) = 512" using g by (simp_all add: disk_good_def)
  obtain s1 where s1: "lockDisk rs s = Some s1" "runs U p s1" "holds_lock s1" "interrupts_on s1"
    "mode (drv (dev s1)) = Idle" "media (drv (dev s1)) True = ?S" "disk_same s s1"
    using lockDisk_ok [OF G(1-4)] by metis
  have L28: "unat L < 2 ^ 28" using n G(5) by simp
  obtain d a where d: "sendDiskCommand io True False ?n L COMMAND_WRITE s1 = Some (True, s1\<lparr>dev := d, isPrimaryInterruptOccur := False\<rparr>)"
    "drv d = ata_command COMMAND_WRITE a" "media a = media (drv (dev s1))" "slave a" "ata_lba a = unat L" "regCount a = ?n"
    using sendDiskCommand_ok [OF s1(5) L28] by metis
  define s2 where "s2 = s1\<lparr>dev := d, isPrimaryInterruptOccur := False\<rparr>"
  have a2: "drv (dev s2) = a\<lparr>mode := DataOut (unat L) n []\<rparr>"
    using d(2,5,6) small_count(2) [OF n(2)] by (simp add: s2_def ata_command_def COMMAND_WRITE_def)
  have "mode (drv (dev s2)) = DataOut (unat L) n []" using a2 by simp
  then obtain d' where d': "waitDataRequest io True s2 = Some (True, s2\<lparr>dev := d'\<rparr>)" "drv d' = drv (dev s2)"
    using waitDataRequest_ok [of s2] by blast
  define s3 where "s3 = s2\<lparr>dev := d'\<rparr>"
  have s3: "runs U p s3" "holds_lock s3" "interrupts_on s3"
    "mode (drv (dev s3)) = (if n = 0 then Idle else DataOut (unat L) n [])" "slave (drv (dev s3))"
    "media (drv (dev s3)) True = ?S" "disk_same s s3"
    using s1 a2 n(1) d(3,4) d'(2) by (simp_all add: s3_def s2_def)
  have R: "512 * (0 + n) \<le> length buf" using buf by simp
  from write_loop_ok [OF s3(1-5) R] obtain s4 where s4: "write_loop io rs True n 0 buf s3 = Some (n, s4)"
    "runs U p s4" "holds_lock s4" "interrupts_on s4" "mode (drv (dev s4)) = Idle" "disk_same s3 s4"
    "\<And>x. media (drv (dev s4)) True x = (if unat L \<le> x \<and> x < unat L + n then chunk (512 * (x - unat L)) 512 buf else ?S x)"
    using s3(6) by auto
  obtain s5 where s5: "unlockDisk s4 = Some s5" "runs U p s5" "lock_owner s5 \<noteq> getRunningPid s5"
    "interrupts_on s5 = interrupts_on s4" "dev s5 = dev s4" "disk_same s4 s5" using unlockDisk_ok [OF s4(2,3)] by metis
  have ds: "disk_same s s5" using s3(7) s4(6) s5(6) by (simp add: disk_same_def)
  have "writeSector io rs True False ?n L buf s = Some (int n, s5)"
    using s1(1) d(1) d'(1) s4(1) s5(1) by (simp add: writeSector_def s2_def [symmetric] s3_def [symmetric] small_count(1) [OF n(2)])
  moreover have "disk_good drv U p s5"
  proof -
    have "length (media (drv (dev s5)) True i) = 512" if "i < unat (getTotalSector s)" for i
    proof (cases "unat L \<le> i \<and> i < unat L + n")
      case True
      then have "512 * (i - unat L) + 512 \<le> length buf" using buf by linarith
      then show ?thesis using True s4(7) [of i] s5(5) by simp
    next
      case False
      then have "media (drv (dev s5)) True i = ?S i" using s4(7) [of i] s5(5) by auto
      then show ?thesis using G(6) [OF that] by simp
    qed
    then show ?thesis using s4 s5 total_same [OF ds] G(5) by (simp add: disk_good_def)
  qed
  ultimately show thesis using total_same [OF ds] s4(7) s5(5) by (intro that [of s5]) simp_all
qed

end

end
