(* ===== verification/DiskProps.thy ===== *)
theory DiskProps
  imports DiskTransfers FatProps KeyboardProps
begin

text \<open>
  The driver as the disk of the file system, an ideal drive on which the contracts hold, and the
  properties: transfers read and write the drive, and files survive on it.
\<close>

section \<open>The driver keeps the file system's contract\<close>

text \<open>
  The two transfer functions as the file system calls them. A transfer that does not return is outside
  the contract; here it leaves everything as it was.
\<close>

definition driver :: "'d portio \<Rightarrow> ('d, 'z) resume \<Rightarrow> ('d, 'z) dsk_scheme blockdev" where
  "driver io rs =
     \<lparr>read_sectors = \<lambda>n lba buf s.
        (case readSector io rs FS_PRIMARY FS_MASTER (word_of_int n) lba buf s of
           Some (r, buf', s') \<Rightarrow> (r, buf', s') | None \<Rightarrow> (0, buf, s)),
      write_sectors = \<lambda>n lba buf s.
        (case writeSector io rs FS_PRIMARY FS_MASTER (word_of_int n) lba buf s of
           Some (r, s') \<Rightarrow> (r, s') | None \<Rightarrow> (0, s)),
      total_sectors = getTotalSector\<rparr>"

lemma total_driver [simp]: "total_sectors (driver io rs) s = getTotalSector s"
  by (simp add: driver_def)

sublocale disk_system \<subseteq> fs_disk: block_device "driver io rs" "disk_good drv U p" "drive_sector drv"
proof (unfold_locales, goal_cases)
  case (1 b i)
  then show ?case by (simp add: disk_good_def drive_sector_def)
next
  case (2 b n lba buf)
  obtain s' where s': "readSector io rs True False (word_of_nat n) lba buf b =
      Some (int n, concat (map (media (drv (dev b)) True) [unat lba..<unat lba + n]), s')" "disk_good drv U p s'"
    "getTotalSector s' = getTotalSector b" "media (drv (dev s')) True = media (drv (dev b)) True"
    using readSector_ok [OF 2(1-3) _ 2(5)] 2(4) by auto
  have "drive_sector drv b = media (drv (dev b)) True" by (simp add: fun_eq_iff drive_sector_def)
  then show ?case using s' by (intro exI [of _ s']) (simp add: driver_def drive_sector_def [of drv s'])
next
  case (3 b n lba buf)
  obtain s' where s': "writeSector io rs True False (word_of_nat n) lba buf b = Some (int n, s')" "disk_good drv U p s'"
    "getTotalSector s' = getTotalSector b"
    "\<And>x. media (drv (dev s')) True x = (if unat lba \<le> x \<and> x < unat lba + n then chunk (512 * (x - unat lba)) 512 buf
        else media (drv (dev b)) True x)"
    using writeSector_ok [OF 3(1-3) _ 3(5)] 3(4) by auto
  then show ?case by (intro exI [of _ s']) (simp add: driver_def drive_sector_def)
qed

context disk_system
begin

lemma driver_is_block_device: "block_device (driver io rs) (disk_good drv U p) (drive_sector drv)"
  by (rule fs_disk.block_device_axioms)

end

section \<open>An ideal drive\<close>

text \<open>The protocol itself as the device, and a kernel that runs process 0 again when the drive is done.\<close>

definition ata_io :: "ata portio" where
  "ata_io = \<lparr>in_byte = \<lambda>port a. (if port = 0x1F7 then ata_status a else 0, a), out_byte = ata_out,
     in_word = \<lambda>port a. (if port = 0x1F0 then ata_read_data a else (0, a)),
     out_word = \<lambda>port w a. (if port = 0x1F0 then ata_write_data w a else a)\<rparr>"

interpretation ideal: ata_drive ata_io "\<lambda>a. a"
  by unfold_locales (simp_all add: ata_io_def ata_out_def)

definition held :: mutex where
  "held = \<lparr>owner = 0, mcount = 1, waitList = \<lparr>l_head = NULL, l_tail = NULL, l_count = 0\<rparr>\<rparr>"

definition unheld :: mutex where
  "unheld = \<lparr>owner = -1, mcount = 0, waitList = \<lparr>l_head = NULL, l_tail = NULL, l_count = 0\<rparr>\<rparr>"

text \<open>The booted machine with a drive \<open>a\<close>, the driver's mutex \<open>x\<close> at \<open>0x700\<close> and identification \<open>ident\<close>.\<close>

definition booted_disk :: "'d \<Rightarrow> mutex \<Rightarrow> WORD list \<Rightarrow> bool \<Rightarrow> 'd dsk" where
  "booted_disk a x ident occ =
     \<lparr>dev = a, picState = picState booted, counter0Reload = counter0Reload booted, nodes = nodes booted,
      pcbs = pcbs booted, runningProcess = runningProcess booted, idleProcess = idleProcess booted,
      processList = processList booted, sleepList = sleepList booted, pidCountIdx = pidCountIdx booted,
      allocProcessTable = allocProcessTable booted, exitProcessQueue = exitProcessQueue booted,
      collectorProcess = collectorProcess booted, tickCount = tickCount booted, cpu = cpu booted,
      ist = ist booted, tssRsp0 = tssRsp0 booted, pte = pte booted, tlbView = tlbView booted,
      ram = ram booted, interruptHandlers = interruptHandlers booted,
      mutexes = (\<lambda>_. unheld)(0x700 := x), shiftOn = False, keyQueue = initQueue [] 0 0, keyWaiter = NULL,
      diskMutex = 0x700, diskInfo = ident, isPrimaryInterruptOccur = occ, isSecondaryInterruptOccur = False,
      diskWaiter = \<lambda>_. NULL\<rparr>"

lemma booted_disk_sel [simp]:
  "dev (booted_disk a x ident occ) = a" "diskMutex (booted_disk a x ident occ) = 0x700"
  "diskInfo (booted_disk a x ident occ) = ident" "isPrimaryInterruptOccur (booted_disk a x ident occ) = occ"
  by (simp_all add: booted_disk_def)

lemma booted_disk_rel: "sched_rel (booted_disk a x ident occ) rs ss = sched_rel booted rs ss"
  by (simp add: sched_rel_def core_of_def srep_def state_of_def [abs_def] booted_disk_def)

lemma booted_disk_runs:
  assumes "x = held \<or> x = unheld"
  shows "runs {0x700} (pcbAddr 0) (booted_disk a x ident occ)" "getRunningPid (booted_disk a x ident occ) = 0"
    "lock_owner (booted_disk a x ident occ) = owner x" "mutexes (booted_disk a x ident occ) 0x700 = x"
proof -
  let ?s = "booted_disk a x ident occ"
  have rel: "sched_rel ?s [pcbAddr 1] []" using booted_eq(2) by (simp add: booted_disk_rel)
  have run: "runningProcess ?s = pcbAddr 0" "idleProcess ?s = pcbAddr 2" "collectorProcess ?s = pcbAddr 1"
    "allocProcessTable ?s = boot_table" using booted_eq by (simp_all add: booted_disk_def)
  show m: "mutexes ?s 0x700 = x" by (simp add: booted_disk_def)
  have "locks_rel {0x700} ?s (\<lambda>_. [])"
    using sched_okI [OF rel] assms m by (auto simp: locks_rel_def mutex_ok_def rep_def held_def unheld_def)
  then show "runs {0x700} (pcbAddr 0) ?s"
    using run booted_eq by (auto simp: runs_def may_block_def) (simp_all add: booted_disk_def)
  show "getRunningPid ?s = 0"
    using coreD(14) [OF sched_relD(2) [OF rel], of 0] run by (simp add: getRunningPid_def boot_table_nth PROCESS_MAXCOUNT_def)
  show "lock_owner ?s = owner x" by (simp add: lock_owner_def booted_disk_def)
qed

lemma booted_disk_holds: "holds_lock (booted_disk a held ident occ)"
  using booted_disk_runs [of held a ident occ] by (simp add: holds_lock_def) (simp add: held_def)

definition ideal_resume :: "(ata, unit) resume" where
  "ideal_resume s =
     Some (snd (setIf False (booted_disk
       (if lock_owner s = 0 then ata_complete (dev s) else (dev s)\<lparr>mode := Idle\<rparr>) held (diskInfo s) True)))"

lemma switch_frame:
  assumes "blockRunningProcess s = Some s'"
  shows "dev s' = dev s" "proc.more s' = proc.more s"
  using assms
  by (auto simp: blockRunningProcess_def scheduleBlocked_def pop_ready_def switchContext_def run_next_def
      set_state_def upd_pcb_def updateTSSRsp0_def setTSSRsp0_def Let_def split: bind_splits prod.splits if_splits)

lemma sleep_frame:
  assumes "sleepUntilTick t s = Some s'"
  shows "dev s' = dev s" "proc.more s' = proc.more s"
  using switch_frame [OF assms [unfolded sleepUntilTick_def Let_def]]
  by (simp_all add: insert_sleep_def upd_pcb_def case_prod_beta)

lemma acquire_blocked_frame:
  assumes "acquireLock m s = Some (True, pre, s1)"
  shows "dev s1 = dev s" "ksync.more s1 = ksync.more s" "owner (mutexes s1 m) = owner (mutexes s m)"
proof -
  let ?i = "snd (setIf False s)" and ?l = "insertList (nodes s) (waitList (mutexes s m)) (runningProcess s)"
  let ?t = "upd_mutex m (\<lambda>x. x\<lparr>waitList := snd ?l\<rparr>) (?i\<lparr>nodes := fst ?l\<rparr>)"
  have b: "blockRunningProcess ?t = Some s1"
    using assms by (auto simp: acquireLock_alt Let_def case_prod_beta split: if_splits)
  have i: "ksync.more ?i = ksync.more s" by (rule more_ksync) simp
  from switch_frame [OF b] have e: "dev s1 = dev ?t" "proc.more s1 = proc.more ?t" .
  from more_ksync [OF e(2)] mutexes_more [OF e(2)] e(1) i
  show "dev s1 = dev s" "ksync.more s1 = ksync.more s" "owner (mutexes s1 m) = owner (mutexes s m)"
    by (simp_all add: upd_mutex_def)
qed

interpretation ideal_system: disk_system ata_io "\<lambda>a. a" ideal_resume "{0x700}" "pcbAddr 0"
proof (unfold_locales, goal_cases)
  case (1 s k lba t s1)
  note F = sleep_frame [OF 1(7)] more_dsk [OF sleep_frame(2) [OF 1(7)]]
  have "diskMutex s = 0x700" using 1(1) by (simp add: runs_def)
  moreover obtain pid where "getRunningPid s = int pid" "runningProcess s = pcbAddr pid"
    using 1(1) running_pid by (metis locks_rel_def runs_def)
  ultimately have "lock_owner s1 = 0" using 1(1,2) F(3) by (simp add: holds_lock_def lock_owner_def runs_def pcbAddr_def)
  note B = booted_disk_runs [OF disjI1, OF refl, of "ata_complete (dev s)" "diskInfo s" True]
  have len: "length (cpu (booted_disk (ata_complete (dev s)) held (diskInfo s) True)) = 24" using B(1) by (simp add: runs_def)
  show ?case
    using B \<open>lock_owner s1 = 0\<close> F interrupts_setIf(1) [OF len, of False] \<open>diskMutex s = 0x700\<close>
    by (simp add: ideal_resume_def booted_disk_holds disk_same_def)
next
  case (2 s pre s1)
  note F = acquire_blocked_frame [OF 2(4)] more_dsk' [OF acquire_blocked_frame(2) [OF 2(4)]]
  have m: "diskMutex s = 0x700" using 2(1) by (simp add: runs_def)
  obtain pid where "getRunningPid s = int pid" "runningProcess s = pcbAddr pid"
    using 2(1) running_pid by (metis locks_rel_def runs_def)
  then have "getRunningPid s = 0" using 2(1) by (simp add: runs_def pcbAddr_def)
  then have ne: "lock_owner s1 \<noteq> 0" using 2(3) F m by (simp add: lock_owner_def)
  note B = booted_disk_runs [OF disjI1, OF refl, of "(dev s)\<lparr>mode := Idle\<rparr>" "diskInfo s" True]
  show ?case
    using B ne F m
    by (simp add: ideal_resume_def booted_disk_holds disk_same_def)
qed

section \<open>From an unformatted disk to a file that is read back\<close>

context block_device
begin

lemma first_cluster_fits:
  assumes "1 \<le> L" "128 * L \<le> int N + 125" "200 \<le> int N"
  shows "1 + nat L + 8 * 1 + 8 \<le> N \<and> 1 < 128 * nat L"
proof -
  obtain m where m: "L = int m" using assms(1) by (metis zero_le_imp_eq_int order_trans zero_le_one)
  have "1 \<le> m" "128 * m \<le> N + 125" "200 \<le> N" using assms unfolding m by linarith+
  then show ?thesis unfolding m nat_int by linarith
qed

lemma store_and_reload:
  fixes s :: "'b fat"
  assumes g: "good (disk s)" and l: "length (buffer512 s) = SECTOR_SIZE"
    and N: "200 \<le> int (unat (total_sectors dv (disk s)))" "int (unat (total_sectors dv (disk s))) < 2 ^ 31"
    and name: "cstr name t" "length t \<le> 23" and buf: "length buf = 4096" "length old = 4096"
  obtains s1 s2 s3 s4 s5 s6 where "format dv s = (True, s1)" "mount dv s1 = Some (True, s2)"
    "createFile dv name s2 = Some s3" "writeFile dv name buf sz s3 = Some (True, s4)"
    "mount dv (initFAT s4) = Some (True, s5)" "readFile dv name old s5 = Some (sint (word_of_int sz :: DWORD), buf, s6)"
    "fs_ok dv good sector s6"
proof -
  have N11: "11 \<le> int (unat (total_sectors dv (disk s)))" using N(1) by linarith
  note geo = link_sectors_eq [OF N11]
  obtain s1 s2 where F: "format dv s = (True, s1)" "mount dv s1 = Some (True, s2)" "fs_ok dv good sector s2"
    "files sector s2 = Map.empty" "file_count sector s2 = 0" "links_upd sector s2 ((\<lambda>_. 0)(0 := 0xFFFFFFFF)) s2" "bestIdx s2 = 0"
    "total_sectors dv (disk s2) = total_sectors dv (disk s)"
    "unat (clusterLinkSectorCount (fatInfor s2)) = nat (link_sectors (int (unat (total_sectors dv (disk s)))))"
    "unat (dataAddress (fatInfor s2)) = 1 + nat (link_sectors (int (unat (total_sectors dv (disk s)))))"
    using format_step [OF g l N11 N(2)] by metis
  have v: "valid_cluster dv s2 1"
    unfolding valid_cluster_def F(8-10) by (rule first_cluster_fits [OF geo(2,4) N(1)])
  have "fs_at dv good sector s2 Map.empty ((\<lambda>_. 0)(0 := 0xFFFFFFFF)) 0 0"
    using F(3-7) by (simp add: fs_at_def)
  then obtain s3 where s3: "createFile dv name s2 = Some s3"
    "fs_at dv good sector s3 (Map.empty(t \<mapsto> (0, 0 + 1))) (((\<lambda>_. 0)(0 := 0xFFFFFFFF))(0 + 1 := 0xFFFFFFFF)) (0 + 1 + 1) (Suc 0)"
    by (rule fs_at_create [OF _ name, of _ Map.empty _ 0 0 1]) (use v in auto)
  have f3: "fs_ok dv good sector s3" "files sector s3 t = Some (0, 1)" using s3(2) by (simp_all add: fs_at_def)
  obtain s4 where s4: "writeFile dv name buf sz s3 = Some (True, s4)" "fs_ok dv good sector s4" "fat_frame dv s3 s4"
    "files sector s4 = (files sector s3)(t \<mapsto> (word_of_int sz, 1))" "cluster_data sector s4 1 = buf"
    using write_step [OF f3(1) name(1) f3(2) buf(1)] by metis
  obtain s5 where s5: "mount dv (initFAT s4) = Some (True, s5)" "fs_ok dv good sector s5" "files sector s5 = files sector s4"
    "data_same dv sector {} s4 s5" using mount_step [OF s4(2)] by metis
  have f5: "files sector s5 t = Some (word_of_int sz, 1)" using s5(3) s4(4) by simp
  have "valid_cluster dv s4 1" using s4(2,4) unfolding fs_ok_def by (metis fun_upd_same)
  then have "cluster_data sector s5 1 = buf" using s5(4) s4(5) by (simp add: data_same_def)
  moreover obtain s6 where "readFile dv name old s5 = Some (sint (word_of_int sz :: DWORD), cluster_data sector s5 1, s6)"
    "fs_ok dv good sector s6" using read_step [OF s5(2) name(1) f5 buf(2)] by metis
  ultimately show thesis using F(1,2) s3(1) s4(1) s5(1) by (intro that) auto
qed

end

section \<open>Properties\<close>

text \<open>C33: \<^verbatim>\<open>readSector\<close> reads the drive. On a drive that follows the ATA protocol, with the process
  resumed when the drive is done, a transfer of 1 to 8 sectors within the disk returns the count and fills the
  buffer with the sectors of the file system's drive, in order; it waits for the driver's mutex when another process
  holds it, changes nothing on the drive, and leaves the driver ready for the next transfer.\<close>

theorem driver_reads_the_drive:
  assumes "disk_system io drv rs U p" and "disk_good drv U p s" and "0 < n" "n \<le> 8"
    and "unat L + n \<le> unat (getTotalSector s)" and "length buf = 512 * n"
  shows "\<exists>s'. readSector io rs FS_PRIMARY FS_MASTER (word_of_nat n) L buf s =
      Some (int n, concat (map (drive_sector drv s) [unat L..<unat L + n]), s') \<and>
    disk_good drv U p s' \<and> getTotalSector s' = getTotalSector s \<and> drive_sector drv s' = drive_sector drv s"
proof (rule disk_system.readSector_ok [OF assms], goal_cases)
  case (1 s')
  have e: "drive_sector drv x = media (drv (dev x)) True" for x by (simp add: fun_eq_iff drive_sector_def)
  show ?case unfolding e using 1 by blast
qed

text \<open>C34: \<^verbatim>\<open>writeSector\<close> writes the drive. Under the same conditions it returns the count, the sectors
  from \<open>L\<close> on hold the bytes of the buffer, every other sector is as it was, and the driver is ready for the
  next transfer.\<close>

theorem driver_writes_the_drive:
  assumes "disk_system io drv rs U p" and "disk_good drv U p s" and "0 < n" "n \<le> 8"
    and "unat L + n \<le> unat (getTotalSector s)" and "512 * n \<le> length buf"
  shows "\<exists>s'. writeSector io rs FS_PRIMARY FS_MASTER (word_of_nat n) L buf s = Some (int n, s') \<and>
    disk_good drv U p s' \<and> getTotalSector s' = getTotalSector s \<and>
    (\<forall>x. drive_sector drv s' x = (if unat L \<le> x \<and> x < unat L + n then chunk (512 * (x - unat L)) 512 buf
       else drive_sector drv s x))"
proof (rule disk_system.writeSector_ok [OF assms], goal_cases)
  case (1 s')
  then show ?case by (intro exI [of _ s']) (simp add: drive_sector_def)
qed

text \<open>C39: Files survive on the drive. On a drive of at least 200 sectors, behind the driver: format, mount, create
  a file with a name of at most 23 characters, write it, mount again, read it. Every step succeeds, and the read
  returns the size and the contents that were written.\<close>

theorem file_survives_on_the_drive:
  assumes "disk_system io drv rs U p" and "disk_good drv U p (disk s)" and "length (buffer512 s) = SECTOR_SIZE"
    and "200 \<le> int (unat (getTotalSector (disk s)))" and "cstr name t" "length t \<le> 23"
    and "length buf = 4096" "length old = 4096"
  shows "\<exists>s1 s2 s3 s4 s5 s6. format (driver io rs) s = (True, s1) \<and> mount (driver io rs) s1 = Some (True, s2) \<and>
    createFile (driver io rs) name s2 = Some s3 \<and> writeFile (driver io rs) name buf sz s3 = Some (True, s4) \<and>
    mount (driver io rs) (initFAT s4) = Some (True, s5) \<and>
    readFile (driver io rs) name old s5 = Some (sint (word_of_int sz :: DWORD), buf, s6)"
proof -
  have "unat (getTotalSector (disk s)) \<le> 2 ^ 28" using assms(2) by (simp add: disk_good_def)
  then have "int (unat (getTotalSector (disk s))) \<le> int (2 ^ 28)" by (simp only: of_nat_le_iff)
  then have N: "int (unat (total_sectors (driver io rs) (disk s))) < 2 ^ 31"
    "200 \<le> int (unat (total_sectors (driver io rs) (disk s)))" using assms(4) by simp_all
  show ?thesis
  proof (rule block_device.store_and_reload [OF disk_system.driver_is_block_device [OF assms(1)] assms(2,3) N(2,1) assms(5-8), of sz], goal_cases)
    case (1 s1 s2 s3 s4 s5 s6)
    then show ?case by blast
  qed
qed

section \<open>Witnesses\<close>

definition blank_drive :: ata where
  "blank_drive = \<lparr>media = \<lambda>_ _. replicate 512 0, identity = (replicate 256 0)[60 := 200], regCount = 0, regLow = 0, regMid = 0, regHigh = 0, regDrive = 0, mode = Idle\<rparr>"

definition ready_disk :: "ata dsk" where
  "ready_disk = snd (setIf True (booted_disk blank_drive unheld ((replicate 256 0)[60 := 200]) False))"

lemma ready_total: "getTotalSector ready_disk = 200"
  by (simp add: ready_disk_def getTotalSector_def)

lemma ready_good: "disk_good (\<lambda>a. a) {0x700} (pcbAddr 0) ready_disk"
proof -
  let ?s = "booted_disk blank_drive unheld ((replicate 256 0)[60 := 200]) False"
  note B = booted_disk_runs [OF disjI2, OF refl, of blank_drive "(replicate 256 0)[60 := 200]" False]
  have len: "length (cpu ?s) = 24" using B(1) by (simp add: runs_def)
  have o: "lock_owner ready_disk = -1" "getRunningPid ready_disk = 0" "dev ready_disk = blank_drive"
    using B by (simp_all add: ready_disk_def lock_owner_def unheld_def)
  have r: "runs {0x700} (pcbAddr 0) ready_disk" "interrupts_on ready_disk"
    using B(1) interrupts_setIf(1) [OF len, of True] by (simp_all add: ready_disk_def)
  show ?thesis unfolding disk_good_def ready_total o using r by (simp add: blank_drive_def)
qed

lemma driver_reads_the_drive_witness:
  "\<exists>s'. readSector ata_io ideal_resume FS_PRIMARY FS_MASTER 2 5 (replicate 1024 9) ready_disk = Some (2, replicate 1024 0, s')"
proof -
  have c: "concat (map (drive_sector (\<lambda>a. a) ready_disk) [5..<5 + 2]) = replicate 1024 0"
    by (simp add: drive_sector_def ready_disk_def blank_drive_def upt_rec_numeral flip: replicate_add)
  have "unat (5 :: DWORD) + 2 \<le> unat (getTotalSector ready_disk)" "length (replicate 1024 (9::BYTE)) = 512 * 2"
    by (simp_all add: ready_total)
  from driver_reads_the_drive [OF ideal_system.disk_system_axioms ready_good _ _ this] c show ?thesis by auto
qed

lemma driver_writes_the_drive_witness:
  "\<exists>s'. writeSector ata_io ideal_resume FS_PRIMARY FS_MASTER 1 5 (replicate 512 9) ready_disk = Some (1, s') \<and>
    drive_sector (\<lambda>a. a) s' 5 = replicate 512 9"
proof -
  have "unat (5 :: DWORD) + 1 \<le> unat (getTotalSector ready_disk)" "512 * 1 \<le> length (replicate 512 (9::BYTE))"
    by (simp_all add: ready_total)
  from driver_writes_the_drive [OF ideal_system.disk_system_axioms ready_good _ _ this] show ?thesis
    by (auto simp: chunk_def)
qed

definition ready_fat :: "ata dsk fat" where
  "ready_fat = \<lparr>disk = ready_disk, screen = blank, fatInfor = \<lparr>freeClusterCount = 0, clusterLinkSectorCount = 0,
      clusterLinkSectorAddress = 0, dataAddress = 0\<rparr>, bestIdx = 0, bestRootDirIdx = 0, isMounted = False,
      buffer512 = replicate 512 0, buffer4096 = replicate 4096 0\<rparr>"

lemma file_survives_on_the_drive_witness:
  "\<exists>s5 s6. readFile (driver ata_io ideal_resume) (lit ''a'') (replicate 4096 0) s5 = Some (12, replicate 4096 7, s6)"
proof -
  have r: "disk_good (\<lambda>a. a) {0x700} (pcbAddr 0) (disk ready_fat)" "length (buffer512 ready_fat) = SECTOR_SIZE"
    "200 \<le> int (unat (getTotalSector (disk ready_fat)))"
    using ready_good by (simp_all add: ready_fat_def fat_const ready_total)
  have "length [97 :: BYTE] \<le> 23" "length (replicate 4096 (7::BYTE)) = 4096" "length (replicate 4096 (0::BYTE)) = 4096" by simp_all
  from file_survives_on_the_drive [OF ideal_system.disk_system_axioms r cstr_a this, of 12] show ?thesis by auto
qed

end
