(* ===== verification/PhysMem.thy ===== *)
theory PhysMem
  imports CString
begin

text \<open>
  Physical memory as the loader and the descriptor tables use it: a memory from addresses to
  bytes, with little-endian stores of integers and of whole structures. Used for
  \<^verbatim>\<open>loader/Page.c\<close>, \<^verbatim>\<open>loader/32bit.c\<close> and \<^verbatim>\<open>kernel/arch/Descriptor.c\<close>,
  where tables and images lie at fixed addresses and may overlap.
\<close>

section \<open>Blocks of bytes\<close>

definition store_bytes :: "nat \<Rightarrow> BYTE list \<Rightarrow> memory \<Rightarrow> memory" where
  "store_bytes a bs m = (\<lambda>x. if a \<le> x \<and> x < a + length bs then bs ! (x - a) else m x)"

definition fetch :: "memory \<Rightarrow> nat \<Rightarrow> nat \<Rightarrow> BYTE list" where
  "fetch m a n = map m [a..<a + n]"

lemma length_fetch [simp]: "length (fetch m a n) = n"
  by (simp add: fetch_def)

lemma nth_fetch [simp]: "i < n \<Longrightarrow> fetch m a n ! i = m (a + i)"
  by (simp add: fetch_def)

lemma fetch_add: "fetch m a (n + k) = fetch m a n @ fetch m (a + n) k"
  using upt_add_eq_append [of a "a + n" k] by (simp add: fetch_def add.assoc)

lemma fetch_cong: "(\<And>x. a \<le> x \<Longrightarrow> x < a + n \<Longrightarrow> m x = m' x) \<Longrightarrow> fetch m a n = fetch m' a n"
  by (simp add: fetch_def)

lemma store_bytes_outside: "x < a \<or> a + length bs \<le> x \<Longrightarrow> store_bytes a bs m x = m x"
  by (auto simp: store_bytes_def)

lemma fetch_store_same: "n = length bs \<Longrightarrow> fetch (store_bytes a bs m) a n = bs"
  by (rule nth_equalityI) (simp_all add: store_bytes_def)

lemma fetch_store_other: "b + n \<le> a \<or> a + length bs \<le> b \<Longrightarrow> fetch (store_bytes a bs m) b n = fetch m b n"
  by (rule fetch_cong) (auto simp: store_bytes_def)

section \<open>Integers\<close>

lemma le_encode_zero: "le_encode k 0 = replicate k 0"
  by (induction k) simp_all

definition load32 :: "memory \<Rightarrow> nat \<Rightarrow> DWORD" where
  "load32 m a = word_of_nat (le_decode (fetch m a 4))"

definition store32 :: "nat \<Rightarrow> DWORD \<Rightarrow> memory \<Rightarrow> memory" where
  "store32 a w m = store_bytes a (le_encode 4 (unat w)) m"

lemma load32_store32: "load32 (store32 a w m) a = w"
proof -
  have "unat w < 256 ^ 4" using unsigned_less [of w] by simp
  then show ?thesis by (simp add: load32_def store32_def fetch_store_same)
qed

lemma load32_store32_other: "b + 4 \<le> a \<or> a + 4 \<le> b \<Longrightarrow> load32 (store32 a w m) b = load32 m b"
  by (simp add: load32_def store32_def fetch_store_other)

lemma store32_outside: "x < a \<or> a + 4 \<le> x \<Longrightarrow> store32 a w m x = m x"
  by (simp add: store32_def store_bytes_outside)

lemma load32_cong: "(\<And>x. a \<le> x \<Longrightarrow> x < a + 4 \<Longrightarrow> m x = m' x) \<Longrightarrow> load32 m a = load32 m' a"
  using fetch_cong [of a 4 m m'] by (simp only: load32_def)

lemma store32_load32: "store32 a (load32 m b) m' x = (if a \<le> x \<and> x < a + 4 then m (b + (x - a)) else m' x)"
proof -
  have "le_decode (fetch m b 4) < 2 ^ 32" using le_decode_bound [of "fetch m b 4"] by simp
  then have "unat (load32 m b) = le_decode (fetch m b 4)"
    by (simp add: load32_def unat_of_nat take_bit_nat_eq_self)
  then have "le_encode 4 (unat (load32 m b)) = fetch m b 4" by simp
  then show ?thesis by (auto simp: store32_def store_bytes_def)
qed

section \<open>Tables of eight-byte entries\<close>

definition set_entry :: "nat \<Rightarrow> nat \<Rightarrow> DWORD \<Rightarrow> DWORD \<Rightarrow> memory \<Rightarrow> memory" where
  "set_entry base i lower4Byte upper4Byte m = store32 (base + 8 * i + 4) upper4Byte (store32 (base + 8 * i) lower4Byte m)"

definition lower :: "memory \<Rightarrow> nat \<Rightarrow> nat \<Rightarrow> DWORD" where
  "lower m base i = load32 m (base + 8 * i)"

definition upper :: "memory \<Rightarrow> nat \<Rightarrow> nat \<Rightarrow> DWORD" where
  "upper m base i = load32 m (base + 8 * i + 4)"

lemma entry_set_entry:
  "lower (set_entry base i l u m) base j = (if j = i then l else lower m base j)"
  "upper (set_entry base i l u m) base j = (if j = i then u else upper m base j)"
  by (cases i j rule: linorder_cases; simp add: set_entry_def lower_def upper_def load32_store32 load32_store32_other)+

lemma set_entry_outside: "x < base + 8 * i \<or> base + 8 * i + 8 \<le> x \<Longrightarrow> set_entry base i l u m x = m x"
  by (auto simp: set_entry_def store32_outside)

definition fill_table :: "nat \<Rightarrow> (nat \<Rightarrow> DWORD) \<Rightarrow> (nat \<Rightarrow> DWORD) \<Rightarrow> nat \<Rightarrow> nat \<Rightarrow> memory \<Rightarrow> memory" where
  "fill_table base f g lo hi m = fold (\<lambda>i. set_entry base i (f i) (g i)) [lo..<hi] m"

lemma fill_table_Suc:
  "fill_table base f g lo (Suc hi) m =
     (if lo \<le> hi then set_entry base hi (f hi) (g hi) (fill_table base f g lo hi m) else m)"
  by (simp add: fill_table_def)

lemma fill_table_empty: "hi \<le> lo \<Longrightarrow> fill_table base f g lo hi m = m"
  by (simp add: fill_table_def)

lemma entry_fill_table:
  "lower (fill_table base f g lo hi m) base j = (if lo \<le> j \<and> j < hi then f j else lower m base j)"
  "upper (fill_table base f g lo hi m) base j = (if lo \<le> j \<and> j < hi then g j else upper m base j)"
  by (induction hi) (auto simp: fill_table_Suc fill_table_empty entry_set_entry less_Suc_eq)

lemma fill_table_outside: "x < base + 8 * lo \<or> base + 8 * hi \<le> x \<Longrightarrow> fill_table base f g lo hi m x = m x"
  by (induction hi) (auto simp: fill_table_Suc fill_table_empty set_entry_outside)

lemma entry_cong:
  assumes "\<And>x. base + 8 * i \<le> x \<Longrightarrow> x < base + 8 * i + 8 \<Longrightarrow> m x = m' x"
  shows "lower m base i = lower m' base i" "upper m base i = upper m' base i"
  unfolding lower_def upper_def by (rule load32_cong; use assms in simp)+

end
