(* ===== verification/Paging.thy ===== *)
theory Paging
  imports PhysMem Lifecycle
begin

text \<open>
  The page tables the loader builds: \<^verbatim>\<open>loader/Page.c\<close>, \<^verbatim>\<open>Page.h\<close> and
  \<^verbatim>\<open>common/Paging.h\<close>, and the translation the processor makes with them. An entry is two
  words at base + 8 * index. The addresses are C \<^verbatim>\<open>int\<close>s, which wrap at
  32 bits; the shift by 28 is the arithmetic one of a signed \<^verbatim>\<open>int\<close>.
\<close>

section \<open>Constants\<close>

definition PML4_BASE_ADDRESS :: nat where "PML4_BASE_ADDRESS = 0x100000"
definition PDPTABLE_BASE_ADDRESS :: nat where "PDPTABLE_BASE_ADDRESS = 0x101000"
definition PDTABLE_BASE_ADDRESS :: nat where "PDTABLE_BASE_ADDRESS = 0x102000"
definition PTABLE_BASE_ADDRESS :: nat where "PTABLE_BASE_ADDRESS = 0x106000"
definition TABLE_COUNT :: nat where "TABLE_COUNT = 512"
definition PAGE_TABLE_SIZE :: nat where "PAGE_TABLE_SIZE = 0x1000"
definition MAX_MEMORY_SIZE :: nat where "MAX_MEMORY_SIZE = 4"
definition MAX_CODE_SIZE :: nat where "MAX_CODE_SIZE = 2"
definition LOADER_KERNEL_SIZE :: nat where "LOADER_KERNEL_SIZE = 32"
definition PAGE_FLAG_RW :: DWORD where "PAGE_FLAG_RW = 0x2"
definition PAGE_FLAG_EXB :: DWORD where "PAGE_FLAG_EXB = 0x80000000"

lemmas table_addrs = PML4_BASE_ADDRESS_def PDPTABLE_BASE_ADDRESS_def PDTABLE_BASE_ADDRESS_def PTABLE_BASE_ADDRESS_def
lemmas table_sizes = TABLE_COUNT_def PAGE_TABLE_SIZE_def MAX_MEMORY_SIZE_def MAX_CODE_SIZE_def LOADER_KERNEL_SIZE_def
lemmas page_flags = PAGE_FLAG_P_def PAGE_FLAG_US_def PAGE_FLAG_RW_def PAGE_FLAG_EXB_def

section \<open>The loader's tables\<close>

definition high_part :: "DWORD \<Rightarrow> DWORD" where
  "high_part a = signed_drop_bit 28 a AND 0xFF"

definition initializePML4Table :: "memory \<Rightarrow> memory" where
  "initializePML4Table m =
     fill_table PML4_BASE_ADDRESS (\<lambda>_. 0) (\<lambda>_. 0) 1 TABLE_COUNT
       (set_entry PML4_BASE_ADDRESS 0
          (PAGE_FLAG_P OR PAGE_FLAG_RW OR PAGE_FLAG_US OR word_of_nat PDPTABLE_BASE_ADDRESS)
          (high_part (word_of_nat PDPTABLE_BASE_ADDRESS)) m)"

definition table_at :: "nat \<Rightarrow> nat \<Rightarrow> DWORD" where
  "table_at base i = word_of_nat base + word_of_nat i * word_of_nat PAGE_TABLE_SIZE"

definition initializePageDirectoryPointerTable :: "memory \<Rightarrow> memory" where
  "initializePageDirectoryPointerTable m =
     fill_table PDPTABLE_BASE_ADDRESS (\<lambda>_. 0) (\<lambda>_. 0) MAX_MEMORY_SIZE TABLE_COUNT
       (fill_table PDPTABLE_BASE_ADDRESS
          (\<lambda>i. PAGE_FLAG_P OR PAGE_FLAG_RW OR PAGE_FLAG_US OR table_at PDTABLE_BASE_ADDRESS i)
          (\<lambda>i. high_part (table_at PDTABLE_BASE_ADDRESS i)) 0 MAX_MEMORY_SIZE m)"

definition initializePageDirectoryTable :: "memory \<Rightarrow> memory" where
  "initializePageDirectoryTable m =
     fill_table PDTABLE_BASE_ADDRESS
       (\<lambda>i. PAGE_FLAG_P OR PAGE_FLAG_RW OR PAGE_FLAG_US OR table_at PTABLE_BASE_ADDRESS i)
       (\<lambda>i. high_part (table_at PTABLE_BASE_ADDRESS i)) 0 (MAX_MEMORY_SIZE * TABLE_COUNT) m"

definition physicalAddress :: "nat \<Rightarrow> DWORD" where
  "physicalAddress i = word_of_nat i * 0x1000"

definition initializePageTable :: "memory \<Rightarrow> memory" where
  "initializePageTable m =
     (let m1 = fill_table PTABLE_BASE_ADDRESS (\<lambda>i. PAGE_FLAG_P OR PAGE_FLAG_RW OR physicalAddress i)
                 (\<lambda>i. high_part (physicalAddress i)) 0 (LOADER_KERNEL_SIZE * 512) m;
          m2 = fill_table PTABLE_BASE_ADDRESS (\<lambda>i. PAGE_FLAG_RW OR physicalAddress i)
                 (\<lambda>i. high_part (physicalAddress i)) (LOADER_KERNEL_SIZE * 512) (MAX_MEMORY_SIZE * TABLE_COUNT * 512) m1
      in fill_table PTABLE_BASE_ADDRESS (\<lambda>i. PAGE_FLAG_RW OR physicalAddress i)
           (\<lambda>i. high_part (physicalAddress i) OR PAGE_FLAG_EXB)
           (MAX_CODE_SIZE * TABLE_COUNT * 512) (MAX_MEMORY_SIZE * TABLE_COUNT * 512) m2)"

definition initializePaging :: "memory \<Rightarrow> memory" where
  "initializePaging m =
     initializePageTable (initializePageDirectoryTable (initializePageDirectoryPointerTable (initializePML4Table m)))"

section \<open>Address translation\<close>

text \<open>
  The four-level walk of the processor: the frame in bits 12 to 51 of an entry, present, writable and
  user in bits 0 to 2, execute-disable in bit 63. Writing, user access and
  execution need the permission of every level. \<open>None\<close> is a page fault.
\<close>

record translation =
  phys :: nat
  writable :: bool
  user :: bool
  executable :: bool

definition entry_at :: "memory \<Rightarrow> nat \<Rightarrow> nat \<Rightarrow> translation option" where
  "entry_at m base i =
     (let l = lower m base i; u = upper m base i
      in if bit l 0
         then Some \<lparr>phys = unat (l AND 0xFFFFF000) + 2 ^ 32 * unat (u AND 0xFFFFF), writable = bit l 1, user = bit l 2,
                    executable = \<not> bit u 31\<rparr>
         else None)"

definition below :: "translation \<Rightarrow> translation \<Rightarrow> translation" where
  "below t t' = t'\<lparr>writable := writable t \<and> writable t', user := user t \<and> user t', executable := executable t \<and> executable t'\<rparr>"

definition walk_page :: "memory \<Rightarrow> nat \<Rightarrow> nat \<Rightarrow> translation option" where
  "walk_page m cr3 va = do {
     t4 \<leftarrow> entry_at m cr3 (va div 2 ^ 39 mod 512);
     t3 \<leftarrow> map_option (below t4) (entry_at m (phys t4) (va div 2 ^ 30 mod 512));
     t2 \<leftarrow> map_option (below t3) (entry_at m (phys t3) (va div 2 ^ 21 mod 512));
     map_option (below t2) (entry_at m (phys t2) (va div 2 ^ 12 mod 512)) }"

definition translate :: "memory \<Rightarrow> nat \<Rightarrow> translation option" where
  "translate m va = map_option (\<lambda>t. t\<lparr>phys := phys t + va mod 2 ^ 12\<rparr>) (walk_page m PML4_BASE_ADDRESS va)"

section \<open>Words\<close>

lemma low_mask: "(0xFFFFF000 :: DWORD) = NOT (mask 12)"
  by (simp add: mask_eq_exp_minus_1)

lemma frame_word:
  assumes "k < 2 ^ 20" and "f AND (0xFFFFF000 :: DWORD) = 0"
  shows "unat ((f OR word_of_nat (4096 * k)) AND (0xFFFFF000 :: DWORD)) = 4096 * k"
proof -
  have e: "word_of_nat (4096 * k) = (push_bit 12 (word_of_nat k) :: DWORD)"
    by (simp add: push_bit_eq_mult mult.commute)
  have "push_bit 12 (word_of_nat k) AND NOT (mask 12) = (push_bit 12 (word_of_nat k) :: DWORD)"
    by (auto simp: bit_eq_iff bit_simps)
  then have "(f OR push_bit 12 (word_of_nat k)) AND NOT (mask 12) = (push_bit 12 (word_of_nat k) :: DWORD)"
    using assms(2) by (simp only: low_mask bit.conj_disj_distrib2 or.left_neutral)
  then have "(f OR word_of_nat (4096 * k)) AND (0xFFFFF000 :: DWORD) = word_of_nat (4096 * k)" by (simp only: e low_mask)
  moreover have "unat (word_of_nat (4096 * k) :: DWORD) = 4096 * k"
    by (rule unat_DWORD) (use assms(1) in simp)
  ultimately show ?thesis by simp
qed

lemma table_at_eq:
  "table_at PDTABLE_BASE_ADDRESS i = word_of_nat (4096 * (0x102 + i))"
  "table_at PTABLE_BASE_ADDRESS i = word_of_nat (4096 * (0x106 + i))"
  by (simp_all add: table_at_def table_addrs table_sizes)

lemma physicalAddress_eq: "physicalAddress i = word_of_nat (4096 * i)"
  by (simp add: physicalAddress_def)

lemma high_part_low:
  assumes "a < 2 ^ 28" shows "high_part (word_of_nat a) = 0"
proof -
  have "take_bit 28 (word_of_nat a :: DWORD) = word_of_nat a"
    using assms by (simp only: take_bit_of_nat take_bit_nat_eq_self)
  then have "\<not> bit (word_of_nat a :: DWORD) n" if "28 \<le> n" for n
    using that by (metis bit_take_bit_iff linorder_not_less)
  then show ?thesis by (auto simp: high_part_def bit_eq_iff bit_simps)
qed

section \<open>The tables of the loader\<close>

definition upper_levels :: "memory \<Rightarrow> bool" where
  "upper_levels m \<longleftrightarrow>
     entry_at m PML4_BASE_ADDRESS 0 = Some \<lparr>phys = PDPTABLE_BASE_ADDRESS, writable = True, user = True, executable = True\<rparr> \<and>
     (\<forall>i. 0 < i \<and> i < 512 \<longrightarrow> entry_at m PML4_BASE_ADDRESS i = None) \<and>
     (\<forall>i < 4. entry_at m PDPTABLE_BASE_ADDRESS i =
        Some \<lparr>phys = PDTABLE_BASE_ADDRESS + 4096 * i, writable = True, user = True, executable = True\<rparr>) \<and>
     (\<forall>i. 4 \<le> i \<and> i < 512 \<longrightarrow> entry_at m PDPTABLE_BASE_ADDRESS i = None) \<and>
     (\<forall>i < 2048. entry_at m PDTABLE_BASE_ADDRESS i =
        Some \<lparr>phys = PTABLE_BASE_ADDRESS + 4096 * i, writable = True, user = True, executable = True\<rparr>)"

lemma below_open: "below \<lparr>phys = p, writable = True, user = True, executable = True\<rparr> t = t"
  by (simp add: below_def)

text \<open>With the upper three levels in place, the entry of a page decides alone.\<close>

lemma walk_page_upper:
  assumes "upper_levels m"
  shows "va < 2 ^ 32 \<Longrightarrow> walk_page m PML4_BASE_ADDRESS va = entry_at m PTABLE_BASE_ADDRESS (va div 4096)"
    and "2 ^ 32 \<le> va \<Longrightarrow> va < 2 ^ 48 \<Longrightarrow> walk_page m PML4_BASE_ADDRESS va = None"
proof -
  note U = assms [unfolded upper_levels_def]
  have sub: "entry_at m (b + 4096 * g) j = entry_at m b (512 * g + j)" for b g j
    by (simp add: entry_at_def lower_def upper_def algebra_simps)
  { assume va: "va < 2 ^ 32"
    then have "va div 2 ^ 39 mod 512 = 0" "va div 2 ^ 30 mod 512 = va div 2 ^ 30" "va div 2 ^ 30 < 4" "va div 2 ^ 21 < 2048"
      by (simp_all add: less_mult_imp_div_less)
    moreover have "512 * (va div 2 ^ 30) + va div 2 ^ 21 mod 512 = va div 2 ^ 21"
      using div_mult2_eq [of va "2 ^ 21" 512] mult_div_mod_eq [of 512 "va div 2 ^ 21"] by simp
    moreover have "512 * (va div 2 ^ 21) + va div 2 ^ 12 mod 512 = va div 2 ^ 12"
      using div_mult2_eq [of va "2 ^ 12" 512] mult_div_mod_eq [of 512 "va div 2 ^ 12"] by simp
    ultimately show "walk_page m PML4_BASE_ADDRESS va = entry_at m PTABLE_BASE_ADDRESS (va div 4096)"
      using U by (simp add: walk_page_def below_open [abs_def] sub option.map_ident) }
  { assume va: "2 ^ 32 \<le> va" "va < 2 ^ 48"
    then have q: "va div 2 ^ 39 mod 512 = va div 2 ^ 39" "va div 2 ^ 39 < 512" by (simp_all add: less_mult_imp_div_less)
    show "walk_page m PML4_BASE_ADDRESS va = None"
    proof (cases "va div 2 ^ 39 = 0")
      case True
      then have "va div 2 ^ 30 < 512" "4 \<le> va div 2 ^ 30" using va(1) by (simp_all add: less_mult_imp_div_less div_eq_0_iff)
      then show ?thesis using U q True by (simp add: walk_page_def)
    next
      case False
      then show ?thesis using U q by (simp add: walk_page_def)
    qed }
qed

section \<open>The tables after boot\<close>

lemma or_flags: "1 OR 2 OR 4 OR x = (7 :: DWORD) OR x" "1 OR 2 OR x = (3 :: DWORD) OR x" "3 OR 4 OR x = (7 :: DWORD) OR x"
  by (simp_all flip: or.assoc)

lemma paging_entries:
  "i < 512 \<Longrightarrow> lower (initializePaging m) PML4_BASE_ADDRESS i = (if i = 0 then 7 OR word_of_nat (4096 * 0x101) else 0)"
  "i < 512 \<Longrightarrow> upper (initializePaging m) PML4_BASE_ADDRESS i = 0"
  "i < 512 \<Longrightarrow> lower (initializePaging m) PDPTABLE_BASE_ADDRESS i = (if i < 4 then 7 OR word_of_nat (4096 * (0x102 + i)) else 0)"
  "i < 512 \<Longrightarrow> upper (initializePaging m) PDPTABLE_BASE_ADDRESS i = 0"
  "i < 2048 \<Longrightarrow> lower (initializePaging m) PDTABLE_BASE_ADDRESS i = 7 OR word_of_nat (4096 * (0x106 + i))"
  "i < 2048 \<Longrightarrow> upper (initializePaging m) PDTABLE_BASE_ADDRESS i = 0"
  "i < 2 ^ 20 \<Longrightarrow> lower (initializePaging m) PTABLE_BASE_ADDRESS i = (if i < 0x4000 then 3 else 2) OR word_of_nat (4096 * i)"
  "i < 2 ^ 20 \<Longrightarrow> upper (initializePaging m) PTABLE_BASE_ADDRESS i =
     (if i < 2 ^ 19 then high_part (word_of_nat (4096 * i)) else high_part (word_of_nat (4096 * i)) OR PAGE_FLAG_EXB)"
proof -
  have skip: "lower (fill_table b f g lo hi m) b' i = lower m b' i" "upper (fill_table b f g lo hi m) b' i = upper m b' i"
    if "b' + 8 * i + 8 \<le> b + 8 * lo \<or> b + 8 * hi \<le> b' + 8 * i" for b f g lo hi m b' i
    by (rule entry_cong, rule fill_table_outside, use that in linarith)+
  show "i < 512 \<Longrightarrow> lower (initializePaging m) PML4_BASE_ADDRESS i = (if i = 0 then 7 OR word_of_nat (4096 * 0x101) else 0)"
    "i < 512 \<Longrightarrow> upper (initializePaging m) PML4_BASE_ADDRESS i = 0"
    "i < 512 \<Longrightarrow> lower (initializePaging m) PDPTABLE_BASE_ADDRESS i = (if i < 4 then 7 OR word_of_nat (4096 * (0x102 + i)) else 0)"
    "i < 512 \<Longrightarrow> upper (initializePaging m) PDPTABLE_BASE_ADDRESS i = 0"
    "i < 2048 \<Longrightarrow> lower (initializePaging m) PDTABLE_BASE_ADDRESS i = 7 OR word_of_nat (4096 * (0x106 + i))"
    "i < 2048 \<Longrightarrow> upper (initializePaging m) PDTABLE_BASE_ADDRESS i = 0"
    "i < 2 ^ 20 \<Longrightarrow> lower (initializePaging m) PTABLE_BASE_ADDRESS i = (if i < 0x4000 then 3 else 2) OR word_of_nat (4096 * i)"
    "i < 2 ^ 20 \<Longrightarrow> upper (initializePaging m) PTABLE_BASE_ADDRESS i =
       (if i < 2 ^ 19 then high_part (word_of_nat (4096 * i)) else high_part (word_of_nat (4096 * i)) OR PAGE_FLAG_EXB)"
    unfolding initializePaging_def initializePageTable_def initializePageDirectoryTable_def
      initializePageDirectoryPointerTable_def initializePML4Table_def Let_def table_at_eq physicalAddress_eq
    by (simp_all add: skip entry_fill_table entry_set_entry table_addrs table_sizes page_flags or_flags high_part_low high_part_low [of 1052672, simplified]
        del: of_nat_mult of_nat_add)
qed

lemma upper_levels_paging: "upper_levels (initializePaging m)"
proof -
  have f: "unat ((7 OR word_of_nat (4096 * k)) AND (0xFFFFF000 :: DWORD)) = 4096 * k" if "k < 2 ^ 20" for k
    by (rule frame_word [OF that]) simp
  have b: "bit ((7 :: DWORD) OR x) 0" "bit ((7 :: DWORD) OR x) (Suc 0)" "bit ((7 :: DWORD) OR x) 2" for x
    by (simp_all add: bit_simps)
  note e = entry_at_def paging_entries f b Let_def
  have "entry_at (initializePaging m) PML4_BASE_ADDRESS 0 =
      Some \<lparr>phys = PDPTABLE_BASE_ADDRESS, writable = True, user = True, executable = True\<rparr>"
    using f [of "0x101"] by (simp add: entry_at_def paging_entries b del: of_nat_mult) (simp add: table_addrs)
  moreover have "entry_at (initializePaging m) PML4_BASE_ADDRESS i = None" if "0 < i" "i < 512" for i
    using that by (simp add: entry_at_def paging_entries)
  moreover have "entry_at (initializePaging m) PDPTABLE_BASE_ADDRESS i =
      Some \<lparr>phys = PDTABLE_BASE_ADDRESS + 4096 * i, writable = True, user = True, executable = True\<rparr>" if "i < 4" for i
    using f [of "0x102 + i"] that by (simp add: entry_at_def paging_entries b del: of_nat_mult of_nat_add) (simp add: table_addrs)
  moreover have "entry_at (initializePaging m) PDPTABLE_BASE_ADDRESS i = None" if "4 \<le> i" "i < 512" for i
    using that by (simp add: entry_at_def paging_entries)
  moreover have "entry_at (initializePaging m) PDTABLE_BASE_ADDRESS i =
      Some \<lparr>phys = PTABLE_BASE_ADDRESS + 4096 * i, writable = True, user = True, executable = True\<rparr>" if "i < 2048" for i
    using f [of "0x106 + i"] that by (simp add: entry_at_def paging_entries b del: of_nat_mult of_nat_add) (simp add: table_addrs)
  ultimately show ?thesis unfolding upper_levels_def by blast
qed

lemma page_low_bits: "n < 12 \<Longrightarrow> \<not> bit (word_of_nat (4096 * i) :: DWORD) n"
proof -
  have "word_of_nat (4096 * i) = (push_bit 12 (word_of_nat i) :: DWORD)" by (simp add: push_bit_eq_mult mult.commute)
  then show "n < 12 \<Longrightarrow> \<not> bit (word_of_nat (4096 * i) :: DWORD) n" by (simp only: bit_push_bit_iff) simp
qed

lemma entry_at_paging:
  assumes "i < 2 ^ 20"
  shows "entry_at (initializePaging m) PTABLE_BASE_ADDRESS i =
    (if i < 0x4000 then Some \<lparr>phys = 4096 * i, writable = True, user = False, executable = True\<rparr> else None)"
proof (cases "i < 0x4000")
  case True
  then have "unat ((3 OR word_of_nat (4096 * i)) AND (0xFFFFF000 :: DWORD)) = 4096 * i"
    by (intro frame_word) simp_all
  moreover have "\<not> bit (word_of_nat (4096 * i) :: DWORD) 2" by (rule page_low_bits) simp
  ultimately show ?thesis using True
    by (simp add: entry_at_def paging_entries high_part_low bit_simps del: of_nat_mult)
next
  case False
  have "\<not> bit (2 OR word_of_nat (4096 * i) :: DWORD) 0"
    using page_low_bits [of 0 i] by (simp add: bit_or_iff del: bit_0)
  then show ?thesis using False assms by (simp add: entry_at_def paging_entries)
qed

lemma entry_at_cong:
  assumes "\<And>x. b + 8 * i \<le> x \<Longrightarrow> x < b + 8 * i + 8 \<Longrightarrow> m x = m' x"
  shows "entry_at m b i = entry_at m' b i"
  using entry_cong [of b i m m'] assms by (simp only: entry_at_def)

lemma upper_levels_cong:
  assumes "\<And>x. PML4_BASE_ADDRESS \<le> x \<Longrightarrow> x < PTABLE_BASE_ADDRESS \<Longrightarrow> m x = m' x"
  shows "upper_levels m \<longleftrightarrow> upper_levels m'"
proof -
  have e: "entry_at m b i = entry_at m' b i" if "PML4_BASE_ADDRESS \<le> b" "b + 8 * i + 8 \<le> PTABLE_BASE_ADDRESS" for b i
    by (rule entry_at_cong, rule assms) (use that in linarith)+
  show ?thesis unfolding upper_levels_def by (simp add: e table_addrs)
qed

lemma initializePaging_outside: "x < PML4_BASE_ADDRESS \<Longrightarrow> initializePaging m x = m x"
  by (simp add: initializePaging_def initializePageTable_def initializePageDirectoryTable_def
      initializePageDirectoryPointerTable_def initializePML4Table_def Let_def fill_table_outside set_entry_outside table_addrs)

end
