(* ===== verification/PagingProps.thy ===== *)
theory PagingProps
  imports Paging SchedProps
begin

text \<open>
  What the page tables mean: which addresses translate after boot, and which of them a ring-3
  program can reach after any sequence of operations of the kernel.
\<close>

section \<open>The page table of the scheduler's model\<close>

lemma setIf_table [simp]:
  "pte (snd (setIf b s)) = pte s" "allocProcessTable (snd (setIf b s)) = allocProcessTable s"
  "pte (disableInterrupt s) = pte s" "allocProcessTable (disableInterrupt s) = allocProcessTable s"
  by (simp_all add: setIf_def enableInterrupt_def disableInterrupt_def)

lemma table_sel [simp]:
  "pte (set_state p st s) = pte s" "allocProcessTable (set_state p st s) = allocProcessTable s"
  "pte (upd_pcb p f s) = pte s" "allocProcessTable (upd_pcb p f s) = allocProcessTable s"
  "pte (run_next p s) = pte s" "allocProcessTable (run_next p s) = allocProcessTable s"
  "pte (insert_ready p s) = pte s" "allocProcessTable (insert_ready p s) = allocProcessTable s"
  "pte (insert_sleep p s) = pte s" "allocProcessTable (insert_sleep p s) = allocProcessTable s"
  "pte (switchContext p q s) = pte s" "allocProcessTable (switchContext p q s) = allocProcessTable s"
  "pte (registerInterruptHandler v h s) = pte s" "allocProcessTable (registerInterruptHandler v h s) = allocProcessTable s"
  by (simp_all add: proc_update_defs insert_ready_def insert_sleep_def switchContext_def registerInterruptHandler_def
      split: prod.split)

lemma frame_sel [simp]:
  "ram (set_state p st s) = ram s" "interruptHandlers (set_state p st s) = interruptHandlers s" "proc.more (set_state p st s) = proc.more s"
  "ram (upd_pcb p f s) = ram s" "interruptHandlers (upd_pcb p f s) = interruptHandlers s" "proc.more (upd_pcb p f s) = proc.more s"
  "ram (run_next p s) = ram s" "interruptHandlers (run_next p s) = interruptHandlers s" "proc.more (run_next p s) = proc.more s"
  "ram (insert_ready p s) = ram s" "interruptHandlers (insert_ready p s) = interruptHandlers s" "proc.more (insert_ready p s) = proc.more s"
  "ram (insert_sleep p s) = ram s" "interruptHandlers (insert_sleep p s) = interruptHandlers s" "proc.more (insert_sleep p s) = proc.more s"
  "ram (switchContext p q s) = ram s" "interruptHandlers (switchContext p q s) = interruptHandlers s" "proc.more (switchContext p q s) = proc.more s"
  "ram (snd (setIf b s)) = ram s" "interruptHandlers (snd (setIf b s)) = interruptHandlers s" "proc.more (snd (setIf b s)) = proc.more s"
  "ram (disableInterrupt s) = ram s" "interruptHandlers (disableInterrupt s) = interruptHandlers s" "proc.more (disableInterrupt s) = proc.more s"
  by (simp_all add: proc_update_defs insert_ready_def insert_sleep_def switchContext_def setIf_def
      enableInterrupt_def disableInterrupt_def split: prod.split)

text \<open>What the scheduler leaves alone: memory, page table, process table, registered handlers, drivers.\<close>

definition same_table :: "('d, 'z) proc_scheme \<Rightarrow> ('d, 'z) proc_scheme \<Rightarrow> bool" where
  "same_table s s' \<longleftrightarrow> pte s' = pte s \<and> allocProcessTable s' = allocProcessTable s \<and> ram s' = ram s \<and>
     interruptHandlers s' = interruptHandlers s \<and> proc.more s' = proc.more s"

lemma pop_ready_table: "pop_ready s = Some (p, s') \<Longrightarrow> same_table s s'"
  by (auto simp: pop_ready_def same_table_def split: Option.bind_splits)

lemma scheduleBlocked_table: "scheduleBlocked s = Some s' \<Longrightarrow> same_table s s'"
  by (auto simp: scheduleBlocked_def Let_def dest!: pop_ready_table simp: same_table_def split: Option.bind_splits)

lemma blockRunningProcess_table: "blockRunningProcess s = Some s' \<Longrightarrow> same_table s s'"
  by (auto simp: blockRunningProcess_def same_table_def dest!: scheduleBlocked_table)

lemma sleepProcess_table: "sleepProcess ms s = Some (b, s') \<Longrightarrow> same_table s s'"
  by (auto simp: sleepProcess_def sleepUntilTick_def Let_def setIf_def same_table_def dest!: blockRunningProcess_table)

lemma wakeupProcess_table: "wakeupProcess p s = Some (b, s') \<Longrightarrow> same_table s s'"
  by (auto simp: wakeupProcess_def Let_def same_table_def split: if_splits Option.bind_splits)

lemma timeoutSchedule_table: "timeoutSchedule s = Some s' \<Longrightarrow> same_table s s'"
  by (auto simp: timeoutSchedule_def Let_def same_table_def dest!: pop_ready_table split: if_splits Option.bind_splits)

lemma wakeupProcessInInterrupt_table: "wakeupProcessInInterrupt p s = Some s' \<Longrightarrow> same_table s s'"
  by (auto simp: wakeupProcessInInterrupt_def same_table_def dest!: wakeupProcess_table timeoutSchedule_table
      split: if_splits Option.bind_splits)

lemma wake_loop_table: "wake_loop cur s = Some s' \<Longrightarrow> same_table s s'"
proof (rule wake_loop.raw_induct [where P = "\<lambda>_ s s'. same_table s s'", rotated], assumption, goal_cases)
  case (1 f cur s s')
  then show ?case
    by (auto simp: Let_def same_table_def dest!: wakeupProcess_table split: if_splits Option.bind_splits)
qed

lemma timerInterruptHandler_table: "timerInterruptHandler io v s = Some s' \<Longrightarrow> same_table s s'"
  by (auto simp: timerInterruptHandler_def wakeExpiredProcess_def sendEOI_def setPort_def Let_def same_table_def
      dest!: wake_loop_table timeoutSchedule_table split: if_splits Option.bind_splits)

lemma exitProcess_table: "exitProcess s = Some s' \<Longrightarrow> same_table s s'"
  by (auto simp: exitProcess_def setIf_def Let_def same_table_def dest!: wakeupProcess_table scheduleBlocked_table
      split: if_splits Option.bind_splits prod.splits)

lemma insert_ready_nid: "nid (nodes (insert_ready p s) q) = nid (nodes s q)"
  by (simp add: insert_ready_def insertList_def set_nxt_def Let_def)

lemma nodes_setIf: "nodes (snd (setIf b s)) = nodes s"
  by (simp add: setIf_def enableInterrupt_def disableInterrupt_def)

lemma createProcess_table:
  assumes "createProcess e a s = Some (p, s')"
  obtains pid where "p = pcbAddr pid" "pid < length (allocProcessTable s)"
    "pte s' = (pte s)(KERNEL_SIZE + pid * 2 := pte s (KERNEL_SIZE + pid * 2) OR PAGE_FLAG_P)"
    "length (allocProcessTable s') = length (allocProcessTable s)"
    "nid (nodes s' p) = int pid"
proof -
  define s1 where "s1 = disableInterrupt s"
  have t1: "pte s1 = pte s" "allocProcessTable s1 = allocProcessTable s" by (simp_all add: s1_def)
  obtain idx where idx: "findSlot (allocProcessTable s1) 0 (pidCountIdx s1) = Some idx"
    using assms by (auto simp: createProcess_def setIf_def s1_def Let_def split: Option.bind_splits)
  define pid where "pid = unat idx"
  let ?p = "pcbAddr pid"
  define s2 where "s2 = s1\<lparr>pidCountIdx := idx, nodes := (nodes s1)(?p := (nodes s1 ?p)\<lparr>nid := int pid\<rparr>)\<rparr>"
  define s3 where "s3 = upd_pcb ?p (setUpProcess ?p e (word_of_nat (PROCESS_STACK_BASE + PROCESS_STACK_INTERVAL * pid))
    (word_of_nat PROCESS_STACK_SIZE)) s2"
  define s4 where "s4 = upd_pcb ?p (\<lambda>b. b\<lparr>ctx := (ctx b)[REG_RDI := a]\<rparr>) s3"
  define s5 where "s5 = insert_ready ?p (set_state ?p PROCESS_STATE_READY s4)"
  have s5: "pte s5 = pte s" "allocProcessTable s5 = allocProcessTable s" "nid (nodes s5 ?p) = int pid"
    by (simp_all add: s5_def s4_def s3_def s2_def t1 insert_ready_nid set_state_def upd_pcb_def)
  have lt: "pid < length (allocProcessTable s)" and
    r: "p = ?p" "s' = snd (setIf (interrupts_on s) (s5\<lparr>pte := (pte s5)(KERNEL_SIZE + pid * 2 := pte s5 (KERNEL_SIZE + pid * 2) OR PAGE_FLAG_P),
      allocProcessTable := (allocProcessTable s5)[pid := 1], pidCountIdx := idx + 1\<rparr>))"
    using assms idx s5(2) t1(2)
    by (auto simp: createProcess_def setIf_def Let_def s1_def [symmetric] pid_def [symmetric] s2_def [symmetric]
        s3_def [symmetric] s4_def [symmetric] s5_def [symmetric] simp del: of_nat_add of_nat_mult split: if_splits)
  show thesis by (rule that [OF r(1) lt]) (simp_all add: r s5 nodes_setIf)
qed

lemma setPageUserAccess_table:
  "pte (setPageUserAccess a b c s) = page_loop a b c (pte s)"
  "allocProcessTable (setPageUserAccess a b c s) = allocProcessTable s"
  by (simp_all add: setPageUserAccess_def flushTLB_def)

definition grant :: "nat \<Rightarrow> nat \<Rightarrow> bool \<Rightarrow> (nat \<Rightarrow> DWORD) \<Rightarrow> nat \<Rightarrow> DWORD" where
  "grant k n allow pg i =
     (if k \<le> i \<and> i < k + n then if allow then pg i OR PAGE_FLAG_US else pg i AND NOT PAGE_FLAG_US else pg i)"

lemma stack_grant: "page_loop (userStack pid) (userStack pid + USER_STACK_SIZE) allow pg = grant (userStack pid div 0x1000) 2 allow pg"
  by (auto simp: stack_page_loop grant_def fun_eq_iff)

lemma code_grant: "page_loop USER_CODE_ADDRESS (USER_CODE_ADDRESS + USER_CODE_SIZE) allow pg = grant (USER_CODE_ADDRESS div 0x1000) 256 allow pg"
proof -
  have "USER_CODE_ADDRESS + USER_CODE_SIZE = USER_CODE_ADDRESS + 0x1000 * 256" "USER_CODE_ADDRESS mod 0x1000 = 0"
    by (simp_all add: memory_map_defs)
  then show ?thesis by (simp only: page_loop_range) (auto simp: grant_def fun_eq_iff)
qed

lemma createUserProcess_table:
  assumes "createUserProcess e a s = Some (p, s')"
  obtains pid where "p = pcbAddr pid" "pid < length (allocProcessTable s)"
    "length (allocProcessTable s') = length (allocProcessTable s)"
    "pte s' = grant (userStack pid div 0x1000) 2 True
       ((pte s)(KERNEL_SIZE + pid * 2 := pte s (KERNEL_SIZE + pid * 2) OR PAGE_FLAG_P))"
proof -
  obtain s2 where c: "createProcess e a (disableInterrupt s) = Some (p, s2)"
    "s' = snd (setIf (interrupts_on s) (upd_pcb p (\<lambda>b. b\<lparr>ctx := userContext (userStack (nat (nid (nodes s2 p)))) (ctx b)\<rparr>)
       (setPageUserAccess (userStack (nat (nid (nodes s2 p)))) (userStack (nat (nid (nodes s2 p))) + USER_STACK_SIZE) True s2)))"
    using assms by (auto simp: createUserProcess_def setIf_def Let_def split: Option.bind_splits)
  show thesis
  proof (rule createProcess_table [OF c(1)])
    fix pid
    assume "p = pcbAddr pid" "pid < length (allocProcessTable (disableInterrupt s))"
      "pte s2 = (pte (disableInterrupt s))(KERNEL_SIZE + pid * 2 := pte (disableInterrupt s) (KERNEL_SIZE + pid * 2) OR PAGE_FLAG_P)"
      "length (allocProcessTable s2) = length (allocProcessTable (disableInterrupt s))" "nid (nodes s2 p) = int pid"
    then show thesis by (intro that [of pid]) (simp_all add: c(2) setPageUserAccess_table stack_grant)
  qed
qed

lemma runUserProgram_table:
  assumes "runUserProgram img sz a s = Some (p, s')" and "unat sz \<le> USER_CODE_SIZE"
  obtains pid where "p = pcbAddr pid" "pid < length (allocProcessTable s)"
    "length (allocProcessTable s') = length (allocProcessTable s)"
    "pte s' = grant (userStack pid div 0x1000) 2 True
       ((grant (USER_CODE_ADDRESS div 0x1000) 256 True (pte s))(KERNEL_SIZE + pid * 2 :=
         grant (USER_CODE_ADDRESS div 0x1000) 256 True (pte s) (KERNEL_SIZE + pid * 2) OR PAGE_FLAG_P))"
proof -
  define s3 where "s3 = setPageUserAccess USER_CODE_ADDRESS (USER_CODE_ADDRESS + USER_CODE_SIZE) True
    ((disableInterrupt s)\<lparr>ram := memcpy (ram (disableInterrupt s)) USER_CODE_ADDRESS img (int_of_qword sz)\<rparr>)"
  have s3: "pte s3 = grant (USER_CODE_ADDRESS div 0x1000) 256 True (pte s)" "allocProcessTable s3 = allocProcessTable s"
    by (simp_all add: s3_def setPageUserAccess_table code_grant)
  obtain s4 where c: "createUserProcess (word_of_nat USER_CODE_ADDRESS) a s3 = Some (p, s4)" "s' = snd (setIf (interrupts_on s) s4)"
    using assms by (auto simp: runUserProgram_def setIf_def Let_def s3_def split: Option.bind_splits if_splits)
  show thesis
    by (rule createUserProcess_table [OF c(1), unfolded s3]) (rule that; simp add: c(2))
qed

lemma collectorTurn_table:
  assumes "collectorTurn preIf s = Some (True, s')"
  defines "pid \<equiv> nat (bytes_pid (fst (snd (deQueue (exitProcessQueue s) (replicate 4 0)))))"
  shows "length (allocProcessTable s') = length (allocProcessTable s)"
    "pte s' = (grant (userStack pid div 0x1000) 2 False (pte s))(KERNEL_SIZE + pid * 2 :=
         grant (userStack pid div 0x1000) 2 False (pte s) (KERNEL_SIZE + pid * 2) AND NOT PAGE_FLAG_P)"
  using assms
  by (auto simp: collectorTurn_def reclaim_def Let_def setPageUserAccess_table stack_grant split: if_splits prod.splits)

section \<open>Ring 3 after any run of the kernel\<close>

text \<open>What a run of the kernel has granted: whether a user program was loaded, and the pids whose user stack is open.\<close>

inductive kernel_step :: "'d portio \<Rightarrow> ('d, 'z) proc_scheme \<times> bool \<times> nat set \<Rightarrow> ('d, 'z) proc_scheme \<times> bool \<times> nat set \<Rightarrow> bool"
  for io where
  boot: "initScheduler c i buf s = Some s' \<Longrightarrow> kernel_step io (s, l, U) (s', l, U)"
| create: "createProcess e a s = Some (p, s') \<Longrightarrow> kernel_step io (s, l, U) (s', l, U)"
| launch: "runUserProgram img sz a s = Some (pcbAddr pid, s') \<Longrightarrow> unat sz \<le> USER_CODE_SIZE \<Longrightarrow>
    kernel_step io (s, l, U) (s', True, insert pid U)"
| collect: "collectorTurn preIf s = Some (True, s') \<Longrightarrow>
    pid = nat (bytes_pid (fst (snd (deQueue (exitProcessQueue s) (replicate 4 0))))) \<Longrightarrow>
    kernel_step io (s, l, U) (s', l, U - {pid})"
| idle: "collectorTurn preIf s = Some (False, s') \<Longrightarrow> kernel_step io (s, l, U) (s', l, U)"
| timer: "timerInterruptHandler io v s = Some s' \<Longrightarrow> kernel_step io (s, l, U) (s', l, U)"
| leave: "exitProcess s = Some s' \<Longrightarrow> kernel_step io (s, l, U) (s', l, U)"
| sleep: "sleepProcess ms s = Some (b, s') \<Longrightarrow> kernel_step io (s, l, U) (s', l, U)"
| block: "blockRunningProcess s = Some s' \<Longrightarrow> kernel_step io (s, l, U) (s', l, U)"
| wake: "wakeupProcessInInterrupt p s = Some s' \<Longrightarrow> kernel_step io (s, l, U) (s', l, U)"
| switch: "schedule s = Some (b, i, s') \<Longrightarrow> kernel_step io (s, l, U) (s', l, U)"

text \<open>The entries below the one that lies at the address of the descriptor tables (theory
  \<^verbatim>\<open>Descriptor\<close>); later ones are overwritten while the kernel boots.\<close>

definition LIMIT :: nat where "LIMIT = 0x81400"

definition p_bit :: "DWORD \<Rightarrow> bool" where "p_bit w = bit w 0"
definition us_bit :: "DWORD \<Rightarrow> bool" where "us_bit w = bit w 2"

lemma flag_bits [simp]:
  "p_bit (w OR PAGE_FLAG_P)" "p_bit (w OR PAGE_FLAG_US) = p_bit w" "p_bit (w AND NOT PAGE_FLAG_US) = p_bit w"
  "us_bit (w OR PAGE_FLAG_P) = us_bit w" "us_bit (w AND NOT PAGE_FLAG_P) = us_bit w"
  "us_bit (w OR PAGE_FLAG_US)" "\<not> us_bit (w AND NOT PAGE_FLAG_US)"
  by (simp_all add: p_bit_def us_bit_def PAGE_FLAG_P_def PAGE_FLAG_US_def bit_simps)

definition frame :: "DWORD \<Rightarrow> DWORD" where "frame w = w AND 0xFFFFF000"

lemma flag_frame [simp]: "frame (w OR PAGE_FLAG_US) = frame w" "frame (w AND NOT PAGE_FLAG_US) = frame w"
proof -
  have "(0xFFFFF000 :: DWORD) = NOT 0xFFF" by simp
  then show "frame (w OR PAGE_FLAG_US) = frame w" "frame (w AND NOT PAGE_FLAG_US) = frame w"
    by (simp_all add: frame_def PAGE_FLAG_US_def bit.conj_disj_distrib2 and.assoc)
qed

lemma grant_bits:
  "p_bit (grant k n a pg i) = p_bit (pg i)"
  "us_bit (grant k n True pg i) \<longleftrightarrow> k \<le> i \<and> i < k + n \<or> us_bit (pg i)"
  "us_bit (grant k n False pg i) \<longleftrightarrow> \<not> (k \<le> i \<and> i < k + n) \<and> us_bit (pg i)"
  "frame (grant k n a pg i) = frame (pg i)"
  by (auto simp: grant_def)

definition code_page :: "nat \<Rightarrow> bool" where
  "code_page i \<longleftrightarrow> USER_CODE_ADDRESS div 0x1000 \<le> i \<and> i < USER_CODE_ADDRESS div 0x1000 + 256"

definition stack_page :: "nat \<Rightarrow> nat \<Rightarrow> bool" where
  "stack_page pid i \<longleftrightarrow> userStack pid div 0x1000 \<le> i \<and> i < userStack pid div 0x1000 + 2"

lemma userStack_page: "userStack pid div 0x1000 = 0x3100 + 3 * pid"
  by (simp add: userStack_def memory_map_defs USER_STACK_BASE_def)

lemma stack_page_inj: "stack_page pid i \<Longrightarrow> stack_page q i \<Longrightarrow> pid = q"
  by (simp add: stack_page_def userStack_page)

definition granted :: "('d, 'z) proc_scheme \<Rightarrow> bool \<Rightarrow> nat set \<Rightarrow> bool" where
  "granted s l U \<longleftrightarrow> length (allocProcessTable s) = PROCESS_MAXCOUNT \<and> (\<forall>pid \<in> U. pid < PROCESS_MAXCOUNT) \<and>
     (\<forall>i < KERNEL_SIZE. p_bit (pte s i) \<and> frame (pte s i) = word_of_nat (4096 * i)) \<and>
     (\<forall>i < LIMIT. us_bit (pte s i) \<longleftrightarrow> l \<and> code_page i \<or> (\<exists>pid \<in> U. stack_page pid i))"

definition harmless :: "('d, 'z) proc_scheme \<Rightarrow> ('d, 'z) proc_scheme \<Rightarrow> bool" where
  "harmless s s' \<longleftrightarrow> length (allocProcessTable s') = length (allocProcessTable s) \<and>
     (\<forall>i < KERNEL_SIZE. p_bit (pte s' i) = p_bit (pte s i) \<and> frame (pte s' i) = frame (pte s i)) \<and>
     (\<forall>i. us_bit (pte s' i) = us_bit (pte s i))"

lemma granted_harmless: "harmless s s' \<Longrightarrow> granted s l U \<Longrightarrow> granted s' l U"
  by (simp add: harmless_def granted_def)

lemma same_table_harmless: "same_table s s' \<Longrightarrow> harmless s s'"
  by (simp add: same_table_def harmless_def)

lemma createProcess_harmless: "createProcess e a s = Some (p, s') \<Longrightarrow> harmless s s'"
  by (elim createProcess_table) (simp add: harmless_def)

lemma initScheduler_harmless: 
  assumes "initScheduler c i buf s = Some s'" shows "harmless s s'"
proof -
  define s3 where "s3 = (set_state (pcbAddr 0) PROCESS_STATE_RUNNING
      (s\<lparr>pidCountIdx := 0, nodes := (nodes s)(pcbAddr 0 := (nodes s (pcbAddr 0))\<lparr>nid := 0\<rparr>)\<rparr>))"
  define s4 where "s4 = s3\<lparr>allocProcessTable := (allocProcessTable s3)[0 := 1], pidCountIdx := 1,
      processList := initList (processList s3), sleepList := initList (sleepList s3),
      runningProcess := pcbAddr 0, exitProcessQueue := initQueue buf (int EXIT_QUEUE_COUNT) 4\<rparr>"
  obtain p s5 q s6 where c: "createProcess c 0 s4 = Some (p, s5)"
    "createProcess i 0 (s5\<lparr>collectorProcess := p\<rparr>) = Some (q, s6)"
    "pte s' = pte s6" "allocProcessTable s' = allocProcessTable s6"
    using assms [unfolded initScheduler_def Let_def, folded s3_def, folded s4_def] by (auto split: Option.bind_splits)
  have "harmless s s4" by (simp add: harmless_def s4_def s3_def)
  with createProcess_harmless [OF c(1)] createProcess_harmless [OF c(2)] c(3,4) show ?thesis
    by (simp add: harmless_def)
qed

lemma schedule_table: "schedule s = Some (b, i, s') \<Longrightarrow> same_table s s'"
  by (auto simp: schedule_def setIf_def Let_def same_table_def enableInterrupt_def dest!: pop_ready_table
      split: if_splits Option.bind_splits)

lemma collectorTurn_idle: "collectorTurn preIf s = Some (False, s') \<Longrightarrow> same_table s s'"
  by (auto simp: collectorTurn_def Let_def dest: blockRunningProcess_table split: if_splits prod.splits)

lemma launch_granted:
  assumes "runUserProgram img sz a s = Some (pcbAddr pid, s')" "unat sz \<le> USER_CODE_SIZE" and g: "granted s l U"
  shows "granted s' True (insert pid U)"
proof (rule runUserProgram_table [OF assms(1,2)])
  fix pid'
  assume p: "pcbAddr pid = pcbAddr pid'" "pid' < length (allocProcessTable s)"
    "length (allocProcessTable s') = length (allocProcessTable s)"
    "pte s' = grant (userStack pid' div 0x1000) 2 True
       ((grant (USER_CODE_ADDRESS div 0x1000) 256 True (pte s))(KERNEL_SIZE + pid' * 2 :=
         grant (USER_CODE_ADDRESS div 0x1000) 256 True (pte s) (KERNEL_SIZE + pid' * 2) OR PAGE_FLAG_P))"
  then have "pid' = pid" by (simp add: pcbAddr_def)
  have "us_bit (pte s' i) \<longleftrightarrow> stack_page pid i \<or> code_page i \<or> us_bit (pte s i)" for i
    by (auto simp: p(4) \<open>pid' = pid\<close> grant_bits stack_page_def code_page_def)
  moreover have "p_bit (pte s' i) = p_bit (pte s i)" "frame (pte s' i) = frame (pte s i)" if "i < KERNEL_SIZE" for i
    using that by (auto simp: p(4) grant_bits)
  ultimately show ?thesis using g p(2,3) \<open>pid' = pid\<close> by (auto simp: granted_def)
qed

lemma collect_granted:
  assumes "collectorTurn preIf s = Some (True, s')" and g: "granted s l U"
    and pid: "pid = nat (bytes_pid (fst (snd (deQueue (exitProcessQueue s) (replicate 4 0)))))"
  shows "granted s' l (U - {pid})"
proof -
  note t = collectorTurn_table [OF assms(1), folded pid]
  have "us_bit (pte s' i) \<longleftrightarrow> \<not> stack_page pid i \<and> us_bit (pte s i)" for i
    by (auto simp: t(2) grant_bits stack_page_def)
  moreover have "p_bit (pte s' i) = p_bit (pte s i)" "frame (pte s' i) = frame (pte s i)" if "i < KERNEL_SIZE" for i
    using that by (auto simp: t(2) grant_bits)
  moreover have "code_page i \<Longrightarrow> \<not> stack_page pid i" for i
    by (simp add: code_page_def stack_page_def userStack_page memory_map_defs)
  ultimately show ?thesis using g t(1) by (auto simp: granted_def dest: stack_page_inj)
qed

lemma kernel_step_granted:
  assumes "kernel_step io (s, l, U) (s', l', U')" and "granted s l U"
  shows "granted s' l' U'"
  using assms
  by (cases rule: kernel_step.cases)
    (auto intro: granted_harmless same_table_harmless createProcess_harmless initScheduler_harmless
      timerInterruptHandler_table exitProcess_table sleepProcess_table blockRunningProcess_table
      wakeupProcessInInterrupt_table schedule_table collectorTurn_idle launch_granted collect_granted)

lemma kernel_run_granted:
  "(kernel_step io)\<^sup>*\<^sup>* x y \<Longrightarrow> granted (fst x) (fst (snd x)) (snd (snd x)) \<Longrightarrow> granted (fst y) (fst (snd y)) (snd (snd y))"
  by (induction rule: rtranclp_induct) (auto dest: kernel_step_granted)

text \<open>A memory holds the page tables of a state when the upper levels and the upper words of the entries are as the
  loader made them and the low words of the entries are those of the state: the kernel writes no others.\<close>

definition page_upper :: "nat \<Rightarrow> DWORD" where
  "page_upper i = (if i < 2 ^ 19 then high_part (word_of_nat (4096 * i)) else high_part (word_of_nat (4096 * i)) OR PAGE_FLAG_EXB)"

definition holds_tables :: "memory \<Rightarrow> ('d, 'z) proc_scheme \<Rightarrow> bool" where
  "holds_tables m s \<longleftrightarrow> upper_levels m \<and>
     (\<forall>i < LIMIT. lower m PTABLE_BASE_ADDRESS i = pte s i \<and> upper m PTABLE_BASE_ADDRESS i = page_upper i)"

definition user_space :: "memory \<Rightarrow> nat set" where
  "user_space m = {va. va < 2 ^ 48 \<and> (\<exists>t. translate m va = Some t \<and> user t)}"

lemma translate_open:
  assumes "upper_levels m" "va < 2 ^ 48"
  shows "(\<exists>t. translate m va = Some t \<and> user t) \<longleftrightarrow> va < 2 ^ 32 \<and>
    p_bit (lower m PTABLE_BASE_ADDRESS (va div 4096)) \<and> us_bit (lower m PTABLE_BASE_ADDRESS (va div 4096))"
proof (cases "va < 2 ^ 32")
  case True
  then have "translate m va = map_option (\<lambda>t. t\<lparr>phys := phys t + va mod 2 ^ 12\<rparr>) (entry_at m PTABLE_BASE_ADDRESS (va div 4096))"
    using assms(1) by (simp add: translate_def walk_page_upper)
  then show ?thesis using True by (auto simp: entry_at_def Let_def p_bit_def us_bit_def)
next
  case False
  then show ?thesis using assms by (simp add: translate_def walk_page_upper)
qed

lemma translate_frame:
  assumes "holds_tables m s" "va div 4096 < KERNEL_SIZE" "p_bit (pte s (va div 4096))"
    and f: "frame (pte s (va div 4096)) = word_of_nat (4096 * (va div 4096))"
  shows "map_option phys (translate m va) = Some va"
proof -
  let ?i = "va div 4096"
  have i: "?i < LIMIT" "?i < 0x4000" "va < 2 ^ 32"
    using assms(2) by (simp_all add: LIMIT_def KERNEL_SIZE_def div_less_iff_less_mult)
  then have "lower m PTABLE_BASE_ADDRESS ?i = pte s ?i" "upper m PTABLE_BASE_ADDRESS ?i = high_part (word_of_nat (4096 * ?i))"
    using assms(1) by (simp_all add: holds_tables_def page_upper_def)
  moreover have "unat (word_of_nat (4096 * ?i) :: DWORD) = 4096 * ?i" by (rule unat_DWORD) (use i in simp)
  moreover have "high_part (word_of_nat (4096 * ?i)) = 0" by (rule high_part_low) (use i in simp)
  ultimately have "entry_at m PTABLE_BASE_ADDRESS ?i = Some \<lparr>phys = 4096 * ?i, writable = bit (pte s ?i) 1, user = bit (pte s ?i) 2,
      executable = True\<rparr>"
    using assms(3) f by (simp add: entry_at_def frame_def p_bit_def Let_def del: of_nat_mult)
  then show ?thesis using i(3) assms(1) by (simp add: translate_def holds_tables_def walk_page_upper)
qed

lemma granted_boot:
  assumes "holds_tables (initializePaging m) s" "length (allocProcessTable s) = PROCESS_MAXCOUNT"
  shows "granted s False {}"
proof -
  have e: "pte s i = (if i < 0x4000 then 3 else 2) OR word_of_nat (4096 * i)" if "i < LIMIT" for i
    using assms(1) that paging_entries(7) [of i m] by (auto simp: holds_tables_def LIMIT_def)
  have "\<not> us_bit (pte s i)" if "i < LIMIT" for i
    using page_low_bits [of 2 i] unfolding us_bit_def e [OF that] bit_or_iff by (cases "i < 0x4000") simp_all
  moreover have "p_bit (pte s i) \<and> frame (pte s i) = word_of_nat (4096 * i)" if "i < KERNEL_SIZE" for i
  proof -
    have "unat (frame (pte s i)) = 4096 * i"
      using e [of i] that frame_word [of i 3] by (simp add: frame_def LIMIT_def KERNEL_SIZE_def)
    then have "frame (pte s i) = word_of_nat (4096 * i)" by (metis of_nat_unat ucast_id)
    then show ?thesis using e [of i] that by (simp add: p_bit_def LIMIT_def KERNEL_SIZE_def bit_or_iff)
  qed
  ultimately show ?thesis using assms(2) by (auto simp: granted_def)
qed

lemma granted_pages:
  "code_page (va div 4096) \<longleftrightarrow> va \<in> {USER_CODE_ADDRESS..<USER_CODE_ADDRESS + USER_CODE_SIZE}"
  "stack_page pid (va div 4096) \<longleftrightarrow> va \<in> {userStack pid..<userStack pid + USER_STACK_SIZE}"
  by (auto simp: code_page_def stack_page_def userStack_page userStack_def memory_map_defs USER_STACK_BASE_def
      div_less_iff_less_mult less_eq_div_iff_mult_less_eq)

lemma granted_low:
  assumes "granted s l U" and "l \<and> code_page i \<or> (\<exists>pid \<in> U. stack_page pid i)"
  shows "i < KERNEL_SIZE"
  using assms by (auto simp: granted_def code_page_def stack_page_def userStack_page memory_map_defs KERNEL_SIZE_def PROCESS_MAXCOUNT_def)

lemma user_space_granted:
  assumes "granted s l U" "holds_tables m s" "va < 4096 * LIMIT"
  shows "va \<in> user_space m \<longleftrightarrow> l \<and> code_page (va div 4096) \<or> (\<exists>pid \<in> U. stack_page pid (va div 4096))"
proof -
  have i: "va div 4096 < LIMIT" "va < 2 ^ 32" "va < 2 ^ 48"
    using assms(3) by (simp_all add: LIMIT_def div_less_iff_less_mult)
  then have "va \<in> user_space m \<longleftrightarrow> p_bit (pte s (va div 4096)) \<and> us_bit (pte s (va div 4096))"
    using translate_open [of m va] assms(2) by (simp add: user_space_def holds_tables_def)
  then show ?thesis using assms(1) i(1) granted_low [OF assms(1), of "va div 4096"] unfolding granted_def by blast
qed

lemma user_space_frame:
  assumes "granted s l U" "holds_tables m s" "va < 4096 * LIMIT" "va \<in> user_space m"
  shows "map_option phys (translate m va) = Some va"
proof -
  have "va div 4096 < KERNEL_SIZE"
    using granted_low [OF assms(1)] user_space_granted [OF assms(1-3)] assms(4) by blast
  then show ?thesis using translate_frame [OF assms(2)] assms(1) by (simp add: granted_def)
qed

section \<open>Properties\<close>

text \<open>C19: After \<^verbatim>\<open>InitializePaging\<close>, from any contents of memory: every address below 64 MB is mapped to
  itself, writable, executable and closed to ring 3; every other address of the 48-bit space faults.\<close>

theorem boot_page_tables:
  assumes "va < 2 ^ 48"
  shows "translate (initializePaging m) va =
    (if va < 0x4000000 then Some \<lparr>phys = va, writable = True, user = False, executable = True\<rparr> else None)"
proof (cases "va < 2 ^ 32")
  case True
  then have "va div 4096 < 2 ^ 20" by (simp add: less_mult_imp_div_less)
  then show ?thesis using True
    by (simp add: translate_def walk_page_upper [OF upper_levels_paging] entry_at_paging div_less_iff_less_mult)
next
  case False
  then show ?thesis using assms by (simp add: translate_def walk_page_upper [OF upper_levels_paging])
qed

text \<open>The loader shifts the address by 28 where the upper half of an entry needs 32: of the pages below 2 GB only
  those below 256 MB would be mapped to themselves if they were made present.\<close>

definition frame_of :: "memory \<Rightarrow> nat \<Rightarrow> nat" where
  "frame_of m i = unat (lower m PTABLE_BASE_ADDRESS i AND 0xFFFFF000) + 2 ^ 32 * unat (upper m PTABLE_BASE_ADDRESS i AND 0xFFFFF)"

lemma high_part_page:
  assumes "i < 2 ^ 19" shows "unat (high_part (word_of_nat (4096 * i)) AND 0xFFFFF) = i div 2 ^ 16"
proof -
  let ?a = "word_of_nat (4096 * i) :: DWORD"
  have "unat ?a = 4096 * i" by (rule unat_DWORD) (use assms in simp)
  then have "sint ?a = int (4096 * i)" using assms by (subst sint_DWORD) (simp_all del: of_nat_mult of_nat_unat)
  then have "sint (signed_drop_bit 28 ?a) = int (i div 2 ^ 16)"
    unfolding sint_signed_drop_bit_eq using div_mult2_eq [of "4096 * i" 4096 "2 ^ 16"]
    by (simp add: drop_bit_eq_div zdiv_int flip: of_nat_mult)
  then have "word_of_int (sint (signed_drop_bit 28 ?a)) = (word_of_nat (i div 2 ^ 16) :: DWORD)"
    by (simp only: of_int_of_nat_eq)
  then have "signed_drop_bit 28 ?a = word_of_nat (i div 2 ^ 16)" by (simp only: of_int_sint scast_id)
  moreover have "i div 2 ^ 16 < 8" using assms by (simp add: less_mult_imp_div_less)
  then have "i div 2 ^ 16 \<in> {0, 1, 2, 3, 4, 5, 6, 7}" by auto
  ultimately show ?thesis unfolding high_part_def by auto
qed

lemma frame_of_page:
  assumes "i < 2 ^ 19" shows "frame_of (initializePaging m) i = 4096 * i + 2 ^ 32 * (i div 2 ^ 16)"
proof -
  have "unat (((if i < 0x4000 then 3 else 2) OR word_of_nat (4096 * i)) AND (0xFFFFF000 :: DWORD)) = 4096 * i"
    by (rule frame_word) (use assms in simp_all)
  then show ?thesis using assms high_part_page [OF assms] by (simp add: frame_of_def paging_entries del: of_nat_mult)
qed

text \<open>C2: What a ring-3 program can reach, in the whole 48-bit space. Start from the loader's tables and take any
  sequence of kernel operations: booting the scheduler, creating processes, launching user programs, exits, collections,
  timer interrupts, sleeping, blocking and waking. Then below \<^verbatim>\<open>0x81400000\<close> ring 3 reaches exactly the code area,
  once a program was launched, and the user stacks of the pids that were launched and not yet collected: nothing outside
  the user region, and each byte at its own physical address. From 4 GB on it reaches nothing. Between the two the
  entries are bytes of the descriptor tables and the kernel image, which lie over the page table: a page is reachable
  exactly when the two flags happen to be set in the four bytes at its entry's place.\<close>

theorem ring3_reachable_memory:
  assumes "(kernel_step io)\<^sup>*\<^sup>* (s0, False, {}) (s, l, U)"
    and "holds_tables (initializePaging m0) s0" and "length (allocProcessTable s0) = PROCESS_MAXCOUNT"
    and "holds_tables m s"
  shows "user_space m \<inter> {..<4096 * LIMIT} = (if l then {USER_CODE_ADDRESS..<USER_CODE_ADDRESS + USER_CODE_SIZE} else {}) \<union>
      (\<Union>pid \<in> U. {userStack pid..<userStack pid + USER_STACK_SIZE}) \<and>
    user_space m \<inter> {..<4096 * LIMIT} \<subseteq> {USER_MEMORY_BASE..<USER_MEMORY_END} \<and>
    (\<forall>va \<in> user_space m \<inter> {..<4096 * LIMIT}. map_option phys (translate m va) = Some va) \<and>
    user_space m - {..<4096 * LIMIT} = {va. 4096 * LIMIT \<le> va \<and> va < 2 ^ 32 \<and>
      p_bit (lower m PTABLE_BASE_ADDRESS (va div 4096)) \<and> us_bit (lower m PTABLE_BASE_ADDRESS (va div 4096))}"
proof -
  have g: "granted s l U" using kernel_run_granted [OF assms(1)] granted_boot [OF assms(2,3)] by simp
  have low: "va < 4096 * LIMIT" if "l \<and> code_page (va div 4096) \<or> (\<exists>pid \<in> U. stack_page pid (va div 4096))" for va
    using granted_low [OF g that] by (simp add: KERNEL_SIZE_def LIMIT_def div_less_iff_less_mult)
  note e = user_space_granted [OF g assms(4)]
  have V: "user_space m \<inter> {..<4096 * LIMIT} = (if l then {USER_CODE_ADDRESS..<USER_CODE_ADDRESS + USER_CODE_SIZE} else {}) \<union>
      (\<Union>pid \<in> U. {userStack pid..<userStack pid + USER_STACK_SIZE})" (is "?V = ?G")
  proof (rule set_eqI)
    fix va
    have "va \<in> ?V \<longleftrightarrow> l \<and> code_page (va div 4096) \<or> (\<exists>pid \<in> U. stack_page pid (va div 4096))"
      using e [of va] low [of va] by blast
    then show "va \<in> ?V \<longleftrightarrow> va \<in> ?G" unfolding granted_pages by (cases l) simp_all
  qed
  moreover have "?V \<subseteq> {USER_MEMORY_BASE..<USER_MEMORY_END}"
    unfolding V using g
    by (auto simp: granted_def memory_map_defs USER_STACK_BASE_def userStack_def PROCESS_MAXCOUNT_def split: if_splits)
  moreover have "\<forall>va \<in> ?V. map_option phys (translate m va) = Some va"
    using user_space_frame [OF g assms(4)] by auto
  moreover have "user_space m - {..<4096 * LIMIT} = {va. 4096 * LIMIT \<le> va \<and> va < 2 ^ 32 \<and>
      p_bit (lower m PTABLE_BASE_ADDRESS (va div 4096)) \<and> us_bit (lower m PTABLE_BASE_ADDRESS (va div 4096))}"
    using translate_open [of m] assms(4) by (auto simp: user_space_def holds_tables_def)
  ultimately show ?thesis by blast
qed

lemma holds_tables_put:
  assumes "upper_levels m"
  shows "holds_tables (fill_table PTABLE_BASE_ADDRESS (pte s) page_upper 0 LIMIT m) s"
proof -
  have "upper_levels (fill_table PTABLE_BASE_ADDRESS (pte s) page_upper 0 LIMIT m) \<longleftrightarrow> upper_levels m"
    by (rule upper_levels_cong) (simp add: fill_table_outside)
  then show ?thesis using assms by (simp add: holds_tables_def entry_fill_table)
qed

definition loaded :: "unit proc" where
  "loaded = power_on\<lparr>pte := lower (initializePaging (\<lambda>_. 0)) PTABLE_BASE_ADDRESS\<rparr>"

theorem ring3_reachable_memory_witness:
  "\<exists>pid m. user_space m \<inter> {..<4096 * LIMIT} = {USER_CODE_ADDRESS..<USER_CODE_ADDRESS + USER_CODE_SIZE} \<union> {userStack pid..<userStack pid + USER_STACK_SIZE}"
proof -
  have "boot_ok loaded" "length (replicate 400 (0::BYTE)) = EXIT_QUEUE_COUNT * 4"
    by (simp_all add: boot_ok_def loaded_def power_on_def EXIT_QUEUE_COUNT_def)
  from initScheduler_rel [OF this, where collectorEntry = "0x1000" and idleEntry = "0x2000"]
  obtain s1 where s1: "initScheduler 0x1000 0x2000 (replicate 400 0) loaded = Some s1" "sched_rel s1 [pcbAddr 1] []"
    "allocProcessTable s1 = boot_table" by metis
  have "\<exists>k < PROCESS_MAXCOUNT. allocProcessTable s1 ! k \<noteq> 1"
    by (rule exI [of _ 3]) (simp add: s1(3) boot_table_nth PROCESS_MAXCOUNT_def)
  moreover have "unat (0x400 :: QWORD) \<le> USER_CODE_SIZE" by (simp add: USER_CODE_SIZE_def)
  ultimately obtain pid s2 where s2: "runUserProgram 0x8000 0x400 7 s1 = Some (pcbAddr pid, s2)"
    using runUserProgram_rel [OF s1(2)] by metis
  have "kernel_step null_io (loaded, False, {}) (s1, False, {})" by (rule kernel_step.boot [OF s1(1)])
  moreover have "kernel_step null_io (s1, False, {}) (s2, True, {pid})"
    by (rule kernel_step.launch [OF s2]) (simp add: USER_CODE_SIZE_def)
  ultimately have "(kernel_step null_io)\<^sup>*\<^sup>* (loaded, False, {}) (s2, True, {pid})" by auto
  moreover have t: "holds_tables (initializePaging (\<lambda>_. 0)) loaded" "length (allocProcessTable loaded) = PROCESS_MAXCOUNT"
    by (simp_all add: holds_tables_def upper_levels_paging loaded_def power_on_def page_upper_def paging_entries LIMIT_def)
  note run = calculation t
  have "user_space (fill_table PTABLE_BASE_ADDRESS (pte s2) page_upper 0 LIMIT (initializePaging (\<lambda>_. 0))) \<inter> {..<4096 * LIMIT} =
      {USER_CODE_ADDRESS..<USER_CODE_ADDRESS + USER_CODE_SIZE} \<union> {userStack pid..<userStack pid + USER_STACK_SIZE}"
    using ring3_reachable_memory [OF run holds_tables_put [OF upper_levels_paging]] by simp
  then show ?thesis by blast
qed

theorem boot_page_tables_witness:
  "translate (initializePaging (\<lambda>_. 0)) 0x123456 = Some \<lparr>phys = 0x123456, writable = True, user = False, executable = True\<rparr> \<and>
   translate (initializePaging (\<lambda>_. 0)) 0x4000000 = None"
  using boot_page_tables [of "0x123456"] boot_page_tables [of "0x4000000"] by simp

end
