(* ===== verification/BootImage.thy ===== *)
theory BootImage
  imports PhysMem Console
begin

text \<open>
  From the build to the running kernel image: \<^verbatim>\<open>tools/imagemaker/ImageMaker.c\<close> puts boot sector,
  loader and kernel into one disk image and notes the sector counts in the boot sector
  (\<^verbatim>\<open>common/BootInfo.h\<close>); the boot loader (\<^verbatim>\<open>boot/BootLoader.asm\<close>) reads the sectors to
  0x10000; the loader (\<^verbatim>\<open>loader/32bit.c\<close>) finds the block again and copies the kernel to 0x600000.

  Files are byte lists behind inode numbers; a path names at most one inode. What the tool prints is left out.
\<close>

section \<open>The boot information block\<close>

definition BOOT_INFO_SIGNATURE :: "BYTE list" where
  "BOOT_INFO_SIGNATURE = map of_char ''SKHUBOOT''"

definition BOOT_INFO_SIGNATURE_LENGTH :: nat where "BOOT_INFO_SIGNATURE_LENGTH = 8"
definition BOOT_SECTOR_LOADED_ADDRESS :: nat where "BOOT_SECTOR_LOADED_ADDRESS = 0x7C00"
definition BOOT_SECTOR_SIZE :: nat where "BOOT_SECTOR_SIZE = 512"
definition SIZEOF_BOOTINFO :: nat where "SIZEOF_BOOTINFO = BOOT_INFO_SIGNATURE_LENGTH + 4"

lemmas boot_info_defs = BOOT_INFO_SIGNATURE_LENGTH_def BOOT_SECTOR_LOADED_ADDRESS_def BOOT_SECTOR_SIZE_def SIZEOF_BOOTINFO_def

lemma length_signature [simp]: "length BOOT_INFO_SIGNATURE = 8"
  by (simp add: BOOT_INFO_SIGNATURE_def)

section \<open>The image maker\<close>

record hostfs =
  inode :: "string \<Rightarrow> nat option"
  content :: "nat \<Rightarrow> BYTE list"
  readable :: "string \<Rightarrow> bool"
  creatable :: "string \<Rightarrow> bool"
  fresh_inode :: nat

definition isSameFile :: "hostfs \<Rightarrow> string \<Rightarrow> string \<Rightarrow> bool" where
  "isSameFile fs a b = (case (inode fs a, inode fs b) of (Some i, Some j) \<Rightarrow> i = j | _ \<Rightarrow> a = b)"

text \<open>\<^verbatim>\<open>fopen\<close> for writing truncates the file or creates it.\<close>

definition open_wb :: "string \<Rightarrow> hostfs \<Rightarrow> (nat \<times> hostfs) option" where
  "open_wb p fs =
     (if \<not> creatable fs p then None
      else case inode fs p of
        Some i \<Rightarrow> Some (i, fs\<lparr>content := (content fs)(i := [])\<rparr>)
      | None \<Rightarrow> let i = fresh_inode fs
                in Some (i, fs\<lparr>inode := (inode fs)(p := Some i), content := (content fs)(i := []), fresh_inode := i + 1\<rparr>))"

definition open_rb :: "string \<Rightarrow> hostfs \<Rightarrow> nat option" where
  "open_rb p fs = (if readable fs p then inode fs p else None)"

definition fwrite :: "nat \<Rightarrow> BYTE list \<Rightarrow> hostfs \<Rightarrow> hostfs" where
  "fwrite i bs fs = fs\<lparr>content := (content fs)(i := content fs i @ bs)\<rparr>"

partial_function (option) append_loop :: "nat \<Rightarrow> nat \<Rightarrow> nat \<Rightarrow> hostfs \<Rightarrow> (nat \<times> hostfs) option" where
  "append_loop img src sz fs =
     (let buffer = take 512 (drop sz (content fs src))
      in if length buffer = 0 then Some (sz, fs)
         else append_loop img src (sz + length buffer) (fwrite img buffer fs))"

text \<open>\<open>None\<close> does not end; a result \<open>None\<close> inside is \<^verbatim>\<open>exit(-1)\<close>.\<close>

definition appendFile :: "nat \<Rightarrow> string \<Rightarrow> hostfs \<Rightarrow> (nat option \<times> hostfs) option" where
  "appendFile img p fs =
     (case open_rb p fs of
        None \<Rightarrow> Some (None, fs)
      | Some src \<Rightarrow> do {
          (sz, fs1) \<leftarrow> append_loop img src 0 fs;
          let padding = (512 - sz mod 512) mod 512;
          Some (Some ((sz + padding) div 512), fwrite img (replicate padding 0) fs1) })"

text \<open>The search: \<open>Inl\<close> is the message of a duplicate.\<close>

function scan_info :: "BYTE list \<Rightarrow> nat \<Rightarrow> nat option \<Rightarrow> unit + nat option" where
  "scan_info sec i off =
     (if i + SIZEOF_BOOTINFO \<le> BOOT_SECTOR_SIZE then
        if chunk i BOOT_INFO_SIGNATURE_LENGTH sec \<noteq> BOOT_INFO_SIGNATURE then scan_info sec (i + 1) off
        else if off \<noteq> None then Inl ()
        else scan_info sec (i + 1) (Some i)
      else Inr off)"
  by pat_completeness auto
termination by (relation "measure (\<lambda>(sec, i, off). BOOT_SECTOR_SIZE - i)") (auto simp: boot_info_defs)

declare scan_info.simps [simp del]

definition writeBootInfo :: "string \<Rightarrow> nat \<Rightarrow> nat \<Rightarrow> hostfs \<Rightarrow> unit option \<times> hostfs" where
  "writeBootInfo p totalSectorCount loaderSectorCount fs =
     (case inode fs p of
        None \<Rightarrow> (None, fs)
      | Some i \<Rightarrow>
          if length (content fs i) < BOOT_SECTOR_SIZE then (None, fs)
          else case scan_info (take BOOT_SECTOR_SIZE (content fs i)) 0 None of
            Inr (Some off) \<Rightarrow>
              (Some (), fs\<lparr>content := (content fs)(i := splice_at (content fs i) (off + BOOT_INFO_SIGNATURE_LENGTH)
                 (le_encode 2 (unat (word_of_nat totalSectorCount :: WORD)) @
                  le_encode 2 (unat (word_of_nat loaderSectorCount :: WORD))))\<rparr>)
          | _ \<Rightarrow> (None, fs))"

definition imagemaker :: "string list \<Rightarrow> hostfs \<Rightarrow> (int \<times> hostfs) option" where
  "imagemaker argv fs =
     (if length argv < 5 then Some (-1, fs)
      else if isSameFile fs (argv ! 1) (argv ! 4) \<or> isSameFile fs (argv ! 2) (argv ! 4) \<or> isSameFile fs (argv ! 3) (argv ! 4)
      then Some (-1, fs)
      else case open_wb (argv ! 4) fs of
        None \<Rightarrow> Some (-1, fs)
      | Some (img, fs1) \<Rightarrow> do {
          (r1, fs2) \<leftarrow> appendFile img (argv ! 1) fs1;
          case r1 of None \<Rightarrow> Some (-1, fs2) | Some _ \<Rightarrow> do {
            (r2, fs3) \<leftarrow> appendFile img (argv ! 2) fs2;
            case r2 of None \<Rightarrow> Some (-1, fs3) | Some loaderSectorCount \<Rightarrow> do {
              (r3, fs4) \<leftarrow> appendFile img (argv ! 3) fs3;
              case r3 of None \<Rightarrow> Some (-1, fs4) | Some kernelSectorCount \<Rightarrow>
                (case writeBootInfo (argv ! 4) (loaderSectorCount + kernelSectorCount) loaderSectorCount fs4 of
                   (None, fs5) \<Rightarrow> Some (-1, fs5)
                 | (Some _, fs5) \<Rightarrow> Some (0, fs5)) } } })"

section \<open>The boot loader\<close>

text \<open>The read loop of the boot sector: the BIOS reads one sector to segment:0; segment and disk address go up for
  the next. Segments are 16 bits wide. \<open>bios\<close> gives the sector at an address, or \<open>None\<close> for an error, on which the
  boot loader prints a message and stays: \<open>None\<close>.\<close>

primrec readDisk :: "(nat \<Rightarrow> BYTE list option) \<Rightarrow> nat \<Rightarrow> WORD \<Rightarrow> nat \<Rightarrow> memory \<Rightarrow> memory option" where
  "readDisk bios 0 seg lba m = Some m"
| "readDisk bios (Suc n) seg lba m = do {
     sec \<leftarrow> bios lba;
     readDisk bios n (seg + 0x20) (lba + 1) (store_bytes (16 * unat seg) sec m) }"

definition load16 :: "memory \<Rightarrow> nat \<Rightarrow> WORD" where
  "load16 m a = word_of_nat (le_decode (fetch m a 2))"

text \<open>The number of sectors is the first word behind the signature, at the label \<^verbatim>\<open>TOTALSECTORCOUNT\<close>; the target and
  the first disk address are those of the disk address packet.\<close>

definition readImage :: "(nat \<Rightarrow> BYTE list option) \<Rightarrow> nat \<Rightarrow> memory \<Rightarrow> memory option" where
  "readImage bios bootInfo m = readDisk bios (unat (load16 m (bootInfo + 8))) 0x1000 1 m"

section \<open>The loader\<close>

definition PROTECTED_START_ADDRESS :: nat where "PROTECTED_START_ADDRESS = 0x10000"
definition IA32_START_ADDRESS :: nat where "IA32_START_ADDRESS = 0x600000"

primrec match_loop :: "memory \<Rightarrow> nat \<Rightarrow> BYTE list \<Rightarrow> bool" where
  "match_loop m a [] = True"
| "match_loop m a (b # bs) = (if m a \<noteq> b then False else match_loop m (a + 1) bs)"

function find_loop :: "memory \<Rightarrow> nat \<Rightarrow> nat option" where
  "find_loop m i =
     (if i + SIZEOF_BOOTINFO \<le> BOOT_SECTOR_SIZE then
        if match_loop m (BOOT_SECTOR_LOADED_ADDRESS + i) BOOT_INFO_SIGNATURE then Some (BOOT_SECTOR_LOADED_ADDRESS + i)
        else find_loop m (i + 1)
      else None)"
  by pat_completeness auto
termination by (relation "measure (\<lambda>(m, i). BOOT_SECTOR_SIZE - i)") (auto simp: boot_info_defs)

declare find_loop.simps [simp del]

definition findBootInfo :: "memory \<Rightarrow> nat option" where
  "findBootInfo m = find_loop m 0"

definition copy_words :: "nat \<Rightarrow> nat \<Rightarrow> nat \<Rightarrow> memory \<Rightarrow> memory" where
  "copy_words dest src n m = fold (\<lambda>i m. store32 (dest + 4 * i) (load32 m (src + 4 * i)) m) [0..<n] m"

text \<open>Without a boot information block the loader prints a message and never returns.\<close>

definition copyIA32ModeImage :: "memory \<Rightarrow> memory option" where
  "copyIA32ModeImage m =
     (case findBootInfo m of
        None \<Rightarrow> None
      | Some a \<Rightarrow>
          let total = uint (load16 m (a + 8)); ldr = uint (load16 m (a + 10))
          in Some (copy_words IA32_START_ADDRESS (PROTECTED_START_ADDRESS + nat ldr * 512)
                (nat (512 * (total - ldr) sdiv 4)) m))"

end
