(* ===== verification/BootImageOps.thy ===== *)
theory BootImageOps
  imports BootImage
begin

text \<open>Lemmas on the image maker, the boot loader's reads and the loader's copy.\<close>

section \<open>Appending files\<close>

definition padded :: "BYTE list \<Rightarrow> BYTE list" where
  "padded bs = bs @ replicate ((512 - length bs mod 512) mod 512) 0"

definition sectors :: "BYTE list \<Rightarrow> nat" where
  "sectors bs = (length bs + 511) div 512"

lemma pad_arith: "n + (512 - n mod 512) mod 512 = 512 * ((n + 511) div 512)" for n :: nat
proof -
  obtain q r where n: "n = 512 * q + r" "r < 512" by (metis mod_less_divisor mult_div_mod_eq zero_less_numeral)
  show ?thesis
  proof (cases "r = 0")
    case False
    then have "(n + 511) div 512 = q + 1" using n by (simp add: div_nat_eqI)
    then show ?thesis using n False by simp
  qed (use n in simp)
qed

lemma length_padded: "length (padded bs) = 512 * sectors bs"
  by (simp add: padded_def sectors_def pad_arith)

definition set_content :: "nat \<Rightarrow> BYTE list \<Rightarrow> hostfs \<Rightarrow> hostfs" where
  "set_content i bs fs = fs\<lparr>content := (content fs)(i := bs)\<rparr>"

lemma set_content_sel [simp]:
  "content (set_content i bs fs) = (content fs)(i := bs)" "inode (set_content i bs fs) = inode fs"
  "readable (set_content i bs fs) = readable fs" "set_content i bs (set_content i cs fs) = set_content i bs fs"
  "fwrite i cs fs = set_content i (content fs i @ cs) fs"
  by (simp_all add: set_content_def fwrite_def)

lemma append_loop_ok:
  assumes "img \<noteq> src" and "sz \<le> length (content fs src)"
  shows "append_loop img src sz fs =
    Some (length (content fs src), set_content img (content fs img @ drop sz (content fs src)) fs)"
  using assms(2)
proof (induction "length (content fs src) - sz" arbitrary: sz fs rule: less_induct)
  case less
  let ?c = "content fs src"
  show ?case
  proof (cases "sz = length ?c")
    case True
    then show ?thesis by (subst append_loop.simps) (simp add: set_content_def)
  next
    case False
    then have lt: "sz < length ?c" using less(2) by simp
    let ?b = "take 512 (drop sz ?c)" and ?fs = "set_content img (content fs img @ take 512 (drop sz ?c)) fs"
    have b: "0 < length ?b" "sz + length ?b \<le> length ?c" using lt by auto
    have c: "content ?fs src = ?c" using assms(1) by simp
    have "length (content ?fs src) - (sz + length ?b) < length ?c - sz" "sz + length ?b \<le> length (content ?fs src)"
      unfolding c using b lt by linarith+
    then have "append_loop img src (sz + length ?b) ?fs =
        Some (length (content ?fs src), set_content img (content ?fs img @ drop (sz + length ?b) (content ?fs src)) ?fs)"
      by (rule less(1))
    moreover have "?b @ drop (sz + length ?b) ?c = drop sz ?c"
    proof -
      have "drop (sz + length ?b) ?c = drop (length ?b) (drop sz ?c)" by (simp add: add.commute)
      then show ?thesis by (simp add: min_def del: drop_drop)
    qed
    ultimately show ?thesis using b(1) c by (subst append_loop.simps) (simp add: Let_def)
  qed
qed

lemma appendFile_ok:
  assumes "open_rb p fs = Some src" and "img \<noteq> src"
  shows "appendFile img p fs =
    Some (Some (sectors (content fs src)), set_content img (content fs img @ padded (content fs src)) fs)"
  using assms append_loop_ok [OF assms(2), of 0 fs]
  by (simp add: appendFile_def padded_def sectors_def pad_arith)

section \<open>The signature\<close>

lemma scan_info_Some: "scan_info sec i (Some k) = Inr r \<Longrightarrow> r = Some k"
proof (induction sec i "Some k" rule: scan_info.induct)
  case (1 sec i)
  then show ?case by (subst (asm) (3) scan_info.simps) (auto split: if_splits)
qed

lemma scan_info_first:
  "scan_info sec i None = Inr (Some k) \<Longrightarrow> i \<le> k \<and> k + SIZEOF_BOOTINFO \<le> BOOT_SECTOR_SIZE \<and>
     chunk k 8 sec = BOOT_INFO_SIGNATURE \<and> (\<forall>j. i \<le> j \<and> j < k \<longrightarrow> chunk j 8 sec \<noteq> BOOT_INFO_SIGNATURE)"
proof (induction "BOOT_SECTOR_SIZE - i" arbitrary: i)
  case 0
  then show ?case by (subst (asm) scan_info.simps) (simp add: boot_info_defs)
next
  case (Suc n)
  note e = Suc(3) [unfolded scan_info.simps [of sec i]]
  have le: "i + SIZEOF_BOOTINFO \<le> BOOT_SECTOR_SIZE" using e by (auto split: if_splits)
  show ?case
  proof (cases "chunk i 8 sec = BOOT_INFO_SIGNATURE")
    case True
    then have "scan_info sec (i + 1) (Some i) = Inr (Some k)" using e le by (simp add: BOOT_INFO_SIGNATURE_LENGTH_def)
    then have "k = i" using scan_info_Some by fastforce
    then show ?thesis using True le by auto
  next
    case False
    then have "scan_info sec (i + 1) None = Inr (Some k)" using e le by (simp add: BOOT_INFO_SIGNATURE_LENGTH_def)
    then have "i + 1 \<le> k \<and> k + SIZEOF_BOOTINFO \<le> BOOT_SECTOR_SIZE \<and> chunk k 8 sec = BOOT_INFO_SIGNATURE \<and>
        (\<forall>j. i + 1 \<le> j \<and> j < k \<longrightarrow> chunk j 8 sec \<noteq> BOOT_INFO_SIGNATURE)"
      using Suc(2) by (intro Suc(1)) simp_all
    then show ?thesis using False by (metis Suc_eq_plus1 Suc_leD le_eq_less_or_eq less_eq_Suc_le)
  qed
qed

text \<open>A second block is an error.\<close>

lemma scan_info_no_more:
  "scan_info sec i (Some k) = Inr r \<Longrightarrow> i \<le> j \<Longrightarrow> j + SIZEOF_BOOTINFO \<le> BOOT_SECTOR_SIZE \<Longrightarrow> chunk j 8 sec \<noteq> BOOT_INFO_SIGNATURE"
proof (induction "BOOT_SECTOR_SIZE - i" arbitrary: i)
  case 0
  then show ?case by (simp add: boot_info_defs)
next
  case (Suc n)
  note e = Suc(3) [unfolded scan_info.simps [of sec i]]
  have n: "chunk i 8 sec \<noteq> BOOT_INFO_SIGNATURE" "scan_info sec (i + 1) (Some k) = Inr r"
    using e Suc(4,5) by (auto simp: BOOT_INFO_SIGNATURE_LENGTH_def split: if_splits)
  show ?case
  proof (cases "j = i")
    case False
    then show ?thesis using Suc(1) [OF _ n(2)] Suc(2,4,5) by simp
  qed (use n in simp)
qed

lemma scan_info_only:
  "scan_info sec i None = Inr (Some k) \<Longrightarrow> i \<le> j \<Longrightarrow> j + SIZEOF_BOOTINFO \<le> BOOT_SECTOR_SIZE \<Longrightarrow>
   chunk j 8 sec = BOOT_INFO_SIGNATURE \<Longrightarrow> j = k"
proof (induction "BOOT_SECTOR_SIZE - i" arbitrary: i)
  case 0
  then show ?case by (simp add: boot_info_defs)
next
  case (Suc n)
  note e = Suc(3) [unfolded scan_info.simps [of sec i]]
  show ?case
  proof (cases "chunk i 8 sec = BOOT_INFO_SIGNATURE")
    case True
    then have s: "scan_info sec (i + 1) (Some i) = Inr (Some k)" using e Suc(4,5) by (auto simp: BOOT_INFO_SIGNATURE_LENGTH_def split: if_splits)
    then have "k = i" using scan_info_Some by blast
    then show ?thesis using scan_info_no_more [OF s, of j] Suc(4-6) by (cases "j = i") auto
  next
    case False
    then have s: "scan_info sec (i + 1) None = Inr (Some k)" using e Suc(4,5) by (auto simp: BOOT_INFO_SIGNATURE_LENGTH_def split: if_splits)
    have "j \<noteq> i" using False Suc(6) by auto
    then show ?thesis using Suc(1) [OF _ s] Suc(2,4-6) by simp
  qed
qed

lemma scan_info_rest:
  assumes "\<And>j. i \<le> j \<Longrightarrow> j + SIZEOF_BOOTINFO \<le> BOOT_SECTOR_SIZE \<Longrightarrow> chunk j 8 sec \<noteq> BOOT_INFO_SIGNATURE"
  shows "scan_info sec i off = Inr off"
  using assms
proof (induction "BOOT_SECTOR_SIZE - i" arbitrary: i)
  case 0
  then show ?case by (subst scan_info.simps) (simp add: boot_info_defs)
next
  case (Suc n)
  have "scan_info sec (i + 1) off = Inr off" using Suc(2,3) by (intro Suc(1)) auto
  then show ?case using Suc(3) [of i] by (subst scan_info.simps) (simp add: BOOT_INFO_SIGNATURE_LENGTH_def)
qed

lemma scan_info_unique:
  assumes "i \<le> k" "k + SIZEOF_BOOTINFO \<le> BOOT_SECTOR_SIZE" "chunk k 8 sec = BOOT_INFO_SIGNATURE"
    and other: "\<And>j. j + SIZEOF_BOOTINFO \<le> BOOT_SECTOR_SIZE \<Longrightarrow> j \<noteq> k \<Longrightarrow> chunk j 8 sec \<noteq> BOOT_INFO_SIGNATURE"
  shows "scan_info sec i None = Inr (Some k)"
  using assms(1)
proof (induction "k - i" arbitrary: i)
  case 0
  have "scan_info sec (k + 1) (Some k) = Inr (Some k)" by (rule scan_info_rest) (use other in auto)
  moreover have "i = k" using 0 by simp
  ultimately show ?case using assms(2,3) by (subst scan_info.simps) (simp add: BOOT_INFO_SIGNATURE_LENGTH_def)
next
  case (Suc n)
  then have "scan_info sec (i + 1) None = Inr (Some k)" by (intro Suc(1)) simp_all
  moreover have "i + SIZEOF_BOOTINFO \<le> BOOT_SECTOR_SIZE" "i \<noteq> k" using Suc(2) assms(2) by simp_all
  ultimately show ?case using other [of i] by (subst scan_info.simps) (simp add: BOOT_INFO_SIGNATURE_LENGTH_def)
qed

lemma match_loop_iff: "match_loop m a bs \<longleftrightarrow> fetch m a (length bs) = bs"
proof (induction bs arbitrary: a)
  case (Cons b bs)
  have "fetch m a (Suc (length bs)) = m a # fetch m (a + 1) (length bs)"
    by (simp add: fetch_def upt_rec [of a] Suc_le_eq)
  then show ?case using Cons by simp
qed (simp add: fetch_def)

lemma find_loop_first:
  assumes "i \<le> k" "k + SIZEOF_BOOTINFO \<le> BOOT_SECTOR_SIZE" "fetch m (BOOT_SECTOR_LOADED_ADDRESS + k) 8 = BOOT_INFO_SIGNATURE"
    and "\<And>j. i \<le> j \<Longrightarrow> j < k \<Longrightarrow> fetch m (BOOT_SECTOR_LOADED_ADDRESS + j) 8 \<noteq> BOOT_INFO_SIGNATURE"
  shows "find_loop m i = Some (BOOT_SECTOR_LOADED_ADDRESS + k)"
  using assms(1,4)
proof (induction "k - i" arbitrary: i)
  case 0
  then have "i = k" by simp
  then show ?case using assms(2,3) by (subst find_loop.simps) (simp add: match_loop_iff)
next
  case (Suc n)
  then have "find_loop m (i + 1) = Some (BOOT_SECTOR_LOADED_ADDRESS + k)" by (intro Suc(1)) auto
  moreover have "i < k" using Suc(2) by simp
  moreover have "fetch m (BOOT_SECTOR_LOADED_ADDRESS + i) 8 \<noteq> BOOT_INFO_SIGNATURE" using Suc(4) [of i] \<open>i < k\<close> by simp
  ultimately show ?case using assms(2) by (subst find_loop.simps) (simp add: match_loop_iff)
qed

section \<open>Copying\<close>

lemma copy_words_bytes:
  assumes "src + 4 * n \<le> dest \<or> dest + 4 * n \<le> src"
  shows "copy_words dest src n m x = (if dest \<le> x \<and> x < dest + 4 * n then m (src + (x - dest)) else m x)"
  using assms
proof (induction n arbitrary: x)
  case (Suc n)
  let ?m = "copy_words dest src n m"
  have IH: "?m y = (if dest \<le> y \<and> y < dest + 4 * n then m (src + (y - dest)) else m y)" for y
    using Suc by auto
  have "load32 ?m (src + 4 * n) = load32 m (src + 4 * n)"
    by (rule load32_cong) (use Suc(2) in \<open>auto simp: IH\<close>)
  then have "copy_words dest src (Suc n) m x = store32 (dest + 4 * n) (load32 m (src + 4 * n)) ?m x"
    by (simp add: copy_words_def)
  then show ?case by (auto simp: store32_load32 IH)
qed (auto simp: copy_words_def)

section \<open>Reading the disk\<close>

lemma readDisk_bytes:
  assumes "unat seg + 0x20 * n \<le> 0x10000" and "512 * lba + 512 * n \<le> length dsk"
    and "\<And>i. lba \<le> i \<Longrightarrow> i < lba + n \<Longrightarrow> bios i = Some (chunk (512 * i) 512 dsk)"
  shows "\<exists>r. readDisk bios n seg lba m = Some r \<and> (\<forall>x. r x =
    (if 16 * unat seg \<le> x \<and> x < 16 * unat seg + 512 * n then dsk ! (512 * lba + (x - 16 * unat seg)) else m x))"
  using assms
proof (induction n arbitrary: seg lba m)
  case (Suc n)
  have b: "bios lba = Some (chunk (512 * lba) 512 dsk)" using Suc(4) by simp
  show ?case
  proof (cases "n = 0")
    case True
    then show ?thesis using Suc(3) b by (auto simp: store_bytes_def nth_chunk)
  next
    case False
    then have s: "unat (seg + 0x20) = unat seg + 0x20"
      using Suc(2) by (subst unat_add_lem [THEN iffD1]) auto
    have "\<exists>r. readDisk bios n (seg + 0x20) (lba + 1) (store_bytes (16 * unat seg) (chunk (512 * lba) 512 dsk) m) = Some r \<and>
        (\<forall>x. r x = (if 16 * unat (seg + 0x20) \<le> x \<and> x < 16 * unat (seg + 0x20) + 512 * n
         then dsk ! (512 * (lba + 1) + (x - 16 * unat (seg + 0x20)))
         else store_bytes (16 * unat seg) (chunk (512 * lba) 512 dsk) m x))"
      by (rule Suc.IH) (use Suc(2-4) in \<open>auto simp: s\<close>)
    then show ?thesis using Suc(3) b unfolding s by (auto simp: store_bytes_def nth_chunk algebra_simps)
  qed
qed auto

lemma readDisk_error:
  "lba \<le> i \<Longrightarrow> i < lba + n \<Longrightarrow> bios i = None \<Longrightarrow> readDisk bios n seg lba m = None"
proof (induction n arbitrary: seg lba m)
  case (Suc n)
  then show ?case by (cases "i = lba") (auto split: Option.bind_splits)
qed simp

end
