(* ===== verification/BootImageProps.thy ===== *)
theory BootImageProps
  imports BootImageOps
begin

text \<open>The image maker's result, and the kernel arriving at its address.\<close>

section \<open>The image\<close>

definition file_of :: "hostfs \<Rightarrow> string \<Rightarrow> BYTE list option" where
  "file_of fs p = map_option (content fs) (inode fs p)"

definition fs_sane :: "hostfs \<Rightarrow> bool" where
  "fs_sane fs \<longleftrightarrow> (\<forall>p i. inode fs p = Some i \<longrightarrow> i < fresh_inode fs)"

text \<open>The two counts as they are noted.\<close>

definition counts :: "nat \<Rightarrow> nat \<Rightarrow> BYTE list" where
  "counts tot ldr = le_encode 2 (unat (word_of_nat tot :: WORD)) @ le_encode 2 (unat (word_of_nat ldr :: WORD))"

lemma length_counts [simp]: "length (counts tot ldr) = 4"
  by (simp add: counts_def)

lemma open_wb_input:
  assumes "open_wb d fs = Some (img, fs1)" "fs_sane fs" "\<not> isSameFile fs p d" "open_rb p fs1 = Some src"
  shows "src \<noteq> img \<and> content fs1 src = content fs src \<and> inode fs p = Some src \<and> inode fs1 d = Some img \<and> content fs1 img = []"
proof (cases "inode fs d")
  case None
  then have "p \<noteq> d" using assms(3) by (auto simp: isSameFile_def split: option.splits)
  moreover have "inode fs p \<noteq> Some (fresh_inode fs)" using assms(2) by (auto simp: fs_sane_def)
  ultimately show ?thesis using assms(1,3,4) None
    by (auto simp: open_wb_def open_rb_def Let_def split: if_splits)
next
  case (Some i)
  then show ?thesis using assms
    by (auto simp: open_wb_def open_rb_def isSameFile_def split: if_splits option.splits)
qed

lemma appendFile_Some:
  assumes "appendFile img p fs = Some (Some n, fs')"
  obtains src where "open_rb p fs = Some src"
  using assms by (auto simp: appendFile_def split: option.splits)

lemma open_rb_set_content: "open_rb p (set_content i bs fs) = open_rb p fs"
  by (simp add: open_rb_def)

text \<open>The converse: with readable inputs, a creatable output that is none of them, and a boot part with one block.\<close>

lemma open_wb_ok:
  assumes "fs_sane fs" "creatable fs d"
  obtains img fs1 where "open_wb d fs = Some (img, fs1)" "inode fs1 d = Some img" "content fs1 img = []"
    "\<And>p src. open_rb p fs = Some src \<Longrightarrow> \<not> isSameFile fs p d \<Longrightarrow> open_rb p fs1 = Some src \<and> content fs1 src = content fs src \<and> img \<noteq> src"
proof (cases "inode fs d")
  case None
  let ?fs = "fs\<lparr>inode := (inode fs)(d := Some (fresh_inode fs)), content := (content fs)(fresh_inode fs := []),
      fresh_inode := fresh_inode fs + 1\<rparr>"
  have "open_wb d fs = Some (fresh_inode fs, ?fs)" using None assms(2) by (simp add: open_wb_def Let_def)
  moreover have "open_rb p ?fs = Some src \<and> content ?fs src = content fs src \<and> fresh_inode fs \<noteq> src"
    if "open_rb p fs = Some src" for p src
  proof -
    have "inode fs p = Some src" "readable fs p" using that by (auto simp: open_rb_def split: if_splits)
    moreover from this have "src < fresh_inode fs" "p \<noteq> d" using assms(1) None by (auto simp: fs_sane_def)
    ultimately show ?thesis by (simp add: open_rb_def)
  qed
  ultimately show thesis by (intro that [of "fresh_inode fs" ?fs]) simp_all
next
  case (Some i)
  then show thesis using assms
    by (intro that [of i "fs\<lparr>content := (content fs)(i := [])\<rparr>"]) (auto simp: open_wb_def open_rb_def isSameFile_def split: if_splits)
qed

lemma imagemaker_ok:
  assumes sane: "fs_sane fs" "creatable fs d"
    and in_b: "open_rb b fs = Some sb" "\<not> isSameFile fs b d" and in_l: "open_rb l fs = Some sl" "\<not> isSameFile fs l d"
    and in_k: "open_rb k fs = Some sk" "\<not> isSameFile fs k d"
    and nonempty: "content fs sb \<noteq> []"
    and scan: "scan_info (take BOOT_SECTOR_SIZE (padded (content fs sb) @ padded (content fs sl) @ padded (content fs sk))) 0 None = Inr (Some off)"
  shows "\<exists>fs'. imagemaker [prog, b, l, k, d] fs = Some (0, fs')"
proof -
  obtain img fs1 where o: "open_wb d fs = Some (img, fs1)" "inode fs1 d = Some img" "content fs1 img = []"
    and keep: "\<And>p src. open_rb p fs = Some src \<Longrightarrow> \<not> isSameFile fs p d \<Longrightarrow>
      open_rb p fs1 = Some src \<and> content fs1 src = content fs src \<and> img \<noteq> src"
    using open_wb_ok [OF sane] by metis
  note kb = keep [OF in_b] and kl = keep [OF in_l] and kk = keep [OF in_k]
  let ?b = "padded (content fs sb)" and ?l = "padded (content fs sl)" and ?k = "padded (content fs sk)"
  have "appendFile img b fs1 = Some (Some (sectors (content fs sb)), set_content img ?b fs1)"
    using kb o(3) by (simp add: appendFile_ok)
  moreover have "appendFile img l (set_content img ?b fs1) = Some (Some (sectors (content fs sl)), set_content img (?b @ ?l) fs1)"
    using kl by (subst appendFile_ok) (auto simp: open_rb_set_content)
  moreover have "appendFile img k (set_content img (?b @ ?l) fs1) =
      Some (Some (sectors (content fs sk)), set_content img (?b @ ?l @ ?k) fs1)"
    using kk by (subst appendFile_ok) (auto simp: open_rb_set_content)
  moreover have "BOOT_SECTOR_SIZE \<le> length (?b @ ?l @ ?k)"
  proof -
    have "1 \<le> sectors (content fs sb)" using nonempty by (cases "content fs sb") (auto simp: sectors_def)
    then show ?thesis using length_padded [of "content fs sb"] by (simp add: BOOT_SECTOR_SIZE_def)
  qed
  ultimately show ?thesis using in_b(2) in_l(2) in_k(2) o scan by (simp add: imagemaker_def writeBootInfo_def)
qed

lemma imagemaker_image:
  assumes run: "imagemaker [prog, b, l, k, d] fs = Some (0, fs')" and sane: "fs_sane fs"
  obtains B L K off where "file_of fs b = Some B" "file_of fs l = Some L" "file_of fs k = Some K"
    "scan_info (take BOOT_SECTOR_SIZE (padded B @ padded L @ padded K)) 0 None = Inr (Some off)"
    "file_of fs' d = Some (splice_at (padded B @ padded L @ padded K) (off + 8)
       (counts (sectors L + sectors K) (sectors L)))"
proof -
  have same: "\<not> isSameFile fs b d" "\<not> isSameFile fs l d" "\<not> isSameFile fs k d"
    using run by (auto simp: imagemaker_def split: if_splits)
  obtain img fs1 where o: "open_wb d fs = Some (img, fs1)"
    using run same by (auto simp: imagemaker_def split: option.splits)
  obtain n1 fs2 where a1: "appendFile img b fs1 = Some (Some n1, fs2)"
    using run same o by (auto simp: imagemaker_def split: option.splits Option.bind_splits)
  obtain sb where sb: "open_rb b fs1 = Some sb" using a1 by (rule appendFile_Some)
  note B = open_wb_input [OF o sane same(1) sb]
  have fs2: "fs2 = set_content img (padded (content fs sb)) fs1" "n1 = sectors (content fs sb)"
    using appendFile_ok [OF sb, of img] B a1 by auto
  obtain n2 fs3 where a2: "appendFile img l fs2 = Some (Some n2, fs3)"
    using run same o a1 by (auto simp: imagemaker_def split: option.splits Option.bind_splits)
  obtain sl where sl: "open_rb l fs2 = Some sl" using a2 by (rule appendFile_Some)
  note L = open_wb_input [OF o sane same(2) sl [unfolded fs2 open_rb_set_content]]
  have fs3: "fs3 = set_content img (padded (content fs sb) @ padded (content fs sl)) fs1" "n2 = sectors (content fs sl)"
    using appendFile_ok [OF sl, of img] L a2 by (auto simp: fs2)
  obtain n3 fs4 where a3: "appendFile img k fs3 = Some (Some n3, fs4)"
    using run same o a1 a2 by (auto simp: imagemaker_def split: option.splits Option.bind_splits)
  obtain sk where sk: "open_rb k fs3 = Some sk" using a3 by (rule appendFile_Some)
  note K = open_wb_input [OF o sane same(3) sk [unfolded fs3 open_rb_set_content]]
  let ?all = "padded (content fs sb) @ padded (content fs sl) @ padded (content fs sk)"
  have fs4: "fs4 = set_content img ?all fs1" "n3 = sectors (content fs sk)"
    using appendFile_ok [OF sk, of img] K a3 by (auto simp: fs3)
  obtain u where w: "writeBootInfo d (n2 + n3) n2 fs4 = (Some u, fs')"
    using run same o a1 a2 a3 by (auto simp: imagemaker_def split: option.splits Option.bind_splits prod.splits)
  obtain off where off: "scan_info (take BOOT_SECTOR_SIZE ?all) 0 None = Inr (Some off)"
    using w K by (auto simp: writeBootInfo_def fs4 split: if_splits sum.splits option.splits)
  show thesis
  proof (rule that [OF _ _ _ off])
    show "file_of fs b = Some (content fs sb)" "file_of fs l = Some (content fs sl)" "file_of fs k = Some (content fs sk)"
      using B L K by (simp_all add: file_of_def)
    show "file_of fs' d = Some (splice_at ?all (off + 8) (counts (sectors (content fs sl) + sectors (content fs sk)) (sectors (content fs sl))))"
      using w K off by (auto simp: writeBootInfo_def fs4 fs3(2) fs2(2) file_of_def counts_def BOOT_INFO_SIGNATURE_LENGTH_def split: if_splits)
  qed
qed

section \<open>The kernel in memory\<close>

lemma image_bytes:
  fixes B L K :: "BYTE list"
  assumes "off + 12 \<le> 512" "length B = 512"
  defines "img \<equiv> splice_at (padded B @ padded L @ padded K) (off + 8) (counts (sectors L + sectors K) (sectors L))"
  shows "length img = 512 + 512 * (sectors L + sectors K)"
    and "i < length K \<Longrightarrow> img ! (512 + 512 * sectors L + i) = K ! i"
    and "chunk (off + 8) 4 img = counts (sectors L + sectors K) (sectors L)"
    and "j + 8 \<le> off + 8 \<Longrightarrow> chunk j 8 img = chunk j 8 (take 512 (padded B @ padded L @ padded K))"
proof -
  let ?all = "padded B @ padded L @ padded K" and ?c = "counts (sectors L + sectors K) (sectors L)"
  have lB: "length (padded B) = 512" using assms(2) by (simp add: padded_def)
  have len: "length ?all = 512 + 512 * (sectors L + sectors K)" by (simp add: lB length_padded [of L] length_padded [of K])
  have fits: "off + 8 + length ?c \<le> length ?all" using assms(1) len by simp
  show "length img = 512 + 512 * (sectors L + sectors K)" unfolding img_def length_splice_at [OF fits] by (rule len)
  show "img ! (512 + 512 * sectors L + i) = K ! i" if "i < length K"
  proof -
    have "length K \<le> length (padded K)" by (simp add: padded_def)
    then have "512 + 512 * sectors L + i < length ?all" using that by (simp add: lB length_padded [of L] length_padded [of K])
    then have "img ! (512 + 512 * sectors L + i) = ?all ! (512 + 512 * sectors L + i)"
      unfolding img_def using assms(1) by (subst nth_splice_at [OF fits]) simp_all
    also have "\<dots> = padded K ! i" by (simp add: nth_append lB length_padded [of L] length_padded [of K])
    also have "\<dots> = K ! i" using that by (simp add: padded_def nth_append)
    finally show ?thesis .
  qed
  show "chunk (off + 8) 4 img = ?c" unfolding img_def by (rule chunk_splice_same [OF fits]) simp
  show "chunk j 8 img = chunk j 8 (take 512 ?all)" if "j + 8 \<le> off + 8"
  proof -
    have "chunk j 8 img = chunk j 8 ?all" unfolding img_def by (rule chunk_splice_other [OF fits]) (use that assms(1) len in auto)
    also have "\<dots> = chunk j 8 (take 512 ?all)" using that assms(1) unfolding chunk_def drop_take take_take by simp
    finally show ?thesis .
  qed
qed

lemma load16_counts:
  assumes "tot < 65536" "ldr < 65536" "fetch m a 4 = counts tot ldr"
  shows "uint (load16 m a) = int tot" "uint (load16 m (a + 2)) = int ldr"
proof -
  have "fetch m a 2 @ fetch m (a + 2) 2 = fetch m a 4" using fetch_add [of m a 2 2] by simp
  then have "fetch m a 2 @ fetch m (a + 2) 2 = le_encode 2 tot @ le_encode 2 ldr"
    using assms by (simp add: counts_def unat_of_nat)
  then have "fetch m a 2 = le_encode 2 tot" "fetch m (a + 2) 2 = le_encode 2 ldr" by (simp_all add: append_eq_append_conv)
  then show "uint (load16 m a) = int tot" "uint (load16 m (a + 2)) = int ldr"
    using assms(1,2) by (simp_all add: load16_def uint_nat unat_of_nat)
qed

lemma image_length:
  assumes "imagemaker [prog, b, l, k, d] fs = Some (0, fs')" "fs_sane fs"
    and "file_of fs b = Some B" "file_of fs l = Some L" "file_of fs k = Some K" "file_of fs' d = Some img" "length B = 512"
  shows "length img = 512 + 512 * (sectors L + sectors K)"
proof -
  obtain o1 where o1: "scan_info (take BOOT_SECTOR_SIZE (padded B @ padded L @ padded K)) 0 None = Inr (Some o1)"
    "img = splice_at (padded B @ padded L @ padded K) (o1 + 8) (counts (sectors L + sectors K) (sectors L))"
    using imagemaker_image [OF assms(1,2)] assms(3-6) by (metis option.inject)
  have "o1 + 12 \<le> 512" using scan_info_first [OF o1(1)] by (simp add: boot_info_defs)
  from image_bytes(1) [OF this assms(7), of L K] show ?thesis by (simp only: o1(2))
qed

text \<open>The loader's copy, in any memory with the information block and the sectors in place.\<close>

lemma image_copied:
  assumes run: "imagemaker [prog, b, l, k, d] fs = Some (0, fs')" "fs_sane fs"
    and files: "file_of fs b = Some B" "file_of fs l = Some L" "file_of fs k = Some K" "file_of fs' d = Some img"
    and B: "length B = 512" and S: "sectors L + sectors K \<le> 1344"
    and sig: "chunk off 8 img = BOOT_INFO_SIGNATURE" "\<forall>j < off + 12. r (BOOT_SECTOR_LOADED_ADDRESS + j) = img ! j"
    and mem: "\<forall>i < 512 * (sectors L + sectors K). r (0x10000 + i) = img ! (512 + i)"
  obtains m' where "copyIA32ModeImage r = Some m'" "fetch m' IA32_START_ADDRESS (length K) = K"
    "\<And>x. x < IA32_START_ADDRESS \<or> IA32_START_ADDRESS + 512 * sectors K \<le> x \<Longrightarrow> m' x = r x"
proof -
  obtain o1 where o1: "scan_info (take BOOT_SECTOR_SIZE (padded B @ padded L @ padded K)) 0 None = Inr (Some o1)"
    "img = splice_at (padded B @ padded L @ padded K) (o1 + 8) (counts (sectors L + sectors K) (sectors L))"
    using imagemaker_image [OF run] files by (metis option.inject)
  note first = scan_info_first [OF o1(1)]
  have o12: "o1 + 12 \<le> 512" using first by (simp add: boot_info_defs)
  note I = image_bytes [OF o12 B, where L = L and K = K, folded o1(2)]
  have sig1: "chunk o1 8 img = BOOT_INFO_SIGNATURE" using I(4) [of o1] first by (simp add: BOOT_SECTOR_SIZE_def)
  have none: "chunk j 8 img \<noteq> BOOT_INFO_SIGNATURE" if "j < o1" for j
    using I(4) [of j] first that by (simp add: BOOT_SECTOR_SIZE_def)
  have "o1 \<le> off" using none [of off] sig(1) by (meson linorder_not_le)
  have low: "fetch r (BOOT_SECTOR_LOADED_ADDRESS + j) n = chunk j n img" if "j + n \<le> o1 + 12" for j n
    using that sig(2) \<open>o1 \<le> off\<close> I(1) o12 by (intro nth_equalityI) (simp_all add: nth_chunk add.assoc)
  have find: "findBootInfo r = Some (BOOT_SECTOR_LOADED_ADDRESS + o1)"
    unfolding findBootInfo_def by (rule find_loop_first) (use o12 sig1 none low in \<open>simp_all add: boot_info_defs\<close>)
  have "fetch r (BOOT_SECTOR_LOADED_ADDRESS + o1 + 8) 4 = counts (sectors L + sectors K) (sectors L)"
    using low [of "o1 + 8" 4] I(3) by (simp add: add.assoc)
  note load16_counts [OF _ _ this]
  moreover have "BOOT_SECTOR_LOADED_ADDRESS + o1 + 8 + 2 = BOOT_SECTOR_LOADED_ADDRESS + o1 + 10" by simp
  moreover have "sectors L + sectors K < 65536" "sectors L < 65536" using S by simp_all
  ultimately have c: "uint (load16 r (BOOT_SECTOR_LOADED_ADDRESS + o1 + 8)) = int (sectors L + sectors K)"
    "uint (load16 r (BOOT_SECTOR_LOADED_ADDRESS + o1 + 10)) = int (sectors L)" by metis+
  define m' where "m' = copy_words IA32_START_ADDRESS (0x10000 + 512 * sectors L) (128 * sectors K) r"
  have "nat (512 * (int (sectors L + sectors K) - int (sectors L)) sdiv 4) = 128 * sectors K"
    by (simp add: signed_divide_int_def sgn_if nat_mult_distrib)
  then have copy: "copyIA32ModeImage r = Some m'"
    using find c by (simp add: copyIA32ModeImage_def m'_def PROTECTED_START_ADDRESS_def mult.commute add.assoc)
  have m': "m' x = (if IA32_START_ADDRESS \<le> x \<and> x < IA32_START_ADDRESS + 512 * sectors K
      then r (0x10000 + 512 * sectors L + (x - IA32_START_ADDRESS)) else r x)" for x
    unfolding m'_def using S by (subst copy_words_bytes) (auto simp: IA32_START_ADDRESS_def)
  have "length K \<le> 512 * sectors K" by (simp add: sectors_def)
  then have "m' (IA32_START_ADDRESS + i) = K ! i" if "i < length K" for i
    using that I(2) mem [rule_format, of "512 * sectors L + i"] by (simp add: m' add.assoc)
  then have "fetch m' IA32_START_ADDRESS (length K) = K" by (intro nth_equalityI) simp_all
  with copy m' show thesis by (intro that [of m']) auto
qed

lemma image_block:
  assumes "imagemaker [prog, b, l, k, d] fs = Some (0, fs')" "fs_sane fs"
    and "file_of fs b = Some B" "file_of fs l = Some L" "file_of fs k = Some K" "file_of fs' d = Some img" "length B = 512"
    and "chunk off 8 B = BOOT_INFO_SIGNATURE" "off + 12 \<le> 512"
  shows "chunk off 8 img = BOOT_INFO_SIGNATURE" "chunk (off + 8) 4 img = counts (sectors L + sectors K) (sectors L)"
proof -
  let ?first = "take BOOT_SECTOR_SIZE (padded B @ padded L @ padded K)"
  obtain o1 where o1: "scan_info ?first 0 None = Inr (Some o1)"
    "img = splice_at (padded B @ padded L @ padded K) (o1 + 8) (counts (sectors L + sectors K) (sectors L))"
    using imagemaker_image [OF assms(1,2)] assms(3-6) by (metis option.inject)
  have first: "?first = B" using assms(7) by (simp add: padded_def BOOT_SECTOR_SIZE_def)
  have e: "off = o1" using scan_info_only [OF o1(1) [unfolded first], of off] assms(8,9) by (simp add: boot_info_defs)
  note I = image_bytes [OF assms(9,7), where L = L and K = K, folded o1(2) [folded e]]
  show "chunk off 8 img = BOOT_INFO_SIGNATURE" using I(4) [of off] first assms(8) by (simp add: BOOT_SECTOR_SIZE_def)
  show "chunk (off + 8) 4 img = counts (sectors L + sectors K) (sectors L)" by (rule I(3))
qed

text \<open>C17: From the build to the kernel's address. When \<^verbatim>\<open>imagemaker\<close> succeeds on a boot sector of 512 bytes with its
  information block at \<open>off\<close>, a loader and a kernel of at most 1344 sectors together, then in any memory that holds the
  boot sector up to its information block the boot loader reads the noted number of sectors of the image, the loader finds the
  counts and copies exactly the kernel's bytes to 0x600000, and nothing else in memory changes but the padding behind them. If
  the BIOS fails on one of the sectors, the boot loader does not go on.\<close>

theorem kernel_image_arrives:
  assumes "imagemaker [prog, b, l, k, d] fs = Some (0, fs')" and "fs_sane fs"
    and "file_of fs b = Some B" "file_of fs l = Some L" "file_of fs k = Some K" "file_of fs' d = Some img"
    and "length B = 512" and "sectors L + sectors K \<le> 1344"
    and "chunk off 8 B = BOOT_INFO_SIGNATURE" "off + 12 \<le> 512" "\<forall>j < off + 12. m (BOOT_SECTOR_LOADED_ADDRESS + j) = img ! j"
    and "\<forall>i \<le> sectors L + sectors K. bios i = None \<or> bios i = Some (chunk (512 * i) 512 img)"
  shows "if \<exists>i. 1 \<le> i \<and> i \<le> sectors L + sectors K \<and> bios i = None
    then readImage bios (BOOT_SECTOR_LOADED_ADDRESS + off) m = None
    else \<exists>r m'. readImage bios (BOOT_SECTOR_LOADED_ADDRESS + off) m = Some r \<and> copyIA32ModeImage r = Some m' \<and>
      fetch m' IA32_START_ADDRESS (length K) = K \<and>
      (\<forall>x. x < 0x10000 \<or> 0x10000 + 512 * (sectors L + sectors K) \<le> x \<longrightarrow> r x = m x) \<and>
      (\<forall>x. x < IA32_START_ADDRESS \<or> IA32_START_ADDRESS + 512 * sectors K \<le> x \<longrightarrow> m' x = r x)"
proof -
  let ?S = "sectors L + sectors K"
  have len: "length img = 512 + 512 * ?S" by (rule image_length [OF assms(1-7)])
  note I = image_block [OF assms(1-7,9,10)]
  have "fetch m (BOOT_SECTOR_LOADED_ADDRESS + off + 8) 4 = chunk (off + 8) 4 img"
    using assms(10,11) len by (intro nth_equalityI) (simp_all add: nth_chunk add.assoc)
  then have "uint (load16 m (BOOT_SECTOR_LOADED_ADDRESS + off + 8)) = int ?S"
    using load16_counts(1) [of ?S "sectors L" m] I(2) assms(8) by simp
  then have n: "unat (load16 m (BOOT_SECTOR_LOADED_ADDRESS + off + 8)) = ?S" by (simp add: uint_nat del: of_nat_unat)
  show ?thesis
  proof (cases "\<exists>i. 1 \<le> i \<and> i \<le> ?S \<and> bios i = None")
    case True
    then have "readDisk bios ?S 0x1000 1 m = None" by (auto intro: readDisk_error)
    then show ?thesis using True n by (simp add: readImage_def)
  next
    case False
    have "bios i = Some (chunk (512 * i) 512 img)" if i: "1 \<le> i" "i < 1 + ?S" for i
    proof -
      have "i \<le> ?S" using i(2) by simp
      then show ?thesis using False assms(12) i(1) by blast
    qed
    then obtain r where run: "readDisk bios ?S 0x1000 1 m = Some r" and
      r: "r x = (if 0x10000 \<le> x \<and> x < 0x10000 + 512 * ?S then img ! (512 + (x - 0x10000)) else m x)" for x
      using readDisk_bytes [of "0x1000" ?S 1 img bios m] assms(8) len by auto
    have "\<forall>j < off + 12. r (BOOT_SECTOR_LOADED_ADDRESS + j) = img ! j" "\<forall>i < 512 * ?S. r (0x10000 + i) = img ! (512 + i)"
      using assms(10,11) by (simp_all add: r BOOT_SECTOR_LOADED_ADDRESS_def del: One_nat_def)
    from image_copied [OF assms(1-8) I(1) this] obtain m' where "copyIA32ModeImage r = Some m'" "fetch m' IA32_START_ADDRESS (length K) = K"
      "\<And>x. x < IA32_START_ADDRESS \<or> IA32_START_ADDRESS + 512 * sectors K \<le> x \<Longrightarrow> m' x = r x" by metis
    moreover have "readImage bios (BOOT_SECTOR_LOADED_ADDRESS + off) m = Some r" using run n by (simp add: readImage_def)
    moreover have "\<forall>x. x < 0x10000 \<or> 0x10000 + 512 * ?S \<le> x \<longrightarrow> r x = m x" by (simp add: r)
    ultimately show ?thesis unfolding if_not_P [OF False] by blast
  qed
qed

definition build_dir :: hostfs where
  "build_dir = \<lparr>inode = [''boot.bin'' \<mapsto> 0, ''loader.bin'' \<mapsto> 1, ''kernel.bin'' \<mapsto> 2],
     content = (\<lambda>_. [])(0 := BOOT_INFO_SIGNATURE @ replicate 504 0, 1 := [1, 2, 3], 2 := [4, 5]),
     readable = \<lambda>_. True, creatable = \<lambda>_. True, fresh_inode = 3\<rparr>"

lemma signature_once:
  assumes "j + SIZEOF_BOOTINFO \<le> BOOT_SECTOR_SIZE" "j \<noteq> 0"
  shows "chunk j 8 (BOOT_INFO_SIGNATURE @ replicate 504 0) \<noteq> BOOT_INFO_SIGNATURE"
proof
  assume e: "chunk j 8 (BOOT_INFO_SIGNATURE @ replicate 504 0) = BOOT_INFO_SIGNATURE"
  have "(BOOT_INFO_SIGNATURE @ replicate 504 0) ! j = BOOT_INFO_SIGNATURE ! 0"
    using assms(1) by (subst e [symmetric], subst nth_chunk) (simp_all add: boot_info_defs)
  moreover have "j < 8 \<Longrightarrow> j \<in> {1, 2, 3, 4, 5, 6, 7}" using assms(2) by auto
  ultimately show False using assms(1) by (cases "j < 8") (auto simp: nth_append BOOT_INFO_SIGNATURE_def boot_info_defs)
qed

lemma build_run:
  obtains fs' img where
    "imagemaker [''imagemaker'', ''boot.bin'', ''loader.bin'', ''kernel.bin'', ''Disk.img''] build_dir = Some (0, fs')"
    "file_of fs' ''Disk.img'' = Some img" "chunk 0 8 img = BOOT_INFO_SIGNATURE"
    "fs_sane build_dir" "file_of build_dir ''boot.bin'' = Some (BOOT_INFO_SIGNATURE @ replicate 504 0)"
    "file_of build_dir ''loader.bin'' = Some [1, 2, 3]" "file_of build_dir ''kernel.bin'' = Some [4, 5]"
proof -
  let ?B = "BOOT_INFO_SIGNATURE @ replicate 504 0"
  have sane: "fs_sane build_dir" by (simp add: fs_sane_def build_dir_def)
  have files: "file_of build_dir ''boot.bin'' = Some ?B" "file_of build_dir ''loader.bin'' = Some [1, 2, 3]"
    "file_of build_dir ''kernel.bin'' = Some [4, 5]"
    by (simp_all add: file_of_def build_dir_def)
  have first: "take BOOT_SECTOR_SIZE (padded ?B @ x) = ?B" for x by (simp add: padded_def BOOT_SECTOR_SIZE_def)
  have c0: "chunk 0 8 ?B = BOOT_INFO_SIGNATURE" by (simp add: chunk_def)
  have "scan_info ?B 0 None = Inr (Some 0)"
    by (rule scan_info_unique) (use c0 signature_once in \<open>simp_all add: boot_info_defs\<close>)
  then have scan: "scan_info (take BOOT_SECTOR_SIZE (padded ?B @ padded [1, 2, 3] @ padded [4, 5])) 0 None = Inr (Some 0)"
    by (simp only: first)
  have "\<exists>fs'. imagemaker [''imagemaker'', ''boot.bin'', ''loader.bin'', ''kernel.bin'', ''Disk.img''] build_dir = Some (0, fs')"
    by (rule imagemaker_ok [OF sane, where sb = 0 and sl = 1 and sk = 2 and off = 0])
      (use scan in \<open>simp_all add: build_dir_def open_rb_def isSameFile_def\<close>)
  then obtain fs' where run: "imagemaker [''imagemaker'', ''boot.bin'', ''loader.bin'', ''kernel.bin'', ''Disk.img''] build_dir = Some (0, fs')"
    by blast
  obtain img where img: "file_of fs' ''Disk.img'' = Some img" "chunk 0 8 img = BOOT_INFO_SIGNATURE"
  proof (rule imagemaker_image [OF run sane], goal_cases)
    case (1 B L K off)
    then have e: "B = ?B" "L = [1, 2, 3]" "K = [4, 5]" "off = 0" using files scan by simp_all
    have "length ?B = 512" by simp
    from image_bytes(4) [OF _ this, of 0 0 L K] show ?case
      using 1(1) [OF 1(6)] first [of "padded L @ padded K"] c0 by (simp add: e BOOT_SECTOR_SIZE_def)
  qed
  from that [OF run img sane files] show thesis .
qed

lemma kernel_image_arrives_witness:
  "\<exists>fs' m bios r m'. imagemaker [''imagemaker'', ''boot.bin'', ''loader.bin'', ''kernel.bin'', ''Disk.img''] build_dir = Some (0, fs') \<and>
     readImage bios BOOT_SECTOR_LOADED_ADDRESS m = Some r \<and> copyIA32ModeImage r = Some m' \<and> fetch m' IA32_START_ADDRESS 2 = [4, 5]"
proof (rule build_run, goal_cases)
  case (1 fs' img)
  define m where "m x = (if 0x7C00 \<le> x then img ! (x - 0x7C00) else 0)" for x
  define bios where "bios i = Some (chunk (512 * i) 512 img)" for i
  have "sectors [1, 2, 3] + sectors [4, 5] \<le> 1344" "length (BOOT_INFO_SIGNATURE @ replicate 504 0) = 512"
    by (simp_all add: sectors_def)
  moreover have "\<forall>j < 0 + 12. m (BOOT_SECTOR_LOADED_ADDRESS + j) = img ! j" by (simp add: m_def boot_info_defs)
  moreover have "chunk 0 8 (BOOT_INFO_SIGNATURE @ replicate 504 0) = BOOT_INFO_SIGNATURE" by (simp add: chunk_def)
  moreover have "\<forall>i \<le> sectors [1, 2, 3] + sectors [4, 5]. bios i = None \<or> bios i = Some (chunk (512 * i) 512 img)" by (simp add: bios_def)
  ultimately show ?case
    using kernel_image_arrives [OF 1(1,4-7,2), of 0 m bios] 1(1) by (fastforce simp: numeral_2_eq_2 bios_def)
qed

end
