(* ===== verification/Loader.thy ===== *)
theory Loader
  imports PagingProps BootImageProps ConsoleProps
begin

text \<open>
  The loader's main program (\<^verbatim>\<open>loader/Main.c\<close>, \<^verbatim>\<open>loader/32bit.c\<close>): it clears the memory
  of page tables and kernel, builds the page tables, copies the kernel, and switches to 64-bit mode. Its
  state is the console, whose video memory is the whole physical memory here.

  RAM ends at \<open>ramEnd\<close>: a store behind it is lost and a load gives the value \<open>bus\<close>. An endless loop is \<open>None\<close>.
\<close>

section \<open>The program\<close>

definition PAGE_TABLE_START_ADDRESS :: nat where "PAGE_TABLE_START_ADDRESS = 0x100000"
definition IA32_END_ADDRESS :: nat where "IA32_END_ADDRESS = 0xA00000"

definition write32 :: "nat \<Rightarrow> nat \<Rightarrow> DWORD \<Rightarrow> memory \<Rightarrow> memory" where
  "write32 ramEnd a w m = (if a + 4 \<le> ramEnd then store32 a w m else m)"

definition read32 :: "nat \<Rightarrow> DWORD \<Rightarrow> memory \<Rightarrow> nat \<Rightarrow> DWORD" where
  "read32 ramEnd bus m a = (if a + 4 \<le> ramEnd then load32 m a else bus)"

function clear_loop :: "nat \<Rightarrow> DWORD \<Rightarrow> nat \<Rightarrow> nat \<Rightarrow> memory \<Rightarrow> bool \<times> memory" where
  "clear_loop ramEnd bus a e m =
     (if a < e then
        let m1 = write32 ramEnd a 0 m
        in if read32 ramEnd bus m1 a \<noteq> 0 then (False, m1) else clear_loop ramEnd bus (a + 4) e m1
      else (True, m))"
  by pat_completeness auto
termination by (relation "measure (\<lambda>(ramEnd, bus, a, e, m). e - a)") auto

declare clear_loop.simps [simp del]

definition initializeMemory :: "nat \<Rightarrow> DWORD \<Rightarrow> nat \<Rightarrow> nat \<Rightarrow> console \<Rightarrow> (bool \<times> console) option" where
  "initializeMemory ramEnd bus start e s =
     (let (ok, m) = clear_loop ramEnd bus start e (vmem s) in printStateAndReturn ok (s\<lparr>vmem := m\<rparr>))"

definition initializeKernelMessage :: cptr where
  "initializeKernelMessage = lit ''Page table & Kernel area initialize...''"

definition initializePageTableMessage :: cptr where
  "initializePageTableMessage = lit ''page table initialize''"

definition loaderMain :: "nat \<Rightarrow> DWORD \<Rightarrow> console \<Rightarrow> console option" where
  "loaderMain ramEnd bus s = do {
     s1 \<leftarrow> printString initializeKernelMessage (cursorLine 5 s);
     (ok, s2) \<leftarrow> initializeMemory ramEnd bus PAGE_TABLE_START_ADDRESS IA32_END_ADDRESS s1;
     if \<not> ok then None
     else do {
       s3 \<leftarrow> printString initializePageTableMessage s2;
       m \<leftarrow> copyIA32ModeImage (initializePaging (vmem s3));
       Some (s3\<lparr>vmem := m\<rparr>) } }"

section \<open>Clearing memory\<close>

lemma clear_loop_ram:
  "a + 4 * n \<le> ramEnd \<Longrightarrow> clear_loop ramEnd bus a (a + 4 * n) m = (True, \<lambda>x. if a \<le> x \<and> x < a + 4 * n then 0 else m x)"
proof (induction n arbitrary: a m)
  case 0
  then show ?case by (subst clear_loop.simps) (auto simp: fun_eq_iff)
next
  case (Suc n)
  have z: "store32 a 0 m = (\<lambda>x. if a \<le> x \<and> x < a + 4 then 0 else m x)"
    by (auto simp: store32_def store_bytes_def fun_eq_iff le_encode_zero)
  have "clear_loop ramEnd bus (a + 4) (a + 4 + 4 * n) (store32 a 0 m) =
      (True, \<lambda>x. if a + 4 \<le> x \<and> x < a + 4 + 4 * n then 0 else store32 a 0 m x)"
    by (rule Suc.IH) (use Suc.prems in simp)
  then have "clear_loop ramEnd bus a (a + 4 * Suc n) m =
      (True, \<lambda>x. if a + 4 \<le> x \<and> x < a + 4 + 4 * n then 0 else store32 a 0 m x)"
    using Suc.prems by (subst clear_loop.simps) (simp add: write32_def read32_def load32_store32 add.assoc)
  then show ?case by (auto simp: z fun_eq_iff)
qed

lemma clear_loop_no_ram:
  "a < e \<Longrightarrow> ramEnd < a + 4 \<Longrightarrow> bus \<noteq> 0 \<Longrightarrow> clear_loop ramEnd bus a e m = (False, m)"
  by (subst clear_loop.simps) (simp add: write32_def read32_def)

lemma clear_loop_short:
  "0 < n \<Longrightarrow> ramEnd < a + 4 * n \<Longrightarrow> bus \<noteq> 0 \<Longrightarrow> \<exists>m'. clear_loop ramEnd bus a (a + 4 * n) m = (False, m')"
proof (induction n arbitrary: a m)
  case (Suc n)
  show ?case
  proof (cases "ramEnd < a + 4")
    case True
    then show ?thesis using clear_loop_no_ram [of a "a + 4 * Suc n" ramEnd bus m] Suc.prems(3) by simp
  next
    case False
    then obtain m' where "clear_loop ramEnd bus (a + 4) (a + 4 + 4 * n) (store32 a 0 m) = (False, m')"
      using Suc.IH [of "a + 4" "store32 a 0 m"] Suc.prems by (cases "n = 0") auto
    then show ?thesis using False
      by (subst clear_loop.simps) (simp add: write32_def read32_def load32_store32 add.assoc)
  qed
qed simp

section \<open>What the console touches\<close>

definition video :: "nat set" where "video = {0xB8000..<0xB8FA0}"

lemma viewCharacter_frame:
  assumes "ch \<noteq> BACK_SPACE" "cursor_at s k" "k < 2080" "x \<notin> video"
  shows "vmem (viewCharacter ch s) x = vmem s x"
proof (cases "k + 1 < CELLS")
  case True
  then show ?thesis using assms(4) viewCharacter_low(1) [OF assms(1,2) True] by (auto simp: video_def CELLS_eq)
next
  case False
  then have "CELLS \<le> k + 1" by simp
  from viewCharacter_scroll(1) [OF assms(1,2) this] show ?thesis
    using assms(3,4) False by (auto simp: video_def CELLS_eq)
qed

lemma print_loop_frame:
  "cstr_at p i t \<Longrightarrow> BACK_SPACE \<notin> set t \<Longrightarrow> 10 \<notin> set t \<Longrightarrow> cursor_at s k \<Longrightarrow> k + length t < CELLS \<Longrightarrow>
   \<exists>s'. print_loop p i s = Some s' \<and> cursor_at s' (k + length t) \<and> (\<forall>x. x \<notin> video \<longrightarrow> vmem s' x = vmem s x)"
proof (induction t arbitrary: i s k)
  case Nil
  then show ?case by (subst print_loop.simps) simp
next
  case (Cons c t)
  have c: "c \<noteq> BACK_SPACE" "k + 1 < CELLS" using Cons.prems by auto
  note v = viewCharacter_low(2) [OF c(1) Cons.prems(4) c(2)]
  have "k < 2080" using c(2) by (simp add: CELLS_eq)
  note f = viewCharacter_frame [OF c(1) Cons.prems(4) this]
  obtain s' where s': "print_loop p (Suc i) (viewCharacter c s) = Some s'" "cursor_at s' (k + 1 + length t)"
    "\<forall>x. x \<notin> video \<longrightarrow> vmem s' x = vmem (viewCharacter c s) x"
    using Cons.IH [OF _ _ _ v, of "Suc i"] Cons.prems by auto
  then have "print_loop p i s = Some s'" using Cons.prems(1,3) by (subst print_loop.simps) auto
  with s' f show ?case by auto
qed

lemma printString_frame:
  assumes "cstr p t" "BACK_SPACE \<notin> set t" "10 \<notin> set t" "cursor_at s k" "k + length t < CELLS"
  obtains s' where "printString p s = Some s'" "cursor_at s' (k + length t)" "\<And>x. x \<notin> video \<Longrightarrow> vmem s' x = vmem s x"
  using print_loop_frame [OF assms] by (auto simp: printString_def)

lemma cstr_lit:
  assumes "\<forall>c \<in> set cs. of_char c \<noteq> (0 :: BYTE)"
  shows "cstr (lit cs) (map of_char cs)"
proof -
  have "cstr_at (lit cs) i (map of_char (drop i cs))" if "i \<le> length cs" for i
    using that
  proof (induction "length cs - i" arbitrary: i)
    case 0
    then show ?case by (simp add: lit_def)
  next
    case (Suc n)
    then have i: "i < length cs" by simp
    then have "cstr_at (lit cs) (Suc i) (map of_char (drop (Suc i) cs))" using Suc by (intro Suc(1)) simp_all
    then show ?case using i assms by (simp add: lit_def flip: Cons_nth_drop_Suc)
  qed
  from this [of 0] show ?thesis by simp
qed

lemma print_ok:
  assumes "cursor_at s k" "k + 2 < CELLS"
  obtains s' where "printStateAndReturn True s = Some (True, s')" "cursor_at s' (((k + 2) div 80 + 1) * 80)"
    "\<And>x. x \<notin> video \<Longrightarrow> vmem s' x = vmem s x"
proof -
  have "cstr okSign [79, 75]" by (simp add: okSign_def lit_def)
  then obtain s1 where s1: "printString okSign s = Some s1" "cursor_at s1 (k + 2)" "\<And>x. x \<notin> video \<Longrightarrow> vmem s1 x = vmem s x"
    using printString_frame [OF _ _ _ assms(1), of okSign "[79, 75]"] assms(2)
    by (simp add: BACK_SPACE_def) metis
  then show thesis using moveToNextLine_cell [OF s1(2)]
    by (intro that [of "moveToNextLine s1"]) (simp_all add: printStateAndReturn_def puts_def)
qed

text \<open>The kernel's copy starts behind the entries of the first 2.6 GB and lies over those from there on.\<close>

lemma translate_below_copy:
  assumes copy: "\<And>x. x < IA32_START_ADDRESS \<Longrightarrow> m' x = initializePaging m x" and va: "va < 0x9F400000"
  shows "translate m' va = (if va < 0x4000000 then Some \<lparr>phys = va, writable = True, user = False, executable = True\<rparr> else None)"
proof -
  have up: "upper_levels m'"
    using upper_levels_cong [of m' "initializePaging m"] upper_levels_paging [of m] copy by (simp add: table_addrs IA32_START_ADDRESS_def)
  have page: "va div 4096 < 0x9F400" "va < 2 ^ 32" using va by (simp_all add: less_mult_imp_div_less)
  have "entry_at m' PTABLE_BASE_ADDRESS (va div 4096) = entry_at (initializePaging m) PTABLE_BASE_ADDRESS (va div 4096)"
    by (rule entry_at_cong, rule copy) (use page(1) in \<open>simp add: table_addrs IA32_START_ADDRESS_def\<close>)
  then show ?thesis using page by (simp add: translate_def walk_page_upper [OF up] entry_at_paging div_less_iff_less_mult)
qed

lemma entries_under_copy:
  assumes "fetch m IA32_START_ADDRESS (length K) = K" and i: "8 * i + 8 \<le> length K"
  shows "fetch m (PTABLE_BASE_ADDRESS + 8 * (0x9F400 + i)) 8 = chunk (8 * i) 8 K"
proof (rule nth_equalityI)
  fix j assume "j < length (fetch m (PTABLE_BASE_ADDRESS + 8 * (0x9F400 + i)) 8)"
  then have j: "j < 8" by simp
  have "m (IA32_START_ADDRESS + (8 * i + j)) = K ! (8 * i + j)"
    using nth_fetch [of "8 * i + j" "length K" m IA32_START_ADDRESS] i j by (simp add: assms(1))
  then show "fetch m (PTABLE_BASE_ADDRESS + 8 * (0x9F400 + i)) 8 ! j = chunk (8 * i) 8 K ! j"
    using i j by (simp add: nth_chunk table_addrs IA32_START_ADDRESS_def add.assoc)
qed (use i in simp)

section \<open>The loader's result\<close>

lemma loader_with_ram:
  assumes "imagemaker [prog, b, l, k, d] fs = Some (0, fs')" and "fs_sane fs"
    and "file_of fs b = Some B" "file_of fs l = Some L" "file_of fs k = Some K" "file_of fs' d = Some img"
    and "length B = 512" and "sectors L + sectors K \<le> 1344"
    and "chunk off 8 img = BOOT_INFO_SIGNATURE" "off + 12 \<le> 512"
    and "\<forall>j < off + 12. vmem s (BOOT_SECTOR_LOADED_ADDRESS + j) = img ! j"
    and "\<forall>i < 512 * (sectors L + sectors K). vmem s (0x10000 + i) = img ! (512 + i)" and "0xA00000 \<le> ramEnd"
  shows "\<exists>s'. loaderMain ramEnd bus s = Some s' \<and> fetch (vmem s') IA32_START_ADDRESS (length K) = K \<and>
    (\<forall>va < 0x9F400000. translate (vmem s') va =
       (if va < 0x4000000 then Some \<lparr>phys = va, writable = True, user = False, executable = True\<rparr> else None)) \<and>
    (\<forall>i. 8 * i + 8 \<le> length K \<longrightarrow> fetch (vmem s') (PTABLE_BASE_ADDRESS + 8 * (0x9F400 + i)) 8 = chunk (8 * i) 8 K)"
proof -
  have "cursor_at (cursorLine 5 s) 400" by (simp add: cursor_at_def cursorLine_def cell_addr_def video_defs)
  moreover have "cstr initializeKernelMessage (map of_char ''Page table & Kernel area initialize...'')"
    unfolding initializeKernelMessage_def by (rule cstr_lit) simp
  ultimately obtain s1 where s1: "printString initializeKernelMessage (cursorLine 5 s) = Some s1" "cursor_at s1 438"
    "\<And>x. x \<notin> video \<Longrightarrow> vmem s1 x = vmem s x"
    using printString_frame [of initializeKernelMessage "map of_char ''Page table & Kernel area initialize...''" "cursorLine 5 s" 400]
    by (auto simp: BACK_SPACE_def CELLS_eq cursorLine_def)
  define m where "m = (\<lambda>x. if 0x100000 \<le> x \<and> x < 0xA00000 then 0 else vmem s1 x)"
  have "clear_loop ramEnd bus 0x100000 (0x100000 + 4 * 0x240000) (vmem s1) = (True, m)"
    by (subst clear_loop_ram) (use assms(13) in \<open>simp_all add: m_def\<close>)
  moreover have "cursor_at (s1\<lparr>vmem := m\<rparr>) 438" using s1(2) by (simp add: cursor_at_def)
  then obtain s2 where s2: "printStateAndReturn True (s1\<lparr>vmem := m\<rparr>) = Some (True, s2)" "cursor_at s2 480"
    "\<And>x. x \<notin> video \<Longrightarrow> vmem s2 x = m x"
    by (rule print_ok) (simp_all add: CELLS_eq)
  ultimately have init: "initializeMemory ramEnd bus PAGE_TABLE_START_ADDRESS IA32_END_ADDRESS s1 = Some (True, s2)"
    by (simp add: initializeMemory_def PAGE_TABLE_START_ADDRESS_def IA32_END_ADDRESS_def)
  have "cstr initializePageTableMessage (map of_char ''page table initialize'')"
    unfolding initializePageTableMessage_def by (rule cstr_lit) simp
  then obtain s3 where s3: "printString initializePageTableMessage s2 = Some s3" "\<And>x. x \<notin> video \<Longrightarrow> vmem s3 x = vmem s2 x"
    using printString_frame [of initializePageTableMessage "map of_char ''page table initialize''" s2 480] s2(2)
    by (auto simp: BACK_SPACE_def CELLS_eq)
  define r where "r = initializePaging (vmem s3)"
  have low: "r x = vmem s x" if "x < 0xB8000" for x
    using that initializePaging_outside [of x "vmem s3"] s3(2) [of x] s2(3) [of x] s1(3) [of x]
    by (simp add: r_def m_def video_def PML4_BASE_ADDRESS_def)
  have "\<forall>j < off + 12. r (BOOT_SECTOR_LOADED_ADDRESS + j) = img ! j"
    "\<forall>i < 512 * (sectors L + sectors K). r (0x10000 + i) = img ! (512 + i)"
    using assms(8,10-12) low by (simp_all add: BOOT_SECTOR_LOADED_ADDRESS_def)
  from image_copied [OF assms(1-9) this]
  obtain m' where m': "copyIA32ModeImage r = Some m'" "fetch m' IA32_START_ADDRESS (length K) = K"
    "\<And>x. x < IA32_START_ADDRESS \<Longrightarrow> m' x = r x" by metis
  have run: "loaderMain ramEnd bus s = Some (s3\<lparr>vmem := m'\<rparr>)"
    using s1(1) init s3(1) m'(1) by (simp add: loaderMain_def r_def)
  show ?thesis using run m'(2) translate_below_copy [OF m'(3) [unfolded r_def]] entries_under_copy [OF m'(2)]
    by (intro exI [of _ "s3\<lparr>vmem := m'\<rparr>"]) simp
qed

text \<open>The memory test is the guard: where RAM ends before 10 MB and the bus does not read as zero, the loader stops.\<close>

lemma loader_without_ram:
  assumes "ramEnd < 0xA00000" and "bus \<noteq> 0"
  shows "loaderMain ramEnd bus s = None"
proof -
  have "\<exists>m'. clear_loop ramEnd bus 0x100000 (0x100000 + 4 * 0x240000) m = (False, m')" for m
    by (rule clear_loop_short) (use assms in simp_all)
  then have "fst (clear_loop ramEnd bus PAGE_TABLE_START_ADDRESS IA32_END_ADDRESS m) = False" for m
    by (simp add: PAGE_TABLE_START_ADDRESS_def IA32_END_ADDRESS_def) (metis fst_conv)
  then show ?thesis
    by (auto simp: loaderMain_def initializeMemory_def printStateAndReturn_def split: Option.bind_splits prod.splits)
      (metis fst_conv)
qed

text \<open>C18: The loader. With the image loaded as above it hands over exactly when RAM reaches up to 10 MB, on a machine whose bus
  does not read as zero where there is no RAM; otherwise the memory test fails and the loader never returns. When it hands over,
  the kernel's bytes are at 0x600000; addresses below 64 MB translate to themselves and are closed to ring 3; addresses from there
  to \<open>0x9F400000\<close> fault. Behind that the kernel image lies over the page table: the entries of these pages are bytes of the
  kernel.\<close>

theorem loader_hands_over:
  assumes "imagemaker [prog, b, l, k, d] fs = Some (0, fs')" and "fs_sane fs"
    and "file_of fs b = Some B" "file_of fs l = Some L" "file_of fs k = Some K" "file_of fs' d = Some img"
    and "length B = 512" and "sectors L + sectors K \<le> 1344"
    and "chunk off 8 img = BOOT_INFO_SIGNATURE" "off + 12 \<le> 512"
    and "\<forall>j < off + 12. vmem s (BOOT_SECTOR_LOADED_ADDRESS + j) = img ! j"
    and "\<forall>i < 512 * (sectors L + sectors K). vmem s (0x10000 + i) = img ! (512 + i)" and "bus \<noteq> 0"
  shows "(loaderMain ramEnd bus s \<noteq> None \<longleftrightarrow> 0xA00000 \<le> ramEnd) \<and>
    (\<forall>s'. loaderMain ramEnd bus s = Some s' \<longrightarrow> fetch (vmem s') IA32_START_ADDRESS (length K) = K \<and>
      (\<forall>va < 0x9F400000. translate (vmem s') va =
         (if va < 0x4000000 then Some \<lparr>phys = va, writable = True, user = False, executable = True\<rparr> else None)) \<and>
      (\<forall>i. 8 * i + 8 \<le> length K \<longrightarrow> fetch (vmem s') (PTABLE_BASE_ADDRESS + 8 * (0x9F400 + i)) 8 = chunk (8 * i) 8 K))"
proof (cases "0xA00000 \<le> ramEnd")
  case True
  from loader_with_ram [OF assms(1-12) True, of bus] True show ?thesis by auto
next
  case False
  with loader_without_ram [OF _ assms(13)] show ?thesis by simp
qed

lemma loader_hands_over_witness:
  "\<exists>s s'. loaderMain 0xA00000 0xFFFFFFFF s = Some s' \<and> loaderMain 0x9FFFFF 0xFFFFFFFF s = None \<and> fetch (vmem s') IA32_START_ADDRESS 2 = [4, 5] \<and>
     translate (vmem s') 0x600123 = Some \<lparr>phys = 0x600123, writable = True, user = False, executable = True\<rparr> \<and>
     translate (vmem s') 0x4000000 = None"
proof (rule build_run, goal_cases)
  case (1 fs' img)
  define s where "s = \<lparr>vmem = \<lambda>x. img ! (if x < 0x10000 then x - 0x7C00 else 512 + (x - 0x10000)),
    currentPoint = 0, monitor = undefined\<rparr>"
  have "sectors [1, 2, 3] + sectors [4, 5] \<le> 1344" "length (BOOT_INFO_SIGNATURE @ replicate 504 0) = 512"
    by (simp_all add: sectors_def)
  moreover have "\<forall>j < 0 + 12. vmem s (BOOT_SECTOR_LOADED_ADDRESS + j) = img ! j"
    by (simp add: s_def boot_info_defs)
  moreover have "\<forall>i < 512 * (sectors [1, 2, 3] + sectors [4, 5]). vmem s (0x10000 + i) = img ! (512 + i)"
    by (simp add: s_def)
  ultimately have run: "(loaderMain ramEnd 0xFFFFFFFF s \<noteq> None \<longleftrightarrow> 0xA00000 \<le> ramEnd) \<and>
    (\<forall>s'. loaderMain ramEnd 0xFFFFFFFF s = Some s' \<longrightarrow> fetch (vmem s') IA32_START_ADDRESS (length [4, 5 :: BYTE]) = [4, 5] \<and>
      (\<forall>va < 0x9F400000. translate (vmem s') va =
         (if va < 0x4000000 then Some \<lparr>phys = va, writable = True, user = False, executable = True\<rparr> else None)))" for ramEnd
    using loader_hands_over [OF 1(1,4-7,2) _ _ 1(3), of s "0xFFFFFFFF" ramEnd] by auto
  from run [of "0xA00000"] obtain s' where s': "loaderMain 0xA00000 0xFFFFFFFF s = Some s'" by auto
  with run [of "0xA00000"] run [of "0x9FFFFF"] show ?case
    by (intro exI [of _ s] exI [of _ s']) (simp add: numeral_2_eq_2)
qed

end
