(* ===== verification/Handlers.thy ===== *)
theory Handlers
  imports DiskProps PagingProps
begin

text \<open>
  Exceptions and interrupts (\<^verbatim>\<open>arch/HandlerImp.c\<close>): the dispatch of an interrupt to the handler its
  driver registered, and the handler of the processor's exceptions, which kills a ring-3 process and stops
  the system otherwise. The console is passed beside the state of the kernel.
\<close>

section \<open>Dispatching\<close>

definition INTERRUPT_VECTOR_COUNT :: int where "INTERRUPT_VECTOR_COUNT = 48"
definition PAGE_FAULT_VECTOR :: int where "PAGE_FAULT_VECTOR = 14"
definition RESERVED_VECTOR :: int where "RESERVED_VECTOR = 20"

text \<open>The call through the function pointer.\<close>

primrec call_handler :: "'d portio \<Rightarrow> isr \<Rightarrow> int \<Rightarrow> ('d, 'z) dsk_scheme \<Rightarrow> ('d, 'z) dsk_scheme option" where
  "call_handler io timerISR v s = timerInterruptHandler io v s"
| "call_handler io keyboardISR v s = keyboardInterruptHandler io v s"
| "call_handler io primaryDiskISR v s = primaryDiskInterruptHandler io v s"
| "call_handler io secondaryDiskISR v s = secondaryDiskInterruptHandler io v s"

text \<open>A vector outside the table is undefined behaviour: \<open>None\<close>.\<close>

definition dispatchInterrupt :: "'d portio \<Rightarrow> int \<Rightarrow> console \<Rightarrow> ('d, 'z) dsk_scheme \<Rightarrow> (console \<times> ('d, 'z) dsk_scheme) option" where
  "dispatchInterrupt io vectorNumber c s =
     (if vectorNumber < 0 \<or> vectorNumber \<ge> INTERRUPT_VECTOR_COUNT then None
      else case interruptHandlers s ! nat vectorNumber of
        None \<Rightarrow> do {
          c1 \<leftarrow> puts (lit ''unhandled interrupt!'') c;
          c2 \<leftarrow> printInt vectorNumber 10 c1;
          Some (c2, s) }
      | Some handler \<Rightarrow> map_option (Pair c) (call_handler io handler vectorNumber s))"

section \<open>Exceptions\<close>

definition exceptionNames :: "string list" where
  "exceptionNames = [''#DE Divide Error'', ''#DB Debug'', ''NMI'', ''#BP Breakpoint'', ''#OF Overflow'',
     ''#BR Bound Range Exceeded'', ''#UD Invalid Opcode'', ''#NM Device Not Available'', ''#DF Double Fault'',
     ''Coprocessor Segment Overrun'', ''#TS Invalid TSS'', ''#NP Segment Not Present'', ''#SS Stack Segment Fault'',
     ''#GP General Protection'', ''#PF Page Fault'', ''Reserved'', ''#MF FPU Error'', ''#AC Alignment Check'',
     ''#MC Machine Check'', ''#XM SIMD Error'', ''Reserved'']"

definition print_name :: "int \<Rightarrow> console \<Rightarrow> console option" where
  "print_name v c = (if 0 \<le> v \<and> v < int (length exceptionNames) then printString (lit (exceptionNames ! nat v)) c else None)"

text \<open>How the handler ends: another process runs, or the processor has stopped.\<close>

datatype exception_end = Killed | Halted

text \<open>\<open>cr2\<close> is the value of the register that holds the faulting address.\<close>

definition exceptionHandler :: "QWORD \<Rightarrow> int \<Rightarrow> QWORD \<Rightarrow> QWORD \<Rightarrow> QWORD \<Rightarrow> console \<Rightarrow> ('d, 'z) proc_scheme \<Rightarrow>
    (exception_end \<times> console \<times> ('d, 'z) proc_scheme) option" where
  "exceptionHandler cr2 vectorNumber errorCode rip cs c s =
     (let s1 = disableInterrupt s
      in if cs AND RPL_USER = RPL_USER then do {
           c \<leftarrow> printString (lit ''Ring3 process(pid '') (moveToNextLine c);
           c \<leftarrow> printInt (getRunningPid s1) 10 c;
           c \<leftarrow> printString (lit '') killed: '') c;
           c \<leftarrow> print_name vectorNumber c;
           c \<leftarrow> printString (lit '' RIP: 0x'') c;
           c \<leftarrow> printHex rip c;
           s2 \<leftarrow> exitProcess s1;
           Some (Killed, moveToNextLine c, s2) }
         else do {
           c \<leftarrow> printString (lit ''==== Exception: '') (moveToNextLine c);
           c \<leftarrow> print_name vectorNumber c;
           c \<leftarrow> printString (lit '' (vector '') c;
           c \<leftarrow> printInt vectorNumber 10 c;
           c \<leftarrow> puts (lit '') ===='') c;
           c \<leftarrow> printString (lit ''RIP: 0x'') c;
           c \<leftarrow> printHex rip c;
           c \<leftarrow> printString (lit ''Error Code: 0x'') (moveToNextLine c);
           c \<leftarrow> printHex errorCode c;
           let c = moveToNextLine c;
           c \<leftarrow> (if vectorNumber = PAGE_FAULT_VECTOR then do {
                  c \<leftarrow> printString (lit ''CR2: 0x'') c;
                  c \<leftarrow> printHex cr2 c;
                  Some (moveToNextLine c) }
                else Some c);
           c \<leftarrow> puts (lit ''System halted'') c;
           Some (Halted, c, s1) })"

section \<open>Printing always returns\<close>

lemma print_lit_loop: "i \<le> length cs \<Longrightarrow> \<exists>c'. print_loop (lit cs) i c = Some c'"
proof (induction "length cs - i" arbitrary: i c)
  case 0
  then show ?case by (subst print_loop.simps) (simp add: lit_def)
next
  case (Suc n)
  then have i: "i < length cs" "Suc i \<le> length cs" "n = length cs - Suc i" by auto
  show ?case using Suc.hyps(1) [OF i(3,2)] i(1) by (subst print_loop.simps) (simp add: lit_def)
qed

lemma print_lit: "\<exists>c'. printString (lit cs) c = Some c'" "\<exists>c'. puts (lit cs) c = Some c'"
  using print_lit_loop [of 0 cs c] by (auto simp: printString_def puts_def)

lemma print_decimal: "- (2 ^ 31) \<le> n \<Longrightarrow> n < 2 ^ 31 \<Longrightarrow> \<exists>c'. printInt n 10 c = Some c'"
  using print_int_roundtrip [of 10 n c] by auto

section \<open>What is printed\<close>

lemma chars_nul [simp]: "0 \<in> set (chars cs) \<longleftrightarrow> CHR 0x00 \<in> set cs"
proof -
  have "of_char c = (0 :: BYTE) \<longleftrightarrow> c = CHR 0x00" for c
  proof
    assume "of_char c = (0 :: BYTE)"
    then have "unat (of_char c :: BYTE) = 0" by simp
    moreover have "of_char c < (256 :: nat)"
      using of_char_mod_256 [of c, where 'a = nat] mod_less_divisor [of 256 "of_char c"] by simp
    then have "unat (of_char c :: BYTE) = of_char c"
      using of_nat_of_char [of c, where 'a = "8 word"] unat_of_nat [of "of_char c", where 'a = 8] by simp
    ultimately have "char_of (of_char c :: nat) = char_of (0 :: nat)" by simp
    moreover have "char_of (0 :: nat) = CHR 0x00" by (simp add: char_of_def)
    ultimately show "c = CHR 0x00" by simp
  qed simp
  then show ?thesis by (force simp: chars_def image_iff)
qed

lemma names_typed:
  assumes "0 \<le> v" "v \<le> 20" shows "print_name v c = Some (type_text (chars (exceptionNames ! nat v)) c)"
proof -
  have "list_all (\<lambda>cs. CHR 0x00 \<notin> set cs) exceptionNames" by (simp add: exceptionNames_def)
  moreover have "nat v < length exceptionNames" using assms by (simp add: exceptionNames_def)
  ultimately have "0 \<notin> set (chars (exceptionNames ! nat v))" by (simp add: list_all_length)
  then show ?thesis using assms by (simp add: print_name_def print_typed exceptionNames_def)
qed

text \<open>The reports on an exception, with the bytes the handler types: in the kernel, and of a ring-3 process.\<close>

definition halt_report :: "QWORD \<Rightarrow> int \<Rightarrow> QWORD \<Rightarrow> QWORD \<Rightarrow> BYTE list" where
  "halt_report cr2 v err rip =
     [10] @ chars ''==== Exception: '' @ chars (exceptionNames ! nat v) @ chars '' (vector '' @ decimal v @ chars '') ===='' @ [10] @
     chars ''RIP: 0x'' @ hexadecimal rip @ [10] @ chars ''Error Code: 0x'' @ hexadecimal err @ [10] @
     (if v = PAGE_FAULT_VECTOR then chars ''CR2: 0x'' @ hexadecimal cr2 @ [10] else []) @ chars ''System halted'' @ [10]"

definition kill_report :: "int \<Rightarrow> int \<Rightarrow> QWORD \<Rightarrow> BYTE list" where
  "kill_report pid v rip =
     [10] @ chars ''Ring3 process(pid '' @ decimal pid @ chars '') killed: '' @ chars (exceptionNames ! nat v) @
     chars '' RIP: 0x'' @ hexadecimal rip @ [10]"

section \<open>What an interrupt leaves alone\<close>

definition same_sys :: "('d, 'z) proc_scheme \<Rightarrow> ('d, 'z) proc_scheme \<Rightarrow> bool" where
  "same_sys s s' \<longleftrightarrow> pte s' = pte s \<and> allocProcessTable s' = allocProcessTable s \<and> ram s' = ram s \<and>
     interruptHandlers s' = interruptHandlers s"

lemma same_sys_table: "same_table s s' \<Longrightarrow> same_sys s s'"
  by (simp add: same_table_def same_sys_def)

lemma same_sys_trans: "same_sys s s' \<Longrightarrow> same_sys s' s'' \<Longrightarrow> same_sys s s''"
  by (simp add: same_sys_def)

lemma getPort_frame: "\<exists>d. snd (getPort io port s) = s\<lparr>dev := d\<rparr>"
  by (auto simp: getPort_def split: prod.split)

lemma getScanCode_frame: 
  assumes "getScanCode io s = Some r" shows "\<exists>d. snd r = s\<lparr>dev := d\<rparr>"
  using assms
proof (rule getScanCode.raw_induct [where P = "\<lambda>_ s r. \<exists>d. snd r = s\<lparr>dev := d\<rparr>", rotated], goal_cases)
  case (1 f io s r)
  obtain b d where o: "isOutputBufferFull io s = (b, s\<lparr>dev := d\<rparr>)"
    using getPort_frame [of io STATE_REG s] by (cases "getPort io STATE_REG s") (auto simp: isOutputBufferFull_def)
  show ?case
  proof (cases b)
    case True
    then show ?thesis using 1(2) o getPort_frame [of io BUFFER "s\<lparr>dev := d\<rparr>"] by auto
  next
    case False
    then show ?thesis using 1(1) [of io "s\<lparr>dev := d\<rparr>" r] 1(2) o by auto
  qed
qed

lemma scanToASCII_frame: 
  "scanToASCII io c s = Some (k, s') \<Longrightarrow> same_sys s s' \<and> kbd.more s' = kbd.more s"
  by (auto simp: scanToASCII_def Let_def same_sys_def dest!: getScanCode_frame split: if_splits Option.bind_splits)

lemma kbd_more_frame: "proc.more s' = proc.more s \<Longrightarrow> kbd.more s' = kbd.more s"
  by (cases s; cases s') simp

lemma disk_more_frame: 
  assumes "proc.more s' = proc.more s"
  shows "diskWaiter s' = diskWaiter s" "isPrimaryInterruptOccur s' = isPrimaryInterruptOccur s"
    "isSecondaryInterruptOccur s' = isSecondaryInterruptOccur s"
  using assms by (cases s; cases s'; simp)+

lemma inputQueue_frame:
  assumes "inputQueue io c s = Some s'" shows "same_sys s s' \<and> kbd.more s' = kbd.more s"
proof -
  obtain a s1 where s1: "scanToASCII io c s = Some (a, s1)" "same_sys s s1" "kbd.more s1 = kbd.more s"
    using assms scanToASCII_frame [of io c s] by (auto simp: inputQueue_def split: Option.bind_splits)
  show ?thesis
  proof (cases "a = 0")
    case True
    then show ?thesis using assms s1 by (simp add: inputQueue_def)
  next
    case False
    define s2 where "s2 = snd (setIf False s1)"
    define s3 where "s3 = s2\<lparr>keyQueue := snd (enQueue (keyQueue s2) [a])\<rparr>"
    obtain s4 where s4: "wakeupProcessInInterrupt (keyWaiter s3) s3 = Some s4" "s' = snd (setIf (fst (setIf False s1)) s4)"
      using assms False s1(1) by (auto simp: inputQueue_def s3_def s2_def case_prod_beta split: Option.bind_splits)
    have m: "kbd.more (snd (setIf b t)) = kbd.more t" for b and t :: "('a, 'b) kbd_scheme"
      by (rule kbd_more_frame) simp
    have "same_sys s2 s3" "same_sys s1 s2" "same_sys s4 s'" "kbd.more s3 = kbd.more s1"
      by (simp_all add: same_sys_def s3_def s2_def s4(2) m)
    with wakeupProcessInInterrupt_table [OF s4(1)] s1(2,3) show ?thesis
      by (auto simp: same_sys_def same_table_def s4(2) m dest: kbd_more_frame)
  qed
qed

lemma keyboardInterruptHandler_frame:
  assumes "keyboardInterruptHandler io v s = Some s'"
  shows "same_sys s s' \<and> kbd.more s' = kbd.more s"
proof -
  obtain b d where o: "isOutputBufferFull io s = (b, s\<lparr>dev := d\<rparr>)"
    using getPort_frame [of io STATE_REG s] by (cases "getPort io STATE_REG s") (auto simp: isOutputBufferFull_def)
  have eoi: "same_sys t (snd (sendEOI io p t)) \<and> kbd.more (snd (sendEOI io p t)) = kbd.more t" for p and t :: "('a, 'b) kbd_scheme"
    using sendEOI_frame [of io p t] by (auto simp: same_sys_def)
  have d: "same_sys s (s\<lparr>dev := e\<rparr>) \<and> kbd.more (s\<lparr>dev := e\<rparr>) = kbd.more s" for e by (simp add: same_sys_def)
  show ?thesis
  proof (cases b)
    case True
    with assms o obtain c s2 s3 where "getScanCode io (s\<lparr>dev := d\<rparr>) = Some (c, s2)" "inputQueue io c s2 = Some s3"
      "s' = snd (sendEOI io (v - IRQ_START_OFFSET) s3)"
      by (auto simp: keyboardInterruptHandler_def split: Option.bind_splits)
    with getScanCode_frame [OF this(1)] inputQueue_frame [OF this(2)] eoi [of s3] show ?thesis
      by (auto simp: same_sys_def)
  next
    case False
    then have "s' = snd (sendEOI io (v - IRQ_START_OFFSET) (s\<lparr>dev := d\<rparr>))"
      using assms o by (simp add: keyboardInterruptHandler_def)
    with eoi [of "s\<lparr>dev := d\<rparr>"] show ?thesis by (auto simp: same_sys_def)
  qed
qed

section \<open>Every interrupt is serviced\<close>

text \<open>The handlers the drivers register while the kernel boots.\<close>

definition irq_table :: "isr option list" where
  "irq_table = (replicate 48 None)[32 := Some timerISR, 33 := Some keyboardISR, 46 := Some primaryDiskISR,
     47 := Some secondaryDiskISR]"

definition kernel_ok :: "('d, 'z) dsk_scheme \<Rightarrow> bool" where
  "kernel_ok s \<longleftrightarrow> kbd_ok s \<and> interruptHandlers s = irq_table \<and>
     (\<forall>b. diskWaiter s b = NULL \<or> live (allocProcessTable s) (diskWaiter s b))"

lemma irq_table_nth:
  "n < 48 \<Longrightarrow> irq_table ! n = (if n = 32 then Some timerISR else if n = 33 then Some keyboardISR
     else if n = 46 then Some primaryDiskISR else if n = 47 then Some secondaryDiskISR else None)"
  by (simp add: irq_table_def nth_list_update)

definition serviced :: "('d, 'z) dsk_scheme \<Rightarrow> ('d, 'z) dsk_scheme \<Rightarrow> bool" where
  "serviced s s' \<longleftrightarrow> kernel_ok s' \<and> same_sys s s'"

lemma timer_serviced:
  assumes "kernel_ok s"
  shows "\<exists>s'. timerInterruptHandler io v s = Some s' \<and> serviced s s' \<and> tickCount s' = tickCount s + 1"
proof -
  have "sched_ok s" using assms by (simp add: kernel_ok_def kbd_ok_def)
  then obtain s' where s': "timerInterruptHandler io v s = Some s'" "sched_ok s'" "tickCount s' = tickCount s + 1"
    "proc.more s' = proc.more s" using timer_refines [of s io v] by metis
  have "same_sys s s'" using timerInterruptHandler_table [OF s'(1)] by (rule same_sys_table)
  with s' assms kbd_more [OF s'(4)] disk_more_frame [OF s'(4)] show ?thesis
    by (auto simp: serviced_def kernel_ok_def kbd_ok_def same_sys_def)
qed

lemma keyboard_serviced:
  assumes "kernel_ok s" and "fst (in_byte io STATE_REG (dev s)) AND 1 = 0 \<or> (\<exists>c. delivers io (dev s) c)"
  shows "\<exists>s'. keyboardInterruptHandler io v s = Some s' \<and> serviced s s'"
proof -
  have ok: "kbd_ok s" using assms(1) by (simp add: kernel_ok_def)
  obtain s' where s': "keyboardInterruptHandler io v s = Some s'" "kbd_ok s'"
    using assms(2)
  proof
    assume "fst (in_byte io STATE_REG (dev s)) AND 1 = 0"
    then obtain d where "keyboardInterruptHandler io v s = Some (s\<lparr>dev := d\<rparr>)" by (rule keyboard_interrupt_empty)
    with ok show thesis by (intro that [of "s\<lparr>dev := d\<rparr>"]) simp_all
  next
    assume "\<exists>c. delivers io (dev s) c"
    then show thesis using keyboard_interrupt_step [OF ok] that by metis
  qed
  have "kbd.more s' = kbd.more s" and same: "same_sys s s'" using keyboardInterruptHandler_frame [OF s'(1)] by simp_all
  then have "diskWaiter s' = diskWaiter s" by (cases s; cases s') simp
  with s' assms(1) same show ?thesis by (auto simp: serviced_def kernel_ok_def same_sys_def)
qed

lemma waiter_woken:
  assumes "sched_ok s" and "p = NULL \<or> live (allocProcessTable s) p"
  shows "\<exists>s'. wakeupProcessInInterrupt p s = Some s' \<and> sched_ok s' \<and> same_table s s' \<and>
    (p \<noteq> NULL \<longrightarrow> state_of s' p \<noteq> PROCESS_STATE_BLOCKED)"
proof (cases "p = NULL \<or> state_of s p \<noteq> PROCESS_STATE_BLOCKED")
  case True
  then show ?thesis using assms(1) interrupt_wake_ignored [OF True] by (auto simp: same_table_def)
next
  case False
  with assms have p: "live (allocProcessTable s) p" "state_of s p = PROCESS_STATE_BLOCKED" by auto
  from interrupt_wake_parks [OF assms(1) p] show ?thesis
    by (metis wakeupProcessInInterrupt_table)
qed

lemma disk_serviced:
  assumes "kernel_ok s" and h: "h = (if pri then primaryDiskInterruptHandler else secondaryDiskInterruptHandler)"
  shows "\<exists>s'. h io v s = Some s' \<and> serviced s s' \<and> occurFlag pri s' \<and>
    (diskWaiter s pri \<noteq> NULL \<longrightarrow> state_of s' (diskWaiter s pri) \<noteq> PROCESS_STATE_BLOCKED)"
proof -
  define s1 where "s1 = (if pri then s\<lparr>isPrimaryInterruptOccur := True\<rparr> else s\<lparr>isSecondaryInterruptOccur := True\<rparr>)"
  obtain d where "snd (sendEOI io (v - IRQ_START_OFFSET) s1) = s1\<lparr>dev := d\<rparr>" (is "_ = ?s2")
    using sendEOI_frame by metis
  then have run: "h io v s = wakeupProcessInInterrupt (diskWaiter s pri) ?s2"
    by (cases pri) (simp_all add: h s1_def primaryDiskInterruptHandler_def secondaryDiskInterruptHandler_def Let_def)
  have same: "same_sys s ?s2" "diskWaiter ?s2 = diskWaiter s" "occurFlag pri ?s2" "kbd_ok ?s2 = kbd_ok s"
    by (auto simp: same_sys_def s1_def occurFlag_def kbd_ok_def sched_ok_def sched_rel_def core_of_def srep_def state_of_def [abs_def])
  have "sched_ok ?s2" "diskWaiter s pri = NULL \<or> live (allocProcessTable ?s2) (diskWaiter s pri)"
    using assms(1) same by (auto simp: kernel_ok_def kbd_ok_def same_sys_def)
  from waiter_woken [OF this] obtain s' where s': "h io v s = Some s'" "sched_ok s'" "same_table ?s2 s'"
    "diskWaiter s pri \<noteq> NULL \<longrightarrow> state_of s' (diskWaiter s pri) \<noteq> PROCESS_STATE_BLOCKED" by (auto simp: run)
  have m: "proc.more s' = proc.more ?s2" using s'(3) by (simp add: same_table_def)
  have "same_sys s s'" using same(1) s'(3) by (simp add: same_sys_def same_table_def)
  moreover have "kernel_ok s'"
    using assms(1) same s'(2,3) kbd_more [OF m] disk_more_frame [OF m]
    by (auto simp: kernel_ok_def kbd_ok_def same_sys_def same_table_def)
  ultimately show ?thesis using s'(1,4) same(3) disk_more_frame [OF m]
    by (auto simp: serviced_def occurFlag_def)
qed

text \<open>C3: Every interrupt is serviced: whichever of the 48 vectors is raised, \<^verbatim>\<open>dispatchInterrupt\<close> returns and
  keeps the invariants of the scheduler, the keyboard and the disk driver, memory, page table and registrations. The timer's
  vector advances the clock; a disk's vector records the completion and leaves the process that waits for it unblocked; the four
  registered vectors tell the console nothing, and of any other one the console says \<^verbatim>\<open>unhandled interrupt!\<close> and the
  vector, and nothing else happens. The one exception is the keyboard: its handler does not return when the controller has a
  byte but the rest of what it waits for, the byte itself or those that a prefix announces, never arrives.\<close>

theorem interrupts_are_serviced:
  assumes "kernel_ok s" and "0 \<le> v" "v < 48"
  shows "if v = 33 \<and> fst (in_byte io STATE_REG (dev s)) AND 1 \<noteq> 0 \<and> (\<nexists>c. delivers io (dev s) c)
    then dispatchInterrupt io v c s = None
    else \<exists>s'. dispatchInterrupt io v c s =
        Some (if v \<in> {32, 33, 46, 47} then c else type_text (chars ''unhandled interrupt!'' @ [10] @ decimal v) c, s') \<and>
      kernel_ok s' \<and> ram s' = ram s \<and> pte s' = pte s \<and>
      (v = 32 \<longrightarrow> tickCount s' = tickCount s + 1) \<and>
      (v = 46 \<or> v = 47 \<longrightarrow> occurFlag (v = 46) s' \<and>
         (diskWaiter s (v = 46) \<noteq> NULL \<longrightarrow> state_of s' (diskWaiter s (v = 46)) \<noteq> PROCESS_STATE_BLOCKED)) \<and>
      (v \<notin> {32, 33, 46, 47} \<longrightarrow> s' = s)"
proof -
  have tab: "interruptHandlers s ! nat v = (if v = 32 then Some timerISR else if v = 33 then Some keyboardISR
     else if v = 46 then Some primaryDiskISR else if v = 47 then Some secondaryDiskISR else None)"
    using assms irq_table_nth [of "nat v"] by (auto simp: kernel_ok_def)
  consider "v = 32" | "v = 33" | "v = 46" | "v = 47" | "v \<notin> {32, 33, 46, 47}" by blast
  then show ?thesis
  proof cases
    case 1
    then show ?thesis using timer_serviced [OF assms(1), of io 32] tab
      by (auto simp: dispatchInterrupt_def INTERRUPT_VECTOR_COUNT_def serviced_def same_sys_def)
  next
    case 2
    show ?thesis
    proof (cases "fst (in_byte io STATE_REG (dev s)) AND 1 \<noteq> 0 \<and> (\<nexists>c. delivers io (dev s) c)")
      case True
      then have "keyboardInterruptHandler io 33 s = None" using keyboard_interrupt_spins [of io 33 s] by (cases "keyboardInterruptHandler io 33 s") auto
      then show ?thesis using True 2 tab by (simp add: dispatchInterrupt_def INTERRUPT_VECTOR_COUNT_def)
    next
      case False
      then obtain s' where "keyboardInterruptHandler io 33 s = Some s'" "serviced s s'"
        using keyboard_serviced [OF assms(1), of io 33] by auto
      then show ?thesis using False 2 tab
        by (auto simp: dispatchInterrupt_def INTERRUPT_VECTOR_COUNT_def serviced_def same_sys_def)
    qed
  next
    case 3
    then show ?thesis using disk_serviced [OF assms(1), of primaryDiskInterruptHandler True io 46] tab
      by (auto simp: dispatchInterrupt_def INTERRUPT_VECTOR_COUNT_def serviced_def same_sys_def)
  next
    case 4
    then show ?thesis using disk_serviced [OF assms(1), of secondaryDiskInterruptHandler False io 47] tab
      by (auto simp: dispatchInterrupt_def INTERRUPT_VECTOR_COUNT_def serviced_def same_sys_def)
  next
    case 5
    have "dispatchInterrupt io v c s = Some (type_text (chars ''unhandled interrupt!'' @ [10] @ decimal v) c, s)"
      using 5 tab assms(2,3) by (simp add: dispatchInterrupt_def INTERRUPT_VECTOR_COUNT_def print_typed printInt_typed)
    then show ?thesis using 5 assms(1) by auto
  qed
qed

section \<open>Exceptions\<close>

lemma exception_halts_report:
  assumes "0 \<le> v" "v \<le> 20" and "cs AND RPL_USER \<noteq> RPL_USER"
  shows "exceptionHandler cr2 v err rip cs c s = Some (Halted, type_text (halt_report cr2 v err rip) c, disableInterrupt s)"
  using assms(1,2) unfolding exceptionHandler_def Let_def if_not_P [OF assms(3)] halt_report_def
  by (simp add: print_typed names_typed printHex_typed printInt_typed)

lemma exception_kills_report:
  assumes "0 \<le> v" "v \<le> 20" and "cs AND RPL_USER = RPL_USER" and "- (2 ^ 31) < getRunningPid s" "getRunningPid s < 2 ^ 31"
    and "exitProcess (disableInterrupt s) = Some s'"
  shows "exceptionHandler cr2 v err rip cs c s = Some (Killed, type_text (kill_report (getRunningPid s) v rip) c, s')"
proof -
  have pid: "getRunningPid (disableInterrupt s) = getRunningPid s" by (simp add: getRunningPid_def disableInterrupt_def)
  show ?thesis using assms(1,2,4,5) unfolding exceptionHandler_def Let_def if_P [OF assms(3)] pid assms(6) kill_report_def
    by (simp add: print_typed names_typed printHex_typed printInt_typed)
qed

text \<open>The user process: any process but the boot process, the collector and the idle process.\<close>

definition user_runs :: "nat \<Rightarrow> ('d, 'z) proc_scheme \<Rightarrow> bool" where
  "user_runs pid s \<longleftrightarrow> sched_ok s \<and> runningProcess s = pcbAddr pid \<and> pid < PROCESS_MAXCOUNT \<and> pid \<noteq> 0 \<and>
     pcbAddr pid \<noteq> idleProcess s \<and> pcbAddr pid \<noteq> collectorProcess s"

lemma user_pid:
  assumes "user_runs pid s" shows "getRunningPid s = int pid"
proof -
  obtain rs ss where rel: "sched_rel s rs ss" using assms by (auto simp: user_runs_def elim: sched_okE)
  note D = coreD [OF sched_relD(2) [OF rel]]
  show ?thesis using assms D(4) D(14) [of pid] by (simp add: user_runs_def getRunningPid_def)
qed

lemma sched_ok_disable [simp]: "sched_ok (disableInterrupt s) = sched_ok s"
proof -
  have "sched_rel (disableInterrupt s) rs ss = sched_rel s rs ss" for rs ss
    by (simp add: sched_rel_def core_of_def srep_def disableInterrupt_def state_of_def [abs_def])
  then show ?thesis by (auto elim!: sched_okE intro: sched_okI)
qed

definition gone :: "nat \<Rightarrow> ('d, 'z) proc_scheme \<Rightarrow> bool" where
  "gone pid s \<longleftrightarrow> sched_ok s \<and> state_of s (pcbAddr pid) = PROCESS_STATE_EXIT \<and> runningProcess s \<noteq> pcbAddr pid \<and>
     pcbAddr pid \<notin> set (a_ready (asched_of s)) \<and> pcbAddr pid \<notin> fst ` set (a_sleep (asched_of s))"

lemma exit_is_gone:
  assumes "user_runs pid s"
  obtains s' where "exitProcess s = Some s'" "gone pid s'" "same_table s s'"
    "length (exit_pids (exitProcessQueue s)) < 99 \<Longrightarrow>
       exit_pids (exitProcessQueue s') = exit_pids (exitProcessQueue s) @ [int pid]"
    "\<And>q. q \<noteq> pcbAddr pid \<Longrightarrow> live (allocProcessTable s) q \<Longrightarrow> state_of s q \<noteq> PROCESS_STATE_EXIT \<Longrightarrow>
       state_of s' q \<noteq> PROCESS_STATE_EXIT"
proof -
  obtain rs ss where rel: "sched_rel s rs ss" and u: "runningProcess s = pcbAddr pid" "pid < PROCESS_MAXCOUNT"
    "pcbAddr pid \<noteq> idleProcess s" "pcbAddr pid \<noteq> collectorProcess s" "pid \<noteq> 0"
    using assms by (auto simp: user_runs_def elim: sched_okE)
  let ?c = "collectorProcess s"
  let ?rs = "rs @ (if state_of s ?c = PROCESS_STATE_BLOCKED then [?c] else [])"
  show thesis
  proof (rule exitProcess_rel [OF rel u], goal_cases)
    case (1 s')
    note R' = sched_relD [OF 1(2)]
    have "runningProcess s' \<noteq> pcbAddr pid" using coreD(5) [OF R'(2)] 1(4) by auto
    moreover have "pcbAddr pid \<notin> set (tl ?rs)" using coreD(1) [OF R'(2), of "pcbAddr pid"] 1(4) by simp
    moreover have "pcbAddr pid \<notin> set ss" using coreD(3) [OF R'(2), of "pcbAddr pid"] 1(4) by auto
    ultimately have "gone pid s'" using sched_okI [OF 1(2)] 1(4)
      by (auto simp: gone_def asched_of_rel [OF 1(2)])
    moreover have "state_of s' q \<noteq> PROCESS_STATE_EXIT"
      if q: "q \<noteq> pcbAddr pid" "live (allocProcessTable s) q" "state_of s q \<noteq> PROCESS_STATE_EXIT" for q
      using 1(12) [OF q(1)] q(3) coreD(5,11) [OF R'(2)] 1(3,8) by (cases "q = ?c \<or> q = next_proc s ?rs") auto
    ultimately show ?case using 1(1,5) exitProcess_table [OF 1(1)] by (intro that [of s']) auto
  qed
qed

lemma exception_kills_user:
  assumes "user_runs pid s" and "0 \<le> v" "v \<le> 20" and ring3: "cs AND RPL_USER = RPL_USER"
  obtains s' where "exceptionHandler cr2 v err rip cs c s = Some (Killed, type_text (kill_report (int pid) v rip) c, s')" "gone pid s'" "same_table s s'"
    "length (exit_pids (exitProcessQueue s)) < 99 \<Longrightarrow>
       exit_pids (exitProcessQueue s') = exit_pids (exitProcessQueue s) @ [int pid]"
    "\<And>q. q \<noteq> pcbAddr pid \<Longrightarrow> live (allocProcessTable s) q \<Longrightarrow> state_of s q \<noteq> PROCESS_STATE_EXIT \<Longrightarrow>
       state_of s' q \<noteq> PROCESS_STATE_EXIT"
proof -
  let ?i = "disableInterrupt s"
  have sel: "sched_ok ?i" "runningProcess ?i = runningProcess s" "idleProcess ?i = idleProcess s"
    "collectorProcess ?i = collectorProcess s" "exitProcessQueue ?i = exitProcessQueue s" "state_of ?i = state_of s"
    "allocProcessTable ?i = allocProcessTable s" "same_table s ?i"
    using assms(1) by (simp_all add: user_runs_def same_table_def) (simp_all add: disableInterrupt_def state_of_def [abs_def])
  then have "user_runs pid ?i" using assms(1) by (simp add: user_runs_def)
  then obtain s' where s': "exitProcess ?i = Some s'" "gone pid s'" "same_table ?i s'"
    "length (exit_pids (exitProcessQueue s)) < 99 \<Longrightarrow>
       exit_pids (exitProcessQueue s') = exit_pids (exitProcessQueue s) @ [int pid]"
    "\<And>q. q \<noteq> pcbAddr pid \<Longrightarrow> live (allocProcessTable s) q \<Longrightarrow> state_of s q \<noteq> PROCESS_STATE_EXIT \<Longrightarrow>
       state_of s' q \<noteq> PROCESS_STATE_EXIT"
    by (rule exit_is_gone) (simp only: sel, metis)
  have "getRunningPid s = int pid" "pid < 1024" using user_pid [OF assms(1)] assms(1)
    by (simp_all add: user_runs_def PROCESS_MAXCOUNT_def)
  then have "exceptionHandler cr2 v err rip cs c s = Some (Killed, type_text (kill_report (int pid) v rip) c, s')"
    using exception_kills_report [OF assms(2,3) ring3 _ _ s'(1)] by simp
  moreover have "same_table s s'" using sel(8) s'(3) by (simp add: same_table_def)
  ultimately show thesis using s' by (intro that)
qed

text \<open>C23: Exceptions. In ring 3 one costs only the process that raised it: the console names it and the exception, it is gone
  from the scheduler, another process runs, no other process is ended, memory and page tables stay as they were, and its pid
  waits for the collector (unless 99 do). In the kernel, whichever process runs and whatever the state, one stops the system
  with interrupts off, and the console shows the exception's name and vector, the address, the error code and, for a page
  fault, the address that was touched.\<close>

theorem exception_kills_or_halts:
  assumes "0 \<le> v" "v \<le> 20" and "cs AND RPL_USER = RPL_USER \<longrightarrow> user_runs pid s"
  shows "if cs AND RPL_USER = RPL_USER
    then \<exists>s'. exceptionHandler cr2 v err rip cs c s = Some (Killed, type_text (kill_report (int pid) v rip) c, s') \<and>
      gone pid s' \<and> same_table s s' \<and>
      (length (exit_pids (exitProcessQueue s)) < 99 \<longrightarrow>
         exit_pids (exitProcessQueue s') = exit_pids (exitProcessQueue s) @ [int pid]) \<and>
      (\<forall>q. q \<noteq> pcbAddr pid \<longrightarrow> live (allocProcessTable s) q \<longrightarrow> state_of s q \<noteq> PROCESS_STATE_EXIT \<longrightarrow>
         state_of s' q \<noteq> PROCESS_STATE_EXIT)
    else exceptionHandler cr2 v err rip cs c s = Some (Halted, type_text (halt_report cr2 v err rip) c, disableInterrupt s)"
proof (cases "cs AND RPL_USER = RPL_USER")
  case False
  then show ?thesis using exception_halts_report [OF assms(1,2) False, of cr2 err rip c s] by simp
next
  case True
  then have "user_runs pid s" using assms(3) by simp
  then show ?thesis unfolding if_P [OF True]
    by (rule exception_kills_user [OF _ assms(1,2) True, of pid s cr2 err rip c]) blast
qed

section \<open>Witnesses\<close>

definition running_kernel :: "ata dsk" where
  "running_kernel = booted_disk blank_drive unheld (replicate 256 0) False
     \<lparr>interruptHandlers := irq_table, keyQueue := initQueue (replicate QUEUE_COUNT 0) (int QUEUE_COUNT) 1\<rparr>"

lemma running_kernel_ok: "kernel_ok running_kernel"
proof -
  have "ring_ok (initQueue (replicate QUEUE_COUNT 0) (int QUEUE_COUNT) 1)"
    by (rule ring_ok_init) (simp_all add: QUEUE_COUNT_def)
  moreover have "sched_rel running_kernel rs ss = sched_rel booted rs ss" for rs ss
    by (simp add: sched_rel_def core_of_def srep_def state_of_def [abs_def] booted_disk_def running_kernel_def)
  then have "sched_ok running_kernel" using booted_eq(2) by (auto intro: sched_okI)
  ultimately show ?thesis
    by (simp add: kernel_ok_def kbd_ok_def ring_at_def running_kernel_def booted_disk_def) (simp add: initQueue_def)
qed

theorem interrupts_are_serviced_witness:
  "(\<exists>s'. dispatchInterrupt ata_io 46 blank running_kernel = Some (blank, s') \<and> isPrimaryInterruptOccur s') \<and>
   (\<exists>s'. dispatchInterrupt ata_io 40 blank running_kernel = Some (type_text (chars ''unhandled interrupt!'' @ [10, 52, 48]) blank, s'))"
proof -
  have "decimal 40 = [52, 48]" by (simp add: decimal_def digits_le.simps hexDigit_def)
  then show ?thesis
    using interrupts_are_serviced [OF running_kernel_ok, of 46 ata_io blank] interrupts_are_serviced [OF running_kernel_ok, of 40 ata_io blank]
    by (auto simp: occurFlag_def)
qed

theorem exception_kills_or_halts_witness:
  "(\<exists>(s :: unit proc) pid s'. user_runs pid s \<and> exit_pids (exitProcessQueue s') = [int pid] \<and>
     exceptionHandler 0x1234 14 4 0x3000010 0x23 blank s = Some (Killed, type_text (kill_report (int pid) 14 0x3000010) blank, s')) \<and>
   exceptionHandler 0x1234 14 2 0x601000 0x10 blank running_kernel =
     Some (Halted, type_text (halt_report 0x1234 14 2 0x601000) blank, disableInterrupt running_kernel)"
proof
  obtain s :: "unit proc" and pid where s: "user_runs pid s" "exit_pids (exitProcessQueue s) = []"
    using third_process_runs by (auto simp: user_runs_def)
  have "(0x23 :: QWORD) AND RPL_USER = RPL_USER" by (simp add: RPL_USER_def)
  with exception_kills_or_halts [of 14 "0x23" pid s "0x1234" 4 "0x3000010" blank] s
  show "\<exists>(s :: unit proc) pid s'. user_runs pid s \<and> exit_pids (exitProcessQueue s') = [int pid] \<and>
     exceptionHandler 0x1234 14 4 0x3000010 0x23 blank s = Some (Killed, type_text (kill_report (int pid) 14 0x3000010) blank, s')" by auto
  have "(0x10 :: QWORD) AND RPL_USER \<noteq> RPL_USER" by (simp add: RPL_USER_def)
  with exception_kills_or_halts [of 14 "0x10" 0 running_kernel "0x1234" 2 "0x601000" blank]
  show "exceptionHandler 0x1234 14 2 0x601000 0x10 blank running_kernel =
     Some (Halted, type_text (halt_report 0x1234 14 2 0x601000) blank, disableInterrupt running_kernel)" by simp
qed

end
