(* ===== verification/Syscall.thy ===== *)
theory Syscall
  imports Handlers
begin

text \<open>
  The system calls (\<^verbatim>\<open>syscall/Syscall.c\<close>), with the properties of their interface to ring 3: whatever the
  arguments, the kernel's invariants stay, nothing but user memory decides what is written, and where the characters go.
\<close>

section \<open>The calls\<close>

definition SYSCALL_WRITEXY :: QWORD where "SYSCALL_WRITEXY = 1"
definition SYSCALL_SLEEP :: QWORD where "SYSCALL_SLEEP = 2"
definition SYSCALL_GETPID :: QWORD where "SYSCALL_GETPID = 3"
definition SYSCALL_EXIT :: QWORD where "SYSCALL_EXIT = 4"
definition SYSCALL_FAIL :: QWORD where "SYSCALL_FAIL = -1"

lemmas syscall_numbers = SYSCALL_WRITEXY_def SYSCALL_SLEEP_def SYSCALL_GETPID_def SYSCALL_EXIT_def

function find_nul :: "memory \<Rightarrow> nat \<Rightarrow> bool" where
  "find_nul m addr = (if addr < USER_MEMORY_END then if m addr = 0 then True else find_nul m (addr + 1) else False)"
  by pat_completeness auto
termination by (relation "measure (\<lambda>(m, addr). USER_MEMORY_END - addr)") auto

declare find_nul.simps [simp del]

definition isUserString :: "memory \<Rightarrow> QWORD \<Rightarrow> bool" where
  "isUserString m str =
     (let addr = unat str
      in if addr < USER_MEMORY_BASE \<or> addr \<ge> USER_MEMORY_END then False else find_nul m addr)"

function write_loop :: "memory \<Rightarrow> nat \<Rightarrow> int \<Rightarrow> nat \<Rightarrow> nat \<Rightarrow> console \<Rightarrow> console" where
  "write_loop m str line column i c =
     (if m (str + i) \<noteq> 0 \<and> int (column + i) < ONE_LINE_SIZE div ONE_CHAR_SIZE
      then write_loop m str line column (Suc i) (viewCharacterXY (m (str + i)) line (int (column + i)) c)
      else c)"
  by pat_completeness auto
termination by (relation "measure (\<lambda>(m, str, line, column, i, c). 80 - (column + i))") (auto simp: video_defs)

declare write_loop.simps [simp del]

definition writeXY :: "QWORD \<Rightarrow> QWORD \<Rightarrow> QWORD \<Rightarrow> memory \<Rightarrow> console \<Rightarrow> QWORD \<times> console" where
  "writeXY line column str m c =
     (if uint line \<ge> LINE_COUNT \<or> uint column \<ge> ONE_LINE_SIZE div ONE_CHAR_SIZE \<or> \<not> isUserString m str
      then (SYSCALL_FAIL, c)
      else (0, write_loop m (unat str) (uint line) (unat column) 0 c))"

text \<open>A call returns a value, blocks its caller (whose call returns 0, with the given interrupt flag, when it runs
  again), or ends it.\<close>

datatype syscall_end = Returned QWORD | Asleep bool | Ended

definition dispatchSyscall :: "QWORD \<Rightarrow> QWORD \<Rightarrow> QWORD \<Rightarrow> QWORD \<Rightarrow> console \<Rightarrow> ('d, 'z) proc_scheme \<Rightarrow>
    (syscall_end \<times> console \<times> ('d, 'z) proc_scheme) option" where
  "dispatchSyscall number arg1 arg2 arg3 c s =
     (if number = SYSCALL_WRITEXY then let (r, c') = writeXY arg1 arg2 arg3 (ram s) c in Some (Returned r, c', s)
      else if number = SYSCALL_SLEEP then do { (preIf, s') \<leftarrow> sleepProcess arg1 s; Some (Asleep preIf, c, s') }
      else if number = SYSCALL_GETPID then Some (Returned (word_of_int (getRunningPid s)), c, s)
      else if number = SYSCALL_EXIT then do { s' \<leftarrow> exitProcess s; Some (Ended, c, s') }
      else Some (Returned SYSCALL_FAIL, c, s))"

section \<open>Strings\<close>

lemma find_nul_iff: "find_nul m a \<longleftrightarrow> (\<exists>b \<ge> a. b < USER_MEMORY_END \<and> m b = 0)"
proof (induction m a rule: find_nul.induct)
  case (1 m a)
  show ?case
  proof (cases "a < USER_MEMORY_END \<and> m a \<noteq> 0")
    case True
    then have "find_nul m a = find_nul m (a + 1)" by (subst find_nul.simps) simp
    moreover have "(\<exists>b \<ge> a. b < USER_MEMORY_END \<and> m b = 0) \<longleftrightarrow> (\<exists>b \<ge> a + 1. b < USER_MEMORY_END \<and> m b = 0)"
      using True by (metis Suc_eq_plus1 le_antisym not_less_eq_eq le_SucI)
    ultimately show ?thesis using 1 True by simp
  next
    case False
    then show ?thesis by (subst find_nul.simps) auto
  qed
qed

text \<open>The bytes of the string at an address.\<close>

definition user_string :: "memory \<Rightarrow> nat \<Rightarrow> BYTE list \<Rightarrow> bool" where
  "user_string m a t \<longleftrightarrow> (\<forall>i < length t. m (a + i) = t ! i \<and> t ! i \<noteq> 0) \<and> m (a + length t) = 0 \<and>
     USER_MEMORY_BASE \<le> a \<and> a + length t < USER_MEMORY_END"

lemma isUserString_iff: "isUserString m str \<longleftrightarrow> (\<exists>t. user_string m (unat str) t)"
proof
  assume u: "isUserString m str"
  then have ex: "\<exists>b \<ge> unat str. b < USER_MEMORY_END \<and> m b = 0" and lo: "USER_MEMORY_BASE \<le> unat str"
    by (auto simp: isUserString_def find_nul_iff Let_def split: if_splits)
  define n where "n = (LEAST k. m (unat str + k) = 0)"
  from ex obtain b where b: "unat str \<le> b" "b < USER_MEMORY_END" "m (unat str + (b - unat str)) = 0" by auto
  have "m (unat str + n) = 0" unfolding n_def by (rule LeastI) (rule b(3))
  moreover have "n \<le> b - unat str" unfolding n_def by (rule Least_le) (rule b(3))
  moreover have "m (unat str + i) \<noteq> 0" if "i < n" for i using that not_less_Least unfolding n_def by blast
  ultimately have "user_string m (unat str) (map (\<lambda>i. m (unat str + i)) [0..<n])"
    using b lo by (simp add: user_string_def)
  then show "\<exists>t. user_string m (unat str) t" ..
next
  assume "\<exists>t. user_string m (unat str) t"
  then obtain t where t: "user_string m (unat str) t" ..
  then have "\<exists>b \<ge> unat str. b < USER_MEMORY_END \<and> m b = 0"
    by (intro exI [of _ "unat str + length t"]) (simp add: user_string_def)
  with t show "isUserString m str" by (auto simp: isUserString_def find_nul_iff user_string_def Let_def)
qed

lemma write_loop_fold:
  assumes "user_string m a t" and "column < 80"
  shows "i \<le> length t \<Longrightarrow> write_loop m a line column i c =
    fold (\<lambda>j. viewCharacterXY (t ! j) line (int (column + j))) [i..<min (length t) (80 - column)] c"
proof (induction "length t - i" arbitrary: i c)
  case 0
  then show ?case using assms by (subst write_loop.simps) (simp add: user_string_def)
next
  case (Suc n)
  then have i: "i < length t" "n = length t - Suc i" "Suc i \<le> length t" by auto
  have ch: "m (a + i) = t ! i" "t ! i \<noteq> 0" using assms(1) i(1) by (auto simp: user_string_def)
  show ?case
  proof (cases "column + i < 80")
    case True
    then have "[i..<min (length t) (80 - column)] = i # [Suc i..<min (length t) (80 - column)]"
      using i(1) by (simp add: upt_conv_Cons)
    then show ?thesis using Suc.hyps(1) [OF i(2,3)] True ch
      by (subst write_loop.simps) (simp add: video_defs)
  next
    case False
    then show ?thesis by (subst write_loop.simps) (simp add: video_defs)
  qed
qed

lemma user_string_code: "user_string m (unat str) t \<Longrightarrow> isUserString m str"
  by (auto simp: isUserString_iff)

lemma writeXY_ok:
  assumes "user_string m (unat str) t" and "unat line < 25" "unat column < 80"
  shows "writeXY line column str m c = (0,
    fold (\<lambda>j. viewCharacterXY (t ! j) (int (unat line)) (int (unat column + j))) [0..<min (length t) (80 - unat column)] c)"
proof -
  have "\<not> LINE_COUNT \<le> uint line" "\<not> ONE_LINE_SIZE div ONE_CHAR_SIZE \<le> uint column"
    using assms(2,3) by (simp_all add: video_defs uint_nat del: of_nat_unat)
  then show ?thesis using user_string_code [OF assms(1)] write_loop_fold [OF assms(1,3), of 0]
    by (simp add: writeXY_def uint_nat del: of_nat_unat)
qed

lemma writeXY_fail:
  assumes "25 \<le> unat line \<or> 80 \<le> unat column \<or> (\<forall>t. \<not> user_string m (unat str) t)"
  shows "writeXY line column str m c = (SYSCALL_FAIL, c)"
  using assms by (auto simp: writeXY_def isUserString_iff video_defs uint_nat simp del: of_nat_unat)

section \<open>What a text does to the screen\<close>

definition text_addr :: "nat \<Rightarrow> nat \<Rightarrow> nat" where
  "text_addr line x = 0xB8000 + 160 * line + 2 * x"

text \<open>
  Video memory after the bytes \<open>u\<close> were written from cell \<open>column\<close> on. Cell \<open>p\<close>, counted from the one before
  \<open>column\<close>, is cleared when byte \<open>p\<close> is a backspace, and else has byte \<open>p - 1\<close>, in light green, when that is no
  backspace itself.
\<close>

definition written :: "nat \<Rightarrow> nat \<Rightarrow> BYTE list \<Rightarrow> memory \<Rightarrow> memory" where
  "written line column u m x =
     (let b = text_addr line column - 2; p = (x - b) div 2
      in if x < b \<or> length u < p then m x
         else if even x
         then if p < length u \<and> u ! p = BACK_SPACE then 0 else if 0 < p \<and> u ! (p - 1) \<noteq> BACK_SPACE then u ! (p - 1) else m x
         else if 0 < p \<and> u ! (p - 1) \<noteq> BACK_SPACE then 0x0A else m x)"

lemma text_addr_base: "text_addr line column = (text_addr line column - 2) + 2" "even (text_addr line column - 2)"
  by (simp_all add: text_addr_def)

lemma written_Nil: "written line column [] m = m"
  by (auto simp: written_def Let_def fun_eq_iff)

lemma written_snoc:
  "written line column (u @ [ch]) m =
     (if ch = BACK_SPACE then (written line column u m)(text_addr line (column + length u) - 2 := 0)
      else (written line column u m)(text_addr line (column + length u) + 1 := 0x0A, text_addr line (column + length u) := ch))"
proof
  fix x
  obtain b where b: "text_addr line column = b + 2" "even b" using text_addr_base by blast
  have a: "text_addr line (column + length u) = b + 2 + 2 * length u" using b(1) by (simp add: text_addr_def)
  consider "x < b" | p where "x = b + 2 * p" | p where "x = b + 2 * p + 1"
    by (metis add.assoc evenE le_Suc_ex linorder_not_less oddE)
  then show "written line column (u @ [ch]) m x =
     (if ch = BACK_SPACE then (written line column u m)(text_addr line (column + length u) - 2 := 0)
      else (written line column u m)(text_addr line (column + length u) + 1 := 0x0A, text_addr line (column + length u) := ch)) x"
  proof cases
    case 1
    then show ?thesis by (simp add: written_def Let_def a b(1))
  next
    case (2 p)
    have e: "(x - b) div 2 = p" "even x" using 2 b by simp_all
    consider "p < length u" | "p = length u" | "p = Suc (length u)" | "Suc (length u) < p" by linarith
    then show ?thesis
      by cases (auto simp: written_def Let_def e a b 2 nth_append)
  next
    case (3 p)
    have e: "(x - b) div 2 = p" "odd x" using 3 b by simp_all
    consider "p < length u" | "p = length u" | "p = Suc (length u)" | "Suc (length u) < p" by linarith
    then show ?thesis
      by cases (auto simp: written_def Let_def e a b 3 nth_append)
  qed
qed

lemma view_written:
  fixes c :: console and line column :: nat
  shows "fold (\<lambda>j. viewCharacterXY (u ! j) (int line) (int (column + j))) [0..<length u] c =
    c\<lparr>vmem := written line column u (vmem c), currentPoint := currentPoint c - 2 * int (count_list u BACK_SPACE)\<rparr>"
proof (induction u rule: rev_induct)
  case Nil
  then show ?case by (simp add: written_Nil)
next
  case (snoc ch u)
  let ?a = "text_addr line (column + length u)"
  let ?F = "\<lambda>u. fold (\<lambda>j. viewCharacterXY (u ! j) (int line) (int (column + j)))"
  have "?F (u @ [ch]) [0..<length u] c = ?F u [0..<length u] c"
    by (intro fold_cong) (simp_all add: nth_append)
  then have step: "?F (u @ [ch]) [0..<length (u @ [ch])] c = viewCharacterXY ch (int line) (int (column + length u)) (?F u [0..<length u] c)"
    by (simp del: of_nat_add)
  have addr: "VIDEO_MEMORY_ADDR + int line * ONE_LINE_SIZE + 2 * int (column + length u) = int ?a"
    by (simp add: text_addr_def video_defs)
  have nat: "nat (int ?a) = ?a" "nat (int ?a + 1) = ?a + 1" "nat (int ?a - ONE_CHAR_SIZE) = ?a - 2"
    by (simp_all add: video_defs text_addr_def nat_diff_distrib nat_add_distrib)
  have "viewCharacterXY ch (int line) (int (column + length u)) c1 =
      (if ch = BACK_SPACE then c1\<lparr>vmem := (vmem c1)(?a - 2 := 0), currentPoint := currentPoint c1 - 2\<rparr>
       else c1\<lparr>vmem := (vmem c1)(?a + 1 := 0x0A, ?a := ch)\<rparr>)" for c1
    unfolding viewCharacterXY_def addr Let_def
    by (simp add: set_character_def set_attribute_def nat) (simp add: video_defs)
  then show ?case unfolding step snoc.IH by (simp add: written_snoc fun_upd_def)
qed

text \<open>C24: \<^verbatim>\<open>SYSCALL_WRITEXY\<close>: with a cell of the screen and a string that ends inside user memory it returns 0
  and puts the characters of the string into the cells from there to the end of the line, in light green; with any other arguments
  it fails and changes nothing. A backspace in the string is not shown: it clears the cell before its place and moves the
  kernel's own cursor back by one cell, even off the screen. Nothing else changes, whatever the string.\<close>

theorem writexy_contract:
  "if unat line < 25 \<and> unat column < 80 \<and> (\<exists>t. user_string (ram s) (unat str) t)
   then \<exists>t u. user_string (ram s) (unat str) t \<and> u = take (80 - unat column) t \<and>
     dispatchSyscall SYSCALL_WRITEXY line column str c s =
       Some (Returned 0, c\<lparr>vmem := written (unat line) (unat column) u (vmem c),
         currentPoint := currentPoint c - 2 * int (count_list u BACK_SPACE)\<rparr>, s)
   else dispatchSyscall SYSCALL_WRITEXY line column str c s = Some (Returned SYSCALL_FAIL, c, s)"
proof (cases "unat line < 25 \<and> unat column < 80 \<and> (\<exists>t. user_string (ram s) (unat str) t)")
  case True
  then obtain t where t: "user_string (ram s) (unat str) t" by blast
  let ?u = "take (80 - unat column) t"
  have "fold (\<lambda>j. viewCharacterXY (t ! j) (int (unat line)) (int (unat column + j))) [0..<min (length t) (80 - unat column)] c =
      fold (\<lambda>j. viewCharacterXY (?u ! j) (int (unat line)) (int (unat column + j))) [0..<length ?u] c"
    by (intro fold_cong) simp_all
  also have "\<dots> = c\<lparr>vmem := written (unat line) (unat column) ?u (vmem c),
         currentPoint := currentPoint c - 2 * int (count_list ?u BACK_SPACE)\<rparr>" by (rule view_written)
  finally have "dispatchSyscall SYSCALL_WRITEXY line column str c s =
       Some (Returned 0, c\<lparr>vmem := written (unat line) (unat column) ?u (vmem c),
         currentPoint := currentPoint c - 2 * int (count_list ?u BACK_SPACE)\<rparr>, s)"
    using writeXY_ok [OF t, of line column c] True by (simp add: dispatchSyscall_def del: of_nat_unat of_nat_add)
  then show ?thesis unfolding if_P [OF True] using t by blast
next
  case False
  then have "writeXY line column str (ram s) c = (SYSCALL_FAIL, c)" by (intro writeXY_fail) auto
  then show ?thesis unfolding if_not_P [OF False] by (simp add: dispatchSyscall_def)
qed

section \<open>The kernel is safe from any call\<close>

text \<open>C4: A ring-3 process cannot break the kernel by a system call: for every number and all arguments the call comes to an
  end, the scheduler's invariant holds after it, and memory, page tables, process table, registered handlers and the drivers'
  state are the same. A call that returns leaves the scheduler as it was, a call that blocks puts its caller among the sleepers,
  and the exit call removes its caller.\<close>

theorem syscall_keeps_kernel:
  assumes "user_runs pid s"
  shows "\<exists>r c' s'. dispatchSyscall number arg1 arg2 arg3 c s = Some (r, c', s') \<and> sched_ok s' \<and> same_table s s' \<and>
    (case r of Returned v \<Rightarrow> s' = s | Asleep preIf \<Rightarrow> preIf = interrupts_on s \<and> pcbAddr pid \<in> fst ` set (a_sleep (asched_of s'))
       | Ended \<Rightarrow> gone pid s')"
proof -
  have ok: "sched_ok s" and run: "runningProcess s \<noteq> idleProcess s" "runningProcess s \<noteq> collectorProcess s"
    "runningProcess s = pcbAddr pid" using assms by (auto simp: user_runs_def)
  have here: "same_table s s" by (simp add: same_table_def)
  obtain s1 where s1: "sleepProcess arg1 s = Some (interrupts_on s, s1)" "sched_ok s1"
    "asched_of s1 = a_sleep_until (tickCount s + (arg1 + SLOT_TIME - 1) div SLOT_TIME) (idleProcess s) (asched_of s)"
    using sleepProcess_refines [OF ok run(1,2), of arg1] by metis
  have "pcbAddr pid \<in> fst ` set (a_sleep (asched_of s1))"
    unfolding s1(3) by (simp add: a_sleep_until_def a_dispatch_def Let_def asched_of_def run(3) split: list.split)
  moreover obtain s2 where s2: "exitProcess s = Some s2" "gone pid s2" "same_table s s2"
    using exit_is_gone [OF assms] by metis
  ultimately show ?thesis
    using s1(1,2) sleepProcess_table [OF s1(1)] ok here
    by (auto simp: dispatchSyscall_def gone_def split: prod.split)
qed

section \<open>Memory a call does not look at\<close>











section \<open>The cursor of the kernel\<close>

text \<open>The screen after \<open>k\<close> calls that write the string at \<open>str\<close> to the first cell.\<close>

primrec write_times :: "nat \<Rightarrow> QWORD \<Rightarrow> ('d, 'z) proc_scheme \<Rightarrow> console \<Rightarrow> console option" where
  "write_times 0 str s c = Some c"
| "write_times (Suc k) str s c = do {
     (r, c', s') \<leftarrow> dispatchSyscall SYSCALL_WRITEXY 0 0 str c s;
     write_times k str s' c' }"

lemma backspace_call:
  assumes "user_string (ram s) (unat str) [BACK_SPACE]"
  shows "dispatchSyscall SYSCALL_WRITEXY 0 0 str c s =
    Some (Returned 0, c\<lparr>vmem := (vmem c)(0xB7FFE := 0), currentPoint := currentPoint c - 2\<rparr>, s)"
  using writeXY_ok [OF assms, of 0 0 c]
  by (simp add: dispatchSyscall_def viewCharacterXY_def set_character_def video_defs)

lemma backspace_times:
  assumes "user_string (ram s) (unat str) [BACK_SPACE]"
  shows "write_times k str s c = Some (if k = 0 then c
     else c\<lparr>vmem := (vmem c)(0xB7FFE := 0), currentPoint := currentPoint c - 2 * int k\<rparr>)"
  by (induction k arbitrary: c) (auto simp: backspace_call [OF assms])

text \<open>Ring 3 steers the kernel's output. \<^verbatim>\<open>viewCharacterXY\<close> answers a backspace by moving the kernel's own
  cursor, and nothing keeps it on the screen: with a string of one backspace \<open>k\<close> system calls move the cursor back by
  \<open>2 k\<close> bytes, so that the kernel's next character is stored at an address of the program's choice below the screen, and
  the byte before the screen is cleared.\<close>

theorem ring3_steers_kernel_output:
  assumes "user_string (ram s) (unat str) [BACK_SPACE]" and "ch \<noteq> BACK_SPACE"
    and "a < 0xB7FFE" and "currentPoint c = int a + 2 * int k"
  shows "\<exists>c'. write_times k str s c = Some c' \<and> vmem (viewCharacter ch c') = (vmem c')(a := ch) \<and>
    (k \<noteq> 0 \<longrightarrow> vmem c' = (vmem c)(0xB7FFE := 0))"
proof -
  define c' where "c' = (if k = 0 then c else c\<lparr>vmem := (vmem c)(0xB7FFE := 0), currentPoint := currentPoint c - 2 * int k\<rparr>)"
  have "currentPoint c' = int a" using assms(4) by (simp add: c'_def)
  then have "vmem (viewCharacter ch c') = (vmem c')(a := ch)"
    using assms(2,3) by (simp add: viewCharacter_def video_defs)
  moreover have "write_times k str s c = Some c'" using backspace_times [OF assms(1)] by (simp add: c'_def)
  ultimately show ?thesis by (intro exI [of _ c']) (simp add: c'_def)
qed

section \<open>Witnesses\<close>

lemma syscall_keeps_kernel_witness:
  "\<exists>(s :: unit proc) pid c' s'. user_runs pid s \<and> dispatchSyscall SYSCALL_EXIT 0 0 0 blank s = Some (Ended, c', s') \<and> gone pid s'"
proof -
  obtain s :: "unit proc" and pid where s: "user_runs pid s"
    using third_process_runs by (auto simp: user_runs_def)
  from syscall_keeps_kernel [OF s, of SYSCALL_EXIT 0 0 0 blank] obtain r c' s' where
    d: "dispatchSyscall SYSCALL_EXIT 0 0 0 blank s = Some (r, c', s')"
    "case r of Returned v \<Rightarrow> s' = s | Asleep preIf \<Rightarrow> preIf = interrupts_on s \<and> pcbAddr pid \<in> fst ` set (a_sleep (asched_of s'))
       | Ended \<Rightarrow> gone pid s'" by blast
  then have "r = Ended" by (auto simp: dispatchSyscall_def syscall_numbers split: Option.bind_splits)
  with d s show ?thesis by auto
qed

lemma writexy_contract_witness:
  "\<exists>c'. dispatchSyscall SYSCALL_WRITEXY 3 78 0x3000000 blank (booted\<lparr>ram := \<lambda>x. if x < 0x3000003 then 65 else 0\<rparr>) =
     Some (Returned 0, c', booted\<lparr>ram := \<lambda>x. if x < 0x3000003 then 65 else 0\<rparr>) \<and>
     vmem c' (text_addr 3 79) = 65 \<and> vmem c' (text_addr 4 0) = vmem blank (text_addr 4 0)"
proof -
  let ?s = "booted\<lparr>ram := \<lambda>x. if x < 0x3000003 then 65 else 0\<rparr>"
  have u: "user_string (ram ?s) (unat (0x3000000 :: QWORD)) (replicate 3 65)"
    by (simp add: user_string_def memory_map_defs)
  have only: "t = replicate 3 65" if t: "user_string (ram ?s) (unat (0x3000000 :: QWORD)) t" for t
  proof (rule nth_equalityI)
    from t u show len: "length t = length (replicate 3 (65 :: BYTE))"
      unfolding user_string_def by (metis linorder_neqE_nat)
    fix i assume "i < length t"
    with t u len show "t ! i = replicate 3 65 ! i" unfolding user_string_def by metis
  qed
  have "unat (3 :: QWORD) < 25 \<and> unat (78 :: QWORD) < 80 \<and> (\<exists>t. user_string (ram ?s) (unat (0x3000000 :: QWORD)) t)"
    using u by (simp, blast)
  from writexy_contract [where line = 3 and column = 78 and s = ?s and str = "0x3000000" and c = blank, unfolded if_P [OF this]]
  obtain t u where c': "user_string (ram ?s) (unat (0x3000000 :: QWORD)) t" "u = take (80 - unat (78 :: QWORD)) t"
    "dispatchSyscall SYSCALL_WRITEXY 3 78 0x3000000 blank ?s = Some (Returned 0, blank\<lparr>vmem :=
       written (unat (3 :: QWORD)) (unat (78 :: QWORD)) u (vmem blank), currentPoint := currentPoint blank - 2 * int (count_list u BACK_SPACE)\<rparr>, ?s)"
    by blast
  from only [OF c'(1)] c'(2) have u: "u = [65, 65]" by (simp add: numeral_3_eq_3)
  show ?thesis using c'(3)
    by (intro exI [of _ "blank\<lparr>vmem := written (unat (3 :: QWORD)) (unat (78 :: QWORD)) u (vmem blank),
        currentPoint := currentPoint blank - 2 * int (count_list u BACK_SPACE)\<rparr>"])
      (simp add: u BACK_SPACE_def text_addr_def written_def)
qed

lemma ring3_steers_kernel_output_witness:
  "\<exists>c'. write_times 0x589CE 0x3000000 (booted\<lparr>ram := \<lambda>x. if x = 0x3000000 then BACK_SPACE else 0\<rparr>) blank = Some c' \<and>
     vmem (viewCharacter 88 c') 0x7C00 = 88"
proof -
  let ?s = "booted\<lparr>ram := \<lambda>x. if x = 0x3000000 then BACK_SPACE else 0\<rparr>"
  have "user_string (ram ?s) (unat (0x3000000 :: QWORD)) [BACK_SPACE]"
    by (simp add: user_string_def memory_map_defs BACK_SPACE_def)
  from ring3_steers_kernel_output [OF this, of 88 "0x7C00" blank "0x589CE"] show ?thesis
    by (auto simp: BACK_SPACE_def blank_def)
qed


end
