(* ===== verification/Descriptor.thy ===== *)
theory Descriptor
  imports Loader Syscall
begin

text \<open>
  The descriptor tables of the processor (\<^verbatim>\<open>arch/Descriptor.c\<close>): segments, task state and interrupt gates, stored
  byte for byte at their addresses. The addresses of the assembly stubs are parameters. Beside the code stands the
  processor's reading of these tables, from which the properties follow.
\<close>

section \<open>Constants of the header\<close>

definition GDT_FLAG_G :: DWORD where "GDT_FLAG_G = 0x00800000"
definition GDT_FLAG_L :: DWORD where "GDT_FLAG_L = 0x00200000"
definition GDT_FLAG_P :: DWORD where "GDT_FLAG_P = 0x00008000"
definition GDT_FLAG_DPL0 :: DWORD where "GDT_FLAG_DPL0 = 0x00000000"
definition GDT_FLAG_DPL3 :: DWORD where "GDT_FLAG_DPL3 = 0x00006000"
definition GDT_FLAG_S :: DWORD where "GDT_FLAG_S = 0x00001000"
definition GDT_TYPE_DATA :: DWORD where "GDT_TYPE_DATA = 0x00000200"
definition GDT_TYPE_CODE :: DWORD where "GDT_TYPE_CODE = 0x00000A00"
definition GDT_TYPE_TSS :: DWORD where "GDT_TYPE_TSS = 0x00000900"

lemmas gdt_flags = GDT_FLAG_G_def GDT_FLAG_L_def GDT_FLAG_P_def GDT_FLAG_DPL0_def GDT_FLAG_DPL3_def GDT_FLAG_S_def
  GDT_TYPE_DATA_def GDT_TYPE_CODE_def GDT_TYPE_TSS_def

definition IDT_FLAG_P :: BYTE where "IDT_FLAG_P = 0x80"
definition IDT_FLAG_DPL0 :: BYTE where "IDT_FLAG_DPL0 = 0x00"
definition IDT_FLAG_DPL3 :: BYTE where "IDT_FLAG_DPL3 = 0x60"
definition IDT_TYPE_INTERRUPT :: BYTE where "IDT_TYPE_INTERRUPT = 0x0E"
definition GDT_COUNT :: nat where "GDT_COUNT = 5"
definition IDT_GATED_COUNT :: nat where "IDT_GATED_COUNT = 130"
definition IST_COUNT :: BYTE where "IST_COUNT = 1"
definition SYSCALL_VECTOR :: nat where "SYSCALL_VECTOR = 0x81"

lemmas idt_defs = IDT_FLAG_P_def IDT_FLAG_DPL0_def IDT_FLAG_DPL3_def IDT_TYPE_INTERRUPT_def IDT_GATED_COUNT_def
  IST_COUNT_def SYSCALL_VECTOR_def

text \<open>The structures are packed: 8 bytes a segment descriptor, 16 the registers' images, the task's descriptor and a gate,
  104 the task state.\<close>

definition SIZEOF_GDT :: nat where "SIZEOF_GDT = 8"
definition SIZEOF_GDTR :: nat where "SIZEOF_GDTR = 16"
definition SIZEOF_TSSDescriptor :: nat where "SIZEOF_TSSDescriptor = 16"
definition SIZEOF_TSS :: nat where "SIZEOF_TSS = 104"
definition SIZEOF_IDT :: nat where "SIZEOF_IDT = 16"

definition GDTR_ADDRESS :: nat where "GDTR_ADDRESS = 0x00510000"
definition GDT_ADDRESS :: nat where "GDT_ADDRESS = GDTR_ADDRESS + SIZEOF_GDTR"
definition TSS_DESCRIPTOR_ADDRESS :: nat where "TSS_DESCRIPTOR_ADDRESS = GDT_ADDRESS + SIZEOF_GDT * GDT_COUNT"
definition TSS_ADDRESS :: nat where "TSS_ADDRESS = TSS_DESCRIPTOR_ADDRESS + SIZEOF_TSSDescriptor"
definition IDTR_ADDRESS :: nat where "IDTR_ADDRESS = TSS_ADDRESS + SIZEOF_TSS"
definition IDT_ADDRESS :: nat where "IDT_ADDRESS = IDTR_ADDRESS + SIZEOF_GDTR"
definition IST_START_ADDRESS :: nat where "IST_START_ADDRESS = 0x00B00000"
definition IST_SIZE :: nat where "IST_SIZE = 0x00100000"
definition TSS_DESCRIPTOR_OFFSET :: nat where "TSS_DESCRIPTOR_OFFSET = 0x28"

lemma descriptor_addrs:
  "GDTR_ADDRESS = 0x510000" "GDT_ADDRESS = 0x510010" "TSS_DESCRIPTOR_ADDRESS = 0x510038" "TSS_ADDRESS = 0x510048"
  "IDTR_ADDRESS = 0x5100B0" "IDT_ADDRESS = 0x5100C0"
  by (simp_all add: GDTR_ADDRESS_def GDT_ADDRESS_def TSS_DESCRIPTOR_ADDRESS_def TSS_ADDRESS_def IDTR_ADDRESS_def
      IDT_ADDRESS_def SIZEOF_GDT_def SIZEOF_GDTR_def SIZEOF_TSSDescriptor_def SIZEOF_TSS_def GDT_COUNT_def)

definition store16 :: "nat \<Rightarrow> WORD \<Rightarrow> memory \<Rightarrow> memory" where
  "store16 a w m = store_bytes a (le_encode 2 (unat w)) m"

definition store64 :: "nat \<Rightarrow> QWORD \<Rightarrow> memory \<Rightarrow> memory" where
  "store64 a w m = store_bytes a (le_encode 8 (unat w)) m"

section \<open>The code\<close>

definition initializeIDTR :: "memory \<Rightarrow> memory" where
  "initializeIDTR m =
     (let sz = word_of_nat (SIZEOF_IDT * IDT_GATED_COUNT - 1) :: WORD;
          m = store16 IDTR_ADDRESS sz m;
          m = store64 (IDTR_ADDRESS + 2) (word_of_nat IDT_ADDRESS) m;
          m = store16 (IDTR_ADDRESS + 10) 0 m
      in store32 (IDTR_ADDRESS + 12) 0 m)"

definition setIDTGate :: "nat \<Rightarrow> QWORD \<Rightarrow> BYTE \<Rightarrow> BYTE \<Rightarrow> memory \<Rightarrow> memory" where
  "setIDTGate entry isr istIndex flag m =
     (let m = store16 entry (ucast (isr AND 0x0000FFFF)) m;
          m = store16 (entry + 2) (ucast CODE_DESCRIPTOR_OFFSET) m;
          m = m(entry + 4 := istIndex);
          m = m(entry + 5 := flag);
          m = store16 (entry + 6) (ucast (drop_bit 16 (isr AND 0xFFFF0000))) m;
          m = store32 (entry + 8) (ucast (drop_bit 32 isr)) m
      in store32 (entry + 12) 0 m)"

definition initializeIDT :: "QWORD list \<Rightarrow> QWORD \<Rightarrow> memory \<Rightarrow> memory" where
  "initializeIDT vectorStubTable syscallEntry m =
     (let m = fold (\<lambda>i m. let isr = (if int i < INTERRUPT_VECTOR_COUNT then vectorStubTable ! i
                                    else vectorStubTable ! nat RESERVED_VECTOR)
                  in setIDTGate (IDT_ADDRESS + SIZEOF_IDT * i) isr (IST_COUNT AND 0x07)
                       (IDT_FLAG_P OR IDT_FLAG_DPL0 OR IDT_TYPE_INTERRUPT) m) [0..<IDT_GATED_COUNT] m
      in setIDTGate (IDT_ADDRESS + SIZEOF_IDT * SYSCALL_VECTOR) syscallEntry 0
           (IDT_FLAG_P OR IDT_FLAG_DPL3 OR IDT_TYPE_INTERRUPT) m)"

definition initializeGDTR :: "memory \<Rightarrow> memory" where
  "initializeGDTR m =
     (let sz = word_of_nat (SIZEOF_GDT * GDT_COUNT + SIZEOF_TSSDescriptor - 1) :: WORD;
          m = store16 GDTR_ADDRESS sz m;
          m = store64 (GDTR_ADDRESS + 2) (word_of_nat GDT_ADDRESS) m;
          m = store16 (GDTR_ADDRESS + 10) 0 m
      in store32 (GDTR_ADDRESS + 12) 0 m)"

definition initializeGDT :: "memory \<Rightarrow> memory" where
  "initializeGDT m =
     (let segmentSize = 0x000FFFFF :: DWORD;
          flags = (\<lambda>dpl ty. GDT_FLAG_P OR dpl OR GDT_FLAG_G OR GDT_FLAG_L OR GDT_FLAG_S OR ty OR (segmentSize AND 0xF0000));
          m = store32 GDT_ADDRESS 0 m;
          m = store32 (GDT_ADDRESS + 4) 0 m;
          m = store32 (GDT_ADDRESS + 8) (segmentSize AND 0x0000FFFF) m;
          m = store32 (GDT_ADDRESS + 12) (flags GDT_FLAG_DPL0 GDT_TYPE_DATA) m;
          m = store32 (GDT_ADDRESS + 16) (segmentSize AND 0x0000FFFF) m;
          m = store32 (GDT_ADDRESS + 20) (flags GDT_FLAG_DPL0 GDT_TYPE_CODE) m;
          m = store32 (GDT_ADDRESS + 24) (segmentSize AND 0x0000FFFF) m;
          m = store32 (GDT_ADDRESS + 28) (flags GDT_FLAG_DPL3 GDT_TYPE_DATA) m;
          m = store32 (GDT_ADDRESS + 32) (segmentSize AND 0x0000FFFF) m
      in store32 (GDT_ADDRESS + 36) (flags GDT_FLAG_DPL3 GDT_TYPE_CODE) m)"

definition initializeTSSDescriptor :: "memory \<Rightarrow> memory" where
  "initializeTSSDescriptor m =
     (let segmentSize = word_of_nat (SIZEOF_TSS - 1) :: DWORD;
          tss = word_of_nat TSS_ADDRESS :: DWORD;
          m = store32 TSS_DESCRIPTOR_ADDRESS ((segmentSize AND 0xFFFF) OR push_bit 16 (tss AND 0x0000FFFF)) m;
          m = store32 (TSS_DESCRIPTOR_ADDRESS + 4)
                (drop_bit 16 (tss AND 0x00FF0000) OR (GDT_FLAG_P OR GDT_FLAG_G OR GDT_FLAG_DPL0 OR GDT_TYPE_TSS) OR
                 (tss AND 0xFF000000) OR (segmentSize AND 0xF0000)) m;
          m = store32 (TSS_DESCRIPTOR_ADDRESS + 8) (ucast (drop_bit 32 (word_of_nat TSS_ADDRESS :: QWORD))) m
      in store32 (TSS_DESCRIPTOR_ADDRESS + 12) 0 m)"

text \<open>\<^verbatim>\<open>InitializeMemory\<close> of the kernel (\<^verbatim>\<open>lib/64bit.c\<close>).\<close>

function zero_ints :: "nat \<Rightarrow> nat \<Rightarrow> memory \<Rightarrow> bool \<times> memory" where
  "zero_ints a e m =
     (if a < e then
        let m1 = store32 a 0 m in if load32 m1 a \<noteq> 0 then (False, m1) else zero_ints (a + 4) e m1
      else (True, m))"
  by pat_completeness auto
termination by (relation "measure (\<lambda>(a, e, m). e - a)") auto

declare zero_ints.simps [simp del]

definition initializeTSS :: "memory \<Rightarrow> memory" where
  "initializeTSS m =
     (let m = snd (zero_ints TSS_ADDRESS (TSS_ADDRESS + SIZEOF_TSS) m);
          m = store64 (TSS_ADDRESS + 36) (word_of_nat (IST_START_ADDRESS + IST_SIZE)) m
      in store16 (TSS_ADDRESS + 102) 0xFFFF m)"

definition store_rsp0 :: "QWORD \<Rightarrow> memory \<Rightarrow> memory" where
  "store_rsp0 rsp0 m = store64 (TSS_ADDRESS + 4) rsp0 m"

text \<open>The registers the last three instructions load: limits and bases from the memory images, and the task's selector.\<close>

record tables =
  dmem :: memory
  gdtr :: "nat \<times> nat"
  tr :: nat
  idtr :: "nat \<times> nat"

definition load_image :: "memory \<Rightarrow> nat \<Rightarrow> nat \<times> nat" where
  "load_image m a = (le_decode (fetch m a 2), le_decode (fetch m (a + 2) 8))"

definition initializeDescriptor :: "QWORD list \<Rightarrow> QWORD \<Rightarrow> memory \<Rightarrow> tables" where
  "initializeDescriptor vectorStubTable syscallEntry m =
     (let m = initializeGDTR m;
          m = initializeGDT m;
          m = initializeTSSDescriptor m;
          m = initializeTSS m;
          m = initializeIDTR m;
          m = initializeIDT vectorStubTable syscallEntry m
      in \<lparr>dmem = m, gdtr = load_image m GDTR_ADDRESS, tr = TSS_DESCRIPTOR_OFFSET, idtr = load_image m IDTR_ADDRESS\<rparr>)"

end
