(* ===== verification/DescriptorProps.thy ===== *)
theory DescriptorProps
  imports Descriptor
begin

text \<open>
  What the processor finds in the descriptor tables: the gate of every vector, the segments, the task state, and which
  ports ring 3 may use.
\<close>

section \<open>Reading back what was stored\<close>

lemma fetch_stores:
  "fetch (store16 a w m) a 2 = le_encode 2 (unat w)" "fetch (store32 a v m) a 4 = le_encode 4 (unat v)"
  "fetch (store64 a u m) a 8 = le_encode 8 (unat u)"
  "b + n \<le> a \<or> a + 2 \<le> b \<Longrightarrow> fetch (store16 a w m) b n = fetch m b n"
  "b + n \<le> a \<or> a + 4 \<le> b \<Longrightarrow> fetch (store32 a v m) b n = fetch m b n"
  "b + n \<le> a \<or> a + 8 \<le> b \<Longrightarrow> fetch (store64 a u m) b n = fetch m b n"
  "b + n \<le> a \<or> a + 1 \<le> b \<Longrightarrow> fetch (m(a := x)) b n = fetch m b n"
  by (simp_all add: store16_def store32_def store64_def fetch_store_same fetch_store_other) (rule fetch_cong, auto)

lemma store_outside:
  "x < a \<or> a + 2 \<le> x \<Longrightarrow> store16 a w m x = m x" "x < a \<or> a + 4 \<le> x \<Longrightarrow> store32 a v m x = m x"
  "x < a \<or> a + 8 \<le> x \<Longrightarrow> store64 a u m x = m x"
  by (simp_all add: store16_def store32_def store64_def store_bytes_outside)

lemma unat_bounds: "unat (w :: WORD) < 256 ^ 2" "unat (v :: DWORD) < 256 ^ 4" "unat (u :: QWORD) < 256 ^ 8"
  using unsigned_less [of w] unsigned_less [of v] unsigned_less [of u] by simp_all

lemmas decode_stored [simp] = unat_bounds [THEN le_decode_encode]

section \<open>Interrupt gates\<close>

text \<open>A gate as the processor reads it.\<close>

record gate =
  handler :: nat
  selector :: nat
  istIndex :: nat
  gateType :: nat
  gateDPL :: nat

definition gate_at :: "memory \<Rightarrow> nat \<Rightarrow> gate option" where
  "gate_at m a =
     (let f = unat (m (a + 5))
      in if f < 128 then None
         else Some \<lparr>handler = le_decode (fetch m a 2) + 2 ^ 16 * le_decode (fetch m (a + 6) 2) + 2 ^ 32 * le_decode (fetch m (a + 8) 4),
           selector = le_decode (fetch m (a + 2) 2), istIndex = unat (m (a + 4)) mod 8, gateType = f mod 16,
           gateDPL = f div 32 mod 4\<rparr>)"

definition gate_of :: "tables \<Rightarrow> nat \<Rightarrow> gate option" where
  "gate_of t v = (if 16 * v + 15 \<le> fst (idtr t) then gate_at (dmem t) (snd (idtr t) + 16 * v) else None)"

lemma gate_at_cong: "(\<And>x. a \<le> x \<Longrightarrow> x < a + 16 \<Longrightarrow> m x = m' x) \<Longrightarrow> gate_at m a = gate_at m' a"
proof -
  assume e: "\<And>x. a \<le> x \<Longrightarrow> x < a + 16 \<Longrightarrow> m x = m' x"
  have f: "fetch m (a + k) n = fetch m' (a + k) n" if "k + n \<le> 16" for k n
    by (rule fetch_cong, rule e) (use that in simp_all)
  have "fetch m a 2 = fetch m' a 2" "m (a + 5) = m' (a + 5)" "m (a + 4) = m' (a + 4)"
    using f [of 0 2] by (simp_all add: e)
  with f [of 6 2] f [of 8 4] f [of 2 2] show ?thesis by (simp only: gate_at_def)
qed

lemma isr_parts:
  fixes isr :: QWORD
  shows "unat (ucast (isr AND 0x0000FFFF) :: WORD) + 2 ^ 16 * unat (ucast (drop_bit 16 (isr AND 0xFFFF0000)) :: WORD) +
    2 ^ 32 * unat (ucast (drop_bit 32 isr) :: DWORD) = unat isr"
proof -
  have m: "(0x0000FFFF :: QWORD) = mask 16" by (simp add: mask_eq_exp_minus_1)
  have "ucast (isr AND 0x0000FFFF) = (ucast isr :: WORD)"
    unfolding m by (auto simp: bit_eq_iff bit_simps)
  moreover have "ucast (drop_bit 16 (isr AND 0xFFFF0000)) = (ucast (drop_bit 16 isr) :: WORD)"
  proof -
    have "(0xFFFF0000 :: QWORD) = push_bit 16 (mask 16)" by (simp add: mask_eq_exp_minus_1 push_bit_eq_mult)
    then show ?thesis by (simp only:) (auto simp: bit_eq_iff bit_simps)
  qed
  moreover have "unat (ucast isr :: WORD) = unat isr mod 2 ^ 16" "unat (ucast (drop_bit 16 isr) :: WORD) = unat isr div 2 ^ 16 mod 2 ^ 16"
    "unat (ucast (drop_bit 32 isr) :: DWORD) = unat isr div 2 ^ 32 mod 2 ^ 32"
    by (simp_all add: unsigned_ucast_eq take_bit_eq_mod unsigned_drop_bit_eq drop_bit_eq_div unat_div_distrib)
  moreover have "unat isr div 2 ^ 32 mod 2 ^ 32 = unat isr div 2 ^ 32"
    using qword_less [of isr] by (simp add: less_mult_imp_div_less)
  moreover have "n mod 65536 + 65536 * (n div 65536 mod 65536) + 4294967296 * (n div 4294967296) = n" for n :: nat
  proof -
    define q where "q = n div 65536"
    have "n mod 65536 + 65536 * q = n" "q mod 65536 + 65536 * (q div 65536) = q" "n div 4294967296 = q div 65536"
      using div_mult2_eq [of n 65536 65536] by (simp_all add: q_def)
    then show ?thesis unfolding q_def [symmetric] by linarith
  qed
  ultimately show ?thesis by simp
qed

lemma setIDTGate_here:
  assumes "128 \<le> unat flag"
  shows "gate_at (setIDTGate a isr i flag m) a =
    Some \<lparr>handler = unat isr, selector = 0x10, istIndex = unat i mod 8, gateType = unat flag mod 16, gateDPL = unat flag div 32 mod 4\<rparr>"
proof -
  have "unat (ucast CODE_DESCRIPTOR_OFFSET :: WORD) = 0x10" by (simp add: CODE_DESCRIPTOR_OFFSET_def)
  then show ?thesis using assms isr_parts [of isr]
    by (simp add: gate_at_def setIDTGate_def Let_def fetch_stores store_outside)
qed

lemma setIDTGate_outside: "x < a \<or> a + 16 \<le> x \<Longrightarrow> setIDTGate a isr i flag m x = m x"
  by (auto simp: setIDTGate_def Let_def store_outside)

definition stub :: "QWORD list \<Rightarrow> nat \<Rightarrow> QWORD" where
  "stub stubs i = (if i < 48 then stubs ! i else stubs ! 20)"

definition interrupt_flag :: BYTE where "interrupt_flag = 0x8E"

lemma gates_loop:
  fixes stubs :: "QWORD list"
  defines "f n \<equiv> fold (\<lambda>i m. setIDTGate (IDT_ADDRESS + 16 * i) (stub stubs i) 1 interrupt_flag m) [0..<n]"
  shows "i < n \<Longrightarrow> gate_at (f n m) (IDT_ADDRESS + 16 * i) =
      Some \<lparr>handler = unat (stub stubs i), selector = 0x10, istIndex = 1, gateType = 14, gateDPL = 0\<rparr>"
    and "x < IDT_ADDRESS \<or> IDT_ADDRESS + 16 * n \<le> x \<Longrightarrow> f n m x = m x"
proof (induction n)
  case 0
  { case 1 then show ?case by simp }
  { case 2 then show ?case by (simp add: f_def) }
next
  case (Suc n)
  have step: "f (Suc n) m = setIDTGate (IDT_ADDRESS + 16 * n) (stub stubs n) 1 interrupt_flag (f n m)" by (simp add: f_def)
  { case 1
    show ?case
    proof (cases "i = n")
      case True
      then show ?thesis by (simp add: step setIDTGate_here interrupt_flag_def)
    next
      case False
      then have "gate_at (f (Suc n) m) (IDT_ADDRESS + 16 * i) = gate_at (f n m) (IDT_ADDRESS + 16 * i)"
        unfolding step using 1 by (intro gate_at_cong setIDTGate_outside) auto
      with Suc(1) 1 False show ?thesis by simp
    qed }
  { case 2 then show ?case using Suc(2) by (auto simp: step setIDTGate_outside) }
qed

lemma initializeIDT_eq:
  "initializeIDT stubs entry m = setIDTGate (IDT_ADDRESS + 16 * 0x81) entry 0 0xEE
     (fold (\<lambda>i m. setIDTGate (IDT_ADDRESS + 16 * i) (stub stubs i) 1 interrupt_flag m) [0..<130] m)"
  by (simp add: initializeIDT_def Let_def SIZEOF_IDT_def idt_defs stub_def interrupt_flag_def
      INTERRUPT_VECTOR_COUNT_def RESERVED_VECTOR_def cong del: if_weak_cong)

lemma initializeIDT_gates:
  assumes "i < 130"
  shows "gate_at (initializeIDT stubs entry m) (IDT_ADDRESS + 16 * i) =
    Some (if i = 0x81 then \<lparr>handler = unat entry, selector = 0x10, istIndex = 0, gateType = 14, gateDPL = 3\<rparr>
          else \<lparr>handler = unat (stub stubs i), selector = 0x10, istIndex = 1, gateType = 14, gateDPL = 0\<rparr>)"
proof (cases "i = 0x81")
  case True
  then show ?thesis by (simp add: initializeIDT_eq setIDTGate_here)
next
  case False
  let ?m = "fold (\<lambda>i m. setIDTGate (IDT_ADDRESS + 16 * i) (stub stubs i) 1 interrupt_flag m) [0..<130] m"
  have "gate_at (initializeIDT stubs entry m) (IDT_ADDRESS + 16 * i) = gate_at ?m (IDT_ADDRESS + 16 * i)"
    unfolding initializeIDT_eq using False by (intro gate_at_cong setIDTGate_outside) auto
  with False show ?thesis using gates_loop(1) [OF assms] by simp
qed

lemma initializeIDT_outside: "x < IDT_ADDRESS \<or> IDT_ADDRESS + 2080 \<le> x \<Longrightarrow> initializeIDT stubs entry m x = m x"
  by (auto simp: initializeIDT_eq setIDTGate_outside gates_loop(2))

section \<open>The other tables\<close>

lemma zero_ints_eq: "zero_ints a (a + 4 * n) m = (True, \<lambda>x. if a \<le> x \<and> x < a + 4 * n then 0 else m x)"
proof -
  have "zero_ints a e m = clear_loop (e + 4) 0 a e m" for a e m
  proof (induction a e m rule: zero_ints.induct)
    case (1 a e m)
    then show ?case by (subst zero_ints.simps, subst clear_loop.simps) (auto simp: write32_def read32_def Let_def)
  qed
  then show ?thesis by (simp add: clear_loop_ram)
qed

lemma initializeTSS_eq:
  "initializeTSS m = store16 0x5100AE 0xFFFF (store64 0x51006C 0xC00000
     (\<lambda>x. if 0x510048 \<le> x \<and> x < 0x5100B0 then 0 else m x))"
  using zero_ints_eq [of "0x510048" 26 m]
  by (simp add: initializeTSS_def SIZEOF_TSS_def descriptor_addrs IST_START_ADDRESS_def IST_SIZE_def)

text \<open>Every table but the interrupt table is written below it.\<close>

lemma tables_outside:
  "x < 0x510000 \<or> 0x5108E0 \<le> x \<Longrightarrow> dmem (initializeDescriptor stubs entry m) x = m x"
  by (auto simp: initializeDescriptor_def Let_def initializeIDT_outside initializeIDTR_def initializeTSS_eq
      initializeTSSDescriptor_def initializeGDT_def initializeGDTR_def store_outside descriptor_addrs)

lemma fetch_tables:
  "a + n \<le> IDT_ADDRESS \<Longrightarrow> fetch (initializeIDT stubs entry m) a n = fetch m a n"
  by (rule fetch_cong) (simp add: initializeIDT_outside)

lemmas table_writes = initializeDescriptor_def Let_def initializeIDTR_def initializeTSS_eq initializeTSSDescriptor_def
  initializeGDT_def initializeGDTR_def load_image_def fetch_tables fetch_stores descriptor_addrs

lemma fetch_zeroed: "b + n \<le> lo \<or> hi \<le> b \<Longrightarrow> fetch (\<lambda>x. if lo \<le> x \<and> x < hi then 0 else m x) b n = fetch m b n"
  by (rule fetch_cong) auto

lemma descriptor_registers:
  "idtr (initializeDescriptor stubs entry m) = (2079, 0x5100C0)"
  "gdtr (initializeDescriptor stubs entry m) = (55, 0x510010)"
  "tr (initializeDescriptor stubs entry m) = 0x28"
  by (simp_all add: table_writes fetch_zeroed SIZEOF_IDT_def SIZEOF_GDT_def SIZEOF_TSSDescriptor_def GDT_COUNT_def
      IDT_GATED_COUNT_def TSS_DESCRIPTOR_OFFSET_def)

text \<open>C20: The interrupt gates. Of the vectors 0 to 129 each one leads, through the kernel's code segment and with interrupts off, to
  the stub of that vector (to the reserved stub above 47), on the interrupt stack; vector 0x81 leads to the system call entry on
  the process's kernel stack and is the only one that ring 3 may raise by an instruction. There is no gate above 129.\<close>

theorem interrupt_gates:
  "gate_of (initializeDescriptor stubs entry m) v =
    (if 130 \<le> v then None
     else if v = 0x81 then Some \<lparr>handler = unat entry, selector = 0x10, istIndex = 0, gateType = 14, gateDPL = 3\<rparr>
     else Some \<lparr>handler = unat (if v < 48 then stubs ! v else stubs ! 20), selector = 0x10, istIndex = 1,
            gateType = 14, gateDPL = 0\<rparr>)"
proof (cases "v < 130")
  case True
  have "dmem (initializeDescriptor stubs entry m) = initializeIDT stubs entry
      (initializeIDTR (initializeTSS (initializeTSSDescriptor (initializeGDT (initializeGDTR m)))))"
    by (simp add: initializeDescriptor_def Let_def)
  with initializeIDT_gates [OF True] True show ?thesis
    by (simp add: gate_of_def descriptor_registers stub_def descriptor_addrs)
next
  case False
  then show ?thesis by (simp add: gate_of_def descriptor_registers)
qed

section \<open>Segments and the task\<close>

record segment =
  isCode :: bool
  segDPL :: nat
  longMode :: bool

definition segment_of :: "tables \<Rightarrow> nat \<Rightarrow> segment option" where
  "segment_of t sel =
     (let i = sel div 8; u = load32 (dmem t) (snd (gdtr t) + 8 * i + 4)
      in if 8 * i + 7 \<le> fst (gdtr t) \<and> i \<noteq> 0 \<and> bit u 15 \<and> bit u 12
         then Some \<lparr>isCode = bit u 11, segDPL = unat (drop_bit 13 u) mod 4, longMode = bit u 21\<rparr> else None)"

record task =
  taskBase :: nat
  taskLimit :: nat
  rsp0 :: nat
  ist1 :: nat
  ioMap :: nat

text \<open>With the granularity flag a limit counts pages.\<close>

definition task_of :: "tables \<Rightarrow> task" where
  "task_of t =
     (let m = dmem t; a = snd (gdtr t) + tr t; l = unat (load32 m a); w = load32 m (a + 4); u = unat w;
          base = l div 2 ^ 16 + 2 ^ 16 * (u mod 2 ^ 8) + 2 ^ 24 * (u div 2 ^ 24) + 2 ^ 32 * unat (load32 m (a + 8));
          lim = l mod 2 ^ 16 + 2 ^ 16 * (u div 2 ^ 16 mod 2 ^ 4)
      in \<lparr>taskBase = base, taskLimit = (if bit w 23 then 4096 * lim + 4095 else lim),
          rsp0 = le_decode (fetch m (base + 4) 8), ist1 = le_decode (fetch m (base + 36) 8),
          ioMap = le_decode (fetch m (base + 102) 2)\<rparr>)"

text \<open>An \<^verbatim>\<open>in\<close> or \<^verbatim>\<open>out\<close> of one byte in ring 3, with I/O privilege level 0: the port's bit in the task's bitmap
  must be 0 and inside the task's limit.\<close>

definition io_allowed :: "tables \<Rightarrow> nat \<Rightarrow> bool" where
  "io_allowed t port =
     (let k = task_of t; a = ioMap k + port div 8
      in a + 1 \<le> taskLimit k \<and> \<not> bit (dmem t (taskBase k + a)) (port mod 8))"

lemma load32_tables:
  "a + 4 \<le> IDT_ADDRESS \<Longrightarrow> load32 (initializeIDT stubs entry m) a = load32 m a"
  "a + 4 \<le> b \<or> b + 2 \<le> a \<Longrightarrow> load32 (store16 b w m) a = load32 m a"
  "a + 4 \<le> b \<or> b + 8 \<le> a \<Longrightarrow> load32 (store64 b u m) a = load32 m a"
  "a + 4 \<le> lo \<or> hi \<le> a \<Longrightarrow> load32 (\<lambda>x. if lo \<le> x \<and> x < hi then 0 else m x) a = load32 m a"
  by (simp_all add: load32_def fetch_tables fetch_stores fetch_zeroed)

lemmas table_reads = table_writes load32_tables load32_store32 load32_store32_other gdt_flags

text \<open>Segments. The null selector and those outside the table select nothing; the kernel's selectors give its data and its
  64-bit code segment at privilege 0, the user's selectors those at privilege 3.\<close>

theorem segments:
  "segment_of (initializeDescriptor stubs entry m) sel =
    (if sel div 8 = 1 then Some \<lparr>isCode = False, segDPL = 0, longMode = True\<rparr>
     else if sel div 8 = 2 then Some \<lparr>isCode = True, segDPL = 0, longMode = True\<rparr>
     else if sel div 8 = 3 then Some \<lparr>isCode = False, segDPL = 3, longMode = True\<rparr>
     else if sel div 8 = 4 then Some \<lparr>isCode = True, segDPL = 3, longMode = True\<rparr>
     else None)"
proof -
  let ?t = "initializeDescriptor stubs entry m"
  have words: "load32 (dmem ?t) 0x51001C = 0xAF9200" "load32 (dmem ?t) 0x510024 = 0xAF9A00"
    "load32 (dmem ?t) 0x51002C = 0xAFF200" "load32 (dmem ?t) 0x510034 = 0xAFFA00"
    "load32 (dmem ?t) 0x51003C = 0x808951"  "load32 (dmem ?t) 0x510044 = 0"
    by (simp_all add: table_reads SIZEOF_TSS_def)
  have "sel div 8 \<in> {0, 1, 2, 3, 4, 5, 6} \<or> 7 \<le> sel div 8" by auto
  then show ?thesis
    by (elim disjE insertE) (simp_all add: segment_of_def descriptor_registers words Let_def)
qed

lemma nth_le_encode: "j < n \<Longrightarrow> le_encode n v ! j = word_of_nat (v div 256 ^ j mod 256)"
proof (induction n arbitrary: v j)
  case (Suc n)
  then show ?case by (cases j) (simp_all add: div_mult2_eq)
qed simp

lemma task_with_stack:
  "task_of (initializeDescriptor stubs entry m\<lparr>dmem := store_rsp0 sp (dmem (initializeDescriptor stubs entry m))\<rparr>) =
    \<lparr>taskBase = 0x510048, taskLimit = 0x67FFF, rsp0 = unat sp, ist1 = 0xC00000, ioMap = 0xFFFF\<rparr>"
  and task_registers: "task_of (initializeDescriptor stubs entry m) =
    \<lparr>taskBase = 0x510048, taskLimit = 0x67FFF, rsp0 = 0, ist1 = 0xC00000, ioMap = 0xFFFF\<rparr>"
proof -
  let ?t = "initializeDescriptor stubs entry m"
  have words: "load32 (dmem ?t) 0x510038 = 0x480067" "load32 (dmem ?t) 0x51003C = 0x808951" "load32 (dmem ?t) 0x510040 = 0"
    by (simp_all add: table_reads SIZEOF_TSS_def)
  have z: "fetch (\<lambda>x. if 0x510048 \<le> x \<and> x < 0x5100B0 then 0 else f x) 0x51004C 8 = le_encode 8 0" for f
    by (rule nth_equalityI) (simp_all add: le_encode_zero)
  have f: "le_decode (fetch (dmem ?t) 0x51004C 8) = 0" "le_decode (fetch (dmem ?t) 0x51006C 8) = 0xC00000"
    "le_decode (fetch (dmem ?t) 0x5100AE 2) = 0xFFFF"
    by (simp_all add: table_writes z)
  then show "task_of ?t = \<lparr>taskBase = 0x510048, taskLimit = 0x67FFF, rsp0 = 0, ist1 = 0xC00000, ioMap = 0xFFFF\<rparr>"
    by (simp add: task_of_def descriptor_registers words Let_def)
  show "task_of (?t\<lparr>dmem := store_rsp0 sp (dmem ?t)\<rparr>) =
    \<lparr>taskBase = 0x510048, taskLimit = 0x67FFF, rsp0 = unat sp, ist1 = 0xC00000, ioMap = 0xFFFF\<rparr>"
    using f by (simp add: task_of_def descriptor_registers words Let_def store_rsp0_def load32_tables fetch_stores descriptor_addrs)
qed

text \<open>The task state after \<^verbatim>\<open>setTSSRsp0\<close>: the processor finds it where the tables say, enters the kernel from ring 3
  on the stack that was set, and takes interrupts on the stack that ends at \<open>0xC00000\<close>.\<close>

theorem kernel_stacks:
  "(let k = task_of (initializeDescriptor stubs entry m\<lparr>dmem := store_rsp0 sp (dmem (initializeDescriptor stubs entry m))\<rparr>)
    in taskBase k = TSS_ADDRESS \<and> rsp0 k = unat sp \<and> ist1 k = IST_START_ADDRESS + IST_SIZE)"
  by (simp add: task_with_stack descriptor_addrs IST_START_ADDRESS_def IST_SIZE_def)

section \<open>Ports\<close>

text \<open>The bytes of an entry's upper word.\<close>

lemma upper_byte:
  assumes "j < 4" shows "m (b + 8 * i + 4 + j) = le_encode 4 (unat (upper m b i)) ! j"
    and "m (b + 8 * i + j) = le_encode 4 (unat (lower m b i)) ! j"
proof -
  have "le_encode 4 (unat (load32 m a)) = fetch m a 4" for a
  proof -
    have "le_decode (fetch m a 4) < 2 ^ 32" using le_decode_bound [of "fetch m a 4"] by simp
    then have "unat (load32 m a) = le_decode (fetch m a 4)"
      by (simp add: load32_def unat_of_nat take_bit_nat_eq_self)
    then show ?thesis by simp
  qed
  then show "m (b + 8 * i + 4 + j) = le_encode 4 (unat (upper m b i)) ! j" "m (b + 8 * i + j) = le_encode 4 (unat (lower m b i)) ! j"
    using assms by (simp_all add: upper_def lower_def)
qed

lemma page_bytes:
  "initializePaging m 0x520085 = 0" "initializePaging m 0x520053 = 0x83"
proof -
  have u: "upper (initializePaging m) PTABLE_BASE_ADDRESS 0x83410 = 0x800000F8"
    by (simp add: paging_entries high_part_def PAGE_FLAG_EXB_def)
  have l: "lower (initializePaging m) PTABLE_BASE_ADDRESS 0x8340A = 0x8340A002"
    by (simp add: paging_entries)
  have a: "PTABLE_BASE_ADDRESS + 8 * 0x83410 + 4 + 1 = 0x520085" "PTABLE_BASE_ADDRESS + 8 * 0x8340A + 3 = 0x520053"
    by (simp_all add: table_addrs)
  show "initializePaging m 0x520085 = 0"
    using upper_byte(1) [of 1 "initializePaging m" PTABLE_BASE_ADDRESS "0x83410", unfolded a u] by (simp add: nth_le_encode)
  show "initializePaging m 0x520053 = 0x83"
    using upper_byte(2) [of 3 "initializePaging m" PTABLE_BASE_ADDRESS "0x8340A", unfolded a l] by (simp add: nth_le_encode)
qed

text \<open>C21: Ring 3 may use the disk's ports. The task's descriptor sets the granularity flag, so its limit of 103 counts pages and the
  offset \<open>0xFFFF\<close>, meant to say that there is no bitmap, lies inside: the bitmap is what is there in memory, which is the loader's
  page table, and its bits allow every program the ports of the primary disk and the command port of the keyboard controller,
  through which the processor is reset.\<close>

theorem ring3_may_use_disk_ports:
  assumes "\<forall>x. 0x520000 \<le> x \<and> x < 0x530000 \<longrightarrow> m x = initializePaging m0 x"
    and "0x1F0 \<le> port \<and> port \<le> 0x1F7 \<or> port = 0x64"
  shows "io_allowed (initializeDescriptor stubs entry m) port"
proof -
  have b: "dmem (initializeDescriptor stubs entry m) 0x520085 = 0" "dmem (initializeDescriptor stubs entry m) 0x520053 = 0x83"
    using assms(1) by (simp_all add: tables_outside page_bytes)
  show ?thesis using assms(2)
  proof
    assume p: "0x1F0 \<le> port \<and> port \<le> 0x1F7"
    then have "port div 8 = 0x3E" by auto
    then show ?thesis using b(1) by (simp add: io_allowed_def task_registers Let_def)
  next
    assume "port = 0x64"
    then show ?thesis using b(2) by (simp add: io_allowed_def task_registers Let_def)
  qed
qed

lemma ring3_may_use_disk_ports_witness:
  "io_allowed (initializeDescriptor (replicate 48 0x600100) 0x600200 (initializePaging (\<lambda>_. 0))) 0x1F7"
  using ring3_may_use_disk_ports [of "initializePaging (\<lambda>_. 0)" "\<lambda>_. 0" "0x1F7" "replicate 48 0x600100" "0x600200"] by simp

end
