(* ===== verification/Editor.thy ===== *)
theory Editor
  imports DiskProps
begin

text \<open>
  The text editor (\<^verbatim>\<open>shell/editor.c\<close>): one file of at most 4095 characters in a buffer, an edit mode and a
  command mode for saving and leaving. It runs on the file system, whose device is the disk driver, so the keyboard is
  part of the same state.
\<close>

section \<open>Reading a key\<close>

text \<open>\<^verbatim>\<open>getKey\<close> from call to return: as long as there is no key the caller waits, \<open>rs\<close> being what happens until it runs again.\<close>

partial_function (option) key_loop :: "('d, 'z) resume \<Rightarrow> bool \<Rightarrow> ('d, 'z) dsk_scheme \<Rightarrow> (BYTE \<times> ('d, 'z) dsk_scheme) option" where
  "key_loop rs preIf s = do {
     (r, s1) \<leftarrow> getKeyTurn preIf s;
     case r of
       Some k \<Rightarrow> Some (k, s1)
     | None \<Rightarrow> do { s2 \<leftarrow> rs s1; key_loop rs preIf (s2\<lparr>keyWaiter := NULL\<rparr>) } }"

definition readKey :: "('d, 'z) resume \<Rightarrow> ('d, 'z) dsk_scheme fat \<Rightarrow> (BYTE \<times> ('d, 'z) dsk_scheme fat) option" where
  "readKey rs f =
     (let (preIf, s) = setIf False (disk f) in map_option (\<lambda>(k, s'). (k, f\<lparr>disk := s'\<rparr>)) (key_loop rs preIf s))"

section \<open>Edit mode\<close>

definition MAX_LENGTH :: nat where "MAX_LENGTH = 24 * 80"
definition BUFFER_SIZE :: nat where "BUFFER_SIZE = 4096"

definition buf_ptr :: "BYTE list \<Rightarrow> cptr" where
  "buf_ptr buf i = (if i < length buf then Some (buf ! i) else None)"

text \<open>One key but ESC: the new buffer, index and screen.\<close>

definition edit_key :: "BYTE \<Rightarrow> BYTE list \<times> nat \<times> console \<Rightarrow> BYTE list \<times> nat \<times> console" where
  "edit_key data st =
     (case st of (buf, strIdx, c) \<Rightarrow>
        if data = KEY_ENTER then
          let strIdxNew = strIdx - strIdx mod 80 + 80
          in if strIdxNew > BUFFER_SIZE - 1 then st
             else ((fold (\<lambda>i b. b[i := 32]) [strIdx..<strIdxNew] buf)[strIdxNew := 0], strIdxNew, moveToNextLine c)
        else if data = KEY_BACKSPACE then
          if strIdx = 0 then st
          else (buf[strIdx - 1 := 0], strIdx - 1, viewCharacter data c)
        else if data \<noteq> 0 then
          if strIdx \<ge> BUFFER_SIZE - 1 then st
          else (buf[strIdx := data, strIdx + 1 := 0], strIdx + 1, viewCharacter data c)
        else (buf, strIdx, viewCharacter data c))"

section \<open>Command mode\<close>

definition on_screen :: "(console \<Rightarrow> console) \<Rightarrow> 'b fat \<Rightarrow> 'b fat" where
  "on_screen g f = f\<lparr>screen := g (screen f)\<rparr>"

definition clear_status :: "console \<Rightarrow> console" where
  "clear_status c = fold (\<lambda>i. viewCharacterXY 0 24 (int i)) [0..<80] c"

text \<open>The result tells whether the editor ends.\<close>

partial_function (option) command_loop :: "('d, 'z) resume \<Rightarrow> ('d, 'z) dsk_scheme blockdev \<Rightarrow> cptr \<Rightarrow> BYTE list \<Rightarrow> nat \<Rightarrow> BYTE list \<Rightarrow>
    ('d, 'z) dsk_scheme fat \<Rightarrow> (bool \<times> ('d, 'z) dsk_scheme fat) option" where
  "command_loop rs dv name buf stateIdx stateBuffer f = do {
     (data, f) \<leftarrow> readKey rs f;
     if data = KEY_ESC then Some (False, on_screen clear_status f)
     else if data = KEY_ENTER then do {
       w \<leftarrow> memcmp (buf_ptr stateBuffer) (lit ''w'') 1;
       if w = 0 then do {
         n \<leftarrow> strlen (buf_ptr buf);
         (ok, f) \<leftarrow> writeFile dv name buf (int n) f;
         Some (True, f) }
       else do {
         q \<leftarrow> memcmp (buf_ptr stateBuffer) (lit ''q'') 1;
         if q = 0 then Some (True, f) else command_loop rs dv name buf stateIdx stateBuffer f } }
     else if data = KEY_BACKSPACE then
       if stateIdx = 0 then command_loop rs dv name buf stateIdx stateBuffer f
       else command_loop rs dv name buf (stateIdx - 1) (stateBuffer[stateIdx - 1 := 0])
              (on_screen (viewCharacterXY 0 24 (int (stateIdx - 1))) f)
     else if data \<noteq> 0 \<and> stateIdx < 80 - 1 then
       command_loop rs dv name buf (stateIdx + 1) (stateBuffer[stateIdx := data, stateIdx + 1 := 0])
         (on_screen (viewCharacterXY data 24 (int stateIdx)) f)
     else command_loop rs dv name buf stateIdx stateBuffer f }"

partial_function (option) edit_loop :: "('d, 'z) resume \<Rightarrow> ('d, 'z) dsk_scheme blockdev \<Rightarrow> cptr \<Rightarrow> BYTE list \<Rightarrow> nat \<Rightarrow>
    ('d, 'z) dsk_scheme fat \<Rightarrow> (BYTE list \<times> ('d, 'z) dsk_scheme fat) option" where
  "edit_loop rs dv name buf strIdx f = do {
     (data, f) \<leftarrow> readKey rs f;
     if data = KEY_ESC then do {
       (done, f) \<leftarrow> command_loop rs dv name buf 0 (replicate 80 0) f;
       if done then Some (buf, f) else edit_loop rs dv name buf strIdx (on_screen (viewCharacter data) f) }
     else
       let (buf, strIdx, c) = edit_key data (buf, strIdx, screen f)
       in edit_loop rs dv name buf strIdx (f\<lparr>screen := c\<rparr>) }"

definition runEditor :: "('d, 'z) resume \<Rightarrow> ('d, 'z) dsk_scheme blockdev \<Rightarrow> cptr \<Rightarrow> BYTE list \<Rightarrow> ('d, 'z) dsk_scheme fat \<Rightarrow>
    (BYTE list \<times> ('d, 'z) dsk_scheme fat) option" where
  "runEditor rs dv name buf f = do {
     (n, buf, f) \<leftarrow> readFile dv name buf f;
     if n = -1 then Some (buf, f)
     else do {
       let f = on_screen clear f;
       strIdx \<leftarrow> strlen (buf_ptr buf);
       let f = on_screen (view_all (take (min MAX_LENGTH strIdx) buf)) f;
       edit_loop rs dv name buf strIdx f } }"

section \<open>The text of the buffer\<close>

definition edit_ok :: "BYTE list \<Rightarrow> nat \<Rightarrow> bool" where
  "edit_ok buf i \<longleftrightarrow> length buf = BUFFER_SIZE \<and> i < BUFFER_SIZE \<and> buf ! i = 0 \<and> 0 \<notin> set (take i buf)"

definition edit_text :: "BYTE \<Rightarrow> BYTE list \<Rightarrow> BYTE list" where
  "edit_text data t =
     (if data = KEY_ENTER then if length t div 80 * 80 + 80 < BUFFER_SIZE
        then t @ replicate (length t div 80 * 80 + 80 - length t) 32 else t
      else if data = KEY_BACKSPACE then butlast t
      else if data \<noteq> 0 \<and> length t < BUFFER_SIZE - 1 then t @ [data] else t)"

lemma fill_spaces: "lo \<le> hi \<Longrightarrow> hi \<le> length b \<Longrightarrow>
   fold (\<lambda>i b. b[i := x]) [lo..<hi] b = take lo b @ replicate (hi - lo) x @ drop hi b"
proof (induction hi)
  case (Suc hi)
  show ?case
  proof (cases "lo = Suc hi")
    case False
    then have "fold (\<lambda>i b. b[i := x]) [lo..<hi] b = take lo b @ replicate (hi - lo) x @ drop hi b" using Suc by simp
    with False Suc.prems show ?thesis
      by (simp add: list_update_append Suc_diff_le Cons_nth_drop_Suc [symmetric] replicate_append_same [symmetric])
  qed simp
qed simp

lemma edit_key_text:
  assumes ok: "edit_ok buf i" and key: "edit_key data (buf, i, c) = (buf', i', c')"
  shows "edit_ok buf' i'" and "take i' buf' = edit_text data (take i buf)"
proof -
  have len: "length buf = 4096" "i < 4096" "buf ! i = 0" "0 \<notin> set (take i buf)" and i: "length (take i buf) = i"
    using ok by (simp_all add: edit_ok_def BUFFER_SIZE_def)
  define j where "j = i div 80 * 80 + 80"
  have new: "i - i mod 80 + 80 = j" "i < j" unfolding j_def
    using mult_div_mod_eq [of 80 i] by (simp_all add: algebra_simps minus_mod_eq_mult_div)
  have "edit_ok buf' i' \<and> take i' buf' = edit_text data (take i buf)"
  proof -
    consider "data = KEY_ENTER" "j < 4096" | "data = KEY_ENTER" "\<not> j < 4096" | "data = KEY_BACKSPACE" "i = 0"
      | k where "data = KEY_BACKSPACE" "i = Suc k"
      | "data \<noteq> KEY_ENTER" "data \<noteq> KEY_BACKSPACE" "data \<noteq> 0" "i < 4095"
      | "data \<noteq> KEY_ENTER" "data \<noteq> KEY_BACKSPACE" "data = 0 \<or> \<not> i < 4095" by (cases i) (auto simp: key_defs)
    then show ?thesis
    proof cases
      case 1
      let ?b = "take i buf @ replicate (j - i) 32 @ drop j buf"
      have b: "buf' = ?b[j := 0]" "i' = j"
        using key 1 new fill_spaces [of i j buf 32] len by (auto simp: edit_key_def BUFFER_SIZE_def)
      have "take j (?b[j := 0]) = take i buf @ replicate (j - i) 32" using new(2) len 1 by simp
      then show ?thesis using len 1 new(2) i by (auto simp: b edit_ok_def BUFFER_SIZE_def edit_text_def j_def)
    next
      case 2
      then show ?thesis using key new ok i by (auto simp: edit_key_def edit_text_def BUFFER_SIZE_def j_def)
    next
      case 3
      then show ?thesis using key ok by (auto simp: edit_key_def edit_text_def key_defs)
    next
      case 4
      then have b: "buf' = buf[k := 0]" "i' = k" using key by (auto simp: edit_key_def key_defs)
      then show ?thesis using 4 len
        by (auto simp: edit_ok_def BUFFER_SIZE_def edit_text_def key_defs butlast_take take_Suc_conv_app_nth)
    next
      case 5
      then have b: "buf' = buf[i := data, i + 1 := 0]" "i' = i + 1" using key by (auto simp: edit_key_def BUFFER_SIZE_def)
      then show ?thesis using 5 len i
        by (auto simp: edit_ok_def BUFFER_SIZE_def edit_text_def take_Suc_conv_app_nth)
    next
      case 6
      then show ?thesis using key ok i by (auto simp: edit_key_def edit_text_def BUFFER_SIZE_def split: if_splits)
    qed
  qed
  then show "edit_ok buf' i'" "take i' buf' = edit_text data (take i buf)" by simp_all
qed

end
