(* ===== verification/EditorProps.thy ===== *)
theory EditorProps
  imports Editor
begin

text \<open>
  The editor from its keys to the drive: typed text, saving, and what the command mode leaves behind.
\<close>

section \<open>Keys that are typed ahead\<close>

text \<open>With interrupts on a key in the buffer is taken and nothing else changes.\<close>

lemma setIf_back:
  assumes "interrupts_on s"
  shows "snd (setIf True (snd (setIf False s))) = s"
proof -
  have e: "(x AND NOT RFLAGS_IF) OR RFLAGS_IF = x" if "x AND RFLAGS_IF \<noteq> 0" for x :: QWORD
  proof -
    have b: "RFLAGS_IF = 2 ^ 9" by (simp add: RFLAGS_IF_def)
    have "bit x 9" using that unfolding b and_exp_eq_0_iff_not_bit by simp
    moreover have "bit RFLAGS_IF n \<longleftrightarrow> n = 9" for n unfolding b bit_exp_iff by auto
    ultimately show ?thesis by (intro bit_eqI) (auto simp: bit_or_iff bit_and_iff bit_not_iff)
  qed
  show ?thesis
  proof (cases "REG_RFLAGS < length (cpu s)")
    case True
    then show ?thesis using assms e [of "cpu s ! REG_RFLAGS"]
      by (simp add: setIf_def enableInterrupt_def disableInterrupt_def interrupts_on_def)
  next
    case False
    then show ?thesis by (simp add: setIf_def enableInterrupt_def disableInterrupt_def list_update_beyond)
  qed
qed

lemma read_queued:
  assumes ok: "kbd_ok (disk f)" and on: "interrupts_on (disk f)" and ks: "keys (disk f) = k # ks"
  obtains q where "readKey rs f = Some (k, f\<lparr>disk := (disk f)\<lparr>keyQueue := q\<rparr>\<rparr>)"
    "kbd_ok ((disk f)\<lparr>keyQueue := q\<rparr>)" "keys ((disk f)\<lparr>keyQueue := q\<rparr>) = ks"
proof -
  let ?s = "snd (setIf False (disk f))"
  obtain bs q where q: "deQueue (keyQueue (disk f)) [0] = (True, bs, q)" "hd bs = k" "ring_at QUEUE_COUNT 1 q"
    "map hd (contents q) = ks" using keys_Cons [OF ok ks, of 0] by metis
  have set_q: "snd (setIf True (?s\<lparr>keyQueue := q\<rparr>)) = snd (setIf True ?s)\<lparr>keyQueue := q\<rparr>"
    by (simp add: setIf_def enableInterrupt_def disableInterrupt_def)
  have "key_loop rs True ?s = Some (k, (disk f)\<lparr>keyQueue := q\<rparr>)"
    using q by (subst key_loop.simps) (simp add: getKeyTurn_def case_prod_beta set_q setIf_back [OF on])
  then have "readKey rs f = Some (k, f\<lparr>disk := (disk f)\<lparr>keyQueue := q\<rparr>\<rparr>)"
    using on by (simp add: readKey_def setIf_def)
  then show thesis using ok q by (intro that [of q]) (simp_all add: kbd_ok_def keys_def)
qed

text \<open>A state in which \<open>ks\<close> are waiting keys and which is otherwise \<open>s\<close>.\<close>

definition typed_ahead :: "('d, 'z) dsk_scheme \<Rightarrow> BYTE list \<Rightarrow> ('d, 'z) dsk_scheme \<Rightarrow> bool" where
  "typed_ahead s ks d \<longleftrightarrow> kbd_ok d \<and> interrupts_on d \<and> keys d = ks \<and> (\<exists>q. d = s\<lparr>keyQueue := q\<rparr>)"

lemma typed_ahead_next:
  assumes "typed_ahead s (k # ks) (disk f)"
  shows "\<exists>d. readKey rs f = Some (k, f\<lparr>disk := d\<rparr>) \<and> typed_ahead s ks d"
proof (rule read_queued [of f k ks rs], goal_cases)
  case (4 q)
  then show ?case using assms
    by (intro exI [of _ "(disk f)\<lparr>keyQueue := q\<rparr>"]) (auto simp: typed_ahead_def interrupts_on_def)
qed (use assms in \<open>simp_all add: typed_ahead_def\<close>)

section \<open>Typing\<close>

lemma edit_typed:
  assumes "typed_ahead s (ks @ rest) (disk f)" and "KEY_ESC \<notin> set ks" and "edit_ok buf i"
  shows "\<exists>buf' i' d c. edit_loop rs dv name buf i f = edit_loop rs dv name buf' i' (f\<lparr>disk := d, screen := c\<rparr>) \<and>
    edit_ok buf' i' \<and> take i' buf' = fold edit_text ks (take i buf) \<and> typed_ahead s rest d"
  using assms
proof (induction ks arbitrary: buf i f)
  case Nil
  then show ?case by (intro exI [of _ buf] exI [of _ i] exI [of _ "disk f"] exI [of _ "screen f"]) simp
next
  case (Cons k ks)
  from Cons.prems(1) have "typed_ahead s (k # ks @ rest) (disk f)" by simp
  then obtain d where d: "readKey rs f = Some (k, f\<lparr>disk := d\<rparr>)" "typed_ahead s (ks @ rest) d"
    using typed_ahead_next by blast
  obtain buf1 i1 c1 where e: "edit_key k (buf, i, screen f) = (buf1, i1, c1)" by (metis prod_cases3)
  note t = edit_key_text [OF Cons.prems(3) e]
  have "k \<noteq> KEY_ESC" "KEY_ESC \<notin> set ks" using Cons.prems(2) by auto
  then have step: "edit_loop rs dv name buf i f = edit_loop rs dv name buf1 i1 (f\<lparr>disk := d, screen := c1\<rparr>)"
    using d(1) e by (subst edit_loop.simps) simp
  from Cons.IH [of "f\<lparr>disk := d, screen := c1\<rparr>", OF _ \<open>KEY_ESC \<notin> set ks\<close> t(1)] d(2) t(2) show ?case
    unfolding step by simp
qed

section \<open>Saving\<close>

lemma edit_ok_strlen:
  assumes "edit_ok buf i" shows "strlen (buf_ptr buf) = Some i"
proof -
  have len: "length buf = 4096" "i < 4096" "buf ! i = 0" "\<And>j. j < i \<Longrightarrow> buf ! j \<noteq> 0"
    using assms by (auto simp: edit_ok_def BUFFER_SIZE_def in_set_conv_nth)
  have "strlen_loop (buf_ptr buf) j = Some i" if "j \<le> i" for j
    using that
  proof (induction "i - j" arbitrary: j)
    case 0
    then show ?case using len by (subst strlen_loop.simps) (simp add: buf_ptr_def)
  next
    case (Suc n)
    then show ?case using len by (subst strlen_loop.simps) (simp add: buf_ptr_def)
  qed
  from this [of 0] show ?thesis by (simp add: strlen_def)
qed

lemma screen_disk: "f\<lparr>screen := c, disk := d\<rparr> = f\<lparr>disk := d, screen := c\<rparr>"
  by (cases f) simp

lemma save_command:
  assumes "typed_ahead s [KEY_ESC, 119, KEY_ENTER] (disk f)" and "edit_ok buf i"
  shows "\<exists>d c. edit_loop rs dv name buf i f =
      map_option (\<lambda>(ok, f'). (buf, f')) (writeFile dv name buf (int i) (f\<lparr>disk := d, screen := c\<rparr>)) \<and> typed_ahead s [] d"
proof -
  obtain d1 where d1: "readKey rs f = Some (KEY_ESC, f\<lparr>disk := d1\<rparr>)" "typed_ahead s [119, KEY_ENTER] d1"
    using typed_ahead_next [OF assms(1)] by blast
  then obtain d2 where d2: "readKey rs (f\<lparr>disk := d1\<rparr>) = Some (119, f\<lparr>disk := d2\<rparr>)" "typed_ahead s [KEY_ENTER] d2"
    using typed_ahead_next [of s 119 "[KEY_ENTER]" "f\<lparr>disk := d1\<rparr>" rs] by auto
  define c where "c = viewCharacterXY 119 24 0 (screen f)"
  obtain d3 where d3: "readKey rs (f\<lparr>disk := d2, screen := c\<rparr>) = Some (KEY_ENTER, f\<lparr>disk := d3, screen := c\<rparr>)"
    "typed_ahead s [] d3"
    using typed_ahead_next [of s KEY_ENTER "[]" "f\<lparr>disk := d2, screen := c\<rparr>" rs] d2(2) by (auto simp: screen_disk)
  have w: "memcmp (buf_ptr ((replicate 80 0)[0 := 119, 1 := 0])) (lit ''w'') 1 = Some 0"
    by (simp add: memcmp_def memcmp_loop.simps buf_ptr_def lit_def)
  have "command_loop rs dv name buf 0 (replicate 80 0) (f\<lparr>disk := d1\<rparr>) =
      command_loop rs dv name buf 1 ((replicate 80 0)[0 := 119, 1 := 0]) (f\<lparr>disk := d2, screen := c\<rparr>)"
    using d2(1) by (subst command_loop.simps) (simp add: key_defs on_screen_def c_def)
  also have "\<dots> = map_option (\<lambda>(ok, f'). (True, f')) (writeFile dv name buf (int i) (f\<lparr>disk := d3, screen := c\<rparr>))"
    using d3(1) w edit_ok_strlen [OF assms(2)] by (subst command_loop.simps) (simp add: key_defs map_option_case split: option.split)
  finally have "edit_loop rs dv name buf i f =
      map_option (\<lambda>(ok, f'). (buf, f')) (writeFile dv name buf (int i) (f\<lparr>disk := d3, screen := c\<rparr>))"
    using d1(1) by (subst edit_loop.simps) (auto simp: map_option_case split: option.split)
  with d3(2) show ?thesis by blast
qed

lemma edit_session:
  assumes "typed_ahead s (ks @ [KEY_ESC, 119, KEY_ENTER]) (disk f)" and "KEY_ESC \<notin> set ks" and "edit_ok buf i"
  obtains buf' d c where "edit_ok buf' (length (fold edit_text ks (take i buf)))"
    "take (length (fold edit_text ks (take i buf))) buf' = fold edit_text ks (take i buf)" "typed_ahead s [] d"
    "edit_loop rs dv name buf i f = map_option (\<lambda>(ok, f'). (buf', f'))
       (writeFile dv name buf' (int (length (fold edit_text ks (take i buf)))) (f\<lparr>disk := d, screen := c\<rparr>))"
proof -
  obtain buf' i' d c where t: "edit_loop rs dv name buf i f = edit_loop rs dv name buf' i' (f\<lparr>disk := d, screen := c\<rparr>)"
    "edit_ok buf' i'" "take i' buf' = fold edit_text ks (take i buf)" "typed_ahead s [KEY_ESC, 119, KEY_ENTER] d"
    using edit_typed [OF assms, of rs dv name] by blast
  have i: "length (fold edit_text ks (take i buf)) = i'"
    unfolding t(3) [symmetric] using t(2) by (simp add: edit_ok_def)
  obtain d' c' where "edit_loop rs dv name buf' i' (f\<lparr>disk := d, screen := c\<rparr>) = map_option (\<lambda>(ok, f'). (buf', f'))
      (writeFile dv name buf' (int i') (f\<lparr>disk := d', screen := c'\<rparr>))" "typed_ahead s [] d'"
    using save_command [of s "f\<lparr>disk := d, screen := c\<rparr>" buf' i' rs dv name] t(2,4) by auto
  with t show thesis by (intro that [of buf' d' c']) (simp_all add: i)
qed

section \<open>To the drive\<close>

lemma disk_good_keys:
  "disk_good drv U p (s\<lparr>keyQueue := q\<rparr>) = disk_good drv U p s" "disk_good drv U p (s\<lparr>keyWaiter := w\<rparr>) = disk_good drv U p s"
  "drive_sector drv (s\<lparr>keyQueue := q\<rparr>) = drive_sector drv s" "drive_sector drv (s\<lparr>keyWaiter := w\<rparr>) = drive_sector drv s"
  "getTotalSector (s\<lparr>keyQueue := q\<rparr>) = getTotalSector s" "getTotalSector (s\<lparr>keyWaiter := w\<rparr>) = getTotalSector s"
  by (simp_all add: disk_good_def runs_def locks_rel_def mutex_ok_def lock_owner_def getRunningPid_def getTotalSector_def
      drive_sector_def [abs_def] may_block_def interrupts_on_def)

text \<open>The file system depends on its disk only through the sectors.\<close>

lemma fs_ok_disk:
  assumes ok: "fs_ok dv good sector f" and d: "good d" "sector d = sector (disk f)" "total_sectors dv d = total_sectors dv (disk f)"
  shows "fs_ok dv good sector (f\<lparr>disk := d, screen := cc\<rparr>)" "files sector (f\<lparr>disk := d, screen := cc\<rparr>) = files sector f"
proof -
  let ?f = "f\<lparr>disk := d, screen := cc\<rparr>"
  have "valid_cluster dv ?f x = valid_cluster dv f x" "cluster_data sector ?f x = cluster_data sector f x"
    "link_of sector ?f x = link_of sector f x" "boot_ok sector ?f = boot_ok sector f" for x
    by (simp_all add: d valid_cluster_def cluster_data_def link_of_def link_sector_def boot_ok_def)
  moreover from this show "files sector ?f = files sector f" by (simp add: files_def)
  moreover have "mounted_ok dv good ?f" using ok d calculation(1) [of 0] by (simp add: fs_ok_def mounted_ok_def)
  ultimately show "fs_ok dv good sector ?f" using ok by (simp add: fs_ok_def)
qed

text \<open>C40: A text typed in the editor reaches the drive. With the keys \<open>ks\<close>, ESC, \<^verbatim>\<open>w\<close>, Enter waiting, the editor
  applies the first ones to its text (Enter fills the line with blanks, Backspace removes a character, what does not fit in 4095
  characters is ignored) and writes the result to the file: afterwards the file's size is the length of the text and its
  cluster on the drive begins with it.\<close>

theorem editor_saves_to_the_drive:
  assumes "disk_system io drv rs U p" and "fs_ok (driver io rs) (disk_good drv U p) (drive_sector drv) f"
    and "cstr name t" and "files (drive_sector drv) f t = Some (z, c)" and "edit_ok buf i"
    and "kbd_ok (disk f)" and "keys (disk f) = ks @ [KEY_ESC, 119, KEY_ENTER]" and "KEY_ESC \<notin> set ks"
  shows "\<exists>buf' f'. edit_loop rs (driver io rs) name buf i f = Some (buf', f') \<and>
    fs_ok (driver io rs) (disk_good drv U p) (drive_sector drv) f' \<and>
    files (drive_sector drv) f' =
      (files (drive_sector drv) f)(t \<mapsto> (word_of_nat (length (fold edit_text ks (take i buf))), c)) \<and>
    take (length (fold edit_text ks (take i buf))) (cluster_data (drive_sector drv) f' c) = fold edit_text ks (take i buf)"
proof -
  let ?g = "disk_good drv U p" and ?s = "drive_sector drv" and ?dv = "driver io rs"
  let ?t = "fold edit_text ks (take i buf)"
  have on: "interrupts_on (disk f)" using assms(2) by (simp add: fs_ok_def mounted_ok_def disk_good_def)
  have "typed_ahead (disk f) (ks @ [KEY_ESC, 119, KEY_ENTER]) (disk f)"
    using assms(6,7) on by (auto simp: typed_ahead_def intro: exI [of _ "keyQueue (disk f)"])
  then obtain buf' d cc where e: "edit_ok buf' (length ?t)" "take (length ?t) buf' = ?t" "typed_ahead (disk f) [] d"
    "edit_loop rs ?dv name buf i f = map_option (\<lambda>(ok, f'). (buf', f')) (writeFile ?dv name buf' (int (length ?t)) (f\<lparr>disk := d, screen := cc\<rparr>))"
    by (rule edit_session [OF _ assms(8,5)])
  let ?f = "f\<lparr>disk := d, screen := cc\<rparr>"
  obtain q where d: "d = (disk f)\<lparr>keyQueue := q\<rparr>" using e(3) by (auto simp: typed_ahead_def)
  have same: "?g d = ?g (disk f)" "?s d = ?s (disk f)" "total_sectors ?dv d = total_sectors ?dv (disk f)"
    by (simp_all add: d disk_good_keys)
  have "?g d" using assms(2) same(1) by (simp add: fs_ok_def mounted_ok_def)
  note fs = fs_ok_disk [OF assms(2) this same(2,3), of cc]
  have "length buf' = 4096" using e(1) by (simp add: edit_ok_def BUFFER_SIZE_def)
  from block_device.write_step [OF disk_system.driver_is_block_device [OF assms(1)] fs(1) assms(3) _ this, of z c "int (length ?t)"]
  obtain f' where "writeFile ?dv name buf' (int (length ?t)) ?f = Some (True, f')" "fs_ok ?dv ?g ?s f'"
    "files ?s f' = (files ?s f)(t \<mapsto> (word_of_nat (length ?t), c))" "cluster_data ?s f' c = buf'"
    using assms(4) by (auto simp: fs(2))
  then show ?thesis using e(2,4) by (intro exI [of _ buf'] exI [of _ f']) simp
qed

section \<open>Leaving the command mode\<close>

text \<open>Leaving the command mode with ESC leaves its mark: the handler goes on to show the key, so that the screen has the code
  of ESC at the cursor and the cursor is one cell further, while the text is the same.\<close>

theorem escape_leaves_its_mark:
  assumes "typed_ahead s (KEY_ESC # KEY_ESC # rest) (disk f)" and "cursor_at (screen f) k" and "k + 1 < CELLS"
  shows "\<exists>d c. edit_loop rs dv name buf i f = edit_loop rs dv name buf i (f\<lparr>disk := d, screen := c\<rparr>) \<and>
    typed_ahead s rest d \<and> cursor_at c (k + 1) \<and> vmem c (nat (cell_addr k)) = KEY_ESC"
proof -
  obtain d1 where d1: "readKey rs f = Some (KEY_ESC, f\<lparr>disk := d1\<rparr>)" "typed_ahead s (KEY_ESC # rest) d1"
    using typed_ahead_next [OF assms(1)] by blast
  then obtain d2 where d2: "readKey rs (f\<lparr>disk := d1\<rparr>) = Some (KEY_ESC, f\<lparr>disk := d2\<rparr>)" "typed_ahead s rest d2"
    using typed_ahead_next [of s KEY_ESC rest "f\<lparr>disk := d1\<rparr>" rs] by auto
  let ?c = "clear_status (screen f)"
  have "currentPoint (fold (\<lambda>i. viewCharacterXY 0 24 (int i)) xs c) = currentPoint c" for xs c
    by (induction xs arbitrary: c) (simp_all add: viewCharacterXY_def BACK_SPACE_def Let_def)
  then have cur: "cursor_at ?c k" using assms(2) by (simp add: clear_status_def cursor_at_def)
  have ne: "KEY_ESC \<noteq> BACK_SPACE" by (simp add: key_defs BACK_SPACE_def)
  have "edit_loop rs dv name buf i f = edit_loop rs dv name buf i (f\<lparr>disk := d2, screen := viewCharacter KEY_ESC ?c\<rparr>)"
    using d1(1) d2(1) by (subst edit_loop.simps, subst command_loop.simps) (simp add: on_screen_def)
  then show ?thesis using d2(2) viewCharacter_low [OF ne cur assms(3)]
    by (intro exI [of _ d2] exI [of _ "viewCharacter KEY_ESC ?c"]) (simp add: nat_cell_addr)
qed

section \<open>Witnesses\<close>

text \<open>The key buffer with the keys \<open>ks\<close>.\<close>

definition key_buffer :: "BYTE list \<Rightarrow> queue" where
  "key_buffer ks = fold (\<lambda>k q. snd (enQueue q [k])) ks (initQueue (replicate QUEUE_COUNT 0) (int QUEUE_COUNT) 1)"

lemma key_buffer:
  "length ks < QUEUE_COUNT \<Longrightarrow> ring_at QUEUE_COUNT 1 (key_buffer ks) \<and> map hd (contents (key_buffer ks)) = ks"
proof (induction ks rule: rev_induct)
  case Nil
  have "ring_ok (initQueue (replicate QUEUE_COUNT 0) (int QUEUE_COUNT) 1)"
    by (rule ring_ok_init) (simp_all add: QUEUE_COUNT_def)
  then show ?case by (simp add: key_buffer_def ring_at_def contents_init) (simp add: initQueue_def)
next
  case (snoc k ks)
  let ?q = "key_buffer ks"
  have IH: "ring_at QUEUE_COUNT 1 ?q" "map hd (contents ?q) = ks" using snoc by simp_all
  have "length (map hd (contents ?q)) = length ks" by (simp only: IH(2))
  then have "length (contents ?q) < QUEUE_COUNT - 1" using snoc.prems by simp
  then obtain q' where "enQueue ?q [k] = (True, q')" "ring_at QUEUE_COUNT 1 q'" "contents q' = contents ?q @ [[k]]"
    using ring.enq_room [OF IH(1), of "[k]"] by auto
  moreover have "key_buffer (ks @ [k]) = snd (enQueue ?q [k])" by (simp add: key_buffer_def)
  ultimately show ?case using IH by (simp add: ring_at_def)
qed

lemma editor_saves_to_the_drive_witness:
  "\<exists>f buf' f'. edit_loop ideal_resume (driver ata_io ideal_resume) (lit ''d'') (replicate 4096 0) 0 f = Some (buf', f') \<and>
     files (drive_sector (\<lambda>a. a)) f' [100] = Some (2, 10) \<and>
     take 2 (cluster_data (drive_sector (\<lambda>a. a)) f' 10) = [104, 105]"
proof -
  let ?dv = "driver ata_io ideal_resume" and ?g = "disk_good (\<lambda>a. a) {0x700} (pcbAddr 0)" and ?s = "drive_sector (\<lambda>a. a)"
  have r: "?g (disk ready_fat)" "length (buffer512 ready_fat) = SECTOR_SIZE"
    "200 \<le> int (unat (total_sectors ?dv (disk ready_fat)))" "int (unat (total_sectors ?dv (disk ready_fat))) < 2 ^ 31"
    using ready_good by (simp_all add: ready_fat_def fat_const ready_total)
  obtain f where f: "fs_ok ?dv ?g ?s f" "files ?s f [100] = Some (0, 10)"
    using block_device.shared_run [OF disk_system.driver_is_block_device [OF ideal_system.disk_system_axioms] r] by metis
  let ?ks = "[104, 105, 105, KEY_BACKSPACE, KEY_ESC, 119, KEY_ENTER]"
  define d where "d = (disk f)\<lparr>keyQueue := key_buffer ?ks\<rparr>\<lparr>keyWaiter := NULL\<rparr>"
  have "?g d" "?s d = ?s (disk f)" "total_sectors ?dv d = total_sectors ?dv (disk f)"
    using f(1) by (simp_all add: d_def disk_good_keys fs_ok_def mounted_ok_def)
  note F = fs_ok_disk [OF f(1) this, of "screen f"]
  have q: "ring_at QUEUE_COUNT 1 (key_buffer ?ks)" "map hd (contents (key_buffer ?ks)) = ?ks"
    using key_buffer [of ?ks] by (simp_all add: QUEUE_COUNT_def)
  have "sched_ok (disk f)" using f(1) by (auto simp: fs_ok_def mounted_ok_def disk_good_def runs_def locks_rel_def)
  then have kb: "kbd_ok d" "keys d = [104, 105, 105, KEY_BACKSPACE] @ [KEY_ESC, 119, KEY_ENTER]" 
    using q by (simp_all add: kbd_ok_def keys_def d_def)
  have e: "edit_ok (replicate 4096 0) 0" by (simp add: edit_ok_def BUFFER_SIZE_def)
  have "cstr (lit ''d'') [100]" by (simp add: lit_def)
  note W = editor_saves_to_the_drive [OF ideal_system.disk_system_axioms F(1) this]
  let ?f = "f\<lparr>disk := d, screen := screen f\<rparr>" and ?k = "[104, 105, 105, KEY_BACKSPACE]"
  have T: "fold edit_text ?k (take 0 (replicate 4096 0)) = [104, 105]"
    by (simp add: edit_text_def key_defs BUFFER_SIZE_def)
  have P: "files ?s ?f [100] = Some (0, 10)" "kbd_ok (disk ?f)" "keys (disk ?f) = ?k @ [KEY_ESC, 119, KEY_ENTER]" "KEY_ESC \<notin> set ?k"
    using f(2) F(2) kb by simp_all (simp add: key_defs)
  obtain buf' f' where r: "edit_loop ideal_resume ?dv (lit ''d'') (replicate 4096 0) 0 ?f = Some (buf', f')"
    "files ?s f' = (files ?s ?f)([100] \<mapsto> (word_of_nat (length [104, 105 :: BYTE]), 10))"
    "take (length [104, 105 :: BYTE]) (cluster_data ?s f' 10) = [104, 105]"
    using W [OF P(1) e P(2-4)] unfolding T by blast
  show ?thesis by (intro exI [of _ ?f] exI [of _ buf'] exI [of _ f']) (use r in \<open>simp add: numeral_2_eq_2\<close>)
qed

lemma escape_leaves_its_mark_witness:
  "\<exists>f d c. edit_loop ideal_resume (driver ata_io ideal_resume) (lit ''d'') (replicate 4096 0) 0 f =
     edit_loop ideal_resume (driver ata_io ideal_resume) (lit ''d'') (replicate 4096 0) 0 (f\<lparr>disk := d, screen := c\<rparr>) \<and>
     cursor_at (screen f) 1998 \<and> cursor_at c 1999"
proof -
  define f where "f = ready_fat\<lparr>disk := ready_disk\<lparr>keyQueue := key_buffer [KEY_ESC, KEY_ESC]\<rparr>\<rparr>"
  have q: "ring_at QUEUE_COUNT 1 (key_buffer [KEY_ESC, KEY_ESC])" "map hd (contents (key_buffer [KEY_ESC, KEY_ESC])) = [KEY_ESC, KEY_ESC]"
    using key_buffer [of "[KEY_ESC, KEY_ESC]"] by (simp_all add: QUEUE_COUNT_def)
  have g: "sched_ok ready_disk" "interrupts_on ready_disk" "keyWaiter ready_disk = NULL"
    using ready_good by (auto simp: disk_good_def runs_def locks_rel_def)
      (simp_all add: ready_disk_def booted_disk_def setIf_def enableInterrupt_def)
  then have t: "typed_ahead ready_disk (KEY_ESC # KEY_ESC # []) (disk f)"
    using q by (auto simp: typed_ahead_def f_def kbd_ok_def keys_def interrupts_on_def)
  have "cursor_at (screen f) 1998" "1998 + 1 < CELLS"
    by (simp_all add: f_def ready_fat_def cursor_at_def blank_def cell_addr_def video_defs CELLS_eq)
  from escape_leaves_its_mark [OF t this, of ideal_resume "driver ata_io ideal_resume" "lit ''d''" "replicate 4096 0" 0] this(1)
  show ?thesis by (intro exI [of _ f]) (auto simp: numeral_eq_Suc)
qed

end
