(* ===== verification/Memory.thy ===== *)
theory Memory
  imports Loader
begin

text \<open>
  The memory bitmap and the memory size (\<^verbatim>\<open>mm/Memory.c\<close>): one bit a page frame, in a table of
  \<^verbatim>\<open>0x3 * 0x200 * 0x20\<close> bytes. As in the loader, RAM ends at \<open>ramEnd\<close>: a store behind it is lost, a load gives
  \<open>bus\<close>. The search for the end of RAM may not end.
\<close>

section \<open>State and operations\<close>

definition TOTAL_MEMORY :: int where "TOTAL_MEMORY = 0x60000"

record frames =
  bitmap :: "nat \<Rightarrow> nat \<Rightarrow> nat \<Rightarrow> BYTE"
  nextFrame :: int
  usingMemory :: int
  totalMemory :: int

definition set_map :: "BYTE \<Rightarrow> nat \<Rightarrow> nat \<Rightarrow> nat \<Rightarrow> frames \<Rightarrow> frames" where
  "set_map b pdt pt pm s = s\<lparr>bitmap := (bitmap s)(pdt := (bitmap s pdt)(pt := (bitmap s pdt pt)(pm := b)))\<rparr>"

definition initMemoryBitmap :: "frames \<Rightarrow> frames" where
  "initMemoryBitmap s =
     (let s1 = fold (\<lambda>pdt. fold (\<lambda>pt. fold (\<lambda>pm. set_map 0x00 pdt pt pm) [0..<0x20])
                 [0..<nat (TOTAL_MEMORY smod 0x20000 sdiv 0x100)]) [0..<nat (TOTAL_MEMORY sdiv 0x20000)] s;
          s2 = fold (\<lambda>pt. fold (\<lambda>pm. set_map 0xFF 0 pt pm) [0..<0x20]) [0..<KERNEL_SIZE div 0x100] s1
      in s2\<lparr>nextFrame := 0x400, usingMemory := 0x4000\<rparr>)"

definition totalMemSizeMessage :: cptr where "totalMemSizeMessage = lit ''total memory size: ''"
definition usingMemoryRateMessage :: cptr where "usingMemoryRateMessage = lit ''using : ''"

definition printMemoryRate :: "frames \<Rightarrow> console \<Rightarrow> console option" where
  "printMemoryRate s c = do {
     let total = TOTAL_MEMORY sdiv 0x20000;
     let usingRate = 100 * usingMemory s sdiv TOTAL_MEMORY;
     c \<leftarrow> printString totalMemSizeMessage c;
     c \<leftarrow> printInt total 10 c;
     c \<leftarrow> printString (lit ''GB'') c;
     c \<leftarrow> puts (lit []) c;
     c \<leftarrow> printString usingMemoryRateMessage c;
     c \<leftarrow> printInt usingRate 10 c;
     printString (lit ''%'') c }"

partial_function (option) size_loop :: "nat \<Rightarrow> DWORD \<Rightarrow> nat \<Rightarrow> memory \<Rightarrow> (nat \<times> memory) option" where
  "size_loop ramEnd bus a m =
     (let previousValue = read32 ramEnd bus m a;
          m1 = write32 ramEnd a 0xFFFFFFFF m
      in if read32 ramEnd bus m1 a \<noteq> 0xFFFFFFFF then Some (a, m1)
         else size_loop ramEnd bus (a + 0x100000) (write32 ramEnd a previousValue m1))"

definition memorySizeCheck :: "nat \<Rightarrow> DWORD \<Rightarrow> memory \<Rightarrow> frames \<Rightarrow> (memory \<times> frames) option" where
  "memorySizeCheck ramEnd bus m s =
     map_option (\<lambda>(a, m'). (m', s\<lparr>totalMemory := sint (word_of_nat a :: DWORD) sdiv 0x100000\<rparr>)) (size_loop ramEnd bus 0x4000000 m)"

definition getTotalMemory :: "frames \<Rightarrow> int" where
  "getTotalMemory s = totalMemory s"

section \<open>The bitmap\<close>

lemma set_row: "fold (\<lambda>pm. set_map b pdt pt pm) [0..<n] s =
   s\<lparr>bitmap := (bitmap s)(pdt := (bitmap s pdt)(pt := \<lambda>pm. if pm < n then b else bitmap s pdt pt pm))\<rparr>"
  by (induction n) (auto simp: set_map_def fun_eq_iff)

lemma set_rows: "fold (\<lambda>pt. fold (\<lambda>pm. set_map b pdt pt pm) [0..<n]) [0..<k] s =
   s\<lparr>bitmap := (bitmap s)(pdt := \<lambda>pt pm. if pt < k \<and> pm < n then b else bitmap s pdt pt pm)\<rparr>"
  by (induction k) (auto simp: set_row fun_eq_iff)

text \<open>The pages marked as used.\<close>

definition marked :: "frames \<Rightarrow> (nat \<times> nat \<times> nat \<times> nat) set" where
  "marked s = {(pdt, pt, pm, k). pdt < 3 \<and> pt < 0x200 \<and> pm < 0x20 \<and> k < 8 \<and> bit (bitmap s pdt pt pm) k}"

lemma initMemoryBitmap_eq:
  "initMemoryBitmap s = s\<lparr>bitmap := (bitmap s)(0 := \<lambda>pt pm. if pt < 0x40 \<and> pm < 0x20 then 0xFF else bitmap s 0 pt pm),
     nextFrame := 0x400, usingMemory := 0x4000\<rparr>"
proof -
  have no_rows: "fold (\<lambda>pdt t. t) [0..<n] s = s" for n by (induction n) simp_all
  show ?thesis by (simp add: initMemoryBitmap_def TOTAL_MEMORY_def KERNEL_SIZE_def set_rows smod_nonneg sdiv_nonneg
        no_rows id_def fun_eq_iff)
qed

text \<open>The bitmap after boot: the bits of the first 64 MB are set and every other bit is what it was: the loop meant to clear
  the table runs over no row at all. From the cleared memory the kernel starts with, exactly 0x4000 bits are set, the number of
  pages the counter holds.\<close>

theorem bitmap_after_boot:
  "(\<forall>pdt pt pm. bitmap (initMemoryBitmap s) pdt pt pm = (if pdt = 0 \<and> pt < 0x40 \<and> pm < 0x20 then 0xFF else bitmap s pdt pt pm)) \<and>
   (bitmap s = (\<lambda>_ _ _. 0) \<longrightarrow> int (card (marked (initMemoryBitmap s))) = usingMemory (initMemoryBitmap s))"
proof -
  have "marked (initMemoryBitmap s) = {0} \<times> {..<0x40} \<times> {..<0x20} \<times> {..<8}" if "bitmap s = (\<lambda>_ _ _. 0)"
  proof -
    have "bit (0xFF :: BYTE) k" if "k < 8" for k
    proof -
      have "(0xFF :: BYTE) = mask 8" by (simp add: mask_eq_exp_minus_1)
      moreover have "bit (mask 8 :: BYTE) k" using that by (simp only: bit_mask_iff) simp
      ultimately show ?thesis by (simp only:)
    qed
    with that show ?thesis by (auto simp: marked_def initMemoryBitmap_eq split: if_splits)
  qed
  then show ?thesis by (auto simp: initMemoryBitmap_eq card_cartesian_product)
qed

lemma bitmap_after_boot_witness:
  "int (card (marked (initMemoryBitmap \<lparr>bitmap = \<lambda>_ _ _. 0, nextFrame = 0, usingMemory = 0, totalMemory = 0\<rparr>))) = 0x4000"
  using bitmap_after_boot [of "\<lparr>bitmap = \<lambda>_ _ _. 0, nextFrame = 0, usingMemory = 0, totalMemory = 0\<rparr>"]
  by (simp add: initMemoryBitmap_eq)

section \<open>The size of memory\<close>

lemma size_loop_ram:
  assumes "bus \<noteq> 0xFFFFFFFF"
  shows "size_loop (a + 0x100000 * n) bus a m = Some (a + 0x100000 * n, m)"
  using assms
proof (induction n arbitrary: a m)
  case 0
  then show ?case by (subst size_loop.simps) (simp add: read32_def write32_def)
next
  case (Suc n)
  let ?m = "store32 a (load32 m a) (store32 a 0xFFFFFFFF m)"
  have "?m x = m x" for x using store32_outside [of x a] by (auto simp: store32_load32 not_le not_less)
  then have "?m = m" by (rule ext)
  moreover have "size_loop (a + 0x100000 + 0x100000 * n) bus (a + 0x100000) m = Some (a + 0x100000 + 0x100000 * n, m)"
    by (rule Suc.IH) (rule Suc.prems)
  ultimately show ?case by (subst size_loop.simps) (simp add: read32_def write32_def load32_store32 algebra_simps)
qed

text \<open>With RAM up to \<open>k\<close> megabytes, 64 of them or more but less than 2048, and a bus that does not read as ones behind it, the search ends,
  finds \<open>k\<close> and leaves memory as it was.\<close>

theorem memory_size_found:
  assumes "64 \<le> k" "k < 2048" and "bus \<noteq> 0xFFFFFFFF"
  shows "\<exists>s'. memorySizeCheck (0x100000 * k) bus m s = Some (m, s') \<and> getTotalMemory s' = int k"
proof -
  have "0x100000 * k = 0x4000000 + 0x100000 * (k - 64)" using assms(1) by simp
  then have "size_loop (0x100000 * k) bus 0x4000000 m = Some (0x100000 * k, m)"
    using size_loop_ram [OF assms(3), of "0x4000000" "k - 64" m] by simp
  moreover have u: "unat (word_of_nat (0x100000 * k) :: DWORD) = 0x100000 * k"
    by (rule unat_DWORD) (use assms(2) in simp)
  have "sint (word_of_nat (0x100000 * k) :: DWORD) = int (0x100000 * k)"
    using sint_DWORD [of "word_of_nat (0x100000 * k)"] assms(2) by (simp only: u) simp
  ultimately show ?thesis by (simp add: memorySizeCheck_def getTotalMemory_def sdiv_nonneg)
qed

lemma memory_size_found_witness:
  "\<exists>s'. memorySizeCheck 0x8000000 0 (\<lambda>a. 7) \<lparr>bitmap = \<lambda>_ _ _. 0, nextFrame = 0, usingMemory = 0, totalMemory = 0\<rparr> =
     Some (\<lambda>a. 7, s') \<and> getTotalMemory s' = 128"
  using memory_size_found [of 128 0 "\<lambda>a. 7" "\<lparr>bitmap = \<lambda>_ _ _. 0, nextFrame = 0, usingMemory = 0, totalMemory = 0\<rparr>"] by simp

end
