(* ===== verification/Shell.thy ===== *)
theory Shell
  imports EditorProps Memory
begin

text \<open>
  The shell (\<^verbatim>\<open>shell/Shell.c\<close>): a command line of 100 bytes, a table of commands, and the commands. It
  is where the console, the keyboard, the file system, the processes and the memory counters meet, so its state holds them all.
\<close>

section \<open>State\<close>

record ('d, 'z) shell =
  system :: "('d, 'z) dsk_scheme fat"
  editBuffer :: "BYTE list"
  frameTable :: frames

text \<open>What the shell relies on: the ports, what happens while it waits, and three addresses the linker fixes: the user program,
  its size, and the entry of the banner process.\<close>

record ('d, 'z) shell_env =
  ports :: "'d portio"
  waits :: "('d, 'z) resume"
  userProgramStart :: ptr
  userProgramSize :: QWORD
  bannerEntry :: QWORD

definition on_console :: "(console \<Rightarrow> console option) \<Rightarrow> ('d, 'z) shell \<Rightarrow> ('d, 'z) shell option" where
  "on_console g s = map_option (\<lambda>c. s\<lparr>system := (system s)\<lparr>screen := c\<rparr>\<rparr>) (g (screen (system s)))"

definition on_files :: "(('d, 'z) dsk_scheme fat \<Rightarrow> ('d, 'z) dsk_scheme fat option) \<Rightarrow> ('d, 'z) shell \<Rightarrow> ('d, 'z) shell option" where
  "on_files g s = map_option (\<lambda>f. s\<lparr>system := f\<rparr>) (g (system s))"

definition on_kernel :: "(('d, 'z) dsk_scheme \<Rightarrow> ('a \<times> ('d, 'z) dsk_scheme) option) \<Rightarrow> ('d, 'z) shell \<Rightarrow> ('a \<times> ('d, 'z) shell) option" where
  "on_kernel g s = map_option (\<lambda>(r, d). (r, s\<lparr>system := (system s)\<lparr>disk := d\<rparr>\<rparr>)) (g (disk (system s)))"

definition drive :: "('d, 'z) shell_env \<Rightarrow> ('d, 'z) dsk_scheme blockdev" where
  "drive e = driver (ports e) (waits e)"

section \<open>The command table\<close>

datatype shellFunc = Help | ClearCommand | MemUsed | Reboot | PrintDiskCapacity | MultiTasking | MountCommand
  | Formatting | Ls | Touch | Rm | EditorCommand | Ring3

record shellCommand =
  cmd_name :: string
  usage :: string
  func :: shellFunc

definition commandTable :: "shellCommand list" where
  "commandTable =
     [\<lparr>cmd_name = ''help'', usage = ''help'', func = Help\<rparr>,
      \<lparr>cmd_name = ''clear'', usage = ''clear'', func = ClearCommand\<rparr>,
      \<lparr>cmd_name = ''memUsed'', usage = ''memUsed'', func = MemUsed\<rparr>,
      \<lparr>cmd_name = ''reboot'', usage = ''reboot'', func = Reboot\<rparr>,
      \<lparr>cmd_name = ''diskCapacity'', usage = ''diskCapacity'', func = PrintDiskCapacity\<rparr>,
      \<lparr>cmd_name = ''multiTasking'', usage = ''multiTasking'', func = MultiTasking\<rparr>,
      \<lparr>cmd_name = ''mount'', usage = ''mount'', func = MountCommand\<rparr>,
      \<lparr>cmd_name = ''formatting'', usage = ''formatting'', func = Formatting\<rparr>,
      \<lparr>cmd_name = ''ls'', usage = ''ls'', func = Ls\<rparr>,
      \<lparr>cmd_name = ''touch'', usage = ''touch fileName'', func = Touch\<rparr>,
      \<lparr>cmd_name = ''rm'', usage = ''rm fileName'', func = Rm\<rparr>,
      \<lparr>cmd_name = ''editor'', usage = ''editor fileName'', func = EditorCommand\<rparr>,
      \<lparr>cmd_name = ''ring3'', usage = ''ring3 [attack]'', func = Ring3\<rparr>]"

section \<open>The banner demo\<close>

definition MULTITASKING_TIME :: QWORD where "MULTITASKING_TIME = 20"

text \<open>A quote or a backslash is its code.\<close>

definition bannerData :: "string list" where
  "bannerData =
     [''        ZZZZZZZZZZZZZZ@&$*%)@_(%&#(!)*%(@)#!ZZZZZZZZZZZZRETWZZZ8'',
      ''        ZyZZZZZZZZZZZZ ________*&$$     yDB9ZZZZZZZZZZZZZZRETFZjZ'',
      ''        Z                   Welcome To skhuOS,                 ZW'',
      ''        Z                 ZZB   EZ        ZZMHR                ZW'',
      ''        Z               ZZZZZ    j8y      ZDZZZZDF             ZW'',
      ''        Z              ZZZZEEZZZ    58     ZZZZZZZB            ZW'',
      ''        Z             ZZZZZZZ   DFVFDBDF   WZ      Z           Z j'',
      ''        Z            Z  Z       8Z        BZZZZZZZZZ           ZW'',
      ''        Z            ZjZ wZ E   yj         5ZZZZ98Z77          ZW'',
      ''        Z            Z  D    ZZZZ,D           ZZEZ77           ZW'',
      ''        Z            Zw    BGRZZZZZ           zZZZ77           ZW'',
      ''        Z             Z,   DZZZXVE    ZZ       ZZ77            ZW'',
      ''        Z              ZZ  BZB9245       ,y    DZ7             Z j'',
      ''        Z               wZZW  j  _RGB_       ,ZZy              ZW |23'',
      ''        Z                 RTV WEZ8EZZZYZEWGUF                  ZW   .'' @ [CHR 0x27] @ ''[]'',
      ''        Z                                                     Zw       */OF'',
      ''        ZZZZZZZZZZZZZZZZZZZZZZZZZZZZZZZZZZZZZZZZZZZZjZZZ///OOOO          '' @ [CHR 0x5C],
      ''        ZZZZZZZZZZZZZZZZZZZZZZZZZZZZZZZZZZZZZZZZZZZZZZZ==OOOO +*          |'',
      ''        W                                                      we    /  __|__'' @ [CHR 0x5C],
      ''      yw                                                        wy   |    |  |'',
      ''    yW@@@@@@@@@@@@@@@   D8zzzzzzzzzz95           wwwwwwwwwwwwwwww    '' @ [CHR 0x5C] @ '' _____ /'',
      ''  yjwwwwwwwwwwwwwwww    DyWWWWW yD               WWWWWWwwwwwwwwwwwwwwww'',
      '' ZZZZZZZZZZZZ @$((@)$)@)#@_ %*($,,,,UIUUI  wj   BZZZZZZ    SKHUCOMPUTER'',
      ''GRGREGBYFGL;;SDIFDK SKHU ZZANGZZANG @($*#$)@0#'' @ [CHR 0x27] @ '';[.'' @ [CHR 0x27] @ ''$2849DKFKDLS;;FDLFLDDFGJGGD'']"

function banner_loop :: "('d, 'z) resume \<Rightarrow> cptr \<Rightarrow> int \<Rightarrow> nat \<Rightarrow> ('d, 'z) dsk_scheme \<Rightarrow> console \<Rightarrow>
    (('d, 'z) dsk_scheme \<times> console) option" where
  "banner_loop rs str line i s c = do {
     ch \<leftarrow> str i;
     if ch \<noteq> 0 \<and> i \<le> 80 then do {
       (preIf, s1) \<leftarrow> sleepProcess MULTITASKING_TIME s;
       s2 \<leftarrow> rs s1;
       banner_loop rs str line (Suc i) (snd (setIf preIf s2)) (viewCharacterXY ch line (int i) c) }
     else Some (s, c) }"
  by pat_completeness auto
termination by (relation "measure (\<lambda>(rs, str, line, i, s, c). 81 - i)") auto

declare banner_loop.simps [simp del]

definition bannerProcess :: "('d, 'z) resume \<Rightarrow> QWORD \<Rightarrow> ('d, 'z) dsk_scheme \<Rightarrow> console \<Rightarrow> (('d, 'z) dsk_scheme \<times> console) option" where
  "bannerProcess rs line s c =
     (if unat line < length bannerData then do {
        (s, c) \<leftarrow> banner_loop rs (lit (bannerData ! unat line)) (int_of_qword line) 0 s c;
        s \<leftarrow> exitProcess s;
        Some (s, c) }
      else None)"

primrec banner_processes :: "QWORD \<Rightarrow> nat list \<Rightarrow> ('d, 'z) proc_scheme \<Rightarrow> ('d, 'z) proc_scheme option" where
  "banner_processes entryPoint [] s = Some s"
| "banner_processes entryPoint (i # js) s = do { (_, s1) \<leftarrow> createProcess entryPoint (of_nat i) s; banner_processes entryPoint js s1 }"

definition processTest :: "('d, 'z) shell_env \<Rightarrow> ('d, 'z) shell \<Rightarrow> ('d, 'z) shell option" where
  "processTest e s = do {
     s \<leftarrow> on_console (Some \<circ> clear) s;
     (_, s) \<leftarrow> on_kernel (map_option (Pair ()) \<circ> banner_processes (bannerEntry e) [0..<length bannerData]) s;
     on_console (Some \<circ> cursorLine 24) s }"

section \<open>The commands\<close>

primrec help_loop :: "shellCommand list \<Rightarrow> console \<Rightarrow> console option" where
  "help_loop [] c = Some c"
| "help_loop (x # xs) c = do { c \<leftarrow> puts (lit (usage x)) c; help_loop xs c }"

definition helpCommand :: "('d, 'z) shell \<Rightarrow> ('d, 'z) shell option" where
  "helpCommand s = on_console (help_loop commandTable) s"

definition clearCommand :: "('d, 'z) shell \<Rightarrow> ('d, 'z) shell option" where
  "clearCommand s = on_console (Some \<circ> clear) s"

definition memUsed :: "('d, 'z) shell \<Rightarrow> ('d, 'z) shell option" where
  "memUsed s = on_console (printMemoryRate (frameTable s)) s"

definition reboot :: "('d, 'z) shell_env \<Rightarrow> ('d, 'z) shell \<Rightarrow> ('d, 'z) shell option" where
  "reboot e s = map_option snd (on_kernel (map_option (Pair ()) \<circ> rebootSystem (ports e)) s)"

definition printDiskCapacity :: "('d, 'z) shell \<Rightarrow> ('d, 'z) shell option" where
  "printDiskCapacity s = do {
     s \<leftarrow> on_console (printString (lit ''Disk Capacity: '')) s;
     s \<leftarrow> on_console (printInt (sint (getTotalSector (disk (system s))) sdiv 2 sdiv 1024) 10) s;
     on_console (printString (lit ''MB'')) s }"

definition multiTasking :: "('d, 'z) shell_env \<Rightarrow> ('d, 'z) shell \<Rightarrow> ('d, 'z) shell option" where
  "multiTasking e s = processTest e s"

definition mountCommand :: "('d, 'z) shell_env \<Rightarrow> ('d, 'z) shell \<Rightarrow> ('d, 'z) shell option" where
  "mountCommand e s = do {
     (ok, f) \<leftarrow> mount (drive e) (system s);
     let s = s\<lparr>system := f\<rparr>;
     if ok then on_console (puts (lit ''success Mount!'')) s else Some s }"

definition formatting :: "('d, 'z) shell_env \<Rightarrow> ('d, 'z) shell \<Rightarrow> ('d, 'z) shell option" where
  "formatting e s =
     (let (ok, f) = format (drive e) (system s);
          s = s\<lparr>system := f\<rparr>
      in if ok then on_console (puts (lit ''success disk format!'')) s else Some s)"

definition ls :: "('d, 'z) shell_env \<Rightarrow> ('d, 'z) shell \<Rightarrow> ('d, 'z) shell option" where
  "ls e s = on_files (showDir (drive e)) s"

definition touch :: "('d, 'z) shell_env \<Rightarrow> cptr \<Rightarrow> ('d, 'z) shell \<Rightarrow> ('d, 'z) shell option" where
  "touch e arg s = on_files (createFile (drive e) arg) s"

definition rm :: "('d, 'z) shell_env \<Rightarrow> cptr \<Rightarrow> ('d, 'z) shell \<Rightarrow> ('d, 'z) shell option" where
  "rm e arg s = on_files (deleteFile (drive e) arg) s"

definition editor :: "('d, 'z) shell_env \<Rightarrow> cptr \<Rightarrow> ('d, 'z) shell \<Rightarrow> ('d, 'z) shell option" where
  "editor e arg s = do {
     s \<leftarrow> on_console (Some \<circ> saveVideoMemory) s;
     (buf, f) \<leftarrow> runEditor (waits e) (drive e) arg (editBuffer s) (system s);
     on_console (Some \<circ> loadVideoMemory) (s\<lparr>system := f, editBuffer := buf\<rparr>) }"

definition ring3 :: "('d, 'z) shell_env \<Rightarrow> cptr \<Rightarrow> ('d, 'z) shell \<Rightarrow> ('d, 'z) shell option" where
  "ring3 e arg s = do {
     r \<leftarrow> strcmp arg (lit ''attack'');
     let attack = (if r = 0 then 1 else 0);
     s \<leftarrow> on_console (Some \<circ> clear) s;
     (p, s) \<leftarrow> on_kernel (runUserProgram (userProgramStart e) (userProgramSize e) attack) s;
     s \<leftarrow> (if p = NULL then on_console (puts (lit ''ring3 fail!'')) s else Some s);
     on_console (Some \<circ> cursorLine 24) s }"

fun call_command :: "('d, 'z) shell_env \<Rightarrow> shellFunc \<Rightarrow> cptr \<Rightarrow> ('d, 'z) shell \<Rightarrow> ('d, 'z) shell option" where
  "call_command e Help arg s = helpCommand s"
| "call_command e ClearCommand arg s = clearCommand s"
| "call_command e MemUsed arg s = memUsed s"
| "call_command e Reboot arg s = reboot e s"
| "call_command e PrintDiskCapacity arg s = printDiskCapacity s"
| "call_command e MultiTasking arg s = multiTasking e s"
| "call_command e MountCommand arg s = mountCommand e s"
| "call_command e Formatting arg s = formatting e s"
| "call_command e Ls arg s = ls e s"
| "call_command e Touch arg s = touch e arg s"
| "call_command e Rm arg s = rm e arg s"
| "call_command e EditorCommand arg s = editor e arg s"
| "call_command e Ring3 arg s = ring3 e arg s"

section \<open>The command line\<close>

definition accountName :: cptr where "accountName = lit ''NHW''"

definition printAccountName :: "cptr \<Rightarrow> console \<Rightarrow> console option" where
  "printAccountName str c = do { c \<leftarrow> printString str c; printString (lit ''>'') c }"

text \<open>The first word, copied into \<open>name\<close>; a word that does not fit is a store out of its bounds.\<close>

function name_loop :: "cptr \<Rightarrow> nat \<Rightarrow> BYTE list \<Rightarrow> (nat \<times> BYTE list) option" where
  "name_loop cmd idx name = do {
     c \<leftarrow> cmd idx;
     if c \<noteq> 32 \<and> c \<noteq> 0 then
       if idx < length name then name_loop cmd (Suc idx) (name[idx := c]) else None
     else Some (idx, name) }"
  by pat_completeness auto
termination by (relation "measure (\<lambda>(cmd, idx, name). length name - idx)") auto

declare name_loop.simps [simp del]

primrec table_loop :: "('d, 'z) shell_env \<Rightarrow> cptr \<Rightarrow> cptr \<Rightarrow> cptr \<Rightarrow> shellCommand list \<Rightarrow> ('d, 'z) shell \<Rightarrow> ('d, 'z) shell option" where
  "table_loop e cmd name arg [] s = on_console (\<lambda>c. do { c \<leftarrow> printString cmd c; printString (lit '' is not found!'') c }) s"
| "table_loop e cmd name arg (x # xs) s = do {
     r \<leftarrow> strcmp name (lit (cmd_name x));
     if r = 0 then call_command e (func x) arg s else table_loop e cmd name arg xs s }"

definition executeCommand :: "('d, 'z) shell_env \<Rightarrow> cptr \<Rightarrow> ('d, 'z) shell \<Rightarrow> ('d, 'z) shell option" where
  "executeCommand e cmd s = do {
     (idx, name) \<leftarrow> name_loop cmd 0 (replicate 100 0);
     if idx < length name then
       if idx = 0 then Some s
       else do {
         c \<leftarrow> cmd idx;
         let arg = (if c = 32 then (\<lambda>i. cmd (idx + 1 + i)) else (\<lambda>i. cmd (idx + i)));
         table_loop e cmd (buf_ptr (name[idx := 0])) arg commandTable s }
     else None }"

text \<open>One turn of the shell's loop, which has no end: index, buffer and state.\<close>

definition shell_turn :: "('d, 'z) shell_env \<Rightarrow> nat \<times> BYTE list \<times> ('d, 'z) shell \<Rightarrow> (nat \<times> BYTE list \<times> ('d, 'z) shell) option" where
  "shell_turn e st =
     (case st of (bufferIndex, commandBuffer, s) \<Rightarrow> do {
        (data, f) \<leftarrow> readKey (waits e) (system s);
        let s = s\<lparr>system := f\<rparr>;
        if data = KEY_ENTER then do {
          s \<leftarrow> on_console (puts (lit [])) s;
          s \<leftarrow> executeCommand e (buf_ptr commandBuffer) s;
          s \<leftarrow> on_console (puts (lit [])) s;
          s \<leftarrow> on_console (printAccountName accountName) s;
          Some (0, commandBuffer[0 := 0], s) }
        else if data = KEY_BACKSPACE then
          if bufferIndex = 0 then Some (bufferIndex, commandBuffer, s)
          else map_option (\<lambda>s. (bufferIndex - 1, commandBuffer[bufferIndex - 1 := 0], s)) (on_console (Some \<circ> viewCharacter data) s)
        else if data \<noteq> 0 then
          if bufferIndex + 1 < length commandBuffer then
            map_option (\<lambda>s. (bufferIndex + 1, commandBuffer[bufferIndex := data, bufferIndex + 1 := 0], s))
              (on_console (Some \<circ> viewCharacter data) s)
          else None
        else map_option (\<lambda>s. (bufferIndex, commandBuffer, s)) (on_console (Some \<circ> viewCharacter data) s) })"

primrec shell_turns :: "('d, 'z) shell_env \<Rightarrow> nat \<Rightarrow> nat \<times> BYTE list \<times> ('d, 'z) shell \<Rightarrow> (nat \<times> BYTE list \<times> ('d, 'z) shell) option" where
  "shell_turns e 0 st = Some st"
| "shell_turns e (Suc n) st = do { st \<leftarrow> shell_turn e st; shell_turns e n st }"

text \<open>The shell up to its \<open>n\<close>-th key.\<close>

definition startShell :: "('d, 'z) shell_env \<Rightarrow> nat \<Rightarrow> ('d, 'z) shell \<Rightarrow> (nat \<times> BYTE list \<times> ('d, 'z) shell) option" where
  "startShell e n s = do {
     s \<leftarrow> on_console (printAccountName accountName) s;
     shell_turns e n (0, replicate 100 0, s) }"

end
