(* ===== verification/ShellProps.thy ===== *)
theory ShellProps
  imports Shell
begin

text \<open>
  The shell: its line editor refines a list of characters, a line of more than 99 characters leaves the buffer, and commands
  are found by their first word.
\<close>

section \<open>The line editor\<close>

definition line_ok :: "BYTE list \<Rightarrow> nat \<Rightarrow> bool" where
  "line_ok buf i \<longleftrightarrow> length buf = 100 \<and> i < 100 \<and> buf ! i = 0 \<and> 0 \<notin> set (take i buf)"

definition line_text :: "BYTE \<Rightarrow> BYTE list \<Rightarrow> BYTE list" where
  "line_text data t = (if data = KEY_BACKSPACE then butlast t else t @ [data])"

text \<open>The line is on the screen from cell \<open>k\<close> on, and the cursor behind it.\<close>

definition shows_line :: "console \<Rightarrow> nat \<Rightarrow> BYTE list \<Rightarrow> bool" where
  "shows_line c k t \<longleftrightarrow> cursor_at c (k + length t) \<and> (\<forall>j < length t. vmem c (nat (cell_addr (k + j))) = t ! j)"

definition types_text :: "BYTE list \<Rightarrow> bool" where
  "types_text ks \<longleftrightarrow> KEY_ENTER \<notin> set ks \<and> 0 \<notin> set ks"

definition on_line :: "('d, 'z) shell \<Rightarrow> ('d, 'z) dsk_scheme \<Rightarrow> console \<Rightarrow> ('d, 'z) shell" where
  "on_line s d c = s\<lparr>system := (system s)\<lparr>disk := d, screen := c\<rparr>\<rparr>"

lemma on_line_sel [simp]:
  "system (on_line s d c) = (system s)\<lparr>disk := d, screen := c\<rparr>" "on_line (on_line s d c) d' c' = on_line s d' c'"
  "editBuffer (on_line s d c) = editBuffer s" "frameTable (on_line s d c) = frameTable s"
  by (simp_all add: on_line_def)

lemma line_ok_cstr: assumes "line_ok buf i" shows "cstr (buf_ptr buf) (take i buf)"
proof -
  have len: "length buf = 100" "i < 100" "buf ! i = 0" "\<And>j. j < i \<Longrightarrow> buf ! j \<noteq> 0"
    using assms by (auto simp: line_ok_def in_set_conv_nth)
  have "cstr_at (buf_ptr buf) j (drop j (take i buf))" if "j \<le> i" for j
    using that
  proof (induction "i - j" arbitrary: j)
    case 0
    then show ?case using len by (simp add: buf_ptr_def)
  next
    case (Suc n)
    then have "drop j (take i buf) = buf ! j # drop (Suc j) (take i buf)" using len by (simp add: Cons_nth_drop_Suc [symmetric])
    then show ?case using Suc len by (simp add: buf_ptr_def)
  qed
  from this [of 0] show ?thesis by simp
qed

lemma line_key:
  assumes "line_ok buf i" and "data \<noteq> 0" and "data \<noteq> KEY_BACKSPACE" and "i + 1 < 100"
  shows "line_ok (buf[i := data, i + 1 := 0]) (i + 1)" "take (i + 1) (buf[i := data, i + 1 := 0]) = line_text data (take i buf)"
  using assms by (auto simp: line_ok_def line_text_def take_Suc_conv_app_nth)

lemma line_back:
  assumes "line_ok buf (Suc i)"
  shows "line_ok (buf[i := 0]) i" "take i (buf[i := 0]) = line_text KEY_BACKSPACE (take (Suc i) buf)"
  using assms by (auto simp: line_ok_def line_text_def take_Suc_conv_app_nth)

lemma shows_key:
  assumes "shows_line c k t" and "data \<noteq> KEY_BACKSPACE" and "k + length t + 1 < CELLS"
  shows "shows_line (viewCharacter data c) k (t @ [data])"
proof -
  have ne: "data \<noteq> BACK_SPACE" using assms(2) by (simp add: key_defs BACK_SPACE_def)
  have "cursor_at c (k + length t)" using assms(1) by (simp add: shows_line_def)
  note v = viewCharacter_low [OF ne this assms(3)]
  show ?thesis using assms(1) v(2) by (auto simp: shows_line_def v(1) nat_cell_addr nth_append less_Suc_eq)
qed

lemma shows_back:
  assumes "shows_line c k t" and "t \<noteq> []"
  shows "shows_line (viewCharacter KEY_BACKSPACE c) k (butlast t)"
proof -
  obtain u x where t: "t = u @ [x]" using assms(2) by (metis rev_exhaust)
  have "BACK_SPACE = KEY_BACKSPACE" by (simp add: key_defs BACK_SPACE_def)
  then show ?thesis using assms(1)
    by (auto simp: shows_line_def viewCharacter_def t nth_append cursor_at_def cell_addr_def video_defs nat_add_distrib)
qed

lemma shell_key:
  assumes ahead: "typed_ahead s0 (data # rest) (disk (system s))" and line: "line_ok buf i"
    and data: "data \<noteq> 0" "data \<noteq> KEY_ENTER" and room: "i + 1 < 100"
  shows "\<exists>buf' i' d c. shell_turn e (i, buf, s) = Some (i', buf', on_line s d c) \<and> line_ok buf' i' \<and> i' \<le> i + 1 \<and>
    take i' buf' = line_text data (take i buf) \<and> typed_ahead s0 rest d \<and>
    (\<forall>k. shows_line (screen (system s)) k (take i buf) \<and> k + 100 \<le> CELLS \<longrightarrow> shows_line c k (take i' buf'))"
proof -
  obtain d where d: "readKey (waits e) (system s) = Some (data, (system s)\<lparr>disk := d\<rparr>)" "typed_ahead s0 rest d"
    using typed_ahead_next [OF ahead] by blast
  let ?c = "screen (system s)"
  have keep: "s\<lparr>system := (system s)\<lparr>disk := d\<rparr>\<rparr> = on_line s d ?c" by (simp add: on_line_def)
  have len: "length buf = 100" "length (take i buf) = i" using line by (simp_all add: line_ok_def)
  consider "data \<noteq> KEY_BACKSPACE" | "data = KEY_BACKSPACE" "i = 0" | j where "data = KEY_BACKSPACE" "i = Suc j" by (cases i) auto
  then show ?thesis
  proof cases
    case 1
    have "shell_turn e (i, buf, s) = Some (i + 1, buf[i := data, i + 1 := 0], on_line s d (viewCharacter data ?c))"
      using d(1) 1 data room len by (simp add: shell_turn_def on_console_def on_line_def)
    moreover have "shows_line (viewCharacter data ?c) k (line_text data (take i buf))"
      if "shows_line ?c k (take i buf)" "k + 100 \<le> CELLS" for k
      using shows_key [OF that(1) 1] that(2) room len 1 by (simp add: line_text_def)
    ultimately show ?thesis using line_key [OF line data(1) 1 room] d(2)
      by (intro exI [of _ "buf[i := data, i + 1 := 0]"] exI [of _ "i + 1"] exI [of _ d] exI [of _ "viewCharacter data ?c"]) simp
  next
    case 2
    have "shell_turn e (i, buf, s) = Some (i, buf, on_line s d ?c)"
      using d(1) 2 by (simp add: shell_turn_def keep key_defs)
    then show ?thesis using 2 line d(2)
      by (intro exI [of _ buf] exI [of _ 0] exI [of _ d] exI [of _ ?c]) (simp add: line_text_def)
  next
    case 3
    have "shell_turn e (i, buf, s) = Some (j, buf[j := 0], on_line s d (viewCharacter data ?c))"
      using d(1) 3 by (simp add: shell_turn_def on_console_def on_line_def key_defs)
    moreover have "shows_line (viewCharacter data ?c) k (line_text data (take i buf))" if "shows_line ?c k (take i buf)" for k
    proof -
      have "take i buf \<noteq> []" using 3 len by auto
      from shows_back [OF that this] show ?thesis using 3(1) by (simp add: line_text_def)
    qed
    ultimately show ?thesis using line_back [of buf j] line 3 d(2)
      by (intro exI [of _ "buf[j := 0]"] exI [of _ j] exI [of _ d] exI [of _ "viewCharacter data ?c"]) simp
  qed
qed

text \<open>Any number of keys, as long as the line stays within 99 characters.\<close>

lemma shell_keys:
  assumes "typed_ahead s0 (ks @ rest) (disk (system s))" and "line_ok buf i" and "types_text ks" and "i + length ks < 100"
  shows "\<exists>buf' i' d c. (\<forall>n. shell_turns e (length ks + n) (i, buf, s) = shell_turns e n (i', buf', on_line s d c)) \<and>
    line_ok buf' i' \<and> take i' buf' = fold line_text ks (take i buf) \<and> typed_ahead s0 rest d \<and>
    (\<forall>k. shows_line (screen (system s)) k (take i buf) \<and> k + 100 \<le> CELLS \<longrightarrow> shows_line c k (take i' buf'))"
  using assms
proof (induction ks arbitrary: buf i s)
  case Nil
  have e: "on_line s (disk (system s)) (screen (system s)) = s" by (simp add: on_line_def)
  show ?case using Nil
    by (intro exI [of _ buf] exI [of _ i] exI [of _ "disk (system s)"] exI [of _ "screen (system s)"]) (simp add: e)
next
  case (Cons x ks)
  have x: "x \<noteq> 0" "x \<noteq> KEY_ENTER" "i + 1 < 100" and ks: "types_text ks" using Cons.prems(3,4) by (auto simp: types_text_def)
  have "typed_ahead s0 (x # (ks @ rest)) (disk (system s))" using Cons.prems(1) by simp
  from shell_key [OF this Cons.prems(2) x, of e]
  obtain buf1 i1 d1 c1 where t: "shell_turn e (i, buf, s) = Some (i1, buf1, on_line s d1 c1)" "line_ok buf1 i1" "i1 \<le> i + 1"
    "take i1 buf1 = line_text x (take i buf)" "typed_ahead s0 (ks @ rest) d1"
    "\<And>k. shows_line (screen (system s)) k (take i buf) \<and> k + 100 \<le> CELLS \<Longrightarrow> shows_line c1 k (take i1 buf1)" by blast
  have "typed_ahead s0 (ks @ rest) (disk (system (on_line s d1 c1)))" "i1 + length ks < 100" using t(3,5) Cons.prems(4) by simp_all
  from Cons.IH [OF this(1) t(2) ks this(2)] t(4,6) show ?case by (simp add: t(1)) (metis (mono_tags, lifting))
qed

text \<open>Typing refines a list of characters: as long as the line stays within 99 characters, characters are added at its end
  and backspace removes the last one, never the prompt. After every key the buffer holds the line as a string, and, where the
  screen has room for it, the line stands on the screen from the prompt on with the cursor behind it.\<close>

theorem typing_refines_a_line:
  assumes "typed_ahead s0 (ks @ rest) (disk (system s))" and "line_ok buf i" and "types_text ks" and "i + length ks < 100"
    and "shows_line (screen (system s)) k (take i buf)" and "k + 100 \<le> CELLS"
  shows "\<exists>buf' i' s'. shell_turns e (length ks) (i, buf, s) = Some (i', buf', s') \<and> line_ok buf' i' \<and>
    cstr (buf_ptr buf') (fold line_text ks (take i buf)) \<and> shows_line (screen (system s')) k (fold line_text ks (take i buf)) \<and>
    typed_ahead s0 rest (disk (system s'))"
proof -
  obtain buf' i' d c where t: "\<And>n. shell_turns e (length ks + n) (i, buf, s) = shell_turns e n (i', buf', on_line s d c)"
    "line_ok buf' i'" "take i' buf' = fold line_text ks (take i buf)" "typed_ahead s0 rest d"
    "shows_line c k (take i' buf')" using shell_keys [OF assms(1-4), of e] assms(5,6) by blast
  from t(1) [of 0] t(2-5) line_ok_cstr [OF t(2)] show ?thesis
    by (intro exI [of _ buf'] exI [of _ i'] exI [of _ "on_line s d c"]) simp
qed

text \<open>The buffer has no bound: the key behind 99 characters is stored at index 99 and its end mark behind the buffer, and the same
  key is accepted in every shorter line.\<close>

theorem long_line_leaves_the_buffer:
  assumes "typed_ahead s0 (data # rest) (disk (system s))" and "line_ok buf i"
    and "data \<noteq> 0" "data \<noteq> KEY_ENTER" "data \<noteq> KEY_BACKSPACE"
  shows "shell_turn e (i, buf, s) = None \<longleftrightarrow> i = 99"
proof (cases "i = 99")
  case True
  obtain d where "readKey (waits e) (system s) = Some (data, (system s)\<lparr>disk := d\<rparr>)"
    using typed_ahead_next [OF assms(1)] by blast
  moreover have "length buf = 100" using assms(2) by (simp add: line_ok_def)
  ultimately show ?thesis using True assms(3-5) by (simp add: shell_turn_def)
next
  case False
  then have "i + 1 < 100" using assms(2) by (simp add: line_ok_def)
  from shell_key [OF assms(1-4) this, of e] False show ?thesis by auto
qed

section \<open>Commands\<close>

lemma cstr_at_byte: "cstr_at p i t \<Longrightarrow> j < length t \<Longrightarrow> p (i + j) = Some (t ! j)"
proof (induction t arbitrary: i j)
  case (Cons x t)
  from Cons.IH [of "Suc i"] Cons.prems show ?case by (cases j) auto
qed simp

lemma cstr_at_end: "cstr_at p i t \<Longrightarrow> p (i + length t) = Some 0"
proof (induction t arbitrary: i)
  case (Cons x t)
  from Cons.IH [of "Suc i"] Cons.prems show ?case by simp
qed simp

lemma cstr_at_shift: "cstr_at (\<lambda>i. p (n + i)) i t = cstr_at p (n + i) t"
  by (induction t arbitrary: i) simp_all

lemma cstr_at_drop: "cstr_at p i t \<Longrightarrow> n \<le> length t \<Longrightarrow> cstr_at p (i + n) (drop n t)"
proof (induction n arbitrary: i t)
  case (Suc n)
  then obtain x u where "t = x # u" by (cases t) auto
  with Suc.IH [of "Suc i" u] Suc.prems show ?case by simp
qed simp

lemma name_loop_word:
  assumes cmd: "cstr cmd t" and fits: "length t < 100" and i: "i \<le> length w" and w: "w = takeWhile (\<lambda>b. b \<noteq> 32) t"
  shows "name_loop cmd i (take i w @ replicate (100 - i) 0) = Some (length w, w @ replicate (100 - length w) 0)"
  using i
proof (induction "length w - i" arbitrary: i)
  case 0
  then have i: "i = length w" by simp
  have "\<exists>c. cmd i = Some c \<and> (c = 32 \<or> c = 0)"
  proof (cases "length w < length t")
    case True
    then have "t ! length w = 32" using nth_length_takeWhile [of "\<lambda>b. b \<noteq> 32" t] w by simp
    then show ?thesis using cstr_at_byte [OF cmd True] i by simp
  next
    case False
    then have "length w = length t" using length_takeWhile_le [of "\<lambda>b. b \<noteq> 32" t] w by simp
    then show ?thesis using cstr_at_end [OF cmd] i by simp
  qed
  then show ?case using i by (subst name_loop.simps) auto
next
  case (Suc n)
  then have i: "i < length w" by simp
  have lt: "length w \<le> length t" using length_takeWhile_le [of "\<lambda>b. b \<noteq> 32" t] w by simp
  have wi: "w ! i = t ! i" using takeWhile_nth [of i "\<lambda>b. b \<noteq> 32" t] i w by simp
  have c: "cmd i = Some (w ! i)" using cstr_at_byte [OF cmd, of i] i lt wi by simp
  have "w ! i \<in> set w" using i by simp
  then have "w ! i \<noteq> 32" unfolding w using set_takeWhileD by fast
  have "t ! i \<in> set t" using i lt by (intro nth_mem) simp
  then have "w ! i \<noteq> 0" using cstr_at_no_NUL [OF cmd] wi by force
  have step: "name_loop cmd i nm = name_loop cmd (Suc i) (nm[i := w ! i])" if "length nm = 100" for nm
    using that i lt fits \<open>w ! i \<noteq> 32\<close> \<open>w ! i \<noteq> 0\<close> by (simp add: name_loop.simps [of cmd i nm] c)
  have "(take i w @ replicate (100 - i) 0)[i := w ! i] = take (Suc i) w @ replicate (100 - Suc i) 0"
  proof -
    obtain m where m: "100 - i = Suc m" "m = 100 - Suc i" using i lt fits by (intro that [of "100 - Suc i"]) simp_all
    show ?thesis using i m by (simp add: list_update_append take_Suc_conv_app_nth)
  qed
  moreover have "name_loop cmd (Suc i) (take (Suc i) w @ replicate (100 - Suc i) 0) = Some (length w, w @ replicate (100 - length w) 0)"
    by (rule Suc.hyps(1)) (use Suc.hyps(2) i in simp_all)
  moreover have "length (take i w @ replicate (100 - i) (0 :: BYTE)) = 100" using i lt fits by simp
  ultimately show ?case by (simp only: step)
qed

lemma strcmp_name:
  assumes "cstr p w" and "\<forall>c \<in> set cs. of_char c \<noteq> (0 :: BYTE)"
  shows "\<exists>r. strcmp p (lit cs) = Some r \<and> (r = 0 \<longleftrightarrow> map of_char cs = w)"
  using strcmp_cstr [OF assms(1) cstr_lit [OF assms(2)]] strcmp_eq_0_iff [OF assms(1) cstr_lit [OF assms(2)]] by auto

lemma table_search:
  assumes "cstr name w" and "\<And>x. x \<in> set xs \<Longrightarrow> \<forall>c \<in> set (cmd_name x). of_char c \<noteq> (0 :: BYTE)"
  shows "table_loop e cmd name arg xs s = (case find (\<lambda>x. map of_char (cmd_name x) = w) xs of Some x \<Rightarrow> call_command e (func x) arg s
    | None \<Rightarrow> on_console (\<lambda>c. do { c \<leftarrow> printString cmd c; printString (lit '' is not found!'') c }) s)"
  using assms(2)
proof (induction xs)
  case (Cons x xs)
  obtain r where "strcmp name (lit (cmd_name x)) = Some r" "r = 0 \<longleftrightarrow> map of_char (cmd_name x) = w"
    using strcmp_name [OF assms(1)] Cons.prems by (metis list.set_intros(1))
  moreover note Cons.IH [OF Cons.prems [OF list.set_intros(2)]]
  ultimately show ?case by simp
qed simp

lemma names_no_NUL: "x \<in> set commandTable \<Longrightarrow> \<forall>c \<in> set (cmd_name x). of_char c \<noteq> (0 :: BYTE)"
  by (auto simp: commandTable_def)

lemma first_word:
  fixes t :: "BYTE list"
  defines "w \<equiv> takeWhile (\<lambda>b. b \<noteq> 32) t"
  assumes "cstr cmd t" and "length t < 100"
  shows "\<exists>arg. cstr arg (drop (length w + 1) t) \<and> executeCommand e cmd s =
    (if w = [] then Some s
     else case find (\<lambda>x. map of_char (cmd_name x) = w) commandTable of
       Some x \<Rightarrow> call_command e (func x) arg s
     | None \<Rightarrow> on_console (\<lambda>c. do { c \<leftarrow> printString cmd c; printString (lit '' is not found!'') c }) s)"
proof -
  let ?n = "length w"
  have le: "?n \<le> length t" unfolding w_def by (rule length_takeWhile_le)
  let ?arg = "if ?n < length t then (\<lambda>i. cmd (?n + 1 + i)) else (\<lambda>i. cmd (?n + i))"
  have arg: "cstr ?arg (drop (?n + 1) t)"
  proof (cases "?n < length t")
    case True
    then show ?thesis using cstr_at_drop [OF assms(2), of "?n + 1"] by (simp only: if_True cstr_at_shift) simp
  next
    case False
    then have "?n = length t" using le by simp
    then show ?thesis using cstr_at_end [OF assms(2)] by simp
  qed
  have loop: "name_loop cmd 0 (replicate 100 0) = Some (?n, w @ replicate (100 - ?n) 0)"
    using name_loop_word [OF assms(2,3), of 0 w] by (simp add: w_def)
  have pad: "(w @ replicate (100 - ?n) 0)[?n := 0] = w @ replicate (100 - ?n) 0"
    by (cases "100 - ?n") (simp_all add: list_update_append list_update_beyond)
  have "0 \<notin> set w" using cstr_at_no_NUL [OF assms(2)] set_takeWhileD by (fastforce simp: w_def)
  then have line: "line_ok (w @ replicate (100 - ?n) 0) ?n" using le assms(3) by (simp add: line_ok_def nth_append)
  have name: "cstr (buf_ptr (w @ replicate (100 - ?n) 0)) w" using line_ok_cstr [OF line] by simp
  have c: "cmd ?n = Some (if ?n < length t then 32 else 0)"
  proof (cases "?n < length t")
    case True
    then have "t ! ?n = 32" using nth_length_takeWhile [of "\<lambda>b. b \<noteq> 32" t] by (simp add: w_def)
    then show ?thesis using cstr_at_byte [OF assms(2) True] True by simp
  next
    case False
    then have "?n = length t" using le by simp
    then show ?thesis using cstr_at_end [OF assms(2)] by simp
  qed
  have cnd: "(if ?n < length t then 32 else 0) = (32 :: BYTE) \<longleftrightarrow> ?n < length t" by simp
  have "?n < 100" using le assms(3) by simp
  then have "executeCommand e cmd s = (if w = [] then Some s else table_loop e cmd (buf_ptr (w @ replicate (100 - ?n) 0)) ?arg commandTable s)"
    by (simp add: executeCommand_def loop c pad)
  then show ?thesis using arg by (intro exI [of _ ?arg]) (simp only: table_search [OF name names_no_NUL])
qed

text \<open>A command line of at most 99 characters runs the command whose name is its first word, with what follows the first space as
  argument; a line that starts with a space or is empty does nothing, and any other line is printed and reported.\<close>

theorem command_of_first_word:
  fixes t :: "BYTE list"
  defines "w \<equiv> takeWhile (\<lambda>b. b \<noteq> 32) t"
  assumes "cstr cmd t" and "length t < 100"
  shows "\<exists>arg. cstr arg (drop (length w + 1) t) \<and> executeCommand e cmd s =
    (if w = [] then Some s
     else case find (\<lambda>x. map of_char (cmd_name x) = w) commandTable of
       Some x \<Rightarrow> call_command e (func x) arg s
     | None \<Rightarrow> on_console (\<lambda>c. do { c \<leftarrow> printString cmd c; printString (lit '' is not found!'') c }) s)"
  unfolding w_def by (rule first_word [OF assms(2,3)])

end
