(* ===== verification/ShellSystem.thy ===== *)
theory ShellSystem
  imports ShellProps Handlers
begin

text \<open>
  What commands do to the rest of the system: a file created from the keyboard, and the processes of the banner demo.
\<close>

section \<open>From the keyboard to the drive\<close>

lemma on_console_some: "\<exists>c'. g (screen (system s)) = Some c' \<Longrightarrow> \<exists>c'. on_console g s = Some (on_line s (disk (system s)) c')"
  by (auto simp: on_console_def on_line_def)

lemma shell_enter:
  assumes ahead: "typed_ahead s0 (KEY_ENTER # rest) (disk (system s))"
  shows "\<exists>d c. typed_ahead s0 rest d \<and> (\<forall>s'. executeCommand e (buf_ptr buf) (on_line s d c) = Some s' \<longrightarrow>
    (\<exists>c'. shell_turn e (i, buf, s) = Some (0, buf[0 := 0], on_line s' (disk (system s')) c')))"
proof -
  obtain d where d: "readKey (waits e) (system s) = Some (KEY_ENTER, (system s)\<lparr>disk := d\<rparr>)" "typed_ahead s0 rest d"
    using typed_ahead_next [OF ahead] by blast
  obtain c where c: "puts (lit []) (screen (system s)) = Some c" using print_lit(2) by metis
  have e1: "on_console (puts (lit [])) (s\<lparr>system := (system s)\<lparr>disk := d\<rparr>\<rparr>) = Some (on_line s d c)"
    using c by (simp add: on_console_def on_line_def)
  have "\<exists>c'. shell_turn e (i, buf, s) = Some (0, buf[0 := 0], on_line s' (disk (system s')) c')"
    if x: "executeCommand e (buf_ptr buf) (on_line s d c) = Some s'" for s'
  proof -
    obtain c1 where c1: "on_console (puts (lit [])) s' = Some (on_line s' (disk (system s')) c1)"
      using on_console_some [of "puts (lit [])", OF print_lit(2)] by blast
    have "\<exists>c2. printAccountName accountName c1 = Some c2"
      using print_lit(1) [of "''NHW''" c1] print_lit(1) [of "''>''"] by (auto simp: printAccountName_def accountName_def)
    then obtain c2 where "printAccountName accountName c1 = Some c2" by blast
    then have c2: "on_console (printAccountName accountName) (on_line s' (disk (system s')) c1) = Some (on_line s' (disk (system s')) c2)"
      by (simp add: on_console_def on_line_def)
    show ?thesis using d(1) e1 x c1 c2 by (intro exI [of _ c2]) (simp add: shell_turn_def)
  qed
  with d(2) show ?thesis by blast
qed

lemma plain_line: "KEY_BACKSPACE \<notin> set ks \<Longrightarrow> fold line_text ks u = u @ ks"
  by (induction ks arbitrary: u) (auto simp: line_text_def)

lemma typed_ahead_disk:
  assumes "typed_ahead s0 ks d0" and "typed_ahead s0 ks' d"
  shows "\<exists>q. d = d0\<lparr>keyQueue := q\<rparr>"
  using assms by (auto simp: typed_ahead_def)

text \<open>The file system does not depend on the keys that are waiting, or on the screen.\<close>

lemma fat_on_keys:
  assumes ok: "fs_ok (driver io rs) (disk_good drv U p) (drive_sector drv) f"
    and f': "f' = f\<lparr>disk := (disk f)\<lparr>keyQueue := q\<rparr>, screen := c\<rparr>"
  shows "fs_ok (driver io rs) (disk_good drv U p) (drive_sector drv) f'" "files (drive_sector drv) f' = files (drive_sector drv) f"
    "file_count (drive_sector drv) f' = file_count (drive_sector drv) f" "first_free (drive_sector drv) f' = first_free (drive_sector drv) f"
    "valid_cluster (driver io rs) f' = valid_cluster (driver io rs) f" "bestIdx f' = bestIdx f" "fatInfor f' = fatInfor f"
proof -
  have "disk_good drv U p (disk f)" using ok by (simp add: fs_ok_def mounted_ok_def)
  then have "disk_good drv U p ((disk f)\<lparr>keyQueue := q\<rparr>)" "drive_sector drv ((disk f)\<lparr>keyQueue := q\<rparr>) = drive_sector drv (disk f)"
    "total_sectors (driver io rs) ((disk f)\<lparr>keyQueue := q\<rparr>) = total_sectors (driver io rs) (disk f)"
    by (simp_all add: disk_good_keys)
  from fs_ok_disk [OF ok this] show "fs_ok (driver io rs) (disk_good drv U p) (drive_sector drv) f'"
    "files (drive_sector drv) f' = files (drive_sector drv) f" by (simp_all add: f')
  have "link_of (drive_sector drv) f' = link_of (drive_sector drv) f" "cluster_data (drive_sector drv) f' = cluster_data (drive_sector drv) f"
    by (simp_all add: f' fun_eq_iff link_of_def link_sector_def cluster_data_def disk_good_keys)
  then show "file_count (drive_sector drv) f' = file_count (drive_sector drv) f"
    "first_free (drive_sector drv) f' = first_free (drive_sector drv) f"
    by (simp_all add: file_count_def first_free_def fun_eq_iff)
  show "valid_cluster (driver io rs) f' = valid_cluster (driver io rs) f"
    by (simp add: f' fun_eq_iff valid_cluster_def disk_good_keys)
qed (simp_all add: f')

definition touch_word :: "BYTE list" where "touch_word = map of_char ''touch ''"

lemma touch_line:
  "find (\<lambda>x. map of_char (cmd_name x) = takeWhile (\<lambda>b. b \<noteq> 32) (touch_word @ t)) commandTable =
     Some \<lparr>cmd_name = ''touch'', usage = ''touch fileName'', func = Touch\<rparr>"
  "takeWhile (\<lambda>b. b \<noteq> 32) (touch_word @ t) \<noteq> []" "drop (length (takeWhile (\<lambda>b. b \<noteq> 32) (touch_word @ t)) + 1) (touch_word @ t) = t"
  by (simp_all add: touch_word_def commandTable_def)

text \<open>A typed line and enter: one turn for each key, and the last one calls the command with the line in the buffer.\<close>

lemma typed_line:
  assumes ahead: "typed_ahead s0 (ks @ KEY_ENTER # rest) (disk (system s))" and line: "line_ok buf 0"
    and t: "types_text ks" "KEY_BACKSPACE \<notin> set ks" "length ks < 100"
  obtains buf' d c where "typed_ahead s0 rest d" "cstr (buf_ptr buf') ks" "line_ok (buf'[0 := 0]) 0"
    "\<And>s'. executeCommand e (buf_ptr buf') (on_line s d c) = Some s' \<Longrightarrow>
      \<exists>c'. shell_turns e (length ks + 1) (0, buf, s) = Some (0, buf'[0 := 0], on_line s' (disk (system s')) c')"
proof -
  obtain buf1 i1 d1 c1 where k1: "\<And>n. shell_turns e (length ks + n) (0, buf, s) = shell_turns e n (i1, buf1, on_line s d1 c1)"
    "line_ok buf1 i1" "take i1 buf1 = ks" "typed_ahead s0 (KEY_ENTER # rest) d1"
    using shell_keys [OF ahead line t(1), of e] t(3) plain_line [OF t(2)] by auto
  have "typed_ahead s0 (KEY_ENTER # rest) (disk (system (on_line s d1 c1)))" using k1(4) by simp
  from shell_enter [OF this, of e buf1 i1]
  obtain d c where k2: "typed_ahead s0 rest d"
    "\<And>s'. executeCommand e (buf_ptr buf1) (on_line s d c) = Some s' \<Longrightarrow>
      \<exists>c'. shell_turn e (i1, buf1, on_line s d1 c1) = Some (0, buf1[0 := 0], on_line s' (disk (system s')) c')" by auto
  have "\<exists>c'. shell_turns e (length ks + 1) (0, buf, s) = Some (0, buf1[0 := 0], on_line s' (disk (system s')) c')"
    if "executeCommand e (buf_ptr buf1) (on_line s d c) = Some s'" for s'
    using k2(2) [OF that] k1(1) [of 1] by auto
  moreover have "cstr (buf_ptr buf1) ks" using line_ok_cstr [OF k1(2)] k1(3) by simp
  moreover have "line_ok (buf1[0 := 0]) 0" using k1(2) by (simp add: line_ok_def)
  ultimately show thesis using k2(1) that by blast
qed

text \<open>The command \<^verbatim>\<open>touch\<close>, however it was entered.\<close>

lemma touch_runs:
  assumes sys: "disk_system io drv rs U p" and e: "ports e = io" "waits e = rs"
    and ok: "fs_ok (driver io rs) (disk_good drv U p) (drive_sector drv) (system s)"
    and cmd: "cstr cmd (touch_word @ t)" and t: "length t \<le> 23"
    and new: "files (drive_sector drv) (system s) t = None" and room: "file_count (drive_sector drv) (system s) < 128"
    and b: "bestIdx (system s) = int b" and k: "first_free (drive_sector drv) (system s) b = Some k"
    and q: "b div 128 < unat (clusterLinkSectorCount (fatInfor (system s)))" and v: "valid_cluster (driver io rs) (system s) (b + k)"
  shows "\<exists>f. executeCommand e cmd s = Some (s\<lparr>system := f\<rparr>) \<and>
    fs_ok (driver io rs) (disk_good drv U p) (drive_sector drv) f \<and>
    files (drive_sector drv) f = (files (drive_sector drv) (system s))(t \<mapsto> (0, b + k))"
proof -
  have "length (touch_word @ t) < 100" using t by (simp add: touch_word_def)
  from first_word [OF cmd this, of e s]
  obtain arg where arg: "cstr arg t" "executeCommand e cmd s = touch e arg s"
    unfolding touch_line by (auto simp: touch_line(2))
  have t23: "take 23 t = t" using t by simp
  obtain f where f: "createFile (driver io rs) arg (system s) = Some f" "fs_ok (driver io rs) (disk_good drv U p) (drive_sector drv) f"
    "files (drive_sector drv) f = (files (drive_sector drv) (system s))(take 23 t \<mapsto> (0, b + k))"
    using block_device.create_step [OF disk_system.driver_is_block_device [OF sys] ok arg(1) _ room b k q v] new t23 by metis
  have "executeCommand e cmd s = Some (s\<lparr>system := f\<rparr>)"
    unfolding arg(2) using f(1) e by (simp only: touch_def on_files_def drive_def) simp
  with f(2,3) t23 show ?thesis by auto
qed

text \<open>From the keyboard to the drive: with the file system mounted and room on it, typing \<^verbatim>\<open>touch\<close>, a space, a new
  name of at most 23 characters and enter takes the shell through as many turns as keys, and then the map of files on the drive has
  the name with size zero at the first free cluster, the invariant of the file system holds and the line is empty again.\<close>

theorem touch_from_the_keyboard:
  assumes sys: "disk_system io drv rs U p" and e: "ports e = io" "waits e = rs"
    and ok: "fs_ok (driver io rs) (disk_good drv U p) (drive_sector drv) (system s)"
    and ahead: "typed_ahead s0 (touch_word @ t @ KEY_ENTER # rest) (disk (system s))" and line: "line_ok buf 0"
    and t: "types_text t" "KEY_BACKSPACE \<notin> set t" "length t \<le> 23"
    and new: "files (drive_sector drv) (system s) t = None" and room: "file_count (drive_sector drv) (system s) < 128"
    and b: "bestIdx (system s) = int b" and k: "first_free (drive_sector drv) (system s) b = Some k"
    and q: "b div 128 < unat (clusterLinkSectorCount (fatInfor (system s)))" and v: "valid_cluster (driver io rs) (system s) (b + k)"
  shows "\<exists>buf' s'. shell_turns e (length touch_word + length t + 1) (0, buf, s) = Some (0, buf', s') \<and> line_ok buf' 0 \<and>
    fs_ok (driver io rs) (disk_good drv U p) (drive_sector drv) (system s') \<and>
    files (drive_sector drv) (system s') = (files (drive_sector drv) (system s))(t \<mapsto> (0, b + k))"
proof -
  let ?dv = "driver io rs" and ?g = "disk_good drv U p" and ?s = "drive_sector drv" and ?ks = "touch_word @ t"
  have ks: "typed_ahead s0 (?ks @ KEY_ENTER # rest) (disk (system s))" "types_text ?ks" "KEY_BACKSPACE \<notin> set ?ks" "length ?ks < 100"
    using t ahead by (simp_all add: types_text_def touch_word_def key_defs)
  obtain buf1 d2 c2 where k2: "typed_ahead s0 rest d2" "cstr (buf_ptr buf1) ?ks" "line_ok (buf1[0 := 0]) 0"
    "\<And>s'. executeCommand e (buf_ptr buf1) (on_line s d2 c2) = Some s' \<Longrightarrow>
      \<exists>c'. shell_turns e (length ?ks + 1) (0, buf, s) = Some (0, buf1[0 := 0], on_line s' (disk (system s')) c')"
    by (rule typed_line [OF ks(1) line ks(2-4), where e = e]) (rule that)
  obtain q2 where "d2 = (disk (system s))\<lparr>keyQueue := q2\<rparr>" using typed_ahead_disk [OF ahead k2(1)] by blast
  then have f2: "system (on_line s d2 c2) = (system s)\<lparr>disk := (disk (system s))\<lparr>keyQueue := q2\<rparr>, screen := c2\<rparr>" by simp
  note F = fat_on_keys [OF ok f2]
  obtain f3 where f3: "executeCommand e (buf_ptr buf1) (on_line s d2 c2) = Some ((on_line s d2 c2)\<lparr>system := f3\<rparr>)" "fs_ok ?dv ?g ?s f3"
    "files ?s f3 = (files ?s (system (on_line s d2 c2)))(t \<mapsto> (0, b + k))"
    using touch_runs [OF sys e F(1) k2(2) t(3)] new room b k q v F(2-7) by metis
  let ?s3 = "(on_line s d2 c2)\<lparr>system := f3\<rparr>"
  from k2(4) [OF f3(1)] obtain c' where run: "shell_turns e (length ?ks + 1) (0, buf, s) = Some (0, buf1[0 := 0], on_line ?s3 (disk f3) c')" by auto
  have "?g (disk f3)" using f3(2) by (simp add: fs_ok_def mounted_ok_def)
  from fs_ok_disk [OF f3(2) this refl refl, of c'] f3(3) F(2)
  have "fs_ok ?dv ?g ?s (system (on_line ?s3 (disk f3) c'))"
    "files ?s (system (on_line ?s3 (disk f3) c')) = (files ?s (system s))(t \<mapsto> (0, b + k))" by simp_all
  then show ?thesis using run k2(3) by (intro exI [of _ "buf1[0 := 0]"] exI [of _ "on_line ?s3 (disk f3) c'"]) simp
qed

section \<open>The banner demo\<close>

definition free_slots :: "int list \<Rightarrow> nat set" where
  "free_slots al = {k. k < PROCESS_MAXCOUNT \<and> al ! k \<noteq> 1}"

lemma finite_free [simp]: "finite (free_slots al)"
  by (simp add: free_slots_def)

lemma free_taken:
  assumes "pid < PROCESS_MAXCOUNT" "al ! pid = 0" "length al = PROCESS_MAXCOUNT"
  shows "Suc (card (free_slots (al[pid := 1]))) = card (free_slots al)"
proof -
  have "free_slots al = insert pid (free_slots (al[pid := 1]))" "pid \<notin> free_slots (al[pid := 1])"
    using assms by (auto simp: free_slots_def nth_list_update)
  then show ?thesis by simp
qed

text \<open>Each process has an entry point and an argument of its own, and is last in the ready list.\<close>

definition starts_at :: "('d, 'z) proc_scheme \<Rightarrow> ptr \<Rightarrow> QWORD \<Rightarrow> QWORD \<Rightarrow> bool" where
  "starts_at s p entryPoint arg \<longleftrightarrow> state_of s p = PROCESS_STATE_READY \<and>
     (length (ctx (pcbs s p)) = 24 \<longrightarrow> ctx (pcbs s p) ! REG_RIP = entryPoint \<and> ctx (pcbs s p) ! REG_RDI = arg)"

lemma created_starts: "pcbs s p = created pid entryPoint arg b \<Longrightarrow> starts_at s p entryPoint arg"
proof -
  assume p: "pcbs s p = created pid entryPoint arg b"
  have "length (ctx (created pid entryPoint arg b)) = length (ctx b)" by (simp add: created_ctx)
  then show ?thesis using created_nth [of b _ pid entryPoint arg]
    by (auto simp: starts_at_def state_of_def p reg_defs) (simp add: created_def Let_def)
qed

lemma banner_rel:
  assumes "sched_rel s rs ss" and "length js \<le> card (free_slots (allocProcessTable s))"
  shows "\<exists>ps s'. banner_processes entryPoint js s = Some s' \<and> sched_rel s' (rs @ ps) ss \<and> length ps = length js \<and>
    (\<forall>i < length js. starts_at s' (ps ! i) entryPoint (of_nat (js ! i))) \<and>
    (\<forall>p. live (allocProcessTable s) p \<longrightarrow> live (allocProcessTable s') p \<and> pcbs s' p = pcbs s p) \<and>
    (\<forall>p \<in> set ps. \<not> live (allocProcessTable s) p) \<and> runningProcess s' = runningProcess s \<and>
    proc.more s' = proc.more s \<and> tickCount s' = tickCount s \<and> ram s' = ram s"
  using assms
proof (induction js arbitrary: s rs)
  case Nil
  then show ?case by (intro exI [of _ "[]"] exI [of _ s]) simp
next
  case (Cons j js)
  have len: "length (allocProcessTable s) = PROCESS_MAXCOUNT" using Cons.prems(1) by (simp add: sched_rel_def core_of_def table_ok_def)
  have "free_slots (allocProcessTable s) \<noteq> {}" using Cons.prems(2) by force
  then have free: "\<exists>k < PROCESS_MAXCOUNT. allocProcessTable s ! k \<noteq> 1" by (auto simp: free_slots_def)
  obtain pid s1 where c: "createProcess entryPoint (of_nat j) s = Some (pcbAddr pid, s1)"
    "sched_rel s1 (rs @ [pcbAddr pid]) ss" "pid < PROCESS_MAXCOUNT" "allocProcessTable s ! pid = 0"
    "allocProcessTable s1 = (allocProcessTable s)[pid := 1]"
    "pcbs s1 = (pcbs s)(pcbAddr pid := created pid entryPoint (of_nat j) (pcbs s (pcbAddr pid)))"
    "runningProcess s1 = runningProcess s" "proc.more s1 = proc.more s" "tickCount s1 = tickCount s" "ram s1 = ram s"
    by (rule createProcess_rel [OF Cons.prems(1) free, where entryPoint = entryPoint and arg = "of_nat j"])
  let ?p = "pcbAddr pid"
  have dead: "\<not> live (allocProcessTable s) ?p" using c(3,4) by simp
  have live1: "live (allocProcessTable s1) q \<longleftrightarrow> live (allocProcessTable s) q \<or> q = ?p" for q
    unfolding c(5) using c(3) len by (auto simp: live_def nth_list_update)
  have "length js \<le> card (free_slots (allocProcessTable s1))"
    using free_taken [OF c(3,4) len] Cons.prems(2) by (simp add: c(5))
  from Cons.IH [OF c(2) this]
  obtain ps s2 where IH: "banner_processes entryPoint js s1 = Some s2" "sched_rel s2 ((rs @ [?p]) @ ps) ss" "length ps = length js"
    "\<forall>i < length js. starts_at s2 (ps ! i) entryPoint (of_nat (js ! i))"
    "\<forall>p. live (allocProcessTable s1) p \<longrightarrow> live (allocProcessTable s2) p \<and> pcbs s2 p = pcbs s1 p"
    "\<forall>p \<in> set ps. \<not> live (allocProcessTable s1) p" "runningProcess s2 = runningProcess s1"
    "proc.more s2 = proc.more s1" "tickCount s2 = tickCount s1" "ram s2 = ram s1" by metis
  have "pcbs s2 ?p = created pid entryPoint (of_nat j) (pcbs s ?p)" using IH(5) live1 c(6) by simp
  then have "starts_at s2 ?p entryPoint (of_nat j)" by (rule created_starts)
  then have "\<forall>i < length (j # js). starts_at s2 ((?p # ps) ! i) entryPoint (of_nat ((j # js) ! i))"
    using IH(4) by (auto simp: nth_Cons split: nat.split)
  moreover have "\<forall>p. live (allocProcessTable s) p \<longrightarrow> live (allocProcessTable s2) p \<and> pcbs s2 p = pcbs s p"
    using IH(5) live1 dead c(6) by auto
  moreover have "\<forall>q \<in> set (?p # ps). \<not> live (allocProcessTable s) q" using IH(6) live1 dead by auto
  ultimately show ?case using IH(1-3,7-10) c(1,7-10)
    by (intro exI [of _ "?p # ps"] exI [of _ s2]) simp
qed

lemma clear_cells: "cells (clear c) = replicate CELLS 0"
proof -
  have "vmem (fold (\<lambda>i s. set_attribute (cell_addr i) 7 (set_character (cell_addr i) 0 s)) [0..<n] c) (0xB8000 + 2 * j) = 0"
    if "j < n" for j n
    using that
  proof (induction n)
    case (Suc n)
    have "0xB8000 + 2 * j \<noteq> Suc (0xB8000 + 2 * n)" by presburger
    then show ?case using Suc by (auto simp: nat_cell_addr less_Suc_eq)
  qed simp
  then show ?thesis by (intro nth_equalityI) (simp_all add: nth_cells clear_def cursorInit_def)
qed

text \<open>\<^verbatim>\<open>multiTasking\<close> on a system with 24 free slots: the screen is cleared and the cursor is at the start of its last line; 24 new
  processes are ready, last in the ready list and in the order of the lines they will show, each starting at the banner's entry point with the number
  of its line as argument; every process there was is as it was.\<close>

theorem multitasking_starts_a_process_a_line:
  assumes "sched_ok (disk (system s))" and "24 \<le> card (free_slots (allocProcessTable (disk (system s))))"
  shows "\<exists>ps s'. multiTasking e s = Some s' \<and> sched_ok (disk (system s')) \<and> length ps = 24 \<and> distinct ps \<and>
    asched_of (disk (system s')) = (asched_of (disk (system s)))\<lparr>a_ready := a_ready (asched_of (disk (system s))) @ ps\<rparr> \<and>
    (\<forall>i < 24. starts_at (disk (system s')) (ps ! i) (bannerEntry e) (of_nat i)) \<and>
    (\<forall>p. live (allocProcessTable (disk (system s))) p \<longrightarrow> pcbs (disk (system s')) p = pcbs (disk (system s)) p) \<and>
    cells (screen (system s')) = replicate CELLS 0 \<and> cursor_at (screen (system s')) (24 * 80)"
proof -
  let ?d = "disk (system s)"
  obtain rs ss where rel: "sched_rel ?d rs ss" using assms(1) by (auto elim: sched_okE)
  have n: "length bannerData = 24" by (simp add: bannerData_def)
  have "length [0..<24] \<le> card (free_slots (allocProcessTable ?d))" using assms(2) by simp
  from banner_rel [OF rel this, of "bannerEntry e"]
  obtain ps d' where b: "banner_processes (bannerEntry e) [0..<24] ?d = Some d'" "sched_rel d' (rs @ ps) ss" "length ps = 24"
    "\<forall>i < 24. starts_at d' (ps ! i) (bannerEntry e) (of_nat i)"
    "\<forall>p. live (allocProcessTable ?d) p \<longrightarrow> live (allocProcessTable d') p \<and> pcbs d' p = pcbs ?d p" "runningProcess d' = runningProcess ?d"
    by auto
  let ?c = "cursorLine 24 (clear (screen (system s)))"
  have run: "multiTasking e s = Some (on_line s d' ?c)"
    using b(1) by (simp add: multiTasking_def processTest_def n on_console_def on_kernel_def on_line_def)
  have "distinct ps" using b(2) by (auto simp: sched_rel_def srep_def rep_def)
  moreover have "map (\<lambda>p. (p, wakeupTick (pcbs d' p))) ss = map (\<lambda>p. (p, wakeupTick (pcbs ?d p))) ss"
    using sleeper(1) [OF rel] b(5) by (intro map_cong) auto
  then have "asched_of d' = (asched_of ?d)\<lparr>a_ready := a_ready (asched_of ?d) @ ps\<rparr>"
    by (simp add: asched_of_rel [OF rel] asched_of_rel [OF b(2)] b(6))
  moreover have "cells ?c = replicate CELLS 0" using clear_cells [of "screen (system s)"] cells_cong [of ?c "clear (screen (system s))"]
    by (simp add: cursorLine_def)
  moreover have "cursor_at ?c (24 * 80)" by (simp add: cursor_at_def cursorLine_def cell_addr_def video_defs)
  ultimately show ?thesis using run b(3-5) sched_okI [OF b(2)] by (intro exI [of _ ps] exI [of _ "on_line s d' ?c"]) simp
qed

section \<open>Witnesses\<close>

definition demo_env :: "(ata, unit) shell_env" where
  "demo_env = \<lparr>ports = ata_io, waits = ideal_resume, userProgramStart = 0x700000, userProgramSize = 100, bannerEntry = 0x603000\<rparr>"

text \<open>A shell over a freshly formatted drive, with keys in the buffer and a prompt on the screen.\<close>

definition shell_on :: "ata dsk fat \<Rightarrow> BYTE list \<Rightarrow> (ata, unit) shell" where
  "shell_on f ks = \<lparr>system = f\<lparr>disk := (disk f)\<lparr>keyQueue := key_buffer ks\<rparr>\<lparr>keyWaiter := NULL\<rparr>\<rparr>, editBuffer = replicate 4096 0,
     frameTable = \<lparr>bitmap = \<lambda>_ _ _. 0, nextFrame = 0, usingMemory = 0, totalMemory = 0\<rparr>\<rparr>"

lemma line_ok_empty: "line_ok (replicate 100 0) 0"
  by (simp add: line_ok_def)

lemma shell_on_sel [simp]: "screen (system (shell_on f ks)) = screen f" "fatInfor (system (shell_on f ks)) = fatInfor f"
  "bestIdx (system (shell_on f ks)) = bestIdx f"
  by (simp_all add: shell_on_def)

lemma shell_on_ahead:
  assumes "disk_good (\<lambda>a. a) {0x700} (pcbAddr 0) (disk f)" and "length ks < QUEUE_COUNT"
  shows "typed_ahead (disk (system (shell_on f ks))) ks (disk (system (shell_on f ks)))"
proof -
  let ?d = "disk (system (shell_on f ks))"
  have "sched_ok (disk f)" "interrupts_on (disk f)" using assms(1) by (auto simp: disk_good_def runs_def locks_rel_def)
  then have "kbd_ok ?d" "interrupts_on ?d" "keys ?d = ks" using key_buffer [OF assms(2)]
    by (simp_all add: kbd_ok_def keys_def shell_on_def interrupts_on_def)
  moreover have "?d = ?d\<lparr>keyQueue := keyQueue ?d\<rparr>" by simp
  ultimately show ?thesis unfolding typed_ahead_def by blast
qed

lemma typing_refines_a_line_witness:
  "\<exists>buf' i' s'. shell_turns demo_env 3 (0, replicate 100 0, shell_on (ready_fat\<lparr>screen := clear (screen ready_fat)\<rparr>) [108, 116, KEY_BACKSPACE, 115]) =
     Some (i', buf', s') \<and> cstr (buf_ptr buf') [108] \<and> shows_line (screen (system s')) 0 [108]"
proof -
  let ?f = "ready_fat\<lparr>screen := clear (screen ready_fat)\<rparr>" and ?ks = "[108, 116, KEY_BACKSPACE] @ [115]"
  have g: "disk_good (\<lambda>a. a) {0x700} (pcbAddr 0) (disk ?f)" using ready_good by (simp add: ready_fat_def)
  have "length ?ks < QUEUE_COUNT" by (simp add: QUEUE_COUNT_def)
  note A = shell_on_ahead [OF g this]
  have t: "types_text [108, 116, KEY_BACKSPACE]" "0 + length [108, 116, KEY_BACKSPACE] < 100" "0 + 100 \<le> CELLS"
    by (simp_all add: types_text_def key_defs CELLS_eq)
  have "shows_line (screen (system (shell_on ?f ?ks))) 0 (take 0 (replicate 100 0))"
    by (simp add: shows_line_def cursor_at_def clear_def cursorInit_def cell_addr_def)
  note W = typing_refines_a_line [OF A line_ok_empty t(1,2) this t(3), of demo_env]
  have "fold line_text [108, 116, KEY_BACKSPACE] (take 0 (replicate 100 0)) = [108]" "length [108, 116, KEY_BACKSPACE] = 3"
    by (simp_all add: line_text_def key_defs)
  from W [unfolded this] show ?thesis by (simp only: append.simps) blast
qed

lemma long_line_leaves_the_buffer_witness:
  "shell_turn demo_env (99, replicate 99 97 @ [0], shell_on ready_fat [97]) = None \<and>
   shell_turn demo_env (98, replicate 98 97 @ [0, 0], shell_on ready_fat [97]) \<noteq> None"
proof -
  have g: "disk_good (\<lambda>a. a) {0x700} (pcbAddr 0) (disk ready_fat)" using ready_good by (simp add: ready_fat_def)
  have "length ([97] @ []) < QUEUE_COUNT" by (simp add: QUEUE_COUNT_def)
  from shell_on_ahead [OF g this] have A: "typed_ahead (disk (system (shell_on ready_fat [97]))) (97 # []) (disk (system (shell_on ready_fat [97])))"
    by simp
  have l: "line_ok (replicate 99 97 @ [0]) 99" "line_ok (replicate 98 97 @ [0, 0]) 98" by (simp_all add: line_ok_def nth_append)
  have k: "(97 :: BYTE) \<noteq> 0" "97 \<noteq> KEY_ENTER" "97 \<noteq> KEY_BACKSPACE" by (simp_all add: key_defs)
  show ?thesis using long_line_leaves_the_buffer [OF A l(1) k, of demo_env] long_line_leaves_the_buffer [OF A l(2) k, of demo_env]
    by simp
qed

lemma command_of_first_word_witness:
  "executeCommand demo_env (lit ''clear up'') (shell_on ready_fat []) = clearCommand (shell_on ready_fat [])"
proof -
  have l: "cstr (lit ''clear up'') (map of_char ''clear up'')" "length (map of_char ''clear up'' :: BYTE list) < 100"
    by (rule cstr_lit) simp_all
  from command_of_first_word [OF this, of demo_env "shell_on ready_fat []"] show ?thesis by (auto simp: commandTable_def)
qed

lemma formatted_drive:
  obtains f where "fs_ok (driver ata_io ideal_resume) (disk_good (\<lambda>a. a) {0x700} (pcbAddr 0)) (drive_sector (\<lambda>a. a)) f"
    "files (drive_sector (\<lambda>a. a)) f = Map.empty" "file_count (drive_sector (\<lambda>a. a)) f = 0" "bestIdx f = 0"
    "first_free (drive_sector (\<lambda>a. a)) f 0 = Some 1" "0 < unat (clusterLinkSectorCount (fatInfor f))"
    "valid_cluster (driver ata_io ideal_resume) f 1"
proof -
  let ?dv = "driver ata_io ideal_resume" and ?g = "disk_good (\<lambda>a. a) {0x700} (pcbAddr 0)" and ?s = "drive_sector (\<lambda>a. a)"
  note bd = disk_system.driver_is_block_device [OF ideal_system.disk_system_axioms]
  have r: "?g (disk ready_fat)" "length (buffer512 ready_fat) = SECTOR_SIZE"
    "11 \<le> int (unat (total_sectors ?dv (disk ready_fat)))" "int (unat (total_sectors ?dv (disk ready_fat))) < 2 ^ 31"
    "getTotalSector (disk ready_fat) = 200"
    using ready_good by (simp_all add: ready_fat_def fat_const ready_total)
  show thesis
  proof (rule block_device.format_step [OF bd r(1-4)], goal_cases)
    case (1 f0 f)
    have u: "unat (clusterLinkSectorCount (fatInfor f)) = 2" "unat (dataAddress (fatInfor f)) = 3" "total_sectors ?dv (disk f) = 200"
      using 1(9-11) r(5) by (simp_all add: link_sectors_200)
    have "first_free ?s f 0 = Some 1"
      unfolding first_free_def by (rule find_first) (use 1(6) u(1) in \<open>simp_all add: links_upd_def\<close>)
    moreover have "valid_cluster ?dv f 1" using u by (simp add: valid_cluster_def)
    ultimately show ?case using 1(3-5,7) u(1) by (intro that [of f]) simp_all
  qed
qed

lemma touch_from_the_keyboard_witness:
  "\<exists>f buf' s'. shell_turns demo_env 8 (0, replicate 100 0, shell_on f (touch_word @ [97] @ [KEY_ENTER])) = Some (0, buf', s') \<and>
     files (drive_sector (\<lambda>a. a)) (system s') = [[97] \<mapsto> (0, 1)]"
proof -
  let ?dv = "driver ata_io ideal_resume" and ?g = "disk_good (\<lambda>a. a) {0x700} (pcbAddr 0)" and ?s = "drive_sector (\<lambda>a. a)"
  let ?ks = "touch_word @ [97] @ KEY_ENTER # []"
  obtain f where f: "fs_ok ?dv ?g ?s f" "files ?s f = Map.empty" "file_count ?s f = 0" "bestIdx f = 0" "first_free ?s f 0 = Some 1"
    "0 < unat (clusterLinkSectorCount (fatInfor f))" "valid_cluster ?dv f 1" by (rule formatted_drive)
  define f1 where "f1 = f\<lparr>disk := (disk f)\<lparr>keyWaiter := NULL\<rparr>, screen := screen f\<rparr>"
  have d1: "?g ((disk f)\<lparr>keyWaiter := NULL\<rparr>)" "?s ((disk f)\<lparr>keyWaiter := NULL\<rparr>) = ?s (disk f)"
    "total_sectors ?dv ((disk f)\<lparr>keyWaiter := NULL\<rparr>) = total_sectors ?dv (disk f)"
    using f(1) by (simp_all add: disk_good_keys fs_ok_def mounted_ok_def)
  note F1 = fs_ok_disk [OF f(1) d1, of "screen f", folded f1_def]
  have same: "file_count ?s f1 = 0" "first_free ?s f1 0 = Some 1" "valid_cluster ?dv f1 1"
    using f(3,5,7) by (simp_all add: f1_def file_count_def first_free_def link_of_def link_sector_def cluster_data_def valid_cluster_def d1 disk_good_keys)
  have e: "system (shell_on f ?ks) = f1\<lparr>disk := (disk f1)\<lparr>keyQueue := key_buffer ?ks\<rparr>, screen := screen f1\<rparr>"
    by (simp add: shell_on_def f1_def)
  note F = fat_on_keys [OF F1(1) e]
  have "length ?ks < QUEUE_COUNT" by (simp add: QUEUE_COUNT_def touch_word_def)
  moreover have "?g (disk f)" using f(1) by (simp add: fs_ok_def mounted_ok_def)
  ultimately have A: "typed_ahead (disk (system (shell_on f ?ks))) ?ks (disk (system (shell_on f ?ks)))" by (intro shell_on_ahead)
  have t: "types_text [97]" "KEY_BACKSPACE \<notin> set [97]" "length [97 :: BYTE] \<le> 23" by (simp_all add: types_text_def key_defs)
  have n: "files ?s (system (shell_on f ?ks)) [97] = None" "file_count ?s (system (shell_on f ?ks)) < 128"
    "bestIdx (system (shell_on f ?ks)) = int 0" "first_free ?s (system (shell_on f ?ks)) 0 = Some 1"
    "0 div 128 < unat (clusterLinkSectorCount (fatInfor (system (shell_on f ?ks))))" "valid_cluster ?dv (system (shell_on f ?ks)) (0 + 1)"
    using F1(2) f(2,4,6) same F(2-5) by (simp_all add: f1_def)
  have p: "ports demo_env = ata_io" "waits demo_env = ideal_resume" by (simp_all add: demo_env_def)
  have e8: "length touch_word + length [97 :: BYTE] + 1 = 8" "files ?s (system (shell_on f ?ks)) = Map.empty"
    using F(2) F1(2) f(2) by (simp_all add: touch_word_def)
  from touch_from_the_keyboard [OF ideal_system.disk_system_axioms p F(1) A line_ok_empty t n] show ?thesis
    unfolding e8 by (intro exI [of _ f]) auto
qed

lemma multitasking_starts_a_process_a_line_witness:
  "\<exists>ps s'. multiTasking demo_env (shell_on ready_fat []) = Some s' \<and> length ps = 24 \<and>
     a_ready (asched_of (disk (system s'))) = [pcbAddr 1] @ ps \<and> starts_at (disk (system s')) (ps ! 23) 0x603000 23"
proof -
  let ?s = "shell_on ready_fat []"
  have same: "allocProcessTable (disk (system ?s)) = boot_table" "sched_ok (disk (system ?s))"
    "a_ready (asched_of (disk (system ?s))) = [pcbAddr 1]"
  proof -
    have "sched_rel ready_disk [pcbAddr 1] [] = sched_rel booted [pcbAddr 1] []"
      unfolding booted_disk_rel [symmetric, where a = blank_drive and x = unheld and ident = "(replicate 256 0)[60 := 200]" and occ = False]
      by (simp add: ready_disk_def setIf_def enableInterrupt_def sched_rel_def core_of_def srep_def state_of_def [abs_def])
    then have "sched_rel (disk (system ?s)) [pcbAddr 1] []" using booted_eq(2)
      by (simp add: shell_on_def ready_fat_def sched_rel_def core_of_def srep_def state_of_def [abs_def])
    then show "sched_ok (disk (system ?s))" "a_ready (asched_of (disk (system ?s))) = [pcbAddr 1]"
      by (auto simp: asched_of_rel intro: sched_okI)
    show "allocProcessTable (disk (system ?s)) = boot_table"
      using booted_eq(6) by (simp add: shell_on_def ready_fat_def ready_disk_def booted_disk_def setIf_def enableInterrupt_def)
  qed
  have "{3..<27} \<subseteq> free_slots boot_table"
    by (auto simp: free_slots_def boot_table_nth PROCESS_MAXCOUNT_def)
  then have "24 \<le> card (free_slots (allocProcessTable (disk (system ?s))))"
    using card_mono [OF finite_free, of "{3..<27}" boot_table] by (simp add: same(1))
  from multitasking_starts_a_process_a_line [OF same(2) this, of demo_env]
  obtain ps s' where s': "multiTasking demo_env ?s = Some s'" "length ps = 24"
    "asched_of (disk (system s')) = (asched_of (disk (system ?s)))\<lparr>a_ready := a_ready (asched_of (disk (system ?s))) @ ps\<rparr>"
    "\<forall>i < 24. starts_at (disk (system s')) (ps ! i) (bannerEntry demo_env) (of_nat i)" by blast
  from s'(4) have "starts_at (disk (system s')) (ps ! 23) (bannerEntry demo_env) (of_nat 23)" by (rule allE [of _ 23]) simp
  with s'(1-3) show ?thesis by (intro exI [of _ ps] exI [of _ s']) (simp add: same(3) demo_env_def)
qed

end
