(* ===== verification/KernelMain.thy ===== *)
theory KernelMain
  imports ShellSystem DescriptorProps
begin

text \<open>
  The kernel's entry (\<^verbatim>\<open>kernel/Main.c\<close>): it clears the area of the static variables, initializes every part in
  turn, enables interrupts and starts the shell.
\<close>

section \<open>The static variables\<close>

text \<open>The loop over the words from \<^verbatim>\<open>__bss_start\<close> to \<^verbatim>\<open>_end\<close>.\<close>

function bss_loop :: "nat \<Rightarrow> nat \<Rightarrow> memory \<Rightarrow> memory" where
  "bss_loop p last_addr m = (if p < last_addr then bss_loop (p + 8) last_addr (store64 p 0 m) else m)"
  by pat_completeness auto
termination by (relation "measure (\<lambda>(p, last_addr, m). last_addr - p)") auto

declare bss_loop.simps [simp del]

definition clearBss :: "nat \<Rightarrow> nat \<Rightarrow> memory \<Rightarrow> memory" where
  "clearBss bss_start bss_end m = bss_loop bss_start bss_end m"

definition no_list :: linkedList where "no_list = \<lparr>l_head = NULL, l_tail = NULL, l_count = 0\<rparr>"
definition no_queue :: queue where "no_queue = \<lparr>front = 0, rear = 0, q_len = 0, dataSize = 0, queueArr = []\<rparr>"

text \<open>What the loop does to the static variables, which are fields of the model's state. The PCBs, their contexts and the page
  tables lie at fixed addresses outside the area and are not cleared.\<close>

definition clear_kernel :: "('d, 'z) dsk_scheme \<Rightarrow> ('d, 'z) dsk_scheme" where
  "clear_kernel d = d\<lparr>picState := PIC_INITIAL, runningProcess := NULL, idleProcess := NULL, processList := no_list,
     sleepList := no_list, pidCountIdx := 0, allocProcessTable := replicate PROCESS_MAXCOUNT 0, exitProcessQueue := no_queue,
     collectorProcess := NULL, tickCount := 0, interruptHandlers := replicate (nat INTERRUPT_VECTOR_COUNT) None,
     mutexes := (mutexes d)(diskMutex d := \<lparr>owner = 0, mcount = 0, waitList = no_list\<rparr>), shiftOn := False, keyQueue := no_queue,
     keyWaiter := NULL, diskInfo := replicate 256 0, isPrimaryInterruptOccur := False, isSecondaryInterruptOccur := False,
     diskWaiter := \<lambda>_. NULL\<rparr>"

definition clear_statics :: "('d, 'z) shell \<Rightarrow> ('d, 'z) shell" where
  "clear_statics s = s\<lparr>system := (system s)\<lparr>disk := clear_kernel (disk (system s)),
       fatInfor := \<lparr>freeClusterCount = 0, clusterLinkSectorCount = 0, clusterLinkSectorAddress = 0, dataAddress = 0\<rparr>,
       bestIdx := 0, bestRootDirIdx := 0, isMounted := False, buffer512 := replicate SECTOR_SIZE 0,
       buffer4096 := replicate CLUSTER_SIZE 0\<rparr>,
     editBuffer := replicate BUFFER_SIZE 0,
     frameTable := \<lparr>bitmap = \<lambda>_ _ _. 0, nextFrame = 0, usingMemory = 0, totalMemory = 0\<rparr>\<rparr>"

section \<open>Main\<close>

text \<open>What the linker and the assembly files fix: the area of the static variables, the interrupt stubs and two entry points.\<close>

record linkage =
  bssStart :: nat
  bssEnd :: nat
  stubTable :: "QWORD list"
  syscallStub :: QWORD
  collectorCode :: QWORD
  idleCode :: QWORD

text \<open>Everything before the shell starts.\<close>

definition kernelInit :: "('d, 'z) shell_env \<Rightarrow> linkage \<Rightarrow> memory \<Rightarrow> ('d, 'z) shell \<Rightarrow> (tables \<times> ('d, 'z) shell) option" where
  "kernelInit e k m s = do {
     let m = clearBss (bssStart k) (bssEnd k) m;
     let s = clear_statics s;
     s \<leftarrow> on_console (Some \<circ> cursorLine 7) s;
     s \<leftarrow> on_console (puts (lit ''Switch to IA-32e mode'')) s;
     s \<leftarrow> on_console (puts (lit ''Success Booting'')) s;
     let t = initializeDescriptor (stubTable k) (syscallStub k) m;
     s \<leftarrow> on_console (puts (lit ''Initialize Descriptor'')) s;
     (_, s) \<leftarrow> on_kernel (\<lambda>d. Some ((), initializePIC (ports e) d)) s;
     (_, s) \<leftarrow> on_kernel (\<lambda>d. Some (setIMR (ports e) 0 d)) s;
     s \<leftarrow> on_console (puts (lit ''PIC initialize'')) s;
     (_, s) \<leftarrow> on_kernel (\<lambda>d. Some ((), initKeyboard (replicate QUEUE_COUNT 0) d)) s;
     let s = s\<lparr>frameTable := initMemoryBitmap (frameTable s)\<rparr>;
     s \<leftarrow> on_console (puts (lit ''Memory Pool Initialize'')) s;
     (_, s) \<leftarrow> on_kernel (map_option (Pair ()) \<circ> initScheduler (collectorCode k) (idleCode k) (replicate (EXIT_QUEUE_COUNT * 4) 0)) s;
     (_, s) \<leftarrow> on_kernel (\<lambda>d. Some ((), initializePIT (ports e) (msToClock SLOT_TIME) True d)) s;
     (c, d) \<leftarrow> initDisk (ports e) (waits e) (screen (system s)) (disk (system s));
     let s = s\<lparr>system := (system s)\<lparr>disk := d, screen := c\<rparr>\<rparr>;
     s \<leftarrow> on_console (puts (lit ''Disk Initialize'')) s;
     let s = s\<lparr>system := initFAT (system s)\<rparr>;
     (_, s) \<leftarrow> on_kernel (\<lambda>d. Some ((), enableInterrupt d)) s;
     Some (t, s) }"

text \<open>The kernel up to the shell's \<open>n\<close>-th key.\<close>

definition kernelMain :: "('d, 'z) shell_env \<Rightarrow> linkage \<Rightarrow> nat \<Rightarrow> memory \<Rightarrow> ('d, 'z) shell \<Rightarrow>
    (tables \<times> nat \<times> BYTE list \<times> ('d, 'z) shell) option" where
  "kernelMain e k n m s = do { (t, s) \<leftarrow> kernelInit e k m s; map_option (Pair t) (startShell e n s) }"

section \<open>Clearing memory\<close>

lemma store64_at: "store64 a 0 m x = (if a \<le> x \<and> x < a + 8 then 0 else m x)"
  by (auto simp: store64_def store_bytes_def le_encode_zero)

lemma clearBss_eq:
  assumes "8 dvd bss_end - bss_start"
  shows "clearBss bss_start bss_end m x = (if bss_start \<le> x \<and> x < bss_end then 0 else m x)"
proof -
  have "bss_loop p (p + 8 * n) m x = (if p \<le> x \<and> x < p + 8 * n then 0 else m x)" for p n m
  proof (induction n arbitrary: p m)
    case 0
    then show ?case by (subst bss_loop.simps) auto
  next
    case (Suc n)
    have step: "bss_loop p (p + 8 * Suc n) m = bss_loop (p + 8) (p + 8 + 8 * n) (store64 p 0 m)"
      by (subst bss_loop.simps) (simp add: algebra_simps)
    show ?case unfolding step Suc by (auto simp: store64_at)
  qed
  note loop = this
  show ?thesis
  proof (cases "bss_start \<le> bss_end")
    case True
    then obtain n where "bss_end = bss_start + 8 * n" using assms by (metis dvd_def le_add_diff_inverse)
    with loop show ?thesis by (simp add: clearBss_def)
  next
    case False
    then show ?thesis by (auto simp: clearBss_def bss_loop.simps [of bss_start bss_end])
  qed
qed

end
