(* ===== verification/BootProps.thy ===== *)
theory BootProps
  imports KernelMain
begin

text \<open>
  What \<^verbatim>\<open>Main\<close> leaves for the shell: the invariants of the scheduler, the interrupts, the keyboard, the disk
  driver and the file system, on a machine whose drive follows the ATA protocol.
\<close>

section \<open>The mutex at boot\<close>

lemma setIf_handlers [simp]: "interruptHandlers (snd (setIf b s)) = interruptHandlers s"
  by (simp add: setIf_def enableInterrupt_def disableInterrupt_def)

text \<open>A mutex nobody holds, and nobody waits for.\<close>

definition unlocked :: "('d, 'z) dsk_scheme \<Rightarrow> bool" where
  "unlocked s \<longleftrightarrow> locks_rel {diskMutex s} s (\<lambda>_. []) \<and> length (cpu s) = 24 \<and> may_block s \<and> unat (tickCount s) < 2 ^ 63"

lemma unlocked_upd [simp]:
  "unlocked (s\<lparr>dev := d\<rparr>) = unlocked s" "unlocked (s\<lparr>isPrimaryInterruptOccur := b\<rparr>) = unlocked s"
  "unlocked (s\<lparr>diskInfo := w\<rparr>) = unlocked s"
  by (simp_all add: unlocked_def may_block_def locks_rel_def mutex_ok_def parked_def state_of_def sched_ok_def sched_rel_def core_of_def
      srep_def [abs_def] state_of_def [abs_def])

text \<open>The parts of the kernel other than the mutex, the device and the driver's data.\<close>

definition boot_same :: "('d, 'z) dsk_scheme \<Rightarrow> ('d, 'z) dsk_scheme \<Rightarrow> bool" where
  "boot_same s s' \<longleftrightarrow> diskMutex s' = diskMutex s \<and> interruptHandlers s' = interruptHandlers s \<and> asched_of s' = asched_of s \<and>
     keyQueue s' = keyQueue s \<and> keyWaiter s' = keyWaiter s \<and> diskWaiter s' = diskWaiter s \<and> interrupts_on s' = interrupts_on s \<and>
     runningProcess s' = runningProcess s"

lemma boot_same_refl [simp]: "boot_same s s"
  by (simp add: boot_same_def)

lemma boot_same_upd [simp]:
  "boot_same s (s'\<lparr>dev := d\<rparr>) = boot_same s s'" "boot_same s (s'\<lparr>isPrimaryInterruptOccur := b\<rparr>) = boot_same s s'"
  "boot_same s (s'\<lparr>diskInfo := w\<rparr>) = boot_same s s'"
  "boot_same (s\<lparr>dev := d\<rparr>) s' = boot_same s s'" "boot_same (s\<lparr>isPrimaryInterruptOccur := b\<rparr>) s' = boot_same s s'"
  "boot_same (s\<lparr>diskInfo := w\<rparr>) s' = boot_same s s'"
  by (simp_all add: boot_same_def interrupts_on_def asched_of_def)

lemma boot_same_trans: "boot_same s t \<Longrightarrow> boot_same t u \<Longrightarrow> boot_same s u"
  by (simp add: boot_same_def)

lemma more_kbd: "ksync.more s' = ksync.more s \<Longrightarrow> keyQueue s' = keyQueue s \<and> keyWaiter s' = keyWaiter s"
  by (cases s; cases s') simp

lemma lock_boot:
  assumes u: "unlocked s" and free: "lock_owner s = -1"
  shows "\<exists>s'. lockDisk rs s = Some s' \<and> unlocked s' \<and> holds_lock s' \<and> boot_same s s' \<and> dev s' = dev s \<and> diskInfo s' = diskInfo s"
proof -
  let ?m = "diskMutex s"
  have L: "locks_rel {?m} s (\<lambda>_. [])" and len: "length (cpu s) = 24" using u by (simp_all add: unlocked_def)
  have o: "owner (mutexes s ?m) = -1" using free by (simp add: lock_owner_def)
  let ?t = "upd_mutex ?m (\<lambda>x. x\<lparr>owner := getRunningPid s, mcount := 1\<rparr>) (snd (setIf False s))"
  obtain s' where s': "acquireLock ?m s = Some (False, interrupts_on s, s')" "locks_rel {?m} s' (\<lambda>_. [])"
    "mutexes s' = (mutexes s)(?m := (mutexes s ?m)\<lparr>owner := getRunningPid s, mcount := 1\<rparr>)"
    "asched_of s' = asched_of s" "nodes s' = nodes s"
    using acquire_free [OF L _ o] by auto
  obtain pid where "getRunningPid s = int pid" using running_pid [of s] L by (auto simp: locks_rel_def)
  then have e: "s' = snd (setIf (interrupts_on s) ?t)" using s'(1) o by (simp add: acquireLock_alt Let_def)
  have h: "interruptHandlers s' = interruptHandlers s" unfolding e by (simp add: upd_mutex_def)
  have "lock_frame s s'"
    unfolding e using more_ksync [OF setIf_disk(6), of False s] interrupts_setIf(2) [OF len, of False]
    by (intro setIf_lock_frame) (simp_all add: upd_mutex_def)
  then have fr: "dev s' = dev s" "runningProcess s' = runningProcess s" "idleProcess s' = idleProcess s"
    "collectorProcess s' = collectorProcess s" "tickCount s' = tickCount s" "ksync.more s' = ksync.more s"
    "length (cpu s') = 24" "interrupts_on s' = interrupts_on s" using len by (simp_all add: lock_frame_def)
  note D = more_dsk' [OF fr(6)] more_kbd [OF fr(6)]
  have "getRunningPid s' = getRunningPid s" using s'(5) fr(2) by (simp add: getRunningPid_def)
  then have "holds_lock s'" using s'(3) D by (simp add: holds_lock_def lock_owner_def)
  moreover have "unlocked s'" using u s'(2) fr D by (auto simp: unlocked_def may_block_def)
  moreover have "boot_same s s'" using fr D h s'(4) by (simp add: boot_same_def)
  ultimately show ?thesis using s'(1) fr D by (intro exI [of _ s']) (simp add: lockDisk_def)
qed

lemma unlock_boot:
  assumes u: "unlocked s" and h: "holds_lock s"
  shows "\<exists>s'. unlockDisk s = Some s' \<and> unlocked s' \<and> lock_owner s' = -1 \<and> boot_same s s' \<and> dev s' = dev s \<and> diskInfo s' = diskInfo s"
proof -
  let ?m = "diskMutex s"
  have L: "locks_rel {?m} s (\<lambda>_. [])" and len: "length (cpu s) = 24" using u by (simp_all add: unlocked_def)
  have o: "owner (mutexes s ?m) = getRunningPid s" "mcount (mutexes s ?m) = 1" using h by (simp_all add: holds_lock_def lock_owner_def)
  obtain s' where s': "releaseLock ?m s = Some s'" "locks_rel {?m} s' (\<lambda>_. [])" "owner (mutexes s' ?m) = -1" "asched_of s' = asched_of s"
    using release_last [OF L _ o refl] by auto
  have "lock_frame s s'" by (rule release_frame [OF s'(1)])
  then have fr: "dev s' = dev s" "runningProcess s' = runningProcess s" "idleProcess s' = idleProcess s"
    "collectorProcess s' = collectorProcess s" "tickCount s' = tickCount s" "ksync.more s' = ksync.more s"
    "length (cpu s') = 24" "interrupts_on s' = interrupts_on s" using len by (simp_all add: lock_frame_def)
  note D = more_dsk' [OF fr(6)] more_kbd [OF fr(6)]
  have "interruptHandlers s' = interruptHandlers s"
    using s'(1) unfolding releaseLock_alt Let_def
    by (auto simp: upd_mutex_def same_table_def dest!: wakeupProcess_table split: if_splits Option.bind_splits prod.splits option.splits)
  then have "boot_same s s'" using fr D s'(4) by (simp add: boot_same_def)
  moreover have "unlocked s'" using u s'(2) fr D by (auto simp: unlocked_def may_block_def)
  ultimately show ?thesis using s'(1,3) fr D by (intro exI [of _ s']) (simp add: unlockDisk_def lock_owner_def)
qed

section \<open>The drive identifies itself\<close>

context ata_drive
begin

lemma info_loop_ok:
  assumes "mode (drv (dev s)) = DataIn 0 0 ws" and "length ws = n" and "0 < n" and "k + n = 256" and "length (diskInfo s) = 256"
  shows "\<exists>d. info_loop io True n k s = s\<lparr>dev := d, diskInfo := take k (diskInfo s) @ ws\<rparr> \<and> drv d = (drv (dev s))\<lparr>mode := Idle\<rparr>"
  using assms
proof (induction n arbitrary: k ws s)
  case (Suc n)
  then obtain w us where ws: "ws = w # us" by (cases ws) auto
  obtain d where d: "getPortWord io (portOf True DATA) s = (w, s\<lparr>dev := d\<rparr>)"
    "drv d = (drv (dev s))\<lparr>mode := (if us \<noteq> [] then DataIn 0 0 us else Idle)\<rparr>"
    using data_in_law [of "dev s"] Suc.prems(1) by (simp add: getPortWord_def data_port ws case_prod_beta)
  let ?s = "s\<lparr>dev := d, diskInfo := (diskInfo s)[k := w]\<rparr>"
  have step: "info_loop io True (Suc n) k s = info_loop io True n (Suc k) ?s" using d(1) by simp
  show ?case
  proof (cases us)
    case Nil
    then have k: "n = 0" "k = 255" using Suc.prems ws by simp_all
    have "(diskInfo s)[k := w] = take k (diskInfo s) @ [w]" using Suc.prems(5) k
      by (simp add: upd_conv_take_nth_drop)
    then have "info_loop io True (Suc n) k s = s\<lparr>dev := d, diskInfo := take k (diskInfo s) @ ws\<rparr>"
      unfolding step using Nil ws k by simp
    then show ?thesis using d(2) Nil by (intro exI [of _ d]) simp
  next
    case (Cons v vs)
    have "mode (drv (dev ?s)) = DataIn 0 0 us" "length us = n" "0 < n" "Suc k + n = 256" "length (diskInfo ?s) = 256"
      using Suc.prems d(2) ws Cons by simp_all
    from Suc.IH [OF this] obtain d' where "info_loop io True n (Suc k) ?s = ?s\<lparr>dev := d', diskInfo := take (Suc k) (diskInfo ?s) @ us\<rparr>"
      "drv d' = (drv (dev ?s))\<lparr>mode := Idle\<rparr>" by blast
    moreover have "take (Suc k) ((diskInfo s)[k := w]) = take k (diskInfo s) @ [w]" using Suc.prems
      by (simp add: take_Suc_conv_app_nth)
    ultimately show ?thesis unfolding step using d(2) ws by (intro exI [of _ d']) simp
  qed
qed simp

lemma readInformation_ok:
  assumes u: "unlocked s" and free: "lock_owner s = -1" and idle: "mode (drv (dev s)) = Idle"
    and ident: "length (identity (drv (dev s))) = 256" and info: "length (diskInfo s) = 256"
  shows "\<exists>s'. readInformation io rs True False s = Some (True, s') \<and> unlocked s' \<and> lock_owner s' = -1 \<and> boot_same s s' \<and>
    mode (drv (dev s')) = Idle \<and> media (drv (dev s')) = media (drv (dev s)) \<and> diskInfo s' = identity (drv (dev s))"
proof -
  obtain s1 where s1: "lockDisk rs s = Some s1" "unlocked s1" "holds_lock s1" "boot_same s s1" "dev s1 = dev s" "diskInfo s1 = diskInfo s"
    using lock_boot [OF u free] by blast
  have m1: "mode (drv (dev s1)) = Idle" using idle s1(5) by simp
  obtain d0 where d0: "waitNoBusy io True s1 = Some (True, s1\<lparr>dev := d0\<rparr>)" "drv d0 = drv (dev s)"
    using waitStatus_ok [of s1 STATUS_BSY 0] m1 s1(5) by (auto simp: waitNoBusy_def ata_status_def disk_const)
  obtain d1 where d1: "setPort io (portOf True DRIVE_AND_HEADER) (driveFlag False) (s1\<lparr>dev := d0\<rparr>) = s1\<lparr>dev := d1\<rparr>"
    "drv d1 = (drv (dev s))\<lparr>regDrive := driveFlag False\<rparr>"
    using setPort_abs [of DRIVE_AND_HEADER "driveFlag False" "s1\<lparr>dev := d0\<rparr>"] d0(2)
    by (auto simp: ata_out_def portOf_def portAddress_def disk_ports disk_regs)
  obtain d2 where d2: "waitReady io True (s1\<lparr>dev := d1\<rparr>) = Some (True, s1\<lparr>dev := d2\<rparr>)" "drv d2 = drv d1"
    using waitStatus_ok [of "s1\<lparr>dev := d1\<rparr>" STATUS_DRDY STATUS_DRDY] d1(2) idle by (auto simp: waitReady_def ata_status_def disk_const)
  let ?s2 = "s1\<lparr>dev := d2, isPrimaryInterruptOccur := False\<rparr>"
  obtain d3 where d3: "setPort io (portOf True COMMAND) COMMAND_DRIVE_IDENTIFY ?s2 = ?s2\<lparr>dev := d3\<rparr>"
    "drv d3 = ata_command COMMAND_DRIVE_IDENTIFY (drv d1)"
    using setPort_abs [of COMMAND COMMAND_DRIVE_IDENTIFY ?s2] d2(2)
    by (auto simp: ata_out_def portOf_def portAddress_def disk_ports disk_regs)
  have m3: "drv d3 = (drv d1)\<lparr>mode := DataIn 0 0 (identity (drv (dev s)))\<rparr>"
    using d3(2) d1(2) by (simp add: ata_command_def disk_const)
  let ?s3 = "?s2\<lparr>dev := d3\<rparr>"
  obtain d4 where d4: "waitDataRequest io True ?s3 = Some (True, ?s3\<lparr>dev := d4\<rparr>)" "drv d4 = drv d3"
    using waitDataRequest_ok [of ?s3 0 0 "identity (drv (dev s))"] m3 by auto
  let ?s4 = "?s3\<lparr>dev := d4\<rparr>"
  obtain d5 where d5: "info_loop io True 256 0 ?s4 = ?s4\<lparr>dev := d5, diskInfo := identity (drv (dev s))\<rparr>" "drv d5 = (drv d4)\<lparr>mode := Idle\<rparr>"
    using info_loop_ok [of ?s4 "identity (drv (dev s))" 256 0] m3 d4(2) ident info s1(6) by auto
  let ?s5 = "?s4\<lparr>dev := d5, diskInfo := identity (drv (dev s))\<rparr>"
  have "unlocked ?s5" "holds_lock ?s5" using s1(2,3) by (simp_all add: holds_lock_def lock_owner_def getRunningPid_def)
  then obtain s' where s': "unlockDisk ?s5 = Some s'" "unlocked s'" "lock_owner s' = -1" "boot_same ?s5 s'" "dev s' = d5"
    "diskInfo s' = identity (drv (dev s))" using unlock_boot [of ?s5] by auto
  have "readInformation io rs True False s = Some (True, s')"
    using s1(1) d0(1) d1(1) d2(1) d3(1) d4(1) d5(1) s'(1)
    by (simp add: readInformation_def clearDiskInterruptFlag_def Let_def)
  moreover have "boot_same s s'" using boot_same_trans [OF s1(4)] s'(4) by simp
  moreover have "mode (drv d5) = Idle" "media (drv d5) = media (drv (dev s))"
    using d5(2) d4(2) m3 d1(2) by simp_all
  ultimately show ?thesis using s'(2,3,5,6) by (intro exI [of _ s']) simp
qed

lemma initializePIC_ok: "\<exists>d. initializePIC io s = s\<lparr>dev := d, picState := ICW_SET\<rparr> \<and> drv d = drv (dev s)"
  by (auto simp: initializePIC_def setPort_def Let_def out_law ata_out_def)

lemma dev_before_pic: "s\<lparr>picState := p, dev := d\<rparr> = s\<lparr>dev := d, picState := p\<rparr>"
  by simp

lemma setIMR_ok: "picState s = ICW_SET \<Longrightarrow> \<exists>d. setIMR io imr s = (0, s\<lparr>dev := d\<rparr>) \<and> drv d = drv (dev s)"
  by (auto simp: setIMR_def setPort_def Let_def out_law ata_out_def)

lemma initializePIT_ok: "\<exists>d c. initializePIT io n b s = s\<lparr>dev := d, counter0Reload := c\<rparr> \<and> drv d = drv (dev s)"
  by (auto simp: initializePIT_def setPort_def Let_def out_law ata_out_def)

end

section \<open>The order of Main\<close>

lemma table_dev [simp]:
  "dev (insert_ready p s) = dev s" "dev (upd_pcb p f s) = dev s" "dev (set_state p t s) = dev s"
  "dev (registerInterruptHandler v h s) = dev s"
  by (simp_all add: insert_ready_def upd_pcb_def set_state_def registerInterruptHandler_def split: prod.split)

lemma createProcess_dev: "createProcess entryPoint a s = Some (p, s') \<Longrightarrow> dev s' = dev s"
  by (auto simp: createProcess_def case_prod_beta Let_def split: Option.bind_splits if_splits)

lemma initScheduler_dev:
  assumes "initScheduler c i buf s = Some s'" shows "dev s' = dev s"
  using assms
  by (auto simp: initScheduler_def Let_def dest!: createProcess_dev split: Option.bind_splits)

text \<open>The kernel when the scheduler starts.\<close>

definition before_scheduler :: "'d \<Rightarrow> ('d, 'z) dsk_scheme \<Rightarrow> ('d, 'z) dsk_scheme" where
  "before_scheduler dv d = initKeyboard (replicate QUEUE_COUNT 0) ((clear_kernel d)\<lparr>dev := dv, picState := ICW_SET\<rparr>)"

lemma before_scheduler:
  "Lifecycle.boot_ok (before_scheduler dv d)" "dev (before_scheduler dv d) = dv"
  "cpu (before_scheduler dv d) = cpu d" "tickCount (before_scheduler dv d) = 0"
  "interruptHandlers (before_scheduler dv d) = (replicate 48 None)[33 := Some keyboardISR]"
  "keyQueue (before_scheduler dv d) = initQueue (replicate QUEUE_COUNT 0) (int QUEUE_COUNT) 1"
  "keyWaiter (before_scheduler dv d) = NULL" "diskWaiter (before_scheduler dv d) b = NULL"
  "diskInfo (before_scheduler dv d) = replicate 256 0" "diskMutex (before_scheduler dv d) = diskMutex d"
  by (simp_all add: before_scheduler_def initKeyboard_def registerInterruptHandler_def clear_kernel_def Lifecycle.boot_ok_def
      INTERRUPT_VECTOR_COUNT_def IRQ_START_OFFSET_def IRQ_KEYBOARD_def)

text \<open>The driver's state when it asks the drive to identify itself.\<close>

definition before_identify :: "'d \<Rightarrow> ('d, 'z) dsk_scheme \<Rightarrow> ('d, 'z) dsk_scheme" where
  "before_identify dv s = (registerInterruptHandler (IRQ_START_OFFSET + IRQ_DISK2) secondaryDiskISR
     (registerInterruptHandler (IRQ_START_OFFSET + IRQ_DISK1) primaryDiskISR
       ((initMutex (diskMutex s) s)\<lparr>isPrimaryInterruptOccur := False, isSecondaryInterruptOccur := False\<rparr>)))\<lparr>dev := dv\<rparr>"

lemma before_identify:
  "dev (before_identify dv s) = dv" "lock_owner (before_identify dv s) = -1" "diskInfo (before_identify dv s) = diskInfo s"
  "keyQueue (before_identify dv s) = keyQueue s" "keyWaiter (before_identify dv s) = keyWaiter s"
  "diskWaiter (before_identify dv s) = diskWaiter s" "diskMutex (before_identify dv s) = diskMutex s"
  "asched_of (before_identify dv s) = asched_of s" "runningProcess (before_identify dv s) = runningProcess s"
  "interruptHandlers (before_identify dv s) = (interruptHandlers s)[46 := Some primaryDiskISR, 47 := Some secondaryDiskISR]"
  by (simp_all add: before_identify_def registerInterruptHandler_def initMutex_def upd_mutex_def lock_owner_def asched_of_def
      IRQ_START_OFFSET_def IRQ_DISK1_def IRQ_DISK2_def)

lemma before_identify_unlocked:
  assumes "sched_ok s" and "length (cpu s) = 24" and "may_block s" and "unat (tickCount s) < 2 ^ 63"
  shows "unlocked (before_identify dv s)"
proof -
  have "sched_ok (before_identify dv s) = sched_ok s"
    by (simp add: before_identify_def registerInterruptHandler_def initMutex_def upd_mutex_def sched_ok_def sched_rel_def core_of_def
        srep_def [abs_def] state_of_def [abs_def])
  moreover have "mutexes (before_identify dv s) (diskMutex s) = \<lparr>owner = -1, mcount = 0, waitList = no_list\<rparr>"
    by (simp add: before_identify_def registerInterruptHandler_def initMutex_def upd_mutex_def initList_def no_list_def)
  ultimately have "locks_rel {diskMutex s} (before_identify dv s) (\<lambda>_. [])"
    using assms(1) by (simp add: locks_rel_def mutex_ok_def no_list_def rep_def)
  then show ?thesis using assms(2-4)
    by (simp add: unlocked_def before_identify(7))
      (simp add: may_block_def before_identify_def registerInterruptHandler_def initMutex_def upd_mutex_def)
qed

text \<open>The parts together, before the shell.\<close>

definition kernel_up :: "('d \<Rightarrow> ata) \<Rightarrow> ('d, 'z) dsk_scheme \<Rightarrow> ('d, 'z) dsk_scheme \<Rightarrow> bool" where
  "kernel_up drv d d' \<longleftrightarrow> kernel_ok d' \<and> keys d' = [] \<and> disk_good drv {diskMutex d} (pcbAddr 0) d' \<and>
     asched_of d' = \<lparr>a_run = pcbAddr 0, a_ready = [pcbAddr 1], a_sleep = []\<rparr> \<and>
     diskInfo d' = identity (drv (dev d)) \<and> media (drv (dev d')) = media (drv (dev d))"

lemma kernel_upI:
  fixes drv :: "'d \<Rightarrow> ata"
  assumes u: "unlocked s" and free: "lock_owner s = -1" and m: "diskMutex s = diskMutex d"
    and drv: "mode (drv (dev s)) = Idle" "media (drv (dev s)) = media (drv (dev d))" "diskInfo s = identity (drv (dev d))"
    and total: "unat (getTotalSector (d\<lparr>diskInfo := identity (drv (dev d))\<rparr>)) \<le> 2 ^ 28"
    and sectors: "\<forall>i < 2 ^ 28. length (media (drv (dev d)) True i) = 512"
    and q: "keyQueue s = initQueue (replicate QUEUE_COUNT 0) (int QUEUE_COUNT) 1" "keyWaiter s = NULL" "\<forall>b. diskWaiter s b = NULL"
    and h: "interruptHandlers s = irq_table"
    and a: "asched_of s = \<lparr>a_run = pcbAddr 0, a_ready = [pcbAddr 1], a_sleep = []\<rparr>"
  shows "kernel_up drv d (enableInterrupt s)"
proof -
  let ?t = "snd (setIf True s)"
  have e: "enableInterrupt s = ?t" by (simp add: setIf_def)
  have L: "locks_rel {diskMutex s} s (\<lambda>_. [])" and len: "length (cpu s) = 24" and mb: "may_block s" and tk: "unat (tickCount s) < 2 ^ 63"
    using u by (simp_all add: unlocked_def)
  then have ok: "sched_ok s" by (simp add: locks_rel_def)
  note D = more_dsk' [OF more_ksync [OF setIf_disk(6)], of True s] more_kbd [OF more_ksync [OF setIf_disk(6)], of True s]
  have run: "runningProcess s = pcbAddr 0" using a by (simp add: asched_of_def)
  have "runs {diskMutex s} (pcbAddr 0) s" using L len mb tk run by (auto simp: runs_def)
  then have r: "runs {diskMutex d} (pcbAddr 0) ?t" using m by simp
  obtain pid where "getRunningPid s = int pid" using running_pid [OF ok] by auto
  then have o: "lock_owner ?t \<noteq> getRunningPid ?t" using free by (simp add: lock_owner_def)
  have t: "getTotalSector ?t = getTotalSector (d\<lparr>diskInfo := identity (drv (dev d))\<rparr>)" using drv(3) by (simp add: getTotalSector_def)
  have "disk_good drv {diskMutex d} (pcbAddr 0) ?t"
    unfolding disk_good_def t using r o interrupts_setIf(1) [OF len, of True] total drv sectors by simp
  moreover have "ring_ok (initQueue (replicate QUEUE_COUNT 0) (int QUEUE_COUNT) 1)" by (rule ring_ok_init) (simp_all add: QUEUE_COUNT_def)
  then have "kbd_ok ?t" using ok q D by (simp add: kbd_ok_def ring_at_def) (simp add: initQueue_def)
  moreover have "keys ?t = []" using q D by (simp add: keys_def contents_init)
  ultimately show ?thesis unfolding kernel_up_def e using D h a q drv(2,3) by (simp add: kernel_ok_def)
qed

context ata_drive
begin

lemma parts_up:
  assumes idle: "mode (drv (dev d)) = Idle" and ident: "length (identity (drv (dev d))) = 256" and len: "length (cpu d) = 24"
    and total: "unat (getTotalSector (d\<lparr>diskInfo := identity (drv (dev d))\<rparr>)) \<le> 2 ^ 28"
    and sectors: "\<forall>i < 2 ^ 28. length (media (drv (dev d)) True i) = 512"
  shows "\<exists>d1 d2. initScheduler cc ic (replicate (EXIT_QUEUE_COUNT * 4) 0)
       (initKeyboard (replicate QUEUE_COUNT 0) (snd (setIMR io 0 (initializePIC io (clear_kernel d))))) = Some d1 \<and>
     (\<forall>c. initDisk io rs c (initializePIT io n p d1) = Some (c, d2)) \<and> kernel_up drv d (enableInterrupt d2)"
proof -
  obtain a1 where a1: "initializePIC io (clear_kernel d) = (clear_kernel d)\<lparr>dev := a1, picState := ICW_SET\<rparr>" "drv a1 = drv (dev d)"
    using initializePIC_ok [of "clear_kernel d"] by (auto simp: clear_kernel_def)
  obtain a2 where a2: "setIMR io 0 (initializePIC io (clear_kernel d)) = (0, (clear_kernel d)\<lparr>dev := a2, picState := ICW_SET\<rparr>)" "drv a2 = drv (dev d)"
    using setIMR_ok [of "(clear_kernel d)\<lparr>dev := a1, picState := ICW_SET\<rparr>" 0] a1 by (auto simp: dev_before_pic)
  let ?k1 = "before_scheduler a2 d"
  note K = before_scheduler [of a2 d]
  have k1: "initKeyboard (replicate QUEUE_COUNT 0) (snd (setIMR io 0 (initializePIC io (clear_kernel d)))) = ?k1"
    using a2(1) by (simp add: before_scheduler_def)
  obtain k2 where k2: "initScheduler cc ic (replicate (EXIT_QUEUE_COUNT * 4) 0) ?k1 = Some k2" "sched_rel k2 [pcbAddr 1] []"
    "runningProcess k2 = pcbAddr 0" "collectorProcess k2 = pcbAddr 1" "idleProcess k2 = pcbAddr 2" "proc.more k2 = proc.more ?k1"
    "interruptHandlers k2 = (interruptHandlers ?k1)[32 := Some timerISR]" "tickCount k2 = 0" "length (cpu k2) = 24"
    by (rule initScheduler_rel [OF K(1), of "replicate (EXIT_QUEUE_COUNT * 4) 0" cc ic]) (simp_all add: K len)
  note D2 = more_dsk' [OF more_ksync [OF k2(6)]] more_kbd [OF more_ksync [OF k2(6)]]
  have dev2: "dev k2 = a2" using initScheduler_dev [OF k2(1)] K(2) by simp
  obtain a3 x where k3: "initializePIT io n p k2 = k2\<lparr>dev := a3, counter0Reload := x\<rparr>" "drv a3 = drv (dev d)"
    using initializePIT_ok [of n p k2] dev2 a2(2) by auto
  let ?k3 = "k2\<lparr>dev := a3, counter0Reload := x\<rparr>"
  define a4 where "a4 = out_byte io SECONDARY_DIGITAL_OUTPUT 0 (out_byte io PRIMARY_DIGITAL_OUTPUT 0 a3)"
  have a4: "drv a4 = drv (dev d)" using k3(2) control_law
    by (simp add: a4_def PRIMARY_DIGITAL_OUTPUT_def SECONDARY_DIGITAL_OUTPUT_def)
  let ?k4 = "before_identify a4 ?k3"
  note I = before_identify [of a4 ?k3]
  have ok3: "sched_ok ?k3" using sched_okI [OF k2(2)]
    by (simp add: sched_ok_def sched_rel_def core_of_def srep_def [abs_def] state_of_def [abs_def])
  have u4: "unlocked ?k4" by (rule before_identify_unlocked [OF ok3]) (simp_all add: k2 may_block_def)
  obtain k5 where k5: "readInformation io rs True False ?k4 = Some (True, k5)" "unlocked k5" "lock_owner k5 = -1" "boot_same ?k4 k5"
    "mode (drv (dev k5)) = Idle" "media (drv (dev k5)) = media (drv (dev d))" "diskInfo k5 = identity (drv (dev d))"
    using readInformation_ok [OF u4 I(2), where rs = rs] I(1,3) a4 idle ident D2 K(9) by auto
  have s4: "setPort io SECONDARY_DIGITAL_OUTPUT 0 (setPort io PRIMARY_DIGITAL_OUTPUT 0
      (registerInterruptHandler (IRQ_START_OFFSET + IRQ_DISK2) secondaryDiskISR
     (registerInterruptHandler (IRQ_START_OFFSET + IRQ_DISK1) primaryDiskISR
       ((initMutex (diskMutex ?k3) ?k3)\<lparr>isPrimaryInterruptOccur := False, isSecondaryInterruptOccur := False\<rparr>)))) = ?k4"
    by (simp add: before_identify_def setPort_def a4_def registerInterruptHandler_def initMutex_def upd_mutex_def)
  have init: "initDisk io rs c (initializePIT io n p k2) = Some (c, k5)" for c
    unfolding initDisk_def k3(1) Let_def s4 using k5(1) by simp
  have a3': "asched_of ?k3 = \<lparr>a_run = pcbAddr 0, a_ready = [pcbAddr 1], a_sleep = []\<rparr>"
    using asched_of_rel [OF k2(2)] k2(3) by (simp add: asched_of_def)
  have "interruptHandlers ?k4 = irq_table"
    unfolding I(10) using k2(7) K(5) by (simp add: irq_table_def list_update_swap)
  then have "kernel_up drv d (enableInterrupt k5)"
    using k5 I D2 K a3' total sectors by (intro kernel_upI) (auto simp: boot_same_def)
  then show ?thesis unfolding k1 using k2(1) init by blast
qed

end

section \<open>Main\<close>

lemma say_ok: "\<exists>c'. on_console (puts (lit t)) (on_line s d c) = Some (on_line s d c')"
  using print_lit(2) [of t c] by (auto simp: on_console_def on_line_def)

lemma move_ok: "\<exists>c'. on_console (Some \<circ> cursorLine n) (on_line s d c) = Some (on_line s d c')"
  by (intro exI [of _ "cursorLine n c"]) (simp add: on_console_def on_line_def)

lemma kernel_on_line: "on_kernel g (on_line s d c) = map_option (\<lambda>(r, d'). (r, on_line s d' c)) (g d)"
  by (cases "g d") (auto simp: on_kernel_def on_line_def)

lemma frames_on_line:
  "frameTable (on_line s d c) = frameTable s" "(on_line s d c)\<lparr>frameTable := f\<rparr> = on_line (s\<lparr>frameTable := f\<rparr>) d c"
  "screen (system (on_line s d c)) = c" "disk (system (on_line s d c)) = d"
  by (simp_all add: on_line_def)

lemma kernelInit_up:
  fixes s :: "('d, 'z) shell"
  defines "d \<equiv> disk (system s)"
  assumes drive: "ata_drive (ports e) drv" and idle: "mode (drv (dev d)) = Idle"
    and ident: "length (identity (drv (dev d))) = 256" and len: "length (cpu d) = 24"
    and total: "unat (getTotalSector (d\<lparr>diskInfo := identity (drv (dev d))\<rparr>)) \<le> 2 ^ 28"
    and sectors: "\<forall>i < 2 ^ 28. length (media (drv (dev d)) True i) = 512"
  shows "\<exists>s'. kernelInit e k m s = Some (initializeDescriptor (stubTable k) (syscallStub k) (clearBss (bssStart k) (bssEnd k) m), s') \<and>
    kernel_up drv d (disk (system s')) \<and> \<not> isMounted (system s') \<and> length (buffer512 (system s')) = SECTOR_SIZE"
proof -
  let ?s = "clear_statics s" and ?io = "ports e"
  let ?sf = "?s\<lparr>frameTable := initMemoryBitmap (frameTable ?s)\<rparr>"
  obtain d1 d2 where up: "initScheduler (collectorCode k) (idleCode k) (replicate (EXIT_QUEUE_COUNT * 4) 0)
       (initKeyboard (replicate QUEUE_COUNT 0) (snd (setIMR ?io 0 (initializePIC ?io (clear_kernel d))))) = Some d1"
     "\<And>c. initDisk ?io (waits e) c (initializePIT ?io (msToClock SLOT_TIME) True d1) = Some (c, d2)" "kernel_up drv d (enableInterrupt d2)"
    using ata_drive.parts_up [OF drive idle ident len total sectors] by metis
  have start: "?s = on_line ?s (clear_kernel d) (screen (system s))" by (simp add: clear_statics_def on_line_def d_def)
  define k0 where "k0 = clear_kernel d"
  define k1 where "k1 = snd (setIMR ?io 0 (initializePIC ?io k0))"
  define k2 where "k2 = initKeyboard (replicate QUEUE_COUNT 0) k1"
  obtain c0 where c0: "on_console (Some \<circ> cursorLine 7) ?s = Some (on_line ?s k0 c0)" using start move_ok k0_def by metis
  obtain c1 where c1: "on_console (puts (lit ''Switch to IA-32e mode'')) (on_line ?s k0 c0) = Some (on_line ?s k0 c1)" using say_ok by blast
  obtain c2 where c2: "on_console (puts (lit ''Success Booting'')) (on_line ?s k0 c1) = Some (on_line ?s k0 c2)" using say_ok by blast
  obtain c3 where c3: "on_console (puts (lit ''Initialize Descriptor'')) (on_line ?s k0 c2) = Some (on_line ?s k0 c3)" using say_ok by blast
  obtain c4 where c4: "on_console (puts (lit ''PIC initialize'')) (on_line ?s k1 c3) = Some (on_line ?s k1 c4)" using say_ok by blast
  obtain c5 where c5: "on_console (puts (lit ''Memory Pool Initialize'')) (on_line ?sf k2 c4) = Some (on_line ?sf k2 c5)" using say_ok by blast
  obtain c6 where c6: "on_console (puts (lit ''Disk Initialize'')) (on_line ?sf d2 c5) = Some (on_line ?sf d2 c6)" using say_ok by blast
  let ?s' = "on_line (?sf\<lparr>system := initFAT (system ?sf)\<rparr>) (enableInterrupt d2) c6"
  have disk_set: "(on_line ?sf x c)\<lparr>system := (system (on_line ?sf x c))\<lparr>disk := d2, screen := c\<rparr>\<rparr> = on_line ?sf d2 c" for x c
    by (simp add: on_line_def)
  have fat_set: "(on_line ?sf x c)\<lparr>system := initFAT (system (on_line ?sf x c))\<rparr> = on_line (?sf\<lparr>system := initFAT (system ?sf)\<rparr>) x c" for x c
    by (simp add: on_line_def initFAT_def)
  obtain r where imr: "setIMR ?io 0 (initializePIC ?io k0) = (r, k1)" unfolding k1_def by (metis prod.collapse)
  note up2 = up(1) [folded k0_def, folded k1_def, folded k2_def]
  have "kernelInit e k m s = Some (initializeDescriptor (stubTable k) (syscallStub k) (clearBss (bssStart k) (bssEnd k) m), ?s')"
    by (simp only: kernelInit_def Let_def bind.bind_lunit c0 c1 c2 c3 c4 c5 c6 kernel_on_line option.map prod.case imr k2_def [symmetric]
        frames_on_line o_apply up2 up(2) disk_set fat_set)
  moreover have "\<not> isMounted (system ?s')" "length (buffer512 (system ?s')) = SECTOR_SIZE"
    by (simp_all add: on_line_def initFAT_def clear_statics_def)
  ultimately show ?thesis using up(3) by (intro exI [of _ ?s']) (simp add: frames_on_line)
qed

text \<open>C10: \<^verbatim>\<open>Main\<close> up to the call of the shell, on any contents of memory and of the static variables and with a drive
  on the primary channel that follows the ATA protocol and is at rest: it returns, with every invariant of the kernel
  established. The boot process runs with interrupts on, the collector alone is ready, no key is buffered, the four interrupts have
  their handlers, the driver's mutex is free and the drive at rest with its contents as they were and its identification read, and no
  file system is mounted. The descriptor tables are those of \<^verbatim>\<open>initializeDescriptor\<close> on the memory whose
  static area has been cleared.\<close>

theorem boot_brings_up_the_kernel:
  fixes s :: "('d, 'z) shell"
  defines "d \<equiv> disk (system s)"
  assumes drive: "ata_drive (ports e) drv" and idle: "mode (drv (dev d)) = Idle"
    and ident: "length (identity (drv (dev d))) = 256" and len: "length (cpu d) = 24"
    and total: "unat (getTotalSector (d\<lparr>diskInfo := identity (drv (dev d))\<rparr>)) \<le> 2 ^ 28"
    and sectors: "\<forall>i < 2 ^ 28. length (media (drv (dev d)) True i) = 512"
  shows "\<exists>s'. kernelInit e k m s = Some (initializeDescriptor (stubTable k) (syscallStub k) (clearBss (bssStart k) (bssEnd k) m), s') \<and>
    kernel_ok (disk (system s')) \<and> keys (disk (system s')) = [] \<and>
    disk_good drv {diskMutex d} (pcbAddr 0) (disk (system s')) \<and>
    asched_of (disk (system s')) = \<lparr>a_run = pcbAddr 0, a_ready = [pcbAddr 1], a_sleep = []\<rparr> \<and>
    diskInfo (disk (system s')) = identity (drv (dev d)) \<and> media (drv (dev (disk (system s')))) = media (drv (dev d)) \<and>
    \<not> isMounted (system s') \<and> length (buffer512 (system s')) = SECTOR_SIZE"
  using kernelInit_up [OF drive idle [unfolded d_def] ident [unfolded d_def] len [unfolded d_def] total [unfolded d_def] sectors [unfolded d_def]]
  unfolding kernel_up_def d_def by metis

definition demo_linkage :: linkage where
  "demo_linkage = \<lparr>bssStart = 0x610000, bssEnd = 0x612000, stubTable = replicate 48 0x600100, syscallStub = 0x600200,
     collectorCode = 0x601000, idleCode = 0x602000\<rparr>"

lemma boot_brings_up_the_kernel_witness:
  "\<exists>s'. kernelInit demo_env demo_linkage (\<lambda>_. 0xAA) (shell_on ready_fat [3, 4])
     = Some (initializeDescriptor (replicate 48 0x600100) 0x600200 (clearBss 0x610000 0x612000 (\<lambda>_. 0xAA)), s') \<and>
     kernel_ok (disk (system s')) \<and> keys (disk (system s')) = [] \<and> diskInfo (disk (system s')) = identity blank_drive"
proof -
  let ?s = "shell_on ready_fat [3, 4]"
  have "length (cpu ready_disk) = 24" using ready_good by (auto simp: disk_good_def runs_def)
  then have dv: "dev (disk (system ?s)) = blank_drive" "length (cpu (disk (system ?s))) = 24"
    by (simp_all add: shell_on_def ready_fat_def) (simp add: ready_disk_def booted_disk_def setIf_def enableInterrupt_def)
  have w: "ata_drive (ports demo_env) (\<lambda>a. a)" using ideal.ata_drive_axioms by (simp add: demo_env_def)
  have h: "mode (dev (disk (system ?s))) = Idle" "length (identity (dev (disk (system ?s)))) = 256"
    "unat (getTotalSector ((disk (system ?s))\<lparr>diskInfo := identity (dev (disk (system ?s)))\<rparr>)) \<le> 2 ^ 28"
    "\<forall>i < 2 ^ 28. length (media (dev (disk (system ?s))) True i) = 512"
    by (simp_all add: dv blank_drive_def getTotalSector_def)
  from boot_brings_up_the_kernel [OF w h(1,2) dv(2) h(3,4), of demo_linkage "\<lambda>_. 0xAA"] show ?thesis
    unfolding dv demo_linkage_def linkage.simps by metis
qed

end
