(* ===== verification/SessionProps.thy ===== *)
theory SessionProps
  imports BootProps
begin

text \<open>
  From power on to a file: the kernel boots, and three lines typed at the prompt format the drive, mount it and create a file.
\<close>

section \<open>Typing at the prompt\<close>

text \<open>Between two commands the keyboard's interrupts have put the keys \<open>ks\<close> in the buffer; nothing else has changed.\<close>

definition keys_arrive :: "BYTE list \<Rightarrow> ('d, 'z) shell \<Rightarrow> ('d, 'z) shell \<Rightarrow> bool" where
  "keys_arrive ks s s' \<longleftrightarrow> (\<exists>q w. s' = s\<lparr>system := (system s)\<lparr>disk := (disk (system s))\<lparr>keyQueue := q, keyWaiter := w\<rparr>\<rparr>\<rparr> \<and>
     ring_at QUEUE_COUNT 1 q \<and> map hd (contents q) = ks \<and> (w = NULL \<or> live (allocProcessTable (disk (system s))) w))"

lemma keys_arriveE:
  assumes "keys_arrive ks s s'" and "disk_good drv U p (disk (system s))"
  obtains q w where "disk (system s') = (disk (system s))\<lparr>keyQueue := q, keyWaiter := w\<rparr>"
    "\<And>d c. on_line s' d c = on_line s d c" "typed_ahead (disk (system s')) ks (disk (system s'))"
proof -
  obtain q w where q: "s' = s\<lparr>system := (system s)\<lparr>disk := (disk (system s))\<lparr>keyQueue := q, keyWaiter := w\<rparr>\<rparr>\<rparr>"
    "ring_at QUEUE_COUNT 1 q" "map hd (contents q) = ks" "w = NULL \<or> live (allocProcessTable (disk (system s))) w"
    using assms(1) by (auto simp: keys_arrive_def)
  let ?d = "(disk (system s))\<lparr>keyQueue := q, keyWaiter := w\<rparr>"
  have "sched_ok (disk (system s))" "interrupts_on (disk (system s))" using assms(2) by (auto simp: disk_good_def runs_def locks_rel_def)
  then have "kbd_ok ?d" "interrupts_on ?d" "keys ?d = ks" using q(2-4) by (simp_all add: kbd_ok_def keys_def interrupts_on_def)
  moreover have "?d = ?d\<lparr>keyQueue := q\<rparr>" by simp
  ultimately have "typed_ahead ?d ks ?d" unfolding typed_ahead_def by blast
  then show thesis using q(1) by (intro that [of w q]) (simp_all add: on_line_def)
qed

text \<open>A line typed at the prompt, and the state in which its command starts: only the keyboard's part and the screen are new.\<close>

lemma typed_command:
  assumes "keys_arrive (ks @ [KEY_ENTER]) s s'" and g: "disk_good drv U p (disk (system s))" and line: "line_ok buf 0"
    and t: "types_text ks" "KEY_BACKSPACE \<notin> set ks" "length ks < 100"
  obtains buf' q w c where "cstr (buf_ptr buf') ks" "line_ok (buf'[0 := 0]) 0"
    "\<And>r. executeCommand e (buf_ptr buf') (on_line s ((disk (system s))\<lparr>keyQueue := q, keyWaiter := w\<rparr>) c) = Some r \<Longrightarrow>
      \<exists>c'. shell_turns e (length ks + 1) (0, buf, s') = Some (0, buf'[0 := 0], on_line r (disk (system r)) c')"
proof -
  obtain q w where k: "disk (system s') = (disk (system s))\<lparr>keyQueue := q, keyWaiter := w\<rparr>"
    "\<And>d c. on_line s' d c = on_line s d c" "typed_ahead (disk (system s')) (ks @ [KEY_ENTER]) (disk (system s'))"
    by (rule keys_arriveE [OF assms(1) g]) (rule that)
  obtain buf' d c where r: "typed_ahead (disk (system s')) [] d" "cstr (buf_ptr buf') ks" "line_ok (buf'[0 := 0]) 0"
    "\<And>r. executeCommand e (buf_ptr buf') (on_line s' d c) = Some r \<Longrightarrow>
      \<exists>c'. shell_turns e (length ks + 1) (0, buf, s') = Some (0, buf'[0 := 0], on_line r (disk (system r)) c')"
    by (rule typed_line [OF k(3) line t, where e = e]) (rule that)
  obtain q' where "d = (disk (system s'))\<lparr>keyQueue := q'\<rparr>" using r(1) by (auto simp: typed_ahead_def)
  then have "d = (disk (system s))\<lparr>keyQueue := q', keyWaiter := w\<rparr>" by (simp add: k(1))
  then show thesis using r(2-4) k(2) by (intro that [of buf' w q' c]) simp_all
qed

section \<open>Formatting and mounting\<close>

definition format_word :: "BYTE list" where "format_word = map of_char ''formatting''"
definition mount_word :: "BYTE list" where "mount_word = map of_char ''mount''"

lemma words_plain:
  "types_text format_word" "KEY_BACKSPACE \<notin> set format_word" "length format_word = 10"
  "types_text mount_word" "KEY_BACKSPACE \<notin> set mount_word" "length mount_word = 5"
  by (simp_all add: types_text_def format_word_def mount_word_def key_defs)

lemma format_line: "cstr cmd format_word \<Longrightarrow> executeCommand e cmd s = formatting e s"
proof -
  assume c: "cstr cmd format_word"
  have W: "takeWhile (\<lambda>b. b \<noteq> 32) format_word = format_word"
    "find (\<lambda>x. map of_char (cmd_name x) = format_word) commandTable = Some \<lparr>cmd_name = ''formatting'', usage = ''formatting'', func = Formatting\<rparr>"
    "format_word \<noteq> []"
    by (simp_all add: format_word_def commandTable_def)
  show ?thesis using first_word [OF c, of e s] unfolding W by (auto simp: words_plain W(3))
qed

lemma mount_line: "cstr cmd mount_word \<Longrightarrow> executeCommand e cmd s = mountCommand e s"
proof -
  assume c: "cstr cmd mount_word"
  have W: "takeWhile (\<lambda>b. b \<noteq> 32) mount_word = mount_word"
    "find (\<lambda>x. map of_char (cmd_name x) = mount_word) commandTable = Some \<lparr>cmd_name = ''mount'', usage = ''mount'', func = MountCommand\<rparr>"
    "mount_word \<noteq> []"
    by (simp_all add: mount_word_def commandTable_def)
  show ?thesis using first_word [OF c, of e s] unfolding W by (auto simp: words_plain W(3))
qed

lemma say_line: "\<exists>c'. on_console (puts (lit t)) s = Some (on_line s (disk (system s)) c')"
  using print_lit(2) by (rule on_console_some)

lemma prompt_line: "\<exists>c'. on_console (printAccountName accountName) s = Some (on_line s (disk (system s)) c')"
  using print_lit(1) [of "''NHW''"] print_lit(1) [of "''>''"]
  by (intro on_console_some) (simp add: printAccountName_def accountName_def bind_eq_Some_conv, metis)

text \<open>The disk behind the shell, apart from what is typed and shown.\<close>

lemma drive_keys:
  "getTotalSector (d\<lparr>keyQueue := q, keyWaiter := w\<rparr>) = getTotalSector d"
  "total_sectors (driver io rs) (d\<lparr>keyQueue := q, keyWaiter := w\<rparr>) = total_sectors (driver io rs) d"
  "disk_good drv U p (d\<lparr>keyQueue := q, keyWaiter := w\<rparr>) = disk_good drv U p d"
  "drive_sector drv (d\<lparr>keyQueue := q, keyWaiter := w\<rparr>) = drive_sector drv d"
  by (simp_all add: disk_good_keys)

lemma format_typed:
  fixes s s' :: "('d, 'z) shell"
  defines "N \<equiv> int (unat (getTotalSector (disk (system s))))"
  assumes sys: "disk_system (ports e) drv (waits e) U p" and k: "keys_arrive (format_word @ [KEY_ENTER]) s s'"
    and g: "disk_good drv U p (disk (system s))" and line: "line_ok buf 0" and b: "length (buffer512 (system s)) = SECTOR_SIZE" and N: "11 \<le> N"
  obtains buf' r where "shell_turns e 11 (0, buf, s') = Some (0, buf', r)" "line_ok buf' 0"
    "disk_good drv U p (disk (system r))" "getTotalSector (disk (system r)) = getTotalSector (disk (system s))"
    "formatted (drive_sector drv) N (buffer512 (system s)) (disk (system r))"
proof -
  let ?dv = "driver (ports e) (waits e)"
  have tot: "total_sectors ?dv d = getTotalSector d" for d :: "('d, 'z) dsk_scheme" by simp
  obtain buf' q w c where T: "cstr (buf_ptr buf') format_word" "line_ok (buf'[0 := 0]) 0"
    "\<And>r. executeCommand e (buf_ptr buf') (on_line s ((disk (system s))\<lparr>keyQueue := q, keyWaiter := w\<rparr>) c) = Some r \<Longrightarrow>
      \<exists>c'. shell_turns e (length format_word + 1) (0, buf, s') = Some (0, buf'[0 := 0], on_line r (disk (system r)) c')"
    by (rule typed_command [OF k g line words_plain(1,2), where e = e], simp add: words_plain, rule that)
  let ?d = "(disk (system s))\<lparr>keyQueue := q, keyWaiter := w\<rparr>"
  let ?s = "on_line s ?d c"
  have "unat (getTotalSector (disk (system s))) \<le> 2 ^ 28" using g by (simp add: disk_good_def)
  then have "N < 2 ^ 31" by (simp add: N_def del: of_nat_unat)
  moreover have "disk_good drv U p (disk (system ?s))" "length (buffer512 (system ?s)) = SECTOR_SIZE"
    "int (unat (total_sectors ?dv (disk (system ?s)))) = N" using g b by (simp_all add: drive_keys N_def)
  ultimately obtain d where d: "format ?dv (system ?s) = (True, (system ?s)\<lparr>disk := d, buffer512 := root_link, buffer4096 := replicate 4096 0\<rparr>)"
    "disk_good drv U p d" "total_sectors ?dv d = total_sectors ?dv (disk (system ?s))" "formatted (drive_sector drv) N (buffer512 (system ?s)) d"
    using block_device.format_writes [OF disk_system.driver_is_block_device [OF sys], of "system ?s"] N by metis
  let ?f = "?s\<lparr>system := (system ?s)\<lparr>disk := d, buffer512 := root_link, buffer4096 := replicate 4096 0\<rparr>\<rparr>"
  obtain c1 where c1: "on_console (puts (lit ''success disk format!'')) ?f = Some (on_line ?f (disk (system ?f)) c1)"
    using say_line by blast
  have "executeCommand e (buf_ptr buf') ?s = Some (on_line ?f (disk (system ?f)) c1)"
    unfolding format_line [OF T(1)] formatting_def drive_def d(1) Let_def prod.case using c1 by (simp only: if_True)
  from T(3) [OF this] obtain c2 where run: "shell_turns e 11 (0, buf, s') = Some (0, buf'[0 := 0], on_line ?f d c2)"
    by (auto simp: words_plain)
  show thesis by (rule that [OF run T(2)]) (use d in \<open>simp_all add: drive_keys disk_good_keys\<close>)
qed

lemma mount_typed:
  fixes s s' :: "('d, 'z) shell"
  defines "N \<equiv> int (unat (getTotalSector (disk (system s))))"
  assumes sys: "disk_system (ports e) drv (waits e) U p" and k: "keys_arrive (mount_word @ [KEY_ENTER]) s s'"
    and g: "disk_good drv U p (disk (system s))" and line: "line_ok buf 0" and N: "20 \<le> N"
    and f: "formatted (drive_sector drv) N bs (disk (system s))" and b: "length bs = SECTOR_SIZE"
  obtains buf' r where "shell_turns e 6 (0, buf, s') = Some (0, buf', r)" "line_ok buf' 0"
    "fs_ok (driver (ports e) (waits e)) (disk_good drv U p) (drive_sector drv) (system r)"
    "files (drive_sector drv) (system r) = Map.empty" "file_count (drive_sector drv) (system r) = 0" "bestIdx (system r) = 0"
    "first_free (drive_sector drv) (system r) 0 = Some 1" "0 < unat (clusterLinkSectorCount (fatInfor (system r)))"
    "valid_cluster (driver (ports e) (waits e)) (system r) 1"
proof -
  let ?dv = "driver (ports e) (waits e)" and ?s = "drive_sector drv" and ?g = "disk_good drv U p"
  obtain buf' q w c where T: "cstr (buf_ptr buf') mount_word" "line_ok (buf'[0 := 0]) 0"
    "\<And>r. executeCommand e (buf_ptr buf') (on_line s ((disk (system s))\<lparr>keyQueue := q, keyWaiter := w\<rparr>) c) = Some r \<Longrightarrow>
      \<exists>c'. shell_turns e (length mount_word + 1) (0, buf, s') = Some (0, buf'[0 := 0], on_line r (disk (system r)) c')"
    by (rule typed_command [OF k g line words_plain(4,5), where e = e], simp add: words_plain, rule that)
  let ?d = "(disk (system s))\<lparr>keyQueue := q, keyWaiter := w\<rparr>"
  let ?t = "on_line s ?d c"
  have M: "?g (disk (system ?t))" "formatted ?s (int (unat (total_sectors ?dv (disk (system ?t))))) bs (disk (system ?t))"
    "int (unat (total_sectors ?dv (disk (system ?t)))) = N"
    using g f by (simp_all add: drive_keys N_def formatted_def)
  have "unat (getTotalSector (disk (system s))) \<le> 2 ^ 28" using g by (simp add: disk_good_def)
  then have NN: "11 \<le> N" "N < 2 ^ 31" using N by (simp_all add: N_def del: of_nat_unat)
  obtain f' where F: "mount ?dv (system ?t) = Some (True, f')" "fs_ok ?dv ?g ?s f'" "files ?s f' = Map.empty" "file_count ?s f' = 0"
    "links_upd ?s f' ((\<lambda>_. 0)(0 := 0xFFFFFFFF)) f'" "bestIdx f' = 0" "total_sectors ?dv (disk f') = total_sectors ?dv (disk (system ?t))"
    "unat (clusterLinkSectorCount (fatInfor f')) = nat (link_sectors N)" "unat (dataAddress (fatInfor f')) = 1 + nat (link_sectors N)"
    using block_device.mount_formatted_step [OF disk_system.driver_is_block_device [OF sys] M(1,2) b, unfolded M(3), OF NN] by metis
  note L = link_sectors_eq(2,4) [OF NN(1)]
  have "first_free ?s f' 0 = Some 1"
    unfolding first_free_def by (rule find_first) (use F(5,8) L in \<open>simp_all add: links_upd_def\<close>)
  moreover have "17 + link_sectors N \<le> N" using L N by linarith
  then have "valid_cluster ?dv f' 1" using F(7-9) M(3) L(1) by (simp add: valid_cluster_def del: of_nat_unat) linarith
  moreover
  have g': "?g (disk f')" using F(2) by (simp add: fs_ok_def mounted_ok_def)
  let ?f = "?t\<lparr>system := f'\<rparr>"
  obtain c1 where c1: "on_console (puts (lit ''success Mount!'')) ?f = Some (on_line ?f (disk (system ?f)) c1)"
    using say_line by blast
  have "executeCommand e (buf_ptr buf') ?t = Some (on_line ?f (disk (system ?f)) c1)"
    unfolding mount_line [OF T(1)] mountCommand_def drive_def F(1) using c1 by simp
  from T(3) [OF this] obtain c2 where run: "shell_turns e 6 (0, buf, s') = Some (0, buf'[0 := 0], on_line ?f (disk f') c2)"
    by (auto simp: words_plain)
  note S = fs_ok_disk [OF F(2) g' refl refl, of c2]
  moreover have "file_count ?s (system (on_line ?f (disk f') c2)) = file_count ?s f'" "first_free ?s (system (on_line ?f (disk f') c2)) 0 = first_free ?s f' 0"
    "valid_cluster ?dv (system (on_line ?f (disk f') c2)) 1 = valid_cluster ?dv f' 1"
    by (simp_all add: file_count_def first_free_def link_of_def link_sector_def cluster_data_def valid_cluster_def)
  ultimately show thesis using F(3,4,6,8) L(1) by (intro that [OF run T(2)]) simp_all
qed

text \<open>A file, on a drive with nothing on it.\<close>

lemma touch_typed:
  assumes sys: "disk_system (ports e) drv (waits e) U p" and k: "keys_arrive (touch_word @ t @ [KEY_ENTER]) s s'" and line: "line_ok buf 0"
    and ok: "fs_ok (driver (ports e) (waits e)) (disk_good drv U p) (drive_sector drv) (system s)"
    and t: "types_text t" "KEY_BACKSPACE \<notin> set t" "length t \<le> 23"
    and s: "files (drive_sector drv) (system s) = Map.empty" "file_count (drive_sector drv) (system s) = 0" "bestIdx (system s) = 0"
      "first_free (drive_sector drv) (system s) 0 = Some 1" "0 < unat (clusterLinkSectorCount (fatInfor (system s)))"
      "valid_cluster (driver (ports e) (waits e)) (system s) 1"
  shows "\<exists>buf' r. shell_turns e (length t + 7) (0, buf, s') = Some (0, buf', r) \<and> line_ok buf' 0 \<and>
    fs_ok (driver (ports e) (waits e)) (disk_good drv U p) (drive_sector drv) (system r) \<and>
    files (drive_sector drv) (system r) = [t \<mapsto> (0, 1)]"
proof -
  let ?dv = "driver (ports e) (waits e)" and ?s = "drive_sector drv" and ?g = "disk_good drv U p" and ?ks = "touch_word @ t"
  have g: "?g (disk (system s))" using ok by (simp add: fs_ok_def mounted_ok_def)
  have ks: "keys_arrive (?ks @ [KEY_ENTER]) s s'" "types_text ?ks" "KEY_BACKSPACE \<notin> set ?ks" "length ?ks < 100" "length ?ks + 1 = length t + 7"
    using t k by (simp_all add: types_text_def touch_word_def key_defs)
  obtain buf' q w c where T: "cstr (buf_ptr buf') ?ks" "line_ok (buf'[0 := 0]) 0"
    "\<And>r. executeCommand e (buf_ptr buf') (on_line s ((disk (system s))\<lparr>keyQueue := q, keyWaiter := w\<rparr>) c) = Some r \<Longrightarrow>
      \<exists>c'. shell_turns e (length ?ks + 1) (0, buf, s') = Some (0, buf'[0 := 0], on_line r (disk (system r)) c')"
    by (rule typed_command [OF ks(1) g line ks(2-4), where e = e], rule that)
  let ?d = "(disk (system s))\<lparr>keyQueue := q, keyWaiter := w\<rparr>"
  let ?t = "on_line s ?d c"
  have d: "?g ?d" "?s ?d = ?s (disk (system s))" "total_sectors ?dv ?d = total_sectors ?dv (disk (system s))"
    using g by (simp_all add: drive_keys)
  note F = fs_ok_disk [OF ok d, of c]
  have r: "fs_ok ?dv ?g ?s (system ?t)" "files ?s (system ?t) t = None" "file_count ?s (system ?t) < 128"
    "bestIdx (system ?t) = int 0" "first_free ?s (system ?t) 0 = Some 1" "0 div 128 < unat (clusterLinkSectorCount (fatInfor (system ?t)))"
    "valid_cluster ?dv (system ?t) (0 + 1)"
    using F s d by (simp_all add: file_count_def first_free_def link_of_def link_sector_def cluster_data_def valid_cluster_def drive_keys)
  obtain f' where f': "executeCommand e (buf_ptr buf') ?t = Some (?t\<lparr>system := f'\<rparr>)" "fs_ok ?dv ?g ?s f'"
    "files ?s f' = (files ?s (system ?t))(t \<mapsto> (0, 0 + 1))"
    using touch_runs [OF sys refl refl r(1) T(1) t(3) r(2-7)] by metis
  obtain c' where run: "shell_turns e (length t + 7) (0, buf, s') = Some (0, buf'[0 := 0], on_line (?t\<lparr>system := f'\<rparr>) (disk f') c')"
    using T(3) [OF f'(1)] unfolding ks(5) by auto
  have "?g (disk f')" using f'(2) by (simp add: fs_ok_def mounted_ok_def)
  from fs_ok_disk [OF f'(2) this refl refl, of c'] show ?thesis using run T(2) f'(3) F(2) s(1)
    by (intro exI [of _ "buf'[0 := 0]"] exI [of _ "on_line (?t\<lparr>system := f'\<rparr>) (disk f') c'"]) simp
qed

section \<open>Power on\<close>

text \<open>C11: From power on to a file. On a machine whose drive, of at least 20 sectors, follows the ATA protocol, \<^verbatim>\<open>Main\<close> reaches the
  prompt from any contents of memory and of the static variables; when the keys of \<^verbatim>\<open>formatting\<close> and enter have arrived, the shell takes one turn
  for each of them and waits for a key again; so it does after \<^verbatim>\<open>mount\<close>; and after \<^verbatim>\<open>touch\<close> with a name of at most 23 characters the drive
  has a valid file system with exactly this file, empty, in cluster 1.\<close>

theorem from_power_on_to_a_file:
  fixes s :: "('d, 'z) shell" and drv :: "'d \<Rightarrow> ata"
  defines "d \<equiv> disk (system s)"
  assumes sys: "disk_system (ports e) drv (waits e) {diskMutex d} (pcbAddr 0)" and idle: "mode (drv (dev d)) = Idle"
    and ident: "length (identity (drv (dev d))) = 256" and len: "length (cpu d) = 24"
    and total: "20 \<le> unat (getTotalSector (d\<lparr>diskInfo := identity (drv (dev d))\<rparr>))"
      "unat (getTotalSector (d\<lparr>diskInfo := identity (drv (dev d))\<rparr>)) \<le> 2 ^ 28"
    and sectors: "\<forall>i < 2 ^ 28. length (media (drv (dev d)) True i) = 512"
    and t: "types_text t" "KEY_BACKSPACE \<notin> set t" "length t \<le> 23"
  shows "\<exists>tb b1 s1. kernelMain e k 0 m s = Some (tb, 0, b1, s1) \<and>
    (\<forall>s1'. keys_arrive (format_word @ [KEY_ENTER]) s1 s1' \<longrightarrow> (\<exists>b2 s2. shell_turns e 11 (0, b1, s1') = Some (0, b2, s2) \<and>
    (\<forall>s2'. keys_arrive (mount_word @ [KEY_ENTER]) s2 s2' \<longrightarrow> (\<exists>b3 s3. shell_turns e 6 (0, b2, s2') = Some (0, b3, s3) \<and>
    (\<forall>s3'. keys_arrive (touch_word @ t @ [KEY_ENTER]) s3 s3' \<longrightarrow> (\<exists>b4 s4. shell_turns e (length t + 7) (0, b3, s3') = Some (0, b4, s4) \<and>
      fs_ok (driver (ports e) (waits e)) (disk_good drv {diskMutex d} (pcbAddr 0)) (drive_sector drv) (system s4) \<and>
      files (drive_sector drv) (system s4) = [t \<mapsto> (0, 1)]))))))"
proof -
  let ?g = "disk_good drv {diskMutex d} (pcbAddr 0)" and ?dv = "driver (ports e) (waits e)" and ?s = "drive_sector drv"
  have drive: "ata_drive (ports e) drv" using sys by (rule disk_system.axioms(1))
  obtain tb s0 where boot: "kernelInit e k m s = Some (tb, s0)" "kernel_up drv d (disk (system s0))" "length (buffer512 (system s0)) = SECTOR_SIZE"
    using kernelInit_up [OF drive idle [unfolded d_def] ident [unfolded d_def] len [unfolded d_def] total(2) [unfolded d_def] sectors [unfolded d_def]]
    unfolding d_def by metis
  obtain c where c: "on_console (printAccountName accountName) s0 = Some (on_line s0 (disk (system s0)) c)"
    using prompt_line by blast
  let ?s1 = "on_line s0 (disk (system s0)) c"
  have start: "kernelMain e k 0 m s = Some (tb, 0, replicate 100 0, ?s1)" using boot(1) c by (simp add: kernelMain_def startShell_def)
  have g1: "?g (disk (system ?s1))" "length (buffer512 (system ?s1)) = SECTOR_SIZE" using boot(2,3) by (simp_all add: kernel_up_def)
  have "getTotalSector (disk (system ?s1)) = getTotalSector (d\<lparr>diskInfo := identity (drv (dev d))\<rparr>)"
    using boot(2) by (simp add: kernel_up_def getTotalSector_def)
  then have N: "20 \<le> int (unat (getTotalSector (disk (system ?s1))))" "11 \<le> int (unat (getTotalSector (disk (system ?s1))))"
    using total(1) by (simp_all del: of_nat_unat)
  have "\<exists>b3 s3. shell_turns e 6 (0, b2, s2') = Some (0, b3, s3) \<and> (\<forall>s3'. keys_arrive (touch_word @ t @ [KEY_ENTER]) s3 s3' \<longrightarrow>
      (\<exists>b4 s4. shell_turns e (length t + 7) (0, b3, s3') = Some (0, b4, s4) \<and> fs_ok ?dv ?g ?s (system s4) \<and> files ?s (system s4) = [t \<mapsto> (0, 1)]))"
    if f: "?g (disk (system s2))" "line_ok b2 0" "getTotalSector (disk (system s2)) = getTotalSector (disk (system ?s1))"
      "formatted ?s (int (unat (getTotalSector (disk (system ?s1))))) (buffer512 (system ?s1)) (disk (system s2))"
      and k2: "keys_arrive (mount_word @ [KEY_ENTER]) s2 s2'" for b2 s2 s2'
    by (rule mount_typed [OF sys k2 f(1,2) _ _ g1(2), unfolded f(3), OF N(1) f(4)]) (use touch_typed [OF sys] t in metis)
  then show ?thesis using start
    by (intro exI [of _ tb] exI [of _ "replicate 100 0"] exI [of _ ?s1]) (metis format_typed [OF sys _ g1(1) line_ok_empty g1(2) N(2)])
qed

lemma arrival: "length ks < QUEUE_COUNT \<Longrightarrow> \<exists>s'. keys_arrive ks s s'"
  unfolding keys_arrive_def using key_buffer [of ks] by blast

lemma from_power_on_to_a_file_witness:
  "\<exists>tb b1 s1 s1' b2 s2 s2' b3 s3 s3' b4 s4. kernelMain demo_env demo_linkage 0 (\<lambda>_. 0xAA) (shell_on ready_fat [3, 4]) = Some (tb, 0, b1, s1) \<and>
     keys_arrive (format_word @ [KEY_ENTER]) s1 s1' \<and> shell_turns demo_env 11 (0, b1, s1') = Some (0, b2, s2) \<and>
     keys_arrive (mount_word @ [KEY_ENTER]) s2 s2' \<and> shell_turns demo_env 6 (0, b2, s2') = Some (0, b3, s3) \<and>
     keys_arrive (touch_word @ [97] @ [KEY_ENTER]) s3 s3' \<and> shell_turns demo_env 8 (0, b3, s3') = Some (0, b4, s4) \<and>
     files (drive_sector (\<lambda>a. a)) (system s4) = [[97] \<mapsto> (0, 1)]"
proof -
  let ?s = "shell_on ready_fat [3, 4]"
  have "length (cpu ready_disk) = 24" "diskMutex ready_disk = 0x700" using ready_good by (auto simp: disk_good_def runs_def)
  then have dv: "dev (disk (system ?s)) = blank_drive" "length (cpu (disk (system ?s))) = 24" "diskMutex (disk (system ?s)) = 0x700"
    by (simp_all add: shell_on_def ready_fat_def) (simp add: ready_disk_def booted_disk_def setIf_def enableInterrupt_def)
  have sys: "disk_system (ports demo_env) (\<lambda>a. a) (waits demo_env) {diskMutex (disk (system ?s))} (pcbAddr 0)"
    using ideal_system.disk_system_axioms by (simp add: demo_env_def dv(3))
  have h: "mode (dev (disk (system ?s))) = Idle" "length (identity (dev (disk (system ?s)))) = 256"
    "20 \<le> unat (getTotalSector ((disk (system ?s))\<lparr>diskInfo := identity (dev (disk (system ?s)))\<rparr>))"
    "unat (getTotalSector ((disk (system ?s))\<lparr>diskInfo := identity (dev (disk (system ?s)))\<rparr>)) \<le> 2 ^ 28"
    "\<forall>i < 2 ^ 28. length (media (dev (disk (system ?s))) True i) = 512"
    by (simp_all add: dv blank_drive_def getTotalSector_def)
  have t: "types_text [97]" "KEY_BACKSPACE \<notin> set [97]" "length [97 :: BYTE] \<le> 23" "length [97 :: BYTE] + 7 = 8"
    by (simp_all add: types_text_def key_defs)
  have len: "length (format_word @ [KEY_ENTER]) < QUEUE_COUNT" "length (mount_word @ [KEY_ENTER]) < QUEUE_COUNT"
    "length (touch_word @ [97] @ [KEY_ENTER]) < QUEUE_COUNT" by (simp_all add: words_plain touch_word_def QUEUE_COUNT_def)
  note arrive = arrival [OF len(1)] arrival [OF len(2)] arrival [OF len(3)]
  from from_power_on_to_a_file [OF sys h(1,2) dv(2) h(3-5) t(1-3), of demo_linkage "\<lambda>_. 0xAA", unfolded t(4)] arrive show ?thesis
    by metis
qed

end
