(* ===== verification/Stubs.thy ===== *)
theory Stubs
  imports Syscall DescriptorProps
begin

text \<open>
  The entry stubs (\<^verbatim>\<open>arch/Handler.asm\<close>): what the processor pushes when it takes an interrupt, the stub's code as a list
  of instructions over registers and physical memory, and its way back. They connect the kernel, whose model keeps the frame of the
  interrupted program in a field, to the registers of that program.
\<close>

section \<open>The machine\<close>

datatype greg = RAX | RBX | RCX | RDX | RSI | RDI | RBP | R8 | R9 | R10 | R11 | R12 | R13 | R14 | R15
datatype sreg = CS | SS | DS | ES | FS | GS

record machine =
  gpr :: "greg \<Rightarrow> QWORD"
  rsp :: nat
  seg :: "sreg \<Rightarrow> WORD"
  ip :: QWORD
  rflags :: QWORD
  mem :: memory

definition load64 :: "memory \<Rightarrow> nat \<Rightarrow> QWORD" where
  "load64 m a = word_of_nat (le_decode (fetch m a 8))"

definition low16 :: "QWORD \<Rightarrow> WORD \<Rightarrow> QWORD" where
  "low16 r w = (r AND NOT 0xFFFF) OR ucast w"

text \<open>The instructions the stubs are made of. The flags of \<^verbatim>\<open>xor\<close> are those of a zero result.\<close>

datatype instr = Push greg | Pop greg | PushSeg sreg | PopSeg sreg
  | MovAxSeg sreg | MovSegAx sreg | MovAx WORD | MovImm greg QWORD
  | LoadSP greg nat | StoreSP nat greg | XorSelf greg
  | PushF | PopF | MovReg greg greg | MovFromSP greg | MovToSP greg | Load greg greg QWORD | Store greg QWORD greg
  | AddImm greg QWORD | SubImm greg QWORD

text \<open>The status flags of a sum and of a difference: carry, parity of the low byte, carry out of the low nibble, zero, sign, overflow.\<close>

definition STATUS_FLAGS :: QWORD where "STATUS_FLAGS = 0x8D5"

definition with_status :: "bool \<Rightarrow> bool \<Rightarrow> bool \<Rightarrow> QWORD \<Rightarrow> QWORD \<Rightarrow> QWORD" where
  "with_status cf af ov r fl = (fl AND NOT STATUS_FLAGS) OR
     ((if cf then 0x1 else 0) OR (if even (length (filter (bit r) [0..<8])) then 0x4 else 0) OR (if af then 0x10 else 0) OR
      (if r = 0 then 0x40 else 0) OR (if bit r 63 then 0x80 else 0) OR (if ov then 0x800 else 0))"

definition add_flags :: "QWORD \<Rightarrow> QWORD \<Rightarrow> QWORD \<Rightarrow> QWORD" where
  "add_flags a b = with_status (unat a + unat b \<ge> 2 ^ 64) (unat a mod 16 + unat b mod 16 \<ge> 16)
     (bit a 63 = bit b 63 \<and> bit (a + b) 63 \<noteq> bit a 63) (a + b)"

definition sub_flags :: "QWORD \<Rightarrow> QWORD \<Rightarrow> QWORD \<Rightarrow> QWORD" where
  "sub_flags a b = with_status (unat a < unat b) (unat a mod 16 < unat b mod 16)
     (bit a 63 \<noteq> bit b 63 \<and> bit (a - b) 63 \<noteq> bit a 63) (a - b)"

fun step :: "instr \<Rightarrow> machine \<Rightarrow> machine" where
  "step (Push r) m = m\<lparr>rsp := rsp m - 8, mem := store64 (rsp m - 8) (gpr m r) (mem m)\<rparr>"
| "step (Pop r) m = m\<lparr>gpr := (gpr m)(r := load64 (mem m) (rsp m)), rsp := rsp m + 8\<rparr>"
| "step (PushSeg r) m = m\<lparr>rsp := rsp m - 8, mem := store64 (rsp m - 8) (ucast (seg m r)) (mem m)\<rparr>"
| "step (PopSeg r) m = m\<lparr>rsp := rsp m + 8, seg := (seg m)(r := ucast (load64 (mem m) (rsp m)))\<rparr>"
| "step (MovAxSeg r) m = m\<lparr>gpr := (gpr m)(RAX := low16 (gpr m RAX) (seg m r))\<rparr>"
| "step (MovSegAx r) m = m\<lparr>seg := (seg m)(r := ucast (gpr m RAX))\<rparr>"
| "step (MovAx w) m = m\<lparr>gpr := (gpr m)(RAX := low16 (gpr m RAX) w)\<rparr>"
| "step (MovImm r w) m = m\<lparr>gpr := (gpr m)(r := w)\<rparr>"
| "step (LoadSP r n) m = m\<lparr>gpr := (gpr m)(r := load64 (mem m) (rsp m + n))\<rparr>"
| "step (StoreSP n r) m = m\<lparr>mem := store64 (rsp m + n) (gpr m r) (mem m)\<rparr>"
| "step (XorSelf r) m = m\<lparr>gpr := (gpr m)(r := 0), rflags := (rflags m AND NOT 0x881) OR 0x44\<rparr>"
| "step PushF m = m\<lparr>rsp := rsp m - 8, mem := store64 (rsp m - 8) (rflags m) (mem m)\<rparr>"
| "step PopF m = m\<lparr>rsp := rsp m + 8, rflags := load64 (mem m) (rsp m)\<rparr>"
| "step (MovReg r q) m = m\<lparr>gpr := (gpr m)(r := gpr m q)\<rparr>"
| "step (MovFromSP r) m = m\<lparr>gpr := (gpr m)(r := word_of_nat (rsp m))\<rparr>"
| "step (MovToSP r) m = m\<lparr>rsp := unat (gpr m r)\<rparr>"
| "step (Load r q n) m = m\<lparr>gpr := (gpr m)(r := load64 (mem m) (unat (gpr m q + n)))\<rparr>"
| "step (Store q n r) m = m\<lparr>mem := store64 (unat (gpr m q + n)) (gpr m r) (mem m)\<rparr>"
| "step (AddImm r n) m = m\<lparr>gpr := (gpr m)(r := gpr m r + n), rflags := add_flags (gpr m r) n (rflags m)\<rparr>"
| "step (SubImm r n) m = m\<lparr>gpr := (gpr m)(r := gpr m r - n), rflags := sub_flags (gpr m r) n (rflags m)\<rparr>"

definition run :: "instr list \<Rightarrow> machine \<Rightarrow> machine" where
  "run xs m = fold step xs m"

section \<open>Into a stub and out of it\<close>

text \<open>The processor takes an interrupt through a gate to \<open>entry\<close>, on the stack that ends at \<open>sp0\<close>, with an error code for some
  exceptions. It clears the interrupt flag; coming from ring 3 it loads a null stack segment.\<close>

definition deliver :: "nat \<Rightarrow> QWORD option \<Rightarrow> QWORD \<Rightarrow> machine \<Rightarrow> machine" where
  "deliver sp0 err entry m =
     (let f = store64 (sp0 - 8) (ucast (seg m SS)) (mem m);
          f = store64 (sp0 - 16) (word_of_nat (rsp m)) f;
          f = store64 (sp0 - 24) (rflags m) f;
          f = store64 (sp0 - 32) (ucast (seg m CS)) f;
          f = store64 (sp0 - 40) (ip m) f;
          f = (case err of None \<Rightarrow> f | Some c \<Rightarrow> store64 (sp0 - 48) c f)
      in m\<lparr>rsp := (case err of None \<Rightarrow> sp0 - 40 | Some c \<Rightarrow> sp0 - 48),
           seg := (seg m)(CS := ucast CODE_DESCRIPTOR_OFFSET, SS := (if seg m CS AND 3 = 0 then seg m SS else 0)),
           ip := entry, rflags := rflags m AND NOT RFLAGS_IF, mem := f\<rparr>)"

definition iretq :: "machine \<Rightarrow> machine" where
  "iretq m = m\<lparr>rsp := unat (load64 (mem m) (rsp m + 24)),
     seg := (seg m)(CS := ucast (load64 (mem m) (rsp m + 8)), SS := ucast (load64 (mem m) (rsp m + 32))),
     ip := load64 (mem m) (rsp m), rflags := load64 (mem m) (rsp m + 16)\<rparr>"

definition PUSHREG :: "instr list" where
  "PUSHREG = [Push R15, Push R14, Push R13, Push R12, Push R11, Push R10, Push R9, Push R8, Push RBP, Push RDI, Push RSI,
     Push RDX, Push RCX, Push RBX, Push RAX, MovAxSeg DS, Push RAX, MovAxSeg ES, Push RAX, PushSeg FS, PushSeg GS]"

definition SAVEREG :: "instr list" where
  "SAVEREG = PUSHREG @ [MovAx 0x08, MovSegAx DS, MovSegAx ES, MovSegAx GS, MovSegAx FS]"

definition LOADREG :: "instr list" where
  "LOADREG = [PopSeg GS, PopSeg FS, Pop RAX, MovSegAx ES, Pop RAX, MovSegAx DS, Pop RAX, Pop RBX, Pop RCX, Pop RDX, Pop RSI,
     Pop RDI, Pop RBP, Pop R8, Pop R9, Pop R10, Pop R11, Pop R12, Pop R13, Pop R14, Pop R15]"

definition SAVEREG_SIZE :: nat where "SAVEREG_SIZE = 19 * 8"

text \<open>The stubs, each with the C function it calls as an argument. The code behind the call of an exception's stub is never reached.\<close>

definition ISR :: "nat \<Rightarrow> (machine \<Rightarrow> machine) \<Rightarrow> machine \<Rightarrow> machine" where
  "ISR vec call m = iretq (run LOADREG (call (run (SAVEREG @ [MovImm RDI (of_nat vec)]) m)))"

definition EXC :: "nat \<Rightarrow> machine \<Rightarrow> machine" where
  "EXC vec = run (SAVEREG @ [MovImm RDI (of_nat vec), XorSelf RSI, LoadSP RDX SAVEREG_SIZE, LoadSP RCX (SAVEREG_SIZE + 8)])"

definition EXC_ERRCODE :: "nat \<Rightarrow> machine \<Rightarrow> machine" where
  "EXC_ERRCODE vec = run (SAVEREG @ [MovImm RDI (of_nat vec), LoadSP RSI SAVEREG_SIZE, LoadSP RDX (SAVEREG_SIZE + 8),
     LoadSP RCX (SAVEREG_SIZE + 16)])"

definition syscall_arguments :: "instr list" where
  "syscall_arguments = [LoadSP RDI (4 * 8), LoadSP RSI (9 * 8), LoadSP RDX (8 * 8), LoadSP RCX (7 * 8)]"

definition syscallEntry :: "(machine \<Rightarrow> machine) \<Rightarrow> machine \<Rightarrow> machine" where
  "syscallEntry call m = iretq (run (StoreSP (4 * 8) RAX # LOADREG) (call (run (SAVEREG @ syscall_arguments) m)))"

text \<open>The stub of a vector; those from 21 to 31 share that of 20.\<close>

datatype stub_kind = Exception nat bool | Interrupt nat

definition vectorStub :: "nat \<Rightarrow> stub_kind" where
  "vectorStub vec =
     (if vec > 20 \<and> vec < 32 then Exception 20 False
      else if vec \<le> 20 then Exception vec (vec \<in> {8, 10, 11, 12, 13, 14, 17}) else Interrupt vec)"

section \<open>The frame\<close>

text \<open>The indices of \<^verbatim>\<open>Process.h\<close>.\<close>

fun reg_index :: "greg \<Rightarrow> nat" where
  "reg_index RAX = 4" | "reg_index RBX = 5" | "reg_index RCX = 6" | "reg_index RDX = 7" | "reg_index RSI = 8"
| "reg_index RDI = 9" | "reg_index RBP = 10" | "reg_index R8 = 11" | "reg_index R9 = 12" | "reg_index R10 = 13"
| "reg_index R11 = 14" | "reg_index R12 = 15" | "reg_index R13 = 16" | "reg_index R14 = 17" | "reg_index R15 = 18"

fun seg_index :: "sreg \<Rightarrow> nat" where
  "seg_index GS = 0" | "seg_index FS = 1" | "seg_index ES = 2" | "seg_index DS = 3" | "seg_index CS = 20" | "seg_index SS = 23"

text \<open>A machine that runs with the registers of a context.\<close>

definition loaded_with :: "QWORD list \<Rightarrow> machine \<Rightarrow> bool" where
  "loaded_with c m \<longleftrightarrow> (\<forall>r. gpr m r = c ! reg_index r) \<and> (\<forall>r. seg m r = ucast (c ! seg_index r)) \<and>
     ip m = c ! REG_RIP \<and> rflags m = c ! REG_RFLAGS \<and> rsp m = unat (c ! REG_RSP)"

definition frame :: "memory \<Rightarrow> nat \<Rightarrow> QWORD list" where
  "frame m a = map (\<lambda>i. load64 m (8 * i + a)) [0..<24]"

text \<open>What a stub saves of a machine; two of the segment registers are saved in the lower part of \<open>RAX\<close>.\<close>

definition saved :: "machine \<Rightarrow> QWORD list" where
  "saved m = [ucast (seg m GS), ucast (seg m FS), low16 (low16 (gpr m RAX) (seg m DS)) (seg m ES), low16 (gpr m RAX) (seg m DS)]
     @ map (gpr m) [RAX, RBX, RCX, RDX, RSI, RDI, RBP, R8, R9, R10, R11, R12, R13, R14, R15]
     @ [ip m, ucast (seg m CS), rflags m, word_of_nat (rsp m), ucast (seg m SS)]"

lemma load64_store64: "load64 (store64 a w m) a = w"
proof -
  have "unat w < 256 ^ 8" using unsigned_less [of w] by simp
  then show ?thesis by (simp add: load64_def store64_def fetch_store_same)
qed

lemma load64_store64_other: "b + 8 \<le> a \<or> a + 8 \<le> b \<Longrightarrow> load64 (store64 a w m) b = load64 m b"
  by (simp add: load64_def store64_def fetch_store_other)

lemma ucast_low16: "(ucast (low16 r w) :: WORD) = w"
proof -
  have "(0xFFFF :: QWORD) = mask 16" by (simp add: mask_eq_exp_minus_1)
  then have "low16 r w = (r AND NOT (mask 16)) OR ucast w" by (simp only: low16_def)
  then show ?thesis by (intro bit_word_eqI) (auto simp: bit_simps)
qed

lemma ucast_seg: "(ucast (ucast w :: QWORD) :: WORD) = w"
  by (rule bit_word_eqI) (auto simp: bit_simps)

lemma saved_index:
  "saved m ! reg_index r = gpr m r" "ucast (saved m ! seg_index q) = seg m q" "saved m ! REG_RIP = ip m"
  "saved m ! REG_RFLAGS = rflags m" "saved m ! REG_RSP = word_of_nat (rsp m)" "length (saved m) = 24"
proof -
  show "saved m ! reg_index r = gpr m r" by (cases r) (simp_all add: saved_def)
  show "ucast (saved m ! seg_index q) = seg m q" by (cases q) (simp_all add: saved_def ucast_low16 ucast_seg)
qed (simp_all add: saved_def reg_defs)

lemma loaded_saved:
  assumes "rsp m < 2 ^ 64"
  shows "loaded_with (saved m) m' \<longleftrightarrow> gpr m' = gpr m \<and> seg m' = seg m \<and> ip m' = ip m \<and> rflags m' = rflags m \<and> rsp m' = rsp m"
  using assms by (auto simp: loaded_with_def saved_index fun_eq_iff unat_of_nat)

section \<open>Saving and restoring\<close>

lemma run_append: "run (xs @ ys) m = run ys (run xs m)"
  by (simp add: run_def)

lemma run_Cons: "run (x # xs) m = run xs (step x m)"
  by (simp add: run_def)

lemma upt_24: "[0..<24] = [0, 1, 2, 3, 4, 5, 6, 7, 8, 9, 10, 11, 12, 13, 14, 15, 16, 17, 18, 19, 20, 21, 22, 23::nat]"
  by code_simp

text \<open>The state in which a stub's own instructions start.\<close>

definition entered :: "nat \<Rightarrow> machine \<Rightarrow> machine \<Rightarrow> bool" where
  "entered a m x \<longleftrightarrow> rsp x = a \<and> frame (mem x) a = saved m \<and> (\<forall>y. y < a \<or> a + 192 \<le> y \<longrightarrow> mem x y = mem m y)"

lemma store64_outside: "x < a \<or> a + 8 \<le> x \<Longrightarrow> store64 a w m x = m x"
  by (auto simp: store64_def store_bytes_def)

lemma save_entered: "entered a m (run SAVEREG (deliver (a + 192) None entry m))"
  unfolding entered_def
proof (intro conjI allI impI)
  let ?x = "run SAVEREG (deliver (a + 192) None entry m)"
  show "rsp ?x = a" by (simp add: run_def SAVEREG_def PUSHREG_def deliver_def Let_def)
  show "frame (mem ?x) a = saved m"
    by (simp add: frame_def upt_24 run_def SAVEREG_def PUSHREG_def deliver_def Let_def saved_def load64_store64 load64_store64_other)
  show "mem ?x y = mem m y" if "y < a \<or> a + 192 \<le> y" for y
    using that by (elim disjE) (simp_all add: run_def SAVEREG_def PUSHREG_def deliver_def Let_def store64_outside)
qed

lemma load_restores:
  assumes "frame (mem m) (rsp m) = c"
  shows "loaded_with c (iretq (run LOADREG m))" "mem (iretq (run LOADREG m)) = mem m"
proof -
  have n: "load64 (mem m) (8 * i + rsp m) = c ! i" if "i < 24" for i using that by (simp add: assms [symmetric] frame_def)
  note n' = n [of 0] n [of 1] n [of 2] n [of 3] n [of 4] n [of 5] n [of 6] n [of 7] n [of 8] n [of 9] n [of 10] n [of 11] n [of 12]
    n [of 13] n [of 14] n [of 15] n [of 16] n [of 17] n [of 18] n [of 19] n [of 20] n [of 21] n [of 22] n [of 23]
  note n' = n' n' [unfolded add.commute [of _ "rsp m"]]
  let ?x = "iretq (run LOADREG m)"
  have "gpr ?x r = c ! reg_index r" for r
    using n' by (cases r) (simp_all add: run_def LOADREG_def iretq_def)
  moreover have "seg ?x r = ucast (c ! seg_index r)" for r
    using n' by (cases r) (simp_all add: run_def LOADREG_def iretq_def)
  moreover have "ip ?x = c ! REG_RIP" "rflags ?x = c ! REG_RFLAGS" "rsp ?x = unat (c ! REG_RSP)"
    using n' by (simp_all add: run_def LOADREG_def iretq_def reg_defs)
  ultimately show "loaded_with c ?x" by (simp add: loaded_with_def)
  show "mem ?x = mem m" by (simp add: run_def LOADREG_def iretq_def)
qed


definition same_registers :: "machine \<Rightarrow> machine \<Rightarrow> bool" where
  "same_registers m z \<longleftrightarrow> gpr z = gpr m \<and> seg z = seg m \<and> ip z = ip m \<and> rflags z = rflags m \<and> rsp z = rsp m"

text \<open>What the stubs rely on of the C function: it comes back with the stack pointer it was called with, and has made \<open>f\<close> of the
  frame there.\<close>

definition calls :: "(QWORD list \<Rightarrow> QWORD list) \<Rightarrow> (machine \<Rightarrow> machine) \<Rightarrow> bool" where
  "calls f call \<longleftrightarrow> (\<forall>y. rsp (call y) = rsp y \<and> frame (mem (call y)) (rsp y) = f (frame (mem y) (rsp y)))"

definition put_frame :: "nat \<Rightarrow> QWORD list \<Rightarrow> memory \<Rightarrow> memory" where
  "put_frame a c m = fold (\<lambda>i. store64 (8 * i + a) (c ! i)) [0..<24] m"

lemma frame_put_frame:
  assumes "length c = 24" shows "frame (put_frame a c m) a = c"
proof -
  have "frame (put_frame a c m) a = map ((!) c) [0..<24]"
    by (simp add: frame_def put_frame_def upt_24 load64_store64 load64_store64_other)
  also have "\<dots> = c" using map_nth [of c] assms by simp
  finally show ?thesis .
qed

lemma calls_put_frame: "length c = 24 \<Longrightarrow> calls (\<lambda>_. c) (\<lambda>y. y\<lparr>mem := put_frame (rsp y) c (mem y)\<rparr>)"
  by (simp add: calls_def frame_put_frame)

lemma after_save:
  assumes "entered a m (run SAVEREG x)"
  shows "rsp (run (SAVEREG @ [MovImm r w]) x) = a" "frame (mem (run (SAVEREG @ [MovImm r w]) x)) a = saved m"
    "gpr (run (SAVEREG @ [MovImm r w]) x) r = w"
  using assms by (simp_all add: run_append entered_def run_def)

lemma ISR_loads:
  assumes "entered a m (run SAVEREG x)" and "calls f call"
  shows "loaded_with (f (saved m)) (ISR vec call x)"
  using after_save [OF assms(1)] assms(2) unfolding ISR_def calls_def by (intro load_restores(1)) metis

lemma frame_nth: "i < 24 \<Longrightarrow> load64 m (8 * i + a) = frame m a ! i" by (simp add: frame_def)

lemma frame_store: "i < 24 \<Longrightarrow> frame (store64 (8 * i + a) w m) a = (frame m a)[i := w]"
proof (rule nth_equalityI)
  fix j assume i: "i < 24" and "j < length (frame (store64 (8 * i + a) w m) a)"
  then have j: "j < 24" by (simp add: frame_def)
  have "8 * j + a + 8 \<le> 8 * i + a \<or> 8 * i + a + 8 \<le> 8 * j + a" if "j \<noteq> i" using that by linarith
  then show "frame (store64 (8 * i + a) w m) a ! j = (frame m a)[i := w] ! j"
    using i j by (cases "j = i") (simp_all add: frame_def load64_store64 load64_store64_other)
qed (simp add: frame_def)

text \<open>The system call stub reads its arguments from the frame and puts the result there.\<close>

lemma arguments_loaded:
  assumes "rsp x = a" and "frame (mem x) a = saved m"
  defines "y \<equiv> run syscall_arguments x"
  shows "rsp y = a" "mem y = mem x"
    "gpr y RDI = gpr m RAX" "gpr y RSI = gpr m RDI" "gpr y RDX = gpr m RSI" "gpr y RCX = gpr m RDX"
proof -
  have n: "load64 (mem x) (a + 8 * reg_index r) = gpr m r" for r
    using frame_nth [of "reg_index r" "mem x" a] assms(2) saved_index(1) [of m r] by (cases r) (simp_all add: add.commute)
  show "rsp y = a" "mem y = mem x" by (simp_all add: y_def run_def syscall_arguments_def assms(1))
  show "gpr y RDI = gpr m RAX" "gpr y RSI = gpr m RDI" "gpr y RDX = gpr m RSI" "gpr y RCX = gpr m RDX"
    using n [of RAX] n [of RDI] n [of RSI] n [of RDX] by (simp_all add: y_def run_def syscall_arguments_def assms(1))
qed

lemma result_stored:
  assumes "frame (mem z) (rsp z) = saved m" and "rsp m < 2 ^ 64"
  shows "same_registers (m\<lparr>gpr := (gpr m)(RAX := gpr z RAX)\<rparr>) (iretq (run (StoreSP 32 RAX # LOADREG) z))"
proof -
  define z' where "z' = step (StoreSP 32 RAX) z"
  have "frame (mem z') (rsp z') = (saved m)[4 := gpr z RAX]"
    using frame_store [of 4 "rsp z" "gpr z RAX" "mem z"] assms(1) by (simp add: z'_def add.commute)
  from load_restores(1) [OF this] have l: "loaded_with ((saved m)[4 := gpr z RAX]) (iretq (run (StoreSP 32 RAX # LOADREG) z))"
    by (simp add: run_def z'_def)
  have g: "(saved m)[4 := gpr z RAX] ! reg_index r = ((gpr m)(RAX := gpr z RAX)) r" for r
    using saved_index(1) [of m r] saved_index(6) [of m] by (cases r) simp_all
  have s: "ucast ((saved m)[4 := gpr z RAX] ! seg_index q) = seg m q" for q
    using saved_index(2) [of m q] by (cases q) simp_all
  show ?thesis using l assms(2) unfolding loaded_with_def g s
    by (auto simp: same_registers_def saved_index unat_of_nat fun_eq_iff reg_defs [symmetric])
      (auto simp: reg_defs saved_def unat_of_nat)
qed

definition int_arg :: "QWORD \<Rightarrow> int" where "int_arg w = sint (ucast w :: DWORD)"

section \<open>Interrupts\<close>

lemma timer_switches:
  assumes "sched_ok s"
  shows "\<exists>s'. timerInterruptHandler io v s = Some s' \<and> sched_ok s' \<and>
    asched_of s' = a_slice (idleProcess s) (a_expire (tickCount s + 1) (asched_of s)) \<and>
    (if runningProcess s' = runningProcess s then ist s' = ist s
     else ctx (pcbs s' (runningProcess s)) = ist s \<and> ist s' = ctx (pcbs s (runningProcess s')))"
proof -
  obtain rs ss where rel: "sched_rel s rs ss" using assms by (auto elim: sched_okE)
  obtain d where d: "snd (sendEOI io (v - IRQ_START_OFFSET) (s\<lparr>tickCount := tickCount s + 1\<rparr>)) =
      s\<lparr>tickCount := tickCount s + 1, dev := d\<rparr>" (is "_ = ?s")
    using sendEOI_frame [of io "v - IRQ_START_OFFSET" "s\<lparr>tickCount := tickCount s + 1\<rparr>"] by auto
  have rel': "sched_rel ?s rs ss" using rel by simp
  obtain s' where s': "timerInterruptHandler io v s = Some s'" "sched_ok s'"
    "asched_of s' = a_slice (idleProcess s) (a_expire (tickCount s + 1) (asched_of s))" using timer_refines [OF assms] by metis
  have "if runningProcess s' = runningProcess s then ist s' = ist s
     else ctx (pcbs s' (runningProcess s)) = ist s \<and> ist s' = ctx (pcbs s (runningProcess s'))"
  proof (rule wakeExpired_rel [OF rel'], goal_cases)
    case (1 s1)
    then have t: "timeoutSchedule s1 = Some s'" using s'(1) unfolding timerInterruptHandler_def Let_def d by simp
    show ?case
    proof (cases "rs @ filter (expired ?s) ss")
      case Nil
      then show ?thesis using t timeoutSchedule_nil [of s1] 1(4,6) sched_relD(1) [OF 1(2)] by auto
    next
      case (Cons x xs)
      show ?thesis
        by (rule timeoutSchedule_rel [OF 1(2) [unfolded Cons]])
          (use t 1(4,6,9) core_running_fresh(1) [OF sched_relD(2) [OF 1(2)]] in \<open>auto simp: Cons\<close>)
    qed
  qed
  with s' show ?thesis by blast
qed


text \<open>C12: A timer interrupt switches the machine. It takes the program it interrupts off the processor after an instruction \<open>m\<close>, and the
  handler gets the vector in \<open>RDI\<close>. When the abstract round robin keeps the process, the program goes on with every register, segment,
  flag and the stack pointer as they were; else the PCB of the process holds what the stub saved of \<open>m\<close>, and the machine runs with the
  registers of the context of the process that is next. \<open>a\<close> is the address of the frame.\<close>

theorem timer_switches_the_machine:
  assumes "sched_ok s" and "interruptHandlers s ! 32 = Some timerISR" and "rsp m < 2 ^ 64"
    and "\<forall>p. length (ctx (pcbs s p)) = 24"
  shows "let x = deliver (a + 192) None entry m; y = run (SAVEREG @ [MovImm RDI 32]) x
    in \<exists>s'. dispatchInterrupt io (int_arg (gpr y RDI)) c (s\<lparr>ist := frame (mem y) (rsp y)\<rparr>) = Some (c, s') \<and> sched_ok s' \<and>
      asched_of s' = a_slice (idleProcess s) (a_expire (tickCount s + 1) (asched_of s)) \<and>
      (\<exists>call. calls (\<lambda>_. ist s') call) \<and>
      (\<forall>call. calls (\<lambda>_. ist s') call \<longrightarrow>
        (if runningProcess s' = runningProcess s then same_registers m (ISR 32 call x)
         else ctx (pcbs s' (runningProcess s)) = saved m \<and>
           loaded_with (ctx (pcbs s (runningProcess s'))) (ISR 32 call x)))"
proof -
  let ?x = "deliver (a + 192) None entry m"
  let ?y = "run (SAVEREG @ [MovImm RDI 32]) ?x"
  note e = save_entered [of a m entry]
  have y: "frame (mem ?y) (rsp ?y) = saved m" "int_arg (gpr ?y RDI) = 32"
    using after_save [OF e, of RDI 32] by (simp_all add: int_arg_def)
  let ?s = "s\<lparr>ist := saved m\<rparr>"
  have sel: "sched_ok ?s" "asched_of ?s = asched_of s"
    using assms(1) by (auto simp: asched_of_def elim!: sched_okE intro: sched_okI)
  from timer_switches [OF sel(1), of io 32] obtain s' where s': "timerInterruptHandler io 32 ?s = Some s'" "sched_ok s'"
    "asched_of s' = a_slice (idleProcess s) (a_expire (tickCount s + 1) (asched_of s))"
    "if runningProcess s' = runningProcess s then ist s' = saved m
     else ctx (pcbs s' (runningProcess s)) = saved m \<and> ist s' = ctx (pcbs s (runningProcess s'))"
    unfolding sel(2) by (elim exE conjE) (rule that, simp_all cong: if_cong)
  have "dispatchInterrupt io (int_arg (gpr ?y RDI)) c (s\<lparr>ist := frame (mem ?y) (rsp ?y)\<rparr>) = Some (c, s')"
    unfolding y using s'(1) assms(2) by (simp add: dispatchInterrupt_def INTERRUPT_VECTOR_COUNT_def)
  moreover have "if runningProcess s' = runningProcess s then same_registers m (ISR 32 call ?x)
       else ctx (pcbs s' (runningProcess s)) = saved m \<and> loaded_with (ctx (pcbs s (runningProcess s'))) (ISR 32 call ?x)"
    if "calls (\<lambda>_. ist s') call" for call
    using ISR_loads [OF e that, of 32] s'(4) loaded_saved [OF assms(3)]
    by (auto simp: same_registers_def split: if_splits)
  moreover have "\<exists>call. calls (\<lambda>_. ist s') call"
    using calls_put_frame [of "ist s'"] s'(4) assms(4) saved_index(6) [of m] by (metis (full_types))
  ultimately show ?thesis using s'(2,3) unfolding Let_def by blast
qed

text \<open>C14: The system call stub, on the kernel stack that ends at \<open>a + 192\<close>. The kernel's dispatcher gets the number from \<open>RAX\<close> and
  the arguments from \<open>RDI\<close>, \<open>RSI\<close> and \<open>RDX\<close>; when it returns, the caller goes on after its instruction with the result in \<open>RAX\<close> and
  every other register, segment, flag and the stack pointer as they were.\<close>

theorem system_call_stub:
  assumes "calls (\<lambda>c. c) call" and "rsp m < 2 ^ 64"
  shows "let x = deliver (a + 192) None entry m; y = run (SAVEREG @ syscall_arguments) x
    in dispatchSyscall (gpr y RDI) (gpr y RSI) (gpr y RDX) (gpr y RCX) c s =
         dispatchSyscall (gpr m RAX) (gpr m RDI) (gpr m RSI) (gpr m RDX) c s \<and>
       same_registers (m\<lparr>gpr := (gpr m)(RAX := gpr (call y) RAX)\<rparr>) (syscallEntry call x)"
proof -
  let ?x = "deliver (a + 192) None entry m"
  let ?y = "run (SAVEREG @ syscall_arguments) ?x"
  have s: "rsp (run SAVEREG ?x) = a" "frame (mem (run SAVEREG ?x)) a = saved m"
    using save_entered [of a m entry] by (simp_all add: entered_def)
  note y = arguments_loaded [OF s, folded run_append]
  have "rsp (call ?y) = a" "frame (mem (call ?y)) a = saved m" 
    using assms(1) [unfolded calls_def, rule_format, of ?y] y(1,2) s(2) by simp_all
  then have "same_registers (m\<lparr>gpr := (gpr m)(RAX := gpr (call ?y) RAX)\<rparr>) (syscallEntry call ?x)"
    unfolding syscallEntry_def using result_stored [of "call ?y" m] assms(2) by simp
  with y show ?thesis by (simp add: Let_def)
qed

section \<open>Exceptions\<close>

definition error_vectors :: "nat set" where "error_vectors = {8, 10, 11, 12, 13, 14, 17}"

text \<open>The arguments of the handler's call in registers, and the stub the interrupt table gives for a vector.\<close>

definition handler_arguments :: "machine \<Rightarrow> int \<times> QWORD \<times> QWORD \<times> QWORD" where
  "handler_arguments y = (int_arg (gpr y RDI), gpr y RSI, gpr y RDX, gpr y RCX)"

definition exception_stub :: "nat \<Rightarrow> machine \<Rightarrow> machine" where
  "exception_stub vec = (case vectorStub vec of Exception k True \<Rightarrow> EXC_ERRCODE k | Exception k False \<Rightarrow> EXC k | Interrupt k \<Rightarrow> id)"

lemma int_arg_small: "k < 64 \<Longrightarrow> int_arg (of_nat k) = int k"
proof -
  assume "k < 64"
  moreover have "(ucast (of_nat k :: QWORD) :: DWORD) = of_nat k" by (rule bit_word_eqI) (auto simp: bit_simps)
  ultimately show ?thesis by (simp add: int_arg_def signed_of_nat signed_take_bit_int_eq_self)
qed

lemma EXC_arguments:
  "k < 64 \<Longrightarrow> handler_arguments (EXC k (deliver (a + 200) None entry m)) = (int k, 0, ip m, ucast (seg m CS))"
  "k < 64 \<Longrightarrow> handler_arguments (EXC_ERRCODE k (deliver (a + 200) (Some err) entry m)) = (int k, err, ip m, ucast (seg m CS))"
  by (simp_all add: handler_arguments_def EXC_def EXC_ERRCODE_def run_def SAVEREG_def PUSHREG_def SAVEREG_SIZE_def deliver_def Let_def
      load64_store64 load64_store64_other int_arg_small add.commute [of _ a])

lemma exception_arguments:
  assumes "vec < 32"
  shows "handler_arguments (exception_stub vec (deliver (a + 200) (if vec \<in> error_vectors then Some err else None) entry m)) =
    (min (int vec) 20, if vec \<in> error_vectors then err else 0, ip m, ucast (seg m CS))"
  using EXC_arguments [where k = vec] EXC_arguments [where k = 20]
  assms by (auto simp: exception_stub_def vectorStub_def error_vectors_def)

text \<open>C22: An exception of any of the 32 vectors reaches the handler with the vector (20 for the reserved ones), the error code of those
  exceptions for which the processor pushes one and else 0, the address of the instruction and its code segment. So it ends the
  process when it happened in ring 3, and stops the system, with interrupts off, when it happened in the kernel, whatever the state; the
  console gets the report on it.\<close>

theorem exception_reaches_the_handler:
  assumes "vec < 32" and "seg m CS AND 3 = 3 \<longrightarrow> user_runs pid s"
  shows "\<exists>v e s'. handler_arguments (exception_stub vec (deliver (a + 200) (if vec \<in> error_vectors then Some err else None) entry m)) =
      (v, e, ip m, ucast (seg m CS)) \<and> v = min (int vec) 20 \<and> e = (if vec \<in> error_vectors then err else 0) \<and>
    exceptionHandler cr2 v e (ip m) (ucast (seg m CS)) c s =
      Some (if seg m CS AND 3 = 3 then (Killed, type_text (kill_report (int pid) v (ip m)) c, s')
        else (Halted, type_text (halt_report cr2 v e (ip m)) c, s')) \<and>
    (if seg m CS AND 3 = 3 then gone pid s' else s' = disableInterrupt s)"
proof -
  let ?cs = "ucast (seg m CS) :: QWORD"
  have "(3 :: QWORD) = mask 2" "(3 :: WORD) = mask 2" by (simp_all add: mask_eq_exp_minus_1)
  moreover have "?cs AND mask 2 = ucast (seg m CS AND mask 2)" by (rule bit_word_eqI) (auto simp: bit_simps)
  ultimately have "?cs AND 3 = ucast (seg m CS AND 3)" by simp
  moreover have "ucast (seg m CS AND 3) = (3 :: QWORD) \<longleftrightarrow> seg m CS AND 3 = 3" using ucast_seg [of "seg m CS AND 3"] by auto
  ultimately have ring: "?cs AND RPL_USER = RPL_USER \<longleftrightarrow> seg m CS AND 3 = 3" by (simp add: RPL_USER_def)
  have v: "0 \<le> min (int vec) 20" "min (int vec) 20 \<le> 20" by simp_all
  have "\<exists>s'. exceptionHandler cr2 (min (int vec) 20) (if vec \<in> error_vectors then err else 0) (ip m) ?cs c s =
      Some (if seg m CS AND 3 = 3 then (Killed, type_text (kill_report (int pid) (min (int vec) 20) (ip m)) c, s')
        else (Halted, type_text (halt_report cr2 (min (int vec) 20) (if vec \<in> error_vectors then err else 0) (ip m)) c, s')) \<and>
      (if seg m CS AND 3 = 3 then gone pid s' else s' = disableInterrupt s)"
  proof (cases "seg m CS AND 3 = 3")
    case True
    then have r: "?cs AND RPL_USER = RPL_USER" and u: "user_runs pid s" using ring assms(2) by simp_all
    show ?thesis unfolding if_P [OF True]
      by (rule exception_kills_user [OF u v r, of cr2 "if vec \<in> error_vectors then err else 0" "ip m" c]) blast
  next
    case False
    then have r: "?cs AND RPL_USER \<noteq> RPL_USER" using ring by simp
    show ?thesis unfolding if_not_P [OF False] using exception_halts_report [OF v r] by blast
  qed
  with exception_arguments [OF assms(1), of a err entry m] show ?thesis by blast
qed

section \<open>Witnesses\<close>

text \<open>A program in ring 3, with its stack and the number of the pid call in \<open>RAX\<close>.\<close>

definition user_machine :: machine where
  "user_machine = \<lparr>gpr = (\<lambda>_. 7)(RAX := SYSCALL_GETPID), rsp = 0x3101000, seg = (\<lambda>_. 0x23)(CS := 0x1B), ip = 0x3000010,
     rflags = 0x202, mem = \<lambda>_. 0\<rparr>"

definition ready_kernel :: "ata dsk" where
  "ready_kernel = running_kernel\<lparr>pcbs := \<lambda>p. (pcbs running_kernel p)\<lparr>ctx := replicate 24 5\<rparr>\<rparr>"

lemma ready_kernel_eq:
  "sched_ok ready_kernel" "interruptHandlers ready_kernel ! 32 = Some timerISR" "runningProcess ready_kernel = pcbAddr 0"
  "idleProcess ready_kernel = pcbAddr 2" "a_ready (asched_of ready_kernel) = [pcbAddr 1]" "a_run (asched_of ready_kernel) = pcbAddr 0"
  "a_sleep (asched_of ready_kernel) = []" "ctx (pcbs ready_kernel p) = replicate 24 5"
proof -
  have "sched_rel ready_kernel rs ss = sched_rel booted rs ss" for rs ss
    by (simp add: sched_rel_def core_of_def srep_def state_of_def [abs_def] booted_disk_def running_kernel_def ready_kernel_def)
  then have rel: "sched_rel ready_kernel [pcbAddr 1] []" using booted_eq(2) by simp
  then show "sched_ok ready_kernel" by (rule sched_okI)
  show "runningProcess ready_kernel = pcbAddr 0" "idleProcess ready_kernel = pcbAddr 2"
    "interruptHandlers ready_kernel ! 32 = Some timerISR" "ctx (pcbs ready_kernel p) = replicate 24 5"
    using booted_eq(3,5) irq_table_nth [of 32] by (simp_all add: ready_kernel_def running_kernel_def booted_disk_def)
  then show "a_ready (asched_of ready_kernel) = [pcbAddr 1]" "a_run (asched_of ready_kernel) = pcbAddr 0" "a_sleep (asched_of ready_kernel) = []"
    using asched_of_rel [OF rel] by simp_all
qed

lemma timer_switches_the_machine_witness:
  "\<exists>(s' :: ata dsk) call. sched_ok s' \<and> runningProcess s' = pcbAddr 1 \<and> ctx (pcbs s' (pcbAddr 0)) = saved user_machine \<and>
     calls (\<lambda>_. ist s') call \<and>
     loaded_with (replicate 24 5) (ISR 32 call (deliver (0xBFFF40 + 192) None 0x201000 user_machine))"
proof -
  have "rsp user_machine < 2 ^ 64" "\<forall>p. length (ctx (pcbs ready_kernel p)) = 24"
    by (simp_all add: user_machine_def ready_kernel_eq)
  from timer_switches_the_machine [OF ready_kernel_eq(1,2) this, where io = ata_io and c = blank and a = "0xBFFF40" and entry = "0x201000"]
  obtain s' :: "ata dsk" and call where s': "sched_ok s'"
    "asched_of s' = a_slice (pcbAddr 2) (a_expire (tickCount ready_kernel + 1) (asched_of ready_kernel))"
    "calls (\<lambda>_. ist s') call"
    "if runningProcess s' = pcbAddr 0 then same_registers user_machine (ISR 32 call (deliver (0xBFFF40 + 192) None 0x201000 user_machine))
     else ctx (pcbs s' (pcbAddr 0)) = saved user_machine \<and>
       loaded_with (replicate 24 5) (ISR 32 call (deliver (0xBFFF40 + 192) None 0x201000 user_machine))"
    unfolding ready_kernel_eq Let_def
    by (elim exE conjE) (rule that, assumption, assumption, assumption, blast)
  have "a_run (asched_of s') = pcbAddr 1"
    unfolding s'(2) by (simp add: a_slice_def a_expire_def ready_kernel_eq)
  then have "runningProcess s' = pcbAddr 1" by (simp add: asched_of_def)
  with s' show ?thesis by (intro exI [of _ s'] exI [of _ call]) simp
qed

lemma system_call_stub_witness:
  "let x = deliver 0x2003000 None 0x201100 user_machine; call = (\<lambda>y. y\<lparr>gpr := (gpr y)(RAX := 0)\<rparr>);
       y = run (SAVEREG @ syscall_arguments) x
   in dispatchSyscall (gpr y RDI) (gpr y RSI) (gpr y RDX) (gpr y RCX) blank booted = Some (Returned 0, blank, booted) \<and>
      same_registers (user_machine\<lparr>gpr := (gpr user_machine)(RAX := 0)\<rparr>) (syscallEntry call x)"
proof -
  let ?call = "\<lambda>y :: machine. y\<lparr>gpr := (gpr y)(RAX := 0)\<rparr>"
  have "calls (\<lambda>c. c) ?call" "rsp user_machine < 2 ^ 64" by (simp_all add: calls_def user_machine_def)
  from system_call_stub [OF this, where s = booted and c = blank and a = "0x2002F40" and entry = "0x201100"]
  have "let x = deliver 0x2003000 None 0x201100 user_machine; y = run (SAVEREG @ syscall_arguments) x
    in dispatchSyscall (gpr y RDI) (gpr y RSI) (gpr y RDX) (gpr y RCX) blank booted =
         dispatchSyscall SYSCALL_GETPID 7 7 7 blank booted \<and>
       same_registers (user_machine\<lparr>gpr := (gpr user_machine)(RAX := 0)\<rparr>) (syscallEntry ?call x)"
    by (simp add: user_machine_def)
  moreover have "getRunningPid booted = 0"
    using coreD(4,14) [OF sched_relD(2) [OF booted_eq(2)]] by (simp add: getRunningPid_def booted_eq)
  then have "dispatchSyscall SYSCALL_GETPID 7 7 7 blank booted = Some (Returned 0, blank, booted)"
    by (simp add: dispatchSyscall_def syscall_numbers)
  ultimately show ?thesis by (simp add: Let_def)
qed

lemma exception_reaches_the_handler_witness:
  "\<exists>(s :: unit proc) pid s'. user_runs pid s \<and>
     handler_arguments (exception_stub 14 (deliver 0xC00000 (Some 4) 0x201200 user_machine)) = (14, 4, 0x3000010, 0x1B) \<and>
     exceptionHandler 0x1234 14 4 0x3000010 0x1B blank s = Some (Killed, type_text (kill_report (int pid) 14 0x3000010) blank, s') \<and> gone pid s'"
proof -
  obtain s :: "unit proc" and pid where s: "user_runs pid s"
    using third_process_runs by (auto simp: user_runs_def)
  from exception_reaches_the_handler [of 14 user_machine pid s "0xBFFF38" 4 "0x201200" "0x1234" blank] s show ?thesis
    by (auto simp: error_vectors_def user_machine_def)
qed

end
