(* ===== verification/Switch.thy ===== *)
theory Switch
  imports Stubs
begin

text \<open>
  The context switch (\<^verbatim>\<open>arch/ContextSwitching.asm\<close>), on the machine of the stubs. The kernel's model of it, which stores the
  registers in one context and loads them from another, is what the instructions do.
\<close>

section \<open>The code\<close>

definition switch_enter :: "instr list" where
  "switch_enter = [Push RBP, MovFromSP RBP, PushF]"

definition switch_special :: "instr list" where
  "switch_special = [PopF, Push RAX, MovAxSeg SS, Store RDI (8 * 23) RAX, MovReg RAX RBP, AddImm RAX 16, Store RDI (8 * 22) RAX,
     PushF, Pop RAX, Store RDI (8 * 21) RAX, MovAxSeg CS, Store RDI (8 * 20) RAX, Load RAX RBP 8, Store RDI (8 * 19) RAX,
     Pop RAX, Pop RBP]"

definition switch_save :: "instr list" where
  "switch_save = switch_special @ [AddImm RDI (19 * 8), MovToSP RDI, SubImm RDI (19 * 8)] @ PUSHREG"

definition switch_load :: "instr list" where
  "switch_load = MovToSP RSI # LOADREG"

definition switch_code :: "machine \<Rightarrow> machine" where
  "switch_code m =
     (let m = run switch_enter m;
          m = (if gpr m RDI = 0 then m else run switch_save m)
      in iretq (run switch_load m))"

section \<open>What it stores\<close>

lemma status_kept: "add_flags a b fl AND NOT STATUS_FLAGS = fl AND NOT STATUS_FLAGS"
proof -
  have "with_status cf af ov r fl AND NOT STATUS_FLAGS = fl AND NOT STATUS_FLAGS" for cf af ov r
    unfolding with_status_def STATUS_FLAGS_def by (simp add: bit.conj_disj_distrib2 word_bw_assocs)
  then show ?thesis by (simp add: add_flags_def)
qed

text \<open>The flags it stores are those after an addition of the frame pointer.\<close>

definition stored_flags :: "machine \<Rightarrow> QWORD" where
  "stored_flags m = add_flags (word_of_nat (rsp m - 8)) 16 (rflags m)"

definition stored :: "machine \<Rightarrow> QWORD list" where
  "stored m = take 19 (saved m) @ [load64 (mem m) (rsp m), low16 (stored_flags m) (seg m CS), stored_flags m,
     word_of_nat (rsp m + 8), low16 (gpr m RAX) (seg m SS)]"

lemma unat_address: "n + k < 2 ^ 64 \<Longrightarrow> unat (word_of_nat n + word_of_nat k :: QWORD) = n + k"
  by (simp add: unat_word_ariths unat_of_nat)

lemma switch_saves:
  assumes r: "gpr m RDI = word_of_nat cur" "rsp m = b + 24" and bd: "cur + 192 < 2 ^ 64" "b + 32 < 2 ^ 64"
    and "cur + 192 \<le> b \<or> b + 32 \<le> cur"
  defines "x \<equiv> run switch_save (run switch_enter m)"
  shows "frame (mem x) cur = stored m" "gpr x RSI = gpr m RSI"
    "y < b \<or> b + 32 \<le> y \<Longrightarrow> y < cur \<or> cur + 192 \<le> y \<Longrightarrow> mem x y = mem m y"
proof -
  have u: "unat (word_of_nat cur + 152 :: QWORD) = cur + 152" "unat (word_of_nat cur + 160 :: QWORD) = cur + 160"
    "unat (word_of_nat cur + 168 :: QWORD) = cur + 168" "unat (word_of_nat cur + 176 :: QWORD) = cur + 176"
    "unat (word_of_nat cur + 184 :: QWORD) = cur + 184" "unat (word_of_nat (b + 16) + 8 :: QWORD) = b + 24"
    using unat_address [of cur 152] unat_address [of cur 160] unat_address [of cur 168] unat_address [of cur 176]
      unat_address [of cur 184] unat_address [of "b + 16" 8] bd by simp_all
  have w: "word_of_nat (b + 16) + 16 = (word_of_nat (b + 32) :: QWORD)" "b + 24 - 8 = b + 16" "b + 16 - 8 = b + 8" "b + 8 - 8 = b"
    "b + 24 + 8 = b + 32" by simp_all
  note sym = x_def run_def switch_save_def switch_special_def switch_enter_def PUSHREG_def r u w
  show "gpr x RSI = gpr m RSI" by (simp add: sym del: of_nat_add)
  show "frame (mem x) cur = stored m"
    using assms(5)
    by (elim disjE) (simp_all add: sym frame_def upt_24 stored_def stored_flags_def saved_def load64_store64 load64_store64_other
      add.commute [of "numeral k" b for k] add.commute [of "numeral k" cur for k] del: of_nat_add)
  show "mem x y = mem m y" if "y < b \<or> b + 32 \<le> y" "y < cur \<or> cur + 192 \<le> y"
    using that by (elim disjE) (simp_all add: sym store64_outside del: of_nat_add)
qed

text \<open>A machine that is loaded with it is the caller at the point where its call returns, but for the status flags.\<close>

lemma stored_resumes:
  assumes "rsp m + 8 < 2 ^ 64"
  shows "loaded_with (stored m) r \<longleftrightarrow> gpr r = gpr m \<and> seg r = seg m \<and> rsp r = rsp m + 8 \<and> ip r = load64 (mem m) (rsp m) \<and>
    rflags r = stored_flags m"
proof -
  have g: "stored m ! reg_index q = gpr m q" for q
    using saved_index(1) [of m q] saved_index(6) [of m] by (cases q) (simp_all add: stored_def nth_append)
  have s: "ucast (stored m ! seg_index q) = seg m q" for q
    using saved_index(2) [of m q] saved_index(6) [of m] by (cases q) (simp_all add: stored_def nth_append ucast_low16)
  have "stored m ! REG_RIP = load64 (mem m) (rsp m)" "stored m ! REG_RFLAGS = stored_flags m" "stored m ! REG_RSP = word_of_nat (rsp m + 8)"
    using saved_index(6) [of m] by (simp_all add: stored_def nth_append reg_defs)
  then show ?thesis using assms by (auto simp: loaded_with_def g s fun_eq_iff unat_of_nat simp del: of_nat_add)
qed

section \<open>The switch of the kernel's model\<close>

text \<open>The context is the end of a packed PCB.\<close>

definition ctxAddr :: "ptr \<Rightarrow> nat" where
  "ctxAddr p = p + 45"

definition contexts_in :: "('d, 'z) proc_scheme \<Rightarrow> memory \<Rightarrow> bool" where
  "contexts_in s M \<longleftrightarrow> (\<forall>pid < PROCESS_MAXCOUNT. ctx (pcbs s (pcbAddr pid)) = frame M (ctxAddr (pcbAddr pid)))"

lemma ctxAddr_pcb: "ctxAddr (pcbAddr pid) = 0x100002D + 237 * pid"
  by (simp add: ctxAddr_def pcbAddr_def PCB_POOL_ADDRESS_def)

lemma frame_cong: "(\<And>y. a \<le> y \<Longrightarrow> y < a + 192 \<Longrightarrow> m y = m' y) \<Longrightarrow> frame m a = frame m' a"
  unfolding frame_def load64_def by (intro map_cong arg_cong [where f = "\<lambda>x. word_of_nat (le_decode x)"] fetch_cong refl) auto

text \<open>C13: The instructions of \<^verbatim>\<open>switchContext\<close> are the switch of the kernel's model. Take any caller on a stack outside the PCBs,
  with the registers it will have when the call returns in the kernel's \<open>cpu\<close>. Then memory holds the contexts of all processes after
  the switch as before it, and the machine runs with the registers the model has. A machine that is later loaded with what was stored
  is the caller, returned from its call, with all its registers, segments and flags except the status flags.\<close>

theorem switchContext_code:
  assumes args: "gpr m RDI = word_of_nat (ctxAddr (pcbAddr i))" "gpr m RSI = word_of_nat (ctxAddr (pcbAddr j))"
    and p: "i < PROCESS_MAXCOUNT" "j < PROCESS_MAXCOUNT"
    and stack: "rsp m = b + 24" "b + 32 < 2 ^ 64" "b + 32 \<le> PCB_POOL_ADDRESS \<or> PCB_POOL_ADDRESS + 237 * PROCESS_MAXCOUNT \<le> b"
    and s: "contexts_in s (mem m)" "cpu s = stored m"
  shows "let z = switch_code m; s' = switchContext (pcbAddr i) (pcbAddr j) s
    in contexts_in s' (mem z) \<and> loaded_with (cpu s') z \<and> stored_flags m AND NOT STATUS_FLAGS = rflags m AND NOT STATUS_FLAGS \<and>
      (loaded_with (stored m) r \<longleftrightarrow> gpr r = gpr m \<and> seg r = seg m \<and> rsp r = rsp m + 8 \<and> ip r = load64 (mem m) (rsp m) \<and>
        rflags r = stored_flags m)"
proof -
  define x where "x = run switch_save (run switch_enter m)"
  have far: "ctxAddr (pcbAddr k) + 192 < 2 ^ 64" "ctxAddr (pcbAddr k) + 192 \<le> b \<or> b + 32 \<le> ctxAddr (pcbAddr k)" if "k < PROCESS_MAXCOUNT" for k
    using stack(3) that by (auto simp: ctxAddr_pcb PCB_POOL_ADDRESS_def PROCESS_MAXCOUNT_def)
  note sv = switch_saves [OF args(1) stack(1) far(1) [OF p(1)] stack(2) far(2) [OF p(1)], folded x_def]
  have x: "contexts_in (switchContext (pcbAddr i) (pcbAddr j) s) (mem x)" unfolding contexts_in_def
  proof (intro allI impI)
    fix k :: nat assume k: "k < PROCESS_MAXCOUNT"
    show "ctx (pcbs (switchContext (pcbAddr i) (pcbAddr j) s) (pcbAddr k)) = frame (mem x) (ctxAddr (pcbAddr k))"
    proof (cases "k = i")
      case True
      then show ?thesis using sv(1) s(2) by (simp add: switchContext_def upd_pcb_def Let_def)
    next
      case False
      have "frame (mem x) (ctxAddr (pcbAddr k)) = frame (mem m) (ctxAddr (pcbAddr k))"
        using far(2) [OF k] False by (intro frame_cong sv(3)) (auto simp: ctxAddr_pcb)
      then show ?thesis using False s(1) k by (simp add: switchContext_def upd_pcb_def Let_def contexts_in_def)
    qed
  qed
  have "gpr (run switch_enter m) RDI \<noteq> 0"
    using args(1) far(1) [OF p(1)] by (simp add: run_def switch_enter_def word_of_nat_eq_0_iff ctxAddr_pcb nat_dvd_not_less del: of_nat_add of_nat_mult)
  then have z: "switch_code m = iretq (run LOADREG (x\<lparr>rsp := ctxAddr (pcbAddr j)\<rparr>))"
    using sv(2) args(2) far(1) [OF p(2)]
    by (simp add: switch_code_def x_def [symmetric] Let_def switch_load_def run_Cons unat_of_nat)
  have "cpu (switchContext (pcbAddr i) (pcbAddr j) s) = ctx (pcbs (switchContext (pcbAddr i) (pcbAddr j) s) (pcbAddr j))"
    by (simp add: switchContext_def Let_def)
  also have "\<dots> = frame (mem x) (ctxAddr (pcbAddr j))" using x(1) p(2) by (simp add: contexts_in_def)
  finally have "loaded_with (cpu (switchContext (pcbAddr i) (pcbAddr j) s)) (switch_code m)" "mem (switch_code m) = mem x"
    using load_restores [of "x\<lparr>rsp := ctxAddr (pcbAddr j)\<rparr>"] z by simp_all
  moreover have "rsp m + 8 < 2 ^ 64" using stack by simp
  ultimately show ?thesis
    using x(1) stored_resumes [of m r] status_kept unfolding Let_def by (simp add: stored_flags_def)
qed

definition calling_machine :: machine where
  "calling_machine = \<lparr>gpr = (\<lambda>_. 9)(RDI := 0x100002D, RSI := 0x100011A), rsp = 0x2002F00, seg = (\<lambda>_. 8), ip = 0x201000,
     rflags = 0x046, mem = (\<lambda>x. of_nat x)\<rparr>"

lemma switchContext_code_witness:
  "loaded_with (frame (mem calling_machine) 0x100011A) (switch_code calling_machine)"
proof -
  let ?s = "booted\<lparr>pcbs := \<lambda>p. (pcbs booted p)\<lparr>ctx := frame (mem calling_machine) (ctxAddr p)\<rparr>, cpu := stored calling_machine\<rparr>"
  have m: "gpr calling_machine RDI = word_of_nat (ctxAddr (pcbAddr 0))" "gpr calling_machine RSI = word_of_nat (ctxAddr (pcbAddr 1))"
    "rsp calling_machine = 0x2002EE8 + 24"
    by (simp_all add: calling_machine_def ctxAddr_pcb)
  have "contexts_in ?s (mem calling_machine)" by (simp add: contexts_in_def)
  from switchContext_code [OF m(1,2) _ _ m(3) _ _ this]
  have "loaded_with (cpu (switchContext (pcbAddr 0) (pcbAddr 1) ?s)) (switch_code calling_machine)"
    by (simp add: PROCESS_MAXCOUNT_def PCB_POOL_ADDRESS_def Let_def)
  moreover have "cpu (switchContext (pcbAddr 0) (pcbAddr 1) ?s) = frame (mem calling_machine) 0x100011A"
    by (simp add: switchContext_def upd_pcb_def Let_def ctxAddr_pcb)
  ultimately show ?thesis by simp
qed

end
