(* ===== verification/DiskTimeouts.thy ===== *)
theory DiskTimeouts
  imports Handlers
begin

text \<open>
  The driver on a drive that may do anything, or on none: every wait of \<^verbatim>\<open>Disk.c\<close> comes to an end by the stopwatch or the
  timer, so every transfer returns and gives the driver's mutex back.
\<close>

section \<open>A counter that runs\<close>

text \<open>
  What the stopwatch relies on: the interval timer counts \<open>R, R - 1, \<dots>, 1\<close> over and over, \<open>clk\<close> are the clocks that have passed.
  An access to a port takes at most \<open>B\<close> of them, four accesses less than one period, and latching the counter at least one. Nothing is said
  of the other ports.
\<close>

locale running_counter =
  fixes io :: "'d portio" and clk :: "'d \<Rightarrow> nat" and R :: int and B :: nat
  assumes period: "0 < R" "R \<le> 0x10000" "4 * int B < R"
    and in_law: "clk d \<le> clk (snd (in_byte io port d))" "clk (snd (in_byte io port d)) \<le> clk d + B"
    and out_law: "clk d \<le> clk (out_byte io port b d)" "clk (out_byte io port b d) \<le> clk d + B"
    and latch_law: "clk d < clk (out_byte io 0x43 0 d)"
    and count_law: "in_byte io 0x40 (out_byte io 0x43 0 d) = (lo, d2) \<Longrightarrow> in_byte io 0x40 d2 = (hi, d3) \<Longrightarrow>
      ucast lo OR push_bit 8 (ucast hi) = counter_at R (clk (out_byte io 0x43 0 d))"
begin

lemma read_counter:
  "\<exists>d u. readCounter0 io s = (counter_at R u, s\<lparr>dev := d\<rparr>) \<and> clk (dev s) < u \<and> u \<le> clk (dev s) + B \<and> u \<le> clk d \<and> clk d \<le> u + 2 * B"
proof -
  let ?d1 = "out_byte io 0x43 0 (dev s)"
  obtain lo d2 where l: "in_byte io 0x40 ?d1 = (lo, d2)" by fastforce
  obtain hi d3 where h: "in_byte io 0x40 d2 = (hi, d3)" by fastforce
  have "readCounter0 io s = (counter_at R (clk ?d1), s\<lparr>dev := d3\<rparr>)"
    using count_law [OF l h] l h by (simp add: readCounter0_def setPort_def getPort_def Let_def)
  moreover have "clk ?d1 \<le> clk d3" "clk d3 \<le> clk ?d1 + 2 * B"
    using in_law [where port = "0x40" and d = ?d1] in_law [where port = "0x40" and d = d2] l h by auto
  ultimately show ?thesis using latch_law [of "dev s"] out_law(2) [of "0x43" 0 "dev s"] by blast
qed

text \<open>\<open>timed t0 w s\<close>: the stopwatch \<open>w\<close> was started at clock \<open>t0\<close> and last read at most two accesses ago.\<close>

definition timed :: "nat \<Rightarrow> pitStopwatch \<Rightarrow> ('d, 'z) hw_scheme \<Rightarrow> bool" where
  "timed t0 w s \<longleftrightarrow> counter0Reload s = R \<and> (\<exists>t \<ge> t0. lastCounter w = counter_at R t \<and> elapsedClock w = int (t - t0) \<and>
     t \<le> clk (dev s) \<and> clk (dev s) \<le> t + 2 * B)"

lemma start_timed:
  assumes "counter0Reload s = R"
  obtains w d t0 where "startStopwatch io s = (w, s\<lparr>dev := d\<rparr>)" "timed t0 w (s\<lparr>dev := d\<rparr>)" "elapsedClock w = 0"
    "t0 \<le> clk (dev s) + B" "clk (dev s) \<le> t0"
proof -
  from read_counter [of s] obtain d u where "readCounter0 io s = (counter_at R u, s\<lparr>dev := d\<rparr>)" "clk (dev s) < u"
    "u \<le> clk (dev s) + B" "u \<le> clk d" "clk d \<le> u + 2 * B" by blast
  then show thesis using assms by (intro that [of _ d u]) (auto simp: startStopwatch_def timed_def)
qed

lemma elapsed_timed:
  assumes "timed t0 w s" and "clk (dev s) \<le> clk d" "clk d \<le> clk (dev s) + B"
  obtains w' d' where "getElapsedClock io w (s\<lparr>dev := d\<rparr>) = (elapsedClock w', w', s\<lparr>dev := d'\<rparr>)" "timed t0 w' (s\<lparr>dev := d'\<rparr>)"
    "elapsedClock w < elapsedClock w'" "elapsedClock w' \<le> elapsedClock w + 4 * int B" "clk d \<le> clk d'"
proof -
  obtain t where t: "t0 \<le> t" "lastCounter w = counter_at R t" "elapsedClock w = int (t - t0)" "t \<le> clk (dev s)" "clk (dev s) \<le> t + 2 * B"
    and r: "counter0Reload s = R" using assms(1) by (auto simp: timed_def)
  from read_counter [of "s\<lparr>dev := d\<rparr>"] obtain d' u where u: "readCounter0 io (s\<lparr>dev := d\<rparr>) = (counter_at R u, s\<lparr>dev := d'\<rparr>)"
    "clk d < u" "u \<le> clk d + B" "u \<le> clk d'" "clk d' \<le> u + 2 * B" by auto
  have le: "t \<le> u" "int (u - t) < R" using t(4,5) assms(2,3) u(2,3) period(3) by linarith+
  let ?w = "w\<lparr>lastCounter := counter_at R u, elapsedClock := elapsedClock w + int (u - t)\<rparr>"
  have "getElapsedClock io w (s\<lparr>dev := d\<rparr>) = (elapsedClock ?w, ?w, s\<lparr>dev := d'\<rparr>)"
    using u(1) advanceStopwatch_step [OF period(1,2) le t(2)] r by (simp add: getElapsedClock_def Let_def)
  moreover have "timed t0 ?w (s\<lparr>dev := d'\<rparr>)"
    using t u le r unfolding timed_def by (intro conjI exI [of _ u]) auto
  ultimately show thesis using t u le assms(2,3) by (intro that [of ?w d']) auto
qed

text \<open>A loop that polls a status until it is decided or the time is over.\<close>

lemma polling_ends:
  fixes f :: "pitStopwatch \<Rightarrow> ('d, 'z) hw_scheme \<Rightarrow> (bool \<times> ('d, 'z) hw_scheme) option"
  assumes step: "\<And>w s. f w s = (let (st, s1) = chk s in case st of Some b \<Rightarrow> Some (b, s1)
      | None \<Rightarrow> let (e, w', s2) = getElapsedClock io w s1 in if e < limit then f w' s2 else Some (False, s2))"
    and chk: "\<And>s. \<exists>d. snd (chk s) = s\<lparr>dev := d\<rparr> \<and> clk (dev s) \<le> clk d \<and> clk d \<le> clk (dev s) + B"
  shows "timed t0 w s \<Longrightarrow> elapsedClock w < limit \<Longrightarrow>
    \<exists>b d. f w s = Some (b, s\<lparr>dev := d\<rparr>) \<and> clk (dev s) \<le> clk d \<and> int (clk d) \<le> int t0 + limit + 6 * int B \<and>
      ((\<exists>s0. fst (chk s0) = Some b) \<or> \<not> b \<and> limit \<le> int (clk d) - int t0)"
proof (induction "nat (limit - elapsedClock w)" arbitrary: w s rule: less_induct)
  case less
  obtain d where d: "snd (chk s) = s\<lparr>dev := d\<rparr>" "clk (dev s) \<le> clk d" "clk d \<le> clk (dev s) + B" using chk by blast
  have now: "int (clk (dev s)) \<le> int t0 + elapsedClock w + 2 * int B" using less.prems(1) by (auto simp: timed_def)
  show ?case
  proof (cases "fst (chk s)")
    case (Some b)
    then have "f w s = Some (b, s\<lparr>dev := d\<rparr>)" using d(1) by (subst step) (simp add: case_prod_beta)
    then show ?thesis using Some d(2,3) now less.prems(2) by (intro exI [of _ b] exI [of _ d]) auto
  next
    case None
    obtain w' d' where w': "getElapsedClock io w (s\<lparr>dev := d\<rparr>) = (elapsedClock w', w', s\<lparr>dev := d'\<rparr>)" "timed t0 w' (s\<lparr>dev := d'\<rparr>)"
      "elapsedClock w < elapsedClock w'" "elapsedClock w' \<le> elapsedClock w + 4 * int B" "clk d \<le> clk d'"
      using elapsed_timed [OF less.prems(1) d(2,3)] by metis
    have f: "f w s = (if elapsedClock w' < limit then f w' (s\<lparr>dev := d'\<rparr>) else Some (False, s\<lparr>dev := d'\<rparr>))"
      using None d(1) w'(1) by (subst step) (simp add: case_prod_beta)
    show ?thesis
    proof (cases "elapsedClock w' < limit")
      case True
      then have "nat (limit - elapsedClock w') < nat (limit - elapsedClock w)" using w'(3) by simp
      from less.hyps [OF this w'(2) True] obtain b d'' where "f w' (s\<lparr>dev := d'\<rparr>) = Some (b, s\<lparr>dev := d''\<rparr>)" "clk d' \<le> clk d''"
        "int (clk d'') \<le> int t0 + limit + 6 * int B" "(\<exists>s0. fst (chk s0) = Some b) \<or> \<not> b \<and> limit \<le> int (clk d'') - int t0"
        by auto
      then show ?thesis using f True d(2) w'(5) by (intro exI [of _ b] exI [of _ d'']) simp
    next
      case False
      have "int t0 + elapsedClock w' \<le> int (clk d') \<and> int (clk d') \<le> int t0 + elapsedClock w' + 2 * int B"
        using w'(2) by (auto simp: timed_def)
      then show ?thesis using f False d(2) w'(4,5) less.prems(2) by (intro exI [of _ False] exI [of _ d']) auto
    qed
  qed
qed


section \<open>Every poll ends\<close>

lemma status_access: "\<exists>d. snd (getPort io port s) = s\<lparr>dev := d\<rparr> \<and> clk (dev s) \<le> clk d \<and> clk d \<le> clk (dev s) + B"
  using in_law [where port = port and d = "dev s"]
  by (intro exI [of _ "snd (in_byte io port (dev s))"]) (simp add: getPort_def case_prod_beta Let_def)

definition status_of :: "bool \<Rightarrow> ('d, 'z) hw_scheme \<Rightarrow> BYTE" where
  "status_of isPrimary s = fst (getPort io (portOf isPrimary STATUS) s)"

text \<open>How a wait ends: in time, with an answer the drive gave or with the time over.\<close>

definition wait_ends :: "(bool \<Rightarrow> BYTE \<Rightarrow> bool) \<Rightarrow> bool \<Rightarrow> ('d, 'z) hw_scheme \<Rightarrow> bool \<Rightarrow> 'd \<Rightarrow> bool" where
  "wait_ends answer isPrimary s b d \<longleftrightarrow> clk (dev s) \<le> clk d \<and> int (clk d) \<le> int (clk (dev s)) + 596591 + 7 * int B \<and>
     ((\<exists>s0 :: ('d, 'z) hw_scheme. answer b (status_of isPrimary s0)) \<or> \<not> b \<and> 596591 \<le> int (clk d) - int (clk (dev s)))"

lemma limit_500ms: "msToClock (of_nat WAIT_TIMEOUT_MS) = 596591"
  by (simp add: msToClock_def FREQUENCY_def WAIT_TIMEOUT_MS_def int_of_qword_def)

lemma wait_polls:
  fixes f :: "pitStopwatch \<Rightarrow> ('d, 'z) hw_scheme \<Rightarrow> (bool \<times> ('d, 'z) hw_scheme) option" and s :: "('d, 'z) hw_scheme"
  assumes "counter0Reload s = R"
    and "\<And>w s. f w s = (let (st, s1) = chk s in case st of Some b \<Rightarrow> Some (b, s1)
      | None \<Rightarrow> let (e, w', s2) = getElapsedClock io w s1 in if e < msToClock (of_nat WAIT_TIMEOUT_MS) then f w' s2 else Some (False, s2))"
    and "\<And>s. \<exists>d. snd (chk s) = s\<lparr>dev := d\<rparr> \<and> clk (dev s) \<le> clk d \<and> clk d \<le> clk (dev s) + B"
    and "\<And>s b. fst (chk s) = Some b \<Longrightarrow> answer b (status_of isPrimary s)"
  shows "\<exists>b d. (let (w, s1) = startStopwatch io s in f w s1) = Some (b, s\<lparr>dev := d\<rparr>) \<and> wait_ends answer isPrimary s b d"
proof -
  obtain w d0 t0 where w: "startStopwatch io s = (w, s\<lparr>dev := d0\<rparr>)" "timed t0 w (s\<lparr>dev := d0\<rparr>)" "elapsedClock w = 0"
    "t0 \<le> clk (dev s) + B" "clk (dev s) \<le> t0" using start_timed [OF assms(1)] by metis
  have "elapsedClock w < msToClock (of_nat WAIT_TIMEOUT_MS)" using w(3) by (simp add: limit_500ms)
  from polling_ends [of f chk, OF assms(2,3) w(2) this] obtain b d where b: "f w (s\<lparr>dev := d0\<rparr>) = Some (b, s\<lparr>dev := d\<rparr>)"
    "clk d0 \<le> clk d" "int (clk d) \<le> int t0 + 596591 + 6 * int B" "(\<exists>s0. fst (chk s0) = Some b) \<or> \<not> b \<and> 596591 \<le> int (clk d) - int t0"
    unfolding limit_500ms by auto
  have "t0 \<le> clk d0" using w(2) by (auto simp: timed_def)
  then have "wait_ends answer isPrimary s b d"
    unfolding wait_ends_def using w(4,5) b(2-4) assms(4) by (intro conjI) (linarith, linarith, fastforce)
  then show ?thesis using w(1) b(1) by auto
qed

lemma waitStatus_ends:
  assumes "counter0Reload s = R"
  shows "\<exists>b d. waitStatus io isPrimary msk v s = Some (b, s\<lparr>dev := d\<rparr>) \<and> wait_ends (\<lambda>b x. b \<and> x AND msk = v) isPrimary s b d"
  unfolding waitStatus_def
  by (rule wait_polls [where chk = "\<lambda>s. (if status_of isPrimary s AND msk = v then Some True else None, snd (getPort io (portOf isPrimary STATUS) s))"])
    (use assms status_access in \<open>auto simp: status_loop.simps [of _ _ _ _ _ _ s for s] status_of_def case_prod_beta Let_def split: if_splits\<close>)

lemma waitDataRequest_ends:
  assumes "counter0Reload s = R"
  shows "\<exists>b d. waitDataRequest io isPrimary s = Some (b, s\<lparr>dev := d\<rparr>) \<and>
    wait_ends (\<lambda>b x. x AND STATUS_BSY \<noteq> STATUS_BSY \<and> x AND (if b then STATUS_DRQ else STATUS_ERR) \<noteq> 0) isPrimary s b d"
  unfolding waitDataRequest_def
  by (rule wait_polls [where chk = "\<lambda>s. (let x = status_of isPrimary s in
        if x AND STATUS_BSY \<noteq> STATUS_BSY \<and> x AND STATUS_ERR = STATUS_ERR then Some False
        else if x AND STATUS_BSY \<noteq> STATUS_BSY \<and> x AND STATUS_DRQ = STATUS_DRQ then Some True else None,
        snd (getPort io (portOf isPrimary STATUS) s))"])
    (use assms status_access in \<open>auto simp: request_loop.simps [of _ _ _ _ s for s] status_of_def case_prod_beta Let_def disk_const split: if_splits\<close>)


lemma polls_end_here:
  assumes "counter0Reload s = R" and "wait = waitNoBusy io isPrimary \<or> wait = waitReady io isPrimary \<or> wait = waitDataRequest io isPrimary"
  shows "\<exists>b d. wait s = Some (b, s\<lparr>dev := d\<rparr>) \<and> clk (dev s) \<le> clk d \<and> int (clk d) \<le> int (clk (dev s)) + 596591 + 7 * int B"
  using assms(2) waitStatus_ends [OF assms(1)] waitDataRequest_ends [OF assms(1)]
  unfolding waitNoBusy_def [abs_def] waitReady_def [abs_def] wait_ends_def by blast

text \<open>A poll of the flag, with interrupts off: only the time can end it.\<close>

lemma poll_loop_ends:
  fixes s :: "('d, 'z) dsk_scheme"
  assumes "timed t0 w s" and "elapsedClock w < limit"
  shows "\<exists>b d. poll_loop io isPrimary limit w s = Some (b, s\<lparr>dev := d\<rparr>)"
  using assms
proof (induction "nat (limit - elapsedClock w)" arbitrary: w s rule: less_induct)
  case less
  show ?case
  proof (cases "occurFlag isPrimary s")
    case True
    then show ?thesis by (subst poll_loop.simps) (auto intro!: exI [of _ "dev s"])
  next
    case False
    obtain w' d' where w': "getElapsedClock io w s = (elapsedClock w', w', s\<lparr>dev := d'\<rparr>)" "timed t0 w' (s\<lparr>dev := d'\<rparr>)"
      "elapsedClock w < elapsedClock w'"
      using elapsed_timed [OF less.prems(1) order.refl le_add1, simplified] by metis
    show ?thesis
    proof (cases "elapsedClock w' < limit")
      case True
      then have "nat (limit - elapsedClock w') < nat (limit - elapsedClock w)" using w'(3) by simp
      from less.hyps [OF this w'(2) True] show ?thesis using False True w'(1) by (subst poll_loop.simps) auto
    next
      case over: False
      then show ?thesis using False w'(1) by (subst poll_loop.simps) auto
    qed
  qed
qed

end

section \<open>Words and flags\<close>

lemma clear_frame [simp]:
  "runs U p (clearDiskInterruptFlag b s) = runs U p s" "holds_lock (clearDiskInterruptFlag b s) = holds_lock s"
  "interrupts_on (clearDiskInterruptFlag b s) = interrupts_on s" "disk_same t (clearDiskInterruptFlag b s) = disk_same t s"
  "counter0Reload (clearDiskInterruptFlag b s) = counter0Reload s"
proof -
  have r: "runs U p (s\<lparr>isSecondaryInterruptOccur := x\<rparr>) = runs U p s" for x
    by (simp add: runs_def may_block_def locks_rel_def mutex_ok_def parked_def sched_ok_def sched_rel_def core_of_def
        srep_def [abs_def] state_of_def [abs_def])
  show "runs U p (clearDiskInterruptFlag b s) = runs U p s" by (simp add: clearDiskInterruptFlag_def r)
qed (simp_all add: clearDiskInterruptFlag_def holds_lock_def lock_owner_def getRunningPid_def interrupts_on_def disk_same_def)

lemma read_words_ends:
  "2 * (k + n) \<le> length buf \<Longrightarrow>
   \<exists>buf' d. read_words io isPrimary n k buf s = Some (buf', s\<lparr>dev := d\<rparr>) \<and> length buf' = length buf \<and>
     drop (2 * (k + n)) buf' = drop (2 * (k + n)) buf"
proof (induction n arbitrary: k buf s)
  case 0
  then show ?case by (auto intro!: exI [of _ "dev s"])
next
  case (Suc n)
  obtain w d where w: "getPortWord io (portOf isPrimary DATA) s = (w, s\<lparr>dev := d\<rparr>)"
    by (cases "in_word io (portOf isPrimary DATA) (dev s)") (simp add: getPortWord_def)
  let ?b = "splice_at buf (2 * k) (le_encode 2 (unat w))"
  have l: "length ?b = length buf" using Suc.prems by (simp add: splice_at_def)
  then have "2 * (Suc k + n) \<le> length ?b" using Suc.prems by simp
  from Suc.IH [OF this, of "s\<lparr>dev := d\<rparr>"] obtain buf' d' where i: "read_words io isPrimary n (Suc k) ?b (s\<lparr>dev := d\<rparr>) = Some (buf', s\<lparr>dev := d'\<rparr>)"
    "length buf' = length ?b" "drop (2 * (Suc k + n)) buf' = drop (2 * (Suc k + n)) ?b" by auto
  have "drop (2 * (Suc k + n)) ?b = drop (2 * (Suc k + n)) buf"
    using Suc.prems by (simp add: splice_at_def add.commute)
  then show ?case using w i l Suc.prems by (intro exI [of _ buf'] exI [of _ d']) (simp add: put_word_def)
qed

lemma write_words_ends:
  "2 * (k + n) \<le> length buf \<Longrightarrow> \<exists>d. write_words io isPrimary n k buf s = Some (s\<lparr>dev := d\<rparr>)"
proof (induction n arbitrary: k s)
  case 0
  then show ?case by (auto intro!: exI [of _ "dev s"])
next
  case (Suc n)
  obtain w where w: "get_word buf k = Some w" using Suc.prems by (simp add: get_word_def)
  let ?s = "setPortWord io (portOf isPrimary DATA) w s"
  have s: "?s = s\<lparr>dev := out_word io (portOf isPrimary DATA) w (dev s)\<rparr>" by (simp add: setPortWord_def)
  from Suc obtain d where "write_words io isPrimary n (Suc k) buf ?s = Some (?s\<lparr>dev := d\<rparr>)" by fastforce
  then show ?case using w s by (intro exI [of _ d]) simp
qed

section \<open>Whole transfers\<close>

text \<open>
  The kernel around the driver: a process that sleeps until a tick runs again at that tick at the latest, and the owner of the mutex hands it over.
\<close>

locale timed_driver = running_counter io clk R B
  for io :: "'d portio" and clk :: "'d \<Rightarrow> nat" and R :: int and B :: nat +
  fixes rs :: "('d, 'z) resume" and U :: "ptr set" and p :: ptr
  assumes wake_timer: "runs U p s \<Longrightarrow> holds_lock s \<Longrightarrow> \<not> interrupts_on s \<Longrightarrow> diskWaiter s isPrimary = p \<Longrightarrow> tickCount s < t \<Longrightarrow>
      sleepUntilTick t s = Some s1 \<Longrightarrow>
      \<exists>s'. rs s1 = Some s' \<and> runs U p s' \<and> holds_lock s' \<and> \<not> interrupts_on s' \<and> counter0Reload s' = counter0Reload s \<and> disk_same s s' \<and>
        (occurFlag isPrimary s' \<or> t \<le> tickCount s')"
    and wake_owner: "runs U p s \<Longrightarrow> lock_owner s \<noteq> -1 \<Longrightarrow> lock_owner s \<noteq> getRunningPid s \<Longrightarrow>
      acquireLock (diskMutex s) s = Some (True, preIf, s1) \<Longrightarrow>
      \<exists>s'. rs s1 = Some s' \<and> runs U p s' \<and> holds_lock s' \<and> counter0Reload s' = counter0Reload s \<and> disk_same s s'"
begin

definition busy :: "bool \<Rightarrow> ('d, 'z) dsk_scheme \<Rightarrow> bool" where
  "busy on s \<longleftrightarrow> runs U p s \<and> holds_lock s \<and> interrupts_on s = on \<and> counter0Reload s = R"

lemma busy_upd [simp]:
  "busy on (s\<lparr>dev := d\<rparr>) = busy on s" "busy on (s\<lparr>isPrimaryInterruptOccur := b\<rparr>) = busy on s"
  by (simp_all add: busy_def)


text \<open>The wait for the interrupt: by polling when interrupts are off, else asleep until the timer's deadline.\<close>

lemma busy_masked:
  assumes "busy on s"
  defines "s1 \<equiv> snd (setIf False s)"
  shows "runs U p s1" "holds_lock s1" "\<not> interrupts_on s1" "counter0Reload s1 = R" "disk_same s s1" "tickCount s1 = tickCount s"
    "interrupts_on s = on"
proof -
  have r: "runs U p s" "holds_lock s" "interrupts_on s = on" "counter0Reload s = R" and len: "length (cpu s) = 24"
    using assms(1) by (simp_all add: busy_def runs_def)
  show "runs U p s1" "holds_lock s1" "\<not> interrupts_on s1" "counter0Reload s1 = R" "disk_same s s1" "tickCount s1 = tickCount s"
    "interrupts_on s = on" using r interrupts_setIf(1) [OF len, of False] by (simp_all add: s1_def)
qed

lemma waitInterrupt_polls:
  assumes "busy False s"
  obtains b s' where "waitInterrupt io rs isPrimary s = Some (b, s')" "busy False s'" "disk_same s s'"
proof -
  define s1 where "s1 = snd (setIf False s)"
  note s1 = busy_masked [OF assms, folded s1_def]
  obtain w d t0 where w: "startStopwatch io s1 = (w, s1\<lparr>dev := d\<rparr>)" "timed t0 w (s1\<lparr>dev := d\<rparr>)" "elapsedClock w = 0"
    using start_timed [OF s1(4)] by metis
  have "elapsedClock w < msToClock (of_nat WAIT_TIMEOUT_MS)" using w(3) by (simp add: limit_500ms)
  from poll_loop_ends [OF w(2) this, of isPrimary] obtain b d' where
    "poll_loop io isPrimary (msToClock (of_nat WAIT_TIMEOUT_MS)) w (s1\<lparr>dev := d\<rparr>) = Some (b, s1\<lparr>dev := d'\<rparr>)" by auto
  then have "waitInterrupt io rs isPrimary s = Some (b, s1\<lparr>dev := d'\<rparr>)"
    using w(1) s1(7) by (simp add: waitInterrupt_def setIf_def s1_def case_prod_beta)
  then show thesis using s1 by (intro that [of b "s1\<lparr>dev := d'\<rparr>"]) (simp_all add: busy_def)
qed

lemma woken_busy:
  assumes "runs U p x" "holds_lock x" "counter0Reload x = R"
  shows "busy True (snd (setIf True x))"
proof -
  have "length (cpu x) = 24" using assms(1) by (simp add: runs_def)
  from interrupts_setIf(1) [OF this, of True] show ?thesis using assms by (simp add: busy_def)
qed

lemma sleep_until_deadline:
  assumes s1: "runs U p s1" "holds_lock s1" "\<not> interrupts_on s1" "counter0Reload s1 = R" and lt: "tickCount s1 < t"
  obtains b s' where "sleep_loop rs isPrimary True t s1 = Some (b, s')" "busy True s'" "disk_same s1 s'"
proof (cases "occurFlag isPrimary s1")
  case True
  then have "sleep_loop rs isPrimary True t s1 = Some (True, snd (setIf True s1))" by (subst sleep_loop.simps) simp
  then show ?thesis using woken_busy [OF s1(1,2,4)] by (intro that [of True "snd (setIf True s1)"]) (simp_all add: disk_same_def)
next
  case off: False
  have run: "runningProcess s1 = p" using s1(1) by (simp add: runs_def)
  define s2 where "s2 = s1\<lparr>diskWaiter := (diskWaiter s1)(isPrimary := p)\<rparr>"
  have s2: "runs U p s2" "holds_lock s2" "\<not> interrupts_on s2" "diskWaiter s2 isPrimary = p" "tickCount s2 = tickCount s1"
    "counter0Reload s2 = R" "disk_same s1 s2"
    using s1 by (simp_all add: s2_def disk_same_def)
  have "sched_ok s2" "may_block s2" using s2(1) by (auto simp: runs_def locks_rel_def)
  then obtain s3 where s3: "sleepUntilTick t s2 = Some s3" using sleep_parks [of s2 t] by (auto simp: may_block_def)
  obtain s4 where s4: "rs s3 = Some s4" "runs U p s4" "holds_lock s4" "\<not> interrupts_on s4" "counter0Reload s4 = R" "disk_same s2 s4"
    "occurFlag isPrimary s4 \<or> t \<le> tickCount s4"
    using wake_timer [OF s2(1-4) _ s3] lt s2(5,6) by auto
  define s5 where "s5 = s4\<lparr>diskWaiter := (diskWaiter s4)(isPrimary := NULL)\<rparr>"
  have "\<not> t \<le> tickCount s1" using lt by (simp only: not_le)
  then have "sleep_loop rs isPrimary True t s1 = sleep_loop rs isPrimary True t s5" using off s3 s4(1) run
    by (subst sleep_loop.simps) (simp add: s2_def s5_def getTickCount_def getRunningProcess_def)
  also have "\<dots> = Some (occurFlag isPrimary s5, snd (setIf True s5))"
    using s4(7) by (subst sleep_loop.simps) (auto simp: s5_def occurFlag_def getTickCount_def)
  finally show ?thesis using s4 s2(7) disk_same_trans [of s1 s2 s4] woken_busy [of s5]
    by (intro that [of _ "snd (setIf True s5)"]) (simp_all add: s5_def disk_same_def)
qed

lemma waitInterrupt_ends:
  assumes "busy on s"
  obtains b s' where "waitInterrupt io rs isPrimary s = Some (b, s')" "busy on s'" "disk_same s s'"
proof (cases on)
  case False
  then have "busy False s" using assms by simp
  then show ?thesis by (rule waitInterrupt_polls [of s isPrimary]) (use False that in simp)
next
  case True
  define s1 where "s1 = snd (setIf False s)"
  note s1 = busy_masked [OF assms, folded s1_def]
  have "unat (tickCount s) < 2 ^ 63" using assms by (simp add: busy_def runs_def)
  then have "unat (tickCount s + 100) = unat (tickCount s) + 100" by (subst unat_add_lem [THEN iffD1]) simp_all
  then have "tickCount s1 < tickCount s + 100" unfolding s1(6) by (simp add: word_less_nat_alt)
  from sleep_until_deadline [OF s1(1-4) this, of isPrimary] obtain b s' where
    s': "sleep_loop rs isPrimary True (tickCount s + 100) s1 = Some (b, s')" "busy True s'" "disk_same s1 s'" .
  have "waitInterrupt io rs isPrimary s = Some (b, s')"
    using s'(1) s1(7) True by (simp add: waitInterrupt_def setIf_def s1_def getTickCount_def WAIT_TIMEOUT_MS_def SLOT_TIME_def
        enableInterrupt_def disableInterrupt_def)
  then show ?thesis using s' True disk_same_trans [OF s1(5) s'(3)] that by simp
qed

lemma busy_clear [simp]: "busy on (clearDiskInterruptFlag b s) = busy on s"
  by (simp add: busy_def)

lemma sendDiskCommand_ends:
  assumes "busy on s"
  obtains b s' where "sendDiskCommand io isPrimary isMaster n L c s = Some (b, s')" "busy on s'" "disk_same s s'"
proof -
  have R: "counter0Reload s = R" using assms by (simp add: busy_def)
  obtain b d where w: "waitNoBusy io isPrimary s = Some (b, s\<lparr>dev := d\<rparr>)"
    using polls_end_here [OF R, of "waitNoBusy io isPrimary"] by blast
  show thesis
  proof (cases b)
    case False
    then show ?thesis using w assms by (intro that [of False "s\<lparr>dev := d\<rparr>"]) (simp_all add: sendDiskCommand_def)
  next
    case True
    obtain d' where d': "setPort io (portOf isPrimary DRIVE_AND_HEADER) ((driveFlag isMaster AND 0xF0) OR (ucast (drop_bit 24 L) AND 0x0F))
        (setPort io (portOf isPrimary CYLINDER_MSB) (ucast (drop_bit 16 L)) (setPort io (portOf isPrimary CYLINDER_LSB) (ucast (drop_bit 8 L))
        (setPort io (portOf isPrimary SECTOR_NUMBER) (ucast L) (setPort io (portOf isPrimary SECTOR_COUNT) n (s\<lparr>dev := d\<rparr>))))) = s\<lparr>dev := d'\<rparr>"
      by (simp add: setPort_def)
    obtain b2 d2 where w2: "waitReady io isPrimary (s\<lparr>dev := d'\<rparr>) = Some (b2, s\<lparr>dev := d2\<rparr>)"
      using polls_end_here [where s = "s\<lparr>dev := d'\<rparr>" and wait = "waitReady io isPrimary" and isPrimary = isPrimary] R by auto
    let ?s = "clearDiskInterruptFlag isPrimary (s\<lparr>dev := d2\<rparr>)"
    have e: "sendDiskCommand io isPrimary isMaster n L c s =
        Some (b2, if b2 then setPort io (portOf isPrimary COMMAND) c ?s else s\<lparr>dev := d2\<rparr>)"
      using w True w2 d' by (simp add: sendDiskCommand_def Let_def)
    show ?thesis by (rule that [OF e]) (use assms in \<open>simp_all add: setPort_def Let_def\<close>)
  qed
qed

lemma lockDisk_ends:
  assumes r: "runs U p s" "lock_owner s \<noteq> getRunningPid s" and R: "counter0Reload s = R"
  obtains s' where "lockDisk rs s = Some s'" "busy (interrupts_on s) s'" "disk_same s s'"
proof (cases "lock_owner s = -1")
  case True
  obtain s' where "acquireLock (diskMutex s) s = Some (False, interrupts_on s, s')" "runs U p s'" "holds_lock s'"
    "interrupts_on s' = interrupts_on s" "disk_same s s'" "counter0Reload s' = counter0Reload s"
    using lock_free [OF r(1) True r(2)] by metis
  then show thesis using R by (intro that [of s']) (simp_all add: lockDisk_def busy_def)
next
  case False
  obtain s1 where s1: "acquireLock (diskMutex s) s = Some (True, interrupts_on s, s1)"
    using lock_busy [OF r(1) False r(2)] by metis
  obtain s2 where s2: "rs s1 = Some s2" "runs U p s2" "holds_lock s2" "counter0Reload s2 = R" "disk_same s s2"
    using wake_owner [OF r(1) False r(2) s1] R by auto
  have "length (cpu s2) = 24" using s2(2) by (simp add: runs_def)
  note I = interrupts_setIf(1) [OF this]
  show thesis
    by (rule that [of "snd (setIf (interrupts_on s) s2)"]) (use s1 s2 I in \<open>simp_all add: lockDisk_def busy_def\<close>)
qed

text \<open>At the end of a transfer the process runs on and does not hold the mutex any more.\<close>

definition done_with :: "bool \<Rightarrow> ('d, 'z) dsk_scheme \<Rightarrow> ('d, 'z) dsk_scheme \<Rightarrow> bool" where
  "done_with on s s' \<longleftrightarrow> runs U p s' \<and> lock_owner s' \<noteq> getRunningPid s' \<and> interrupts_on s' = on \<and> counter0Reload s' = R \<and> disk_same s s'"

lemma unlockDisk_ends:
  assumes "busy on s'" "disk_same s s'"
  obtains s'' where "unlockDisk s' = Some s''" "done_with on s s''"
proof -
  obtain s'' where "unlockDisk s' = Some s''" "runs U p s''" "lock_owner s'' \<noteq> getRunningPid s''"
    "interrupts_on s'' = interrupts_on s'" "disk_same s' s''" "counter0Reload s'' = counter0Reload s'"
    using unlockDisk_ok assms(1) unfolding busy_def by metis
  then show thesis using assms disk_same_trans [of s s' s''] by (intro that) (auto simp: done_with_def busy_def)
qed

lemma read_loop_ends:
  "busy on s \<Longrightarrow> 512 * (i + n) \<le> length buf \<Longrightarrow>
   \<exists>j buf' s'. read_loop io rs isPrimary n i buf s = Some (j, buf', s') \<and> i \<le> j \<and> j \<le> i + n \<and> length buf' = length buf \<and>
     drop (512 * j) buf' = drop (512 * j) buf \<and> busy on s' \<and> disk_same s s'"
proof (induction n arbitrary: i buf s)
  case 0
  then show ?case by auto
next
  case (Suc n)
  obtain b s1 where s1: "waitInterrupt io rs isPrimary s = Some (b, s1)" "busy on s1" "disk_same s s1"
    using waitInterrupt_ends [OF Suc.prems(1), of isPrimary] by metis
  obtain x d where x: "getPort io (portOf isPrimary STATUS) (clearDiskInterruptFlag isPrimary s1) =
      (x, (clearDiskInterruptFlag isPrimary s1)\<lparr>dev := d\<rparr>)" (is "_ = (_, ?s2)")
    using status_access [of "portOf isPrimary STATUS" "clearDiskInterruptFlag isPrimary s1"] by (metis prod.collapse)
  have s2: "busy on ?s2" "disk_same s ?s2" using s1 by simp_all
  show ?case
  proof (cases "b \<and> x AND STATUS_ERR = 0")
    case False
    then show ?thesis using s1 s2 x Suc.prems(2) by (auto simp: Let_def)
  next
    case True
    from read_words_ends [of "i * 256" 256 buf io isPrimary ?s2] Suc.prems(2) obtain buf1 d1 where
      w: "read_words io isPrimary 256 (i * 256) buf ?s2 = Some (buf1, ?s2\<lparr>dev := d1\<rparr>)" "length buf1 = length buf"
        "drop (512 * Suc i) buf1 = drop (512 * Suc i) buf" by (auto simp: algebra_simps)
    have "busy on (?s2\<lparr>dev := d1\<rparr>)" "512 * (Suc i + n) \<le> length buf1" using s2 w(2) Suc.prems(2) by simp_all
    from Suc.IH [OF this] obtain j buf' s' where j: "read_loop io rs isPrimary n (Suc i) buf1 (?s2\<lparr>dev := d1\<rparr>) = Some (j, buf', s')"
      "Suc i \<le> j" "j \<le> Suc i + n" "length buf' = length buf1" "drop (512 * j) buf' = drop (512 * j) buf1" "busy on s'"
      "disk_same (?s2\<lparr>dev := d1\<rparr>) s'" by blast
    have "512 * j = 512 * (j - Suc i) + 512 * Suc i" using j(2) by simp
    then have "drop (512 * j) buf1 = drop (512 * j) buf" using w(3) by (metis drop_drop)
    moreover have "disk_same s s'" using disk_same_trans [OF s2(2)] j(7) by simp
    ultimately show ?thesis using s1(1) x True w(1,2) j by (intro exI [of _ j] exI [of _ buf'] exI [of _ s']) simp
  qed
qed

lemma write_loop_ends:
  "busy on s \<Longrightarrow> 512 * (i + n) \<le> length buf \<Longrightarrow>
   \<exists>j s'. write_loop io rs isPrimary n i buf s = Some (j, s') \<and> i \<le> j \<and> j \<le> i + n \<and> busy on s' \<and> disk_same s s'"
proof (induction n arbitrary: i s)
  case 0
  then show ?case by auto
next
  case (Suc n)
  let ?s0 = "clearDiskInterruptFlag isPrimary s"
  obtain d where d: "write_words io isPrimary 256 (i * 256) buf ?s0 = Some (?s0\<lparr>dev := d\<rparr>)"
    using write_words_ends [of "i * 256" 256 buf io isPrimary ?s0] Suc.prems(2) by (auto simp: algebra_simps)
  have "busy on (?s0\<lparr>dev := d\<rparr>)" "disk_same s (?s0\<lparr>dev := d\<rparr>)" using Suc.prems(1) by simp_all
  then obtain b s1 where s1: "waitInterrupt io rs isPrimary (?s0\<lparr>dev := d\<rparr>) = Some (b, s1)" "busy on s1" "disk_same s s1"
    using waitInterrupt_ends [of on "?s0\<lparr>dev := d\<rparr>" isPrimary] disk_same_trans by metis
  obtain x d' where x: "getPort io (portOf isPrimary STATUS) s1 = (x, s1\<lparr>dev := d'\<rparr>)"
    using status_access [of "portOf isPrimary STATUS" s1] by (metis prod.collapse)
  have s2: "busy on (s1\<lparr>dev := d'\<rparr>)" "disk_same s (s1\<lparr>dev := d'\<rparr>)" using s1 by simp_all
  show ?case
  proof (cases "b \<and> x AND STATUS_ERR = 0")
    case False
    then show ?thesis using d s1 s2 x by (auto simp: Let_def)
  next
    case True
    have "512 * (Suc i + n) \<le> length buf" using Suc.prems(2) by simp
    from Suc.IH [OF s2(1) this] obtain j s' where j: "write_loop io rs isPrimary n (Suc i) buf (s1\<lparr>dev := d'\<rparr>) = Some (j, s')"
      "Suc i \<le> j" "j \<le> Suc i + n" "busy on s'" "disk_same (s1\<lparr>dev := d'\<rparr>) s'" by blast
    then show ?thesis using d s1(1) x True disk_same_trans [OF s2(2) j(5)] by (intro exI [of _ j] exI [of _ s']) simp
  qed
qed

lemma readSector_ends:
  assumes s: "runs U p s" "lock_owner s \<noteq> getRunningPid s" "counter0Reload s = R" and buf: "0 \<le> sint n" "512 * nat (sint n) \<le> length buf"
  shows "\<exists>j buf' s'. readSector io rs isPrimary isMaster n L buf s = Some (int j, buf', s') \<and>
    j \<le> nat (sint n) \<and> length buf' = length buf \<and> drop (512 * j) buf' = drop (512 * j) buf \<and> done_with (interrupts_on s) s s'"
proof -
  obtain s1 where s1: "lockDisk rs s = Some s1" "busy (interrupts_on s) s1" "disk_same s s1" using lockDisk_ends [OF s] by metis
  obtain b s2 where s2: "sendDiskCommand io isPrimary isMaster n L COMMAND_READ s1 = Some (b, s2)" "busy (interrupts_on s) s2"
    "disk_same s s2" using sendDiskCommand_ends [OF s1(2)] disk_same_trans [OF s1(3)] by metis
  show ?thesis
  proof (cases b)
    case False
    obtain s3 where "unlockDisk s2 = Some s3" "done_with (interrupts_on s) s s3" using unlockDisk_ends [OF s2(2,3)] by metis
    then show ?thesis using s1(1) s2(1) False
      by (intro exI [of _ 0] exI [of _ buf] exI [of _ s3]) (simp add: readSector_def)
  next
    case True
    have "512 * (0 + nat (sint n)) \<le> length buf" using buf by simp
    from read_loop_ends [OF s2(2) this, of isPrimary] obtain j buf' s3 where s3: "read_loop io rs isPrimary (nat (sint n)) 0 buf s2 = Some (j, buf', s3)"
      "j \<le> nat (sint n)" "length buf' = length buf" "drop (512 * j) buf' = drop (512 * j) buf" "busy (interrupts_on s) s3"
      "disk_same s2 s3" by auto
    obtain s4 where "unlockDisk s3 = Some s4" "done_with (interrupts_on s) s s4"
      using unlockDisk_ends [OF s3(5) disk_same_trans [OF s2(3) s3(6)]] by metis
    then show ?thesis using s1(1) s2(1) True s3
      buf(1)
      by (intro exI [of _ j] exI [of _ buf'] exI [of _ s4]) (auto simp: readSector_def)
  qed
qed

lemma writeSector_ends:
  assumes s: "runs U p s" "lock_owner s \<noteq> getRunningPid s" "counter0Reload s = R" and buf: "0 \<le> sint n" "512 * nat (sint n) \<le> length buf"
  shows "\<exists>j s'. writeSector io rs isPrimary isMaster n L buf s = Some (int j, s') \<and>
    j \<le> nat (sint n) \<and> done_with (interrupts_on s) s s'"
proof -
  obtain s1 where s1: "lockDisk rs s = Some s1" "busy (interrupts_on s) s1" "disk_same s s1" using lockDisk_ends [OF s] by metis
  obtain b s2 where s2: "sendDiskCommand io isPrimary isMaster n L COMMAND_WRITE s1 = Some (b, s2)" "busy (interrupts_on s) s2"
    "disk_same s s2" using sendDiskCommand_ends [OF s1(2)] disk_same_trans [OF s1(3)] by metis
  then have R2: "counter0Reload s2 = R" by (simp add: busy_def)
  obtain b' d where d: "waitDataRequest io isPrimary s2 = Some (b', s2\<lparr>dev := d\<rparr>)"
    using polls_end_here [OF R2, where wait = "waitDataRequest io isPrimary" and isPrimary = isPrimary] by auto
  have s3: "busy (interrupts_on s) (s2\<lparr>dev := d\<rparr>)" "disk_same s (s2\<lparr>dev := d\<rparr>)" using s2 by simp_all
  show ?thesis
  proof (cases "b \<and> b'")
    case False
    obtain s4 s4' where "unlockDisk s2 = Some s4" "done_with (interrupts_on s) s s4"
      "unlockDisk (s2\<lparr>dev := d\<rparr>) = Some s4'" "done_with (interrupts_on s) s s4'"
      using unlockDisk_ends [OF s2(2,3)] unlockDisk_ends [OF s3] by metis
    then show ?thesis using s1(1) s2(1) d False
      by (intro exI [of _ 0] exI [of _ "if b then s4' else s4"]) (auto simp: writeSector_def)
  next
    case True
    have "512 * (0 + nat (sint n)) \<le> length buf" using buf by simp
    from write_loop_ends [OF s3(1) this, of isPrimary] obtain j s4 where s4: "write_loop io rs isPrimary (nat (sint n)) 0 buf (s2\<lparr>dev := d\<rparr>) = Some (j, s4)"
      "j \<le> nat (sint n)" "busy (interrupts_on s) s4" "disk_same (s2\<lparr>dev := d\<rparr>) s4" by auto
    obtain s5 where "unlockDisk s4 = Some s5" "done_with (interrupts_on s) s s5"
      using unlockDisk_ends [OF s4(3) disk_same_trans [OF s3(2) s4(4)]] by metis
    then show ?thesis using s1(1) s2(1) d True s4
      buf(1)
      by (intro exI [of _ j] exI [of _ s5]) (auto simp: writeSector_def)
  qed
qed

text \<open>A drive that never gets ready, or none at all: the status reads as busy.\<close>

lemma dead_read:
  assumes s: "runs U p s" "lock_owner s \<noteq> getRunningPid s" "counter0Reload s = R"
    and dead: "\<And>d. fst (in_byte io (portOf isPrimary STATUS) d) AND STATUS_BSY \<noteq> 0"
  shows "\<exists>s'. readSector io rs isPrimary isMaster n L buf s = Some (0, buf, s') \<and> done_with (interrupts_on s) s s'"
proof -
  obtain s1 where s1: "lockDisk rs s = Some s1" "busy (interrupts_on s) s1" "disk_same s s1" using lockDisk_ends [OF s] by metis
  then have "counter0Reload s1 = R" by (simp add: busy_def)
  from waitStatus_ends [OF this, of isPrimary STATUS_BSY 0] obtain b d where
    w: "waitNoBusy io isPrimary s1 = Some (b, s1\<lparr>dev := d\<rparr>)" "wait_ends (\<lambda>b x. b \<and> x AND STATUS_BSY = 0) isPrimary s1 b d"
    unfolding waitNoBusy_def by blast
  have "\<not> b" using w(2) dead by (auto simp: wait_ends_def status_of_def getPort_def case_prod_beta Let_def)
  moreover obtain s2 where "unlockDisk (s1\<lparr>dev := d\<rparr>) = Some s2" "done_with (interrupts_on s) s s2"
    using unlockDisk_ends [of "interrupts_on s" "s1\<lparr>dev := d\<rparr>" s] s1 by auto
  ultimately show ?thesis using s1(1) w(1) by (intro exI [of _ s2]) (simp add: readSector_def sendDiskCommand_def)
qed

end

section \<open>Properties\<close>

text \<open>C37: Every poll of the driver ends: whatever the drive answers, the waits for a drive that is not busy, for a ready drive and for
  a data request return within 500 milliseconds of the interval timer (596591 clocks) and seven accesses to ports, on either channel, and
  change nothing but the device.\<close>

theorem every_poll_ends:
  assumes "running_counter io clk R B" and "counter0Reload s = R"
    and "wait \<in> {waitNoBusy io isPrimary, waitReady io isPrimary, waitDataRequest io isPrimary}"
  shows "\<exists>answer d. wait s = Some (answer, s\<lparr>dev := d\<rparr>) \<and> clk (dev s) \<le> clk d \<and>
    int (clk d) \<le> int (clk (dev s)) + 596591 + 7 * int B"
  using running_counter.polls_end_here [OF assms(1,2), of wait isPrimary] assms(3) by blast

text \<open>C36: Every transfer ends: whatever the drive does, on either channel and for either drive, with interrupts on or off, a transfer of
  \<open>n\<close> sectors returns a count of at most \<open>n\<close>, the process runs on, does not hold the driver's mutex and has its interrupt flag
  as before; a read has written only the sectors it counts. The process must be resumed at the deadline at the latest.\<close>

theorem transfers_always_return:
  assumes "timed_driver io clk R B rs U p" and "runs U p s" "lock_owner s \<noteq> getRunningPid s" "counter0Reload s = R"
    and "0 \<le> sint n" "512 * nat (sint n) \<le> length buf"
  shows "\<exists>j buf' s' k s''. readSector io rs isPrimary isMaster n L buf s = Some (int j, buf', s') \<and> j \<le> nat (sint n) \<and>
    length buf' = length buf \<and> drop (512 * j) buf' = drop (512 * j) buf \<and>
    runs U p s' \<and> lock_owner s' \<noteq> getRunningPid s' \<and> interrupts_on s' = interrupts_on s \<and>
    writeSector io rs isPrimary isMaster n L buf s = Some (int k, s'') \<and> k \<le> nat (sint n) \<and>
    runs U p s'' \<and> lock_owner s'' \<noteq> getRunningPid s'' \<and> interrupts_on s'' = interrupts_on s"
  using timed_driver.readSector_ends [OF assms, of isPrimary isMaster L] timed_driver.writeSector_ends [OF assms, of isPrimary isMaster L]
  unfolding timed_driver.done_with_def [OF assms(1)] by blast

text \<open>C38: A dead drive is an error, not the end of the kernel. When the status register always reads as busy (no drive, or one that hangs),
  \<^verbatim>\<open>mount\<close> returns false with its message on the screen, the file system is as it was but for its buffers and the console, and the
  process runs on without the driver's mutex.\<close>

theorem dead_drive_is_an_error:
  assumes "timed_driver io clk R B rs U p" and "runs U p (disk s)" "lock_owner (disk s) \<noteq> getRunningPid (disk s)"
    and "counter0Reload (disk s) = R" and "\<forall>d. fst (in_byte io (portOf FS_PRIMARY STATUS) d) AND STATUS_BSY \<noteq> 0"
  shows "\<exists>s'. mount (driver io rs) s = Some (False, s') \<and> puts mountFailMessage1 (screen s) = Some (screen s') \<and>
    isMounted s' = isMounted s \<and> fatInfor s' = fatInfor s \<and>
    runs U p (disk s') \<and> lock_owner (disk s') \<noteq> getRunningPid (disk s') \<and> interrupts_on (disk s') = interrupts_on (disk s)"
proof -
  obtain d' where d': "readSector io rs FS_PRIMARY FS_MASTER 1 0 (replicate SECTOR_SIZE 0) (disk s) =
      Some (0, replicate SECTOR_SIZE 0, d')" "timed_driver.done_with R U p (interrupts_on (disk s)) (disk s) d'"
    using timed_driver.dead_read [OF assms(1-4), of FS_PRIMARY FS_MASTER 1 0] assms(5) by blast
  obtain scr where scr: "puts mountFailMessage1 (screen s) = Some scr" using print_lit(2) unfolding mountFailMessage1_def by blast
  let ?s = "s\<lparr>buffer512 := replicate SECTOR_SIZE 0, buffer4096 := replicate CLUSTER_SIZE 0, disk := d', screen := scr\<rparr>"
  have "mount (driver io rs) s = Some (False, ?s)"
    using d'(1) scr by (simp add: mount_def read512_def driver_def say_def Let_def)
  then show ?thesis using d'(2) scr unfolding timed_driver.done_with_def [OF assms(1)] by (intro exI [of _ ?s]) simp
qed

section \<open>An interval timer and no drive\<close>

text \<open>The ports of the timer with a reload of 5965, as \<^verbatim>\<open>initScheduler\<close> sets it; all other ports read as ones, as if no drive were there.\<close>

record pit =
  pclk :: nat
  platch :: WORD
  phigh :: bool

definition pit_io :: "pit portio" where
  "pit_io = \<lparr>in_byte = \<lambda>port d. if port = 0x40
       then (if phigh d then ucast (drop_bit 8 (platch d)) else ucast (platch d), d\<lparr>pclk := pclk d + 1, phigh := \<not> phigh d\<rparr>)
       else (0xFF, d\<lparr>pclk := pclk d + 1\<rparr>),
     out_byte = \<lambda>port b d. if port = 0x43 \<and> b = 0
       then \<lparr>pclk = pclk d + 1, platch = counter_at 5965 (pclk d + 1), phigh = False\<rparr> else d\<lparr>pclk := pclk d + 1\<rparr>,
     in_word = \<lambda>port d. (0xFFFF, d), out_word = \<lambda>port w d. d\<rparr>"

lemma word_halves: "ucast (ucast (w :: WORD) :: BYTE) OR push_bit 8 (ucast (ucast (drop_bit 8 w) :: BYTE)) = w"
  by (rule bit_word_eqI) (auto simp: bit_simps)

interpretation pit: running_counter pit_io pclk 5965 1
  by unfold_locales (auto simp: pit_io_def word_halves)

text \<open>A kernel that resumes process 0 when the timer reaches its deadline.\<close>

definition timer_resume :: "(pit, unit) resume" where
  "timer_resume s =
     (let t = wakeupTick (pcbs s (pcbAddr 0)); late = \<not> unat t < 2 ^ 63
      in Some (snd (setIf False ((booted_disk (dev s) held (diskInfo s) late)
           \<lparr>counter0Reload := counter0Reload s, isSecondaryInterruptOccur := late, tickCount := (if late then 0 else t)\<rparr>))))"

lemma block_reload: "blockRunningProcess s = Some s' \<Longrightarrow> counter0Reload s' = counter0Reload s"
  by (auto simp: blockRunningProcess_def scheduleBlocked_def pop_ready_def switchContext_def run_next_def
      set_state_def upd_pcb_def updateTSSRsp0_def setTSSRsp0_def Let_def split: bind_splits prod.splits if_splits)

lemma sleep_tick:
  assumes "sleepUntilTick t s = Some s'"
  shows "wakeupTick (pcbs s' (runningProcess s)) = t" "counter0Reload s' = counter0Reload s"
proof -
  show "counter0Reload s' = counter0Reload s"
    using block_reload [OF assms [unfolded sleepUntilTick_def Let_def]] by (simp add: insert_sleep_def upd_pcb_def case_prod_beta)
  show "wakeupTick (pcbs s' (runningProcess s)) = t"
    using assms by (auto simp: sleepUntilTick_def insert_sleep_def blockRunningProcess_def scheduleBlocked_def pop_ready_def
        switchContext_def run_next_def set_state_def upd_pcb_def updateTSSRsp0_def setTSSRsp0_def Let_def
        split: bind_splits prod.splits if_splits)
qed

lemma acquire_reload:
  assumes "acquireLock m s = Some (True, pre, s1)"
  shows "counter0Reload s1 = counter0Reload s"
proof -
  let ?i = "snd (setIf False s)" and ?l = "insertList (nodes s) (waitList (mutexes s m)) (runningProcess s)"
  have "blockRunningProcess (upd_mutex m (\<lambda>x. x\<lparr>waitList := snd ?l\<rparr>) (?i\<lparr>nodes := fst ?l\<rparr>)) = Some s1"
    using assms by (auto simp: acquireLock_alt Let_def case_prod_beta split: if_splits)
  from block_reload [OF this] show ?thesis by (simp add: upd_mutex_def)
qed

lemma locks_timer_upd [simp]:
  "locks_rel V (s\<lparr>tickCount := t\<rparr>) wl = locks_rel V s wl" "locks_rel V (s\<lparr>counter0Reload := x\<rparr>) wl = locks_rel V s wl"
  "locks_rel V (s\<lparr>isSecondaryInterruptOccur := b\<rparr>) wl = locks_rel V s wl"
  by (simp_all add: locks_rel_def mutex_ok_def parked_def sched_ok_def sched_rel_def core_of_def srep_def [abs_def] state_of_def [abs_def])

lemma timer_resume_ok:
  assumes m: "diskMutex s = 0x700"
  obtains s' where "timer_resume s = Some s'" "runs {0x700} (pcbAddr 0) s'" "holds_lock s'" "\<not> interrupts_on s'"
    "counter0Reload s' = counter0Reload s" "disk_same s s'" "occurFlag b s' \<or> wakeupTick (pcbs s (pcbAddr 0)) \<le> tickCount s'"
proof -
  let ?t = "wakeupTick (pcbs s (pcbAddr 0))"
  define late where "late = (\<not> unat ?t < 2 ^ 63)"
  let ?b = "booted_disk (dev s) held (diskInfo s) late"
  define x where "x = ?b\<lparr>counter0Reload := counter0Reload s, isSecondaryInterruptOccur := late, tickCount := (if late then 0 else ?t)\<rparr>"
  note B = booted_disk_runs [OF disjI1, OF refl, of "dev s" "diskInfo s" late] booted_disk_holds [of "dev s" "diskInfo s" late]
  have x: "runs {0x700} (pcbAddr 0) x" "holds_lock x" "disk_same s x"
    using B m by (auto simp: runs_def may_block_def x_def late_def holds_lock_def lock_owner_def getRunningPid_def disk_same_def)
  have len: "length (cpu x) = 24" using x(1) by (simp add: runs_def)
  have e: "timer_resume s = Some (snd (setIf False x))" by (simp add: timer_resume_def x_def late_def Let_def)
  have f: "occurFlag b x \<or> ?t \<le> tickCount x" by (simp add: x_def occurFlag_def)
  have "occurFlag b (snd (setIf False x)) = occurFlag b x"
    by (simp add: occurFlag_def setIf_def disableInterrupt_def)
  show thesis
    by (rule that [OF e]) (use x len f interrupts_setIf(1) [OF len, of False] \<open>occurFlag b _ = _\<close> in \<open>simp_all\<close>, simp add: x_def)
qed

interpretation no_drive: timed_driver pit_io pclk 5965 1 timer_resume "{0x700}" "pcbAddr 0"
proof (unfold_locales, goal_cases)
  case (1 s b t s1)
  note F = sleep_frame [OF 1(6)] more_dsk [OF sleep_frame(2) [OF 1(6)]] sleep_tick [OF 1(6)]
  have r: "runningProcess s = pcbAddr 0" and m: "diskMutex s1 = 0x700" using 1(1) F(3) by (simp_all add: runs_def)
  have "disk_same s s1" using F(3) by (simp add: disk_same_def)
  with timer_resume_ok [OF m, of b] F(4,5) r show ?case using disk_same_trans by metis
next
  case (2 s preIf s1)
  note F = more_dsk' [OF acquire_blocked_frame(2) [OF 2(4)]]
  have "diskMutex s1 = 0x700" "disk_same s s1" using 2(1) F by (simp_all add: runs_def disk_same_def)
  with timer_resume_ok [of s1] acquire_reload [OF 2(4)] show ?case using disk_same_trans by metis
qed

text \<open>Process 0 on this machine, with interrupts on.\<close>

definition undriven :: "pit dsk" where
  "undriven = snd (setIf True ((booted_disk \<lparr>pclk = 7, platch = 0, phigh = False\<rparr> unheld (replicate 256 0) False)\<lparr>counter0Reload := 5965\<rparr>))"

lemma undriven_eq:
  "runs {0x700} (pcbAddr 0) undriven" "lock_owner undriven \<noteq> getRunningPid undriven" "counter0Reload undriven = 5965"
  "interrupts_on undriven"
proof -
  let ?d = "\<lparr>pclk = 7, platch = 0, phigh = False\<rparr>"
  let ?s = "(booted_disk ?d unheld (replicate 256 0) False)\<lparr>counter0Reload := 5965\<rparr>"
  note B = booted_disk_runs [OF disjI2, OF refl, of ?d "replicate 256 0" False]
  have r: "runs {0x700} (pcbAddr 0) ?s" using B(1) by (auto simp: runs_def may_block_def)
  then have len: "length (cpu ?s) = 24" by (simp add: runs_def)
  show "runs {0x700} (pcbAddr 0) undriven" "interrupts_on undriven" "counter0Reload undriven = 5965"
    using r interrupts_setIf(1) [OF len, of True] by (simp_all add: undriven_def)
  show "lock_owner undriven \<noteq> getRunningPid undriven"
    using B(2-4) by (simp add: undriven_def lock_owner_def getRunningPid_def) (simp add: unheld_def)
qed

lemma every_poll_ends_witness:
  "\<exists>answer d. waitNoBusy pit_io True undriven = Some (answer, undriven\<lparr>dev := d\<rparr>) \<and> pclk d \<le> pclk (dev undriven) + 596598"
proof -
  obtain answer d where "waitNoBusy pit_io True undriven = Some (answer, undriven\<lparr>dev := d\<rparr>)"
    "int (pclk d) \<le> int (pclk (dev undriven)) + 596591 + 7 * int 1"
    using every_poll_ends [OF pit.running_counter_axioms undriven_eq(3), of "waitNoBusy pit_io True" True] by auto
  then show ?thesis by (intro exI [of _ answer] exI [of _ d]) linarith
qed

lemma transfers_always_return_witness:
  "\<exists>j buf' s'. readSector pit_io timer_resume False True 2 9 (replicate 1024 0) undriven = Some (int j, buf', s') \<and> j \<le> 2"
proof -
  have "sint (2 :: BYTE) = 2" by simp
  then show ?thesis
    using transfers_always_return [OF no_drive.timed_driver_axioms undriven_eq(1-3), of 2 "replicate 1024 0" False True 9] by auto
qed

definition undriven_fat :: "pit dsk fat" where
  "undriven_fat = \<lparr>disk = undriven, screen = blank, fatInfor = \<lparr>freeClusterCount = 0, clusterLinkSectorCount = 0,
      clusterLinkSectorAddress = 0, dataAddress = 0\<rparr>, bestIdx = 0, bestRootDirIdx = 0, isMounted = False,
      buffer512 = replicate 512 7, buffer4096 = replicate 4096 7\<rparr>"

lemma dead_drive_is_an_error_witness:
  "\<exists>s'. mount (driver pit_io timer_resume) undriven_fat = Some (False, s') \<and> interrupts_on (disk s')"
proof -
  have d: "disk undriven_fat = undriven" by (simp add: undriven_fat_def)
  have "\<forall>d. fst (in_byte pit_io (portOf FS_PRIMARY STATUS) d) AND STATUS_BSY \<noteq> 0"
    by (simp add: pit_io_def portOf_def portAddress_def disk_ports disk_regs disk_const)
  from dead_drive_is_an_error [OF no_drive.timed_driver_axioms _ _ _ this, of undriven_fat] show ?thesis
    unfolding d using undriven_eq by auto
qed

end
