(* ===== verification/DiskWakeup.thy ===== *)
theory DiskWakeup
  imports DiskTimeouts
begin

text \<open>
  The end of a wait in the driver, by the kernel's own handlers: a process that sleeps in \<^verbatim>\<open>waitInterrupt\<close> is woken by the disk's
  interrupt and runs again after the timer interrupts that bring its turn, with all that it left.
\<close>

section \<open>What the wait keeps\<close>

definition quiet :: "('d, 'z) dsk_scheme \<Rightarrow> ('d, 'z) dsk_scheme \<Rightarrow> bool" where
  "quiet s s' \<longleftrightarrow> sched_ok s' \<and> keeps_parked {} s s' \<and> mutexes s' = mutexes s \<and> disk_same s s' \<and>
     idleProcess s' = idleProcess s \<and> collectorProcess s' = collectorProcess s \<and> (\<forall>q. nid (nodes s' q) = nid (nodes s q)) \<and>
     interruptHandlers s' = interruptHandlers s"

lemma quiet_trans: "quiet s t \<Longrightarrow> quiet t u \<Longrightarrow> quiet s u"
  using keeps_parked_trans [of s t u] by (auto simp: quiet_def disk_same_def)

lemma quiet_frame:
  assumes "sched_ok s'" and "keeps_parked {} s s'" and "sched_frame s s'"
  shows "quiet s s'"
  using sched_frame_sel [OF assms(3)] more_dsk [OF sched_frame_sel(12) [OF assms(3)]] assms(1,2)
  by (simp add: quiet_def disk_same_def)

text \<open>The registers of a process: in its context, or, when an interrupt handler has switched to it, in the frame it returns through.\<close>

definition kept :: "QWORD list \<Rightarrow> ptr \<Rightarrow> ('d, 'z) proc_scheme \<Rightarrow> bool" where
  "kept c p s \<longleftrightarrow> (if runningProcess s = p then ist s = c else ctx (pcbs s p) = c)"

lemma slice_kept:
  assumes "sched_ok s" and "p \<noteq> runningProcess s" and "ctx (pcbs s p) = c" and t: "timeoutSchedule s = Some s'"
  shows "kept c p s'"
proof -
  obtain rs ss where rel: "sched_rel s rs ss" using assms(1) by (auto elim: sched_okE)
  show ?thesis
  proof (cases rs)
    case Nil
    then have "s' = s" using timeoutSchedule_nil [of s ss] sched_relD(1) [OF rel] t by simp
    then show ?thesis using assms(2,3) by (simp add: kept_def)
  next
    case (Cons x xs)
    show ?thesis
      by (rule timeoutSchedule_rel [OF rel [unfolded Cons]]) (use t assms(2,3) in \<open>auto simp: kept_def\<close>)
  qed
qed

section \<open>Waking the waiter\<close>

lemma sleep_saves:
  assumes "sleepUntilTick t s = Some s'" and "runningProcess s \<noteq> NULL"
  shows "ctx (pcbs s' (runningProcess s)) = cpu s"
  using assms by (auto simp: sleepUntilTick_def insert_sleep_def blockRunningProcess_def scheduleBlocked_def pop_ready_def
        switchContext_def run_next_def set_state_def upd_pcb_def updateTSSRsp0_def setTSSRsp0_def Let_def
        split: bind_splits prod.splits if_splits)

lemma wake_isr:
  assumes ok: "sched_ok s" and p: "live (allocProcessTable s) p" "state_of s p = PROCESS_STATE_BLOCKED" "\<not> parked s p"
    and c: "ctx (pcbs s p) = c"
  obtains s' where "wakeupProcessInInterrupt p s = Some s'" "sched_ok s'" "sched_frame s s'" "keeps_parked {} s s'" "kept c p s'"
    "asched_of s' = a_wake_isr (idleProcess s) p (asched_of s)"
proof -
  obtain s' where s': "wakeupProcessInInterrupt p s = Some s'" "sched_ok s'" "asched_of s' = a_wake_isr (idleProcess s) p (asched_of s)"
    "sched_frame s s'" "keeps_parked {p} s s'" using interrupt_wake_parks [OF ok p(1,2)] by metis
  have "keeps_parked {} s s'" using s'(5) p(3) by (auto simp: keeps_parked_def)
  moreover have "kept c p s'"
  proof -
    obtain rs ss where rel: "sched_rel s rs ss" using ok by (auto elim: sched_okE)
    obtain s1 where s1: "wakeupProcess p s = Some (True, s1)" "sched_rel s1 (rs @ [p]) (remove1 p ss)" "runningProcess s1 = runningProcess s"
      "\<And>q. ctx (pcbs s1 q) = ctx (pcbs s q) \<and> wakeupTick (pcbs s1 q) = wakeupTick (pcbs s q)"
      using wakeup_rel [OF rel p(1,2)] by metis
    have "p \<noteq> runningProcess s" using coreD(5) [OF sched_relD(2) [OF rel]] p(2) by auto
    then show ?thesis
      using s'(1) s1 c slice_kept [OF sched_okI [OF s1(2)], of p c s']
      by (auto simp: wakeupProcessInInterrupt_def kept_def split: if_splits)
  qed
  ultimately show thesis using s' by (intro that)
qed

section \<open>Until its turn\<close>

text \<open>Timer interrupts until \<open>p\<close> runs. The processes that run before it may do what they like with their registers: \<open>fs\<close> are the frames
  the timer finds.\<close>

primrec run_until :: "'d portio \<Rightarrow> ptr \<Rightarrow> QWORD list list \<Rightarrow> ('d, 'z) dsk_scheme \<Rightarrow> ('d, 'z) dsk_scheme option" where
  "run_until io p [] s = (if runningProcess s = p then Some s else None)"
| "run_until io p (f # fs) s = (if runningProcess s = p then Some s
     else do { s1 \<leftarrow> timerInterruptHandler io 32 (s\<lparr>ist := f\<rparr>); run_until io p fs s1 })"

lemma eoi_abs:
  assumes "ata_drive io drv"
  shows "\<exists>d. snd (sendEOI io pin s) = s\<lparr>dev := d\<rparr> \<and> drv d = drv (dev s)"
proof -
  have o: "drv (out_byte io 0x20 b d) = drv d" "drv (out_byte io 0xA0 b d) = drv d" for b d
    using ata_drive.out_law [OF assms, of "0x20" b d] ata_drive.out_law [OF assms, of "0xA0" b d] by (simp_all add: ata_out_def)
  show ?thesis
  proof (cases "picState s = ICW_SET")
    case True
    then show ?thesis by (auto simp: sendEOI_def setPort_def Let_def o)
  next
    case False
    then show ?thesis by (intro exI [of _ "dev s"]) (simp add: sendEOI_def)
  qed
qed

lemma quiet_upd:
  "sched_ok s \<Longrightarrow> quiet s (s\<lparr>dev := d\<rparr>)" "sched_ok s \<Longrightarrow> quiet s (s\<lparr>ist := f\<rparr>)" "sched_ok s \<Longrightarrow> quiet s (s\<lparr>cpu := f\<rparr>)"
  "sched_ok s \<Longrightarrow> quiet s (s\<lparr>tickCount := n\<rparr>)" "sched_ok s \<Longrightarrow> quiet s (s\<lparr>isPrimaryInterruptOccur := b\<rparr>)"
  "sched_ok s \<Longrightarrow> quiet s (s\<lparr>diskWaiter := w\<rparr>)"
  by (simp_all add: quiet_def keeps_parked_def parked_def state_of_def disk_same_def sched_ok_def sched_rel_def core_of_def srep_def [abs_def]
      state_of_def [abs_def])

lemma asched_upd [simp]:
  "asched_of (s\<lparr>dev := d\<rparr>) = asched_of s" "asched_of (s\<lparr>ist := f\<rparr>) = asched_of s" "asched_of (s\<lparr>cpu := f\<rparr>) = asched_of s"
  "asched_of (s\<lparr>tickCount := n\<rparr>) = asched_of s" "asched_of (x\<lparr>isPrimaryInterruptOccur := b\<rparr>) = asched_of x"
  "asched_of (x\<lparr>diskWaiter := w\<rparr>) = asched_of x"
  by (simp_all add: asched_of_def)

lemma timer_quiet:
  assumes d: "ata_drive io drv" and ok: "sched_ok s" and p: "p \<noteq> runningProcess s" "ctx (pcbs s p) = c"
    and nb: "state_of s p \<noteq> PROCESS_STATE_BLOCKED"
  obtains s' where "timerInterruptHandler io 32 s = Some s'" "quiet s s'" "kept c p s'" "drv (dev s') = drv (dev s)"
    "asched_of s' = a_slice (idleProcess s) (a_expire (tickCount s + 1) (asched_of s))" "proc.more s' = proc.more s"
    "tickCount s' = tickCount s + 1"
proof -
  obtain e where e: "snd (sendEOI io (32 - IRQ_START_OFFSET) (s\<lparr>tickCount := tickCount s + 1\<rparr>)) = s\<lparr>tickCount := tickCount s + 1, dev := e\<rparr>"
    (is "_ = ?s") and de: "drv e = drv (dev s)"
    using eoi_abs [OF d, of "32 - IRQ_START_OFFSET" "s\<lparr>tickCount := tickCount s + 1\<rparr>"] by auto
  have q0: "quiet s ?s" using quiet_trans [OF quiet_upd(4) [OF ok] quiet_upd(1)] quiet_upd(4) [OF ok] by (simp add: quiet_def)
  then have ok1: "sched_ok ?s" by (simp add: quiet_def)
  then obtain rs ss where rel: "sched_rel ?s rs ss" by (auto elim: sched_okE)
  obtain s1 where s1: "wakeExpiredProcess ?s = Some s1" "sched_ok s1" "asched_of s1 = a_expire (tickCount ?s) (asched_of ?s)"
    "sched_frame ?s s1" "keeps_parked {} ?s s1" using expire_parks [OF ok1] by metis
  have c1: "ctx (pcbs s1 p) = c" "runningProcess s1 = runningProcess s"
    by (rule wakeExpired_rel [OF rel]; use s1(1) p(2) in auto)+
  obtain s2 where s2: "timeoutSchedule s1 = Some s2" "sched_ok s2" "asched_of s2 = a_slice (idleProcess s1) (asched_of s1)"
    "sched_frame s1 s2" "keeps_parked {} s1 s2" using slice_parks [OF s1(2)] by metis
  have q: "quiet s s2" using q0 quiet_frame [OF s1(2,5,4)] quiet_frame [OF s2(2,5,4)] quiet_trans by blast
  have "timerInterruptHandler io 32 s = Some s2" unfolding timerInterruptHandler_def Let_def e using s1(1) s2(1) by simp
  moreover have "kept c p s2" using slice_kept [OF s1(2) _ c1(1) s2(1)] c1(2) p(1) by simp
  ultimately show thesis
    using q s1(3) s2(3) de sched_frame_sel [OF s1(4)] sched_frame_sel [OF s2(4)] by (intro that [of s2]) simp_all
qed

text \<open>The process is the running one or has position \<open>k\<close> in the ready list.\<close>

definition turn :: "nat \<Rightarrow> ptr \<Rightarrow> ('d, 'z) proc_scheme \<Rightarrow> bool" where
  "turn k p s \<longleftrightarrow> a_run (asched_of s) = p \<or> k < length (a_ready (asched_of s)) \<and> a_ready (asched_of s) ! k = p"

lemma turn_step:
  assumes "turn k p s" "a_run (asched_of s) \<noteq> p" "asched_of s' = a_slice idle (a_expire now (asched_of s))"
  shows "turn (k - 1) p s'" "k = 0 \<Longrightarrow> a_run (asched_of s') = p"
proof -
  obtain x xs where A: "a_ready (asched_of s) = x # xs" using assms(1,2) by (cases "a_ready (asched_of s)") (auto simp: turn_def)
  note a = a_tick_ready [OF A, where idle = idle and now = now]
  obtain ys where "a_ready (asched_of s') = xs @ ys" "a_run (asched_of s') = x" using a unfolding assms(3) by blast
  then show "turn (k - 1) p s'" "k = 0 \<Longrightarrow> a_run (asched_of s') = p"
    using assms(1,2) A by (cases k; auto simp: turn_def nth_append)+
qed

lemma run_until_ok:
  assumes d: "ata_drive io drv"
  shows "sched_ok s \<Longrightarrow> kept c p s \<Longrightarrow> turn k p s \<Longrightarrow> k < length fs \<or> runningProcess s = p \<Longrightarrow>
    \<exists>s'. run_until io p fs s = Some s' \<and> runningProcess s' = p \<and> ist s' = c \<and> quiet s s' \<and> drv (dev s') = drv (dev s) \<and>
      proc.more s' = proc.more s \<and> unat (tickCount s') \<le> unat (tickCount s) + length fs"
proof (induction fs arbitrary: s k)
  case Nil
  then show ?case using quiet_upd(2) [OF Nil(1), of "ist s"] by (auto simp: kept_def)
next
  case (Cons f fs)
  show ?case
  proof (cases "runningProcess s = p")
    case True
    then show ?thesis using quiet_upd(2) [OF Cons.prems(1), of "ist s"] Cons.prems(2) by (auto simp: kept_def)
  next
    case False
    let ?s = "s\<lparr>ist := f\<rparr>"
    have ok: "sched_ok ?s" and q0: "quiet s ?s" using quiet_upd(2) [OF Cons.prems(1), of f] by (simp_all add: quiet_def)
    have "a_run (asched_of s) \<noteq> p" using False by (simp add: asched_of_def)
    have c: "ctx (pcbs ?s p) = c" "p \<noteq> runningProcess ?s" using Cons.prems(2) False by (auto simp: kept_def)
    have "state_of ?s p \<noteq> PROCESS_STATE_BLOCKED"
      using scheduled_not_blocked [OF ok, of p] Cons.prems(3) False by (auto simp: turn_def asched_of_def)
    from timer_quiet [OF d ok c(2,1) this] obtain s1 where s1: "timerInterruptHandler io 32 ?s = Some s1" "quiet ?s s1" "kept c p s1"
      "drv (dev s1) = drv (dev ?s)" "asched_of s1 = a_slice (idleProcess ?s) (a_expire (tickCount ?s + 1) (asched_of ?s))"
      "proc.more s1 = proc.more ?s" "tickCount s1 = tickCount ?s + 1" by metis
    note ts = turn_step [OF Cons.prems(3) \<open>a_run _ \<noteq> p\<close> s1(5) [unfolded asched_upd]]
    have k: "k - 1 < length fs \<or> runningProcess s1 = p"
      using ts(2) Cons.prems(4) False by (cases k) (auto simp: asched_of_def)
    have "sched_ok s1" using s1(2) by (simp add: quiet_def)
    from Cons.IH [OF this s1(3) ts(1) k] obtain s' where s': "run_until io p fs s1 = Some s'" "runningProcess s' = p" "ist s' = c"
      "quiet s1 s'" "drv (dev s') = drv (dev s1)" "proc.more s' = proc.more s1" "unat (tickCount s') \<le> unat (tickCount s1) + length fs"
      by blast
    have "unat (tickCount s + 1) \<le> unat (tickCount s) + 1" by (simp add: unat_word_ariths)
    then show ?thesis
      using s' s1 False quiet_trans [OF quiet_trans [OF q0 s1(2)] s'(4)] by (intro exI [of _ s']) simp
  qed
qed

section \<open>The wait\<close>

text \<open>What happens while the process sleeps: the drive completes and interrupts, and the timer goes on until the process has its turn. The
  processor takes the frame it returns through as its registers.\<close>

definition kernel_resume :: "'d portio \<Rightarrow> ('d \<Rightarrow> 'd) \<Rightarrow> console \<Rightarrow> ptr \<Rightarrow> QWORD list list \<Rightarrow> ('d, 'z) resume" where
  "kernel_resume io complete scr p fs s = do {
     (scr', s1) \<leftarrow> dispatchInterrupt io (IRQ_START_OFFSET + IRQ_DISK1) scr (s\<lparr>dev := complete (dev s), ist := cpu s\<rparr>);
     s2 \<leftarrow> run_until io p fs s1;
     Some (s2\<lparr>cpu := ist s2\<rparr>) }"

lemma wake_turn:
  assumes "asched_of s' = a_wake_isr idle p A"
  shows "\<exists>k \<le> length (a_ready A). turn k p s'"
proof (cases "a_run A = idle")
  case False
  then show ?thesis using assms by (intro exI [of _ "length (a_ready A)"]) (simp add: turn_def a_wake_isr_def a_wake_def)
next
  case True
  then show ?thesis using assms
    by (cases "a_ready A") (auto simp: turn_def a_wake_isr_def a_wake_def a_slice_def nth_append intro!: exI [of _ "length (a_ready A) - 1"])
qed

lemma sleep_ready: "length (a_ready (a_sleep_until t idle A)) \<le> length (a_ready A)" "(a_run A, t) \<in> set (a_sleep (a_sleep_until t idle A))"
  by (auto simp: a_sleep_until_def a_dispatch_def split: list.split)

lemma sleeper_blocked:
  assumes "sched_ok s" and "(p, t) \<in> set (a_sleep (asched_of s))"
  shows "live (allocProcessTable s) p" "state_of s p = PROCESS_STATE_BLOCKED" "\<not> parked s p"
proof -
  obtain rs ss where rel: "sched_rel s rs ss" using assms(1) by (auto elim: sched_okE)
  then have "p \<in> set ss" using assms(2) by (auto simp: asched_of_rel)
  then show "live (allocProcessTable s) p" "state_of s p = PROCESS_STATE_BLOCKED" "\<not> parked s p"
    using coreD(3) [OF sched_relD(2) [OF rel], of p] by (auto simp: parked_rel [OF rel])
qed

lemma sleeper_resumes:
  assumes d: "ata_drive io drv" "\<And>x. drv (complete x) = ata_complete (drv x)"
    and s: "sched_ok s" "may_block s" "diskWaiter s True = p" "runningProcess s = p" "interruptHandlers s ! 46 = Some primaryDiskISR"
    and fs: "length (a_ready (asched_of s)) < length fs"
    and sl: "sleepUntilTick t s = Some s1"
  obtains s' where "kernel_resume io complete scr p fs s1 = Some s'" "quiet s s'" "runningProcess s' = p" "cpu s' = cpu s"
    "drv (dev s') = ata_complete (drv (dev s))" "isPrimaryInterruptOccur s'" "unat (tickCount s') \<le> unat (tickCount s) + length fs"
proof -
  obtain rs ss where rel: "sched_rel s rs ss" using s(1) by (auto elim: sched_okE)
  have pn: "p \<noteq> NULL" "live (allocProcessTable s) p" using core_running_fresh(3) coreD(4) s(4) sched_relD(2) [OF rel] by metis+
  have s1: "sched_ok s1" "asched_of s1 = a_sleep_until t (idleProcess s) (asched_of s)" "sched_frame s s1" "keeps_parked {} s s1"
    using sleep_parks [OF s(1)] s(2) sl by (metis may_block_def option.inject)+
  note f1 = sched_frame_sel [OF s1(3)] more_dsk [OF sched_frame_sel(12) [OF s1(3)]]
  define u where "u = s1\<lparr>dev := complete (dev s1), ist := cpu s1, isPrimaryInterruptOccur := True\<rparr>"
  obtain e where e: "snd (sendEOI io IRQ_DISK1 u) = u\<lparr>dev := e\<rparr>" "drv e = drv (dev u)" using eoi_abs [OF d(1)] by metis
  define v where "v = u\<lparr>dev := e\<rparr>"
  have A: "asched_of v = a_sleep_until t (idleProcess s) (asched_of s)" by (simp add: v_def u_def s1(2))
  have qv: "quiet s v"
    using quiet_frame [OF s1(1,4,3)] unfolding v_def u_def
    by (intro quiet_trans [OF _ quiet_upd(1)] quiet_trans [OF _ quiet_upd(5)] quiet_trans [OF _ quiet_upd(2)])
      (auto simp: quiet_def sched_ok_def sched_rel_def core_of_def srep_def [abs_def] state_of_def [abs_def])
  then have okv: "sched_ok v" by (simp add: quiet_def)
  have "(p, t) \<in> set (a_sleep (asched_of v))" unfolding A using sleep_ready(2) [of "asched_of s"] s(4) by (simp add: asched_of_def)
  note b = sleeper_blocked [OF okv this]
  have "ctx (pcbs v p) = cpu s" using sleep_saves [OF sl] s(4) pn(1) by (simp add: v_def u_def)
  from wake_isr [OF okv b this] obtain s2 where s2: "wakeupProcessInInterrupt p v = Some s2" "sched_ok s2" "sched_frame v s2"
    "keeps_parked {} v s2" "kept (cpu s) p s2" "asched_of s2 = a_wake_isr (idleProcess v) p (asched_of v)" by metis
  note f2 = sched_frame_sel [OF s2(3)]
  have disp: "dispatchInterrupt io (IRQ_START_OFFSET + IRQ_DISK1) scr (s1\<lparr>dev := complete (dev s1), ist := cpu s1\<rparr>) = Some (scr, s2)"
    using s(3,5) f1 e(1) s2(1)
    by (simp add: dispatchInterrupt_def INTERRUPT_VECTOR_COUNT_def IRQ_START_OFFSET_def IRQ_DISK1_def primaryDiskInterruptHandler_def
        Let_def u_def v_def)
  obtain k where k: "k \<le> length (a_ready (asched_of v))" "turn k p s2" using wake_turn [OF s2(6)] by blast
  have "k < length fs \<or> runningProcess s2 = p"
    using k(1) sleep_ready(1) [of t "idleProcess s" "asched_of s"] fs unfolding A by simp
  from run_until_ok [OF d(1) s2(2,5) k(2) this] obtain s3 where s3: "run_until io p fs s2 = Some s3" "runningProcess s3 = p" "ist s3 = cpu s"
    "quiet s2 s3" "drv (dev s3) = drv (dev s2)" "proc.more s3 = proc.more s2" "unat (tickCount s3) \<le> unat (tickCount s2) + length fs" by blast
  have ok3: "sched_ok s3" using s3(4) by (simp add: quiet_def)
  have "quiet s (s3\<lparr>cpu := ist s3\<rparr>)"
    using quiet_trans [OF qv quiet_trans [OF quiet_frame [OF s2(2,4,3)] quiet_trans [OF s3(4) quiet_upd(3) [OF ok3]]]] .
  moreover have "isPrimaryInterruptOccur s3"
    using more_dsk [OF s3(6)] more_dsk [OF f2(12)] by (simp add: v_def u_def)
  moreover have "drv (dev s3) = ata_complete (drv (dev s))" using s3(5) f2(11) e(2) d(2) f1 by (simp add: v_def u_def)
  moreover have "unat (tickCount s3) \<le> unat (tickCount s) + length fs" using s3(7) f2(6) f1 by (simp add: v_def u_def)
  ultimately show thesis using disp s3(1-3) by (intro that [of "s3\<lparr>cpu := ist s3\<rparr>"]) (simp_all add: kernel_resume_def)
qed

lemma quiet_runs:
  assumes "runs U p x" and "quiet x z" and "runningProcess z = p" "cpu z = cpu x" "unat (tickCount z) < 2 ^ 63"
  shows "runs U p z" "holds_lock x \<Longrightarrow> holds_lock z"
proof -
  obtain wl where "locks_rel U x wl" using assms(1) by (auto simp: runs_def)
  then have "locks_rel U z wl" by (rule locks_rel_keeps) (use assms(2) in \<open>simp_all add: quiet_def\<close>)
  then have "\<exists>wl. locks_rel U z wl" by blast
  moreover have x: "runningProcess x = p" "diskMutex x \<in> U" "may_block x" "length (cpu x) = 24" using assms(1) by (simp_all add: runs_def)
  moreover have "diskMutex z = diskMutex x" "idleProcess z = idleProcess x" "collectorProcess z = collectorProcess x"
    using assms(2) by (simp_all add: quiet_def disk_same_def)
  ultimately show "runs U p z" using assms(3-5) unfolding runs_def may_block_def by simp
  show "holds_lock x \<Longrightarrow> holds_lock z"
    using assms(2,3) x(1) by (simp add: holds_lock_def lock_owner_def getRunningPid_def quiet_def disk_same_def)
qed

text \<open>C35: The disk's interrupt ends the wait. A process that holds the driver's mutex sleeps in \<^verbatim>\<open>waitInterrupt\<close>; the drive completes
  and interrupts, and however the other processes use their registers, after at most as many timer interrupts as processes were ready (and
  one) the process is back: the wait reports success, with the mutex held, interrupts on and the drive ready to transfer.
  So the kernel's handlers keep the contract \<open>wake_disk\<close> on which the driver's theorems rest.\<close>

theorem disk_interrupt_ends_the_wait:
  assumes "ata_drive io drv" and "\<forall>x. drv (complete x) = ata_complete (drv x)"
    and "runs U p s" "holds_lock s" "interrupts_on s" "\<not> isPrimaryInterruptOccur s" "interruptHandlers s ! 46 = Some primaryDiskISR"
    and "length (a_ready (asched_of s)) < length fs" "unat (tickCount s) + length fs < 2 ^ 63"
  shows "\<exists>s'. waitInterrupt io (kernel_resume io complete scr p fs) FS_PRIMARY s = Some (True, s') \<and>
    runs U p s' \<and> holds_lock s' \<and> interrupts_on s' \<and> drv (dev s') = ata_complete (drv (dev s)) \<and> disk_same s s'"
proof -
  let ?Q = "\<lambda>z. runs U p z \<and> holds_lock z \<and> drv (dev z) = ata_complete (drv (dev s)) \<and> disk_same s z"
  show ?thesis
  proof (rule waitInterrupt_once [OF assms(3-6), where Q = ?Q and rs = "kernel_resume io complete scr p fs" and io = io], goal_cases)
    case (1 t x y)
    have "sched_ok x" "may_block x" "runningProcess x = p" using 1(1) by (auto simp: runs_def locks_rel_def)
    from sleeper_resumes [OF assms(1) assms(2) [rule_format] this(1,2) 1(4) this(3) _ _ 1(11), of fs scr] obtain z where
      z: "kernel_resume io complete scr p fs y = Some z" "quiet x z" "runningProcess z = p" "cpu z = cpu x"
      "drv (dev z) = ata_complete (drv (dev x))" "isPrimaryInterruptOccur z" "unat (tickCount z) \<le> unat (tickCount x) + length fs"
      using assms(7,8) unfolding 1(8,9) by metis
    have "unat (tickCount z) < 2 ^ 63" using z(7) assms(9) 1(6) by simp
    note q = quiet_runs [OF 1(1) z(2-4) this]
    have "disk_same s z" using 1(7) z(2) disk_same_trans [of s x] by (simp add: quiet_def)
    then show ?case using z q(1) q(2) [OF 1(2)] 1(5) by (intro exI [of _ z]) simp
  next
    case (2 z)
    then have "length (cpu (z\<lparr>diskWaiter := (diskWaiter z)(True := NULL)\<rparr>)) = 24" by (simp add: runs_def)
    from interrupts_setIf(1) [OF this, of True] 2 show ?case by (intro exI [of _ "snd (setIf True (z\<lparr>diskWaiter := (diskWaiter z)(True := NULL)\<rparr>))"]) simp
  qed
qed

section \<open>Witness\<close>

text \<open>Process 0 has sent a read command and holds the mutex; the collector is ready.\<close>

lemma locks_handlers:
  "locks_rel V (s\<lparr>interruptHandlers := h\<rparr>) wl = locks_rel V s wl"
  by (simp add: locks_rel_def mutex_ok_def parked_def sched_ok_def sched_rel_def core_of_def srep_def [abs_def] state_of_def [abs_def])

definition reading :: "ata dsk" where
  "reading = (snd (setIf True (booted_disk (blank_drive\<lparr>mode := Fetch 5 1\<rparr>) held (replicate 256 0) False)))\<lparr>interruptHandlers := irq_table\<rparr>"

lemma reading_eq:
  "runs {0x700} (pcbAddr 0) reading" "holds_lock reading" "interrupts_on reading" "\<not> isPrimaryInterruptOccur reading"
  "interruptHandlers reading ! 46 = Some primaryDiskISR" "a_ready (asched_of reading) = [pcbAddr 1]" "tickCount reading = 0"
  "dev reading = blank_drive\<lparr>mode := Fetch 5 1\<rparr>"
proof -
  let ?b = "booted_disk (blank_drive\<lparr>mode := Fetch 5 1\<rparr>) held (replicate 256 0) False"
  define x where "x = snd (setIf True ?b)"
  note B = booted_disk_runs [OF disjI1, OF refl, of "blank_drive\<lparr>mode := Fetch 5 1\<rparr>" "replicate 256 0" False]
  have len: "length (cpu ?b) = 24" using B(1) by (simp add: runs_def)
  have e: "reading = x\<lparr>interruptHandlers := irq_table\<rparr>" by (simp add: reading_def x_def)
  have x: "runs {0x700} (pcbAddr 0) x" "holds_lock x" "interrupts_on x"
    using B(1) booted_disk_holds interrupts_setIf(1) [OF len, of True] by (simp_all add: x_def)
  show "runs {0x700} (pcbAddr 0) reading" using x(1) unfolding e runs_def may_block_def locks_handlers by simp
  show "holds_lock reading" "interrupts_on reading"
    using x(2,3) by (simp_all add: e holds_lock_def lock_owner_def getRunningPid_def interrupts_on_def)
  show "\<not> isPrimaryInterruptOccur reading" "tickCount reading = 0" "dev reading = blank_drive\<lparr>mode := Fetch 5 1\<rparr>"
    using booted_eq(8) by (simp_all add: e x_def booted_disk_def)
  show "interruptHandlers reading ! 46 = Some primaryDiskISR" using irq_table_nth [of 46] by (simp add: e)
  have "sched_rel reading rs ss = sched_rel booted rs ss" for rs ss
    using booted_disk_rel [of "blank_drive\<lparr>mode := Fetch 5 1\<rparr>" held "replicate 256 0" False rs ss]
    by (simp add: e x_def sched_rel_def core_of_def srep_def state_of_def [abs_def] setIf_def enableInterrupt_def)
  then have "sched_rel reading [pcbAddr 1] []" using booted_eq(2) by simp
  from asched_of_rel [OF this] show "a_ready (asched_of reading) = [pcbAddr 1]" by simp
qed

lemma disk_interrupt_ends_the_wait_witness:
  "\<exists>s'. waitInterrupt ata_io (kernel_resume ata_io ata_complete blank (pcbAddr 0) [[], []]) FS_PRIMARY reading = Some (True, s') \<and>
    interrupts_on s' \<and> mode (dev s') = DataIn 5 1 (replicate 256 0)"
proof -
  have "words_of (replicate 512 0) = replicate 256 0"
  proof (rule nth_equalityI)
    fix j assume "j < length (words_of (replicate 512 0))"
    then have "j < 256" by simp
    then have "chunk (2 * j) 2 (replicate 512 (0::BYTE)) = [0, 0]" by (simp add: chunk_def numeral_2_eq_2 min_def)
    then show "words_of (replicate 512 0) ! j = replicate 256 0 ! j" using \<open>j < 256\<close> by (simp add: words_of_def)
  qed simp
  then have "mode (ata_complete (dev reading)) = DataIn 5 1 (replicate 256 0)"
    by (simp add: ata_complete_def reading_eq(8) blank_drive_def)
  with disk_interrupt_ends_the_wait [OF ideal.ata_drive_axioms _ reading_eq(1-5), of ata_complete "[[], []]" blank] reading_eq(6-8)
  show ?thesis by auto
qed

end
