(* ===== verification/ListPrint.thy ===== *)
theory ListPrint
  imports Handlers
begin

text \<open>
  \<^verbatim>\<open>printList\<close> of \<^verbatim>\<open>kernel/lib/LinkedList.c\<close>: the console under the linked list. The loop follows
  \<^verbatim>\<open>next\<close> to the end, which a list in a cycle does not have.
\<close>

partial_function (option) print_nodes :: "nheap \<Rightarrow> ptr \<Rightarrow> int \<Rightarrow> console \<Rightarrow> console option" where
  "print_nodes h cur count c =
     (if cur \<noteq> NULL then do {
        c \<leftarrow> printInt count 10 c;
        c \<leftarrow> printString (lit '': '') c;
        c \<leftarrow> printInt (nid (h cur)) 10 c;
        c \<leftarrow> puts (lit []) c;
        print_nodes h (nxt (h cur)) (count + 1) c }
      else Some c)"

definition printList :: "nheap \<Rightarrow> linkedList \<Rightarrow> console \<Rightarrow> console option" where
  "printList h l c = do {
     c \<leftarrow> print_nodes h (l_head l) 1 c;
     puts (lit ''end print'') c }"

text \<open>The lines of a list of ids.\<close>

fun id_lines :: "int list \<Rightarrow> int \<Rightarrow> console \<Rightarrow> console option" where
  "id_lines [] count c = puts (lit ''end print'') c"
| "id_lines (i # is') count c = do {
     c \<leftarrow> printInt count 10 c;
     c \<leftarrow> printString (lit '': '') c;
     c \<leftarrow> printInt i 10 c;
     c \<leftarrow> puts (lit []) c;
     id_lines is' (count + 1) c }"

lemma print_nodes_lines:
  "lseg h p xs NULL \<Longrightarrow>
     print_nodes h p n c \<bind> puts (lit ''end print'') = id_lines (map (\<lambda>x. nid (h x)) xs) n c"
proof (induction xs arbitrary: p n c)
  case Nil
  then show ?case by (simp add: print_nodes.simps)
next
  case (Cons x xs)
  then show ?case by (subst print_nodes.simps) (simp add: bind_assoc)
qed

lemma id_lines_return:
  assumes "\<forall>i \<in> set is'. - (2 ^ 31) \<le> i \<and> i < 2 ^ 31" and "1 \<le> n" "n + int (length is') < 2 ^ 31"
  shows "\<exists>c'. id_lines is' n c = Some c'"
  using assms
proof (induction is' arbitrary: n c)
  case Nil
  show ?case using print_lit(2) by simp
next
  case (Cons i is')
  obtain c1 where "printInt n 10 c = Some c1" using print_decimal [of n c] Cons.prems by auto
  moreover obtain c2 where "printString (lit '': '') c1 = Some c2" using print_lit(1) by blast
  moreover obtain c3 where "printInt i 10 c2 = Some c3" using print_decimal [of i c2] Cons.prems(1) by auto
  moreover obtain c4 where "puts (lit []) c3 = Some c4" using print_lit(2) by blast
  moreover obtain c5 where "id_lines is' (n + 1) c4 = Some c5" using Cons.IH [of "n + 1" c4] Cons.prems by auto
  ultimately show ?case by auto
qed

text \<open>A list of \<open>LinkedList\<close>'s representation is printed as its ids in order, numbered from 1.\<close>

lemma printList_prints:
  assumes "rep h l xs" and "\<forall>x \<in> set xs. - (2 ^ 31) \<le> nid (h x) \<and> nid (h x) < 2 ^ 31" and "length xs < 2 ^ 31 - 1"
  shows "printList h l c = id_lines (map (\<lambda>x. nid (h x)) xs) 1 c" "\<exists>c'. printList h l c = Some c'"
proof -
  show e: "printList h l c = id_lines (map (\<lambda>x. nid (h x)) xs) 1 c"
    using print_nodes_lines [of h "l_head l" xs 1 c] assms(1) by (simp add: printList_def rep_def)
  have "1 + int (length (map (\<lambda>x. nid (h x)) xs)) < 2 ^ 31" using assms(3) by simp
  then show "\<exists>c'. printList h l c = Some c'"
    unfolding e by (intro id_lines_return) (use assms(2) in auto)
qed

end
