(* ===== verification/UserProgram.thy ===== *)
theory UserProgram
  imports Stubs
begin

text \<open>
  The demonstration program for ring 3 (\<^verbatim>\<open>kernel/user/UserProgram.asm\<close>), instruction by instruction, on the kernel's own
  system calls and exception handler.
\<close>

section \<open>The program\<close>

datatype code_label = formatCS | highDigit | lowDigit | tickLoop | attack | hang
datatype data_label = helloMsg | csHigh | csLow | cplChar | tickMsg | exitMsg | attackMsg

text \<open>Registers of one byte are named by the register they are the lowest byte of. Data is addressed relative to the code.\<close>

datatype uinstr = Label code_label
  | Mov greg greg | Imm greg QWORD | Xor greg | Inc greg | Lea greg greg QWORD | LeaData greg data_label | MovCS greg
  | Mov8 greg greg | Shr8 greg nat | And8 greg BYTE | Add8 greg BYTE | Store8 data_label greg | LoadAbs greg nat
  | Test greg | Cmp greg QWORD | Cmp8 greg BYTE | Jz code_label | Jnz code_label | Jb code_label | Jbe code_label | Jmp code_label
  | Interrupt_call nat

definition userProgram :: "uinstr list" where
  "userProgram =
    [Mov R13 RDI, Imm R12 10, Test R13, Jz formatCS, Imm R12 12,
     Label formatCS, MovCS RAX, Mov8 RBX RAX, Shr8 RBX 4, And8 RBX 0x0F, Cmp8 RBX 9, Jbe highDigit, Add8 RBX 7,
     Label highDigit, Add8 RBX 48, Store8 csHigh RBX, Mov8 RBX RAX, And8 RBX 0x0F, Cmp8 RBX 9, Jbe lowDigit, Add8 RBX 7,
     Label lowDigit, Add8 RBX 48, Store8 csLow RBX, And8 RAX 0x03, Add8 RAX 48, Store8 cplChar RAX,
     Imm RAX SYSCALL_WRITEXY, Mov RDI R12, Imm RSI 2, LeaData RDX helloMsg, Interrupt_call 0x81,
     Xor R14,
     Label tickLoop, Imm RAX SYSCALL_SLEEP, Imm RDI 400, Interrupt_call 0x81,
     Imm RAX SYSCALL_WRITEXY, Mov RDI R12, Lea RSI R14 44, LeaData RDX tickMsg, Interrupt_call 0x81,
     Inc R14, Cmp R14 5, Jb tickLoop,
     Test R13, Jnz attack,
     Imm RAX SYSCALL_WRITEXY, Mov RDI R12, Imm RSI 52, LeaData RDX exitMsg, Interrupt_call 0x81,
     Imm RAX SYSCALL_EXIT, Interrupt_call 0x81,
     Label hang, Jmp hang,
     Label attack, Imm RAX SYSCALL_WRITEXY, Mov RDI R12, Imm RSI 52, LeaData RDX attackMsg, Interrupt_call 0x81,
     LoadAbs RAX 0x600000, Jmp hang]"

definition bytes :: "string \<Rightarrow> BYTE list" where "bytes = map of_char"

definition userData :: "(data_label option \<times> BYTE list) list" where
  "userData = [(Some helloMsg, bytes ''Hello from Ring 3! CS=0x''), (Some csHigh, bytes ''?''), (Some csLow, bytes ''?''),
     (None, bytes '' CPL=''), (Some cplChar, bytes ''?'' @ [0]), (Some tickMsg, bytes ''.'' @ [0]),
     (Some exitMsg, bytes ''exit syscall'' @ [0]), (Some attackMsg, bytes ''read kernel->'' @ [0])]"

definition target :: "code_label \<Rightarrow> nat" where
  "target l = length (takeWhile (\<lambda>i. i \<noteq> Label l) userProgram)"

definition data_offset :: "data_label \<Rightarrow> nat" where
  "data_offset l = length (concat (map snd (takeWhile (\<lambda>x. fst x \<noteq> Some l) userData)))"

definition data_bytes :: "BYTE list" where "data_bytes = concat (map snd userData)"

section \<open>Ring 3\<close>

text \<open>Of the status flags the two the program tests; \<open>pos\<close> is the position in the program.\<close>

record user =
  regs :: "greg \<Rightarrow> QWORD"
  csel :: WORD
  zf :: bool
  cf :: bool
  pos :: nat

definition low8 :: "QWORD \<Rightarrow> BYTE \<Rightarrow> QWORD" where
  "low8 r b = (r AND NOT 0xFF) OR ucast b"

abbreviation reg8 :: "user \<Rightarrow> greg \<Rightarrow> BYTE" where "reg8 u r \<equiv> ucast (regs u r)"

definition set_reg :: "greg \<Rightarrow> QWORD \<Rightarrow> user \<Rightarrow> user" where
  "set_reg r w u = u\<lparr>regs := (regs u)(r := w)\<rparr>"

definition jump :: "bool \<Rightarrow> code_label \<Rightarrow> user \<Rightarrow> user" where
  "jump b l u = (if b then u\<lparr>pos := target l\<rparr> else u)"

definition flags_of :: "bool \<Rightarrow> bool \<Rightarrow> user \<Rightarrow> user" where
  "flags_of z k u = u\<lparr>zf := z, cf := k\<rparr>"

text \<open>One instruction, on a user whose position is already the next; \<open>d\<close> is the address of the data. The flags of \<^verbatim>\<open>shr\<close> are those
  of a shift by 1 to 8 places.\<close>

fun ustep :: "nat \<Rightarrow> uinstr \<Rightarrow> user \<Rightarrow> memory \<Rightarrow> user \<times> memory" where
  "ustep d (Mov r q) u m = (set_reg r (regs u q) u, m)"
| "ustep d (Imm r w) u m = (set_reg r w u, m)"
| "ustep d (Xor r) u m = (flags_of True False (set_reg r 0 u), m)"
| "ustep d (Inc r) u m = (flags_of (regs u r + 1 = 0) (cf u) (set_reg r (regs u r + 1) u), m)"
| "ustep d (Lea r q n) u m = (set_reg r (regs u q + n) u, m)"
| "ustep d (LeaData r l) u m = (set_reg r (of_nat (d + data_offset l)) u, m)"
| "ustep d (MovCS r) u m = (set_reg r (low16 (regs u r) (csel u)) u, m)"
| "ustep d (Mov8 r q) u m = (set_reg r (low8 (regs u r) (reg8 u q)) u, m)"
| "ustep d (Shr8 r n) u m = (flags_of (drop_bit n (reg8 u r) = 0) (bit (reg8 u r) (n - 1))
     (set_reg r (low8 (regs u r) (drop_bit n (reg8 u r))) u), m)"
| "ustep d (And8 r b) u m = (flags_of (reg8 u r AND b = 0) False (set_reg r (low8 (regs u r) (reg8 u r AND b)) u), m)"
| "ustep d (Add8 r b) u m = (flags_of (reg8 u r + b = 0) (unat (reg8 u r) + unat b \<ge> 256)
     (set_reg r (low8 (regs u r) (reg8 u r + b)) u), m)"
| "ustep d (Store8 l r) u m = (u, m(d + data_offset l := reg8 u r))"
| "ustep d (LoadAbs r a) u m = (set_reg r (load64 m a) u, m)"
| "ustep d (Test r) u m = (flags_of (regs u r = 0) False u, m)"
| "ustep d (Cmp r w) u m = (flags_of (regs u r = w) (regs u r < w) u, m)"
| "ustep d (Cmp8 r b) u m = (flags_of (reg8 u r = b) (reg8 u r < b) u, m)"
| "ustep d (Jz l) u m = (jump (zf u) l u, m)"
| "ustep d (Jnz l) u m = (jump (\<not> zf u) l u, m)"
| "ustep d (Jb l) u m = (jump (cf u) l u, m)"
| "ustep d (Jbe l) u m = (jump (cf u \<or> zf u) l u, m)"
| "ustep d (Jmp l) u m = (jump True l u, m)"
| "ustep d (Label l) u m = (u, m)"
| "ustep d (Interrupt_call v) u m = (u, m)"

text \<open>An interrupt call or an access to a page that is not user mode's ends a run of instructions.\<close>

fun touches :: "nat \<Rightarrow> uinstr \<Rightarrow> nat option" where
  "touches d (Store8 l r) = Some (d + data_offset l)"
| "touches d (LoadAbs r a) = Some a"
| "touches d _ = None"

definition traps :: "(nat \<Rightarrow> bool) \<Rightarrow> nat \<Rightarrow> uinstr \<Rightarrow> bool" where
  "traps ok d i \<longleftrightarrow> (case i of Interrupt_call v \<Rightarrow> True | _ \<Rightarrow> (case touches d i of None \<Rightarrow> False | Some a \<Rightarrow> \<not> ok (a div 0x1000)))"

partial_function (option) until_trap :: "(nat \<Rightarrow> bool) \<Rightarrow> nat \<Rightarrow> user \<Rightarrow> memory \<Rightarrow> (user \<times> memory) option" where
  "until_trap ok d u m =
     (let i = userProgram ! pos u
      in if traps ok d i then Some (u, m)
         else let (u', m') = ustep d i (u\<lparr>pos := pos u + 1\<rparr>) m in until_trap ok d u' m')"

text \<open>What a system call did, in the program's terms; the text is the one in memory.\<close>

datatype act = Wrote QWORD QWORD "BYTE list" | Slept QWORD | Exits | Failed

definition act_of :: "user \<Rightarrow> memory \<Rightarrow> syscall_end \<Rightarrow> act" where
  "act_of u m r = (case r of
     Returned v \<Rightarrow> if regs u RAX = SYSCALL_WRITEXY \<and> v = 0
       then Wrote (regs u RDI) (regs u RSI) (takeWhile (\<lambda>b. b \<noteq> 0) (map m [unat (regs u RDX)..<USER_MEMORY_END])) else Failed
   | Asleep b \<Rightarrow> Slept (regs u RDI) | Ended \<Rightarrow> Exits)"

datatype ending = Exited | Faulted exception_end

text \<open>The program on the kernel. While it sleeps the other processes turn the console and the kernel's state into those of \<open>world\<close>;
  then its call returns 0. A run ends with the exit call or with an access the page tables forbid; \<open>addr\<close> gives the address of an
  instruction. Of the page fault's error code the handler makes no use.\<close>

definition user_page :: "('d, 'z) proc_scheme \<Rightarrow> nat \<Rightarrow> bool" where
  "user_page s i \<longleftrightarrow> pte s i AND PAGE_FLAG_US \<noteq> 0"

partial_function (option) runs_on ::
  "(nat \<Rightarrow> QWORD) \<Rightarrow> (console \<Rightarrow> ('d, 'z) proc_scheme \<Rightarrow> console \<times> ('d, 'z) proc_scheme) \<Rightarrow> nat \<Rightarrow> user \<Rightarrow> console \<Rightarrow>
     ('d, 'z) proc_scheme \<Rightarrow> act list \<Rightarrow> (ending \<times> act list \<times> console \<times> ('d, 'z) proc_scheme) option" where
  "runs_on addr world d u c s acts = do {
     (u, m) \<leftarrow> until_trap (user_page s) d u (ram s);
     let s = s\<lparr>ram := m\<rparr>;
     case touches d (userProgram ! pos u) of
       Some a \<Rightarrow> do {
         (e, c, s) \<leftarrow> exceptionHandler (of_nat a) 14 5 (addr (pos u)) (ucast (csel u)) c s;
         Some (Faulted e, acts, c, s) }
     | None \<Rightarrow> do {
         (r, c', s') \<leftarrow> dispatchSyscall (regs u RAX) (regs u RDI) (regs u RSI) (regs u RDX) c s;
         let acts = acts @ [act_of u m r];
         let next_u = (\<lambda>v. set_reg RAX v (u\<lparr>pos := pos u + 1\<rparr>));
         case r of
           Returned v \<Rightarrow> runs_on addr world d (next_u v) c' s' acts
         | Asleep b \<Rightarrow> let (c', s') = world c' s' in runs_on addr world d (next_u 0) c' s' acts
         | Ended \<Rightarrow> Some (Exited, acts, c', s') } }"

section \<open>Between the traps\<close>

lemma targets:
  "target formatCS = 5" "target highDigit = 13" "target lowDigit = 21" "target tickLoop = 33" "target hang = 54" "target attack = 56"
  by (simp_all add: target_def userProgram_def)

lemma data_offsets:
  "data_offset helloMsg = 0" "data_offset csHigh = 24" "data_offset csLow = 25" "data_offset cplChar = 31" "data_offset tickMsg = 33"
  "data_offset exitMsg = 35" "data_offset attackMsg = 48"
  by (simp_all add: data_offset_def userData_def bytes_def)

lemma low8_simps [simp]: "ucast (low8 r b) = b" "low8 (low8 r a) b = low8 r b" 
proof -
  have "(0xFF :: QWORD) = mask 8" by (simp add: mask_eq_exp_minus_1)
  then have e: "low8 r b = (r AND NOT (mask 8)) OR ucast b" for r b by (simp only: low8_def)
  show "ucast (low8 r b) = b" unfolding e by (intro bit_word_eqI) (auto simp: bit_simps)
  show "low8 (low8 r a) b = low8 r b" unfolding e by (intro bit_word_eqI) (auto simp: bit_simps dest: bit_imp_le_length)
qed

lemma byte_low16 [simp]: "(ucast (low16 r w) :: BYTE) = ucast w"
proof -
  have "(0xFFFF :: QWORD) = mask 16" by (simp add: mask_eq_exp_minus_1)
  then have "low16 r w = (r AND NOT (mask 16)) OR ucast w" by (simp only: low16_def)
  then show ?thesis by (intro bit_word_eqI) (auto simp: bit_simps)
qed

lemma trap_here: "traps ok d (userProgram ! pos u) \<Longrightarrow> until_trap ok d u m = Some (u, m)"
  by (subst until_trap.simps) simp

lemma no_trap_here:
  "\<not> traps ok d (userProgram ! pos u) \<Longrightarrow>
    until_trap ok d u m = (let (u', m') = ustep d (userProgram ! pos u) (u\<lparr>pos := pos u + 1\<rparr>) m in until_trap ok d u' m')"
  by (subst until_trap.simps) simp

lemmas executing = trap_here no_trap_here traps_def userProgram_def set_reg_def jump_def flags_of_def targets data_offsets

definition line_of :: "QWORD \<Rightarrow> QWORD" where "line_of arg = (if arg = 0 then 10 else 12)"

lemma first_segment:
  assumes "pos u = 0" "csel u = 0x23" and "\<forall>i < 62. ok ((d + i) div 0x1000)"
  shows "\<exists>u'. until_trap ok d u m = Some (u', m(d + 24 := 0x32, d + 25 := 0x33, d + 31 := 0x33)) \<and> pos u' = 31 \<and> csel u' = 0x23 \<and>
    regs u' R13 = regs u RDI \<and> regs u' R12 = line_of (regs u RDI) \<and> regs u' RAX = SYSCALL_WRITEXY \<and>
    regs u' RDI = line_of (regs u RDI) \<and> regs u' RSI = 2 \<and> regs u' RDX = of_nat d"
proof -
  obtain f z k where u: "u = \<lparr>regs = f, csel = 0x23, zf = z, cf = k, pos = 0\<rparr>" using assms(1,2) by (cases u) simp
  have ok: "ok ((d + 24) div 0x1000)" "ok ((d + 25) div 0x1000)" "ok ((d + 31) div 0x1000)" using assms(3) by auto
  show ?thesis
  proof (cases "f RDI = 0")
    case True
    then show ?thesis unfolding u by (simp add: executing ok line_of_def)
  next
    case False
    then show ?thesis unfolding u by (simp add: executing ok line_of_def)
  qed
qed

lemma to_the_sleep:
  assumes "pos u = 32 \<or> pos u = 42 \<and> regs u R14 \<in> {0, 1, 2, 3}"
  shows "\<exists>u'. until_trap ok d u m = Some (u', m) \<and> pos u' = 36 \<and> csel u' = csel u \<and> regs u' R13 = regs u R13 \<and>
    regs u' R12 = regs u R12 \<and> regs u' R14 = (if pos u = 32 then 0 else regs u R14 + 1) \<and> regs u' RAX = SYSCALL_SLEEP \<and> regs u' RDI = 400"
proof -
  obtain f c z k p where u: "u = \<lparr>regs = f, csel = c, zf = z, cf = k, pos = p\<rparr>" by (cases u)
  consider "p = 32" | "p = 42" "f R14 = 0" | "p = 42" "f R14 = 1" | "p = 42" "f R14 = 2" | "p = 42" "f R14 = 3" using assms u by auto
  then show ?thesis unfolding u by cases (simp_all add: executing)
qed

lemma to_the_dot:
  assumes "pos u = 37"
  shows "\<exists>u'. until_trap ok d u m = Some (u', m) \<and> pos u' = 41 \<and> csel u' = csel u \<and> regs u' R13 = regs u R13 \<and>
    regs u' R12 = regs u R12 \<and> regs u' R14 = regs u R14 \<and> regs u' RAX = SYSCALL_WRITEXY \<and> regs u' RDI = regs u R12 \<and>
    regs u' RSI = regs u R14 + 44 \<and> regs u' RDX = of_nat (d + 33)"
  using assms by (cases u) (simp add: executing)

lemma to_the_end:
  assumes "pos u = 42" "regs u R14 = 4"
  shows "\<exists>u'. until_trap ok d u m = Some (u', m) \<and> pos u' = (if regs u R13 = 0 then 51 else 61) \<and> csel u' = csel u \<and>
    regs u' R13 = regs u R13 \<and> regs u' RAX = SYSCALL_WRITEXY \<and> regs u' RDI = regs u R12 \<and>
    regs u' RSI = 52 \<and> regs u' RDX = of_nat (d + (if regs u R13 = 0 then 35 else 48))"
proof -
  obtain f c z k where u: "u = \<lparr>regs = f, csel = c, zf = z, cf = k, pos = 42\<rparr>" using assms(1) by (cases u) simp
  have "f R14 = 4" using assms(2) by (simp add: u)
  then show ?thesis unfolding u by (cases "f R13 = 0") (simp_all add: executing)
qed

lemma to_the_exit:
  assumes "pos u = 52"
  shows "\<exists>u'. until_trap ok d u m = Some (u', m) \<and> pos u' = 53 \<and> regs u' RAX = SYSCALL_EXIT"
  using assms by (cases u) (simp add: executing)

lemma at_the_load:
  assumes "pos u = 62" "\<not> ok 0x600"
  shows "until_trap ok d u m = Some (u, m)"
  using assms by (cases u) (simp add: executing)

section \<open>The calls\<close>

text \<open>The data once the selector's digits are in it.\<close>

definition shown :: "BYTE list" where "shown = data_bytes[24 := 0x32, 25 := 0x33, 31 := 0x33]"

definition holds_data :: "BYTE list \<Rightarrow> nat \<Rightarrow> memory \<Rightarrow> bool" where
  "holds_data bs d m \<longleftrightarrow> (\<forall>i < 62. m (d + i) = bs ! i)"

definition code_area :: "nat set" where "code_area = {USER_CODE_ADDRESS..<USER_CODE_ADDRESS + USER_CODE_SIZE}"

definition demo_state :: "nat \<Rightarrow> ('d, 'z) proc_scheme \<Rightarrow> bool" where
  "demo_state pid s \<longleftrightarrow> user_runs pid s \<and> (\<forall>a \<in> code_area. user_page s (a div 0x1000)) \<and> \<not> user_page s 0x600"

text \<open>The other processes let the program run again, leave the code area alone and keep the kernel's memory closed.\<close>

definition lets_run :: "nat \<Rightarrow> (console \<Rightarrow> ('d, 'z) proc_scheme \<Rightarrow> console \<times> ('d, 'z) proc_scheme) \<Rightarrow> bool" where
  "lets_run pid world \<longleftrightarrow> (\<forall>c s. sched_ok s \<longrightarrow> pcbAddr pid \<in> fst ` set (a_sleep (asched_of s)) \<longrightarrow>
     (\<forall>a \<in> code_area. user_page s (a div 0x1000)) \<longrightarrow> \<not> user_page s 0x600 \<longrightarrow>
     demo_state pid (snd (world c s)) \<and> (\<forall>a \<in> code_area. ram (snd (world c s)) a = ram s a))"

lemma text_in_memory:
  assumes "user_string m a t"
  shows "takeWhile (\<lambda>b. b \<noteq> 0) (map m [a..<USER_MEMORY_END]) = t"
proof -
  have e: "a + length t < USER_MEMORY_END" "m (a + length t) = 0" "\<forall>i < length t. m (a + i) = t ! i \<and> t ! i \<noteq> 0"
    using assms by (simp_all add: user_string_def)
  have "[a..<USER_MEMORY_END] = [a..<a + length t] @ (a + length t) # [a + length t + 1..<USER_MEMORY_END]"
    using e(1) upt_add_eq_append [of a "a + length t" "USER_MEMORY_END - (a + length t)"] by (simp add: upt_conv_Cons)
  moreover have "map m [a..<a + length t] = t" using e(3) by (intro nth_equalityI) simp_all
  moreover have "\<forall>b \<in> set t. b \<noteq> 0" using e(3) by (metis in_set_conv_nth)
  ultimately show ?thesis using e(2) by (simp add: takeWhile_append2)
qed

lemma messages:
  assumes "holds_data shown d m" and "USER_CODE_ADDRESS \<le> d" "d + 62 \<le> USER_CODE_ADDRESS + USER_CODE_SIZE"
  shows "user_string m d (bytes ''Hello from Ring 3! CS=0x23 CPL=3'')" "user_string m (d + 33) (bytes ''.'')"
    "user_string m (d + 35) (bytes ''exit syscall'')" "user_string m (d + 48) (bytes ''read kernel->'')"
proof -
  have s: "shown = bytes ''Hello from Ring 3! CS=0x23 CPL=3'' @ 0 # bytes ''.'' @ 0 # bytes ''exit syscall'' @ 0 #
      bytes ''read kernel->'' @ [0]"
    by (simp add: shown_def data_bytes_def userData_def bytes_def)
  have u: "user_string m (d + n) t" if split: "shown = xs @ t @ 0 # ys" "\<forall>b \<in> set t. b \<noteq> 0" and n: "length xs = n" for xs t ys n
  proof -
    have "length shown = 62" by (simp add: s bytes_def)
    then have l: "length xs + length t < 62" unfolding split(1) by simp
    have m: "m (d + length xs + i) = shown ! (length xs + i)" if "length xs + i < 62" for i
      using assms(1) that unfolding holds_data_def by (metis add.assoc)
    have "m (d + length xs + i) = t ! i" if "i < length t" for i
      using m [of i] l that by (simp add: split(1) nth_append)
    moreover have "m (d + length xs + length t) = 0" using m [of "length t"] l by (simp add: split(1) nth_append)
    moreover have "t ! i \<noteq> 0" if "i < length t" for i using split(2) that by simp
    ultimately show ?thesis using l assms(2,3) by (simp add: user_string_def memory_map_defs n [symmetric])
  qed
  show "user_string m d (bytes ''Hello from Ring 3! CS=0x23 CPL=3'')"
    using u [of "[]" "bytes ''Hello from Ring 3! CS=0x23 CPL=3''" _ 0] by (simp add: s bytes_def)
  show "user_string m (d + 33) (bytes ''.'')"
    using u [of "bytes ''Hello from Ring 3! CS=0x23 CPL=3'' @ [0]" "bytes ''.''" _ 33] by (simp add: s bytes_def)
  show "user_string m (d + 35) (bytes ''exit syscall'')"
    using u [of "bytes ''Hello from Ring 3! CS=0x23 CPL=3'' @ 0 # bytes ''.'' @ [0]" "bytes ''exit syscall''" _ 35] by (simp add: s bytes_def)
  show "user_string m (d + 48) (bytes ''read kernel->'')"
    using u [of "bytes ''Hello from Ring 3! CS=0x23 CPL=3'' @ 0 # bytes ''.'' @ 0 # bytes ''exit syscall'' @ [0]" "bytes ''read kernel->''" _ 48]
    by (simp add: s bytes_def)
qed

section \<open>A run\<close>

lemma demo_ram: "demo_state pid (s\<lparr>ram := m\<rparr>) = demo_state pid s"
  by (auto simp: demo_state_def user_runs_def user_page_def elim!: sched_okE intro!: sched_okI)

lemma write_call:
  assumes "until_trap (user_page s) d u (ram s) = Some (u', m)" and "touches d (userProgram ! pos u') = None"
    and "regs u' RAX = SYSCALL_WRITEXY" "unat (regs u' RDI) < 25" "unat (regs u' RSI) < 80" "user_string m (unat (regs u' RDX)) t"
  shows "\<exists>c'. runs_on addr world d u c s acts = runs_on addr world d (set_reg RAX 0 (u'\<lparr>pos := pos u' + 1\<rparr>)) c' (s\<lparr>ram := m\<rparr>)
    (acts @ [Wrote (regs u' RDI) (regs u' RSI) t])"
proof -
  obtain c' where "writeXY (regs u' RDI) (regs u' RSI) (regs u' RDX) m c = (0, c')" using writeXY_ok [OF assms(6,4,5), of c] by blast
  then have "dispatchSyscall SYSCALL_WRITEXY (regs u' RDI) (regs u' RSI) (regs u' RDX) c (s\<lparr>ram := m\<rparr>) = Some (Returned 0, c', s\<lparr>ram := m\<rparr>)"
    by (simp add: dispatchSyscall_def)
  then show ?thesis using assms(1-3) text_in_memory [OF assms(6)]
    by (subst runs_on.simps) (auto simp: act_of_def Let_def)
qed

lemma sleep_call:
  assumes "until_trap (user_page s) d u (ram s) = Some (u', ram s)" and "touches d (userProgram ! pos u') = None"
    and "regs u' RAX = SYSCALL_SLEEP" and "demo_state pid s" and w: "lets_run pid world"
  shows "\<exists>c' s'. runs_on addr world d u c s acts = runs_on addr world d (set_reg RAX 0 (u'\<lparr>pos := pos u' + 1\<rparr>)) c' s'
      (acts @ [Slept (regs u' RDI)]) \<and> demo_state pid s' \<and> (\<forall>a \<in> code_area. ram s' a = ram s a)"
proof -
  have run: "sched_ok s" "runningProcess s = pcbAddr pid" "runningProcess s \<noteq> idleProcess s" "runningProcess s \<noteq> collectorProcess s"
    using assms(4) by (auto simp: demo_state_def user_runs_def)
  obtain s1 where s1: "sleepProcess (regs u' RDI) s = Some (interrupts_on s, s1)" "sched_ok s1"
    "asched_of s1 = a_sleep_until (tickCount s + (regs u' RDI + SLOT_TIME - 1) div SLOT_TIME) (idleProcess s) (asched_of s)"
    using sleepProcess_refines [OF run(1,3,4), of "regs u' RDI"] by metis
  have asleep: "pcbAddr pid \<in> fst ` set (a_sleep (asched_of s1))"
    unfolding s1(3) by (simp add: a_sleep_until_def a_dispatch_def Let_def asched_of_def run(2) split: list.split)
  have same: "user_page s1 = user_page s" "ram s1 = ram s" using sleepProcess_table [OF s1(1)] by (auto simp: same_table_def user_page_def)
  have "demo_state pid (snd (world c s1)) \<and> (\<forall>a \<in> code_area. ram (snd (world c s1)) a = ram s1 a)"
    using w s1(2) asleep assms(4) unfolding lets_run_def same(1) [symmetric] demo_state_def by blast
  moreover have "s\<lparr>ram := ram s\<rparr> = s" by simp
  ultimately show ?thesis using assms(1-3) s1(1) same(2)
    by (subst runs_on.simps) (auto simp: act_of_def dispatchSyscall_def SYSCALL_SLEEP_def SYSCALL_WRITEXY_def Let_def case_prod_beta)
qed

text \<open>The program after \<open>k\<close> ticks.\<close>

definition ticking :: "nat \<Rightarrow> QWORD \<Rightarrow> user \<Rightarrow> bool" where
  "ticking k arg u \<longleftrightarrow> (if k = 0 then pos u = 32 else pos u = 42 \<and> regs u R14 = of_nat (k - 1)) \<and> csel u = 0x23 \<and>
     regs u R13 = arg \<and> regs u R12 = line_of arg"

definition tick_acts :: "QWORD \<Rightarrow> nat \<Rightarrow> act list" where
  "tick_acts arg k = concat (map (\<lambda>i. [Slept 400, Wrote (line_of arg) (44 + of_nat i) (bytes ''.'')]) [0..<k])"

lemma area_data:
  assumes "\<forall>a \<in> code_area. ram s' a = ram s a" and "USER_CODE_ADDRESS \<le> d" "d + 62 \<le> USER_CODE_ADDRESS + USER_CODE_SIZE"
  shows "holds_data bs d (ram s') = holds_data bs d (ram s)"
  using assms by (simp add: holds_data_def code_area_def)

lemma traps_at:
  "touches d (userProgram ! 31) = None" "touches d (userProgram ! 36) = None" "touches d (userProgram ! 41) = None"
  "touches d (userProgram ! 51) = None" "touches d (userProgram ! 53) = None" "touches d (userProgram ! 61) = None"
  "touches d (userProgram ! 62) = Some 0x600000"
  by (simp_all add: userProgram_def)

lemma unat_data: "d + 62 \<le> USER_CODE_ADDRESS + USER_CODE_SIZE \<Longrightarrow> k < 62 \<Longrightarrow> unat (of_nat (d + k) :: QWORD) = d + k"
  by (simp add: unat_of_nat memory_map_defs del: of_nat_add)

lemma line_small: "unat (line_of arg) < 25" by (simp add: line_of_def)

lemma tick:
  assumes u: "ticking k arg u" "k < 5" and s: "demo_state pid s" "holds_data shown d (ram s)" and w: "lets_run pid world"
    and d: "USER_CODE_ADDRESS \<le> d" "d + 62 \<le> USER_CODE_ADDRESS + USER_CODE_SIZE"
  shows "\<exists>u' c' s'. runs_on addr world d u c s acts = runs_on addr world d u' c' s'
      (acts @ [Slept 400, Wrote (line_of arg) (44 + of_nat k) (bytes ''.'')]) \<and>
    ticking (Suc k) arg u' \<and> demo_state pid s' \<and> holds_data shown d (ram s')"
proof -
  have k: "k = 0 \<or> k = 1 \<or> k = 2 \<or> k = 3 \<or> k = 4" using u(2) by auto
  then have "pos u = 32 \<or> pos u = 42 \<and> regs u R14 \<in> {0, 1, 2, 3}" using u(1) by (auto simp: ticking_def)
  from to_the_sleep [OF this, of "user_page s" d "ram s"] obtain u1 where u1: "until_trap (user_page s) d u (ram s) = Some (u1, ram s)"
    "pos u1 = 36" "csel u1 = csel u" "regs u1 R13 = regs u R13" "regs u1 R12 = regs u R12"
    "regs u1 R14 = (if pos u = 32 then 0 else regs u R14 + 1)" "regs u1 RAX = SYSCALL_SLEEP" "regs u1 RDI = 400" by blast
  have r14: "regs u1 R14 = of_nat k" using u1(6) u(1) k by (auto simp: ticking_def)
  let ?u1 = "set_reg RAX 0 (u1\<lparr>pos := pos u1 + 1\<rparr>)"
  obtain c1 s1 where s1: "runs_on addr world d u c s acts = runs_on addr world d ?u1 c1 s1 (acts @ [Slept 400])" "demo_state pid s1"
    "\<forall>a \<in> code_area. ram s1 a = ram s a"
    using sleep_call [OF u1(1) _ u1(7) s(1) w, of addr c acts] u1(2,8) traps_at(2) by auto
  have data: "holds_data shown d (ram s1)" using area_data [OF s1(3) d] s(2) by simp
  have "pos ?u1 = 37" using u1(2) by (simp add: set_reg_def)
  from to_the_dot [OF this, of "user_page s1" d "ram s1"] obtain u2 where u2: "until_trap (user_page s1) d ?u1 (ram s1) = Some (u2, ram s1)"
    "pos u2 = 41" "csel u2 = csel u" "regs u2 R13 = regs u R13" "regs u2 R12 = regs u R12" "regs u2 R14 = of_nat k"
    "regs u2 RAX = SYSCALL_WRITEXY" "regs u2 RDI = regs u R12" "regs u2 RSI = of_nat k + 44" "regs u2 RDX = of_nat (d + 33)"
    using u1(3-5) r14 by (auto simp: set_reg_def)
  have "unat (regs u2 RDI) < 25" using u2(8) u(1) line_small by (simp add: ticking_def)
  moreover have "unat (regs u2 RSI) < 80" using k unfolding u2(9) by auto
  moreover have "user_string (ram s1) (unat (regs u2 RDX)) (bytes ''.'')" using messages(2) [OF data d] unat_data [OF d(2), of 33] u2(10) by simp
  ultimately obtain c2 where c2: "runs_on addr world d ?u1 c1 s1 (acts @ [Slept 400]) =
      runs_on addr world d (set_reg RAX 0 (u2\<lparr>pos := pos u2 + 1\<rparr>)) c2 s1 (acts @ [Slept 400] @ [Wrote (regs u2 RDI) (regs u2 RSI) (bytes ''.'')])"
    using write_call [OF u2(1) _ u2(7), of "bytes ''.''" addr world c1 "acts @ [Slept 400]"] u2(2) traps_at(3) by auto
  have "ticking (Suc k) arg (set_reg RAX 0 (u2\<lparr>pos := pos u2 + 1\<rparr>))" using u2(2-6) u(1) by (simp add: ticking_def set_reg_def)
  moreover have "regs u2 RDI = line_of arg" using u2(8) u(1) by (simp add: ticking_def)
  ultimately show ?thesis using s1(1,2) c2 data u2(9)
    by (intro exI [of _ "set_reg RAX 0 (u2\<lparr>pos := pos u2 + 1\<rparr>)"] exI [of _ c2] exI [of _ s1]) (simp add: add.commute)
qed

lemma ticks:
  assumes "ticking 0 arg u" and "demo_state pid s" "holds_data shown d (ram s)" and w: "lets_run pid world"
    and d: "USER_CODE_ADDRESS \<le> d" "d + 62 \<le> USER_CODE_ADDRESS + USER_CODE_SIZE"
  shows "k \<le> 5 \<Longrightarrow> \<exists>u' c' s'. runs_on addr world d u c s acts = runs_on addr world d u' c' s' (acts @ tick_acts arg k) \<and>
    ticking k arg u' \<and> demo_state pid s' \<and> holds_data shown d (ram s')"
proof (induction k)
  case 0
  then show ?case using assms(1-3) by (intro exI [of _ u] exI [of _ c] exI [of _ s]) (simp add: tick_acts_def)
next
  case (Suc k)
  then obtain u1 c1 s1 where IH: "runs_on addr world d u c s acts = runs_on addr world d u1 c1 s1 (acts @ tick_acts arg k)"
    "ticking k arg u1" "demo_state pid s1" "holds_data shown d (ram s1)" by auto
  have "k < 5" using Suc.prems by simp
  from tick [OF IH(2) this IH(3,4) w d, of addr c1 "acts @ tick_acts arg k"] show ?case
    unfolding IH(1) by (elim exE conjE) (intro exI conjI, assumption?, auto simp: tick_acts_def)
qed

lemma into_the_ticks:
  assumes "pos u = 0" "csel u = 0x23" and s: "demo_state pid s" "holds_data data_bytes d (ram s)"
    and d: "USER_CODE_ADDRESS \<le> d" "d + 62 \<le> USER_CODE_ADDRESS + USER_CODE_SIZE"
  shows "\<exists>u' c' s'. runs_on addr world d u c s [] =
      runs_on addr world d u' c' s' [Wrote (line_of (regs u RDI)) 2 (bytes ''Hello from Ring 3! CS=0x23 CPL=3'')] \<and>
    ticking 0 (regs u RDI) u' \<and> demo_state pid s' \<and> holds_data shown d (ram s')"
proof -
  let ?m = "(ram s)(d + 24 := 0x32, d + 25 := 0x33, d + 31 := 0x33)"
  have "user_page s ((d + i) div 0x1000)" if "i < 62" for i
  proof -
    have "d + i \<in> code_area" using that d by (simp add: code_area_def)
    then show ?thesis using s(1) unfolding demo_state_def by blast
  qed
  then have "\<forall>i < 62. user_page s ((d + i) div 0x1000)" by blast
  from first_segment [OF assms(1,2) this, of "ram s"] obtain u1 where u1: "until_trap (user_page s) d u (ram s) = Some (u1, ?m)"
    "pos u1 = 31" "csel u1 = 0x23" "regs u1 R13 = regs u RDI" "regs u1 R12 = line_of (regs u RDI)" "regs u1 RAX = SYSCALL_WRITEXY"
    "regs u1 RDI = line_of (regs u RDI)" "regs u1 RSI = 2" "regs u1 RDX = of_nat d" by blast
  have "length data_bytes = 62" by (simp add: data_bytes_def userData_def bytes_def)
  then have data: "holds_data shown d ?m" using s(2) by (simp add: holds_data_def shown_def nth_list_update)
  have "user_string ?m (unat (regs u1 RDX)) (bytes ''Hello from Ring 3! CS=0x23 CPL=3'')"
    using messages(1) [OF data d] unat_data [OF d(2), of 0] u1(9) by simp
  moreover have "unat (regs u1 RDI) < 25" "unat (regs u1 RSI) < 80" using line_small by (simp_all add: u1(7,8))
  ultimately obtain c' where "runs_on addr world d u c s [] = runs_on addr world d (set_reg RAX 0 (u1\<lparr>pos := pos u1 + 1\<rparr>)) c'
      (s\<lparr>ram := ?m\<rparr>) [Wrote (line_of (regs u RDI)) 2 (bytes ''Hello from Ring 3! CS=0x23 CPL=3'')]"
    using write_call [OF u1(1) _ u1(6), of _ addr world c "[]"] u1(2,7,8) traps_at(1) by force
  moreover have "ticking 0 (regs u RDI) (set_reg RAX 0 (u1\<lparr>pos := pos u1 + 1\<rparr>))"
    using u1(2-5) by (simp add: ticking_def set_reg_def)
  ultimately show ?thesis using data s(1)
    by (intro exI [of _ "set_reg RAX 0 (u1\<lparr>pos := pos u1 + 1\<rparr>)"] exI [of _ c'] exI [of _ "s\<lparr>ram := ?m\<rparr>"]) (simp add: demo_ram)
qed

lemma out_of_the_ticks:
  assumes u: "ticking 5 arg u" and s: "demo_state pid s" "holds_data shown d (ram s)"
    and d: "USER_CODE_ADDRESS \<le> d" "d + 62 \<le> USER_CODE_ADDRESS + USER_CODE_SIZE"
  shows "\<exists>c' s'. runs_on addr world d u c s acts = Some (if arg = 0
      then (Exited, acts @ [Wrote (line_of arg) 52 (bytes ''exit syscall''), Exits], c', s')
      else (Faulted Killed, acts @ [Wrote (line_of arg) 52 (bytes ''read kernel->'')], c', s')) \<and> gone pid s'"
proof -
  have u': "pos u = 42" "regs u R14 = 4" "regs u R13 = arg" "regs u R12 = line_of arg" "csel u = 0x23"
    using u by (simp_all add: ticking_def)
  from to_the_end [OF u'(1,2), of "user_page s" d "ram s"] obtain u1 where u1: "until_trap (user_page s) d u (ram s) = Some (u1, ram s)"
    "pos u1 = (if arg = 0 then 51 else 61)" "csel u1 = 0x23" "regs u1 RAX = SYSCALL_WRITEXY" "regs u1 RDI = line_of arg"
    "regs u1 RSI = 52" "regs u1 RDX = of_nat (d + (if arg = 0 then 35 else 48))" unfolding u'(3-5) by blast
  let ?t = "if arg = 0 then bytes ''exit syscall'' else bytes ''read kernel->''"
  let ?u = "set_reg RAX 0 (u1\<lparr>pos := pos u1 + 1\<rparr>)"
  have "user_string (ram s) (unat (regs u1 RDX)) ?t"
    using messages(3,4) [OF s(2) d] unat_data [OF d(2), of 35] unat_data [OF d(2), of 48] u1(7) by simp
  moreover have "unat (regs u1 RDI) < 25" "unat (regs u1 RSI) < 80" using line_small by (simp_all add: u1(5,6))
  moreover have "touches d (userProgram ! pos u1) = None" using u1(2) traps_at(4,6) by simp
  ultimately obtain c1 where c1: "runs_on addr world d u c s acts = runs_on addr world d ?u c1 s (acts @ [Wrote (line_of arg) 52 ?t])"
    using write_call [OF u1(1) _ u1(4), of ?t addr world c acts] u1(5,6) by auto
  have user: "user_runs pid s" "\<not> user_page s 0x600" using s(1) by (simp_all add: demo_state_def)
  show ?thesis
  proof (cases "arg = 0")
    case True
    have "pos ?u = 52" using u1(2) True by (simp add: set_reg_def)
    from to_the_exit [OF this, of "user_page s" d "ram s"] obtain u2 where u2: "until_trap (user_page s) d ?u (ram s) = Some (u2, ram s)"
      "pos u2 = 53" "regs u2 RAX = SYSCALL_EXIT" by blast
    obtain s2 where s2: "exitProcess s = Some s2" "gone pid s2" using exit_is_gone [OF user(1)] by metis
    have "s\<lparr>ram := ram s\<rparr> = s" by simp
    then have "runs_on addr world d ?u c1 s acts' = Some (Exited, acts' @ [Exits], c1, s2)" for acts'
      using u2 s2(1) traps_at(5) by (subst runs_on.simps) (simp add: act_of_def dispatchSyscall_def syscall_numbers Let_def)
    then show ?thesis using c1 True s2(2) by auto
  next
    case False
    have p: "pos ?u = 62" "csel ?u = 0x23" using u1(2,3) False by (simp_all add: set_reg_def)
    have "(ucast (0x23 :: WORD) :: QWORD) AND RPL_USER = RPL_USER" by (simp add: RPL_USER_def)
    from exception_kills_user [OF user(1) _ _ this, of 14] obtain c2 s2 where
      k: "exceptionHandler 0x600000 14 5 (addr 62) (ucast (0x23 :: WORD)) c1 s = Some (Killed, c2, s2)" "gone pid s2" by (simp, metis)
    have "s\<lparr>ram := ram s\<rparr> = s" by simp
    then have "runs_on addr world d ?u c1 s acts' = Some (Faulted Killed, acts', c2, s2)" for acts'
      using at_the_load [OF p(1), of "user_page s" d "ram s"] user(2) k(1) traps_at(7) p by (subst runs_on.simps) (simp add: Let_def)
    then show ?thesis using c1 False k(2) by auto
  qed
qed

text \<open>C26: The demonstration for ring 3, on the kernel. Loaded into the code area and started with the user code selector, while the other
  processes let it run, it tells the screen its selector and privilege level, makes five dots 400 milliseconds apart and ends:
  without an argument by its exit call, else by the kernel, as soon as it reads the kernel's memory. Every call it makes succeeds.\<close>

theorem ring3_demonstration:
  assumes "pos u = 0" "csel u = ucast (USER_CODE_DESCRIPTOR_OFFSET OR RPL_USER)" and "demo_state pid s" "holds_data data_bytes d (ram s)"
    and "lets_run pid world" and "USER_CODE_ADDRESS \<le> d" "d + 62 \<le> USER_CODE_ADDRESS + USER_CODE_SIZE"
  shows "let arg = regs u RDI; line = (if arg = 0 then 10 else 12)
    in \<exists>c' s'. runs_on addr world d u c s [] = Some
        (if arg = 0 then Exited else Faulted Killed,
         Wrote line 2 (bytes ''Hello from Ring 3! CS=0x23 CPL=3'') #
           concat (map (\<lambda>i. [Slept 400, Wrote line (44 + of_nat i) (bytes ''.'')]) [0..<5]) @
           (if arg = 0 then [Wrote line 52 (bytes ''exit syscall''), Exits] else [Wrote line 52 (bytes ''read kernel->'')]), c', s') \<and>
      gone pid s'"
proof -
  have "csel u = 0x23" using assms(2) by (simp add: USER_CODE_DESCRIPTOR_OFFSET_def RPL_USER_def)
  from into_the_ticks [OF assms(1) this assms(3,4,6,7), of addr world c] obtain u1 c1 s1 where
    1: "runs_on addr world d u c s [] = runs_on addr world d u1 c1 s1 [Wrote (line_of (regs u RDI)) 2 (bytes ''Hello from Ring 3! CS=0x23 CPL=3'')]"
      "ticking 0 (regs u RDI) u1" "demo_state pid s1" "holds_data shown d (ram s1)" by blast
  let ?acts = "[Wrote (line_of (regs u RDI)) 2 (bytes ''Hello from Ring 3! CS=0x23 CPL=3'')]"
  from ticks [OF 1(2-4) assms(5-7) order_refl, of addr c1 ?acts] obtain u2 c2 s2 where
    2: "runs_on addr world d u1 c1 s1 ?acts = runs_on addr world d u2 c2 s2 (?acts @ tick_acts (regs u RDI) 5)"
      "ticking 5 (regs u RDI) u2" "demo_state pid s2" "holds_data shown d (ram s2)" by blast
  from out_of_the_ticks [OF 2(2-4) assms(6,7), of addr world c2 "?acts @ tick_acts (regs u RDI) 5"] show ?thesis
    unfolding 1(1) 2(1) Let_def by (cases "regs u RDI = 0") (simp_all add: tick_acts_def line_of_def)
qed

section \<open>Witness\<close>

lemma ring3_demonstration_witness:
  "\<exists>(s :: unit proc) pid world c' s'. demo_state pid s \<and> lets_run pid world \<and>
     runs_on (\<lambda>_. 0) world 0x3000100 \<lparr>regs = \<lambda>_. 0, csel = 0x23, zf = False, cf = False, pos = 0\<rparr> blank s [] =
       Some (Exited, Wrote 10 2 (bytes ''Hello from Ring 3! CS=0x23 CPL=3'') #
         concat (map (\<lambda>i. [Slept 400, Wrote 10 (44 + of_nat i) (bytes ''.'')]) [0..<5]) @ [Wrote 10 52 (bytes ''exit syscall''), Exits], c', s') \<and>
     gone pid s'"
proof -
  obtain s :: "unit proc" and pid where s: "user_runs pid s" using third_process_runs by (auto simp: user_runs_def)
  define s0 where "s0 = s\<lparr>pte := \<lambda>i. if i = 0x600 then 0 else PAGE_FLAG_US, ram := \<lambda>a. data_bytes ! (a - 0x3000100)\<rparr>"
  have "user_runs pid s0" using s by (auto simp: s0_def user_runs_def elim!: sched_okE intro!: sched_okI)
  then have d: "demo_state pid s0"
    by (auto simp: demo_state_def s0_def user_page_def PAGE_FLAG_US_def code_area_def memory_map_defs)
  have w: "lets_run pid (\<lambda>c x. (c, s0\<lparr>ram := ram x\<rparr>))" using d by (simp add: lets_run_def demo_ram)
  let ?u = "\<lparr>regs = \<lambda>_. 0, csel = 0x23, zf = False, cf = False, pos = 0\<rparr>"
  have u: "csel ?u = ucast (USER_CODE_DESCRIPTOR_OFFSET OR RPL_USER)" "pos ?u = 0"
    by (simp_all add: USER_CODE_DESCRIPTOR_OFFSET_def RPL_USER_def)
  have h: "holds_data data_bytes 0x3000100 (ram s0)" by (simp add: holds_data_def s0_def)
  have a: "USER_CODE_ADDRESS \<le> 0x3000100" "0x3000100 + 62 \<le> USER_CODE_ADDRESS + USER_CODE_SIZE" by (simp_all add: memory_map_defs)
  have "regs ?u RDI = 0" by simp
  from ring3_demonstration [OF u(2,1) d h w a, of "\<lambda>_. 0" blank, unfolded this Let_def] show ?thesis
    using d w by (intro exI [of _ s0] exI [of _ pid] exI [of _ "\<lambda>c x. (c, s0\<lparr>ram := ram x\<rparr>)"]) simp
qed

end
