(* ===== verification/Spec2Isabelle.thy ===== *)
theory Spec2Isabelle
  imports LibProps SchedProps SyncProps KeyboardProps ConsoleProps FatProps DiskProps PagingProps BootImageProps Loader Handlers Syscall DescriptorProps EditorProps SessionProps Stubs Switch DiskWakeup ListPrint UserProgram
begin

text \<open>
  Verification of skhuOS, a small operating system for x86-64: boot sector, 32-bit loader, 64-bit kernel with
  preemptive processes, mutexes, drivers for screen, keyboard, timer and ATA disk, a file system, system calls from
  ring 3, an editor and a shell. The paths below are those under \<^verbatim>\<open>src/\<close>.

  \<^bold>\<open>The program and the theories that model it.\<close> A theory without a source holds lemmas or properties.

  \<^item> \<open>SkhuPrelude\<close>, \<open>PhysMem\<close>: the integer types of \<^verbatim>\<open>common/Type.h\<close> as words, C
    pointers as natural numbers, memory as a function from addresses to bytes, little-endian fields.
  \<^item> \<open>LinkedList\<close>, \<open>RingQueue\<close>, \<open>CString\<close>: \<^verbatim>\<open>kernel/lib/LinkedList.c\<close>, \<^verbatim>\<open>kernel/lib/Queue.c\<close>,
    \<^verbatim>\<open>common/String.c\<close>, \<^verbatim>\<open>common/util.c\<close>. The list is intrusive: its operations work on a map from addresses to
    nodes, so that two lists that share a node would interfere. Properties in \<open>LibProps\<close>, \<^verbatim>\<open>printList\<close> in
    \<open>ListPrint\<close>.
  \<^item> \<open>Hardware\<close>: \<^verbatim>\<open>kernel/arch/portControl.asm\<close>, \<^verbatim>\<open>kernel/drivers/PIC.c\<close>, \<^verbatim>\<open>PIT.c\<close>. The device behind the ports is a
    type variable with the functions of a record \<open>portio\<close>, an argument of every operation that touches a port.
  \<^item> \<open>Process\<close>: \<^verbatim>\<open>kernel/proc/Process.c\<close>, \<^verbatim>\<open>kernel/arch/ContextSwitching.asm\<close>, the interrupt flag of \<^verbatim>\<open>Sync.c\<close>. The
    record \<open>proc\<close> holds the PCBs and list nodes by address, the static variables of \<^verbatim>\<open>Process.c\<close>, the registers of the
    processor and the present and user bits of the page table. \<open>Scheduler\<close> (the invariant \<open>sched_rel\<close>),
    \<open>SchedulerOps\<close> (timer, sleeping, waking and their abstract counterparts on \<open>asched\<close>), \<open>Lifecycle\<close>
    (creation, exit, collection, boot) and \<open>Parking\<close> (blocked processes in lists of other parts) prove that every
    operation keeps the invariant; properties in \<open>SchedProps\<close>.
  \<^item> \<open>Sync\<close>: \<^verbatim>\<open>kernel/proc/Sync.c\<close>; refinement of a FIFO lock in \<open>SyncProps\<close>.
  \<^item> \<open>Keyboard\<close>, \<open>KeyboardProps\<close>: \<^verbatim>\<open>kernel/drivers/Keyboard.c\<close>.
  \<^item> \<open>Console\<close>, \<open>ConsoleProps\<close>: \<^verbatim>\<open>common/Print.c\<close> over the bytes of video memory.
  \<^item> \<open>Disk\<close>: \<^verbatim>\<open>kernel/drivers/Disk.c\<close>. \<open>DiskOps\<close> (the ATA protocol and the contract \<open>ata_drive\<close>),
    \<open>DiskTransfers\<close> (reading and writing) and \<open>DiskProps\<close> (the driver as the device of the file system), for a drive
    that follows the protocol; \<open>DiskTimeouts\<close> for a drive that does anything, or none; \<open>DiskWakeup\<close>, the driver's wait on the
    kernel's own interrupt handlers.
  \<^item> \<open>Fat\<close>: \<^verbatim>\<open>kernel/fs/FAT.c\<close>. \<open>FatOps\<close>, \<open>FatFiles\<close>, \<open>FatFormat\<close> (behaviour on a device that keeps its
    contract), \<open>FatSpec\<close>, \<open>FatSteps\<close> (every operation as an update of the map from names to files),
    \<open>FatProps\<close>.
  \<^item> \<open>Handlers\<close>: \<^verbatim>\<open>kernel/arch/HandlerImp.c\<close>; \<open>Syscall\<close>: \<^verbatim>\<open>kernel/syscall/Syscall.c\<close>; \<open>Descriptor\<close>,
    \<open>DescriptorProps\<close>: \<^verbatim>\<open>kernel/arch/Descriptor.c\<close>; \<open>Memory\<close>: \<^verbatim>\<open>kernel/mm/Memory.c\<close>.
  \<^item> \<open>Stubs\<close>: \<^verbatim>\<open>kernel/arch/Handler.asm\<close>, the entry stubs as instructions on registers and memory, and what the processor
    does before and after them; \<open>Switch\<close>: the instructions of \<^verbatim>\<open>kernel/arch/ContextSwitching.asm\<close>;
    \<open>UserProgram\<close>: \<^verbatim>\<open>kernel/user/UserProgram.asm\<close>, the demonstration for ring 3, on the kernel's system calls.
  \<^item> \<open>Paging\<close>, \<open>PagingProps\<close>: \<^verbatim>\<open>loader/Page.c\<close>, the translation of addresses, and what ring 3 reaches in any
    run of the kernel (\<open>kernel_step\<close>). \<open>Loader\<close>: \<^verbatim>\<open>loader/Main.c\<close>, \<^verbatim>\<open>loader/32bit.c\<close>.
  \<^item> \<open>BootImage\<close>, \<open>BootImageOps\<close>, \<open>BootImageProps\<close>: \<^verbatim>\<open>tools/imagemaker/ImageMaker.c\<close>, the reads of
    \<^verbatim>\<open>boot/BootLoader.asm\<close>, and the copying of the kernel.
  \<^item> \<open>Editor\<close>, \<open>EditorProps\<close>: \<^verbatim>\<open>kernel/shell/editor.c\<close>; \<open>Shell\<close>, \<open>ShellProps\<close>, \<open>ShellSystem\<close>:
    \<^verbatim>\<open>kernel/shell/Shell.c\<close>; \<open>KernelMain\<close>, \<open>BootProps\<close>: \<^verbatim>\<open>kernel/Main.c\<close>.
  \<^item> \<open>SessionProps\<close>: all parts together, from power on to a file created at the prompt.

  \<^bold>\<open>State.\<close> Each layer extends the record of the one below: \<open>hw\<close> (device, interrupt controller, timer), \<open>proc\<close>,
  \<open>ksync\<close> (mutexes by address), \<open>kbd\<close>, \<open>dsk\<close>; the file system's record \<open>fat\<close> holds a disk and the
  console, and the shell's record holds the file system, the editor's buffer and the memory bitmap. An operation takes the state and
  returns the new one. Interrupt handlers share the kernel's state with the code they interrupt and are steps on the same state.

  \<^bold>\<open>Results and loops.\<close> \<open>None\<close> is a run that does not return or that reads or writes outside its array; every
  theorem on what a function does also states that it returns. A loop that polls a device is a
  \<open>partial_function\<close>; the code bounds most of them by a stopwatch. The endless loops of the shell and the editor take
  the number of keys they read as fuel, so a theorem names exactly the keys it is about. \<open>getKey\<close>, \<open>acquireLock\<close>
  and the waits of the disk driver stop where the process is blocked; what runs until it is resumed is an argument \<open>resume\<close>.

  \<^bold>\<open>Contracts.\<close> \<open>node_lists\<close> (the list under its client), \<open>bounded_fifo\<close> (the ring buffer), \<open>blocking\<close>
  (blocking and waking, for mutexes), \<open>block_device\<close> (two transfer functions, for the file system), \<open>ata_drive\<close> (a drive
  that follows the ATA protocol), \<open>disk_system\<close> (in addition, the drive completes and the owner of the driver's mutex
  finishes while a process waits), \<open>running_counter\<close> (the interval timer counts, and an access to a port takes a bounded time)
  and \<open>timed_driver\<close> (in addition, a process is resumed at its deadline). The first three are interpreted on the code's own operations;
  \<open>block_device\<close> on the disk driver, for every \<open>disk_system\<close>, and on a disk in memory; the others, which describe hardware and the
  other processes, on an ideal drive and on an interval timer without a drive. These last instances only show that the contracts can
  hold: \<open>ideal_resume\<close> and \<open>timer_resume\<close> resume a process in one fixed state of the kernel. That the kernel's own handlers
  resume the process that waits for the disk is proved without them, in \<open>DiskWakeup\<close>.

  \<^bold>\<open>What is shown.\<close> The scheduler refines a round robin with a list of sleepers, it is fair, sleepers wake on
  time, processes are created, end and are collected without a loss other than the one the theorems name. Mutexes are FIFO locks. Every
  interrupt and every system call keeps the invariant of the whole kernel; the one interrupt that may not return is the keyboard's, when the
  controller never sends a byte it announced. A fault in ring 3 ends only the process that raised it, one in the kernel stops the system, each
  with its report on the console. No system call looks at memory outside user memory.
  On the level of registers, an interrupted program goes on with all of them, a switch loads those of the next process, a system call changes \<open>RAX\<close> only
  and a stored context resumes the caller of the switch.
  Below \<^verbatim>\<open>0x81400000\<close> ring 3 reaches its own pages only; the page-table entries of the addresses from there to 4 GB are overwritten by the
  descriptor tables and the kernel image, whose bytes decide. The buffer of the keyboard is a bounded FIFO and a blocked reader gets its key. The disk driver reads and writes
  the sectors of the drive; whatever the drive does, every transfer ends, and the disk's interrupt ends the wait for it. The file system on top of the driver is a map of files that survives on the drive; two names
  may share a cluster, and then writing one file changes the other. A built image is loaded and mapped as intended,
  and \<^verbatim>\<open>Main\<close> brings the kernel up from any contents of memory, to a prompt at which a drive can be formatted, mounted and written. The editor and the shell do to the drive and to the processes what the keys
  say. Some theorems state defects: two files that share a cluster, a deletion that frees the directory's own link, a command line that leaves its buffer, output that ring 3 steers, ports that
  ring 3 may use.

  \<^bold>\<open>Bounds.\<close> Integers have their width where they can wrap: words for counters, addresses and on-disk fields,
  and \<open>int\<close> for C's signed variables whose range the hypotheses or the code keep below \<open>2 ^ 31\<close>. The tick
  counter is assumed below \<open>2 ^ 63\<close> where a deadline is added to it, and a drive has at most \<open>2 ^ 28\<close> sectors, the reach of
  the driver's addresses.

  \<^bold>\<open>Not modelled.\<close> The switches of the processor's mode and the entry code (\<^verbatim>\<open>boot/BootLoader.asm\<close> but for its
  reads, \<^verbatim>\<open>loader/Entry.s\<close>, \<^verbatim>\<open>loader/SwitchToIA32.asm\<close>, \<^verbatim>\<open>kernel/arch/Entry.s\<close>): BIOS calls and loads of
  control registers, which the model starts behind. Build scripts and linker scripts, whose addresses are arguments, as are the
  addresses the compiler and the assembler choose. As the static variables are fields of the state, not bytes at addresses, that clearing the
  area of the static variables zeroes them is a definition (\<open>clear_kernel\<close>, \<open>clear_statics\<close>); the clearing of the bytes is
  modelled beside it. The actions that \<open>UserProgram\<close> logs are what the program asks for and the kernel's answer; what they do to the
  screen is the subject of \<open>Syscall\<close>. The headers' constants that no code uses have no definition.
\<close>

end
